(* ===== verification/Tesla_Prelude.thy ===== *)
theory Tesla_Prelude
  imports Main "HOL-Library.Word"
begin

text \<open>
  Shared vocabulary of the development.

  \<^item> The integer types of libtesla: \<open>uint32_t\<close> is \<open>u32\<close>, \<open>uintptr_t\<close> (on the 64-bit
    targets the code is built for) is \<open>uintptr\<close>.
  \<^item> The outcome of running C code: a value, or the reason why the process does not get past
    the call (\<open>abort\<close>): a failed \<open>assert\<close> of the debug build, a \<open>tesla_panic\<close>, an access
    that C leaves undefined, or a mutex that never becomes free.  \<open>bindE\<close> sequences two
    such computations, as a C statement sequence does.
  \<^item> \<open>rets\<close>, a weakest-precondition view of \<open>bindE\<close> for partial statements (what holds
    whenever the code returns), with its rules collected in \<open>wp\<close>.
  \<^item> List lemmas about counting elements and updating one slot, which the proofs about the
    fixed-size instance arrays share.
\<close>

unbundle bit_operations_syntax

type_synonym u32 = "32 word"
type_synonym uintptr = "64 word"

named_theorems wp \<open>rules that push a postcondition through a computation\<close>
named_theorems raise_rules \<open>rules about the events a computation may raise\<close>
named_theorems tesla_inv \<open>preservation of the class and store invariants\<close>

subsection \<open>Outcomes of C code\<close>

datatype abort =
    Assertion string   \<comment> \<open>\<open>assert()\<close> failed (debug build)\<close>
  | Panic string       \<comment> \<open>\<open>tesla_panic()\<close>, i.e. \<open>errx(1, ...)\<close>\<close>
  | Undefined string   \<comment> \<open>NULL dereference or access outside an array\<close>
  | Blocked            \<comment> \<open>waits for a mutex that nobody releases\<close>

type_synonym 'a res = "abort + 'a"

definition bindE :: "'a res \<Rightarrow> ('a \<Rightarrow> 'b res) \<Rightarrow> 'b res" where
  "bindE m f = (case m of Inl e \<Rightarrow> Inl e | Inr x \<Rightarrow> f x)"

definition assertE :: "string \<Rightarrow> bool \<Rightarrow> unit res" where
  "assertE what c = (if c then Inr () else Inl (Assertion what))"

text \<open>\<open>xs[i]\<close>, with the out-of-range access made explicit.\<close>

definition nthE :: "string \<Rightarrow> 'a list \<Rightarrow> nat \<Rightarrow> 'a res" where
  "nthE what xs i = (if i < length xs then Inr (xs ! i) else Inl (Undefined what))"

text \<open>Dereferencing a pointer that may be NULL.\<close>

definition derefE :: "string \<Rightarrow> 'a option \<Rightarrow> 'a res" where
  "derefE what p = (case p of None \<Rightarrow> Inl (Undefined what) | Some x \<Rightarrow> Inr x)"

lemma bindE_simps [simp]:
  "bindE (Inl e) f = Inl e"
  "bindE (Inr x) f = f x"
  by (simp_all add: bindE_def)

lemma bindE_cong [fundef_cong]:
  "m = m' \<Longrightarrow> (\<And>x. m' = Inr x \<Longrightarrow> f x = g x) \<Longrightarrow> bindE m f = bindE m' g"
  by (auto simp: bindE_def split: sum.splits)

lemma bindE_eq_Inr: "bindE m f = Inr y \<longleftrightarrow> (\<exists>x. m = Inr x \<and> f x = Inr y)"
  by (cases m) auto

lemma bindE_eq_Inl: "bindE m f = Inl e \<longleftrightarrow> m = Inl e \<or> (\<exists>x. m = Inr x \<and> f x = Inl e)"
  by (cases m) auto

lemma bindE_assoc: "bindE (bindE m f) g = bindE m (\<lambda>x. bindE (f x) g)"
  by (cases m) auto

lemma assertE_simps [simp]:
  "assertE what True = Inr ()"
  "assertE what False = Inl (Assertion what)"
  "assertE what c = Inr u \<longleftrightarrow> c"
  by (simp_all add: assertE_def)

lemma nthE_in [simp]: "i < length xs \<Longrightarrow> nthE what xs i = Inr (xs ! i)"
  by (simp add: nthE_def)

lemma nthE_out [simp]: "length xs \<le> i \<Longrightarrow> nthE what xs i = Inl (Undefined what)"
  by (simp add: nthE_def)

lemma nthE_eq_Inr: "nthE what xs i = Inr x \<longleftrightarrow> i < length xs \<and> x = xs ! i"
  by (auto simp: nthE_def)

lemma derefE_simps [simp]:
  "derefE what None = Inl (Undefined what)"
  "derefE what (Some x) = Inr x"
  by (simp_all add: derefE_def)

lemma derefE_eq_Inr: "derefE what p = Inr x \<longleftrightarrow> p = Some x"
  by (cases p) auto

text \<open>Inverting a case distinction on the value of a computation.\<close>

lemma sum_case_eq:
  "(case x of Inl a \<Rightarrow> f a | Inr b \<Rightarrow> g b) = y \<longleftrightarrow>
   (\<exists>a. x = Inl a \<and> f a = y) \<or> (\<exists>b. x = Inr b \<and> g b = y)"
  by (cases x) auto

lemma option_case_eq:
  "(case x of None \<Rightarrow> f | Some b \<Rightarrow> g b) = y \<longleftrightarrow>
   (x = None \<and> f = y) \<or> (\<exists>b. x = Some b \<and> g b = y)"
  by (cases x) auto

lemma prod_case_eq: "(case x of (a, b) \<Rightarrow> f a b) = y \<longleftrightarrow> (\<exists>a b. x = (a, b) \<and> f a b = y)"
  by (cases x) auto

lemma if_eq_iff: "(if c then a else b) = y \<longleftrightarrow> (c \<and> a = y) \<or> (\<not> c \<and> b = y)"
  by simp

lemmas case_eqs = sum_case_eq option_case_eq prod_case_eq if_eq_iff

lemmas E_eq_Inr = bindE_eq_Inr nthE_eq_Inr derefE_eq_Inr

subsection \<open>Postconditions of computations\<close>

text \<open>\<open>rets m Q\<close>: whatever \<open>m\<close> returns, if it returns, satisfies \<open>Q\<close>.\<close>

definition rets :: "'a res \<Rightarrow> ('a \<Rightarrow> bool) \<Rightarrow> bool" where
  "rets m Q \<longleftrightarrow> (\<forall>x. m = Inr x \<longrightarrow> Q x)"

lemma rets_Inr [simp]: "rets (Inr x) Q = Q x"
  by (simp add: rets_def)

lemma rets_Inl [simp]: "rets (Inl e) Q"
  by (simp add: rets_def)

lemma rets_bindE [wp]: "rets m (\<lambda>x. rets (f x) Q) \<Longrightarrow> rets (bindE m f) Q"
  by (cases m) simp_all

lemma rets_assertE [wp]: "(c \<Longrightarrow> Q ()) \<Longrightarrow> rets (assertE what c) Q"
  by (simp add: assertE_def)

lemma rets_nthE [wp]: "(i < length xs \<Longrightarrow> Q (xs ! i)) \<Longrightarrow> rets (nthE what xs i) Q"
  by (simp add: nthE_def)

lemma rets_derefE [wp]: "(\<And>x. p = Some x \<Longrightarrow> Q x) \<Longrightarrow> rets (derefE what p) Q"
  by (cases p) simp_all

lemma rets_mono: "rets m Q \<Longrightarrow> (\<And>x. Q x \<Longrightarrow> R x) \<Longrightarrow> rets m R"
  by (simp add: rets_def)

lemma rets_conj: "rets m Q \<Longrightarrow> rets m R \<Longrightarrow> rets m (\<lambda>x. Q x \<and> R x)"
  by (simp add: rets_def)

lemma retsD: "rets m Q \<Longrightarrow> m = Inr x \<Longrightarrow> Q x"
  by (simp add: rets_def)

lemma rets_if [wp]: "(c \<Longrightarrow> rets a Q) \<Longrightarrow> (\<not> c \<Longrightarrow> rets b Q) \<Longrightarrow> rets (if c then a else b) Q"
  by simp

subsection \<open>Lists\<close>

text \<open>How many elements of a list satisfy a predicate.\<close>

definition countp :: "('a \<Rightarrow> bool) \<Rightarrow> 'a list \<Rightarrow> nat" where
  "countp P xs = length (filter P xs)"

lemma countp_simps [simp]:
  "countp P [] = 0"
  "countp P (x # xs) = (if P x then Suc (countp P xs) else countp P xs)"
  "countp P (xs @ ys) = countp P xs + countp P ys"
  by (simp_all add: countp_def)

lemma countp_le_length: "countp P xs \<le> length xs"
  by (simp add: countp_def)

lemma countp_not: "countp P xs + countp (\<lambda>x. \<not> P x) xs = length xs"
  by (simp add: countp_def sum_length_filter_compl)

lemma countp_update:
  "i < length xs \<Longrightarrow>
   countp P (xs[i := y]) + (if P (xs ! i) then 1 else 0) =
   countp P xs + (if P y then 1 else 0)"
proof (induction xs arbitrary: i)
  case (Cons x xs)
  then show ?case by (cases i) auto
qed simp

lemma countp_update_mono:
  "i < length xs \<Longrightarrow> (P (xs ! i) \<Longrightarrow> P y) \<Longrightarrow> countp P xs \<le> countp P (xs[i := y])"
  using countp_update [of i xs P y] by (auto split: if_splits)

lemma countp_0_iff: "countp P xs = 0 \<longleftrightarrow> (\<forall>x \<in> set xs. \<not> P x)"
  by (simp add: countp_def filter_empty_conv)

lemma countp_pos: "0 < countp P xs \<longleftrightarrow> (\<exists>i < length xs. P (xs ! i))"
proof -
  have "0 < countp P xs \<longleftrightarrow> (\<exists>x \<in> set xs. P x)"
    using countp_0_iff [of P xs] by auto
  also have "\<dots> \<longleftrightarrow> (\<exists>i < length xs. P (xs ! i))"
    by (fastforce simp: in_set_conv_nth)
  finally show ?thesis .
qed

lemma ex_nth_set: "(\<exists>j \<in> set [0..<length xs]. P (xs ! j)) \<longleftrightarrow> (\<exists>x \<in> set xs. P x)"
  by (fastforce simp: in_set_conv_nth)

lemma drop_all_nth:
  assumes "\<forall>x \<in> set (drop i xs). P x" and "j \<in> set [i..<length xs]"
  shows "P (xs ! j)"
  using assms nth_mem [of "j - i" "drop i xs"] by fastforce

lemma map_update_same: "f x = f (xs ! i) \<Longrightarrow> map f (xs[i := x]) = map f xs"
  by (cases "i < length xs") (simp_all add: map_update list_update_same_conv list_update_beyond)

lemma countp_replicate [simp]: "countp P (replicate n x) = (if P x then n else 0)"
  by (induction n) auto

subsection \<open>Words\<close>

lemma unat_dec: "(x :: u32) \<noteq> 0 \<Longrightarrow> unat (x - 1) = unat x - 1"
  by (simp add: unat_minus_one)

lemma unat_bound: "unat (w :: u32) < 2 ^ LENGTH(32)"
  using unsigned_less [of w, where ?'a = nat] by simp

lemma sint_small: "unat (w :: u32) < 2 ^ 31 \<Longrightarrow> sint w = int (unat w)"
proof -
  assume "unat w < 2 ^ 31"
  then have "int (unat w) < int (2 ^ 31)"
    by (simp only: of_nat_less_iff)
  then have "uint w < 2 ^ 31" by simp
  then have "signed_take_bit 31 (uint w) = uint w"
    by (intro signed_take_bit_int_eq_self) (auto intro: order_trans [of _ 0])
  then show "sint w = int (unat w)"
    by (simp add: sint_uint)
qed

lemma unat_pos_iff: "0 < unat (x :: u32) \<longleftrightarrow> x \<noteq> 0"
  using unat_gt_0 [of x] by simp

end
