(* ===== verification/Tesla_IR.thy ===== *)
theory Tesla_IR
  imports Tesla_Prelude
begin

text \<open>
  The intermediate representation of assertions: the messages of \<open>tesla/common/tesla.proto\<close>, and
  the functions of \<open>Protocol.cpp\<close>, \<open>Protocol.h\<close> and \<open>Names.cpp\<close> on them.

  A message is a record or datatype of its fields: an \<open>optional\<close> field is an \<open>option\<close>, and what
  the generated accessor returns for an unset field is its declared default or the zero value of
  its type (\<open>getD\<close>).  \<open>Expression\<close> and \<open>BooleanExpr\<close> carry the one sub-message that their type
  selects.  The comparison \<open>operator ==\<close> of messages compares the set fields, so on this
  representation it is equality.
\<close>

subsection \<open>Messages\<close>

datatype arg_type = Constant_arg | Variable_arg | Any_arg | Indirect_arg | Field_arg

datatype match_type = Exact_match | Flags_match | Mask_match

datatype argument =
  Argument (a_type: arg_type) (a_index: "int option") (a_name: "string option") (a_free: "bool option")
    (a_value: "int option") (a_match: "match_type option") (a_indirection: "argument option")
    (a_field: "struct_field option")
and struct_field =
  StructField (sf_type: string) (sf_base: argument) (sf_name: string) (sf_index: int)

record ir_location =
  loc_filename :: string
  loc_line :: int
  loc_counter :: int

record ir_identifier =
  id_name :: "string option"
  id_location :: "ir_location option"

datatype direction = Entry | Exit

datatype call_context = Caller | Callee

datatype call_kind = CCall | ObjCInstanceMessage | ObjCClassMessage | ObjCSuperMessage

record function_event =
  fe_function :: string
  fe_direction :: "direction option"
  fe_context :: "call_context option"
  fe_argument :: "argument list"
  fe_expected :: "argument option"
  fe_strict :: "bool option"
  fe_kind :: "call_kind option"
  fe_receiver :: "argument option"

datatype assign_type = SimpleAssign | PlusEqual | MinusEqual

record field_assignment =
  fa_field :: struct_field
  fa_operation :: assign_type
  fa_value :: argument
  fa_strict :: "bool option"

datatype bool_op = BE_And | BE_Or | BE_Xor

datatype expression =
    Boolean_expr bool_op "expression list"
  | Sequence_expr "expression list" "int option" "int option" \<comment> \<open>\<open>minReps\<close>, \<open>maxReps\<close>\<close>
  | Null_expr
  | Assertion_site ir_location
  | Function_expr function_event
  | Field_assign_expr field_assignment
  | Sub_automaton_expr ir_identifier

datatype ir_context = Global_context | Thread_context

record automaton_description =
  ad_identifier :: ir_identifier
  ad_context :: ir_context
  ad_expression :: expression
  ad_argument :: "argument list"
  ad_source :: "string option"

record usage =
  us_identifier :: ir_identifier
  us_beginning :: "expression option"
  us_end :: "expression option"

text \<open>The accessor of an optional field with its default.\<close>

definition getD :: "'a \<Rightarrow> 'a option \<Rightarrow> 'a" where
  "getD d x = (case x of None \<Rightarrow> d | Some v \<Rightarrow> v)"

definition no_location :: ir_location where
  "no_location = \<lparr>loc_filename = [], loc_line = 0, loc_counter = 0\<rparr>"

definition fn_strict :: "function_event \<Rightarrow> bool" where
  "fn_strict ev = getD True (fe_strict ev)"

definition assign_strict :: "field_assignment \<Rightarrow> bool" where
  "assign_strict a = getD True (fa_strict a)"

subsection \<open>Arguments\<close>

definition ArgIndex :: "argument \<Rightarrow> int" where
  "ArgIndex a = (case a_type a of
     Any_arg \<Rightarrow> -1
   | Constant_arg \<Rightarrow> -1
   | _ \<Rightarrow> getD 0 (a_index a))"

text \<open>An unset sub-message reads as its default instance, whose type is the first enumerator,
  \<open>Constant\<close>; so following one that is not set ends in the assertion.\<close>

function BaseName :: "argument \<Rightarrow> string res" where
  "BaseName a = (case a_type a of
     Any_arg \<Rightarrow> Inl (Assertion ''called BaseName() on a non-variable Argument'')
   | Constant_arg \<Rightarrow> Inl (Assertion ''called BaseName() on a non-variable Argument'')
   | Variable_arg \<Rightarrow> Inr (getD [] (a_name a))
   | Indirect_arg \<Rightarrow> (case a_indirection a of
       None \<Rightarrow> Inl (Assertion ''called BaseName() on a non-variable Argument'')
     | Some b \<Rightarrow> BaseName b)
   | Field_arg \<Rightarrow> (case a_field a of
       None \<Rightarrow> Inl (Assertion ''called BaseName() on a non-variable Argument'')
     | Some f \<Rightarrow> BaseName (sf_base f)))"
  by pat_completeness auto

lemma indirection_size: "a_indirection a = Some b \<Longrightarrow> size b < size a"
  by (cases a) simp

lemma field_size: "a_field a = Some f \<Longrightarrow> size (sf_base f) < size a"
  by (cases a; cases f) simp

termination BaseName
  by (relation "measure size") (auto dest: indirection_size field_size)

subsection \<open>Names\<close>

text \<open>The function whose calls mark assertions.\<close>

definition INLINE_ASSERTION :: string where
  "INLINE_ASSERTION = ''__tesla_inline_assertion''"

definition digit :: "nat \<Rightarrow> char" where
  "digit d = char_of (48 + d)"

function dec_nat :: "nat \<Rightarrow> string" where
  "dec_nat n = (if n < 10 then [digit n] else dec_nat (n div 10) @ [digit (n mod 10)])"
  by pat_completeness auto
termination
  by (relation "measure id") auto

declare dec_nat.simps [simp del]

text \<open>A \<open>Twine\<close> of an integer.\<close>

definition dec_int :: "int \<Rightarrow> string" where
  "dec_int i = (if i < 0 then CHR ''-'' # dec_nat (nat (- i)) else dec_nat (nat i))"

definition ConstantName :: "argument \<Rightarrow> string" where
  "ConstantName a = (case a_name a of Some n \<Rightarrow> n | None \<Rightarrow> dec_int (getD 0 (a_value a)))"

function ShortName :: "bool \<Rightarrow> argument \<Rightarrow> string res" where
  "ShortName decorate a = (case a_type a of
     Constant_arg \<Rightarrow> Inr (ConstantName a)
   | Variable_arg \<Rightarrow> Inr (getD [] (a_name a))
   | Any_arg \<Rightarrow> Inr ''X''
   | Indirect_arg \<Rightarrow> (case a_indirection a of
       None \<Rightarrow> Inl (Assertion ''A->has_indirection()'')
     | Some b \<Rightarrow> bindE (ShortName True b) (\<lambda>s. Inr ((if decorate then ''&'' else []) @ s)))
   | Field_arg \<Rightarrow> (case a_field a of
       None \<Rightarrow> Inl (Assertion ''A->has_field()'')
     | Some f \<Rightarrow> bindE (ShortName True (sf_base f)) (\<lambda>s. Inr (s @ ''.'' @ sf_name f))))"
  by pat_completeness auto
termination
  by (relation "measure (size \<circ> snd)") (auto dest: indirection_size field_size)

definition ShortName_ptr :: "bool \<Rightarrow> argument option \<Rightarrow> string res" where
  "ShortName_ptr decorate a = (case a of None \<Rightarrow> Inr ''X'' | Some x \<Rightarrow> ShortName decorate x)"

function DotName :: "bool \<Rightarrow> argument \<Rightarrow> string res" where
  "DotName decorate a = (case a_type a of
     Constant_arg \<Rightarrow> Inr (ConstantName a)
   | Variable_arg \<Rightarrow> Inr (getD [] (a_name a))
   | Any_arg \<Rightarrow> Inr ''&#8902;''
   | Indirect_arg \<Rightarrow> (case a_indirection a of
       None \<Rightarrow> Inl (Assertion ''A->has_indirection()'')
     | Some b \<Rightarrow> bindE (DotName True b) (\<lambda>s. Inr ((if decorate then ''&'' else []) @ s)))
   | Field_arg \<Rightarrow> (case a_field a of
       None \<Rightarrow> Inl (Assertion ''A->has_field()'')
     | Some f \<Rightarrow> bindE (ShortName True (sf_base f)) (\<lambda>s. Inr (s @ ''.'' @ sf_name f))))"
  by pat_completeness auto
termination
  by (relation "measure (size \<circ> snd)") (auto dest: indirection_size)

definition DotName_ptr :: "bool \<Rightarrow> argument option \<Rightarrow> string res" where
  "DotName_ptr decorate a = (case a of None \<Rightarrow> Inr ''&#8902;'' | Some x \<Rightarrow> DotName decorate x)"

declare BaseName.simps [simp del] ShortName.simps [simp del] DotName.simps [simp del]

definition location_name :: "ir_location \<Rightarrow> string" where
  "location_name l = loc_filename l @ '':'' @ dec_int (loc_line l) @ ''#'' @ dec_int (loc_counter l)"

definition identifier_name :: "ir_identifier \<Rightarrow> string" where
  "identifier_name i = (case id_name i of
     Some n \<Rightarrow> n
   | None \<Rightarrow> location_name (getD no_location (id_location i)))"

text \<open>The comma-separated names of the references, in parentheses.\<close>

fun join_names :: "string res list \<Rightarrow> string res" where
  "join_names [] = Inr []"
| "join_names [s] = s"
| "join_names (s # ss) = bindE s (\<lambda>x. bindE (join_names ss) (\<lambda>y. Inr (x @ '','' @ y)))"

definition InstanceName :: "bool \<Rightarrow> bool \<Rightarrow> argument option list \<Rightarrow> string res" where
  "InstanceName ascii decorate refs =
     (if refs = [] then Inr []
      else bindE (join_names (map (if ascii then ShortName_ptr decorate else DotName_ptr decorate) refs))
        (\<lambda>s. Inr (''('' @ s @ '')'')))"

subsection \<open>Orders\<close>

text \<open>\<open>strcmp\<close> on names without NUL.\<close>

fun string_less :: "string \<Rightarrow> string \<Rightarrow> bool" where
  "string_less [] [] = False"
| "string_less [] (_ # _) = True"
| "string_less (_ # _) [] = False"
| "string_less (x # xs) (y # ys) =
     ((of_char x :: nat) < of_char y \<or> x = y \<and> string_less xs ys)"

definition location_less :: "ir_location \<Rightarrow> ir_location \<Rightarrow> bool" where
  "location_less x y =
     (if string_less (loc_filename x) (loc_filename y) then True
      else if string_less (loc_filename y) (loc_filename x) then False
      else if loc_line x < loc_line y then True
      else if loc_line x > loc_line y then False
      else loc_counter x < loc_counter y)"

definition identifier_less :: "ir_identifier \<Rightarrow> ir_identifier \<Rightarrow> bool" where
  "identifier_less x y = (case id_name x of
     Some n \<Rightarrow> (case id_name y of None \<Rightarrow> True | Some m \<Rightarrow> string_less n m)
   | None \<Rightarrow> location_less (getD no_location (id_location x)) (getD no_location (id_location y)))"

subsection \<open>The orders are strict orders\<close>

lemma string_less_irrefl [simp]: "\<not> string_less s s"
  by (induction s) auto

lemma string_less_trans: "string_less a b \<Longrightarrow> string_less b c \<Longrightarrow> string_less a c"
proof (induction a b arbitrary: c rule: string_less.induct)
  case (4 x xs y ys)
  then show ?case by (cases c) auto
qed (auto elim: string_less.elims)

lemma string_less_total: "a \<noteq> b \<Longrightarrow> string_less a b \<or> string_less b a"
proof (induction a b rule: string_less.induct)
  case (4 x xs y ys)
  then show ?case using linorder_neqE_nat [of "of_char x" "of_char y"] by auto
qed auto

lemma string_less_asym: "string_less a b \<Longrightarrow> \<not> string_less b a"
  using string_less_trans by fastforce

lemma location_less_iff:
  "location_less x y \<longleftrightarrow> string_less (loc_filename x) (loc_filename y)
     \<or> loc_filename x = loc_filename y \<and> (loc_line x < loc_line y
       \<or> loc_line x = loc_line y \<and> loc_counter x < loc_counter y)"
  using string_less_total [of "loc_filename x" "loc_filename y"]
    string_less_asym [of "loc_filename x" "loc_filename y"]
  by (auto simp: location_less_def)

lemma location_less_irrefl: "\<not> location_less x x"
  by (simp add: location_less_iff)

lemma location_less_trans: "location_less x y \<Longrightarrow> location_less y z \<Longrightarrow> location_less x z"
  unfolding location_less_iff by (auto dest: string_less_trans)

lemma location_less_total: "x \<noteq> y \<Longrightarrow> location_less x y \<or> location_less y x"
  unfolding location_less_iff
  using string_less_total [of "loc_filename x" "loc_filename y"]
  by (cases x; cases y) auto

end
