(* ===== verification/Tesla_Automaton.thy ===== *)
theory Tesla_Automaton
  imports Tesla_IR "HOL-Library.Multiset"
begin

text \<open>
  Automata under construction (\<open>tesla/common/State.cpp\<close>, \<open>Transition.cpp\<close>, \<open>Transition.h\<close> and
  the \<open>Automaton\<close> class).  States and transitions are heap objects that are never freed while an
  automaton is built and are found through two vectors, \<open>States\<close> and \<open>Transitions\<close>: a pointer is
  the position in its vector, and the two vectors are a \<open>graph\<close>.  The position of a state is its
  ID; the transitions a state owns are the positions in \<open>q_out\<close>.

  \<open>TEquivalenceClass\<close> is a small pointer set, walked in the order of insertion, with the position
  in the vector of classes as its symbol.
\<close>

subsection \<open>States and transitions\<close>

record state_node =
  q_name :: string
  q_start :: bool
  q_accept :: bool
  q_refs :: "argument option list option" \<comment> \<open>\<open>None\<close> until references are known\<close>
  q_out :: "nat list"

datatype trans_label =
    Null_t
  | Assert_t ir_location "argument list"
  | Fn_t function_event
  | Field_t field_assignment
  | Sub_t ir_identifier

record edge =
  e_label :: trans_label
  e_from :: nat
  e_to :: nat
  e_init :: bool
  e_cleanup :: bool
  e_oos :: bool \<comment> \<open>\<open>OutOfScope\<close>\<close>

record graph =
  g_states :: "state_node list"
  g_edges :: "edge list"

definition empty_graph :: graph where
  "empty_graph = \<lparr>g_states = [], g_edges = []\<rparr>"

text \<open>\<open>State::Builder::Build\<close>; a \<open>RefCount\<close> of -1 is \<open>None\<close>.\<close>

definition build_state :: "string \<Rightarrow> bool \<Rightarrow> bool \<Rightarrow> nat option \<Rightarrow> graph \<Rightarrow> graph \<times> nat" where
  "build_state name start accept refcount g =
     (g\<lparr>g_states := g_states g @ [\<lparr>q_name = name, q_start = start, q_accept = accept,
          q_refs = map_option (\<lambda>n. replicate n None) refcount, q_out = []\<rparr>]\<rparr>,
      length (g_states g))"

definition AddTransition :: "nat \<Rightarrow> nat \<Rightarrow> graph \<Rightarrow> graph" where
  "AddTransition s t g =
     (let q = g_states g ! s in g\<lparr>g_states := (g_states g)[s := q\<lparr>q_out := q_out q @ [t]\<rparr>]\<rparr>)"

definition References :: "state_node \<Rightarrow> argument option list" where
  "References q = getD [] (q_refs q)"

text \<open>Bits of the variables that are known in a state.\<close>

fun refs_mask :: "argument option list \<Rightarrow> u32" where
  "refs_mask [] = 0"
| "refs_mask (None # rs) = refs_mask rs"
| "refs_mask (Some a # rs) =
     (if ArgIndex a < 0 then refs_mask rs else push_bit (nat (ArgIndex a)) 1 OR refs_mask rs)"

definition state_mask :: "state_node \<Rightarrow> u32" where
  "state_mask q = refs_mask (References q)"

subsection \<open>What a transition says\<close>

fun EquivalentTo :: "trans_label \<Rightarrow> trans_label \<Rightarrow> bool" where
  "EquivalentTo Null_t Null_t = True"
| "EquivalentTo (Assert_t _ _) (Assert_t _ _) = True"
| "EquivalentTo (Fn_t a) (Fn_t b) = (a = b)"
| "EquivalentTo (Field_t a) (Field_t b) = (a = b)"
| "EquivalentTo (Sub_t a) (Sub_t b) = (a = b)"
| "EquivalentTo _ _ = False"

fun IsStrict :: "trans_label \<Rightarrow> bool" where
  "IsStrict (Fn_t ev) = fn_strict ev"
| "IsStrict (Field_t a) = assign_strict a"
| "IsStrict _ = False"

fun label_realisable :: "trans_label \<Rightarrow> bool" where
  "label_realisable Null_t = False"
| "label_realisable (Sub_t _) = False"
| "label_realisable _ = True"

fun trans_arguments :: "trans_label \<Rightarrow> argument list" where
  "trans_arguments Null_t = []"
| "trans_arguments (Assert_t _ refs) = refs"
| "trans_arguments (Fn_t ev) = fe_argument ev"
| "trans_arguments (Field_t a) = [sf_base (fa_field a), fa_value a]"
| "trans_arguments (Sub_t _) = []"

text \<open>Put an argument that names a variable at the position of the variable.\<close>

definition place_arg :: "argument option list \<Rightarrow> argument \<Rightarrow> argument option list" where
  "place_arg refs a =
     (if ArgIndex a < 0 then refs
      else let i = nat (ArgIndex a);
               refs' = refs @ replicate (Suc i - length refs) None
           in refs'[i := Some a])"

definition own_refs :: "trans_label \<Rightarrow> argument option list" where
  "own_refs l =
     (let refs = foldl place_arg [] (trans_arguments l) in
      case l of
        Fn_t ev \<Rightarrow> (case fe_receiver ev of None \<Rightarrow> refs | Some r \<Rightarrow> place_arg refs r)
      | _ \<Rightarrow> refs)"

definition ReferencesThusFar :: "graph \<Rightarrow> edge \<Rightarrow> argument option list" where
  "ReferencesThusFar g e =
     (let my = own_refs (e_label e);
          old = References (g_states g ! e_from e)
      in map (\<lambda>i. if i < length my \<and> my ! i \<noteq> None then my ! i else old ! i) [0..<length old])"

definition NewArguments :: "graph \<Rightarrow> edge \<Rightarrow> argument option list" where
  "NewArguments g e =
     (let old = References (g_states g ! e_from e);
          args = trans_arguments (e_label e)
      in map (\<lambda>i. if length old \<le> i \<or> old ! i = None then Some (args ! i) else None) [0..<length args])"

text \<open>A sum, so that a variable named twice is counted twice.\<close>

fun arg_mask :: "argument option list \<Rightarrow> int" where
  "arg_mask [] = 0"
| "arg_mask (None # as) = arg_mask as"
| "arg_mask (Some a # as) = (if ArgIndex a < 0 then 0 else 2 ^ nat (ArgIndex a)) + arg_mask as"

definition NewArgMask :: "graph \<Rightarrow> edge \<Rightarrow> int" where
  "NewArgMask g e = arg_mask (NewArguments g e)"

subsection \<open>Registering transitions\<close>

fun check_existing :: "argument option list \<Rightarrow> nat \<Rightarrow> argument option list \<Rightarrow> unit res" where
  "check_existing refs len [] = Inr ()"
| "check_existing refs len (None # as) = check_existing refs len as"
| "check_existing refs len (Some a # as) =
     (if ArgIndex a < 0 then check_existing refs len as
      else
        bindE (assertE ''Index <= Len'' (nat (ArgIndex a) \<le> len)) (\<lambda>_.
        bindE (nthE ''Refs[Index]'' refs (nat (ArgIndex a))) (\<lambda>existing.
        bindE (assertE ''*Arg == *Existing'' (existing = None \<or> existing = Some a)) (\<lambda>_.
          check_existing refs len as))))"

definition constant_mask :: "argument option list \<Rightarrow> u32" where
  "constant_mask refs =
     foldr (\<lambda>i m. (case refs ! i of
         Some a \<Rightarrow> if a_type a = Constant_arg then push_bit i 1 else 0
       | None \<Rightarrow> 0) OR m) [0..<length refs] 0"

definition UpdateReferences :: "nat \<Rightarrow> edge \<Rightarrow> graph \<Rightarrow> graph res" where
  "UpdateReferences s e g =
     (let q = g_states g ! s in
      if q_refs q \<noteq> None \<and> e_oos e then Inr g
      else
        let refs = ReferencesThusFar g e;
            count = length (filter (\<lambda>r. r \<noteq> None) refs)
        in bindE (assertE ''!VariableReferences || (NewRefCount == 0) || (Refs.size() == NewRefs.size())''
                    (q_refs q = None \<or> count = 0 \<or> length (References q) = length refs)) (\<lambda>_.
           bindE (assertE ''Len < 8 * sizeof(Mask())'' (length refs < 32)) (\<lambda>_.
             if q_refs q = None
             then Inr (g\<lparr>g_states := (g_states g)[s := q\<lparr>q_refs := Some refs\<rparr>]\<rparr>)
             else
               bindE (check_existing (References q) (length refs) refs) (\<lambda>_.
               bindE (assertE ''(Mask() & NewMask) == NewMask''
                        (state_mask q AND constant_mask refs = constant_mask refs)) (\<lambda>_.
                 Inr g)))))"

definition Register :: "edge \<Rightarrow> graph \<Rightarrow> graph res" where
  "Register e g =
     (let t = length (g_edges g);
          g1 = g\<lparr>g_edges := g_edges g @ [e]\<rparr>
      in bindE (assertE ''To.ID() != 0'' (e_to e \<noteq> 0)) (\<lambda>_.
         bindE (UpdateReferences (e_to e) e g1) (\<lambda>g2.
           Inr (AddTransition (e_from e) t g2))))"

text \<open>The constructor of \<open>Transition\<close> and the registration that follows it.\<close>

definition new_edge :: "trans_label \<Rightarrow> nat \<Rightarrow> nat \<Rightarrow> bool \<Rightarrow> bool \<Rightarrow> bool \<Rightarrow> graph \<Rightarrow> graph res" where
  "new_edge l src dst init cleanup oos g =
     bindE (assertE ''!Init || !OutOfScope'' (\<not> init \<or> \<not> oos)) (\<lambda>_.
       Register \<lparr>e_label = l, e_from = src, e_to = dst, e_init = init, e_cleanup = cleanup, e_oos = oos\<rparr> g)"

definition Create_null :: "nat \<Rightarrow> nat \<Rightarrow> graph \<Rightarrow> graph res" where
  "Create_null src dst g = new_edge Null_t src dst False False False g"

definition Create_assert ::
  "nat \<Rightarrow> nat \<Rightarrow> ir_location \<Rightarrow> automaton_description \<Rightarrow> bool \<Rightarrow> bool \<Rightarrow> graph \<Rightarrow> graph res" where
  "Create_assert src dst site a init cleanup g =
     new_edge (Assert_t site (filter (\<lambda>x. \<not> getD False (a_free x)) (ad_argument a)))
       src dst init cleanup False g"

definition Create_fn :: "nat \<Rightarrow> nat \<Rightarrow> function_event \<Rightarrow> bool \<Rightarrow> bool \<Rightarrow> graph \<Rightarrow> graph res" where
  "Create_fn src dst ev init cleanup g = new_edge (Fn_t ev) src dst init cleanup False g"

definition Create_field :: "nat \<Rightarrow> nat \<Rightarrow> field_assignment \<Rightarrow> bool \<Rightarrow> bool \<Rightarrow> graph \<Rightarrow> graph res" where
  "Create_field src dst a init cleanup g = new_edge (Field_t a) src dst init cleanup False g"

definition CreateSubAutomaton :: "nat \<Rightarrow> nat \<Rightarrow> ir_identifier \<Rightarrow> graph \<Rightarrow> graph res" where
  "CreateSubAutomaton src dst i g = new_edge (Sub_t i) src dst False False False g"

text \<open>\<open>Transition::Copy\<close>: nothing is made of an epsilon transition.\<close>

definition Copy :: "nat \<Rightarrow> nat \<Rightarrow> edge \<Rightarrow> bool \<Rightarrow> graph \<Rightarrow> graph res" where
  "Copy src dst other oos0 g =
     (let oos = (oos0 \<or> e_oos other) in
      bindE (assertE ''!Init || !OutOfScope'' (\<not> e_init other \<or> \<not> oos)) (\<lambda>_.
        case e_label other of
          Null_t \<Rightarrow> bindE (assertE ''!OutOfScope'' (\<not> oos)) (\<lambda>_. Inr g)
        | Assert_t site refs \<Rightarrow> bindE (assertE ''!OutOfScope'' (\<not> oos)) (\<lambda>_.
            new_edge (Assert_t site refs) src dst (e_init other) (e_cleanup other) False g)
        | Fn_t ev \<Rightarrow> new_edge (Fn_t ev) src dst (e_init other) (e_cleanup other) oos g
        | Field_t a \<Rightarrow> new_edge (Field_t a) src dst (e_init other) (e_cleanup other) oos g
        | Sub_t i \<Rightarrow> bindE (assertE ''!OutOfScope'' (\<not> oos)) (\<lambda>_.
            new_edge (Sub_t i) src dst False False False g)))"

subsection \<open>Equivalence classes\<close>

text \<open>Put one transition into the first class whose head it is equivalent to, or a new one.  A class (a
  \<open>SmallPtrSet\<close>) is a list in the order of insertion, in which it is walked up to four members; the order
  of more is that of the pointers.\<close>

fun insert_class :: "edge list \<Rightarrow> nat \<Rightarrow> nat list list \<Rightarrow> nat list list res" where
  "insert_class es t [] = Inr [[t]]"
| "insert_class es t (c # cs) =
     (if EquivalentTo (e_label (es ! t)) (e_label (es ! hd c)) then
        bindE (assertE ''Head->EquivalentTo(*T)'' (EquivalentTo (e_label (es ! hd c)) (e_label (es ! t)))) (\<lambda>_.
          Inr ((c @ [t]) # cs))
      else bindE (insert_class es t cs) (\<lambda>cs'. Inr (c # cs')))"

fun group_loop :: "edge list \<Rightarrow> nat list \<Rightarrow> nat list list \<Rightarrow> nat list list res" where
  "group_loop es [] cs = Inr cs"
| "group_loop es (t # ts) cs = bindE (insert_class es t cs) (group_loop es ts)"

definition GroupClasses :: "edge list \<Rightarrow> nat list list res" where
  "GroupClasses es = group_loop es [0..<length es] []"

subsection \<open>Automata\<close>

record automaton =
  au_id :: nat
  au_assertion :: automaton_description
  au_use :: "usage option"
  au_name :: string
  au_graph :: graph
  au_classes :: "nat list list"

definition new_automaton ::
  "nat \<Rightarrow> automaton_description \<Rightarrow> usage option \<Rightarrow> string \<Rightarrow> graph \<Rightarrow> nat list list \<Rightarrow> automaton res" where
  "new_automaton i a use name g cs =
     bindE (assertE ''!Use || A.identifier() == Use->identifier()''
       (case use of None \<Rightarrow> True | Some u \<Rightarrow> ad_identifier a = us_identifier u)) (\<lambda>_.
       Inr \<lparr>au_id = i, au_assertion = a, au_use = use, au_name = name, au_graph = g, au_classes = cs\<rparr>)"

definition au_edge :: "automaton \<Rightarrow> nat \<Rightarrow> edge" where
  "au_edge a t = g_edges (au_graph a) ! t"

definition IsRealisable :: "automaton \<Rightarrow> bool" where
  "IsRealisable a \<longleftrightarrow> (\<forall>c \<in> set (au_classes a). \<forall>t \<in> set c. label_realisable (e_label (au_edge a t)))"

definition automaton_init :: "automaton \<Rightarrow> edge option" where
  "automaton_init a = find e_init (map (\<lambda>c. au_edge a (hd c)) (au_classes a))"

definition automaton_cleanup :: "automaton \<Rightarrow> nat list" where
  "automaton_cleanup a = getD [] (find (\<lambda>c. e_cleanup (au_edge a (hd c))) (au_classes a))"

record automaton_lifetime =
  al_context :: ir_context
  al_init :: "edge option"
  al_cleanup :: "edge option"

definition getLifetime :: "automaton \<Rightarrow> automaton_lifetime" where
  "getLifetime a =
     (let cleanup = automaton_cleanup a in
      \<lparr>al_context = ad_context (au_assertion a), al_init = automaton_init a,
       al_cleanup = (if cleanup = [] then None else Some (au_edge a (hd cleanup)))\<rparr>)"

text \<open>The message behind a transition; the other kinds have a NULL pointer there.\<close>

definition trans_message :: "trans_label \<Rightarrow> (function_event + field_assignment) option" where
  "trans_message l = (case l of Fn_t ev \<Rightarrow> Some (Inl ev) | Field_t a \<Rightarrow> Some (Inr a) | _ \<Rightarrow> None)"

definition same_message :: "edge option \<Rightarrow> edge option \<Rightarrow> bool res" where
  "same_message x y = (case (x, y) of
     (Some s, Some t) \<Rightarrow>
       bindE (derefE ''Protobuf()'' (trans_message (e_label s))) (\<lambda>p.
       bindE (derefE ''Protobuf()'' (trans_message (e_label t))) (\<lambda>r. Inr (p = r)))
   | (None, None) \<Rightarrow> Inr True
   | _ \<Rightarrow> Inr False)"

definition lifetime_eq :: "automaton_lifetime \<Rightarrow> automaton_lifetime \<Rightarrow> bool res" where
  "lifetime_eq x y =
     (if al_context y \<noteq> al_context x then Inr False
      else bindE (same_message (al_init y) (al_init x)) (\<lambda>i.
        if \<not> i then Inr False else same_message (al_cleanup y) (al_cleanup x)))"

subsection \<open>Equivalence is an equivalence\<close>

text \<open>A representative of the labels that are equivalent to one.\<close>

definition esym :: "trans_label \<Rightarrow> trans_label" where
  "esym l = (case l of Assert_t _ _ \<Rightarrow> Assert_t no_location [] | _ \<Rightarrow> l)"

lemma EquivalentTo_iff: "EquivalentTo l l' \<longleftrightarrow> esym l = esym l'"
  by (cases l; cases l') (simp_all add: esym_def)

lemma esym_Null [simp]: "esym l = Null_t \<longleftrightarrow> l = Null_t" "Null_t = esym l \<longleftrightarrow> l = Null_t" "esym Null_t = Null_t"
  by (cases l; simp add: esym_def)+

abbreviation sym_at :: "edge list \<Rightarrow> nat \<Rightarrow> trans_label" where
  "sym_at es t \<equiv> esym (e_label (es ! t))"

text \<open>What the classes look like while they are made: no class is empty, the members of a class
  are equivalent to its head (\<open>uniform\<close>), and no two heads are equivalent.\<close>

definition uniform :: "edge list \<Rightarrow> nat list \<Rightarrow> bool" where
  "uniform es c \<longleftrightarrow> c \<noteq> [] \<and> (\<forall>t \<in> set c. sym_at es t = sym_at es (hd c))"

definition grouped :: "edge list \<Rightarrow> nat list list \<Rightarrow> bool" where
  "grouped es cs \<longleftrightarrow> (\<forall>c \<in> set cs. uniform es c) \<and> distinct (map (\<lambda>c. sym_at es (hd c)) cs)"

lemma insert_class_heads:
  assumes "insert_class es t cs = Inr cs'" and "[] \<notin> set cs"
  shows "map (\<lambda>c. sym_at es (hd c)) cs' =
    map (\<lambda>c. sym_at es (hd c)) cs @ (if sym_at es t \<in> (\<lambda>c. sym_at es (hd c)) ` set cs then [] else [sym_at es t])"
  using assms
  by (induction cs arbitrary: cs')
    (auto simp: EquivalentTo_iff E_eq_Inr hd_append split: if_splits)

lemma uniform_snoc:
  assumes "uniform es c" and "sym_at es t = sym_at es (hd c)"
  shows "uniform es (c @ [t])"
proof -
  from assms(1) have "hd (c @ [t]) = hd c" by (simp add: uniform_def)
  then show ?thesis using assms unfolding uniform_def by (metis Un_iff empty_iff insert_iff list.set snoc_eq_iff_butlast set_append)
qed

lemma insert_class_ok:
  "grouped es cs \<Longrightarrow> \<exists>cs'. insert_class es t cs = Inr cs' \<and> grouped es cs'
     \<and> mset (concat cs') = add_mset t (mset (concat cs))"
proof (induction cs)
  case Nil
  then show ?case by (simp add: grouped_def uniform_def)
next
  case (Cons c cs)
  then have g: "grouped es cs" and c: "uniform es c"
    and new: "sym_at es (hd c) \<notin> (\<lambda>c. sym_at es (hd c)) ` set cs"
    by (auto simp: grouped_def)
  with Cons.IH obtain cs' where cs': "insert_class es t cs = Inr cs'" "grouped es cs'"
    "mset (concat cs') = add_mset t (mset (concat cs))" by blast
  show ?case
  proof (cases "sym_at es t = sym_at es (hd c)")
    case True
    then have "insert_class es t (c # cs) = Inr ((c @ [t]) # cs)" by (simp add: EquivalentTo_iff)
    moreover have "hd (c @ [t]) = hd c" using c by (simp add: uniform_def)
    then have "grouped es ((c @ [t]) # cs)"
      using g new uniform_snoc [OF c True] by (simp add: grouped_def)
    ultimately show ?thesis by simp
  next
    case False
    have "[] \<notin> set cs" using g by (auto simp: grouped_def uniform_def)
    note heads = insert_class_heads [OF cs'(1) this]
    have "(\<lambda>c. sym_at es (hd c)) ` set cs' = set (map (\<lambda>c. sym_at es (hd c)) cs')" by simp
    also have "\<dots> \<subseteq> insert (sym_at es t) ((\<lambda>c. sym_at es (hd c)) ` set cs)" unfolding heads by auto
    finally have "sym_at es (hd c) \<notin> (\<lambda>c. sym_at es (hd c)) ` set cs'" using new False by auto
    then have "grouped es (c # cs')" using cs'(2) c by (simp add: grouped_def)
    moreover have "insert_class es t (c # cs) = Inr (c # cs')"
      using False cs'(1) by (simp add: EquivalentTo_iff)
    ultimately show ?thesis using cs'(3) by simp
  qed
qed

lemma group_loop_ok:
  "grouped es cs \<Longrightarrow> \<exists>cs'. group_loop es ts cs = Inr cs' \<and> grouped es cs'
     \<and> mset (concat cs') = mset (concat cs) + mset ts"
proof (induction ts arbitrary: cs)
  case (Cons t ts)
  from insert_class_ok [OF Cons.prems, of t] obtain cs1 where
    1: "insert_class es t cs = Inr cs1" "grouped es cs1" "mset (concat cs1) = add_mset t (mset (concat cs))"
    by blast
  from Cons.IH [OF this(2)] 1 show ?case by auto
qed simp

lemma GroupClasses_ok:
  "\<exists>cs. GroupClasses es = Inr cs \<and> grouped es cs \<and> mset (concat cs) = mset [0..<length es]"
  using group_loop_ok [of es "[]" "[0..<length es]"] by (simp add: GroupClasses_def grouped_def)

lemma grouped_sym:
  assumes "grouped es cs" and "i < length cs" and "j < length cs" and "t \<in> set (cs ! i)" and "u \<in> set (cs ! j)"
  shows "EquivalentTo (e_label (es ! t)) (e_label (es ! u)) \<longleftrightarrow> i = j"
proof -
  have "sym_at es t = sym_at es (hd (cs ! i))" "sym_at es u = sym_at es (hd (cs ! j))"
    using assms by (auto simp: grouped_def uniform_def)
  moreover have "sym_at es (hd (cs ! i)) = sym_at es (hd (cs ! j)) \<longleftrightarrow> i = j"
    using assms by (simp add: grouped_def distinct_conv_nth) blast
  ultimately show ?thesis by (simp add: EquivalentTo_iff)
qed

subsection \<open>Well-formed graphs\<close>

text \<open>The transitions a state owns are those that leave it, in the order they were registered.\<close>

definition owned :: "edge list \<Rightarrow> nat \<Rightarrow> nat list" where
  "owned es s = filter (\<lambda>t. e_from (es ! t) = s) [0..<length es]"

definition wf_edge :: "nat \<Rightarrow> edge \<Rightarrow> bool" where
  "wf_edge n e \<longleftrightarrow> e_from e < n \<and> 0 < e_to e \<and> e_to e < n
     \<and> (e_oos e \<longrightarrow> \<not> e_init e \<and> (\<exists>x. e_label e = Fn_t x \<or> (\<exists>y. e_label e = Field_t y)))"

definition wf_graph :: "graph \<Rightarrow> bool" where
  "wf_graph g \<longleftrightarrow> (\<forall>e \<in> set (g_edges g). wf_edge (length (g_states g)) e)
     \<and> (\<forall>s < length (g_states g). q_out (g_states g ! s) = owned (g_edges g) s)"

lemma owned_append: "owned (es @ [e]) s = owned es s @ (if e_from e = s then [length es] else [])"
proof -
  have "filter (\<lambda>t. e_from ((es @ [e]) ! t) = s) [0..<length es] = owned es s"
    unfolding owned_def by (rule filter_cong) (simp_all add: nth_append)
  then show ?thesis by (simp add: owned_def)
qed

text \<open>What registering changes.\<close>

lemma UpdateReferences_cases:
  assumes "UpdateReferences s e g = Inr g'"
  shows "g' = g \<or> (\<exists>r. g' = g\<lparr>g_states := (g_states g)[s := (g_states g ! s)\<lparr>q_refs := r\<rparr>]\<rparr>)"
  using assms unfolding UpdateReferences_def Let_def
  by (auto simp: E_eq_Inr split: if_splits)

lemma nth_update_sel: "f x = f (xs ! s) \<Longrightarrow> f (xs[s := x] ! i) = f (xs ! i)"
  by (cases "s < length xs"; cases "i = s") (auto simp: list_update_beyond)

lemma UpdateReferences_frame:
  assumes "UpdateReferences s e g = Inr g'"
  shows "g_edges g' = g_edges g" and "length (g_states g') = length (g_states g)"
    and "\<And>i. q_out (g_states g' ! i) = q_out (g_states g ! i)"
    and "\<And>i. q_start (g_states g' ! i) = q_start (g_states g ! i)"
    and "\<And>i. q_accept (g_states g' ! i) = q_accept (g_states g ! i)"
    and "\<And>i. q_name (g_states g' ! i) = q_name (g_states g ! i)"
  using UpdateReferences_cases [OF assms] by (auto simp: nth_update_sel)

lemma Register_frame:
  assumes "Register e g = Inr g'"
  shows "g_edges g' = g_edges g @ [e]" and "length (g_states g') = length (g_states g)" and "e_to e \<noteq> 0"
    and "\<And>i. i < length (g_states g) \<Longrightarrow> q_out (g_states g' ! i) =
      q_out (g_states g ! i) @ (if i = e_from e then [length (g_edges g)] else [])"
    and "\<And>i. q_start (g_states g' ! i) = q_start (g_states g ! i)"
    and "\<And>i. q_accept (g_states g' ! i) = q_accept (g_states g ! i)"
proof -
  let ?g1 = "g\<lparr>g_edges := g_edges g @ [e]\<rparr>"
  from assms obtain g2 where u: "UpdateReferences (e_to e) e ?g1 = Inr g2" and to: "e_to e \<noteq> 0"
    and g': "g' = AddTransition (e_from e) (length (g_edges g)) g2"
    by (auto simp: Register_def E_eq_Inr)
  note f = UpdateReferences_frame [OF u]
  show "g_edges g' = g_edges g @ [e]" "length (g_states g') = length (g_states g)" "e_to e \<noteq> 0"
    using f(1,2) to by (simp_all add: g' AddTransition_def Let_def)
  show "q_out (g_states g' ! i) = q_out (g_states g ! i) @ (if i = e_from e then [length (g_edges g)] else [])"
    if "i < length (g_states g)" for i
    using f(2) f(3) [of i] that by (auto simp: g' AddTransition_def Let_def nth_list_update)
  show "q_start (g_states g' ! i) = q_start (g_states g ! i)"
      "q_accept (g_states g' ! i) = q_accept (g_states g ! i)" for i
    using f(4) [of i] f(5) [of i] by (simp_all add: g' AddTransition_def Let_def nth_update_sel)
qed

lemma Register_wf:
  assumes "wf_graph g" and "Register e g = Inr g'" and "wf_edge (length (g_states g)) e"
  shows "wf_graph g'"
  using assms Register_frame [OF assms(2)]
  by (auto simp: wf_graph_def owned_append)

lemma new_edge_frame:
  assumes "new_edge l src dst i c x g = Inr g'"
  shows "g_edges g' = g_edges g @ [\<lparr>e_label = l, e_from = src, e_to = dst, e_init = i, e_cleanup = c, e_oos = x\<rparr>]"
    and "length (g_states g') = length (g_states g)" and "dst \<noteq> 0" and "\<not> (i \<and> x)"
    and "\<And>s. q_start (g_states g' ! s) = q_start (g_states g ! s)"
    and "\<And>s. q_accept (g_states g' ! s) = q_accept (g_states g ! s)"
  using assms by (auto simp: new_edge_def E_eq_Inr dest: Register_frame)

lemma new_edge_wf:
  assumes "wf_graph g" and "new_edge l src dst i c x g = Inr g'" and "src < length (g_states g)"
    and "dst < length (g_states g)" and "x \<Longrightarrow> (\<exists>ev. l = Fn_t ev) \<or> (\<exists>a. l = Field_t a)"
  shows "wf_graph g'"
proof -
  from assms(2) have "Register \<lparr>e_label = l, e_from = src, e_to = dst, e_init = i, e_cleanup = c, e_oos = x\<rparr> g
      = Inr g'" and "\<not> (i \<and> x)" by (auto simp: new_edge_def E_eq_Inr)
  then show ?thesis
    using assms new_edge_frame(3) [OF assms(2)]
    by (intro Register_wf [OF assms(1)]) (auto simp: wf_edge_def)
qed

text \<open>What is known in the start state never changes: no transition leads there.\<close>

lemma new_edge_refs0:
  assumes "new_edge l src dst i c x g = Inr g'"
  shows "q_refs (g_states g' ! 0) = q_refs (g_states g ! 0)"
proof -
  let ?e = "\<lparr>e_label = l, e_from = src, e_to = dst, e_init = i, e_cleanup = c, e_oos = x\<rparr>"
  let ?g1 = "g\<lparr>g_edges := g_edges g @ [?e]\<rparr>"
  from assms obtain g2 where u: "UpdateReferences dst ?e ?g1 = Inr g2" and "dst \<noteq> 0"
    and g': "g' = AddTransition src (length (g_edges g)) g2"
    by (auto simp: new_edge_def Register_def E_eq_Inr)
  then have "g_states g2 ! 0 = g_states g ! 0" using UpdateReferences_cases [OF u] by auto
  then show ?thesis by (simp add: g' AddTransition_def Let_def nth_update_sel)
qed

lemma build_state_simps:
  assumes "build_state nm st ac rc g = (g', s)"
  shows "s = length (g_states g)" and "g_edges g' = g_edges g"
    and "length (g_states g') = Suc (length (g_states g))"
    and "\<And>i. i < length (g_states g) \<Longrightarrow> g_states g' ! i = g_states g ! i"
    and "q_start (g_states g' ! s) = st" and "q_accept (g_states g' ! s) = ac"
    and "q_refs (g_states g' ! s) = map_option (\<lambda>n. replicate n None) rc" and "q_out (g_states g' ! s) = []"
  using assms by (auto simp: build_state_def nth_append)

lemma build_state_wf:
  assumes "wf_graph g" and "build_state nm st ac rc g = (g', s)"
  shows "wf_graph g'"
proof -
  note b = build_state_simps [OF assms(2)]
  have "owned (g_edges g) (length (g_states g)) = []"
    using assms(1) nth_mem by (fastforce simp: owned_def wf_graph_def wf_edge_def filter_empty_conv)
  with assms(1) b show ?thesis
    by (auto simp: wf_graph_def wf_edge_def less_Suc_eq all_conj_distrib)
qed

end
