(* ===== verification/Tesla_Labels.thy ===== *)
theory Tesla_Labels
  imports Tesla_Automaton
begin

text \<open>
  How transitions, states and automata are written: the labels of \<open>Transition.cpp\<close> and
  \<open>Transition.h\<close>, and the \<open>String\<close> and \<open>Dot\<close> functions of \<open>State.cpp\<close> and \<open>Automaton.cpp\<close>.  The
  labels matter beyond debugging output: descriptions of automata carry them, and lifetimes are
  shared between automata by their labels.
\<close>

subsection \<open>Accessors with their defaults\<close>

definition fn_direction :: "function_event \<Rightarrow> direction" where
  "fn_direction ev = getD Entry (fe_direction ev)"

definition fn_context :: "function_event \<Rightarrow> call_context" where
  "fn_context ev = getD Caller (fe_context ev)"

definition fn_kind :: "function_event \<Rightarrow> call_kind" where
  "fn_kind ev = getD CCall (fe_kind ev)"

definition Direction_Name :: "direction \<Rightarrow> string" where
  "Direction_Name d = (case d of Entry \<Rightarrow> ''Entry'' | Exit \<Rightarrow> ''Exit'')"

definition CallContext_Name :: "call_context \<Rightarrow> string" where
  "CallContext_Name c = (case c of Caller \<Rightarrow> ''Caller'' | Callee \<Rightarrow> ''Callee'')"

definition Context_Name :: "ir_context \<Rightarrow> string" where
  "Context_Name c = (case c of Global_context \<Rightarrow> ''Global'' | Thread_context \<Rightarrow> ''ThreadLocal'')"

subsection \<open>Labels\<close>

text \<open>The arguments of a function event; \<open>join_names\<close> puts a comma between them.\<close>

definition fn_label :: "(argument \<Rightarrow> string res) \<Rightarrow> function_event \<Rightarrow> (function_event \<Rightarrow> string) \<Rightarrow> string res" where
  "fn_label arg_name ev direction =
     bindE (join_names (map arg_name (fe_argument ev))) (\<lambda>args.
     bindE (case fe_expected ev of
         None \<Rightarrow> Inr (direction ev)
       | Some r \<Rightarrow>
           bindE (assertE ''Ev.direction() == FunctionEvent::Exit'' (fn_direction ev = Exit)) (\<lambda>_.
           bindE (arg_name r) (\<lambda>s. Inr ('' == '' @ s)))) (\<lambda>rest.
       Inr (fe_function ev @ ''('' @ args @ '')'' @ rest)))"

definition FnTransition_ShortLabel :: "function_event \<Rightarrow> string res" where
  "FnTransition_ShortLabel ev =
     bindE (fn_label (ShortName True) ev (\<lambda>ev. '': '' @ Direction_Name (fn_direction ev))) (\<lambda>s.
       Inr (s @ '' ('' @ CallContext_Name (fn_context ev) @ '')''))"

definition FnTransition_DotLabel :: "function_event \<Rightarrow> string res" where
  "FnTransition_DotLabel ev =
     fn_label (DotName True) ev (\<lambda>ev. [CHR 0x5C] @ ''n('' @ Direction_Name (fn_direction ev) @ '')'')"

definition OpString :: "assign_type \<Rightarrow> string" where
  "OpString t = (case t of SimpleAssign \<Rightarrow> ''='' | PlusEqual \<Rightarrow> ''+='' | MinusEqual \<Rightarrow> ''-='')"

definition FieldAssign_ShortLabel :: "field_assignment \<Rightarrow> string res" where
  "FieldAssign_ShortLabel a =
     bindE (ShortName True (sf_base (fa_field a))) (\<lambda>b.
     bindE (ShortName True (fa_value a)) (\<lambda>v.
       Inr (b @ ''.'' @ sf_name (fa_field a) @ '' '' @ OpString (fa_operation a) @ '' '' @ v)))"

definition FieldAssign_DotLabel :: "field_assignment \<Rightarrow> string res" where
  "FieldAssign_DotLabel a =
     bindE (FieldAssign_ShortLabel a) (\<lambda>s. Inr (''struct '' @ sf_type (fa_field a) @ '':'' @ [CHR 0x5C] @ ''l'' @ s))"

text \<open>The epsilon is two bytes of UTF-8.\<close>

definition ShortLabel :: "trans_label \<Rightarrow> string res" where
  "ShortLabel l = (case l of
     Null_t \<Rightarrow> Inr [CHR 0xCE, CHR 0xB5]
   | Assert_t _ _ \<Rightarrow> Inr ''<<assertion>>''
   | Fn_t ev \<Rightarrow> FnTransition_ShortLabel ev
   | Field_t a \<Rightarrow> FieldAssign_ShortLabel a
   | Sub_t i \<Rightarrow> Inr (identifier_name i))"

definition DotLabel :: "trans_label \<Rightarrow> string res" where
  "DotLabel l = (case l of
     Null_t \<Rightarrow> Inr ''&#949;''
   | Assert_t _ _ \<Rightarrow> Inr ''&laquo;assertion&raquo;''
   | Fn_t ev \<Rightarrow> FnTransition_DotLabel ev
   | Field_t a \<Rightarrow> FieldAssign_DotLabel a
   | Sub_t i \<Rightarrow> Inr (identifier_name i))"

subsection \<open>States and transitions\<close>

definition State_Name :: "bool \<Rightarrow> graph \<Rightarrow> nat \<Rightarrow> string" where
  "State_Name quote_non_numeric g s =
     (let n = q_name (g_states g ! s); quote = (if quote_non_numeric then [CHR 0x27] else []) in
      if n = [] then dec_nat s else quote @ n @ quote)"

fun concatE :: "string res list \<Rightarrow> string res" where
  "concatE [] = Inr []"
| "concatE (s # ss) = bindE s (\<lambda>x. bindE (concatE ss) (\<lambda>y. Inr (x @ y)))"

definition Transition_String :: "graph \<Rightarrow> edge \<Rightarrow> string res" where
  "Transition_String g e =
     bindE (concatE (map (\<lambda>a. bindE (ShortName_ptr True a) (\<lambda>s. Inr ('' '' @ s))) (NewArguments g e))) (\<lambda>new_args.
     bindE (ShortLabel (e_label e)) (\<lambda>label.
       let special = (if e_init e then ''<<init>>'' else []) @ (if e_cleanup e then ''<<cleanup>>'' else [])
       in Inr (''--('' @ label @ (if new_args = [] then [] else '':'' @ new_args)
            @ (if special = [] then [] else '' '' @ special)
            @ '')-->('' @ State_Name False g (e_to e) @ '')'')))"

text \<open>Lower-case hexadecimal, as \<open>raw_ostream::write_hex\<close> writes it.\<close>

definition hex_digit :: "nat \<Rightarrow> char" where
  "hex_digit d = (if d < 10 then char_of (48 + d) else char_of (87 + d))"

function hex_nat :: "nat \<Rightarrow> string" where
  "hex_nat n = (if n < 16 then [hex_digit n] else hex_nat (n div 16) @ [hex_digit (n mod 16)])"
  by pat_completeness auto
termination
  by (relation "measure id") auto

declare hex_nat.simps [simp del]

definition TEq_String :: "graph \<Rightarrow> nat list \<Rightarrow> string res" where
  "TEq_String g c =
     bindE (ShortLabel (e_label (g_edges g ! hd c))) (\<lambda>label.
       Inr (label @ '' : ['' @ concat (map (\<lambda>t. let e = g_edges g ! t in
           '' ('' @ dec_nat (e_from e) @ '':0x'' @ hex_nat (unat (state_mask (g_states g ! e_from e)))
           @ '' -> '' @ dec_nat (e_to e) @ '':0x'' @ hex_nat (unat (state_mask (g_states g ! e_to e))) @ '')'') c)
         @ '' ]''))"

definition State_String :: "graph \<Rightarrow> nat \<Rightarrow> string res" where
  "State_String g s =
     (let q = g_states g ! s in
      bindE (assertE ''VariableReferences'' (q_refs q \<noteq> None)) (\<lambda>_.
      bindE (InstanceName True False (References q)) (\<lambda>n.
      bindE (concatE (map (\<lambda>t. bindE (Transition_String g (g_edges g ! t)) (\<lambda>s. Inr ('' '' @ s))) (q_out q))) (\<lambda>ts.
        Inr (''state '' @ State_Name True g s @ '' '' @ n @ '':'' @ ts)))))"

definition State_Dot :: "graph \<Rightarrow> nat \<Rightarrow> string res" where
  "State_Dot g s =
     (let q = g_states g ! s in
      bindE (assertE ''VariableReferences'' (q_refs q \<noteq> None)) (\<lambda>_.
      bindE (InstanceName False False (References q)) (\<lambda>n.
        Inr (dec_nat s @ '' [ label = '' @ [CHR 0x22] @ ''state '' @ dec_nat s
          @ (if q_name q = [] then []
             else [CHR 0x5C] @ ''n'' @ [CHR 0x5C, CHR 0x22] @ q_name q @ [CHR 0x5C, CHR 0x22])
          @ [CHR 0x5C] @ ''n'' @ n @ [CHR 0x22]
          @ (if q_accept q then '', shape = doublecircle'' else []) @ '' ];''))))"

subsection \<open>Automata\<close>

definition Automaton_String :: "automaton \<Rightarrow> string res" where
  "Automaton_String a =
     bindE (concatE (map (\<lambda>s. bindE (State_String (au_graph a) s) (\<lambda>x. Inr ([CHR 0x09] @ x @ [CHR 0x0A])))
         [0..<length (g_states (au_graph a))])) (\<lambda>states.
       Inr (''automaton '' @ [CHR 0x27] @ au_name a @ [CHR 0x27] @ '' {'' @ [CHR 0x0A] @ states @ ''}''))"

text \<open>The source is written on one line, with \<open>\l\<close> for every line break.  Then the loop that is meant
  to escape quotes replaces each one it finds by a backslash, and goes on two characters further.\<close>

fun quote_loop :: "string \<Rightarrow> string" where
  "quote_loop [] = []"
| "quote_loop (c # s) =
     (if c = CHR 0x22 then CHR 0x5C # (case s of [] \<Rightarrow> [] | d # s' \<Rightarrow> d # quote_loop s') else c # quote_loop s)"

definition dot_source :: "automaton_description \<Rightarrow> string" where
  "dot_source d = (case ad_source d of
     None \<Rightarrow> []
   | Some src \<Rightarrow> quote_loop (concat (map (\<lambda>c. if c = CHR 0x0A then [CHR 0x5C, CHR ''l''] else [c]) (CHR 0x0A # src))))"

definition dot_class :: "automaton \<Rightarrow> nat \<Rightarrow> nat list \<Rightarrow> string res" where
  "dot_class a i c =
     (let head = au_edge a (hd c); q = [CHR 0x22]; t = [CHR 0x09]; n = [CHR 0x0A];
          colour = q @ ''/dark28/'' @ dec_nat (i mod 8 + 1) @ q
      in bindE (ShortLabel (e_label head)) (\<lambda>short.
         bindE (DotLabel (e_label head)) (\<lambda>dot.
           Inr (n @ t @ ''/*'' @ n @ t @ '' * '' @ short @ n @ t @ '' */'' @ n @ t @ ''edge [ label = '' @ q @ dot
             @ (if e_init head then [CHR 0x5C] @ ''n&laquo;init&raquo;'' else [])
             @ (if e_cleanup head then [CHR 0x5C] @ ''n&laquo;cleanup&raquo;'' else [])
             @ q @ '','' @ n @ t @ t @ ''color = '' @ colour @ '', fontcolor = '' @ colour @ '' ];'' @ n
             @ concat (map (\<lambda>x. t @ dec_nat (e_from (au_edge a x)) @ '' -> '' @ dec_nat (e_to (au_edge a x)) @ '';'' @ n) c)))))"

definition GraphAttributes :: string where
  "GraphAttributes = (let q = [CHR 0x22] in
     ''truecolor=true, bgcolor='' @ q @ ''transparent'' @ q @ '', dpi=60, size='' @ q @ ''8,10'' @ q
     @ '', fontname = '' @ q @ ''Monospace'' @ q @ '', labeljust = '' @ q @ ''l'' @ q @ '', labelloc = bottom'')"

definition Automaton_Dot :: "automaton \<Rightarrow> string res" where
  "Automaton_Dot a =
     (let q = [CHR 0x22]; t = [CHR 0x09]; n = [CHR 0x0A]; font = ''fontname = '' @ q @ ''Monospace'' @ q in
      bindE (concatE (map (\<lambda>s. bindE (State_Dot (au_graph a) s) (\<lambda>x. Inr (t @ x @ n)))
          [0..<length (g_states (au_graph a))])) (\<lambda>states.
      bindE (concatE (map (\<lambda>(i, c). dot_class a i c) (List.enumerate 0 (au_classes a)))) (\<lambda>edges.
        Inr (''/*'' @ n @ '' * '' @ au_name a @ n @ '' */'' @ n
          @ ''digraph automaton_'' @ dec_nat (au_id a) @ '' {'' @ n
          @ t @ ''graph [ '' @ GraphAttributes @ '' ];'' @ n
          @ t @ ''node [ shape = circle, '' @ font @ '', style = filled, fillcolor = '' @ q @ ''white'' @ q @ ''];'' @ n
          @ t @ ''edge [ '' @ font @ '' ];'' @ n @ n
          @ states @ edges
          @ n @ t @ ''/*'' @ n @ t @ '' * Footer:'' @ n @ t @ '' */'' @ n
          @ t @ ''label = '' @ q @ au_name a @ dot_source (au_assertion a) @ q @ '';'' @ n @ ''}''))))"

definition Lifetime_String :: "automaton_lifetime \<Rightarrow> string res" where
  "Lifetime_String l =
     (let label = (\<lambda>e. case e of None \<Rightarrow> Inr ''<null>'' | Some x \<Rightarrow> ShortLabel (e_label x)) in
      bindE (label (al_init l)) (\<lambda>i.
      bindE (label (al_cleanup l)) (\<lambda>c.
        Inr (Context_Name (al_context l) @ '': ('' @ i @ '' -> '' @ c @ '')''))))"

end
