(* ===== verification/Tesla_LLVM.thy ===== *)
theory Tesla_LLVM
  imports Tesla_Labels
begin

text \<open>
  The part of LLVM's intermediate language that the instrumenter writes, with its meaning as the
  language reference gives it.  Nothing here is code of the repository: these are the data the
  instrumenter (\<open>tesla/instrumenter\<close>) builds and changes.

  A value is the expression that computes it: an instruction is a value that others name as their
  operand.  The functions the instrumenter writes store only into their own keys, so when a value
  is computed makes no difference to what it is; that it is computed at all, and where, is the
  instruction \<open>Compute\<close> in a block.  A block is named by its number within its function, which is
  never reused, and the blocks of a function are listed in the order of its layout.

  Memory, the layout of structures, the addresses of globals and the results of calls are those of
  a \<open>machine\<close>, an argument of the execution functions.
\<close>

subsection \<open>Types and values\<close>

datatype ty = VoidT | IntT nat | FloatT | DoubleT | PtrT ty | StructT string | OtherT string

text \<open>\<open>uintptr_t\<close> on the targets of libtesla.\<close>

definition IntPtrT :: ty where
  "IntPtrT = IntT 64"

definition Int32T :: ty where
  "Int32T = IntT 32"

definition CharPtrT :: ty where
  "CharPtrT = PtrT (IntT 8)"

datatype val =
    Param nat ty
  | ConstInt nat int          \<comment> \<open>width and value\<close>
  | Global string ty
  | Local string ty           \<comment> \<open>a value of the instrumented program, by its name or number\<close>
  | Key_ptr nat               \<comment> \<open>a key on the stack of an instrumentation function\<close>
  | Load val
  | Field_ptr string nat ty val \<comment> \<open>address of a field: structure, index, type of the field, base\<close>
  | And_v val val
  | Add_v val val
  | Sub_v val val
  | ICmpEQ val val
  | ICmpNE val val
  | IntCast nat val           \<comment> \<open>extension with zeros, or truncation\<close>
  | PtrToInt nat val
  | Call_v string ty "val list"

fun type_of :: "val \<Rightarrow> ty" where
  "type_of (Param i t) = t"
| "type_of (ConstInt w v) = IntT w"
| "type_of (Global x t) = PtrT t"
| "type_of (Local x t) = t"
| "type_of (Key_ptr k) = PtrT (StructT ''tesla_key'')"
| "type_of (Load v) = (case type_of v of PtrT t \<Rightarrow> t | _ \<Rightarrow> VoidT)"
| "type_of (Field_ptr x i t v) = PtrT t"
| "type_of (And_v v w) = type_of v"
| "type_of (Add_v v w) = type_of v"
| "type_of (Sub_v v w) = type_of v"
| "type_of (ICmpEQ v w) = IntT 1"
| "type_of (ICmpNE v w) = IntT 1"
| "type_of (IntCast w v) = IntT w"
| "type_of (PtrToInt w v) = IntT w"
| "type_of (Call_v f t vs) = t"

definition is_ptr :: "ty \<Rightarrow> bool" where
  "is_ptr t = (case t of PtrT _ \<Rightarrow> True | _ \<Rightarrow> False)"

text \<open>How many bits a value has.\<close>

definition width :: "ty \<Rightarrow> nat" where
  "width t = (case t of IntT w \<Rightarrow> w | _ \<Rightarrow> 64)"

subsection \<open>Code\<close>

datatype inst =
    Compute val
  | Alloca_key nat
  | Store_key nat nat val     \<comment> \<open>key, field, value\<close>
  | Call_i string "val list"  \<comment> \<open>a call whose result is not used\<close>
  | Program_call nat "string option" ty "val list" \<comment> \<open>a call of the program: its number, its target if direct, its type\<close>
  | Phi_i nat
  | Alloca_i string ty        \<comment> \<open>a local variable of the program\<close>
  | Other_i nat               \<comment> \<open>any other instruction of the program\<close>

datatype term_inst =
    Br nat
  | CondBr val nat nat
  | Ret "val option"
  | Unreachable

record block =
  bb_name :: string
  bb_insts :: "inst list"
  bb_term :: "term_inst option"

datatype linkage = External_l | Internal_l | Private_l

record fn =
  fn_name :: string
  fn_params :: "ty list"
  fn_ret :: ty
  fn_vararg :: bool
  fn_linkage :: linkage
  fn_blocks :: "(nat \<times> block) list"

definition fn_args :: "fn \<Rightarrow> val list" where
  "fn_args f = map (\<lambda>(i, t). Param i t) (List.enumerate 0 (fn_params f))"

definition block_at :: "fn \<Rightarrow> nat \<Rightarrow> block option" where
  "block_at f b = map_of (fn_blocks f) b"

text \<open>\<open>BasicBlock::Create\<close>: a new block before another, or at the end.\<close>

definition create_block :: "string \<Rightarrow> nat option \<Rightarrow> fn \<Rightarrow> fn \<times> nat" where
  "create_block name before f =
     (let b = length (fn_blocks f); new = (b, \<lparr>bb_name = name, bb_insts = [], bb_term = None\<rparr>);
          bs = fn_blocks f
      in (f\<lparr>fn_blocks := (case before of
             None \<Rightarrow> bs @ [new]
           | Some n \<Rightarrow> takeWhile (\<lambda>(m, _). m \<noteq> n) bs @ new # dropWhile (\<lambda>(m, _). m \<noteq> n) bs)\<rparr>, b))"

definition map_block :: "nat \<Rightarrow> (block \<Rightarrow> block) \<Rightarrow> fn \<Rightarrow> fn" where
  "map_block b h f = f\<lparr>fn_blocks := map (\<lambda>(n, x). if n = b then (n, h x) else (n, x)) (fn_blocks f)\<rparr>"

definition emit :: "nat \<Rightarrow> inst list \<Rightarrow> fn \<Rightarrow> fn" where
  "emit b is f = map_block b (\<lambda>x. x\<lparr>bb_insts := bb_insts x @ is\<rparr>) f"

definition set_term :: "nat \<Rightarrow> term_inst \<Rightarrow> fn \<Rightarrow> fn" where
  "set_term b t f = map_block b (\<lambda>x. x\<lparr>bb_term := Some t\<rparr>) f"

text \<open>\<open>replaceAllUsesWith\<close> on a block: every branch to it goes to the other one.\<close>

definition redirect_term :: "nat \<Rightarrow> nat \<Rightarrow> term_inst \<Rightarrow> term_inst" where
  "redirect_term old new t = (let r = (\<lambda>b. if b = old then new else b) in case t of
     Br b \<Rightarrow> Br (r b)
   | CondBr c b e \<Rightarrow> CondBr c (r b) (r e)
   | _ \<Rightarrow> t)"

definition redirect :: "nat \<Rightarrow> nat \<Rightarrow> fn \<Rightarrow> fn" where
  "redirect old new f =
     f\<lparr>fn_blocks := map (\<lambda>(n, x). (n, x\<lparr>bb_term := map_option (redirect_term old new) (bb_term x)\<rparr>)) (fn_blocks f)\<rparr>"

definition FindBlock :: "string \<Rightarrow> fn \<Rightarrow> nat option" where
  "FindBlock name f = map_option fst (find (\<lambda>(n, x). bb_name x = name) (fn_blocks f))"

subsection \<open>Execution\<close>

record machine =
  mc_load :: "ty \<Rightarrow> int \<Rightarrow> int option"         \<comment> \<open>\<open>None\<close>: a fault\<close>
  mc_field :: "string \<Rightarrow> nat \<Rightarrow> int \<Rightarrow> int"
  mc_global :: "string \<Rightarrow> int"
  mc_local :: "string \<Rightarrow> int"
  mc_call :: "string \<Rightarrow> int list \<Rightarrow> int"

definition bind2 :: "int option \<Rightarrow> int option \<Rightarrow> (int \<Rightarrow> int \<Rightarrow> int) \<Rightarrow> int option" where
  "bind2 x y h = (case (x, y) of (Some a, Some b) \<Rightarrow> Some (h a b) | _ \<Rightarrow> None)"

fun eval :: "machine \<Rightarrow> int list \<Rightarrow> val \<Rightarrow> int option" where
  "eval m args (Param i t) = (if i < length args then Some (args ! i) else None)"
| "eval m args (ConstInt w v) = Some (v mod 2 ^ w)"
| "eval m args (Global x t) = Some (mc_global m x)"
| "eval m args (Local x t) = Some (mc_local m x)"
| "eval m args (Key_ptr k) = None"
| "eval m args (Load v) = Option.bind (eval m args v) (mc_load m (type_of (Load v)))"
| "eval m args (Field_ptr x i t v) = map_option (mc_field m x i) (eval m args v)"
| "eval m args (And_v v w) = bind2 (eval m args v) (eval m args w) (\<lambda>a b. a AND b)"
| "eval m args (Add_v v w) = bind2 (eval m args v) (eval m args w) (\<lambda>a b. (a + b) mod 2 ^ width (type_of v))"
| "eval m args (Sub_v v w) = bind2 (eval m args v) (eval m args w) (\<lambda>a b. (a - b) mod 2 ^ width (type_of v))"
| "eval m args (ICmpEQ v w) = bind2 (eval m args v) (eval m args w) (\<lambda>a b. if a = b then 1 else 0)"
| "eval m args (ICmpNE v w) = bind2 (eval m args v) (eval m args w) (\<lambda>a b. if a \<noteq> b then 1 else 0)"
| "eval m args (IntCast w v) = map_option (\<lambda>a. a mod 2 ^ w) (eval m args v)"
| "eval m args (PtrToInt w v) = map_option (\<lambda>a. a mod 2 ^ w) (eval m args v)"
| "eval m args (Call_v f t vs) =
     map_option (\<lambda>xs. mc_call m f xs) (those (map (eval m args) vs))"

text \<open>A call is observed with its arguments; of a key, with the key's content.\<close>

datatype call_arg = Int_a int | Key_a "int option list"

datatype observed = Observed string "call_arg list"

record exec_state =
  xs_keys :: "(nat \<times> int option list) list"
  xs_calls :: "observed list"

definition key_fields :: nat where
  "key_fields = 6" \<comment> \<open>\<open>TESLA_KEY_SIZE\<close> values and two masks\<close>

definition eval_arg :: "machine \<Rightarrow> int list \<Rightarrow> exec_state \<Rightarrow> val \<Rightarrow> call_arg option" where
  "eval_arg m args s v = (case v of
     Key_ptr k \<Rightarrow> map_option Key_a (map_of (xs_keys s) k)
   | _ \<Rightarrow> map_option Int_a (eval m args v))"

fun exec_inst :: "machine \<Rightarrow> int list \<Rightarrow> inst \<Rightarrow> exec_state \<Rightarrow> exec_state option" where
  "exec_inst m args (Compute v) s = (case eval m args v of None \<Rightarrow> None | Some _ \<Rightarrow> Some s)"
| "exec_inst m args (Alloca_key k) s = Some (s\<lparr>xs_keys := (k, replicate key_fields None) # xs_keys s\<rparr>)"
| "exec_inst m args (Store_key k i v) s = (case (map_of (xs_keys s) k, eval m args v) of
     (Some fs, Some x) \<Rightarrow> Some (s\<lparr>xs_keys := (k, fs[i := Some x]) # xs_keys s\<rparr>)
   | _ \<Rightarrow> None)"
| "exec_inst m args (Call_i f vs) s =
     map_option (\<lambda>as. s\<lparr>xs_calls := xs_calls s @ [Observed f as]\<rparr>) (those (map (eval_arg m args s) vs))"
| "exec_inst m args _ s = None"

fun exec_insts :: "machine \<Rightarrow> int list \<Rightarrow> inst list \<Rightarrow> exec_state \<Rightarrow> exec_state option" where
  "exec_insts m args [] s = Some s"
| "exec_insts m args (i # is) s = Option.bind (exec_inst m args i s) (exec_insts m args is)"

text \<open>Where a block leads: to another block, or back to the caller.\<close>

definition exec_term :: "machine \<Rightarrow> int list \<Rightarrow> term_inst option \<Rightarrow> nat option option" where
  "exec_term m args t = (case t of
     Some (Br b) \<Rightarrow> Some (Some b)
   | Some (CondBr c b e) \<Rightarrow> map_option (\<lambda>x. Some (if x \<noteq> 0 then b else e)) (eval m args c)
   | Some (Ret None) \<Rightarrow> Some None
   | _ \<Rightarrow> None)"

definition exec_block ::
  "machine \<Rightarrow> int list \<Rightarrow> fn \<Rightarrow> nat \<Rightarrow> exec_state \<Rightarrow> (exec_state \<times> nat option) option" where
  "exec_block m args f b s = Option.bind (block_at f b) (\<lambda>x.
     Option.bind (exec_insts m args (bb_insts x) s) (\<lambda>s'.
       map_option (\<lambda>next. (s', next)) (exec_term m args (bb_term x))))"

text \<open>At most \<open>n\<close> blocks.\<close>

fun run :: "nat \<Rightarrow> machine \<Rightarrow> int list \<Rightarrow> fn \<Rightarrow> nat \<Rightarrow> exec_state \<Rightarrow> exec_state option" where
  "run 0 m args f b s = None"
| "run (Suc n) m args f b s = Option.bind (exec_block m args f b s) (\<lambda>(s', next). case next of
     None \<Rightarrow> Some s'
   | Some b' \<Rightarrow> run n m args f b' s')"

definition initial_exec :: exec_state where
  "initial_exec = \<lparr>xs_keys = [], xs_calls = []\<rparr>"

text \<open>Calling a function: what it calls, in order, or \<open>None\<close> if it faults.  A function without loops
  is finished after as many blocks as it has.\<close>

definition call_fn :: "machine \<Rightarrow> int list \<Rightarrow> fn \<Rightarrow> observed list option" where
  "call_fn m args f = (case fn_blocks f of
     [] \<Rightarrow> None
   | (b, _) # _ \<Rightarrow> map_option xs_calls (run (length (fn_blocks f)) m args f b initial_exec))"

end
