(* ===== verification/Tesla_Types.thy ===== *)
theory Tesla_Types
  imports Tesla_Prelude
begin

text \<open>
  The data of libtesla: the public structures of \<open>include/libtesla.h\<close> and the internal ones
  of \<open>libtesla/src/tesla_internal.h\<close>.

  Pointers are modelled by what the code does with them.
  \<^item> \<open>const struct tesla_automaton *\<close> is compared, hashed and dereferenced, so it is an
    address (\<open>uintptr\<close>, NULL is \<open>0\<close>); the descriptions are constant data, given by a map
    \<open>automata\<close> from addresses that every operation which dereferences one takes as an argument.
  \<^item> \<open>struct tesla_class *\<close> always points into the \<open>ts_classes\<close> array of one store and
    \<open>struct tesla_instance *\<close> into the \<open>tc_instances\<close> array of one class: both are indices.
  \<^item> An allocated array that may be NULL is an \<open>option\<close> of a list.
  \<^item> A pointer with its length beside it (\<open>struct tesla_transitions\<close>) is a list.
  \<^item> An enumeration whose \<open>default:\<close> branch the code handles (\<open>enum tesla_context\<close>) is its
    underlying \<open>unsigned int\<close>.
  Fields of \<open>struct tesla_transition\<close> carry the prefix \<open>t_\<close>.
\<close>

subsection \<open>Error values\<close>

datatype tesla_err =
    TESLA_SUCCESS
  | TESLA_ERROR_ENOENT
  | TESLA_ERROR_ENOMEM
  | TESLA_ERROR_EINVAL
  | TESLA_ERROR_UNKNOWN

text \<open>The numeric value C gives each enumerator.\<close>

definition err_code :: "tesla_err \<Rightarrow> 32 word" where
  "err_code e = (case e of
     TESLA_SUCCESS \<Rightarrow> 0
   | TESLA_ERROR_ENOENT \<Rightarrow> 1
   | TESLA_ERROR_ENOMEM \<Rightarrow> 2
   | TESLA_ERROR_EINVAL \<Rightarrow> 3
   | TESLA_ERROR_UNKNOWN \<Rightarrow> 4)"

definition tesla_strerror :: "32 word \<Rightarrow> string" where
  "tesla_strerror error =
     (if error = err_code TESLA_SUCCESS then ''Success''
      else if error = err_code TESLA_ERROR_ENOENT then ''Entry not found''
      else if error = err_code TESLA_ERROR_ENOMEM then ''Insufficient memory''
      else if error = err_code TESLA_ERROR_EINVAL then ''Invalid argument''
      else if error = err_code TESLA_ERROR_UNKNOWN then ''Unknown error''
      else ''Invalid error code'')"

definition tesla_die :: "32 word \<Rightarrow> string \<Rightarrow> 'a res" where
  "tesla_die code event =
     Inl (Panic (''tesla_die: fatal error in event '' @ [CHR 0x27] @ event @ [CHR 0x27] @ ''; ''
       @ tesla_strerror code @ [CHR 0x0A]))"

subsection \<open>Keys, instances and transitions\<close>

definition TESLA_KEY_SIZE :: nat where
  "TESLA_KEY_SIZE = 4"

record tesla_key =
  tk_keys :: "uintptr list"
  tk_mask :: u32
  tk_freemask :: u32

text \<open>The array \<open>tk_keys[TESLA_KEY_SIZE]\<close> has exactly that many elements.\<close>

definition wf_key :: "tesla_key \<Rightarrow> bool" where
  "wf_key k \<longleftrightarrow> length (tk_keys k) = TESLA_KEY_SIZE"

definition zero_key :: tesla_key where
  "zero_key = \<lparr>tk_keys = [0, 0, 0, 0], tk_mask = 0, tk_freemask = 0\<rparr>"

record tesla_instance =
  ti_key :: tesla_key
  ti_state :: u32

definition zero_instance :: tesla_instance where
  "zero_instance = \<lparr>ti_key = zero_key, ti_state = 0\<rparr>"

record tesla_transition =
  t_from :: u32
  t_from_mask :: u32
  t_to :: u32
  t_to_mask :: u32
  t_flags :: u32

definition TESLA_TRANS_INIT :: u32 where
  "TESLA_TRANS_INIT = 0x02"

definition TESLA_TRANS_CLEANUP :: u32 where
  "TESLA_TRANS_CLEANUP = 0x04"

type_synonym tesla_transitions = "tesla_transition list"

definition has_flag :: "tesla_transition \<Rightarrow> u32 \<Rightarrow> bool" where
  "has_flag t f \<longleftrightarrow> t_flags t AND f \<noteq> 0"

subsection \<open>Lifetimes and automata\<close>

record tesla_lifetime_event =
  tle_repr :: string
  tle_length :: u32
  tle_hash :: u32

record tesla_lifetime =
  tl_begin :: tesla_lifetime_event
  tl_end :: tesla_lifetime_event
  tl_repr :: string

record tesla_automaton =
  ta_name :: string
  ta_alphabet_size :: u32
  ta_cleanup_symbol :: u32
  ta_transitions :: "tesla_transitions list"
  ta_description :: string
  ta_symbol_names :: "string list"
  ta_lifetime :: tesla_lifetime

type_synonym automata = "uintptr \<rightharpoonup> tesla_automaton"

subsection \<open>Contexts, classes and stores\<close>

type_synonym tesla_context = u32

definition TESLA_CONTEXT_GLOBAL :: tesla_context where
  "TESLA_CONTEXT_GLOBAL = 0"

definition TESLA_CONTEXT_THREAD :: tesla_context where
  "TESLA_CONTEXT_THREAD = 1"

lemma context_distinct [simp]:
  "TESLA_CONTEXT_GLOBAL \<noteq> TESLA_CONTEXT_THREAD"
  "TESLA_CONTEXT_THREAD \<noteq> TESLA_CONTEXT_GLOBAL"
  by (simp_all add: TESLA_CONTEXT_GLOBAL_def TESLA_CONTEXT_THREAD_def)

text \<open>A pthread mutex: raw memory, initialised and free, held, or destroyed.\<close>

datatype mutex = Raw_mutex | Free_mutex | Held_mutex | Dead_mutex

record tesla_class =
  tc_automaton :: uintptr
  tc_context :: tesla_context
  tc_limit :: u32
  tc_free :: u32
  tc_instances :: "tesla_instance list option"
  tc_lock :: mutex

definition zero_class :: tesla_class where
  "zero_class = \<lparr>tc_automaton = 0, tc_context = 0, tc_limit = 0, tc_free = 0,
     tc_instances = None, tc_lock = Raw_mutex\<rparr>"

text \<open>
  \<open>tls_classes\<close> is the fixed array of class pointers (\<open>None\<close> is NULL).  Of the growing array
  \<open>tls_dyn_classes\<close> the model keeps the elements below \<open>tls_dyn_count\<close>: the code reads and
  clears only these, and the memory that \<open>realloc\<close> adds beyond them has no defined content.
\<close>

definition TLS_STATIC_CLASSES :: nat where
  "TLS_STATIC_CLASSES = 32"

record tesla_lifetime_state =
  tls_begin :: tesla_lifetime_event
  tls_end :: tesla_lifetime_event
  tls_classes :: "nat option list"
  tls_dyn_classes :: "nat option list"
  tls_dyn_capacity :: u32
  tls_dyn_count :: u32

definition zero_lifetime_event :: tesla_lifetime_event where
  "zero_lifetime_event = \<lparr>tle_repr = [], tle_length = 0, tle_hash = 0\<rparr>"

definition zero_lifetime_state :: tesla_lifetime_state where
  "zero_lifetime_state = \<lparr>tls_begin = zero_lifetime_event, tls_end = zero_lifetime_event,
     tls_classes = replicate TLS_STATIC_CLASSES None, tls_dyn_classes = [],
     tls_dyn_capacity = 0, tls_dyn_count = 0\<rparr>"

record tesla_store =
  ts_length :: u32
  ts_classes :: "tesla_class list option"
  ts_lifetimes :: "tesla_lifetime_state list option"
  ts_lifetime_count :: u32

definition zero_store :: tesla_store where
  "zero_store = \<lparr>ts_length = 0, ts_classes = None, ts_lifetimes = None, ts_lifetime_count = 0\<rparr>"

definition TESLA_MAX_CLASSES :: u32 where
  "TESLA_MAX_CLASSES = 128"

definition TESLA_MAX_INSTANCES :: u32 where
  "TESLA_MAX_INSTANCES = 128"

subsection \<open>Comparing lifetimes\<close>

text \<open>
  \<open>strncmp\<close>: at most \<open>n\<close> bytes, stopping at the first difference or at a NUL that both strings
  have.  The end of the list is the terminating NUL.
\<close>

fun strncmp :: "string \<Rightarrow> string \<Rightarrow> nat \<Rightarrow> int" where
  "strncmp xs ys 0 = 0"
| "strncmp [] [] (Suc n) = 0"
| "strncmp [] (y # ys) (Suc n) = - of_char y"
| "strncmp (x # xs) [] (Suc n) = of_char x"
| "strncmp (x # xs) (y # ys) (Suc n) =
     (if x \<noteq> y then of_char x - of_char y
      else if x = CHR 0x00 then 0
      else strncmp xs ys n)"

definition same_event :: "tesla_lifetime_event \<Rightarrow> tesla_lifetime_event \<Rightarrow> bool" where
  "same_event x y \<longleftrightarrow>
     strncmp (tle_repr x) (tle_repr y) (unat (tle_length x)) = 0"

definition same_lifetime :: "tesla_lifetime \<Rightarrow> tesla_lifetime \<Rightarrow> bool" where
  "same_lifetime x y \<longleftrightarrow>
     tle_length (tl_begin x) = tle_length (tl_begin y)
     \<and> tle_length (tl_end x) = tle_length (tl_end y)
     \<and> tle_hash (tl_begin x) = tle_hash (tl_begin y)
     \<and> tle_hash (tl_end x) = tle_hash (tl_end y)
     \<and> same_event (tl_begin x) (tl_begin y)
     \<and> same_event (tl_end x) (tl_end y)"

definition same_static_lifetime :: "tesla_lifetime \<Rightarrow> tesla_lifetime_state \<Rightarrow> bool" where
  "same_static_lifetime x y \<longleftrightarrow>
     tle_length (tl_begin x) = tle_length (tls_begin y)
     \<and> tle_length (tl_end x) = tle_length (tls_end y)
     \<and> tle_hash (tl_begin x) = tle_hash (tls_begin y)
     \<and> tle_hash (tl_end x) = tle_hash (tls_end y)
     \<and> same_event (tl_begin x) (tls_begin y)
     \<and> same_event (tl_end x) (tls_end y)"

lemma of_char_int_eq_0 [simp]: "(of_char c :: int) = 0 \<longleftrightarrow> c = CHR 0x00"
  using of_char_eq_iff [of c "CHR 0x00", where ?'a = int] by simp

lemma strncmp_refl [simp]: "strncmp xs xs n = 0"
proof (induction xs arbitrary: n)
  case Nil
  show ?case by (cases n) simp_all
next
  case (Cons x xs)
  then show ?case by (cases n) simp_all
qed

lemma strncmp_Cons_0:
  "strncmp (x # xs) (y # ys) (Suc n) = 0 \<longleftrightarrow> x = y \<and> (x = CHR 0x00 \<or> strncmp xs ys n = 0)"
  using of_char_eq_iff [of x y, where ?'a = int] by simp

lemma strncmp_Nil_0:
  "strncmp [] ys (Suc n) = 0 \<longleftrightarrow> (case ys of [] \<Rightarrow> True | y # _ \<Rightarrow> y = CHR 0x00)"
  "strncmp xs [] (Suc n) = 0 \<longleftrightarrow> (case xs of [] \<Rightarrow> True | x # _ \<Rightarrow> x = CHR 0x00)"
  by (simp_all split: list.split)

lemmas strncmp_0_simps = strncmp_Cons_0 strncmp_Nil_0

declare strncmp.simps(2-5) [simp del]

lemma strncmp_0_sym: "strncmp xs ys n = 0 \<Longrightarrow> strncmp ys xs n = 0"
  by (induction xs ys n rule: strncmp.induct)
    (simp_all add: strncmp_0_simps, blast)

lemma strncmp_0_trans:
  "strncmp xs ys n = 0 \<Longrightarrow> strncmp ys zs n = 0 \<Longrightarrow> strncmp xs zs n = 0"
proof (induction xs ys n arbitrary: zs rule: strncmp.induct)
  case (3 y ys n)
  then show ?case by (cases zs) (simp_all add: strncmp_0_simps)
next
  case (4 x xs n)
  then show ?case by (cases zs) (simp_all add: strncmp_0_simps)
next
  case (5 x xs y ys n)
  then show ?case by (cases zs) (simp_all add: strncmp_0_simps, blast)
qed simp_all

text \<open>Comparing lifetimes is an equivalence, so a lifetime state is found by any equal lifetime.\<close>

lemma same_lifetime_equiv:
  "same_lifetime x x"
  "same_lifetime x y \<Longrightarrow> same_lifetime y x"
  "same_lifetime x y \<Longrightarrow> same_lifetime y z \<Longrightarrow> same_lifetime x z"
  by (auto simp: same_lifetime_def same_event_def intro: strncmp_0_sym strncmp_0_trans)

lemma same_static_lifetime_iff:
  "same_static_lifetime x s \<longleftrightarrow>
   same_lifetime x \<lparr>tl_begin = tls_begin s, tl_end = tls_end s, tl_repr = r\<rparr>"
  by (simp add: same_static_lifetime_def same_lifetime_def)

end
