(* ===== verification/Tesla_Translation.thy ===== *)
theory Tesla_Translation
  imports Tesla_LLVM Tesla_Types
begin

text \<open>
  Translation functions: the functions the instrumenter adds to a program, which turn an event of
  the program into calls of libtesla (\<open>TranslationFn.cpp\<close>, \<open>EventTranslator.cpp\<close> and the helpers of
  \<open>Instrumentation.cpp\<close>).  A translation function is a chain of matching and instrumentation blocks
  that ends in its block \<open>End\<close>.  A constant string is a global named by its content; where a message
  of the code contains LLVM's rendering of a type, the model has the text around it.
\<close>

subsection \<open>Creating a translation function\<close>

definition Format :: "ty \<Rightarrow> string res" where
  "Format t = (case t of
     PtrT _ \<Rightarrow> Inr '' %p''
   | IntT _ \<Rightarrow> Inr '' %d''
   | FloatT \<Rightarrow> Inr '' %f''
   | DoubleT \<Rightarrow> Inr '' %f''
   | _ \<Rightarrow> Inl (Assertion ''Unhandled arg type''))"

definition debug_name :: val where
  "debug_name = Global ''debug_name'' (IntT 8)"

text \<open>Without debug output the preamble is just the entry block.\<close>

definition CreatePreamble :: "bool \<Rightarrow> string \<Rightarrow> fn \<Rightarrow> (fn \<times> nat) res" where
  "CreatePreamble suppress prefix f =
     (let (f1, entry) = create_block ''entry'' None f in
      if suppress then Inr (f1, entry)
      else
        let (f2, preamble) = create_block ''preamble'' (Some entry) f1;
            debugging = Call_v ''tesla_debugging'' Int32T [debug_name];
            cmp = ICmpNE debugging (ConstInt 32 0);
            f3 = emit preamble [Compute debugging, Compute cmp] f2;
            (f4, print_bb) = create_block ''printf'' (Some entry) f3;
            f5 = set_term preamble (CondBr cmp print_bb entry) f4
        in bindE (concatE (map Format (fn_params f))) (\<lambda>formats.
             let format = Global (prefix @ formats @ [CHR 0x0A]) (IntT 8);
                 f6 = emit print_bb [Call_i ''printf'' (format # fn_args f)] f5
             in Inr (set_term print_bb (Br entry) f6, entry)))"

text \<open>\<open>TranslationFn::Create\<close> on the function that \<open>getOrInsertFunction\<close> gave.\<close>

definition TranslationFn_Create :: "bool \<Rightarrow> string \<Rightarrow> linkage \<Rightarrow> fn \<Rightarrow> (fn \<times> nat) res" where
  "TranslationFn_Create suppress prefix link f =
     (let f1 = f\<lparr>fn_linkage := link\<rparr> in
      if fn_blocks f1 = [] then
        bindE (CreatePreamble suppress prefix f1) (\<lambda>(f2, preamble).
          let (f3, end_block) = create_block ''exit'' None f2
          in Inr (set_term end_block (Ret None) (set_term preamble (Br end_block) f3), end_block))
      else bindE (derefE ''EndBlock'' (FindBlock ''exit'' f1)) (\<lambda>e. Inr (f1, e)))"

subsection \<open>Values and keys\<close>

text \<open>\<open>GetArgumentValue\<close>, with the instructions it emits; \<open>structs\<close> are the structures of the module.\<close>

function GetArgumentValue ::
  "(string \<times> ty list) list \<Rightarrow> bool \<Rightarrow> val \<Rightarrow> argument \<Rightarrow> (val \<times> inst list) res" where
  "GetArgumentValue structs at_site param a = (case a_type a of
     Constant_arg \<Rightarrow> Inr (param, [])
   | Any_arg \<Rightarrow> Inr (param, [])
   | Variable_arg \<Rightarrow> Inr (param, [])
   | Indirect_arg \<Rightarrow>
       if at_site then Inr (param, [])
       else
         bindE (assertE ''Ptr must have pointer type'' (is_ptr (type_of param))) (\<lambda>_.
           case a_indirection a of
             None \<Rightarrow> Inr (Load param, [Compute (Load param)])
           | Some b \<Rightarrow>
               bindE (GetArgumentValue structs False (Load param) b) (\<lambda>(v, is). Inr (v, Compute (Load param) # is)))
   | Field_arg \<Rightarrow>
       if \<not> at_site then Inr (param, [])
       else (case a_field a of
           None \<Rightarrow> Inl (Assertion ''called BaseName() on a non-variable Argument'')
         | Some fl \<Rightarrow>
             bindE (GetArgumentValue structs at_site param (sf_base fl)) (\<lambda>(base, is).
               case type_of base of
                 PtrT (StructT s) \<Rightarrow>
                   (case map_of structs s of
                      None \<Rightarrow> Inl (Undefined ''GEP'')
                    | Some ts \<Rightarrow>
                        if 0 \<le> sf_index fl \<and> nat (sf_index fl) < length ts then
                          let p = Field_ptr s (nat (sf_index fl)) (ts ! nat (sf_index fl)) base
                          in Inr (Load p, is @ [Compute p, Compute (Load p)])
                        else Inl (Undefined ''GEP''))
               | _ \<Rightarrow> Inl (Undefined ''GEP''))))"
  by pat_completeness auto
termination
  by (relation "measure (\<lambda>(_, _, _, a). size a)") (auto dest: indirection_size field_size)

declare GetArgumentValue.simps [simp del]

text \<open>A cast to \<open>uintptr_t\<close>.  LLVM can cast floating-point numbers to integers, but the code has no
  case for them.\<close>

definition Cast :: "val \<Rightarrow> (val \<times> inst list) res" where
  "Cast v =
     (if type_of v = IntPtrT then Inr (v, [])
      else case type_of v of
        PtrT _ \<Rightarrow> Inr (PtrToInt 64 v, [Compute (PtrToInt 64 v)])
      | IntT _ \<Rightarrow> Inr (IntCast 64 v, [Compute (IntCast 64 v)])
      | FloatT \<Rightarrow> Inl (Undefined ''failed to cast something castable'')
      | DoubleT \<Rightarrow> Inl (Undefined ''failed to cast something castable'')
      | _ \<Rightarrow> Inl (Panic ''Instrumentation argument cannot be cast''))"

fun key_loop :: "nat \<Rightarrow> nat \<Rightarrow> val option list \<Rightarrow> u32 \<Rightarrow> (inst list \<times> u32) res" where
  "key_loop key i [] key_mask = Inr ([], key_mask)"
| "key_loop key i (None # args) key_mask = key_loop key (Suc i) args key_mask"
| "key_loop key i (Some a # args) key_mask =
     bindE (assertE ''i < TESLA_KEY_SIZE'' (i < TESLA_KEY_SIZE)) (\<lambda>_.
     bindE (Cast a) (\<lambda>(v, is).
     bindE (key_loop key (Suc i) args (key_mask OR push_bit i 1)) (\<lambda>(rest, mask).
       Inr (is @ Store_key key i v # rest, mask))))"

definition ConstructKey :: "nat \<Rightarrow> val option list \<Rightarrow> u32 \<Rightarrow> inst list res" where
  "ConstructKey key args free_mask =
     bindE (key_loop key 0 args 0) (\<lambda>(is, key_mask).
       Inr (Alloca_key key # is
         @ [Store_key key TESLA_KEY_SIZE (ConstInt 32 (uint key_mask)),
            Store_key key (TESLA_KEY_SIZE + 1) (ConstInt 32 (uint free_mask))]))"

subsection \<open>Adding instrumentation\<close>

definition match_value :: "argument \<Rightarrow> val \<Rightarrow> val res" where
  "match_value pattern v = (case type_of v of
     IntT w \<Rightarrow>
       let p = ConstInt w (getD 0 (a_value pattern)) in
       Inr (case getD Exact_match (a_match pattern) of
           Exact_match \<Rightarrow> ICmpEQ v p
         | Flags_match \<Rightarrow> ICmpEQ (And_v v p) p
         | Mask_match \<Rightarrow> ICmpEQ (And_v v p) v)
   | _ \<Rightarrow> Inl (Assertion ''cast<IntegerType>''))"

definition Match :: "string \<Rightarrow> nat \<Rightarrow> nat \<Rightarrow> argument \<Rightarrow> val \<Rightarrow> fn \<Rightarrow> fn res" where
  "Match label end_block instr pattern v f =
     (if a_type pattern \<noteq> Constant_arg then Inr f
      else
        let (f1, match_block) = create_block label (Some instr) f;
            f2 = redirect instr match_block f1
        in bindE (match_value pattern v) (\<lambda>cmp.
             Inr (set_term match_block (CondBr cmp instr end_block) (emit match_block [Compute cmp] f2))))"

definition place_key ::
  "(string \<times> ty list) list \<Rightarrow> bool \<Rightarrow> nat \<Rightarrow> argument \<Rightarrow> val \<Rightarrow> val option list \<Rightarrow> fn \<Rightarrow> (val option list \<times> fn) res" where
  "place_key structs indirect instr pattern v key_args f = (case a_index pattern of
     None \<Rightarrow> Inr (key_args, f)
   | Some index \<Rightarrow>
       bindE (assertE ''Index < TESLA_KEY_SIZE'' (index < int TESLA_KEY_SIZE)) (\<lambda>_.
       bindE (if index < 0 then Inl (Undefined ''KeyArgs[Index]'') else Inr ()) (\<lambda>_.
       bindE (assertE ''KeyArgs[Index] == NULL'' (key_args ! nat index = None)) (\<lambda>_.
         if indirect then
           bindE (GetArgumentValue structs False v pattern) (\<lambda>(x, is).
             Inr (key_args[nat index := Some x], emit instr is f))
         else Inr (key_args[nat index := Some v], f)))))"

fun pattern_loop ::
  "(string \<times> ty list) list \<Rightarrow> string \<Rightarrow> bool \<Rightarrow> nat \<Rightarrow> nat \<Rightarrow> nat \<Rightarrow> (argument \<times> val) list \<Rightarrow> val option list \<Rightarrow> fn
    \<Rightarrow> (val option list \<times> fn) res" where
  "pattern_loop structs label indirect end_block instr i [] key_args f = Inr (key_args, f)"
| "pattern_loop structs label indirect end_block instr i ((pattern, v) # pvs) key_args f =
     bindE (Match (label @ '':match:'' @ dec_nat i) end_block instr pattern v f) (\<lambda>f1.
     bindE (place_key structs indirect instr pattern v key_args f1) (\<lambda>(key_args1, f2).
       pattern_loop structs label indirect end_block instr (Suc i) pvs key_args1 f2))"

text \<open>The key is numbered like the block that builds it.\<close>

definition AddInstrumentation ::
  "(string \<times> ty list) list \<Rightarrow> string \<Rightarrow> argument list \<Rightarrow> bool \<Rightarrow> u32 \<Rightarrow> nat \<Rightarrow> fn \<Rightarrow> (fn \<times> nat) res" where
  "AddInstrumentation structs label patterns indirect free_mask end_block f =
     (let (f1, instr) = create_block (label @ '':instr'') (Some end_block) f;
          f2 = redirect end_block instr f1
      in bindE (assertE ''Patterns.size() == InstrumentedValues.size()'' (length patterns = length (fn_params f))) (\<lambda>_.
         bindE (pattern_loop structs label indirect end_block instr 0 (zip patterns (fn_args f))
                  (replicate TESLA_KEY_SIZE None) f2) (\<lambda>(key_args, f3).
         bindE (ConstructKey instr key_args free_mask) (\<lambda>is.
           Inr (set_term instr (Br end_block) (emit instr is f3), instr)))))"

text \<open>The patterns of a function event: arguments, return value, receiver.\<close>

definition fn_patterns :: "function_event \<Rightarrow> argument list res" where
  "fn_patterns ev =
     bindE (case fe_expected ev of
         None \<Rightarrow> Inr []
       | Some r \<Rightarrow> bindE (assertE ''Ev.direction() == FunctionEvent::Exit'' (fn_direction ev = Exit)) (\<lambda>_. Inr [r])) (\<lambda>ret.
     bindE (case fe_receiver ev of
         None \<Rightarrow> Inr []
       | Some r \<Rightarrow> bindE (assertE ''Ev.kind() == FunctionEvent::ObjC...'' (fn_kind ev \<noteq> CCall)) (\<lambda>_. Inr [r])) (\<lambda>rcv.
       Inr (fe_argument ev @ ret @ rcv)))"

definition AddInstrumentation_fn ::
  "(string \<times> ty list) list \<Rightarrow> function_event \<Rightarrow> string \<Rightarrow> nat \<Rightarrow> fn \<Rightarrow> (fn \<times> nat) res" where
  "AddInstrumentation_fn structs ev label end_block f =
     bindE (fn_patterns ev) (\<lambda>patterns. AddInstrumentation structs label patterns True 0 end_block f)"

text \<open>At an assertion site: the bound variables in order, and a mask of the free ones.\<close>

fun site_patterns :: "argument list \<Rightarrow> argument list \<times> u32" where
  "site_patterns [] = ([], 0)"
| "site_patterns (a # as) =
     (let (vs, mask) = site_patterns as in
      if getD False (a_free a) then (vs, push_bit (nat (getD 0 (a_index a))) 1 OR mask) else (a # vs, mask))"

definition AddInstrumentation_site ::
  "(string \<times> ty list) list \<Rightarrow> automaton \<Rightarrow> nat \<Rightarrow> fn \<Rightarrow> (fn \<times> nat) res" where
  "AddInstrumentation_site structs a end_block f =
     (let (values, free_mask) = site_patterns (ad_argument (au_assertion a))
      in AddInstrumentation structs ''assertion_reached'' values False free_mask end_block f)"

subsection \<open>Event translators\<close>

definition TeslaContext :: "ir_context \<Rightarrow> val" where
  "TeslaContext c = ConstInt 32 (uint (case c of
     Global_context \<Rightarrow> TESLA_CONTEXT_GLOBAL
   | Thread_context \<Rightarrow> TESLA_CONTEXT_THREAD))"

text \<open>The calls go before the branch that ends the translator's block, whose key has its number.\<close>

definition CallSunrise :: "ir_context \<Rightarrow> val \<Rightarrow> nat \<Rightarrow> fn \<Rightarrow> fn" where
  "CallSunrise c lifetime instr f = emit instr [Call_i ''tesla_sunrise'' [TeslaContext c, lifetime]] f"

definition CallSunset :: "ir_context \<Rightarrow> val \<Rightarrow> nat \<Rightarrow> fn \<Rightarrow> fn" where
  "CallSunset c lifetime instr f = emit instr [Call_i ''tesla_sunset'' [TeslaContext c, lifetime]] f"

definition CallUpdateState :: "automaton \<Rightarrow> nat \<Rightarrow> nat \<Rightarrow> fn \<Rightarrow> fn" where
  "CallUpdateState a symbol instr f =
     emit instr [Call_i ''tesla_update_state''
       [TeslaContext (ad_context (au_assertion a)), Global (au_name a) (StructT ''tesla_automaton''),
        ConstInt 32 (int symbol), Key_ptr instr]] f"

end
