(* ===== verification/SuperFastHash.thy ===== *)
theory SuperFastHash
  imports Tesla_Prelude
begin

text \<open>
  \<open>tesla/common/SuperFastHash.c\<close>: the hash with which the instrumenter fills \<open>tle_hash\<close>.  The
  data is a NULL pointer or an array of bytes, and every read of it is checked against the
  array; \<open>char\<close> is signed, as on the targets of the instrumenter.  \<open>SuperFastHashAsm\<close> has a body
  only for two compilers: its registers are followed instruction by instruction.
\<close>

type_synonym byte = "8 word"

text \<open>\<open>get16bits(d)\<close>: two bytes, the low one first.\<close>

definition get16bits :: "byte list \<Rightarrow> nat \<Rightarrow> u32 res" where
  "get16bits data i =
     bindE (nthE ''data[1]'' data (i + 1)) (\<lambda>hi.
     bindE (nthE ''data[0]'' data i) (\<lambda>lo.
       Inr (push_bit 8 (ucast hi) + ucast lo)))"

text \<open>The main loop: \<open>n\<close> is \<open>len\<close>, \<open>i\<close> how far \<open>data\<close> has advanced.\<close>

fun hash_loop :: "byte list \<Rightarrow> nat \<Rightarrow> nat \<Rightarrow> u32 \<Rightarrow> (u32 \<times> nat) res" where
  "hash_loop data 0 i hash = Inr (hash, i)"
| "hash_loop data (Suc n) i hash =
     bindE (get16bits data i) (\<lambda>w0.
     bindE (get16bits data (i + 2)) (\<lambda>w1.
       let hash = hash + w0;
           tmp = push_bit 11 w1 XOR hash;
           hash = push_bit 16 hash XOR tmp;
           hash = hash + drop_bit 11 hash
       in hash_loop data n (i + 4) hash))"

text \<open>\<open>data[k]\<close> as an \<open>int\<close>.\<close>

definition char_int :: "byte list \<Rightarrow> nat \<Rightarrow> u32 res" where
  "char_int data i = bindE (nthE ''*data'' data i) (\<lambda>b. Inr (scast b))"

definition hash_tail :: "byte list \<Rightarrow> nat \<Rightarrow> nat \<Rightarrow> u32 \<Rightarrow> u32 res" where
  "hash_tail data rem i hash =
     (if rem = 3 then
        bindE (get16bits data i) (\<lambda>w.
        bindE (char_int data (i + 2)) (\<lambda>b.
          let hash = hash + w;
              hash = hash XOR push_bit 16 hash;
              hash = hash XOR push_bit 18 b
          in Inr (hash + drop_bit 11 hash)))
      else if rem = 2 then
        bindE (get16bits data i) (\<lambda>w.
          let hash = hash + w;
              hash = hash XOR push_bit 11 hash
          in Inr (hash + drop_bit 17 hash))
      else if rem = 1 then
        bindE (char_int data i) (\<lambda>b.
          let hash = hash + b;
              hash = hash XOR push_bit 10 hash
          in Inr (hash + drop_bit 1 hash))
      else Inr hash)"

definition avalanche :: "u32 \<Rightarrow> u32" where
  "avalanche hash =
     (let hash = hash XOR push_bit 3 hash;
          hash = hash + drop_bit 5 hash;
          hash = hash XOR push_bit 4 hash;
          hash = hash + drop_bit 17 hash;
          hash = hash XOR push_bit 25 hash
      in hash + drop_bit 6 hash)"

definition SuperFastHash :: "byte list option \<Rightarrow> int \<Rightarrow> u32 res" where
  "SuperFastHash p len = (case p of
     None \<Rightarrow> Inr 0
   | Some data \<Rightarrow>
       if len \<le> 0 then Inr 0
       else let n = nat len in
         bindE (hash_loop data (n div 4) 0 0) (\<lambda>(hash, i).
         bindE (hash_tail data (n mod 4) i hash) (\<lambda>hash.
           Inr (avalanche hash))))"

subsection \<open>The assembly version\<close>

text \<open>A 16-bit load into \<open>bx\<close> keeps the upper half of \<open>ebx\<close>.\<close>

definition mov_bx :: "u32 \<Rightarrow> u32 \<Rightarrow> u32" where
  "mov_bx ebx w = (ebx AND 0xFFFF0000) OR (w AND 0xFFFF)"

fun asm_loop :: "byte list \<Rightarrow> nat \<Rightarrow> nat \<Rightarrow> u32 \<Rightarrow> u32 \<Rightarrow> (u32 \<times> u32 \<times> nat) res" where
  "asm_loop data 0 esi eax ebx = Inr (eax, ebx, esi)"
| "asm_loop data (Suc ecx) esi eax ebx =
     bindE (get16bits data esi) (\<lambda>w0.
     bindE (get16bits data (esi + 2)) (\<lambda>w1.
       let eax = eax + w0;
           ebx = push_bit 11 w1;
           ebx = ebx XOR eax;
           eax = push_bit 16 eax;
           eax = eax XOR ebx;
           edx = eax;
           eax = drop_bit 11 eax;
           eax = eax + edx
       in asm_loop data ecx (esi + 4) eax ebx))"

definition asm_tail :: "byte list \<Rightarrow> nat \<Rightarrow> nat \<Rightarrow> u32 \<Rightarrow> u32 \<Rightarrow> u32 res" where
  "asm_tail data edi esi eax ebx =
     (if edi = 1 then
        bindE (char_int data esi) (\<lambda>b.
          let eax = eax + b; edx = eax; eax = push_bit 10 eax XOR edx; edx = eax
          in Inr (drop_bit 1 eax + edx))
      else if edi = 2 then
        bindE (get16bits data esi) (\<lambda>w.
          let eax = eax + mov_bx ebx w; edx = eax; eax = push_bit 11 eax XOR edx; edx = eax
          in Inr (drop_bit 17 eax + edx))
      else if edi = 3 then
        bindE (get16bits data esi) (\<lambda>w.
        bindE (char_int data (esi + 2)) (\<lambda>b.
          let eax = eax + mov_bx ebx w; edx = eax; eax = push_bit 16 eax XOR edx;
              eax = eax XOR push_bit 18 b; edx = eax
          in Inr (drop_bit 11 eax + edx)))
      else Inr eax)"

text \<open>\<open>inline_asm\<close>: whether the compiler is one of the two that get the assembly body.\<close>

definition SuperFastHashAsm :: "bool \<Rightarrow> byte list option \<Rightarrow> int \<Rightarrow> u32 res" where
  "SuperFastHashAsm inline_asm p len = (case p of
     None \<Rightarrow> Inr 0
   | Some data \<Rightarrow>
       if len \<le> 0 then Inr 0
       else if \<not> inline_asm then Inr 0
       else let n = nat len in
         bindE (asm_loop data (n div 4) 0 (of_int len) 0) (\<lambda>(eax, ebx, esi).
         bindE (asm_tail data (n mod 4) esi eax ebx) (\<lambda>eax.
           Inr (avalanche eax))))"

subsection \<open>Reads stay inside the array\<close>

lemma get16bits_in: "i + 1 < length data \<Longrightarrow> \<exists>w. get16bits data i = Inr w"
  by (simp add: get16bits_def)

lemma get16bits_take: "i + 1 < n \<Longrightarrow> n \<le> length data \<Longrightarrow> get16bits (take n data) i = get16bits data i"
  by (simp add: get16bits_def nthE_def)

lemma char_int_take: "i < n \<Longrightarrow> n \<le> length data \<Longrightarrow> char_int (take n data) i = char_int data i"
  by (simp add: char_int_def nthE_def)

lemma hash_loop_in:
  "i + 4 * n \<le> length data \<Longrightarrow> \<exists>h. hash_loop data n i hash = Inr (h, i + 4 * n)"
proof (induction n arbitrary: i hash)
  case (Suc n)
  then obtain w0 w1 where "get16bits data i = Inr w0" "get16bits data (i + 2) = Inr w1"
    using get16bits_in [of i data] get16bits_in [of "i + 2" data] by auto
  moreover have "i + 4 + 4 * n = i + 4 * Suc n" by simp
  ultimately show ?case using Suc.IH [of "i + 4"] Suc.prems by (simp add: Let_def add.assoc)
qed simp

lemma hash_loop_take:
  "i + 4 * n \<le> m \<Longrightarrow> m \<le> length data \<Longrightarrow> hash_loop (take m data) n i hash = hash_loop data n i hash"
proof (induction n arbitrary: i hash)
  case (Suc n)
  then show ?case by (simp add: get16bits_take)
qed simp

lemma hash_tail_in: "rem < 4 \<Longrightarrow> i + rem \<le> length data \<Longrightarrow> \<exists>h. hash_tail data rem i hash = Inr h"
  using get16bits_in [of i data]
  by (cases "rem = 3"; cases "rem = 2"; cases "rem = 1")
    (auto simp: hash_tail_def char_int_def Let_def)

lemma hash_tail_take:
  "rem < 4 \<Longrightarrow> i + rem \<le> m \<Longrightarrow> m \<le> length data \<Longrightarrow>
   hash_tail (take m data) rem i hash = hash_tail data rem i hash"
  by (cases "rem = 3"; cases "rem = 2"; cases "rem = 1")
    (simp_all add: hash_tail_def get16bits_take char_int_take)

lemma take_take_append: "n \<le> length xs \<Longrightarrow> take n (take n xs @ ys) = take n xs"
  by (simp add: min_def)

lemma hash_total:
  assumes "len \<le> int (length data)"
  shows "\<exists>h. SuperFastHash (Some data) len = Inr h"
proof (cases "len \<le> 0")
  case False
  let ?n = "nat len"
  have n: "4 * (?n div 4) + ?n mod 4 = ?n" "?n \<le> length data" using assms by simp_all
  then have "4 * (?n div 4) \<le> length data" by linarith
  then obtain h where "hash_loop data (?n div 4) 0 0 = Inr (h, 4 * (?n div 4))"
    using hash_loop_in [of 0 "?n div 4" data 0] by auto
  moreover obtain h' where "hash_tail data (?n mod 4) (4 * (?n div 4)) h = Inr h'"
    using hash_tail_in [of "?n mod 4" "4 * (?n div 4)" data h] n by auto
  ultimately show ?thesis using False by (simp add: SuperFastHash_def Let_def)
qed (simp add: SuperFastHash_def)

lemma hash_prefix:
  assumes "len \<le> int (length data)"
  shows "SuperFastHash (Some (take (nat len) data)) len = SuperFastHash (Some data) len"
proof (cases "len \<le> 0")
  case False
  let ?n = "nat len"
  have n: "4 * (?n div 4) + ?n mod 4 = ?n" "?n \<le> length data" using assms by simp_all
  then have loop: "hash_loop (take ?n data) (?n div 4) 0 0 = hash_loop data (?n div 4) 0 0"
    by (intro hash_loop_take) simp_all
  from n have "4 * (?n div 4) \<le> length data" by linarith
  then obtain h where h: "hash_loop data (?n div 4) 0 0 = Inr (h, 4 * (?n div 4))"
    using hash_loop_in [of 0 "?n div 4" data 0] by auto
  have "hash_tail (take ?n data) (?n mod 4) (4 * (?n div 4)) h = hash_tail data (?n mod 4) (4 * (?n div 4)) h"
    using n by (intro hash_tail_take) simp_all
  with loop h False show ?thesis by (simp add: SuperFastHash_def Let_def)
qed (simp add: SuperFastHash_def)


subsection \<open>Theorems\<close>

text \<open>
  C31.  The hash of the first \<open>len\<close> bytes of an array that has at least so many is always computed,
  reads nothing outside the array, and depends on those bytes only.
\<close>

theorem hash_in_bounds:
  assumes "len \<le> int (length data)"
  shows "\<exists>h. SuperFastHash (Some data) len = Inr h
    \<and> SuperFastHash (Some (take (nat len) data @ rest)) len = Inr h"
proof -
  obtain h where h: "SuperFastHash (Some data) len = Inr h" using hash_total [OF assms] by blast
  let ?d = "take (nat len) data"
  have "len \<le> int (length (?d @ rest))" using assms by (simp add: min_def)
  from hash_prefix [OF this]
  have "SuperFastHash (Some (?d @ rest)) len = SuperFastHash (Some (take (nat len) (?d @ rest))) len" by simp
  also have "take (nat len) (?d @ rest) = ?d" by (rule take_take_append) (use assms in simp)
  finally show ?thesis using h hash_prefix [OF assms] by simp
qed

theorem hash_in_bounds_witness:
  "\<exists>h. SuperFastHash (Some [104, 105, 33]) 3 = Inr h \<and> SuperFastHash (Some [104, 105, 33, 7]) 3 = Inr h"
proof -
  have "(3 :: int) \<le> int (length [104 :: byte, 105, 33])" by simp
  from hash_in_bounds [OF this, of "[7]"] show ?thesis by (simp add: numeral_3_eq_3)
qed

text \<open>The assembly version, which starts from the length and not from zero, is another function.\<close>

theorem asm_differs:
  "SuperFastHashAsm True (Some [104, 105]) 2 \<noteq> SuperFastHash (Some [104, 105]) 2"
  by code_simp

end
