(* ===== verification/Tesla_Description.thy ===== *)
theory Tesla_Description
  imports Tesla_Translation SuperFastHash
begin

text \<open>
  The static data the instrumenter puts into a program (\<open>InstrContext.cpp\<close>): for every automaton a
  \<open>struct tesla_automaton\<close> and for every lifetime a \<open>struct tesla_lifetime\<close>, which libtesla reads.
  The initialisers are the records that model these structures in libtesla.

  Serialising a message is the protocol buffer library's: \<open>ser\<close> stands for it.  A global with
  internal linkage is not found again by its name, so every lifetime that is built is a new global.
\<close>

subsection \<open>Modules\<close>

datatype ginit = Automaton_init tesla_automaton | Lifetime_init tesla_lifetime | String_init string | Other_init

record gvar =
  gv_name :: string
  gv_linkage :: linkage
  gv_type :: ty
  gv_init :: "ginit option"

record modul =
  mo_fns :: "fn list"
  mo_globals :: "gvar list"
  mo_structs :: "(string \<times> ty list) list"

definition getGlobalVariable :: "modul \<Rightarrow> string \<Rightarrow> gvar option" where
  "getGlobalVariable m name = find (\<lambda>g. gv_name g = name \<and> gv_linkage g = External_l) (mo_globals m)"

text \<open>A name that is taken gets a number that makes it unique.\<close>

definition unique_name :: "string list \<Rightarrow> string \<Rightarrow> string" where
  "unique_name taken name =
     (if name \<notin> set taken then name
      else hd (filter (\<lambda>x. x \<notin> set taken) (map (\<lambda>i. name @ dec_nat i) [0..<Suc (length taken)])))"

definition new_global :: "string \<Rightarrow> linkage \<Rightarrow> ty \<Rightarrow> ginit option \<Rightarrow> modul \<Rightarrow> modul \<times> string" where
  "new_global name link t init m =
     (let n = unique_name (map gv_name (mo_globals m)) name
      in (m\<lparr>mo_globals := mo_globals m @ [\<lparr>gv_name = n, gv_linkage = link, gv_type = t, gv_init = init\<rparr>]\<rparr>, n))"

subsection \<open>Lifetimes\<close>

definition string_bytes :: "string \<Rightarrow> byte list" where
  "string_bytes s = map of_char s"

definition BuildLifetimeEvent ::
  "(function_event + field_assignment \<Rightarrow> string option) \<Rightarrow> edge \<Rightarrow> tesla_lifetime_event res" where
  "BuildLifetimeEvent ser e =
     bindE (derefE ''T.Protobuf()'' (trans_message (e_label e))) (\<lambda>msg.
     bindE (case ser msg of None \<Rightarrow> Inl (Assertion ''Success'') | Some s \<Rightarrow> Inr s) (\<lambda>protobuf.
     bindE (SuperFastHash (Some (string_bytes protobuf)) (int (length protobuf))) (\<lambda>h.
     bindE (ShortLabel (e_label e)) (\<lambda>_.
       Inr \<lparr>tle_repr = protobuf, tle_length = of_nat (length protobuf), tle_hash = h\<rparr>))))"

definition lifetime_name :: "edge \<Rightarrow> edge \<Rightarrow> string res" where
  "lifetime_name sunrise sunset =
     bindE (ShortLabel (e_label sunrise)) (\<lambda>a.
     bindE (ShortLabel (e_label sunset)) (\<lambda>b. Inr (''('' @ a @ '' -> '' @ b @ '')'')))"

definition lifetime_content ::
  "(function_event + field_assignment \<Rightarrow> string option) \<Rightarrow> edge \<Rightarrow> edge \<Rightarrow> tesla_lifetime res" where
  "lifetime_content ser sunrise sunset =
     bindE (lifetime_name sunrise sunset) (\<lambda>name.
     bindE (BuildLifetimeEvent ser sunrise) (\<lambda>b.
     bindE (BuildLifetimeEvent ser sunset) (\<lambda>e.
       Inr \<lparr>tl_begin = b, tl_end = e, tl_repr = name\<rparr>)))"

text \<open>The module with the lifetime, and the lifetime's name in it.\<close>

definition BuildLifetime ::
  "(function_event + field_assignment \<Rightarrow> string option) \<Rightarrow> automaton_lifetime \<Rightarrow> modul \<Rightarrow> (modul \<times> string) res" where
  "BuildLifetime ser l m = (case (al_init l, al_cleanup l) of
     (Some sunrise, Some sunset) \<Rightarrow>
       bindE (lifetime_name sunrise sunset) (\<lambda>name.
         case getGlobalVariable m name of
           Some g \<Rightarrow> Inr (m, gv_name g)
         | None \<Rightarrow>
             bindE (lifetime_content ser sunrise sunset) (\<lambda>content.
               Inr (new_global name Internal_l (StructT ''tesla_lifetime'') (Some (Lifetime_init content)) m)))
   | _ \<Rightarrow> Inl (Assertion ''Lifetime.Init != NULL and Lifetime.Cleanup != NULL''))"

subsection \<open>Automata\<close>

definition BuildTransition :: "graph \<Rightarrow> edge \<Rightarrow> tesla_transition" where
  "BuildTransition g e =
     \<lparr>t_from = of_nat (e_from e), t_from_mask = state_mask (g_states g ! e_from e),
      t_to = of_nat (e_to e), t_to_mask = state_mask (g_states g ! e_to e),
      t_flags = (if e_init e then TESLA_TRANS_INIT else 0) OR (if e_cleanup e then TESLA_TRANS_CLEANUP else 0)\<rparr>"

definition BuildTransitions :: "automaton \<Rightarrow> nat list \<Rightarrow> tesla_transitions res" where
  "BuildTransitions a c =
     bindE (assertE ''!Tr.empty()'' (c \<noteq> [])) (\<lambda>_.
     bindE (Transition_String (au_graph a) (au_edge a (hd c))) (\<lambda>_.
       Inr (map (\<lambda>t. BuildTransition (au_graph a) (au_edge a t)) c)))"

fun build_classes :: "automaton \<Rightarrow> nat list list \<Rightarrow> (tesla_transitions list \<times> string list) res" where
  "build_classes a [] = Inr ([], [])"
| "build_classes a (c # cs) =
     bindE (Transition_String (au_graph a) (au_edge a (hd c))) (\<lambda>descrip.
     bindE (BuildTransitions a c) (\<lambda>ts.
     bindE (build_classes a cs) (\<lambda>(tss, ds). Inr (ts # tss, descrip # ds))))"

text \<open>The symbol of the class that cleans up; an empty class has the symbol -1.\<close>

definition cleanup_symbol :: "automaton \<Rightarrow> u32" where
  "cleanup_symbol a =
     (case find (\<lambda>i. e_cleanup (au_edge a (hd (au_classes a ! i)))) [0..<length (au_classes a)] of
        None \<Rightarrow> -1
      | Some i \<Rightarrow> of_nat i)"

text \<open>The content of the description; \<open>lifetime\<close> is what its lifetime points to.\<close>

definition automaton_content :: "automaton \<Rightarrow> tesla_lifetime \<Rightarrow> tesla_automaton res" where
  "automaton_content a lifetime =
     bindE (build_classes a (au_classes a)) (\<lambda>(tss, names).
       Inr \<lparr>ta_name = au_name a, ta_alphabet_size = of_nat (length tss), ta_cleanup_symbol = cleanup_symbol a,
            ta_transitions = tss, ta_description = getD [] (ad_source (au_assertion a)), ta_symbol_names = names,
            ta_lifetime = lifetime\<rparr>)"

definition lifetime_at :: "modul \<Rightarrow> string \<Rightarrow> tesla_lifetime res" where
  "lifetime_at m name = (case find (\<lambda>g. gv_name g = name) (mo_globals m) of
     Some g \<Rightarrow> (case gv_init g of Some (Lifetime_init l) \<Rightarrow> Inr l | _ \<Rightarrow> Inl (Undefined ''lifetime''))
   | None \<Rightarrow> Inl (Undefined ''lifetime''))"

text \<open>An extern declaration of the automaton is replaced by the definition.\<close>

definition BuildAutomatonDescription ::
  "(function_event + field_assignment \<Rightarrow> string option) \<Rightarrow> automaton \<Rightarrow> modul \<Rightarrow> modul res" where
  "BuildAutomatonDescription ser a m =
     bindE (assertE ''!Existing->hasInitializer()''
       (case getGlobalVariable m (au_name a) of None \<Rightarrow> True | Some g \<Rightarrow> gv_init g = None)) (\<lambda>_.
     bindE (build_classes a (au_classes a)) (\<lambda>_.
     bindE (BuildLifetime ser (getLifetime a) m) (\<lambda>(m1, l).
     bindE (lifetime_at m1 l) (\<lambda>lifetime.
     bindE (automaton_content a lifetime) (\<lambda>content.
       Inr (m1\<lparr>mo_globals :=
         filter (\<lambda>g. \<not> (gv_name g = au_name a \<and> gv_linkage g = External_l)) (mo_globals m1)
         @ [\<lparr>gv_name = au_name a, gv_linkage = External_l, gv_type = StructT ''tesla_automaton'', gv_init = Some (Automaton_init content)\<rparr>]\<rparr>))))))"

definition ExternalDescription :: "automaton \<Rightarrow> modul \<Rightarrow> modul" where
  "ExternalDescription a m = (case getGlobalVariable m (au_name a) of
     Some _ \<Rightarrow> m
   | None \<Rightarrow> fst (new_global (au_name a) External_l (StructT ''tesla_automaton'') None m))"

subsection \<open>Lifetimes are recognised\<close>

lemma BuildLifetimeEvent_Inr:
  "BuildLifetimeEvent ser e = Inr x \<longleftrightarrow> (\<exists>msg s h lab. trans_message (e_label e) = Some msg \<and> ser msg = Some s
     \<and> SuperFastHash (Some (string_bytes s)) (int (length s)) = Inr h \<and> ShortLabel (e_label e) = Inr lab
     \<and> x = \<lparr>tle_repr = s, tle_length = of_nat (length s), tle_hash = h\<rparr>)"
  by (auto simp: BuildLifetimeEvent_def E_eq_Inr derefE_def split: option.splits)

text \<open>Representations that a comparison up to the first NUL, the length and the hash do not tell apart.\<close>

definition hash_of :: "string \<Rightarrow> u32 res" where
  "hash_of s = SuperFastHash (Some (string_bytes s)) (int (length s))"

definition upto_nul :: "string \<Rightarrow> string" where
  "upto_nul s = takeWhile (\<lambda>c. c \<noteq> CHR 0x00) s"

definition indistinct :: "string \<Rightarrow> string \<Rightarrow> bool" where
  "indistinct s t \<longleftrightarrow> s = t
     \<or> CHR 0x00 \<in> set s \<and> upto_nul s = upto_nul t \<and> length s = length t \<and> hash_of s = hash_of t"

lemma strncmp_upto_nul: "length xs = length ys \<Longrightarrow> strncmp xs ys (length xs) = 0 \<longleftrightarrow> upto_nul xs = upto_nul ys"
proof (induction xs arbitrary: ys)
  case (Cons x xs)
  then show ?case by (cases ys) (auto simp: upto_nul_def strncmp_0_simps)
qed (simp add: upto_nul_def)

lemma upto_nul_whole: "CHR 0x00 \<notin> set s \<Longrightarrow> length s = length t \<Longrightarrow> upto_nul s = upto_nul t \<Longrightarrow> s = t"
  using takeWhile_eq_all_conv [of "\<lambda>c. c \<noteq> CHR 0x00" s] takeWhile_eq_take [of "\<lambda>c. c \<noteq> CHR 0x00" t]
    length_takeWhile_le [of "\<lambda>c. c \<noteq> CHR 0x00" t]
  by (metis length_take min.absorb1 take_all_iff upto_nul_def)

text \<open>Two events are compared by libtesla.\<close>

definition events_match :: "tesla_lifetime_event \<Rightarrow> tesla_lifetime_event \<Rightarrow> bool" where
  "events_match x y \<longleftrightarrow> tle_length x = tle_length y \<and> tle_hash x = tle_hash y \<and> same_event x y"

lemma same_lifetime_events: "same_lifetime x y \<longleftrightarrow> events_match (tl_begin x) (tl_begin y) \<and> events_match (tl_end x) (tl_end y)"
  by (auto simp: same_lifetime_def events_match_def)

lemma unat_u32: "n < 2 ^ 32 \<Longrightarrow> unat (of_nat n :: u32) = n"
  by (simp only: unat_of_nat take_bit_nat_eq_self_iff) simp

text \<open>The serialised message of a transition.\<close>

definition representation :: "(function_event + field_assignment \<Rightarrow> string option) \<Rightarrow> edge \<Rightarrow> string option" where
  "representation ser e = Option.bind (trans_message (e_label e)) ser"

lemma lifetime_event_match:
  assumes x: "BuildLifetimeEvent ser a = Inr x" "representation ser a = Some s" and y: "BuildLifetimeEvent ser b = Inr y" "representation ser b = Some t"
    and len: "length s < 2 ^ 32" "length t < 2 ^ 32"
  shows "events_match x y \<longleftrightarrow> indistinct s t"
proof -
  from x have xs: "tle_repr x = s" "tle_length x = of_nat (length s)" "hash_of s = Inr (tle_hash x)"
    by (auto simp: BuildLifetimeEvent_Inr representation_def hash_of_def)
  from y have ys: "tle_repr y = t" "tle_length y = of_nat (length t)" "hash_of t = Inr (tle_hash y)"
    by (auto simp: BuildLifetimeEvent_Inr representation_def hash_of_def)
  note u = unat_u32 [OF len(1)] unat_u32 [OF len(2)]
  have "tle_length x = tle_length y \<longleftrightarrow> length s = length t" unfolding xs ys using u by metis
  moreover have "tle_hash x = tle_hash y \<longleftrightarrow> hash_of s = hash_of t" by (simp add: xs ys)
  moreover have "same_event x y \<longleftrightarrow> upto_nul s = upto_nul t" if "length s = length t"
    using strncmp_upto_nul [OF that] unfolding same_event_def xs(1,2) ys(1) u(1) by simp
  ultimately have "events_match x y \<longleftrightarrow> length s = length t \<and> hash_of s = hash_of t \<and> upto_nul s = upto_nul t"
    by (auto simp: events_match_def)
  then show ?thesis using upto_nul_whole [of s t] by (auto simp: indistinct_def)
qed

lemma same_lifetime_indistinct:
  assumes "lifetime_content ser a b = Inr x" and "lifetime_content ser c d = Inr y"
    and "representation ser a = Some sa" and "representation ser b = Some sb"
    and "representation ser c = Some sc" and "representation ser d = Some sd"
    and "\<forall>s \<in> {sa, sb, sc, sd}. length s < 2 ^ 32"
  shows "same_lifetime x y \<longleftrightarrow> indistinct sa sc \<and> indistinct sb sd"
proof -
  from assms(1) have x: "BuildLifetimeEvent ser a = Inr (tl_begin x)" "BuildLifetimeEvent ser b = Inr (tl_end x)"
    by (auto simp: lifetime_content_def E_eq_Inr)
  from assms(2) have y: "BuildLifetimeEvent ser c = Inr (tl_begin y)" "BuildLifetimeEvent ser d = Inr (tl_end y)"
    by (auto simp: lifetime_content_def E_eq_Inr)
  from assms(7) have len: "length sa < 2 ^ 32" "length sb < 2 ^ 32" "length sc < 2 ^ 32" "length sd < 2 ^ 32" by blast+
  show ?thesis
    unfolding same_lifetime_events lifetime_event_match [OF x(1) assms(3) y(1) assms(5) len(1,3)]
      lifetime_event_match [OF x(2) assms(4) y(2) assms(6) len(2,4)] by (rule refl)
qed


text \<open>Two events, on entry to and return from \<open>main\<close>, as an inline assertion has them (not strict), and their
  messages in the wire format; without the two bytes that say so they are strict.\<close>

definition ex_message :: "direction \<Rightarrow> function_event" where
  "ex_message dir = \<lparr>fe_function = ''main'', fe_direction = Some dir, fe_context = Some Callee, fe_argument = [],
     fe_expected = None, fe_strict = Some False, fe_kind = None, fe_receiver = None\<rparr>"

definition ex_main_wire :: "char \<Rightarrow> string" where
  "ex_main_wire dir = [CHR 0x0A, CHR 0x06, CHR 0x0A, CHR 0x04] @ ''main'' @ [CHR 0x10, dir, CHR 0x18, CHR 0x02, CHR 0x30, CHR 0x00]"

definition ex_serialise :: "function_event + field_assignment \<Rightarrow> string option" where
  "ex_serialise m =
     (if m = Inl (ex_message Entry) then Some (ex_main_wire (CHR 0x01))
      else if m = Inl (ex_message Exit) then Some (ex_main_wire (CHR 0x02))
      else if m = Inl ((ex_message Entry)\<lparr>fe_strict := None\<rparr>) then Some (take 12 (ex_main_wire (CHR 0x01)))
      else if m = Inl ((ex_message Exit)\<lparr>fe_strict := None\<rparr>) then Some (take 12 (ex_main_wire (CHR 0x02)))
      else None)"

definition ex_edge :: "nat \<Rightarrow> direction \<Rightarrow> edge" where
  "ex_edge n dir = \<lparr>e_label = Fn_t (ex_message dir), e_from = n, e_to = Suc n, e_init = (dir = Entry), e_cleanup = (dir = Exit),
     e_oos = False\<rparr>"

text \<open>The lifetimes of two assertions within a call of \<open>main\<close>, and one from a return to the next call.\<close>

definition ex_life :: "nat \<Rightarrow> direction \<Rightarrow> direction \<Rightarrow> tesla_lifetime res" where
  "ex_life n d d' = lifetime_content ex_serialise (ex_edge n d) (ex_edge n d')"

lemma ex_life_built:
  "case ex_life 0 Entry Exit of Inl _ \<Rightarrow> False | Inr _ \<Rightarrow> True"
  "case ex_life 5 Entry Exit of Inl _ \<Rightarrow> False | Inr _ \<Rightarrow> True"
  "case ex_life 0 Exit Entry of Inl _ \<Rightarrow> False | Inr _ \<Rightarrow> True"
  by code_simp+

lemma ex_representation:
  "representation ex_serialise (ex_edge n dir) = Some (ex_main_wire (if dir = Entry then CHR 0x01 else CHR 0x02))"
  by (cases dir) (simp_all add: representation_def ex_edge_def ex_serialise_def ex_message_def trans_message_def)

lemma ex_main_wire_facts: "length (ex_main_wire c) < 2 ^ 32" "\<not> indistinct (ex_main_wire (CHR 0x01)) (ex_main_wire (CHR 0x02))"
  by (simp_all add: ex_main_wire_def indistinct_def upto_nul_def)


subsection \<open>A collision\<close>

text \<open>Two events that inline assertions can have as bounds, \<open>f(0, 21357)\<close> and \<open>f(0, 30459)\<close>: their messages
  agree up to the NUL that is the value of the first argument, and have the same length and hash.  libtesla
  takes the lifetimes they begin for the same.\<close>

definition ex_constant :: "int \<Rightarrow> argument" where
  "ex_constant v = Argument Constant_arg None None None (Some v) None None None"

definition ex_collision :: "int \<Rightarrow> function_event" where
  "ex_collision v = \<lparr>fe_function = ''f'', fe_direction = Some Entry, fe_context = Some Callee,
     fe_argument = [ex_constant 0, ex_constant v], fe_expected = None, fe_strict = Some False, fe_kind = None, fe_receiver = None\<rparr>"

text \<open>A message with the second value in three bytes of the wire format.\<close>

definition ex_wire :: "char list \<Rightarrow> string" where
  "ex_wire v = [CHR 0x0A, CHR 0x03, CHR 0x0A, CHR 0x01, CHR ''f'', CHR 0x10, CHR 0x01, CHR 0x18, CHR 0x02,
     CHR 0x22, CHR 0x04, CHR 0x08, CHR 0x01, CHR 0x28, CHR 0x00,
     CHR 0x22, CHR 0x06, CHR 0x08, CHR 0x01, CHR 0x28] @ v @ [CHR 0x30, CHR 0x00]"

definition ex_wires :: "function_event + field_assignment \<Rightarrow> string option" where
  "ex_wires m =
     (if m = Inl (ex_collision 21357) then Some (ex_wire [CHR 0xED, CHR 0xA6, CHR 0x01])
      else if m = Inl (ex_collision 30459) then Some (ex_wire [CHR 0xFB, CHR 0xED, CHR 0x01])
      else ex_serialise m)"

definition ex_colliding :: "int \<Rightarrow> tesla_lifetime res" where
  "ex_colliding v = lifetime_content ex_wires ((ex_edge 0 Entry)\<lparr>e_label := Fn_t (ex_collision v)\<rparr>) (ex_edge 1 Exit)"

text \<open>The hashes, step by step.\<close>

lemma hash_step:
  assumes "get16bits data i = Inr v" and "get16bits data (i + 2) = Inr w" and "h + v = a" and "push_bit 11 w XOR a = t"
    and "push_bit 16 a XOR t = b" and "b + drop_bit 11 b = c" and "hash_loop data n (i + 4) c = r"
  shows "hash_loop data (Suc n) i h = r"
  unfolding hash_loop.simps(2) assms(1,2) bindE_def sum.case Let_def assms(3) assms(4) assms(5) assms(6) by (rule assms(7))

lemma hash_last:
  assumes "char_int data i = Inr v" and "h + v = a" and "a XOR push_bit 10 a = b" and "b + drop_bit 1 b = c"
  shows "hash_tail data 1 i h = Inr c"
proof -
  have "hash_tail data 1 i h = bindE (char_int data i) (\<lambda>b. let hash = h + b; hash = hash XOR push_bit 10 hash in Inr (hash + drop_bit 1 hash))"
    by (simp add: hash_tail_def)
  then show ?thesis unfolding assms(1) bindE_def sum.case Let_def assms(2) assms(3) assms(4) .
qed

lemma avalanche_steps:
  assumes "h XOR push_bit 3 h = a" and "a + drop_bit 5 a = b" and "b XOR push_bit 4 b = c" and "c + drop_bit 17 c = d"
    and "d XOR push_bit 25 d = e" and "e + drop_bit 6 e = f"
  shows "avalanche h = f"
  unfolding avalanche_def Let_def assms(1) assms(2) assms(3) assms(4) assms(5) by (rule assms(6))

lemma hash_25:
  assumes "length s = 25" and "hash_loop (string_bytes s) (Suc (Suc (Suc (Suc (Suc (Suc 0)))))) 0 0 = Inr (h, 24)"
    and "hash_tail (string_bytes s) 1 24 h = Inr t" and "avalanche t = r"
  shows "hash_of s = Inr r"
proof -
  have "6 = Suc (Suc (Suc (Suc (Suc (Suc 0)))))" by simp
  with assms(2) have "hash_loop (string_bytes s) 6 0 0 = Inr (h, 24)" by metis
  with assms(1,3,4) show ?thesis by (simp add: hash_of_def SuperFastHash_def)
qed

lemmas ex_bytes = string_bytes_def ex_wire_def get16bits_def nthE_def char_int_def

lemma ex_hash_first: "hash_of (ex_wire [CHR 0xED, CHR 0xA6, CHR 0x01]) = Inr 0xBD78BE09"
proof (rule hash_25)
  let ?s = "string_bytes (ex_wire [CHR 0xED, CHR 0xA6, CHR 0x01])"
  show "hash_loop ?s (Suc (Suc (Suc (Suc (Suc (Suc 0)))))) 0 0 = Inr (0x31F25C29, 24)"
    by (rule hash_step [where v = "0x30A" and w = "0x10A" and a = "0x30A" and t = "0x8530A" and b = "0x302530A" and c = "0x302B354"], simp add: ex_bytes, simp add: ex_bytes, simp, simp, simp, simp,
      rule hash_step [where v = "0x1066" and w = "0x1801" and a = "0x302C3BA" and t = "0x3C2CBBA" and b = "0xC078CBBA" and c = "0xC090DAD3"], simp add: ex_bytes, simp add: ex_bytes, simp, simp, simp, simp,
      rule hash_step [where v = "0x2202" and w = "0x804" and a = "0xC090FCD5" and t = "0xC0D0DCD5" and b = "0x3C05DCD5" and c = "0x3C0D5D90"], simp add: ex_bytes, simp add: ex_bytes, simp, simp, simp, simp,
      rule hash_step [where v = "0x2801" and w = "0x2200" and a = "0x3C0D8591" and t = "0x3D1D8591" and b = "0xB88C8591" and c = "0xB8A39721"], simp add: ex_bytes, simp add: ex_bytes, simp, simp, simp, simp,
      rule hash_step [where v = "0x806" and w = "0x2801" and a = "0xB8A39F27" and t = "0xB9E39727" and b = "0x26C49727" and c = "0x26C96FB9"], simp add: ex_bytes, simp add: ex_bytes, simp, simp, simp, simp,
      rule hash_step [where v = "0xA6ED" and w = "0x3001" and a = "0x26CA16A6" and t = "0x274A1EA6" and b = "0x31EC1EA6" and c = "0x31F25C29"], simp add: ex_bytes, simp add: ex_bytes, simp, simp, simp, simp, simp)
  show "hash_tail ?s 1 24 0x31F25C29 = Inr 0x74C4743D"
    by (rule hash_last [where v = 0 and a = "0x31F25C29" and b = "0xF882F829" and c = "0x74C4743D"]) (simp_all add: ex_bytes)
  show "avalanche 0x74C4743D = 0xBD78BE09"
    by (rule avalanche_steps [where a = "0xD2E7D5D5" and b = "0xD97F1483" and c = "0x4E8E5CB3" and d = "0x4E8E83FA" and e = "0xBA8E83FA"]) simp_all
qed (simp add: ex_wire_def)

lemma ex_hash_second: "hash_of (ex_wire [CHR 0xFB, CHR 0xED, CHR 0x01]) = Inr 0xBD78BE09"
proof (rule hash_25)
  let ?s = "string_bytes (ex_wire [CHR 0xFB, CHR 0xED, CHR 0x01])"
  show "hash_loop ?s (Suc (Suc (Suc (Suc (Suc (Suc 0)))))) 0 0 = Inr (0x7B0DB57E, 24)"
    by (rule hash_step [where v = "0x30A" and w = "0x10A" and a = "0x30A" and t = "0x8530A" and b = "0x302530A" and c = "0x302B354"], simp add: ex_bytes, simp add: ex_bytes, simp, simp, simp, simp,
      rule hash_step [where v = "0x1066" and w = "0x1801" and a = "0x302C3BA" and t = "0x3C2CBBA" and b = "0xC078CBBA" and c = "0xC090DAD3"], simp add: ex_bytes, simp add: ex_bytes, simp, simp, simp, simp,
      rule hash_step [where v = "0x2202" and w = "0x804" and a = "0xC090FCD5" and t = "0xC0D0DCD5" and b = "0x3C05DCD5" and c = "0x3C0D5D90"], simp add: ex_bytes, simp add: ex_bytes, simp, simp, simp, simp,
      rule hash_step [where v = "0x2801" and w = "0x2200" and a = "0x3C0D8591" and t = "0x3D1D8591" and b = "0xB88C8591" and c = "0xB8A39721"], simp add: ex_bytes, simp add: ex_bytes, simp, simp, simp, simp,
      rule hash_step [where v = "0x806" and w = "0x2801" and a = "0xB8A39F27" and t = "0xB9E39727" and b = "0x26C49727" and c = "0x26C96FB9"], simp add: ex_bytes, simp add: ex_bytes, simp, simp, simp, simp,
      rule hash_step [where v = "0xEDFB" and w = "0x3001" and a = "0x26CA5DB4" and t = "0x274A55B4" and b = "0x7AFE55B4" and c = "0x7B0DB57E"], simp add: ex_bytes, simp add: ex_bytes, simp, simp, simp, simp, simp)
  show "hash_tail ?s 1 24 0x7B0DB57E = Inr 0x74C4743D"
    by (rule hash_last [where v = 0 and a = "0x7B0DB57E" and b = "0x4DD84D7E" and c = "0x74C4743D"]) (simp_all add: ex_bytes)
  show "avalanche 0x74C4743D = 0xBD78BE09"
    by (rule avalanche_steps [where a = "0xD2E7D5D5" and b = "0xD97F1483" and c = "0x4E8E5CB3" and d = "0x4E8E83FA" and e = "0xBA8E83FA"]) simp_all
qed (simp add: ex_wire_def)

lemma lifetime_content_total:
  assumes "representation ser a \<noteq> None" and "representation ser b \<noteq> None"
    and "ShortLabel (e_label a) = Inr x" and "ShortLabel (e_label b) = Inr y"
  shows "\<exists>c. lifetime_content ser a b = Inr c"
proof -
  have ev: "\<exists>v. BuildLifetimeEvent ser e = Inr v" if "representation ser e \<noteq> None" "ShortLabel (e_label e) = Inr z" for e z
  proof -
    from that(1) obtain msg s where m: "trans_message (e_label e) = Some msg" "ser msg = Some s"
      by (auto simp: representation_def bind_eq_Some_conv)
    obtain h where "SuperFastHash (Some (string_bytes s)) (int (length s)) = Inr h"
      using hash_total [of "int (length s)" "string_bytes s"] by (auto simp: string_bytes_def)
    with m that(2) show ?thesis by (auto simp: BuildLifetimeEvent_def)
  qed
  from ev [OF assms(1,3)] ev [OF assms(2,4)] obtain v w where "BuildLifetimeEvent ser a = Inr v" "BuildLifetimeEvent ser b = Inr w" by blast
  then show ?thesis using assms(3,4) by (simp add: lifetime_content_def lifetime_name_def)
qed

lemma ex_collision_representation:
  "representation ex_wires ((ex_edge 0 Entry)\<lparr>e_label := Fn_t (ex_collision 21357)\<rparr>) = Some (ex_wire [CHR 0xED, CHR 0xA6, CHR 0x01])"
  "representation ex_wires ((ex_edge 0 Entry)\<lparr>e_label := Fn_t (ex_collision 30459)\<rparr>) = Some (ex_wire [CHR 0xFB, CHR 0xED, CHR 0x01])"
  "representation ex_wires (ex_edge 1 Exit) = Some (ex_main_wire (CHR 0x02))"
  by (simp_all add: representation_def trans_message_def ex_edge_def ex_wires_def ex_collision_def ex_constant_def ex_serialise_def ex_message_def)

lemma ex_labels:
  "\<exists>x. ShortLabel (Fn_t (ex_collision v)) = Inr x" "\<exists>x. ShortLabel (Fn_t (ex_message d)) = Inr x"
  by (simp_all add: ShortLabel_def FnTransition_ShortLabel_def fn_label_def ShortName.simps ex_collision_def ex_message_def ex_constant_def)

lemma ex_colliding_built:
  assumes "v \<in> {21357, 30459}"
  shows "\<exists>x. ex_colliding v = Inr x"
proof -
  obtain a b where "ShortLabel (Fn_t (ex_collision v)) = Inr a" "ShortLabel (Fn_t (ex_message Exit)) = Inr b"
    using ex_labels by metis
  moreover have "representation ex_wires ((ex_edge 0 Entry)\<lparr>e_label := Fn_t (ex_collision v)\<rparr>) \<noteq> None"
    using assms ex_collision_representation by auto
  ultimately show ?thesis
    using lifetime_content_total [of ex_wires "(ex_edge 0 Entry)\<lparr>e_label := Fn_t (ex_collision v)\<rparr>" "ex_edge 1 Exit" a b]
      ex_collision_representation(3)
    by (simp add: ex_colliding_def ex_edge_def)
qed

lemma lifetimes_collide:
  "\<exists>x y. ex_colliding 21357 = Inr x \<and> ex_colliding 30459 = Inr y \<and> ex_collision 21357 \<noteq> ex_collision 30459 \<and> same_lifetime x y"
proof -
  from ex_colliding_built obtain x y where l: "ex_colliding 21357 = Inr x" "ex_colliding 30459 = Inr y" by blast
  have "indistinct (ex_wire [CHR 0xED, CHR 0xA6, CHR 0x01]) (ex_wire [CHR 0xFB, CHR 0xED, CHR 0x01])"
    unfolding indistinct_def ex_hash_first ex_hash_second by (simp add: ex_wire_def upto_nul_def)
  then have "same_lifetime x y"
    using same_lifetime_indistinct [OF l [unfolded ex_colliding_def] ex_collision_representation(1,3,2,3)]
    by (simp add: indistinct_def [of s s for s] ex_main_wire_def ex_wire_def)
  with l show ?thesis by (simp add: ex_collision_def ex_constant_def)
qed

end
