(* ===== verification/Tesla_NFA.thy ===== *)
theory Tesla_NFA
  imports Tesla_Automaton
begin

text \<open>
  From an assertion to a non-deterministic automaton: \<open>NFAParser\<close> of
  \<open>tesla/common/Automaton.cpp\<close>.  The parser's two vectors are a \<open>graph\<close> that every function
  takes and returns.  None of the parsing functions returns NULL, so the checks for that are left
  out.

  Sub-automata that are replaced by their definitions may be defined in terms of each other; the
  parser then never returns.  \<open>depth\<close> bounds how deep definitions are followed, and running out
  of it stands for that.  The hidden option \<open>tesla-xor-only\<close> is a field of the environment.
\<close>

record parser_env =
  pe_automaton :: automaton_description
  pe_descriptions :: "(ir_identifier \<times> automaton_description) list option"
  pe_sub_allowed :: bool
  pe_xor_only :: bool

definition INFINITE_REPETITIONS :: int where
  "INFINITE_REPETITIONS = 2147483647"

text \<open>Lookup in an \<open>AutomataMap\<close>, which is ordered by \<open>operator <\<close> of identifiers.\<close>

definition find_description ::
  "(ir_identifier \<times> automaton_description) list \<Rightarrow> ir_identifier \<Rightarrow> automaton_description option" where
  "find_description ds i =
     map_option snd (find (\<lambda>(k, d). \<not> identifier_less k i \<and> \<not> identifier_less i k) ds)"

definition new_state :: "graph \<Rightarrow> graph \<times> nat" where
  "new_state g = build_state [] False False None g"

subsection \<open>Inclusive or\<close>

text \<open>\<open>CalculateReachableTransitionsBetween\<close>; every call but the first adds a transition, so the
  number of transitions bounds the depth of the recursion.\<close>

fun reach_trans :: "nat \<Rightarrow> graph \<Rightarrow> nat \<Rightarrow> nat \<Rightarrow> nat list \<Rightarrow> nat list res"
  and reach_outs :: "nat \<Rightarrow> graph \<Rightarrow> nat \<Rightarrow> nat list \<Rightarrow> nat list \<Rightarrow> nat list res" where
  "reach_trans 0 g final s ts = Inl (Undefined ''recursion'')"
| "reach_trans (Suc n) g final s ts =
     (if s = final then Inr ts else reach_outs n g final (q_out (g_states g ! s)) ts)"
| "reach_outs n g final [] ts = Inr ts"
| "reach_outs n g final (t # us) ts =
     (if t \<in> set ts then reach_outs n g final us ts
      else bindE (reach_trans n g final (e_to (g_edges g ! t)) (ts @ [t])) (reach_outs n g final us))"

definition CalculateReachableTransitionsBetween :: "graph \<Rightarrow> nat \<Rightarrow> nat \<Rightarrow> nat list res" where
  "CalculateReachableTransitionsBetween g s final = reach_trans (Suc (length (g_edges g))) g final s []"

text \<open>The copy of a state of the chain, made when it is first needed.\<close>

definition chain_state :: "(nat \<times> nat) list \<Rightarrow> nat \<Rightarrow> graph \<Rightarrow> nat \<times> (nat \<times> nat) list \<times> graph" where
  "chain_state m s g = (case map_of m s of
     Some s' \<Rightarrow> (s', m, g)
   | None \<Rightarrow> let (g', s') = new_state g in (s', (s, s') # m, g'))"

fun chain_loop :: "nat list \<Rightarrow> (nat \<times> nat) list \<Rightarrow> nat list \<Rightarrow> graph \<Rightarrow> (nat list \<times> graph) res" where
  "chain_loop [] m clone g = Inr (clone, g)"
| "chain_loop (t # ts) m clone g =
     (let e = g_edges g ! t;
          (src, m1, g1) = chain_state m (e_from e) g;
          (dst, m2, g2) = chain_state m1 (e_to e) g1
      in bindE (if e_label e = Null_t then Create_null src dst g2 else Copy src dst e False g2) (\<lambda>g3.
           chain_loop ts m2 (clone @ [length (g_edges g3) - 1]) g3))"

definition CreateTransitionChainCopy :: "nat list \<Rightarrow> nat \<Rightarrow> nat \<Rightarrow> graph \<Rightarrow> (nat list \<times> graph) res" where
  "CreateTransitionChainCopy chain old_start new_start g = chain_loop chain [(old_start, new_start)] [] g"

text \<open>One row of the grid: \<open>upper\<close> holds the states of the row before, from column \<open>j\<close> on.\<close>

fun grid_row ::
  "bool \<Rightarrow> edge \<Rightarrow> nat \<Rightarrow> nat list \<Rightarrow> nat list \<Rightarrow> graph \<Rightarrow> (nat list \<times> graph) res" where
  "grid_row last_row t1 final [] upper g = Inr ([], g)"
| "grid_row last_row t1 final (t2 # ts) upper g = (case upper of
     [] \<Rightarrow> Inl (Undefined ''grid[i][j]'')
   | src # upper' \<Rightarrow>
       let dst = e_to (g_edges g ! t2) in
       bindE (Copy src dst t1 False g) (\<lambda>g1.
       bindE (if last_row \<or> ts = [] then Create_null dst final g1 else Inr g1) (\<lambda>g2.
       bindE (grid_row last_row t1 final ts upper' g2) (\<lambda>(row, g3). Inr (dst # row, g3)))))"

fun grid_rows ::
  "nat list \<Rightarrow> nat list \<Rightarrow> nat \<Rightarrow> nat \<Rightarrow> nat list \<Rightarrow> graph \<Rightarrow> graph res" where
  "grid_rows [] rhs rhs_start final upper g = Inr g"
| "grid_rows (t # lhs) rhs rhs_start final upper g =
     (let t1 = g_edges g ! t in
      bindE (CreateTransitionChainCopy rhs rhs_start (e_to t1) g) (\<lambda>(copy, g1).
      bindE (grid_row (lhs = []) t1 final copy upper g1) (\<lambda>(row, g2).
        grid_rows lhs rhs rhs_start final row g2)))"

definition ConvertIncOrToExcOr ::
  "bool \<Rightarrow> nat \<Rightarrow> nat \<Rightarrow> nat \<Rightarrow> nat \<Rightarrow> nat \<Rightarrow> graph \<Rightarrow> graph res" where
  "ConvertIncOrToExcOr xor_only lhs_start rhs_start lhs_final rhs_final final g =
     (if xor_only then Inr g
      else
        bindE (CalculateReachableTransitionsBetween g lhs_start lhs_final) (\<lambda>lhs.
        bindE (CalculateReachableTransitionsBetween g rhs_start rhs_final) (\<lambda>rhs.
          grid_rows lhs rhs rhs_start final (map (\<lambda>t. e_to (g_edges g ! t)) rhs) g)))"

subsection \<open>Expressions\<close>

definition no_bound :: "string \<Rightarrow> bool \<Rightarrow> bool \<Rightarrow> unit res" where
  "no_bound what init cleanup =
     (if init then Inl (Panic (what @ '' cannot do initialisation''))
      else if cleanup then Inl (Panic (what @ '' cannot do cleanup''))
      else Inr ())"

definition max_reps :: "int option \<Rightarrow> int" where
  "max_reps mx = (if getD 1 mx = INFINITE_REPETITIONS then 1 else getD 1 mx)"

function parse :: "nat \<Rightarrow> parser_env \<Rightarrow> expression \<Rightarrow> nat \<Rightarrow> bool \<Rightarrow> bool \<Rightarrow> graph \<Rightarrow> (graph \<times> nat) res"
  and parse_seq :: "nat \<Rightarrow> parser_env \<Rightarrow> expression list \<Rightarrow> nat \<Rightarrow> graph \<Rightarrow> (graph \<times> nat) res"
  and parse_reps ::
    "nat \<Rightarrow> parser_env \<Rightarrow> expression list \<Rightarrow> int \<Rightarrow> int option \<Rightarrow> nat list \<Rightarrow> nat \<Rightarrow> nat \<Rightarrow> graph \<Rightarrow> (graph \<times> nat) res"
where
  "parse depth env (Boolean_expr operation es) branch init cleanup g =
     bindE (no_bound ''boolean expression'' init cleanup) (\<lambda>_. case es of
       [lhs, rhs] \<Rightarrow>
         let (g1, lhs_start) = new_state g;
             (g2, rhs_start) = new_state g1
         in bindE (parse depth env lhs lhs_start False False g2) (\<lambda>(g3, lhs_final).
            bindE (parse depth env rhs rhs_start False False g3) (\<lambda>(g4, rhs_final).
            bindE (Create_null branch lhs_start g4) (\<lambda>g5.
            bindE (Create_null branch rhs_start g5) (\<lambda>g6.
              let (g7, join) = new_state g6 in
              bindE (Create_null lhs_final join g7) (\<lambda>g8.
              bindE (Create_null rhs_final join g8) (\<lambda>g9.
                case operation of
                  BE_Xor \<Rightarrow> Inr (g9, join)
                | BE_Or \<Rightarrow>
                    bindE (ConvertIncOrToExcOr (pe_xor_only env) lhs_start rhs_start lhs_final rhs_final join g9)
                      (\<lambda>g10. Inr (g10, join))
                | BE_And \<Rightarrow> Inr (g9, join)))))))
     | _ \<Rightarrow> Inl (Assertion ''Expr.expression_size() == 2''))"
| "parse depth env (Sequence_expr es mn mx) start init cleanup g =
     bindE (no_bound ''sequence transition'' init cleanup) (\<lambda>_.
       let (g1, final) = new_state g in
       bindE (parse_reps depth env es (getD 1 mn) mx [0..<nat (max (getD 1 mn) (max_reps mx))] start final g1)
         (\<lambda>(g2, current).
           bindE (Create_null current final g2) (\<lambda>g3. Inr (g3, final))))"
| "parse depth env Null_expr start init cleanup g =
     bindE (no_bound ''epsilon transition'' init cleanup) (\<lambda>_. Inr (g, start))"
| "parse depth env (Assertion_site site) start init cleanup g =
     (let (g1, final) = build_state [] False cleanup None g in
      bindE (Create_assert start final site (pe_automaton env) init cleanup g1) (\<lambda>g2. Inr (g2, final)))"
| "parse depth env (Function_expr ev) start init cleanup g =
     (let (g1, final) = build_state [] False cleanup None g in
      bindE (Create_fn start final ev init cleanup g1) (\<lambda>g2. Inr (g2, final)))"
| "parse depth env (Field_assign_expr a) start init cleanup g =
     (let (g1, final) = build_state [] False cleanup None g in
      bindE (Create_field start final a init cleanup g1) (\<lambda>g2. Inr (g2, final)))"
| "parse depth env (Sub_automaton_expr i) start init cleanup g =
     bindE (no_bound ''sub-automaton transition'' init cleanup) (\<lambda>_.
       if pe_sub_allowed env then
         let (g1, final) = new_state g in
         bindE (CreateSubAutomaton start final i g1) (\<lambda>g2. Inr (g2, final))
       else
         bindE (derefE ''Descriptions'' (pe_descriptions env)) (\<lambda>ds.
           case find_description ds i of
             None \<Rightarrow> Inl (Panic (''subautomaton '' @ [CHR 0x27] @ identifier_name i @ [CHR 0x27] @ '' not defined''))
           | Some d \<Rightarrow>
               (case depth of
                  0 \<Rightarrow> Inl (Undefined ''recursion'')
                | Suc n \<Rightarrow> parse n env (ad_expression d) start False False g)))"
| "parse_seq depth env [] current g = Inr (g, current)"
| "parse_seq depth env (e # es) current g =
     bindE (parse depth env e current False False g) (\<lambda>(g1, next). parse_seq depth env es next g1)"
| "parse_reps depth env es mn mx [] current final g = Inr (g, current)"
| "parse_reps depth env es mn mx (i # is) current final g =
     bindE (if mn \<le> int i then Create_null current final g else Inr g) (\<lambda>g1.
     bindE (parse_seq depth env es current g1) (\<lambda>(g2, next).
     bindE (if getD 1 mx = INFINITE_REPETITIONS \<or> max_reps mx < int i
            then Create_null next current g2 else Inr g2) (\<lambda>g3.
       parse_reps depth env es mn mx is next final g3)))"
  by pat_completeness auto

termination
  by (relation "inv_image (less_than <*lex*> less_than <*lex*> less_than) (\<lambda>x. case x of
      Inl (d, _, e, _) \<Rightarrow> (d, 2 * size e, 0)
    | Inr (Inl (d, _, es, _)) \<Rightarrow> (d, Suc (2 * size_list size es), 0)
    | Inr (Inr (d, _, es, _, _, is, _)) \<Rightarrow> (d, Suc (2 * size_list size es), Suc (length is)))") auto

declare parse.simps [simp del] parse_seq.simps [simp del] parse_reps.simps [simp del]

lemmas parse_simps = parse.simps parse_seq.simps parse_reps.simps

subsection \<open>The whole automaton\<close>

text \<open>The transitions that may also be seen outside of the automaton's scope.\<close>

fun out_of_scope :: "edge list \<Rightarrow> edge list \<Rightarrow> edge list" where
  "out_of_scope found [] = found"
| "out_of_scope found (t # ts) =
     (if \<not> (\<exists>x \<in> set found. EquivalentTo (e_label x) (e_label t)) \<and> \<not> IsStrict (e_label t) \<and> \<not> e_init t
      then out_of_scope (found @ [t]) ts
      else out_of_scope found ts)"

fun add_out_of_scope :: "nat \<Rightarrow> nat \<Rightarrow> edge list \<Rightarrow> graph \<Rightarrow> graph res" where
  "add_out_of_scope start final [] g = Inr g"
| "add_out_of_scope start final (t # ts) g =
     bindE (case e_label t of
         Fn_t _ \<Rightarrow> Copy start (if e_cleanup t then final else start) t True g
       | Field_t _ \<Rightarrow> Copy start (if e_cleanup t then final else start) t True g
       | _ \<Rightarrow> Inr g) (add_out_of_scope start final ts)"

definition parse_bound ::
  "nat \<Rightarrow> parser_env \<Rightarrow> expression option \<Rightarrow> nat \<Rightarrow> bool \<Rightarrow> bool \<Rightarrow> graph \<Rightarrow> (graph \<times> nat) res" where
  "parse_bound depth env bound s init cleanup g = (case bound of
     None \<Rightarrow> Inr (g, s)
   | Some e \<Rightarrow> parse depth env e s init cleanup g)"

definition parse_graph :: "nat \<Rightarrow> parser_env \<Rightarrow> usage option \<Rightarrow> graph res" where
  "parse_graph depth env use =
     (let (g0, s0) = build_state [] True False (Some (length (ad_argument (pe_automaton env)))) empty_graph in
      bindE (parse_bound depth env (Option.bind use us_beginning) s0 True False g0) (\<lambda>(g1, start).
      bindE (parse depth env (ad_expression (pe_automaton env)) start False False g1) (\<lambda>(g2, main_end).
      bindE (parse_bound depth env (Option.bind use us_end) main_end False True g2) (\<lambda>(g3, final).
        add_out_of_scope start final (out_of_scope [] (g_edges g3)) g3))))"

definition parse_nfa :: "nat \<Rightarrow> parser_env \<Rightarrow> usage option \<Rightarrow> nat \<Rightarrow> automaton res" where
  "parse_nfa depth env use i =
     bindE (parse_graph depth env use) (\<lambda>g.
     bindE (GroupClasses (g_edges g)) (\<lambda>classes.
       new_automaton i (pe_automaton env) use (identifier_name (ad_identifier (pe_automaton env))) g classes))"

definition NFA_Parse :: "bool \<Rightarrow> automaton_description \<Rightarrow> usage option \<Rightarrow> nat \<Rightarrow> automaton res" where
  "NFA_Parse xor_only a use i =
     parse_nfa 0 \<lparr>pe_automaton = a, pe_descriptions = None, pe_sub_allowed = True, pe_xor_only = xor_only\<rparr> use i"

definition NFA_Link ::
  "nat \<Rightarrow> bool \<Rightarrow> automaton \<Rightarrow> (ir_identifier \<times> automaton_description) list \<Rightarrow> automaton res" where
  "NFA_Link depth xor_only n ds =
     bindE (assertE ''id < 1000'' (au_id n < 1000)) (\<lambda>_.
       parse_nfa depth \<lparr>pe_automaton = au_assertion n, pe_descriptions = Some ds, pe_sub_allowed = False,
         pe_xor_only = xor_only\<rparr> (au_use n) (au_id n))"

end
