(* ===== verification/Tesla_NFA_Inv.thy ===== *)
theory Tesla_NFA_Inv
  imports Tesla_NFA
begin

text \<open>
  The parser builds well-formed graphs: every transition joins two states of the graph, none leads
  to the start state, every state owns exactly the transitions that leave it, and only function
  and field transitions are marked as out of scope.  Transitions and states are only ever added.
\<close>

definition extends :: "graph \<Rightarrow> graph \<Rightarrow> bool" where
  "extends g g' \<longleftrightarrow> wf_graph g' \<and> length (g_states g) \<le> length (g_states g')
     \<and> (\<exists>es. g_edges g' = g_edges g @ es)
     \<and> (0 < length (g_states g) \<longrightarrow> q_refs (g_states g' ! 0) = q_refs (g_states g ! 0))"

abbreviation valid :: "nat \<Rightarrow> graph \<Rightarrow> bool" where
  "valid s g \<equiv> s < length (g_states g)"

lemma extends_refl: "wf_graph g \<Longrightarrow> extends g g"
  by (simp add: extends_def)

lemma extends_trans: "extends g g' \<Longrightarrow> extends g' g'' \<Longrightarrow> extends g g''"
  by (auto simp: extends_def)

lemma extendsD:
  assumes "extends g g'"
  shows "wf_graph g'" and "valid s g \<Longrightarrow> valid s g'"
    and "t < length (g_edges g) \<Longrightarrow> t < length (g_edges g') \<and> g_edges g' ! t = g_edges g ! t"
  using assms by (auto simp: extends_def nth_append)

lemma rets_use: "rets m P \<Longrightarrow> (\<And>x. P x \<Longrightarrow> rets (f x) Q) \<Longrightarrow> rets (bindE m f) Q"
  by (cases m) simp_all

lemma rets_use_eq: "rets m P \<Longrightarrow> (\<And>x. m = Inr x \<Longrightarrow> P x \<Longrightarrow> rets (f x) Q) \<Longrightarrow> rets (bindE m f) Q"
  by (cases m) simp_all

lemma new_edge_ext:
  assumes "wf_graph g" and "valid src g" and "valid dst g"
    and "x \<Longrightarrow> (\<exists>ev. l = Fn_t ev) \<or> (\<exists>a. l = Field_t a)"
  shows "rets (new_edge l src dst i c x g) (extends g)"
  unfolding rets_def using assms
  by (auto simp: extends_def new_edge_frame(2) new_edge_refs0 intro: new_edge_wf dest: new_edge_frame(1))

lemma Create_ext:
  assumes "wf_graph g" and "valid src g" and "valid dst g"
  shows "rets (Create_null src dst g) (extends g)"
    and "rets (Create_assert src dst site a i c g) (extends g)"
    and "rets (Create_fn src dst ev i c g) (extends g)"
    and "rets (Create_field src dst fa i c g) (extends g)"
    and "rets (CreateSubAutomaton src dst sub g) (extends g)"
  unfolding Create_null_def Create_assert_def Create_fn_def Create_field_def CreateSubAutomaton_def
  using assms by (auto intro!: new_edge_ext)

lemma Copy_ext:
  assumes "wf_graph g" and "valid src g" and "valid dst g"
  shows "rets (Copy src dst other oos g) (extends g)"
  unfolding Copy_def Let_def
  by (rule rets_use [where P = "\<lambda>_. True"], simp add: rets_def)
    (auto split: trans_label.split intro!: new_edge_ext wp extends_refl assms)

lemma build_ext:
  assumes "wf_graph g" and "build_state nm st ac rc g = (g', s)"
  shows "extends g g'" and "valid s g'"
  using build_state_wf [OF assms] build_state_simps [OF assms(2)] by (auto simp: extends_def)

lemma new_state_ext:
  assumes "wf_graph g" and "new_state g = (g', s)"
  shows "extends g g'" and "valid s g'"
  using build_ext [OF assms(1)] assms(2) by (auto simp: new_state_def)

subsection \<open>Inclusive or\<close>

text \<open>Transitions of a well-formed graph.\<close>

lemma wf_out:
  assumes "wf_graph g" and "t \<in> set (q_out (g_states g ! s))" and "valid s g"
  shows "t < length (g_edges g)" and "e_from (g_edges g ! t) = s"
  using assms by (auto simp: wf_graph_def owned_def)

lemma wf_edge_at:
  assumes "wf_graph g" and "t < length (g_edges g)"
  shows "valid (e_from (g_edges g ! t)) g" and "valid (e_to (g_edges g ! t)) g" and "0 < e_to (g_edges g ! t)"
  using assms nth_mem [OF assms(2)] by (auto simp: wf_graph_def wf_edge_def)

abbreviation edge_ids :: "graph \<Rightarrow> nat list \<Rightarrow> bool" where
  "edge_ids g ts \<equiv> \<forall>t \<in> set ts. t < length (g_edges g)"

lemma reach_ids:
  "wf_graph g \<Longrightarrow> valid s g \<Longrightarrow> edge_ids g ts \<Longrightarrow> rets (reach_trans n g final s ts) (edge_ids g)"
  "wf_graph g \<Longrightarrow> edge_ids g us \<Longrightarrow> edge_ids g ts \<Longrightarrow> rets (reach_outs n g final us ts) (edge_ids g)"
proof (induction n g final s ts and n g final us ts rule: reach_trans_reach_outs.induct)
  case (2 n g final s ts)
  then show ?case using wf_out(1) by auto
next
  case (4 n g final t us ts)
  then show ?case
    by (cases "t \<in> set ts") (auto intro!: rets_use_eq [OF 4(2)] wf_edge_at(2) 4(3) 4(1))
qed auto

lemma Calculate_ids:
  "wf_graph g \<Longrightarrow> valid s g \<Longrightarrow> rets (CalculateReachableTransitionsBetween g s final) (edge_ids g)"
  unfolding CalculateReachableTransitionsBetween_def by (rule reach_ids(1)) simp_all

definition valid_map :: "(nat \<times> nat) list \<Rightarrow> graph \<Rightarrow> bool" where
  "valid_map m g \<longleftrightarrow> (\<forall>(a, b) \<in> set m. valid b g)"

lemma chain_state_ext:
  assumes "wf_graph g" and "valid_map m g" and "chain_state m s g = (s', m', g')"
  shows "extends g g' \<and> valid s' g' \<and> valid_map m' g'"
proof (cases "map_of m s")
  case None
  with assms(3) obtain s1 where n: "new_state g = (g', s1)" and "s' = s1" "m' = (s, s1) # m"
    by (auto simp: chain_state_def split: prod.splits)
  with new_state_ext [OF assms(1) n] assms(2) show ?thesis
    by (auto simp: valid_map_def dest: extendsD(2))
next
  case (Some x)
  with assms show ?thesis
    by (auto simp: chain_state_def valid_map_def extends_refl dest: map_of_SomeD)
qed

lemma valid_map_ext: "extends g g' \<Longrightarrow> valid_map m g \<Longrightarrow> valid_map m g'"
  by (auto simp: valid_map_def dest: extendsD(2))

lemma edge_ids_ext: "extends g g' \<Longrightarrow> edge_ids g ts \<Longrightarrow> edge_ids g' ts"
  by (auto dest: extendsD(3))

lemma chain_loop_ext:
  "wf_graph g \<Longrightarrow> valid_map m g \<Longrightarrow> edge_ids g ts \<Longrightarrow> edge_ids g clone \<Longrightarrow>
   rets (chain_loop ts m clone g) (\<lambda>(copy, g'). extends g g' \<and> edge_ids g' copy)"
proof (induction ts arbitrary: m clone g)
  case (Cons t ts)
  let ?e = "g_edges g ! t"
  obtain src m1 g1 where c1: "chain_state m (e_from ?e) g = (src, m1, g1)" by (cases "chain_state m (e_from ?e) g") auto
  obtain dst m2 g2 where c2: "chain_state m1 (e_to ?e) g1 = (dst, m2, g2)" by (cases "chain_state m1 (e_to ?e) g1") auto
  note x1 = chain_state_ext [OF Cons.prems(1,2) c1]
  then have x2: "extends g1 g2 \<and> valid dst g2 \<and> valid_map m2 g2"
    using chain_state_ext [OF _ _ c2] extendsD(1) by blast
  have ext: "extends g g2" using x1 x2 extends_trans by blast
  have made: "rets (if e_label ?e = Null_t then Create_null src dst g2 else Copy src dst ?e False g2)
      (\<lambda>g3. extends g2 g3 \<and> 0 < length (g_edges g3))"
  proof (cases "e_label ?e")
    case Null_t
    then show ?thesis
      using Create_ext(1) [of g2 src dst] x1 x2 extendsD(1,2) [of g1 g2]
      by (auto simp: rets_def Create_null_def dest: new_edge_frame(1))
  qed (use Copy_ext [of g2 src dst ?e False] x1 x2 extendsD(1,2) [of g1 g2] in
      \<open>auto simp: rets_def Copy_def Let_def E_eq_Inr dest: new_edge_frame(1)\<close>)
  show ?case
    unfolding chain_loop.simps Let_def c1 c2 prod.case
  proof (rule rets_use [OF made])
    fix g3 assume g3: "extends g2 g3 \<and> 0 < length (g_edges g3)"
    then have e3: "extends g g3" using ext extends_trans by blast
    have "rets (chain_loop ts m2 (clone @ [length (g_edges g3) - 1]) g3)
        (\<lambda>(copy, g'). extends g3 g' \<and> edge_ids g' copy)"
      by (rule Cons.IH)
        (use g3 x2 e3 Cons.prems(3,4) edge_ids_ext [OF e3] in \<open>auto intro: extendsD(1) valid_map_ext\<close>)
    then show "rets (chain_loop ts m2 (clone @ [length (g_edges g3) - 1]) g3)
        (\<lambda>(copy, g'). extends g g' \<and> edge_ids g' copy)"
      by (rule rets_mono) (auto intro: extends_trans [OF e3])
  qed
qed (simp add: extends_refl)

lemma grid_row_ext:
  "wf_graph g \<Longrightarrow> valid final g \<Longrightarrow> edge_ids g ts \<Longrightarrow> (\<forall>s \<in> set upper. valid s g) \<Longrightarrow>
   rets (grid_row last_row t1 final ts upper g) (\<lambda>(row, g'). extends g g' \<and> (\<forall>s \<in> set row. valid s g'))"
proof (induction ts arbitrary: upper g)
  case (Cons t2 ts)
  note IH = Cons.IH and prems = Cons.prems
  show ?case
  proof (cases upper)
    case (Cons src upper')
    let ?dst = "e_to (g_edges g ! t2)"
    have dst: "valid ?dst g" using prems(1,3) wf_edge_at(2) by simp
    show ?thesis
      unfolding grid_row.simps Cons list.case Let_def
    proof (rule rets_use [OF Copy_ext [OF prems(1) _ dst]])
      show "valid src g" using prems(4) Cons by simp
    next
      fix g1 assume g1: "extends g g1"
      note v1 = extendsD [OF g1]
      have "rets (if last_row \<or> ts = [] then Create_null ?dst final g1 else Inr g1) (extends g1)"
        using v1(1) v1(2) [OF dst] v1(2) [OF prems(2)] by (auto intro: Create_ext extends_refl)
      then show "rets (bindE (if last_row \<or> ts = [] then Create_null ?dst final g1 else Inr g1)
          (\<lambda>g2. bindE (grid_row last_row t1 final ts upper' g2) (\<lambda>(row, g3). Inr (?dst # row, g3))))
          (\<lambda>(row, g'). extends g g' \<and> (\<forall>s \<in> set row. valid s g'))"
      proof (rule rets_use)
        fix g2 assume "extends g1 g2"
        then have g2: "extends g g2" using g1 extends_trans by blast
        note v2 = extendsD [OF g2]
        have "rets (grid_row last_row t1 final ts upper' g2)
            (\<lambda>(row, g'). extends g2 g' \<and> (\<forall>s \<in> set row. valid s g'))"
          by (rule IH) (use prems(2-4) Cons v2 in \<open>auto dest: v2(3)\<close>)
        then show "rets (bindE (grid_row last_row t1 final ts upper' g2) (\<lambda>(row, g3). Inr (?dst # row, g3)))
            (\<lambda>(row, g'). extends g g' \<and> (\<forall>s \<in> set row. valid s g'))"
          by (rule rets_use) (auto intro: extends_trans [OF g2] extendsD(2) [OF _ v2(2) [OF dst]])
      qed
    qed
  qed simp
qed (simp add: extends_refl)

lemma grid_rows_ext:
  "wf_graph g \<Longrightarrow> valid final g \<Longrightarrow> edge_ids g lhs \<Longrightarrow> edge_ids g rhs \<Longrightarrow> (\<forall>s \<in> set upper. valid s g) \<Longrightarrow>
   rets (grid_rows lhs rhs rhs_start final upper g) (extends g)"
proof (induction lhs arbitrary: upper g)
  case (Cons t lhs)
  let ?t1 = "g_edges g ! t"
  have dst: "valid (e_to ?t1) g" using Cons.prems wf_edge_at(2) by simp
  have chain: "rets (CreateTransitionChainCopy rhs rhs_start (e_to ?t1) g)
      (\<lambda>(copy, g'). extends g g' \<and> edge_ids g' copy)"
    unfolding CreateTransitionChainCopy_def
    by (rule chain_loop_ext) (use Cons.prems dst in \<open>auto simp: valid_map_def\<close>)
  show ?case
    unfolding grid_rows.simps Let_def
  proof (rule rets_use [OF chain], clarsimp)
    fix copy g1 assume g1: "extends g g1" and copy: "edge_ids g1 copy"
    note v1 = extendsD [OF g1]
    have "rets (grid_row (lhs = []) ?t1 final copy upper g1)
        (\<lambda>(row, g'). extends g1 g' \<and> (\<forall>s \<in> set row. valid s g'))"
      by (rule grid_row_ext) (use v1 Cons.prems copy in auto)
    then show "rets (bindE (grid_row (lhs = []) ?t1 final copy upper g1)
        (\<lambda>(row, g2). grid_rows lhs rhs rhs_start final row g2)) (extends g)"
    proof (rule rets_use, clarsimp)
      fix row g2 assume "extends g1 g2" and row: "\<forall>s \<in> set row. valid s g2"
      then have g2: "extends g g2" using g1 extends_trans by blast
      note v2 = extendsD [OF g2]
      have "rets (grid_rows lhs rhs rhs_start final row g2) (extends g2)"
        by (rule Cons.IH) (use v2 row Cons.prems in \<open>auto dest: v2(3)\<close>)
      then show "rets (grid_rows lhs rhs rhs_start final row g2) (extends g)"
        by (rule rets_mono) (rule extends_trans [OF g2])
    qed
  qed
qed (simp add: extends_refl)

lemma ConvertIncOr_ext:
  assumes "wf_graph g" and "valid ls g" and "valid rs g" and "valid final g"
  shows "rets (ConvertIncOrToExcOr xor_only ls rs lf rf final g) (extends g)"
proof -
  have "rets (grid_rows lhs rhs rs final (map (\<lambda>t. e_to (g_edges g ! t)) rhs) g) (extends g)"
    if "edge_ids g lhs" "edge_ids g rhs" for lhs rhs
    by (rule grid_rows_ext) (use assms that wf_edge_at(2) in auto)
  then show ?thesis
    unfolding ConvertIncOrToExcOr_def
    by (auto intro!: rets_use [OF Calculate_ids] assms extends_refl)
qed

subsection \<open>Expressions\<close>

definition parsed :: "graph \<Rightarrow> graph \<times> nat \<Rightarrow> bool" where
  "parsed g r \<longleftrightarrow> extends g (fst r) \<and> valid (snd r) (fst r)"

lemma rets_no_bound [wp]: "Q () \<Longrightarrow> rets (no_bound what i c) Q"
  by (simp add: no_bound_def)

text \<open>A new state, a transition to it, and the state as the result.\<close>

lemma parsed_leaf:
  assumes "wf_graph g" and "valid s g"
    and "\<And>g1 f. wf_graph g1 \<Longrightarrow> valid s g1 \<Longrightarrow> valid f g1 \<Longrightarrow> rets (create f g1) (extends g1)"
  shows "rets (let (g1, f) = build_state [] False ac None g in bindE (create f g1) (\<lambda>g2. Inr (g2, f))) (parsed g)"
proof -
  obtain g1 f where b: "build_state [] False ac None g = (g1, f)" by (cases "build_state [] False ac None g")
  note x = build_ext [OF assms(1) b]
  have "rets (create f g1) (extends g1)"
    by (rule assms(3)) (use x assms(2) extendsD [OF x(1)] in auto)
  then show ?thesis
    unfolding b Let_def prod.case
    by (rule rets_use) (auto simp: parsed_def intro: extends_trans [OF x(1)] extendsD(2) [OF _ x(2)])
qed

lemma parsed_trans: "extends g g1 \<Longrightarrow> parsed g1 r \<Longrightarrow> parsed g r"
  by (auto simp: parsed_def intro: extends_trans)

text \<open>A step from one graph to a later one, with the states it may use given by their number.\<close>

lemma null_step:
  assumes "Create_null src dst g = Inr g'" and "wf_graph g" and "src < length (g_states g)"
    and "dst < length (g_states g)"
  shows "extends g g'"
  using retsD [OF Create_ext(1)] assms by blast

lemma new_step:
  assumes "new_state g = (g', s)" and "wf_graph g"
  shows "extends g g' \<and> s < length (g_states g')"
  using new_state_ext [OF assms(2,1)] by simp

lemma parsed_step:
  assumes "m = Inr (g', s)" and "rets m (parsed g)"
  shows "extends g g' \<and> s < length (g_states g')"
  using retsD [OF assms(2,1)] by (simp add: parsed_def)

lemma parsed_boolean:
  assumes wf: "wf_graph g" and branch: "valid branch g"
    and lhs: "\<And>g s. wf_graph g \<Longrightarrow> valid s g \<Longrightarrow> rets (parse_lhs s g) (parsed g)"
    and rhs: "\<And>g s. wf_graph g \<Longrightarrow> valid s g \<Longrightarrow> rets (parse_rhs s g) (parsed g)"
    and steps: "new_state g = (g1, ls)" "new_state g1 = (g2, rs)" "parse_lhs ls g2 = Inr (g3, lf)"
      "parse_rhs rs g3 = Inr (g4, rf)" "Create_null branch ls g4 = Inr g5" "Create_null branch rs g5 = Inr g6"
      "new_state g6 = (g7, join)" "Create_null lf join g7 = Inr g8" "Create_null rf join g8 = Inr g9"
  shows "extends g g9" and "ls < length (g_states g9)" and "rs < length (g_states g9)"
    and "join < length (g_states g9)"
proof -
  have 1: "extends g g1 \<and> ls < length (g_states g1)" by (rule new_step [OF steps(1) wf])
  have 2: "extends g1 g2 \<and> rs < length (g_states g2)" by (rule new_step [OF steps(2)]) (use 1 in \<open>simp add: extends_def\<close>)
  have 3: "extends g2 g3 \<and> lf < length (g_states g3)"
    by (rule parsed_step [OF steps(3)], rule lhs) (use 1 2 in \<open>simp_all add: extends_def\<close>)
  have 4: "extends g3 g4 \<and> rf < length (g_states g4)"
    by (rule parsed_step [OF steps(4)], rule rhs) (use 2 3 in \<open>simp_all add: extends_def\<close>)
  have 5: "extends g4 g5" by (rule null_step [OF steps(5)]) (use branch 1 2 3 4 in \<open>simp_all add: extends_def\<close>)
  have 6: "extends g5 g6" by (rule null_step [OF steps(6)]) (use branch 1 2 3 4 5 in \<open>simp_all add: extends_def\<close>)
  have 7: "extends g6 g7 \<and> join < length (g_states g7)"
    by (rule new_step [OF steps(7)]) (use 6 in \<open>simp add: extends_def\<close>)
  have 8: "extends g7 g8"
    by (rule null_step [OF steps(8)]) (use 3 4 5 6 7 in \<open>simp_all add: extends_def\<close>)
  have 9: "extends g8 g9"
    by (rule null_step [OF steps(9)]) (use 4 5 6 7 8 in \<open>simp_all add: extends_def\<close>)
  show "extends g g9" using 1 2 3 4 5 6 7 8 9 by (meson extends_trans)
  show "ls < length (g_states g9)" "rs < length (g_states g9)" "join < length (g_states g9)"
    using 1 2 3 4 5 6 7 8 9 by (simp_all add: extends_def)
qed


text \<open>Induction over an expression and, through sub-automata, over the depth.\<close>

lemma parse_induct:
  assumes "\<And>d operation es. (\<And>e. e \<in> set es \<Longrightarrow> P d e) \<Longrightarrow> P d (Boolean_expr operation es)"
    and "\<And>d es mn mx. (\<And>e. e \<in> set es \<Longrightarrow> P d e) \<Longrightarrow> P d (Sequence_expr es mn mx)"
    and "\<And>d. P d Null_expr" and "\<And>d site. P d (Assertion_site site)" and "\<And>d ev. P d (Function_expr ev)"
    and "\<And>d a. P d (Field_assign_expr a)"
    and "\<And>d i. (\<And>n e. d = Suc n \<Longrightarrow> P n e) \<Longrightarrow> P d (Sub_automaton_expr i)"
  shows "P d e"
proof (induction d arbitrary: e)
  case 0
  show ?case by (induction e) (use assms in blast)+
next
  case (Suc d)
  show ?case by (induction e) (use assms Suc in \<open>blast | simp\<close>)+
qed

lemma parse_seq_ext:
  assumes "\<And>e g s. e \<in> set es \<Longrightarrow> wf_graph g \<Longrightarrow> valid s g \<Longrightarrow> rets (parse d env e s False False g) (parsed g)"
  shows "wf_graph g \<Longrightarrow> valid s g \<Longrightarrow> rets (parse_seq d env es s g) (parsed g)"
  using assms
proof (induction es arbitrary: s g)
  case (Cons e es)
  show ?case
    unfolding parse_simps
  proof (rule rets_use [OF Cons.prems(3)], simp, rule Cons.prems, rule Cons.prems, clarify)
    fix g1 s1 assume "parsed g (g1, s1)"
    then have 1: "extends g g1" "valid s1 g1" by (simp_all add: parsed_def)
    have "rets (parse_seq d env es s1 g1) (parsed g1)"
      by (rule Cons.IH) (use 1 Cons.prems(3) in \<open>auto simp: extends_def\<close>)
    then show "rets (parse_seq d env es s1 g1) (parsed g)"
      by (rule rets_mono) (rule parsed_trans [OF 1(1)])
  qed
qed (simp add: parse_simps parsed_def extends_refl)

lemma parse_reps_ext:
  assumes "\<And>g s. wf_graph g \<Longrightarrow> valid s g \<Longrightarrow> rets (parse_seq d env es s g) (parsed g)"
  shows "wf_graph g \<Longrightarrow> valid s g \<Longrightarrow> valid f g \<Longrightarrow> rets (parse_reps d env es mn mx is s f g) (parsed g)"
proof (induction "is" arbitrary: s g)
  case (Cons i "is")
  show ?case
    unfolding rets_def
  proof (intro allI impI)
    fix x assume "parse_reps d env es mn mx (i # is) s f g = Inr x"
    then obtain g1 g2 s2 g3 where
      a: "(if mn \<le> int i then Create_null s f g else Inr g) = Inr g1" and
      b: "parse_seq d env es s g1 = Inr (g2, s2)" and
      c: "(if getD 1 mx = INFINITE_REPETITIONS \<or> max_reps mx < int i then Create_null s2 s g2 else Inr g2) = Inr g3" and
      x: "parse_reps d env es mn mx is s2 f g3 = Inr x"
      by (auto simp: parse_simps E_eq_Inr split: prod.splits)
    have 1: "extends g g1" using a Cons.prems by (auto split: if_splits intro: null_step extends_refl)
    have 2: "extends g1 g2 \<and> s2 < length (g_states g2)"
      by (rule parsed_step [OF b], rule assms) (use 1 Cons.prems in \<open>simp_all add: extends_def\<close>)
    have 3: "extends g2 g3"
    proof (cases "getD 1 mx = INFINITE_REPETITIONS \<or> max_reps mx < int i")
      case True
      with c have "Create_null s2 s g2 = Inr g3" by simp
      then show ?thesis by (rule null_step) (use 1 2 Cons.prems in \<open>simp_all add: extends_def\<close>)
    next
      case False
      with c 2 show ?thesis by (simp add: extends_def)
    qed
    have "rets (parse_reps d env es mn mx is s2 f g3) (parsed g3)"
      by (rule Cons.IH) (use 1 2 3 Cons.prems in \<open>simp_all add: extends_def\<close>)
    from retsD [OF this x] show "parsed g x" using 1 2 3 by (meson parsed_trans)
  qed
qed (simp add: parse_simps parsed_def extends_refl)

lemma parse_ext:
  "wf_graph g \<Longrightarrow> valid s g \<Longrightarrow> rets (parse d env e s i c g) (parsed g)"
proof (induction d e arbitrary: s i c g rule: parse_induct)
  case (1 d operation es)
  show ?case
    unfolding rets_def
  proof (intro allI impI)
    fix x assume x: "parse d env (Boolean_expr operation es) s i c g = Inr x"
    then obtain l r where es: "es = [l, r]"
      by (auto simp: parse_simps E_eq_Inr split: list.splits)
    with x obtain g1 ls g2 rs g3 lf g4 rf g5 g6 g7 join g8 g9 where
      st: "new_state g = (g1, ls)" "new_state g1 = (g2, rs)" "parse d env l ls False False g2 = Inr (g3, lf)"
      "parse d env r rs False False g3 = Inr (g4, rf)" "Create_null s ls g4 = Inr g5"
      "Create_null s rs g5 = Inr g6" "new_state g6 = (g7, join)" "Create_null lf join g7 = Inr g8"
      "Create_null rf join g8 = Inr g9" and
      x9: "(case operation of BE_Xor \<Rightarrow> Inr (g9, join)
        | BE_Or \<Rightarrow> bindE (ConvertIncOrToExcOr (pe_xor_only env) ls rs lf rf join g9) (\<lambda>g10. Inr (g10, join))
        | BE_And \<Rightarrow> Inr (g9, join)) = Inr x"
      by (simp add: parse_simps E_eq_Inr Let_def prod_case_eq) blast
    have sub: "rets (parse d env e q False False h) (parsed h)" if "e \<in> set es" "wf_graph h" "valid q h" for e q h
      using 1(1) that by blast
    note b = parsed_boolean [where parse_lhs = "\<lambda>q h. parse d env l q False False h"
        and parse_rhs = "\<lambda>q h. parse d env r q False False h", OF 1(2,3) sub sub st]
    have b: "extends g g9" "ls < length (g_states g9)" "rs < length (g_states g9)" "join < length (g_states g9)"
      by (rule b; simp add: es)+
    then have "rets (ConvertIncOrToExcOr (pe_xor_only env) ls rs lf rf join g9) (extends g9)"
      by (intro ConvertIncOr_ext) (auto simp: extends_def)
    with x9 b show "parsed g x"
      by (auto simp: parsed_def E_eq_Inr split: bool_op.splits dest!: retsD intro: extends_trans extendsD(2))
  qed
next
  case (2 d es mn mx)
  have seq: "rets (parse_seq d env es s g) (parsed g)" if "wf_graph g" "valid s g" for s g
    by (rule parse_seq_ext [OF 2(1)]) (use that in auto)
  show ?case
    unfolding rets_def
  proof (intro allI impI)
    fix x assume "parse d env (Sequence_expr es mn mx) s i c g = Inr x"
    then obtain g1 f g2 s2 g3 where st: "new_state g = (g1, f)"
      "parse_reps d env es (getD 1 mn) mx [0..<nat (max (getD 1 mn) (max_reps mx))] s f g1 = Inr (g2, s2)"
      "Create_null s2 f g2 = Inr g3" and x: "x = (g3, f)"
      by (auto simp: parse_simps E_eq_Inr Let_def split: prod.splits)
    have 1: "extends g g1 \<and> f < length (g_states g1)" by (rule new_step [OF st(1) 2(2)])
    have 2: "extends g1 g2 \<and> s2 < length (g_states g2)"
      by (rule parsed_step [OF st(2)], rule parse_reps_ext [OF seq])
        (use 1 2(3) in \<open>simp_all add: extends_def\<close>)
    have 3: "extends g2 g3"
      by (rule null_step [OF st(3)]) (use 1 2 in \<open>simp_all add: extends_def\<close>)
    show "parsed g x" using 1 2 3 by (auto simp: x parsed_def extends_def)
  qed
next
  case (3 d)
  then show ?case by (auto simp: parse_simps parsed_def extends_refl intro!: wp)
next
  case (4 d site)
  then show ?case unfolding parse_simps by (intro parsed_leaf Create_ext)
next
  case (5 d ev)
  then show ?case unfolding parse_simps by (intro parsed_leaf Create_ext)
next
  case (6 d a)
  then show ?case unfolding parse_simps by (intro parsed_leaf Create_ext)
next
  case (7 d j)
  have "rets (let (g1, final) = new_state g in
      bindE (CreateSubAutomaton s final j g1) (\<lambda>g2. Inr (g2, final))) (parsed g)"
    unfolding new_state_def using 7(2,3) by (intro parsed_leaf Create_ext)
  then show ?case
    unfolding parse_simps
    by (intro wp) (auto split: option.split nat.split intro!: wp 7)
qed

subsection \<open>The whole automaton\<close>

lemma add_out_of_scope_ext:
  "wf_graph g \<Longrightarrow> valid start g \<Longrightarrow> valid final g \<Longrightarrow> rets (add_out_of_scope start final ts g) (extends g)"
proof (induction ts arbitrary: g)
  case (Cons t ts)
  have copy: "rets (Copy start (if e_cleanup t then final else start) t True g) (extends g)"
    using Cons.prems by (intro Copy_ext) auto
  have "rets (case e_label t of
      Fn_t _ \<Rightarrow> Copy start (if e_cleanup t then final else start) t True g
    | Field_t _ \<Rightarrow> Copy start (if e_cleanup t then final else start) t True g
    | _ \<Rightarrow> Inr g) (extends g)"
    using copy extends_refl [OF Cons.prems(1)] by (auto split: trans_label.split)
  then show ?case
    unfolding add_out_of_scope.simps
  proof (rule rets_use)
    fix g1 assume g1: "extends g g1"
    have "rets (add_out_of_scope start final ts g1) (extends g1)"
      by (rule Cons.IH) (use g1 Cons.prems in \<open>auto simp: extends_def\<close>)
    then show "rets (add_out_of_scope start final ts g1) (extends g)"
      by (rule rets_mono) (rule extends_trans [OF g1])
  qed
qed (simp add: extends_refl)

lemma wf_empty_graph: "wf_graph empty_graph"
  by (simp add: wf_graph_def empty_graph_def)

lemma parse_bound_ext:
  "wf_graph g \<Longrightarrow> valid s g \<Longrightarrow> rets (parse_bound d env bound s i c g) (parsed g)"
  by (auto simp: parse_bound_def parsed_def extends_refl split: option.split intro: parse_ext)

lemma parse_graph_wf:
  assumes "parse_graph d env use = Inr g"
  shows "wf_graph g" and "0 < length (g_states g)"
    and "References (g_states g ! 0) = replicate (length (ad_argument (pe_automaton env))) None"
proof -
  obtain g0 s0 where b: "build_state [] True False (Some (length (ad_argument (pe_automaton env)))) empty_graph = (g0, s0)"
    by (cases "build_state [] True False (Some (length (ad_argument (pe_automaton env)))) empty_graph")
  note x0 = build_ext [OF wf_empty_graph b]
  from assms obtain g1 s1 g2 s2 g3 s3 where
    st: "parse_bound d env (Option.bind use us_beginning) s0 True False g0 = Inr (g1, s1)"
    "parse d env (ad_expression (pe_automaton env)) s1 False False g1 = Inr (g2, s2)"
    "parse_bound d env (Option.bind use us_end) s2 False True g2 = Inr (g3, s3)"
    "add_out_of_scope s1 s3 (out_of_scope [] (g_edges g3)) g3 = Inr g"
    by (auto simp: parse_graph_def b E_eq_Inr)
  have 1: "extends g0 g1 \<and> s1 < length (g_states g1)"
    by (rule parsed_step [OF st(1)], rule parse_bound_ext) (use x0 in \<open>simp_all add: extends_def\<close>)
  have 2: "extends g1 g2 \<and> s2 < length (g_states g2)"
    by (rule parsed_step [OF st(2)], rule parse_ext) (use 1 in \<open>simp_all add: extends_def\<close>)
  have 3: "extends g2 g3 \<and> s3 < length (g_states g3)"
    by (rule parsed_step [OF st(3)], rule parse_bound_ext) (use 2 in \<open>simp_all add: extends_def\<close>)
  have 4: "extends g3 g"
    by (rule retsD [OF add_out_of_scope_ext st(4)]) (use 1 2 3 in \<open>simp_all add: extends_def\<close>)
  show "wf_graph g" using 4 by (simp add: extends_def)
  have "extends g0 g" using 1 2 3 4 by (meson extends_trans)
  then show "0 < length (g_states g)"
    "References (g_states g ! 0) = replicate (length (ad_argument (pe_automaton env))) None"
    using b x0(2) by (auto simp: extends_def build_state_def empty_graph_def References_def getD_def)
qed

end
