(* ===== verification/Tesla_DFA.thy ===== *)
theory Tesla_DFA
  imports Tesla_NFA_Inv
begin

text \<open>
  From a non-deterministic automaton to a deterministic one: \<open>DFABuilder\<close> of
  \<open>tesla/common/Automaton.cpp\<close>.  A set of NFA states (\<open>std::set\<close>) is its ascending list.  The
  work list is a stack, as in the code.

  \<open>collectFrontier\<close> follows epsilon transitions without remembering where it has been: it returns
  if the automaton has no cycle of them and never otherwise.  The depth of its recursion is
  bounded by the number of states, and exceeding that bound stands for not returning
  (\<open>collect_acyclic\<close>, \<open>collect_cycle\<close>).
\<close>

subsection \<open>Frontiers\<close>

fun collect :: "nat \<Rightarrow> graph \<Rightarrow> nat \<Rightarrow> nat list \<Rightarrow> nat list res"
  and collect_outs :: "nat \<Rightarrow> graph \<Rightarrow> nat list \<Rightarrow> nat list \<Rightarrow> nat list res" where
  "collect 0 g s N = Inl (Undefined ''recursion'')"
| "collect (Suc n) g s N =
     bindE (nthE ''State'' (g_states g) s) (\<lambda>q. collect_outs n g (q_out q) (insort_insert s N))"
| "collect_outs n g [] N = Inr N"
| "collect_outs n g (t # ts) N =
     (if e_label (g_edges g ! t) = Null_t
      then bindE (collect n g (e_to (g_edges g ! t)) N) (collect_outs n g ts)
      else collect_outs n g ts N)"

text \<open>\<open>collectFrontier\<close> with its flags, which only the first state contributes to.\<close>

definition collectFrontier :: "graph \<Rightarrow> nat \<Rightarrow> nat list \<times> bool \<times> bool \<Rightarrow> (nat list \<times> bool \<times> bool) res" where
  "collectFrontier g s acc = (case acc of (N, start, final) \<Rightarrow>
     bindE (collect (length (g_states g)) g s N) (\<lambda>N'.
       Inr (N', start \<or> q_start (g_states g ! s), final \<or> q_accept (g_states g ! s))))"

subsection \<open>The builder\<close>

record dfa_builder =
  d_map :: "(nat list \<times> nat) list" \<comment> \<open>\<open>DFAStates\<close>\<close>
  d_done :: "nat list" \<comment> \<open>\<open>FinishedStates\<close>\<close>
  d_todo :: "(nat list \<times> bool \<times> bool) list" \<comment> \<open>\<open>UnfinishedStates\<close>, the back first\<close>
  d_graph :: graph
  d_refcount :: nat

definition state_set_name :: "nat list \<Rightarrow> string" where
  "state_set_name ns = butlast (''NFA:'' @ concat (map (\<lambda>n. dec_nat n @ '','') ns))"

definition stateForNFAStates :: "nat list \<Rightarrow> bool \<Rightarrow> bool \<Rightarrow> dfa_builder \<Rightarrow> nat \<times> dfa_builder" where
  "stateForNFAStates ns start final d = (case map_of (d_map d) ns of
     Some s \<Rightarrow> (s, d)
   | None \<Rightarrow>
       let (g, s) = build_state (state_set_name ns) start final
              (if start then Some (d_refcount d) else None) (d_graph d)
       in (s, d\<lparr>d_map := (ns, s) # d_map d, d_todo := (ns, start, final) # d_todo d, d_graph := g\<rparr>))"

text \<open>Collect the targets of the transitions among \<open>ts\<close> that are equivalent to one with label \<open>l\<close>.\<close>

fun absorb ::
  "graph \<Rightarrow> trans_label \<Rightarrow> nat list \<Rightarrow> nat set \<Rightarrow> nat list \<times> bool \<times> bool
    \<Rightarrow> (nat set \<times> nat list \<times> bool \<times> bool) res" where
  "absorb g l [] fin acc = Inr (fin, acc)"
| "absorb g l (t # ts) fin acc =
     (if EquivalentTo (e_label (g_edges g ! t)) l then
        bindE (assertE ''FinishedTransitions.count(T) == 0'' (t \<notin> fin)) (\<lambda>_.
        bindE (collectFrontier g (e_to (g_edges g ! t)) acc) (absorb g l ts (insert t fin)))
      else absorb g l ts fin acc)"

definition outs :: "graph \<Rightarrow> nat \<Rightarrow> nat list" where
  "outs g s = q_out (g_states g ! s)"

text \<open>The transitions of one NFA state; \<open>later\<close> are the states of the set that come after it.
  The flags are not reset between transitions.\<close>

fun trans_loop ::
  "graph \<Rightarrow> nat \<Rightarrow> nat list \<Rightarrow> nat list \<Rightarrow> nat set \<Rightarrow> bool \<Rightarrow> bool \<Rightarrow> dfa_builder
    \<Rightarrow> (nat set \<times> dfa_builder) res" where
  "trans_loop g ds later [] fin start final d = Inr (fin, d)"
| "trans_loop g ds later (t # ts) fin start final d =
     (let e = g_edges g ! t in
      if e_label e = Null_t then trans_loop g ds later ts fin start final d
      else
        bindE (assertE ''T->IsRealisable()'' (label_realisable (e_label e))) (\<lambda>_.
          if t \<in> fin then trans_loop g ds later ts fin start final d
          else
            bindE (collectFrontier g (e_to e) ([], start, final)) (\<lambda>acc.
            bindE (absorb g (e_label e) ts (insert t fin) acc) (\<lambda>(fin1, acc1).
            bindE (absorb g (e_label e) (concat (map (outs g) later)) fin1 acc1) (\<lambda>(fin2, dest, start', final').
              let (dst, d1) = stateForNFAStates dest start' final' d in
              bindE (Copy ds dst e False (d_graph d1)) (\<lambda>g1.
                trans_loop g ds later ts fin2 start' final' (d1\<lparr>d_graph := g1\<rparr>)))))))"

fun state_loop :: "graph \<Rightarrow> nat \<Rightarrow> nat list \<Rightarrow> nat set \<Rightarrow> dfa_builder \<Rightarrow> dfa_builder res" where
  "state_loop g ds [] fin d = Inr d"
| "state_loop g ds (q # qs) fin d =
     bindE (trans_loop g ds qs (outs g q) fin False False d) (\<lambda>(fin', d'). state_loop g ds qs fin' d')"

text \<open>One round of the main loop.\<close>

definition build_step :: "graph \<Rightarrow> dfa_builder \<Rightarrow> dfa_builder res" where
  "build_step g d = (case d_todo d of
     [] \<Rightarrow> Inr d
   | (current, start, final) # todo \<Rightarrow>
       let (ds, d1) = stateForNFAStates current start final (d\<lparr>d_todo := todo\<rparr>) in
       if ds \<in> set (d_done d1) then Inr d1
       else state_loop g ds current {} (d1\<lparr>d_done := ds # d_done d1\<rparr>))"

subsection \<open>The main loop ends\<close>

text \<open>The sets of states of a graph, as ascending lists.\<close>

definition state_sets :: "graph \<Rightarrow> nat list set" where
  "state_sets g = {ns. sorted ns \<and> distinct ns \<and> set ns \<subseteq> {..<length (g_states g)}}"

lemma finite_state_sets: "finite (state_sets g)"
proof -
  have "state_sets g \<subseteq> {ns. set ns \<subseteq> {..<length (g_states g)} \<and> length ns \<le> length (g_states g)}"
    unfolding state_sets_def
    by (auto dest: card_mono [OF finite_lessThan] simp: distinct_card)
  then show ?thesis by (rule finite_subset) (simp add: finite_lists_length_le)
qed

lemma collect_sets:
  "rets (collect n g s N) (\<lambda>N'. N \<in> state_sets g \<longrightarrow> N' \<in> state_sets g)"
  "rets (collect_outs n g ts N) (\<lambda>N'. N \<in> state_sets g \<longrightarrow> N' \<in> state_sets g)"
proof (induction n g s N and n g ts N rule: collect_collect_outs.induct)
  case (2 n g s N)
  then show ?case
    by (auto simp: rets_def E_eq_Inr state_sets_def sorted_insort_insert distinct_insort_insert set_insort_insert)
next
  case (4 n g t ts N)
  then show ?case by (auto simp: rets_def E_eq_Inr)
qed auto

lemma collectFrontier_sets:
  assumes "collectFrontier g s acc = Inr acc'" and "fst acc \<in> state_sets g"
  shows "fst acc' \<in> state_sets g"
  using assms collect_sets(1) [THEN retsD] by (auto simp: collectFrontier_def E_eq_Inr split: prod.splits)

lemma absorb_sets:
  "absorb g l ts fin acc = Inr (fin', acc') \<Longrightarrow> fst acc \<in> state_sets g \<Longrightarrow> fst acc' \<in> state_sets g"
  by (induction ts arbitrary: fin acc)
    (auto simp: E_eq_Inr split: if_splits dest: collectFrontier_sets)

text \<open>The two ways a round of the inner loop can go.\<close>

lemma trans_loop_Cons:
  assumes "trans_loop g ds later (t # ts) fin a b d = Inr x"
  obtains (skip) "e_label (g_edges g ! t) = Null_t \<or> t \<in> fin" "trans_loop g ds later ts fin a b d = Inr x"
  | (new) acc fin1 acc1 fin2 dest a' b' dst d1 g1 where
      "e_label (g_edges g ! t) \<noteq> Null_t" "t \<notin> fin"
      "collectFrontier g (e_to (g_edges g ! t)) ([], a, b) = Inr acc"
      "absorb g (e_label (g_edges g ! t)) ts (insert t fin) acc = Inr (fin1, acc1)"
      "absorb g (e_label (g_edges g ! t)) (concat (map (outs g) later)) fin1 acc1 = Inr (fin2, dest, a', b')"
      "stateForNFAStates dest a' b' d = (dst, d1)"
      "Copy ds dst (g_edges g ! t) False (d_graph d1) = Inr g1"
      "trans_loop g ds later ts fin2 a' b' (d1\<lparr>d_graph := g1\<rparr>) = Inr x"
proof (cases "e_label (g_edges g ! t) = Null_t \<or> t \<in> fin")
  case True
  with assms show thesis by (intro skip) (auto simp: Let_def E_eq_Inr split: if_splits)
next
  case False
  with assms show thesis
    by (simp add: E_eq_Inr Let_def prod_case_eq) (use new in blast)
qed

lemma new_dest_sets:
  assumes "collectFrontier g s ([], a, b) = Inr acc" and "absorb g l ts f acc = Inr (fin1, acc1)"
    and "absorb g l us fin1 acc1 = Inr (fin2, dest, a', b')"
  shows "dest \<in> state_sets g"
  using absorb_sets [OF assms(3)] absorb_sets [OF assms(2)] collectFrontier_sets [OF assms(1)]
  by (simp add: state_sets_def)

text \<open>How the builder grows: keys come from a given collection of sets, and a key that is added is
  also put on the stack.\<close>

abbreviation keys :: "dfa_builder \<Rightarrow> nat list set" where
  "keys d \<equiv> fst ` set (d_map d)"

definition grows :: "nat list set \<Rightarrow> dfa_builder \<Rightarrow> dfa_builder \<Rightarrow> bool" where
  "grows U d d' \<longleftrightarrow> keys d \<subseteq> keys d' \<and> keys d' \<subseteq> keys d \<union> U
     \<and> fst ` set (d_todo d') \<subseteq> fst ` set (d_todo d) \<union> U
     \<and> (keys d' = keys d \<longrightarrow> d_todo d' = d_todo d)"

lemma grows_refl: "grows U d d"
  by (simp add: grows_def)

lemma growsD:
  assumes "grows U d d'"
  shows "keys d \<subseteq> keys d'" and "keys d' \<subseteq> keys d \<union> U"
    and "fst ` set (d_todo d') \<subseteq> fst ` set (d_todo d) \<union> U" and "keys d' = keys d \<Longrightarrow> d_todo d' = d_todo d"
  using assms by (simp_all add: grows_def)

lemma grows_trans:
  assumes "grows U d d'" and "grows U d' d''"
  shows "grows U d d''"
  unfolding grows_def
proof (intro conjI impI)
  note 1 = growsD [OF assms(1)] and 2 = growsD [OF assms(2)]
  show "keys d \<subseteq> keys d''" by (rule subset_trans [OF 1(1) 2(1)])
  show "keys d'' \<subseteq> keys d \<union> U" using 1(2) 2(2) by blast
  show "fst ` set (d_todo d'') \<subseteq> fst ` set (d_todo d) \<union> U" using 1(3) 2(3) by blast
  assume "keys d'' = keys d"
  then have "keys d' = keys d" using 1(1) 2(1) by (simp add: subset_antisym)
  with \<open>keys d'' = keys d\<close> 1(4) 2(4) show "d_todo d'' = d_todo d" by simp
qed

lemma stateFor_grows:
  assumes "stateForNFAStates ns a b d = (s, d')" and "ns \<in> U"
  shows "grows U d d'"
proof (cases "map_of (d_map d) ns")
  case None
  then have "ns \<notin> keys d" by (simp add: map_of_eq_None_iff)
  with assms None show ?thesis
    by (auto simp: stateForNFAStates_def grows_def split: prod.splits)
next
  case (Some x)
  with assms show ?thesis by (simp add: stateForNFAStates_def grows_refl)
qed

lemma trans_loop_grows:
  "trans_loop g ds later ts fin a b d = Inr (fin', d') \<Longrightarrow> grows (state_sets g) d d'"
proof (induction ts arbitrary: fin a b d)
  case (Cons t ts)
  from Cons.prems show ?case
  proof (cases rule: trans_loop_Cons)
    case (new acc fin1 acc1 fin2 dest a' b' dst d1 g1)
    from stateFor_grows [OF new(6) new_dest_sets [OF new(3-5)]]
    have "grows (state_sets g) d (d1\<lparr>d_graph := g1\<rparr>)" by (simp add: grows_def)
    with Cons.IH [OF new(8)] show ?thesis by (blast intro: grows_trans)
  qed (rule Cons.IH)
qed (simp add: grows_refl)

lemma state_loop_grows:
  "state_loop g ds qs fin d = Inr d' \<Longrightarrow> grows (state_sets g) d d'"
proof (induction qs arbitrary: fin d)
  case (Cons q qs)
  then obtain fin1 d1 where "trans_loop g ds qs (outs g q) fin False False d = Inr (fin1, d1)"
    "state_loop g ds qs fin1 d1 = Inr d'" by (auto simp: E_eq_Inr)
  with Cons.IH trans_loop_grows show ?case by (blast intro: grows_trans)
qed (simp add: grows_refl)

lemma build_step_grows:
  assumes "build_step g d = Inr d'" and "d_todo d = (current, a, b) # todo"
  shows "grows (insert current (state_sets g)) (d\<lparr>d_todo := todo\<rparr>) d'"
proof -
  let ?U = "insert current (state_sets g)"
  obtain ds d1 where s: "stateForNFAStates current a b (d\<lparr>d_todo := todo\<rparr>) = (ds, d1)"
    by (cases "stateForNFAStates current a b (d\<lparr>d_todo := todo\<rparr>)")
  have 1: "grows ?U (d\<lparr>d_todo := todo\<rparr>) d1" by (rule stateFor_grows [OF s]) simp
  show ?thesis
  proof (cases "ds \<in> set (d_done d1)")
    case True
    with assms s 1 show ?thesis by (simp add: build_step_def)
  next
    case False
    with assms s have "state_loop g ds current {} (d1\<lparr>d_done := ds # d_done d1\<rparr>) = Inr d'"
      by (simp add: build_step_def)
    from state_loop_grows [OF this] have "grows ?U d1 d'" unfolding grows_def by auto
    with 1 show ?thesis by (rule grows_trans)
  qed
qed

text \<open>The sets that may still become keys.\<close>

definition pending :: "graph \<Rightarrow> dfa_builder \<Rightarrow> nat list set" where
  "pending g d = (state_sets g \<union> fst ` set (d_todo d)) - keys d"

lemma build_step_measure:
  assumes "build_step g d = Inr d'" and "d_todo d \<noteq> []"
  shows "(pending g d', pending g d) \<in> finite_psubset
    \<or> pending g d' = pending g d \<and> length (d_todo d') < length (d_todo d)"
proof -
  obtain current a b todo where t: "d_todo d = (current, a, b) # todo" using assms(2) by (cases "d_todo d") auto
  note gr = growsD [OF build_step_grows [OF assms(1) t], simplified]
  have fin: "finite (pending g d)" by (simp add: pending_def finite_state_sets)
  have sub: "pending g d' \<subseteq> pending g d" using gr(1,3) by (auto simp: pending_def t)
  show ?thesis
  proof (cases "keys d' = keys d")
    case True
    with gr(4) have "length (d_todo d') < length (d_todo d)" by (simp add: t)
    with sub fin show ?thesis by (auto simp: finite_psubset_def)
  next
    case False
    with gr(1) obtain k where "k \<in> keys d'" "k \<notin> keys d" by blast
    with gr(2) have "k \<in> pending g d" "k \<notin> pending g d'" by (auto simp: pending_def t)
    with sub fin show ?thesis by (auto simp: finite_psubset_def)
  qed
qed

function build_loop :: "graph \<Rightarrow> dfa_builder \<Rightarrow> dfa_builder res" where
  "build_loop g d = (if d_todo d = [] then Inr d else bindE (build_step g d) (build_loop g))"
  by pat_completeness auto
termination
proof (relation "inv_image (finite_psubset <*lex*> less_than) (\<lambda>(g, d). (pending g d, length (d_todo d)))",
    goal_cases)
  case 1
  show ?case by auto
next
  case (2 g d d')
  from build_step_measure [OF 2(2) 2(1)] show ?case by auto
qed

declare build_loop.simps [simp del]

subsection \<open>The whole construction\<close>

definition initial_builder :: "graph \<Rightarrow> dfa_builder" where
  "initial_builder g = \<lparr>d_map = [], d_done = [], d_todo = [], d_graph = empty_graph,
     d_refcount = length (References (g_states g ! 0))\<rparr>"

definition dfa_start :: "graph \<Rightarrow> dfa_builder res" where
  "dfa_start g =
     bindE (collectFrontier g 0 ([], False, False)) (\<lambda>(ns, start, final).
       Inr (snd (stateForNFAStates ns start final (initial_builder g))))"

definition dfa_graph :: "graph \<Rightarrow> dfa_builder res" where
  "dfa_graph g = bindE (dfa_start g) (build_loop g)"

definition ConstructDFA :: "automaton \<Rightarrow> automaton res" where
  "ConstructDFA n =
     bindE (dfa_graph (au_graph n)) (\<lambda>d.
     bindE (GroupClasses (g_edges (d_graph d))) (\<lambda>classes.
     bindE (new_automaton (au_id n) (au_assertion n) (au_use n) (au_name n) (d_graph d) classes) (\<lambda>a.
     bindE (assertE ''T->IsRealisable()'' (IsRealisable a)) (\<lambda>_. Inr a))))"

end
