(* ===== verification/Tesla_DFA_Correct.thy ===== *)
theory Tesla_DFA_Correct
  imports Tesla_DFA
begin

text \<open>
  The deterministic automaton follows the same sequences of events as the non-deterministic one.
  An automaton reads a word of labels; a transition takes a letter that its label is equivalent to,
  and an epsilon transition takes none.  The builder's map from sets to states is the simulation:
  a run of the deterministic automaton ends in the state of the set of all the states where the
  paths of the non-deterministic one end.
\<close>

subsection \<open>Epsilon closures\<close>

definition eps :: "graph \<Rightarrow> nat \<Rightarrow> nat \<Rightarrow> bool" where
  "eps g s s' \<longleftrightarrow> (\<exists>t \<in> set (outs g s). e_label (g_edges g ! t) = Null_t \<and> e_to (g_edges g ! t) = s')"

definition cl :: "graph \<Rightarrow> nat \<Rightarrow> nat set" where
  "cl g s = {s'. (eps g)\<^sup>*\<^sup>* s s'}"

lemma cl_refl [simp]: "s \<in> cl g s"
  by (simp add: cl_def)

lemma cl_step: "eps g s s' \<Longrightarrow> s'' \<in> cl g s' \<Longrightarrow> s'' \<in> cl g s"
  unfolding cl_def by (auto intro: converse_rtranclp_into_rtranclp)

lemma cl_unfold: "cl g s = insert s (\<Union>s' \<in> {s'. eps g s s'}. cl g s')"
proof (intro set_eqI iffI)
  fix x
  assume "x \<in> cl g s"
  then show "x \<in> insert s (\<Union>s' \<in> {s'. eps g s s'}. cl g s')"
    unfolding cl_def by (auto elim: converse_rtranclpE)
qed (auto intro: cl_step)

definition null_targets :: "graph \<Rightarrow> nat list \<Rightarrow> nat set" where
  "null_targets g ts = (\<Union>t \<in> {t \<in> set ts. e_label (g_edges g ! t) = Null_t}. cl g (e_to (g_edges g ! t)))"

lemma null_targets_simps [simp]:
  "null_targets g [] = {}"
  "null_targets g (t # ts) =
     (if e_label (g_edges g ! t) = Null_t then cl g (e_to (g_edges g ! t)) else {}) \<union> null_targets g ts"
  by (auto simp: null_targets_def)

lemma cl_outs: "cl g s = insert s (null_targets g (outs g s))"
proof -
  have "{s'. eps g s s'} = (\<lambda>t. e_to (g_edges g ! t)) ` {t \<in> set (outs g s). e_label (g_edges g ! t) = Null_t}"
    by (auto simp: eps_def)
  then show ?thesis by (subst cl_unfold) (simp add: null_targets_def)
qed

text \<open>What \<open>collectFrontier\<close> returns is the closure.\<close>

lemma collect_cl:
  "rets (collect n g s N) (\<lambda>N'. set N' = set N \<union> cl g s)"
  "rets (collect_outs n g ts N) (\<lambda>N'. set N' = set N \<union> null_targets g ts)"
proof (induction n g s N and n g ts N rule: collect_collect_outs.induct)
  case (2 n g s N)
  then show ?case
    by (auto simp: rets_def E_eq_Inr cl_outs outs_def set_insort_insert)
next
  case (4 n g t ts N)
  then show ?case by (auto simp: rets_def E_eq_Inr)
qed auto

text \<open>It returns unless a cycle can be reached, for then no depth of recursion is enough.\<close>

lemma collect_cycle:
  "\<forall>c \<in> C. \<exists>c' \<in> C. eps g c c' \<Longrightarrow> s \<in> C \<Longrightarrow> \<exists>x. collect n g s N = Inl x"
  "\<forall>c \<in> C. \<exists>c' \<in> C. eps g c c' \<Longrightarrow>
     \<exists>t \<in> set ts. e_label (g_edges g ! t) = Null_t \<and> e_to (g_edges g ! t) \<in> C
     \<Longrightarrow> \<exists>x. collect_outs n g ts N = Inl x"
proof (induction n g s N and n g ts N rule: collect_collect_outs.induct)
  case (2 n g s N)
  then have "\<exists>t \<in> set (outs g s). e_label (g_edges g ! t) = Null_t \<and> e_to (g_edges g ! t) \<in> C"
    by (auto simp: eps_def)
  with 2 show ?case
    by (cases "s < length (g_states g)") (auto simp: outs_def)
next
  case (4 n g t ts N)
  then show ?case
    by (cases "collect n g (e_to (g_edges g ! t)) N") auto
qed auto

text \<open>Without a cycle, every step of the recursion has a smaller closure.\<close>

definition no_cycle :: "graph \<Rightarrow> nat \<Rightarrow> bool" where
  "no_cycle g s \<longleftrightarrow> (\<forall>c \<in> cl g s. \<not> (eps g)\<^sup>+\<^sup>+ c c)"

lemma cl_subset: "s' \<in> cl g s \<Longrightarrow> cl g s' \<subseteq> cl g s"
  unfolding cl_def by auto

lemma eps_cl: "eps g s s' \<Longrightarrow> s' \<in> cl g s"
  by (auto simp: cl_def)

lemma no_cycle_step: "no_cycle g s \<Longrightarrow> eps g s s' \<Longrightarrow> no_cycle g s'"
  unfolding no_cycle_def using cl_subset eps_cl by blast

lemma cl_psubset:
  assumes "no_cycle g s" and "eps g s s'"
  shows "cl g s' \<subset> cl g s"
proof -
  have "s \<notin> cl g s'"
  proof
    assume "s \<in> cl g s'"
    then have "(eps g)\<^sup>+\<^sup>+ s s" using assms(2) by (auto simp: cl_def)
    with assms(1) show False by (simp add: no_cycle_def)
  qed
  then show ?thesis using cl_subset [OF eps_cl [OF assms(2)]] by (auto intro: cl_refl)
qed

lemma eps_valid: "wf_graph g \<Longrightarrow> valid s g \<Longrightarrow> eps g s s' \<Longrightarrow> valid s' g"
  using wf_out wf_edge_at by (fastforce simp: eps_def outs_def wf_edge_def)

lemma cl_valid:
  assumes "wf_graph g" and "valid s g"
  shows "cl g s \<subseteq> {..<length (g_states g)}"
proof
  fix x
  assume "x \<in> cl g s"
  then have "(eps g)\<^sup>*\<^sup>* s x" by (simp add: cl_def)
  then show "x \<in> {..<length (g_states g)}"
    by (induction rule: rtranclp_induct) (use assms eps_valid in auto)
qed

lemma finite_cl: "wf_graph g \<Longrightarrow> valid s g \<Longrightarrow> finite (cl g s)"
  using cl_valid finite_subset by blast

lemma collect_acyclic:
  "wf_graph g \<Longrightarrow> valid s g \<Longrightarrow> no_cycle g s \<Longrightarrow> card (cl g s) \<le> n \<Longrightarrow> \<exists>N'. collect n g s N = Inr N'"
  "wf_graph g \<Longrightarrow> \<forall>t \<in> set ts. e_label (g_edges g ! t) = Null_t \<longrightarrow> (let s = e_to (g_edges g ! t) in
       valid s g \<and> no_cycle g s \<and> card (cl g s) \<le> n)
     \<Longrightarrow> \<exists>N'. collect_outs n g ts N = Inr N'"
proof (induction n g s N and n g ts N rule: collect_collect_outs.induct)
  case (1 g s N)
  then have "cl g s = {}" using finite_cl by fastforce
  then show ?case using cl_refl by blast
next
  case (2 n g s N)
  have "valid s' g \<and> no_cycle g s' \<and> card (cl g s') \<le> n" if "eps g s s'" for s'
    using 2(2-5) that eps_valid no_cycle_step psubset_card_mono [OF finite_cl cl_psubset]
    by fastforce
  then have "\<forall>t \<in> set (q_out (g_states g ! s)). e_label (g_edges g ! t) = Null_t \<longrightarrow>
      (let s = e_to (g_edges g ! t) in valid s g \<and> no_cycle g s \<and> card (cl g s) \<le> n)"
    unfolding eps_def outs_def Let_def by blast
  with 2(1-3) show ?case by auto
next
  case (4 n g t ts N)
  then show ?case by (auto simp: Let_def)
qed auto

subsection \<open>Moves\<close>

definition targets :: "graph \<Rightarrow> nat set \<Rightarrow> nat set" where
  "targets g T = (\<Union>t \<in> T. cl g (e_to (g_edges g ! t)))"

definition class_of :: "graph \<Rightarrow> trans_label \<Rightarrow> nat list \<Rightarrow> nat set" where
  "class_of g l ts = {t \<in> set ts. sym_at (g_edges g) t = l}"

lemma targets_simps [simp]:
  "targets g {} = {}" "targets g (insert t T) = cl g (e_to (g_edges g ! t)) \<union> targets g T"
  "targets g (T \<union> U) = targets g T \<union> targets g U"
  by (auto simp: targets_def)

lemma class_of_simps [simp]:
  "class_of g l [] = {}"
  "class_of g l (t # ts) = (if sym_at (g_edges g) t = l then {t} else {}) \<union> class_of g l ts"
  "class_of g l (ts @ us) = class_of g l ts \<union> class_of g l us"
  by (auto simp: class_of_def)

lemma collectFrontier_cl:
  assumes "collectFrontier g s acc = Inr acc'"
  shows "set (fst acc') = set (fst acc) \<union> cl g s"
  using assms collect_cl(1) [THEN retsD] by (auto simp: collectFrontier_def E_eq_Inr split: prod.splits)

lemma absorb_targets:
  "absorb g l ts fin acc = Inr (fin', acc') \<Longrightarrow>
     fin' = fin \<union> class_of g (esym l) ts \<and> set (fst acc') = set (fst acc) \<union> targets g (class_of g (esym l) ts)"
  by (induction ts arbitrary: fin acc)
    (auto simp: EquivalentTo_iff E_eq_Inr split: if_splits dest!: collectFrontier_cl)

text \<open>The classes of the transitions in a list, epsilon apart.\<close>

definition syms :: "graph \<Rightarrow> nat list \<Rightarrow> trans_label set" where
  "syms g ts = sym_at (g_edges g) ` set ts - {Null_t}"

lemma syms_simps [simp]:
  "syms g [] = {}"
  "syms g (ts @ us) = syms g ts \<union> syms g us"
  "syms g (t # ts) = (if e_label (g_edges g ! t) = Null_t then {} else {sym_at (g_edges g) t}) \<union> syms g ts"
  by (auto simp: syms_def)

text \<open>The transitions of the classes met so far.\<close>

definition met :: "graph \<Rightarrow> nat list \<Rightarrow> nat list \<Rightarrow> nat set" where
  "met g all pre = {t \<in> set all. sym_at (g_edges g) t \<in> syms g pre}"

lemma met_Nil [simp]: "met g all [] = {}"
  by (simp add: met_def)

lemma met_skip:
  assumes "t \<in> set all" and "e_label (g_edges g ! t) = Null_t \<or> t \<in> met g all pre"
  shows "met g all (pre @ [t]) = met g all pre" and "syms g (pre @ [t]) = syms g pre"
  using assms by (auto simp: met_def)

lemma met_new:
  assumes "t \<notin> met g all pre" and "e_label (g_edges g ! t) \<noteq> Null_t" and "all = pre @ t # ts @ us"
  shows "insert t (met g all pre) \<union> class_of g (sym_at (g_edges g) t) ts \<union> class_of g (sym_at (g_edges g) t) us
      = met g all (pre @ [t])"
    and "{t} \<union> class_of g (sym_at (g_edges g) t) ts \<union> class_of g (sym_at (g_edges g) t) us
      = class_of g (sym_at (g_edges g) t) all"
    and "sym_at (g_edges g) t \<notin> syms g pre"
proof -
  from assms show new: "sym_at (g_edges g) t \<notin> syms g pre" by (auto simp: met_def)
  with assms(2) have "class_of g (sym_at (g_edges g) t) pre = {}" by (auto simp: class_of_def syms_def image_iff)
  with assms(3) show c: "{t} \<union> class_of g (sym_at (g_edges g) t) ts \<union> class_of g (sym_at (g_edges g) t) us
      = class_of g (sym_at (g_edges g) t) all" by auto
  have "met g all (pre @ [t]) = met g all pre \<union> class_of g (sym_at (g_edges g) t) all"
    using assms(2) by (auto simp: met_def class_of_def)
  then show "insert t (met g all pre) \<union> class_of g (sym_at (g_edges g) t) ts \<union> class_of g (sym_at (g_edges g) t) us
      = met g all (pre @ [t])" using c by auto
qed

subsection \<open>The invariant of the builder\<close>

text \<open>What leaves a state of the automaton under construction.\<close>

definition dout :: "graph \<Rightarrow> nat \<Rightarrow> (trans_label \<times> nat) list" where
  "dout D s = map (\<lambda>t. (sym_at (g_edges D) t, e_to (g_edges D ! t))) (outs D s)"

lemma build_state_dout:
  assumes "build_state nm st ac rc D = (D', s)"
  shows "\<And>i. valid i D \<Longrightarrow> dout D' i = dout D i" and "dout D' s = []"
  using build_state_simps [OF assms] by (auto simp: dout_def outs_def)

lemma new_edge_dout:
  assumes "wf_graph D" and "new_edge l src dst x y z D = Inr D'" and "valid i D"
  shows "dout D' i = dout D i @ (if i = src then [(esym l, dst)] else [])"
proof -
  let ?e = "\<lparr>e_label = l, e_from = src, e_to = dst, e_init = x, e_cleanup = y, e_oos = z\<rparr>"
  from assms(2) have "Register ?e D = Inr D'" by (auto simp: new_edge_def E_eq_Inr)
  note f = Register_frame [OF this]
  have "\<And>t. t \<in> set (outs D i) \<Longrightarrow> t < length (g_edges D)"
    using wf_out(1) [OF assms(1) _ assms(3)] by (simp add: outs_def)
  then have "map (\<lambda>t. (sym_at (g_edges D') t, e_to (g_edges D' ! t))) (outs D i) = dout D i"
    unfolding dout_def f(1) by (auto simp: nth_append)
  then show ?thesis using f(4) [OF assms(3)] by (simp add: dout_def outs_def f(1))
qed

lemma Copy_new:
  assumes "Copy src dst e o0 D = Inr D'" and "e_label e \<noteq> Null_t"
  obtains x y z where "new_edge (e_label e) src dst x y z D = Inr D'"
    and "z \<Longrightarrow> (\<exists>ev. e_label e = Fn_t ev) \<or> (\<exists>a. e_label e = Field_t a)"
  using assms by (cases "e_label e") (auto simp: Copy_def Let_def E_eq_Inr intro: that)

text \<open>The transitions of a set of states.  A state of the new automaton covers a list of them when it
  has exactly one transition for every class in the list, to the state of the set that the class
  leads to.\<close>

definition all_outs :: "graph \<Rightarrow> nat list \<Rightarrow> nat list" where
  "all_outs g K = concat (map (outs g) K)"

definition covers :: "graph \<Rightarrow> dfa_builder \<Rightarrow> nat list \<Rightarrow> nat list \<Rightarrow> nat \<Rightarrow> bool" where
  "covers g d all pre i \<longleftrightarrow>
     distinct (map fst (dout (d_graph d) i)) \<and> fst ` set (dout (d_graph d) i) = syms g pre
     \<and> (\<forall>(l, s) \<in> set (dout (d_graph d) i).
          \<exists>K. (K, s) \<in> set (d_map d) \<and> set K = targets g (class_of g l all))"

lemma covers_update [simp]:
  "covers g (d\<lparr>d_todo := x\<rparr>) all pre i = covers g d all pre i"
  "covers g (d\<lparr>d_done := y\<rparr>) all pre i = covers g d all pre i"
  by (simp_all add: covers_def)

lemma covers_frame:
  assumes "covers g d all pre i" and "set (d_map d) \<subseteq> set (d_map d')"
    and "dout (d_graph d') i = dout (d_graph d) i"
  shows "covers g d' all pre i"
  using assms(1) subsetD [OF assms(2)] unfolding covers_def assms(3) by blast

text \<open>A state is untouched and on the stack, or it has been dealt with; \<open>X\<close> holds the state that is
  being dealt with.\<close>

definition state_ok :: "graph \<Rightarrow> nat set \<Rightarrow> dfa_builder \<Rightarrow> nat list \<Rightarrow> nat \<Rightarrow> bool" where
  "state_ok g X d K i \<longleftrightarrow>
     (if i \<in> set (d_done d) then i \<notin> X \<longrightarrow> covers g d (all_outs g K) (all_outs g K) i
      else dout (d_graph d) i = [] \<and> K \<in> fst ` set (d_todo d))"

definition dinv :: "graph \<Rightarrow> nat list \<Rightarrow> nat set \<Rightarrow> dfa_builder \<Rightarrow> bool" where
  "dinv g K0 X d \<longleftrightarrow>
     wf_graph (d_graph d) \<and> distinct (map fst (d_map d))
     \<and> map snd (d_map d) = rev [0..<length (g_states (d_graph d))]
     \<and> keys d \<subseteq> state_sets g \<and> d_map d \<noteq> [] \<and> last (d_map d) = (K0, 0)
     \<and> fst ` set (d_todo d) \<subseteq> keys d \<and> set (d_done d) \<subseteq> {..<length (g_states (d_graph d))}
     \<and> (\<forall>(K, i) \<in> set (d_map d). state_ok g X d K i)"

lemma dinv_states:
  assumes "dinv g K0 X d"
  shows "snd ` set (d_map d) = {..<length (g_states (d_graph d))}"
proof -
  have "snd ` set (d_map d) = set (map snd (d_map d))" by simp
  also have "map snd (d_map d) = rev [0..<length (g_states (d_graph d))]" using assms by (simp add: dinv_def)
  finally show ?thesis by auto
qed

lemma dinv_valid: "dinv g K0 X d \<Longrightarrow> (K, i) \<in> set (d_map d) \<longleftrightarrow> valid i (d_graph d) \<and> map_of (d_map d) K = Some i"
proof -
  assume d: "dinv g K0 X d"
  then have "(K, i) \<in> set (d_map d) \<Longrightarrow> valid i (d_graph d)" using dinv_states by force
  moreover have "distinct (map fst (d_map d))" using d by (simp add: dinv_def)
  ultimately show ?thesis by (auto simp: map_of_eq_Some_iff)
qed

lemma stateFor_inv:
  assumes "dinv g K0 X d" and "stateForNFAStates ns a b d = (s, d')" and "ns \<in> state_sets g"
  shows "dinv g K0 X d'" and "(ns, s) \<in> set (d_map d')" and "set (d_map d) \<subseteq> set (d_map d')"
    and "d_done d' = d_done d" and "\<And>i. valid i (d_graph d) \<Longrightarrow> valid i (d_graph d') \<and> dout (d_graph d') i = dout (d_graph d) i"
proof -
  have "dinv g K0 X d' \<and> (ns, s) \<in> set (d_map d') \<and> set (d_map d) \<subseteq> set (d_map d') \<and> d_done d' = d_done d
    \<and> (\<forall>i. valid i (d_graph d) \<longrightarrow> valid i (d_graph d') \<and> dout (d_graph d') i = dout (d_graph d) i)"
  proof (cases "map_of (d_map d) ns")
    case (Some x)
    with assms show ?thesis by (auto simp: stateForNFAStates_def dest: map_of_SomeD)
  next
    case None
    let ?bs = "build_state (state_set_name ns) a b (if a then Some (d_refcount d) else None) (d_graph d)"
    obtain D' where bs: "?bs = (D', s)"
      and d': "d' = d\<lparr>d_map := (ns, s) # d_map d, d_todo := (ns, a, b) # d_todo d, d_graph := D'\<rparr>"
      using assms(2) None by (auto simp: stateForNFAStates_def split: prod.splits)
    note b = build_state_simps [OF bs] and o = build_state_dout [OF bs]
    have fr: "valid i (d_graph d) \<Longrightarrow> valid i D' \<and> dout D' i = dout (d_graph d) i" for i
      using b(3) o(1) by simp
    have "state_ok g X d' K i" if "(K, i) \<in> set (d_map d)" for K i
    proof -
      have "valid i (d_graph d)" using that dinv_valid [OF assms(1)] by blast
      with fr have "dout (d_graph d') i = dout (d_graph d) i" by (simp add: d')
      moreover have "state_ok g X d K i" using that assms(1) by (auto simp: dinv_def)
      moreover have "set (d_map d) \<subseteq> set (d_map d')" by (auto simp: d')
      ultimately show ?thesis using covers_frame by (fastforce simp: state_ok_def d')
    qed
    moreover have "s \<notin> set (d_done d)" using assms(1) b(1) by (auto simp: dinv_def)
    then have "state_ok g X d' ns s" using o(2) by (simp add: state_ok_def d')
    moreover have "ns \<notin> keys d" using None by (simp add: map_of_eq_None_iff)
    ultimately have "dinv g K0 X d'"
      using assms(1,3) build_state_wf [OF _ bs] b(1,3) by (auto simp: dinv_def d')
    then show ?thesis using fr by (auto simp: d')
  qed
  then show "dinv g K0 X d'" "(ns, s) \<in> set (d_map d')" "set (d_map d) \<subseteq> set (d_map d')"
    "d_done d' = d_done d" "\<And>i. valid i (d_graph d) \<Longrightarrow> valid i (d_graph d') \<and> dout (d_graph d') i = dout (d_graph d) i"
    by auto
qed

text \<open>A transition that leaves the state being dealt with.\<close>

lemma Copy_inv:
  assumes "dinv g K0 {i} d" and "Copy i dst e False (d_graph d) = Inr D'" and "e_label e \<noteq> Null_t"
    and "i \<in> set (d_done d)" and "(K, dst) \<in> set (d_map d)"
  shows "dinv g K0 {i} (d\<lparr>d_graph := D'\<rparr>)" and "dout D' i = dout (d_graph d) i @ [(esym (e_label e), dst)]"
proof -
  obtain x y z where n: "new_edge (e_label e) i dst x y z (d_graph d) = Inr D'"
    and z: "z \<Longrightarrow> (\<exists>ev. e_label e = Fn_t ev) \<or> (\<exists>a. e_label e = Field_t a)"
    using Copy_new [OF assms(2,3)] by blast
  have wf: "wf_graph (d_graph d)" and v: "valid i (d_graph d)" using assms(1,4) by (auto simp: dinv_def)
  have "valid dst (d_graph d)" using assms(1,5) dinv_valid by blast
  then have wf': "wf_graph D'" using new_edge_wf [OF wf n v _ z] by simp
  show "dout D' i = dout (d_graph d) i @ [(esym (e_label e), dst)]"
    using new_edge_dout [OF wf n v] by simp
  have "state_ok g {i} (d\<lparr>d_graph := D'\<rparr>) L j" if "(L, j) \<in> set (d_map d)" for L j
  proof (cases "j = i")
    case True
    then show ?thesis using assms(4) by (simp add: state_ok_def)
  next
    case False
    moreover have "valid j (d_graph d)" using that assms(1) dinv_valid by blast
    ultimately have "dout D' j = dout (d_graph d) j" using new_edge_dout [OF wf n] by simp
    moreover have "state_ok g {i} d L j" using that assms(1) by (auto simp: dinv_def)
    ultimately show ?thesis using covers_frame [of g d _ _ j "d\<lparr>d_graph := D'\<rparr>"] by (auto simp: state_ok_def)
  qed
  then show "dinv g K0 {i} (d\<lparr>d_graph := D'\<rparr>)"
    using assms(1) wf' new_edge_frame(2) [OF n] by (auto simp: dinv_def)
qed

subsection \<open>The loops keep the invariant\<close>

lemma all_outs_Cons [simp]: "all_outs g (q # qs) = outs g q @ all_outs g qs" "all_outs g [] = []"
  by (simp_all add: all_outs_def)

lemma all_outs_ids:
  assumes "wf_graph g" and "K \<in> state_sets g"
  shows "edge_ids g (all_outs g K)" and "distinct (all_outs g K)"
proof -
  have v: "\<And>s. s \<in> set K \<Longrightarrow> valid s g" and dK: "distinct K" using assms(2) by (auto simp: state_sets_def)
  have out: "outs g s = owned (g_edges g) s" if "s \<in> set K" for s
    using assms(1) v [OF that] by (simp add: wf_graph_def outs_def)
  then show "edge_ids g (all_outs g K)" by (auto simp: all_outs_def owned_def)
  have "distinct (all_outs g L)" if "distinct L" "set L \<subseteq> set K" for L
    using that
  proof (induction L)
    case (Cons s L)
    then have "set (outs g s) \<inter> set (all_outs g L) = {}"
      using out by (fastforce simp: all_outs_def owned_def)
    with Cons out [of s] show ?case by (simp add: owned_def)
  qed (simp add: all_outs_def)
  with dK show "distinct (all_outs g K)" by simp
qed

text \<open>The state of the loops over the transitions \<open>all\<close> of a set, of which \<open>pre\<close> have been met.\<close>

definition in_loop :: "graph \<Rightarrow> nat list \<Rightarrow> nat \<Rightarrow> nat list \<Rightarrow> nat list \<Rightarrow> nat set \<Rightarrow> dfa_builder \<Rightarrow> bool" where
  "in_loop g K0 i all pre fin d \<longleftrightarrow>
     dinv g K0 {i} d \<and> i \<in> set (d_done d) \<and> covers g d all pre i \<and> fin = met g all pre"

lemma in_loop_new:
  assumes inv: "in_loop g K0 i all pre fin d" and all: "all = pre @ t # ts @ all_outs g later"
    and new: "e_label (g_edges g ! t) \<noteq> Null_t" "t \<notin> fin"
    and acc: "collectFrontier g (e_to (g_edges g ! t)) ([], a, b) = Inr acc"
    and 1: "absorb g (e_label (g_edges g ! t)) ts (insert t fin) acc = Inr (fin1, acc1)"
    and 2: "absorb g (e_label (g_edges g ! t)) (concat (map (outs g) later)) fin1 acc1 = Inr (fin2, dest, a', b')"
    and st: "stateForNFAStates dest a' b' d = (dst, d1)"
    and cp: "Copy i dst (g_edges g ! t) False (d_graph d1) = Inr D"
  shows "in_loop g K0 i all (pre @ [t]) fin2 (d1\<lparr>d_graph := D\<rparr>)" and "set (d_map d) \<subseteq> set (d_map d1)"
proof -
  from inv have d: "dinv g K0 {i} d" "i \<in> set (d_done d)" and c: "covers g d all pre i"
    and fin: "fin = met g all pre" by (simp_all add: in_loop_def)
  let ?l = "sym_at (g_edges g) t"
  note m = met_new [OF new(2) [unfolded fin] new(1) all]
  have fin2: "fin2 = met g all (pre @ [t])" and dest: "set dest = targets g (class_of g ?l all)"
    using absorb_targets [OF 1] absorb_targets [OF 2] collectFrontier_cl [OF acc]
    unfolding m(1) [symmetric] m(2) [symmetric] fin all_outs_def by auto
  note s = stateFor_inv [OF d(1) st new_dest_sets [OF acc 1 2]]
  from s(3) show "set (d_map d) \<subseteq> set (d_map d1)" .
  have done1: "i \<in> set (d_done d1)" using s(4) d(2) by simp
  note cp' = Copy_inv [OF s(1) cp new(1) done1 s(2)]
  have "valid i (d_graph d)" using d by (auto simp: dinv_def)
  with s(5) cp'(2) have out: "dout D i = dout (d_graph d) i @ [(?l, dst)]" by simp
  have "covers g (d1\<lparr>d_graph := D\<rparr>) all (pre @ [t]) i"
    unfolding covers_def
  proof (intro conjI)
    show "distinct (map fst (dout (d_graph (d1\<lparr>d_graph := D\<rparr>)) i))"
      using c m(3) by (simp add: out covers_def)
    show "fst ` set (dout (d_graph (d1\<lparr>d_graph := D\<rparr>)) i) = syms g (pre @ [t])"
      using c new(1) by (simp add: out covers_def)
    have "\<exists>K. (K, dst) \<in> set (d_map d1) \<and> set K = targets g (class_of g ?l all)"
      using s(2) dest by blast
    moreover have "\<forall>(l, s) \<in> set (dout (d_graph d) i).
        \<exists>K. (K, s) \<in> set (d_map d1) \<and> set K = targets g (class_of g l all)"
      using c subsetD [OF s(3)] unfolding covers_def by blast
    ultimately show "\<forall>(l, s) \<in> set (dout (d_graph (d1\<lparr>d_graph := D\<rparr>)) i).
        \<exists>K. (K, s) \<in> set (d_map (d1\<lparr>d_graph := D\<rparr>)) \<and> set K = targets g (class_of g l all)"
      by (simp add: out)
  qed
  with cp'(1) done1 fin2 show "in_loop g K0 i all (pre @ [t]) fin2 (d1\<lparr>d_graph := D\<rparr>)"
    by (simp add: in_loop_def)
qed

lemma in_loop_skip:
  assumes "in_loop g K0 i all pre fin d" and "t \<in> set all" and "e_label (g_edges g ! t) = Null_t \<or> t \<in> fin"
  shows "in_loop g K0 i all (pre @ [t]) fin d"
proof -
  from assms have "e_label (g_edges g ! t) = Null_t \<or> t \<in> met g all pre" by (simp add: in_loop_def)
  note m = met_skip [OF assms(2) this]
  show ?thesis using assms(1) unfolding in_loop_def covers_def m .
qed

lemma trans_loop_inv:
  "trans_loop g i later ts fin a b d = Inr (fin', d') \<Longrightarrow> in_loop g K0 i all pre fin d
     \<Longrightarrow> all = pre @ ts @ all_outs g later
     \<Longrightarrow> in_loop g K0 i all (pre @ ts) fin' d' \<and> set (d_map d) \<subseteq> set (d_map d')"
proof (induction ts arbitrary: pre fin a b d)
  case (Cons t ts)
  from Cons.prems(1) show ?case
  proof (cases rule: trans_loop_Cons)
    case skip
    from in_loop_skip [OF Cons.prems(2) _ skip(1)] Cons.prems(3)
    have "in_loop g K0 i all (pre @ [t]) fin d" by simp
    from Cons.IH [OF skip(2) this] Cons.prems(3) show ?thesis by simp
  next
    case (new acc fin1 acc1 fin2 dest a' b' dst d1 g1)
    have all: "all = pre @ t # ts @ all_outs g later" using Cons.prems(3) by simp
    note n = in_loop_new [OF Cons.prems(2) all new(1-7)]
    from Cons.IH [OF new(8) n(1)] all n(2) show ?thesis by auto
  qed
qed simp

lemma state_loop_inv:
  "state_loop g i qs fin d = Inr d' \<Longrightarrow> in_loop g K0 i all pre fin d \<Longrightarrow> all = pre @ all_outs g qs
     \<Longrightarrow> (\<exists>fin'. in_loop g K0 i all all fin' d') \<and> set (d_map d) \<subseteq> set (d_map d')"
proof (induction qs arbitrary: pre fin d)
  case (Cons q qs)
  from Cons.prems(1) obtain fin1 d1 where
    t: "trans_loop g i qs (outs g q) fin False False d = Inr (fin1, d1)" and
    l: "state_loop g i qs fin1 d1 = Inr d'" by (auto simp: E_eq_Inr)
  have all: "all = pre @ outs g q @ all_outs g qs" using Cons.prems(3) by simp
  note t' = trans_loop_inv [OF t Cons.prems(2) all]
  from Cons.IH [OF l conjunct1 [OF t']] all t' show ?case by auto
qed auto

lemma dinv_sets: "dinv g K0 X d \<Longrightarrow> (K, i) \<in> set (d_map d) \<Longrightarrow> K \<in> state_sets g"
  unfolding dinv_def by (metis fst_conv image_eqI subsetD)

lemma dinv_key: "dinv g K0 X d \<Longrightarrow> (K, i) \<in> set (d_map d) \<Longrightarrow> (L, i) \<in> set (d_map d) \<Longrightarrow> L = K"
proof -
  assume "dinv g K0 X d" and m: "(K, i) \<in> set (d_map d)" "(L, i) \<in> set (d_map d)"
  then have "distinct (map snd (d_map d))" by (simp add: dinv_def)
  then have "inj_on snd (set (d_map d))" by (simp add: distinct_map)
  from inj_onD [OF this _ m] show ?thesis by simp
qed

text \<open>The set at the top of the stack has a state, and dealing with it starts the loops.\<close>

lemma build_step_pop:
  assumes "dinv g K0 {} d" and t: "d_todo d = (K, a, b) # todo"
  obtains i where "(K, i) \<in> set (d_map d)"
    and "stateForNFAStates K a b (d\<lparr>d_todo := todo\<rparr>) = (i, d\<lparr>d_todo := todo\<rparr>)"
    and "i \<in> set (d_done d) \<Longrightarrow> dinv g K0 {} (d\<lparr>d_todo := todo\<rparr>)"
    and "i \<notin> set (d_done d)
      \<Longrightarrow> in_loop g K0 i (all_outs g K) [] {} (d\<lparr>d_todo := todo, d_done := i # d_done d\<rparr>)"
proof -
  from assms have "K \<in> keys d" by (auto simp: dinv_def)
  then obtain i where i: "(K, i) \<in> set (d_map d)" by auto
  with assms(1) have m: "map_of (d_map d) K = Some i" and v: "valid i (d_graph d)" by (auto simp: dinv_valid)
  have fn: "j = i" if "(K, j) \<in> set (d_map d)" for j using that m dinv_valid [OF assms(1)] by simp
  let ?d0 = "d\<lparr>d_todo := todo\<rparr>" and ?d1 = "d\<lparr>d_todo := todo, d_done := i # d_done d\<rparr>"
  have st: "stateForNFAStates K a b ?d0 = (i, ?d0)" by (simp add: stateForNFAStates_def m)
  have ok: "\<forall>(L, j) \<in> set (d_map d). state_ok g {} d L j" using assms(1) by (simp add: dinv_def)
  have fin: "dinv g K0 {} ?d0" if "i \<in> set (d_done d)"
  proof -
    have "state_ok g {} ?d0 L j" if "(L, j) \<in> set (d_map d)" for L j
      using bspec [OF ok that] \<open>i \<in> set (d_done d)\<close> fn [of j] that by (auto simp: state_ok_def t)
    then show ?thesis using assms(1) by (auto simp: dinv_def t)
  qed
  have "in_loop g K0 i (all_outs g K) [] {} ?d1" if "i \<notin> set (d_done d)"
  proof -
    have "state_ok g {i} ?d1 L j" if "(L, j) \<in> set (d_map d)" for L j
      using bspec [OF ok that] fn [of j] that by (auto simp: state_ok_def t)
    then have "dinv g K0 {i} ?d1" using assms(1) v by (auto simp: dinv_def t)
    moreover have "dout (d_graph d) i = []" using bspec [OF ok i] that by (simp add: state_ok_def)
    ultimately show ?thesis by (simp add: in_loop_def covers_def)
  qed
  with i st fin show thesis by (rule that)
qed

lemma build_step_inv:
  assumes "dinv g K0 {} d" and "build_step g d = Inr d'"
  shows "dinv g K0 {} d'"
proof (cases "d_todo d")
  case Nil
  with assms show ?thesis by (simp add: build_step_def)
next
  case (Cons x todo)
  then obtain K a b where t: "d_todo d = (K, a, b) # todo" by (cases x) auto
  show ?thesis
  proof (rule build_step_pop [OF assms(1) t])
    fix i
    assume i: "(K, i) \<in> set (d_map d)"
      and st: "stateForNFAStates K a b (d\<lparr>d_todo := todo\<rparr>) = (i, d\<lparr>d_todo := todo\<rparr>)"
      and fin: "i \<in> set (d_done d) \<Longrightarrow> dinv g K0 {} (d\<lparr>d_todo := todo\<rparr>)"
      and start: "i \<notin> set (d_done d)
        \<Longrightarrow> in_loop g K0 i (all_outs g K) [] {} (d\<lparr>d_todo := todo, d_done := i # d_done d\<rparr>)"
    show ?thesis
    proof (cases "i \<in> set (d_done d)")
      case True
      with fin assms(2) show ?thesis by (simp add: build_step_def t st)
    next
      case False
      have l: "state_loop g i K {} (d\<lparr>d_todo := todo, d_done := i # d_done d\<rparr>) = Inr d'"
        using assms(2) False by (simp add: build_step_def t st)
      from state_loop_inv [OF l start [OF False]] obtain fin' where
        f: "in_loop g K0 i (all_outs g K) (all_outs g K) fin' d'" and sub: "set (d_map d) \<subseteq> set (d_map d')" by auto
      have "state_ok g {} d' L j" if "(L, j) \<in> set (d_map d')" for L j
      proof (cases "j = i")
        case True
        have "L = K" using dinv_key [of g K0 "{i}" d' K i L] f that True i sub by (auto simp: in_loop_def)
        with f True show ?thesis by (simp add: in_loop_def state_ok_def)
      next
        case False
        then show ?thesis using that f by (auto simp: in_loop_def dinv_def state_ok_def)
      qed
      then show ?thesis using f by (auto simp: in_loop_def dinv_def)
    qed
  qed
qed

lemma build_loop_inv: "build_loop g d = Inr d' \<Longrightarrow> dinv g K0 {} d \<Longrightarrow> dinv g K0 {} d' \<and> d_todo d' = []"
proof (induction g d rule: build_loop.induct)
  case (1 g d)
  then show ?case
    by (cases "d_todo d = []") (auto simp: build_loop.simps [of g d] E_eq_Inr intro: build_step_inv)
qed

lemma initial_builder_simps [simp]:
  "d_map (initial_builder g) = []" "d_done (initial_builder g) = []" "d_todo (initial_builder g) = []"
  "d_graph (initial_builder g) = empty_graph"
  by (simp_all add: initial_builder_def)

lemma dfa_startE:
  assumes "dfa_start g = Inr d"
  obtains K0 a b s where "collectFrontier g 0 ([], False, False) = Inr (K0, a, b)"
    and "stateForNFAStates K0 a b (initial_builder g) = (s, d)"
  using assms by (auto simp: dfa_start_def E_eq_Inr) (metis prod.collapse)

lemma dfa_start_inv:
  assumes "dfa_start g = Inr d"
  shows "\<exists>K0. dinv g K0 {} d \<and> set K0 = cl g 0"
proof -
  from assms obtain K0 a b s' where f: "collectFrontier g 0 ([], False, False) = Inr (K0, a, b)"
    and d: "stateForNFAStates K0 a b (initial_builder g) = (s', d)" by (rule dfa_startE)
  let ?rc = "if a then Some (d_refcount (initial_builder g)) else None"
  obtain D s where bs: "build_state (state_set_name K0) a b ?rc empty_graph = (D, s)"
    by (cases "build_state (state_set_name K0) a b ?rc empty_graph")
  have "s = 0" using build_state_simps(1) [OF bs] by (simp add: empty_graph_def)
  note bs = bs [unfolded this]
  have d: "d = (initial_builder g)\<lparr>d_map := [(K0, 0)], d_todo := [(K0, a, b)], d_graph := D\<rparr>"
    using d by (simp add: stateForNFAStates_def bs)
  have "wf_graph empty_graph" by (simp add: wf_graph_def empty_graph_def)
  from build_state_wf [OF this bs] have "wf_graph D" .
  moreover have "length (g_states D) = 1" using build_state_simps(3) [OF bs] by (simp add: empty_graph_def)
  moreover have "dout D 0 = []" using build_state_dout(2) [OF bs] .
  moreover have "K0 \<in> state_sets g" using collectFrontier_sets [OF f] by (simp add: state_sets_def)
  ultimately have "dinv g K0 {} d" by (simp add: dinv_def state_ok_def d)
  moreover have "set K0 = cl g 0" using collectFrontier_cl [OF f] by simp
  ultimately show ?thesis by blast
qed

text \<open>What the construction promises: every state covers the transitions of its set.\<close>

lemma dfa_graph_inv:
  assumes "dfa_graph g = Inr d"
  obtains K0 where "dinv g K0 {} d" and "set K0 = cl g 0" and "(K0, 0) \<in> set (d_map d)"
    and "\<And>K i. (K, i) \<in> set (d_map d) \<Longrightarrow> covers g d (all_outs g K) (all_outs g K) i"
proof -
  from assms obtain d0 where "dfa_start g = Inr d0" and l: "build_loop g d0 = Inr d"
    by (auto simp: dfa_graph_def E_eq_Inr)
  with dfa_start_inv obtain K0 where K0: "dinv g K0 {} d0" "set K0 = cl g 0" by blast
  from build_loop_inv [OF l K0(1)] have d: "dinv g K0 {} d" and t: "d_todo d = []" by auto
  then have "(K0, 0) \<in> set (d_map d)" unfolding dinv_def by (metis last_in_set)
  moreover have "covers g d (all_outs g K) (all_outs g K) i" if "(K, i) \<in> set (d_map d)" for K i
    using that d t by (auto simp: dinv_def state_ok_def split: if_splits)
  ultimately show thesis using that d K0(2) by blast
qed

subsection \<open>Words\<close>

inductive nfa_path :: "graph \<Rightarrow> nat \<Rightarrow> trans_label list \<Rightarrow> nat \<Rightarrow> bool" for g where
  stop: "nfa_path g s [] s"
| silent: "t \<in> set (outs g s) \<Longrightarrow> e_label (g_edges g ! t) = Null_t \<Longrightarrow> nfa_path g (e_to (g_edges g ! t)) w s'
    \<Longrightarrow> nfa_path g s w s'"
| letter: "t \<in> set (outs g s) \<Longrightarrow> e_label (g_edges g ! t) \<noteq> Null_t \<Longrightarrow> EquivalentTo (e_label (g_edges g ! t)) l
    \<Longrightarrow> nfa_path g (e_to (g_edges g ! t)) w s' \<Longrightarrow> nfa_path g s (l # w) s'"

fun dfa_run :: "graph \<Rightarrow> nat \<Rightarrow> trans_label list \<Rightarrow> nat option" where
  "dfa_run D s [] = Some s"
| "dfa_run D s (l # w) = (case find (\<lambda>t. EquivalentTo (e_label (g_edges D ! t)) l) (outs D s) of
     None \<Rightarrow> None
   | Some t \<Rightarrow> dfa_run D (e_to (g_edges D ! t)) w)"

lemma path_cl: "u \<in> cl g s \<Longrightarrow> nfa_path g u w s' \<Longrightarrow> nfa_path g s w s'"
  unfolding cl_def mem_Collect_eq
proof (induction rule: converse_rtranclp_induct)
  case (step y z)
  then show ?case by (auto simp: eps_def intro: nfa_path.silent)
qed

lemma path_Nil: "nfa_path g s [] s' \<longleftrightarrow> s' \<in> cl g s"
proof
  have "w = [] \<Longrightarrow> s' \<in> cl g s" if "nfa_path g s w s'" for w
    using that
  proof (induction rule: nfa_path.induct)
    case (silent t s w s')
    then have "eps g s (e_to (g_edges g ! t))" by (auto simp: eps_def)
    with silent show ?case by (blast intro: cl_step)
  qed auto
  then show "nfa_path g s [] s' \<Longrightarrow> s' \<in> cl g s" by blast
qed (auto intro: path_cl nfa_path.stop)

lemma path_Cons:
  "nfa_path g s (l # w) s' \<longleftrightarrow> (\<exists>u \<in> cl g s. \<exists>t \<in> set (outs g u). e_label (g_edges g ! t) \<noteq> Null_t
     \<and> EquivalentTo (e_label (g_edges g ! t)) l \<and> nfa_path g (e_to (g_edges g ! t)) w s')" (is "_ \<longleftrightarrow> ?R s l w s'")
proof
  have "v = l # w \<Longrightarrow> ?R s l w s'" if "nfa_path g s v s'" for v
    using that
  proof (induction rule: nfa_path.induct)
    case (silent t s v s')
    then have "eps g s (e_to (g_edges g ! t))" by (auto simp: eps_def)
    with silent show ?case by (blast intro: cl_step)
  qed (auto intro: cl_refl)
  then show "nfa_path g s (l # w) s' \<Longrightarrow> ?R s l w s'" by blast
qed (auto intro: path_cl nfa_path.letter)

subsection \<open>The simulation\<close>

text \<open>One step of the deterministic automaton, in terms of what leaves the state.\<close>

lemma find_dout:
  "find (\<lambda>t. EquivalentTo (e_label (g_edges D ! t)) l) (outs D i) = None \<longleftrightarrow> esym l \<notin> fst ` set (dout D i)"
  "find (\<lambda>t. EquivalentTo (e_label (g_edges D ! t)) l) (outs D i) = Some t
     \<Longrightarrow> (esym l, e_to (g_edges D ! t)) \<in> set (dout D i)"
  by (force simp: dout_def find_None_iff EquivalentTo_iff, force simp: dout_def find_Some_iff EquivalentTo_iff)

definition closed :: "graph \<Rightarrow> nat set \<Rightarrow> bool" where
  "closed g S \<longleftrightarrow> S \<noteq> {} \<and> (\<forall>s \<in> S. cl g s \<subseteq> S)"

lemma closed_cl: "closed g (cl g s)"
  unfolding closed_def using cl_refl [of s g] cl_subset by blast

lemma closed_targets: "T \<noteq> {} \<Longrightarrow> closed g (targets g T)"
proof -
  assume "T \<noteq> {}"
  then have "targets g T \<noteq> {}" unfolding targets_def using cl_refl by blast
  moreover have "cl g s \<subseteq> targets g T" if "s \<in> targets g T" for s
    using that cl_subset unfolding targets_def by (fast dest: subsetD)
  ultimately show ?thesis by (simp add: closed_def)
qed

lemma closed_ex: "closed g S \<Longrightarrow> (\<exists>s \<in> S. \<exists>u \<in> cl g s. P u) \<longleftrightarrow> (\<exists>u \<in> S. P u)"
  using cl_refl [of _ g] unfolding closed_def by blast

text \<open>Where the paths from a set of states end.\<close>

definition ends :: "graph \<Rightarrow> nat set \<Rightarrow> trans_label list \<Rightarrow> nat set" where
  "ends g S w = {s'. \<exists>s \<in> S. nfa_path g s w s'}"

lemma ends_Nil: "closed g S \<Longrightarrow> ends g S [] = S"
  by (auto simp: ends_def path_Nil closed_def intro: cl_refl)

lemma ends_targets: "s' \<in> ends g (targets g T) w \<longleftrightarrow> (\<exists>t \<in> T. nfa_path g (e_to (g_edges g ! t)) w s')"
proof -
  have "(\<exists>s \<in> cl g u. nfa_path g s w s') \<longleftrightarrow> nfa_path g u w s'" for u
    using path_cl [of _ g u] cl_refl [of u g] by blast
  then show ?thesis by (auto simp: ends_def targets_def)
qed

lemma ends_Cons:
  assumes "closed g (set K)" and "l \<noteq> Null_t"
  shows "ends g (set K) (l # w) = ends g (targets g (class_of g (esym l) (all_outs g K))) w"
proof -
  have "s' \<in> ends g (set K) (l # w) \<longleftrightarrow>
      (\<exists>t \<in> class_of g (esym l) (all_outs g K). nfa_path g (e_to (g_edges g ! t)) w s')" for s'
  proof -
    have eq: "e_label e \<noteq> Null_t \<and> EquivalentTo (e_label e) l \<and> Q \<longleftrightarrow> esym (e_label e) = esym l \<and> Q" for e Q
      using assms(2) by (auto simp: EquivalentTo_iff)
    have "s' \<in> ends g (set K) (l # w) \<longleftrightarrow> (\<exists>u \<in> set K. \<exists>t \<in> set (outs g u).
        sym_at (g_edges g) t = esym l \<and> nfa_path g (e_to (g_edges g ! t)) w s')"
      unfolding ends_def path_Cons mem_Collect_eq closed_ex [OF assms(1)] eq ..
    then show ?thesis by (auto simp: class_of_def all_outs_def)
  qed
  moreover have "s' \<in> ends g (targets g T) w \<longleftrightarrow> (\<exists>t \<in> T. nfa_path g (e_to (g_edges g ! t)) w s')" for s' T
    by (rule ends_targets)
  ultimately show ?thesis by blast
qed

lemma ends_Null: "ends g S (Null_t # w) = {}"
  by (auto simp: ends_def path_Cons EquivalentTo_iff)

lemma run_simulates:
  assumes cov: "\<And>K i. (K, i) \<in> set (d_map d) \<Longrightarrow> covers g d (all_outs g K) (all_outs g K) i"
  shows "(K, i) \<in> set (d_map d) \<Longrightarrow> closed g (set K) \<Longrightarrow>
    (case dfa_run (d_graph d) i w of
       None \<Rightarrow> ends g (set K) w = {}
     | Some k \<Rightarrow> ends g (set K) w \<noteq> {} \<and> (\<exists>L. (L, k) \<in> set (d_map d) \<and> set L = ends g (set K) w))"
proof (induction w arbitrary: K i)
  case Nil
  then show ?case by (auto simp: ends_Nil) (auto simp: closed_def)
next
  case (Cons l w)
  note c = cov [OF Cons.prems(1), unfolded covers_def]
  show ?case
  proof (cases "find (\<lambda>t. EquivalentTo (e_label (g_edges (d_graph d) ! t)) l) (outs (d_graph d) i)")
    case None
    then have "esym l \<notin> syms g (all_outs g K)" using c find_dout(1) by metis
    then have "l = Null_t \<or> class_of g (esym l) (all_outs g K) = {}" by (auto simp: syms_def class_of_def image_iff)
    then have "ends g (set K) (l # w) = {}"
      using ends_Cons [OF Cons.prems(2), of l w] ends_Null by (cases "l = Null_t") (auto simp: ends_def)
    with None show ?thesis by simp
  next
    case (Some t)
    from find_dout(2) [OF Some] have o: "(esym l, e_to (g_edges (d_graph d) ! t)) \<in> set (dout (d_graph d) i)" .
    then have "esym l \<in> syms g (all_outs g K)" using c by force
    then have l: "l \<noteq> Null_t" and ne: "class_of g (esym l) (all_outs g K) \<noteq> {}"
      by (auto simp: syms_def class_of_def)
    from c o obtain L where L: "(L, e_to (g_edges (d_graph d) ! t)) \<in> set (d_map d)"
      "set L = targets g (class_of g (esym l) (all_outs g K))" by blast
    have "closed g (set L)" unfolding L(2) by (rule closed_targets [OF ne])
    from Cons.IH [OF L(1) this] show ?thesis
      unfolding ends_Cons [OF Cons.prems(2) l] L(2) [symmetric] using Some by simp
  qed
qed

text \<open>No two transitions that leave a state are equivalent.\<close>

definition deterministic :: "graph \<Rightarrow> bool" where
  "deterministic D \<longleftrightarrow> (\<forall>s < length (g_states D). \<forall>t \<in> set (outs D s). \<forall>u \<in> set (outs D s).
     EquivalentTo (e_label (g_edges D ! t)) (e_label (g_edges D ! u)) \<longrightarrow> t = u)"

lemma dfa_graph_deterministic:
  assumes "dfa_graph g = Inr d"
  shows "deterministic (d_graph d)"
proof -
  obtain K0 where inv: "dinv g K0 {} d"
    and cov: "\<And>K i. (K, i) \<in> set (d_map d) \<Longrightarrow> covers g d (all_outs g K) (all_outs g K) i"
    using dfa_graph_inv [OF assms] by metis
  have "t = u" if "valid s (d_graph d)" "t \<in> set (outs (d_graph d) s)" "u \<in> set (outs (d_graph d) s)"
    "sym_at (g_edges (d_graph d)) t = sym_at (g_edges (d_graph d)) u" for s t u
  proof -
    have "s \<in> snd ` set (d_map d)"
      using that(1) by (simp add: dinv_states [OF inv])
    then obtain K where "(K, s) \<in> set (d_map d)" by auto
    from cov [OF this] have "distinct (map (sym_at (g_edges (d_graph d))) (outs (d_graph d) s))"
      by (simp add: covers_def dout_def comp_def)
    with that show ?thesis by (auto simp: distinct_map inj_on_def)
  qed
  then show ?thesis by (auto simp: deterministic_def EquivalentTo_iff)
qed

lemma dfa_graph_simulates:
  assumes "dfa_graph g = Inr d"
  shows "case dfa_run (d_graph d) 0 w of
       None \<Rightarrow> \<forall>s. \<not> nfa_path g 0 w s
     | Some k \<Rightarrow> (\<exists>s. nfa_path g 0 w s) \<and> (\<exists>L. (L, k) \<in> set (d_map d) \<and> set L = {s. nfa_path g 0 w s})"
proof -
  obtain K0 where K0: "set K0 = cl g 0" "(K0, 0) \<in> set (d_map d)"
    and cov: "\<And>K i. (K, i) \<in> set (d_map d) \<Longrightarrow> covers g d (all_outs g K) (all_outs g K) i"
    using dfa_graph_inv [OF assms] by metis
  have "ends g (set K0) w = {s. nfa_path g 0 w s}"
    using path_cl cl_refl by (fastforce simp: ends_def K0(1))
  with run_simulates [OF cov K0(2), of w] show ?thesis
    using closed_cl [of g 0] by (auto simp: K0(1) split: option.splits)
qed

end
