(* ===== verification/Tesla_DFA_Total.thy ===== *)
theory Tesla_DFA_Total
  imports Tesla_DFA_Correct
begin

text \<open>
  The construction of the deterministic automaton returns, and none of its assertions fails, for a
  well-formed automaton without cycles of epsilon transitions, without sub-automata and without
  variables.  (Whether the assertions on variables in \<open>UpdateReferences\<close> hold depends on how the
  assertion uses its variables.)
\<close>

definition buildable :: "graph \<Rightarrow> bool" where
  "buildable g \<longleftrightarrow> wf_graph g \<and> valid 0 g \<and> (\<forall>s < length (g_states g). no_cycle g s)
     \<and> (\<forall>e \<in> set (g_edges g). e_label e = Null_t \<or> label_realisable (e_label e))
     \<and> References (g_states g ! 0) = []"

lemma buildableD:
  assumes "buildable g"
  shows "wf_graph g" and "valid 0 g" and "valid s g \<Longrightarrow> no_cycle g s"
    and "t < length (g_edges g) \<Longrightarrow> e_label (g_edges g ! t) = Null_t \<or> label_realisable (e_label (g_edges g ! t))"
  using assms by (auto simp: buildable_def)

subsection \<open>Collecting states\<close>

lemma collectFrontier_total:
  assumes "buildable g" and "valid s g"
  obtains acc' where "collectFrontier g s acc = Inr acc'"
proof -
  note b = buildableD [OF assms(1)]
  have "card (cl g s) \<le> length (g_states g)"
    using card_mono [OF finite_lessThan cl_valid [OF b(1) assms(2)]] by simp
  from collect_acyclic(1) [OF b(1) assms(2) b(3) [OF assms(2)] this, of "fst acc"]
  obtain N where "collect (length (g_states g)) g s (fst acc) = Inr N" ..
  then show thesis by (cases acc) (auto simp: collectFrontier_def intro: that)
qed

lemma absorb_total:
  assumes "buildable g"
  shows "distinct ts \<Longrightarrow> edge_ids g ts \<Longrightarrow> class_of g (esym l) ts \<inter> fin = {}
    \<Longrightarrow> \<exists>fin' acc'. absorb g l ts fin acc = Inr (fin', acc')"
proof (induction ts arbitrary: fin acc)
  case (Cons t ts)
  show ?case
  proof (cases "EquivalentTo (e_label (g_edges g ! t)) l")
    case True
    have "valid (e_to (g_edges g ! t)) g"
      using wf_edge_at(2) [OF buildableD(1) [OF assms]] Cons.prems(2) by simp
    from collectFrontier_total [OF assms this, of acc] obtain acc' where
      acc': "collectFrontier g (e_to (g_edges g ! t)) acc = Inr acc'" .
    have "t \<notin> fin" using Cons.prems(3) True by (auto simp: EquivalentTo_iff)
    moreover have "class_of g (esym l) ts \<inter> insert t fin = {}" and "distinct ts" and "edge_ids g ts"
      using Cons.prems by (auto simp: class_of_def)
    from Cons.IH [OF this(2,3,1)] obtain fin2 acc2 where
      "absorb g l ts (insert t fin) acc' = Inr (fin2, acc2)" by blast
    ultimately show ?thesis using True acc' by (cases acc2) simp
  next
    case False
    with Cons show ?thesis by (auto simp: EquivalentTo_iff)
  qed
qed (metis absorb.simps(1))

text \<open>No transition leads to the start state, so no set but the first contains it.\<close>

lemma cl_nonzero:
  assumes "wf_graph g" and "valid s g" and "s \<noteq> 0"
  shows "0 \<notin> cl g s"
proof
  assume "0 \<in> cl g s"
  then have "(eps g)\<^sup>*\<^sup>* s 0" by (simp add: cl_def)
  then obtain u where u: "(eps g)\<^sup>*\<^sup>* s u" "eps g u 0" using assms(3) by (auto elim: rtranclp.cases)
  have "valid u g" using cl_valid [OF assms(1,2)] u(1) by (auto simp: cl_def)
  with u(2) show False
    using wf_out(1) [OF assms(1)] wf_edge_at(3) [OF assms(1)] by (fastforce simp: eps_def outs_def)
qed

lemma targets_nonzero:
  assumes "wf_graph g" and "edge_ids g ts"
  shows "0 \<notin> targets g (class_of g l ts)"
  using assms(2) cl_nonzero [OF assms(1)] wf_edge_at [OF assms(1)] by (auto simp: targets_def class_of_def)

subsection \<open>References\<close>

definition refs_free :: "graph \<Rightarrow> bool" where
  "refs_free D \<longleftrightarrow> (\<forall>q \<in> set (g_states D). References q = [])"

lemma refs_free_at: "refs_free D \<Longrightarrow> valid s D \<Longrightarrow> References (g_states D ! s) = []"
  by (simp add: refs_free_def)

lemma refs_free_update:
  "refs_free D \<Longrightarrow> References q = [] \<Longrightarrow> refs_free (D\<lparr>g_states := (g_states D)[s := q]\<rparr>)"
  using set_update_subset_insert by (fastforce simp: refs_free_def)

lemma UpdateReferences_free:
  assumes "ReferencesThusFar D e = []"
  shows "UpdateReferences s e D = Inr (if q_refs (g_states D ! s) = None
    then D\<lparr>g_states := (g_states D)[s := (g_states D ! s)\<lparr>q_refs := Some []\<rparr>]\<rparr> else D)"
  using assms by (simp add: UpdateReferences_def Let_def constant_mask_def)

lemma new_edge_total:
  assumes "refs_free D" and "valid src D" and "valid dst D" and "dst \<noteq> 0" and "\<not> (x \<and> z)"
  obtains D' where "new_edge l src dst x y z D = Inr D'" and "refs_free D'"
proof -
  let ?e = "\<lparr>e_label = l, e_from = src, e_to = dst, e_init = x, e_cleanup = y, e_oos = z\<rparr>"
  let ?D1 = "D\<lparr>g_edges := g_edges D @ [?e]\<rparr>"
  have r: "ReferencesThusFar ?D1 ?e = []" using refs_free_at [OF assms(1,2)] by (simp add: ReferencesThusFar_def)
  obtain D2 where u: "UpdateReferences dst ?e ?D1 = Inr D2" by (simp add: UpdateReferences_free [OF r])
  have D1: "refs_free ?D1" using assms(1) by (simp add: refs_free_def)
  have "References ((g_states D ! dst)\<lparr>q_refs := Some []\<rparr>) = []" by (simp add: References_def getD_def)
  from refs_free_update [OF D1 this, of dst] D1 u have "refs_free D2"
    by (auto simp: UpdateReferences_free [OF r] split: if_splits)
  moreover have "valid src D2" using UpdateReferences_frame(2) [OF u] assms(2) by simp
  ultimately have "refs_free (AddTransition src (length (g_edges D)) D2)"
    using refs_free_at [of D2 src] refs_free_update by (simp add: AddTransition_def Let_def References_def)
  moreover have "new_edge l src dst x y z D = Inr (AddTransition src (length (g_edges D)) D2)"
    using assms(4,5) u by (simp add: new_edge_def Register_def)
  ultimately show thesis by (rule that [rotated])
qed

lemma Copy_total:
  assumes "refs_free D" and "valid src D" and "valid dst D" and "dst \<noteq> 0" and "wf_edge n e"
    and "label_realisable (e_label e)"
  obtains D' where "Copy src dst e False D = Inr D'" and "refs_free D'"
proof -
  have "\<not> (e_init e \<and> e_oos e)" using assms(5) by (auto simp: wf_edge_def)
  from new_edge_total [OF assms(1-4) this, of "e_label e" "e_cleanup e"] obtain D' where
    D': "new_edge (e_label e) src dst (e_init e) (e_cleanup e) (e_oos e) D = Inr D'" "refs_free D'" .
  then have "Copy src dst e False D = Inr D'"
    using assms(5,6) by (cases "e_label e") (auto simp: Copy_def wf_edge_def)
  with D'(2) show thesis by (rule that [rotated])
qed

subsection \<open>The loops\<close>

abbreviation free_builder :: "dfa_builder \<Rightarrow> bool" where
  "free_builder d \<equiv> refs_free (d_graph d) \<and> d_refcount d = 0"

lemma stateFor_free:
  assumes "stateForNFAStates ns a b d = (s, d')" and "free_builder d"
  shows "free_builder d'"
  using assms by (auto simp: stateForNFAStates_def build_state_def refs_free_def References_def getD_def
      split: option.splits if_splits)

text \<open>A transition of a new class is dealt with without failing.\<close>

lemma trans_round_total:
  assumes g: "buildable g" and K0: "0 \<in> set K0"
    and inv: "in_loop g K0 i all pre fin d" and all: "all = pre @ t # ts @ all_outs g later"
    and ids: "edge_ids g all" "distinct all" and free: "free_builder d"
    and new: "e_label (g_edges g ! t) \<noteq> Null_t" "t \<notin> fin"
  obtains acc fin1 acc1 fin2 dest a' b' dst d1 D where
    "collectFrontier g (e_to (g_edges g ! t)) ([], a, b) = Inr acc"
    "absorb g (e_label (g_edges g ! t)) ts (insert t fin) acc = Inr (fin1, acc1)"
    "absorb g (e_label (g_edges g ! t)) (concat (map (outs g) later)) fin1 acc1 = Inr (fin2, dest, a', b')"
    "stateForNFAStates dest a' b' d = (dst, d1)"
    "Copy i dst (g_edges g ! t) False (d_graph d1) = Inr D"
    "label_realisable (e_label (g_edges g ! t))" "free_builder (d1\<lparr>d_graph := D\<rparr>)"
proof -
  let ?e = "g_edges g ! t"
  have t: "t < length (g_edges g)" using ids(1) all by simp
  note wf = buildableD(1) [OF g]
  from inv have fin: "fin = met g all pre" and c: "i \<in> set (d_done d)" by (simp_all add: in_loop_def)
  note m = met_new [OF new(2) [unfolded fin] new(1) all]
  have fresh: "class_of g (esym (e_label ?e)) us \<inter> met g all pre = {}" for us
    using m(3) by (auto simp: class_of_def met_def)
  from collectFrontier_total [OF g wf_edge_at(2) [OF wf t], of "([], a, b)"] obtain acc where
    acc: "collectFrontier g (e_to ?e) ([], a, b) = Inr acc" .
  have "class_of g (esym (e_label ?e)) ts \<inter> insert t fin = {}"
    using ids(2) fresh unfolding fin all by (auto simp: class_of_def)
  from absorb_total [OF g _ _ this, of acc] obtain fin1 acc1 where
    1: "absorb g (e_label ?e) ts (insert t fin) acc = Inr (fin1, acc1)" using ids all by auto
  have "class_of g (esym (e_label ?e)) (all_outs g later) \<inter> fin1 = {}"
    using absorb_targets [OF 1] ids(2) fresh unfolding fin all by (auto simp: class_of_def)
  from absorb_total [OF g _ _ this, of acc1] obtain fin2 dest a' b' where
    2: "absorb g (e_label ?e) (concat (map (outs g) later)) fin1 acc1 = Inr (fin2, dest, a', b')"
    using ids all by (auto simp: all_outs_def)
  obtain dst d1 where st: "stateForNFAStates dest a' b' d = (dst, d1)"
    by (cases "stateForNFAStates dest a' b' d")
  have inv': "dinv g K0 {i} d" using inv by (simp add: in_loop_def)
  note s = stateFor_inv [OF inv' st new_dest_sets [OF acc 1 2]]
  have free1: "free_builder d1" by (rule stateFor_free [OF st free])
  have dest: "set dest = targets g (class_of g (esym (e_label ?e)) all)"
    using absorb_targets [OF 1] absorb_targets [OF 2] collectFrontier_cl [OF acc]
    unfolding m(2) [symmetric] all_outs_def by auto
  have "dst \<noteq> 0"
  proof
    assume "dst = 0"
    moreover have "(K0, 0) \<in> set (d_map d1)" using s(1) unfolding dinv_def by (metis last_in_set)
    ultimately have "dest = K0" using dinv_key [OF s(1)] s(2) by blast
    with K0 dest targets_nonzero [OF wf ids(1)] show False by auto
  qed
  moreover have "valid i (d_graph d1)" using s(1,4) c by (auto simp: dinv_def)
  moreover have "valid dst (d_graph d1)" using s(1,2) dinv_valid by blast
  moreover have "wf_edge (length (g_states g)) ?e" using wf t by (simp add: wf_graph_def)
  moreover have real: "label_realisable (e_label ?e)" using buildableD(4) [OF g t] new(1) by blast
  ultimately obtain D where D: "Copy i dst ?e False (d_graph d1) = Inr D" "refs_free D"
    using Copy_total free1 by metis
  show thesis by (rule that [OF acc 1 2 st D(1) real]) (use D(2) free1 in simp)
qed

lemma trans_loop_total:
  assumes g: "buildable g" and K0: "0 \<in> set K0"
  shows "in_loop g K0 i all pre fin d \<Longrightarrow> all = pre @ ts @ all_outs g later \<Longrightarrow> edge_ids g all \<Longrightarrow> distinct all
    \<Longrightarrow> free_builder d \<Longrightarrow> \<exists>fin' d'. trans_loop g i later ts fin a b d = Inr (fin', d') \<and> free_builder d'"
proof (induction ts arbitrary: pre fin a b d)
  case (Cons t ts)
  let ?e = "g_edges g ! t"
  have all: "all = pre @ t # ts @ all_outs g later" using Cons.prems(2) by simp
  then have t: "t < length (g_edges g)" "t \<in> set all" using Cons.prems(3) by auto
  note wf = buildableD(1) [OF g]
  show ?case
  proof (cases "e_label ?e = Null_t \<or> t \<in> fin")
    case True
    have "in_loop g K0 i all (pre @ [t]) fin d" by (rule in_loop_skip [OF Cons.prems(1) t(2) True])
    from Cons.IH [OF this _ Cons.prems(3-5), of a b] Cons.prems(2) True buildableD(4) [OF g t(1)]
    show ?thesis by (auto simp: Let_def)
  next
    case False
    then have new: "e_label ?e \<noteq> Null_t" "t \<notin> fin" by auto
    from trans_round_total [OF g K0 Cons.prems(1) all Cons.prems(3-5) new, of a b]
    obtain acc fin1 acc1 fin2 dest a' b' dst d1 D where
      r: "collectFrontier g (e_to ?e) ([], a, b) = Inr acc"
        "absorb g (e_label ?e) ts (insert t fin) acc = Inr (fin1, acc1)"
        "absorb g (e_label ?e) (concat (map (outs g) later)) fin1 acc1 = Inr (fin2, dest, a', b')"
        "stateForNFAStates dest a' b' d = (dst, d1)" "Copy i dst ?e False (d_graph d1) = Inr D"
        "label_realisable (e_label ?e)" and free: "free_builder (d1\<lparr>d_graph := D\<rparr>)" .
    note n = in_loop_new [OF Cons.prems(1) all new r(1-5)]
    from Cons.IH [OF n(1) _ Cons.prems(3,4) free, of a' b'] Cons.prems(2)
    obtain fin' d' where "trans_loop g i later ts fin2 a' b' (d1\<lparr>d_graph := D\<rparr>) = Inr (fin', d')" "free_builder d'"
      by auto
    with new r show ?thesis by (auto simp: Let_def)
  qed
qed simp

lemma state_loop_total:
  assumes g: "buildable g" and K0: "0 \<in> set K0"
  shows "in_loop g K0 i all pre fin d \<Longrightarrow> all = pre @ all_outs g qs \<Longrightarrow> edge_ids g all \<Longrightarrow> distinct all
    \<Longrightarrow> free_builder d \<Longrightarrow> \<exists>d'. state_loop g i qs fin d = Inr d' \<and> free_builder d'"
proof (induction qs arbitrary: pre fin d)
  case (Cons q qs)
  have all: "all = pre @ outs g q @ all_outs g qs" using Cons.prems(2) by simp
  from trans_loop_total [OF g K0 Cons.prems(1) all Cons.prems(3-5), of False False] obtain fin1 d1 where
    t: "trans_loop g i qs (outs g q) fin False False d = Inr (fin1, d1)" "free_builder d1" by blast
  from trans_loop_inv [OF t(1) Cons.prems(1) all] have "in_loop g K0 i all (pre @ outs g q) fin1 d1" by simp
  from Cons.IH [OF this _ Cons.prems(3,4) t(2)] all t(1) show ?case by simp
qed simp

lemma build_step_total:
  assumes g: "buildable g" and K0: "0 \<in> set K0" and inv: "dinv g K0 {} d" and free: "free_builder d"
  shows "\<exists>d'. build_step g d = Inr d' \<and> free_builder d'"
proof (cases "d_todo d")
  case Nil
  with free show ?thesis by (simp add: build_step_def)
next
  case (Cons x todo)
  then obtain K a b where t: "d_todo d = (K, a, b) # todo" by (cases x) auto
  from build_step_pop [OF inv t] obtain i where i: "(K, i) \<in> set (d_map d)"
    "stateForNFAStates K a b (d\<lparr>d_todo := todo\<rparr>) = (i, d\<lparr>d_todo := todo\<rparr>)"
    "i \<notin> set (d_done d) \<Longrightarrow> in_loop g K0 i (all_outs g K) [] {} (d\<lparr>d_todo := todo, d_done := i # d_done d\<rparr>)"
    by blast
  have "K \<in> state_sets g" by (rule dinv_sets [OF inv i(1)])
  note ids = all_outs_ids [OF buildableD(1) [OF g] this]
  show ?thesis
  proof (cases "i \<in> set (d_done d)")
    case True
    with i(2) t free show ?thesis by (simp add: build_step_def)
  next
    case False
    from state_loop_total [OF g K0 i(3) [OF False] _ ids] free i(2) t False show ?thesis
      by (simp add: build_step_def)
  qed
qed

lemma build_loop_total:
  assumes g: "buildable g" and K0: "0 \<in> set K0"
  shows "dinv g K0 {} d \<Longrightarrow> free_builder d \<Longrightarrow> \<exists>d'. build_loop g d = Inr d'"
  using g
proof (induction g d rule: build_loop.induct)
  case (1 g d)
  from build_step_total [OF 1(4) K0 1(2,3)] obtain d1 where
    d1: "build_step g d = Inr d1" "free_builder d1" by blast
  from build_step_inv [OF 1(2) d1(1)] have inv: "dinv g K0 {} d1" .
  show ?case
  proof (cases "d_todo d = []")
    case False
    from 1(1) [OF False d1(1) inv d1(2) 1(4)] d1(1) False show ?thesis by (simp add: build_loop.simps [of g d])
  qed (simp add: build_loop.simps)
qed

lemma dfa_graph_total:
  assumes "buildable g"
  shows "\<exists>d. dfa_graph g = Inr d"
proof -
  from collectFrontier_total [OF assms buildableD(2) [OF assms], of "([], False, False)"]
  obtain ns a b where "collectFrontier g 0 ([], False, False) = Inr (ns, a, b)" by (metis prod_cases3)
  then obtain d s where d: "dfa_start g = Inr d" and st: "stateForNFAStates ns a b (initial_builder g) = (s, d)"
    by (cases "stateForNFAStates ns a b (initial_builder g)") (auto simp: dfa_start_def)
  have "free_builder (initial_builder g)"
    using assms by (simp add: initial_builder_def buildable_def refs_free_def empty_graph_def)
  from stateFor_free [OF st this] have free: "free_builder d" .
  from dfa_start_inv [OF d] obtain K0 where K0: "dinv g K0 {} d" "set K0 = cl g 0" by blast
  then have "0 \<in> set K0" by simp
  from build_loop_total [OF assms this K0(1) free] d show ?thesis by (auto simp: dfa_graph_def)
qed

end
