(* ===== verification/Tesla_Accept.thy ===== *)
theory Tesla_Accept
  imports Tesla_DFA_Correct
begin

text \<open>
  Accepting states.  The parser makes an accepting state only for the event that ends the
  automaton's bounds, and no epsilon transition leads to it.  The flags that the builder of the
  deterministic automaton collects therefore miss no accepting state: a set that contains one
  becomes an accepting state.  The converse does not hold (\<open>final_flag_leaks\<close>).
\<close>

subsection \<open>Automata without accepting states\<close>

definition no_accept :: "graph \<Rightarrow> bool" where
  "no_accept g \<longleftrightarrow> (\<forall>s < length (g_states g). \<not> q_accept (g_states g ! s))"

lemma new_edge_na: "new_edge l src dst x y z g = Inr g' \<Longrightarrow> no_accept g \<Longrightarrow> no_accept g'"
  by (simp add: no_accept_def new_edge_frame)

lemma Create_null_na: "Create_null src dst g = Inr g' \<Longrightarrow> no_accept g \<Longrightarrow> no_accept g'"
  by (auto simp: Create_null_def intro: new_edge_na)

lemma Copy_na: "Copy src dst e z g = Inr g' \<Longrightarrow> no_accept g \<Longrightarrow> no_accept g'"
  by (auto simp: Copy_def Let_def E_eq_Inr split: trans_label.splits intro: new_edge_na)

lemma new_state_na: "new_state g = (g', s) \<Longrightarrow> no_accept g \<Longrightarrow> no_accept g'"
  by (auto simp: no_accept_def new_state_def build_state_def nth_append less_Suc_eq)

lemma chain_state_na: "chain_state m s g = (s', m', g') \<Longrightarrow> no_accept g \<Longrightarrow> no_accept g'"
  by (auto simp: chain_state_def split: option.splits prod.splits intro: new_state_na)

lemma chain_loop_na: "chain_loop ts m clone g = Inr (c, g') \<Longrightarrow> no_accept g \<Longrightarrow> no_accept g'"
proof (induction ts arbitrary: m clone g)
  case (Cons t ts)
  from Cons.prems(1) obtain src m1 g1 dst m2 g2 g3 cl3 where
    st: "chain_state m (e_from (g_edges g ! t)) g = (src, m1, g1)"
    "chain_state m1 (e_to (g_edges g ! t)) g1 = (dst, m2, g2)"
    "(if e_label (g_edges g ! t) = Null_t then Create_null src dst g2
      else Copy src dst (g_edges g ! t) False g2) = Inr g3"
    "chain_loop ts m2 cl3 g3 = Inr (c, g')"
    by (simp add: Let_def E_eq_Inr prod_case_eq) blast
  have "no_accept g2" using chain_state_na [OF st(2)] chain_state_na [OF st(1)] Cons.prems(2) by blast
  with st(3) have "no_accept g3" by (auto split: if_splits intro: Create_null_na Copy_na)
  with Cons.IH [OF st(4)] show ?case .
qed simp

lemma grid_row_na: "grid_row lr t1 final ts upper g = Inr (row, g') \<Longrightarrow> no_accept g \<Longrightarrow> no_accept g'"
proof (induction ts arbitrary: upper g row)
  case (Cons t2 ts)
  from Cons.prems(1) obtain src upper' dst g1 g2 row2 where
    st: "Copy src dst t1 False g = Inr g1"
    "(if lr \<or> ts = [] then Create_null dst final g1 else Inr g1) = Inr g2"
    "grid_row lr t1 final ts upper' g2 = Inr (row2, g')"
    by (cases upper) (auto simp: Let_def E_eq_Inr prod_case_eq)
  have "no_accept g1" by (rule Copy_na [OF st(1) Cons.prems(2)])
  with st(2) have "no_accept g2" by (auto split: if_splits intro: Create_null_na)
  with Cons.IH [OF st(3)] show ?case .
qed simp

lemma grid_rows_na: "grid_rows lhs rhs rs final upper g = Inr g' \<Longrightarrow> no_accept g \<Longrightarrow> no_accept g'"
proof (induction lhs arbitrary: upper g)
  case (Cons t lhs)
  from Cons.prems(1) obtain copy g1 row g2 where
    st: "chain_loop rhs [(rs, e_to (g_edges g ! t))] [] g = Inr (copy, g1)"
    "grid_row (lhs = []) (g_edges g ! t) final copy upper g1 = Inr (row, g2)"
    "grid_rows lhs rhs rs final row g2 = Inr g'"
    by (auto simp: Let_def E_eq_Inr CreateTransitionChainCopy_def)
  from Cons.IH [OF st(3) grid_row_na [OF st(2) chain_loop_na [OF st(1) Cons.prems(2)]]] show ?case .
qed simp

lemma ConvertIncOr_na: "ConvertIncOrToExcOr x ls rs lf rf final g = Inr g' \<Longrightarrow> no_accept g \<Longrightarrow> no_accept g'"
  by (auto simp: ConvertIncOrToExcOr_def E_eq_Inr split: if_splits intro: grid_rows_na)

lemma leaf_na:
  assumes "new_state g = (g1, f)" and "new_edge l s f x y z g1 = Inr g2" and "no_accept g"
  shows "no_accept g2"
  using assms new_edge_na new_state_na by blast

lemma parse_seq_na:
  assumes "\<And>e s g g' s'. e \<in> set es \<Longrightarrow> parse d env e s False False g = Inr (g', s') \<Longrightarrow> no_accept g \<Longrightarrow> no_accept g'"
  shows "parse_seq d env es s g = Inr (g', s') \<Longrightarrow> no_accept g \<Longrightarrow> no_accept g'"
  using assms
proof (induction es arbitrary: s g)
  case (Cons e es)
  from Cons.prems(1) obtain g1 s1 where st: "parse d env e s False False g = Inr (g1, s1)"
    "parse_seq d env es s1 g1 = Inr (g', s')" by (auto simp: parse_simps E_eq_Inr)
  have "no_accept g1" by (rule Cons.prems(3) [OF _ st(1) Cons.prems(2)]) simp
  from Cons.IH [OF st(2) this] Cons.prems(3) show ?case by (meson list.set_intros(2))
qed (simp add: parse_simps)

lemma parse_reps_na:
  assumes "\<And>s g g' s'. parse_seq d env es s g = Inr (g', s') \<Longrightarrow> no_accept g \<Longrightarrow> no_accept g'"
  shows "parse_reps d env es mn mx is s f g = Inr (g', s') \<Longrightarrow> no_accept g \<Longrightarrow> no_accept g'"
proof (induction "is" arbitrary: s g)
  case (Cons i "is")
  from Cons.prems(1) obtain g1 g2 s2 g3 where
    st: "(if mn \<le> int i then Create_null s f g else Inr g) = Inr g1" "parse_seq d env es s g1 = Inr (g2, s2)"
    "(if getD 1 mx = INFINITE_REPETITIONS \<or> max_reps mx < int i then Create_null s2 s g2 else Inr g2) = Inr g3"
    "parse_reps d env es mn mx is s2 f g3 = Inr (g', s')"
    by (auto simp: parse_simps E_eq_Inr split: prod.splits)
  have "no_accept g1" using st(1) Cons.prems(2) by (auto split: if_splits intro: Create_null_na)
  from assms [OF st(2) this] have "no_accept g3" using st(3) by (auto split: if_splits intro: Create_null_na)
  with Cons.IH [OF st(4)] show ?case .
qed (simp add: parse_simps)

lemma parse_na: "parse d env e s i False g = Inr (g', s') \<Longrightarrow> no_accept g \<Longrightarrow> no_accept g'"
proof (induction d e arbitrary: s i g g' s' rule: parse_induct)
  case (1 d operation es)
  from 1(2) obtain l r where es: "es = [l, r]"
    by (auto simp: parse_simps E_eq_Inr split: list.splits)
  with 1(2) obtain g1 ls g2 rs g3 lf g4 rf g5 g6 g7 join g8 g9 where
    st: "new_state g = (g1, ls)" "new_state g1 = (g2, rs)" "parse d env l ls False False g2 = Inr (g3, lf)"
    "parse d env r rs False False g3 = Inr (g4, rf)" "Create_null s ls g4 = Inr g5"
    "Create_null s rs g5 = Inr g6" "new_state g6 = (g7, join)" "Create_null lf join g7 = Inr g8"
    "Create_null rf join g8 = Inr g9" and
    x9: "(case operation of BE_Xor \<Rightarrow> Inr (g9, join)
      | BE_Or \<Rightarrow> bindE (ConvertIncOrToExcOr (pe_xor_only env) ls rs lf rf join g9) (\<lambda>g10. Inr (g10, join))
      | BE_And \<Rightarrow> Inr (g9, join)) = Inr (g', s')"
    by (simp add: parse_simps E_eq_Inr Let_def prod_case_eq) blast
  have sub: "no_accept h'" if "e \<in> set es" "parse d env e q False False h = Inr (h', q')" "no_accept h" for e q q' h h'
    using 1(1) that by blast
  have "no_accept g4"
    by (rule sub [OF _ st(4)], simp add: es, rule sub [OF _ st(3)], simp add: es)
      (use 1(3) new_state_na [OF st(1)] new_state_na [OF st(2)] in blast)
  then have "no_accept g9"
    using Create_null_na [OF st(5)] Create_null_na [OF st(6)] new_state_na [OF st(7)]
      Create_null_na [OF st(8)] Create_null_na [OF st(9)] by blast
  with x9 show ?case by (auto simp: E_eq_Inr split: bool_op.splits dest: ConvertIncOr_na)
next
  case (2 d es mn mx)
  from 2(2) obtain g1 f g2 s2 where st: "new_state g = (g1, f)"
    "parse_reps d env es (getD 1 mn) mx [0..<nat (max (getD 1 mn) (max_reps mx))] s f g1 = Inr (g2, s2)"
    "Create_null s2 f g2 = Inr g'"
    by (auto simp: parse_simps E_eq_Inr Let_def split: prod.splits)
  have "no_accept g2"
    by (rule parse_reps_na [OF parse_seq_na st(2)]) (use 2(1,3) new_state_na [OF st(1)] in auto)
  with Create_null_na [OF st(3)] show ?case .
next
  case (7 d j)
  then show ?case
    by (cases d) (auto simp: parse_simps E_eq_Inr CreateSubAutomaton_def split: if_splits option.splits prod.splits
        dest: leaf_na)
qed (auto simp: parse_simps E_eq_Inr Create_assert_def Create_fn_def Create_field_def new_state_def [symmetric]
      split: prod.splits dest: leaf_na)

subsection \<open>Where the accepting states are\<close>

text \<open>No epsilon transition leads to an accepting state.\<close>

definition hard_accept :: "graph \<Rightarrow> bool" where
  "hard_accept g \<longleftrightarrow> (\<forall>e \<in> set (g_edges g). e_label e = Null_t \<longrightarrow> \<not> q_accept (g_states g ! e_to e))"

lemma no_accept_hard: "wf_graph g \<Longrightarrow> no_accept g \<Longrightarrow> hard_accept g"
  by (auto simp: wf_graph_def wf_edge_def no_accept_def hard_accept_def)

lemma new_edge_hard:
  "new_edge l src dst x y z g = Inr g' \<Longrightarrow> l \<noteq> Null_t \<Longrightarrow> hard_accept g \<Longrightarrow> hard_accept g'"
  by (simp add: hard_accept_def new_edge_frame)

lemma Copy_hard: "Copy src dst e z g = Inr g' \<Longrightarrow> hard_accept g \<Longrightarrow> hard_accept g'"
  by (auto simp: Copy_def Let_def E_eq_Inr split: trans_label.splits intro: new_edge_hard)

lemma build_state_hard:
  assumes "wf_graph g" and "build_state nm st ac rc g = (g', s)" and "hard_accept g"
  shows "hard_accept g'"
  using assms build_state_simps [OF assms(2)] by (auto simp: hard_accept_def wf_graph_def wf_edge_def)

lemma leaf_hard:
  assumes "wf_graph g" and "build_state nm st ac rc g = (g1, f)" and "new_edge l s f x y z g1 = Inr g2"
    and "l \<noteq> Null_t" and "hard_accept g"
  shows "hard_accept g2"
  using assms build_state_hard new_edge_hard by blast

lemma parse_cleanup_hard:
  assumes "wf_graph g" and "hard_accept g" and "parse d env e s i True g = Inr (g', s')"
  shows "hard_accept g'"
  using assms
  by (cases e) (auto simp: parse_simps E_eq_Inr no_bound_def Create_assert_def Create_fn_def Create_field_def
      split: prod.splits if_splits dest: leaf_hard)

text \<open>The event that ends the bounds makes the only accepting state.\<close>

lemma leaf_accept:
  assumes "build_state nm st True rc g = (g1, f)" and "new_edge l s f x y z g1 = Inr g2" and "no_accept g" and "valid t g2"
  shows "q_accept (g_states g2 ! t) \<longleftrightarrow> t = f"
  using assms(3,4) build_state_simps [OF assms(1)] new_edge_frame [OF assms(2)]
  by (cases "t < length (g_states g)") (auto simp: no_accept_def less_Suc_eq)

lemma cleanup_accept:
  assumes "parse d env e s i True g = Inr (g', f)" and "no_accept g" and "valid t g'"
  shows "q_accept (g_states g' ! t) \<longleftrightarrow> t = f"
  using assms
  by (cases e) (auto simp: parse_simps E_eq_Inr no_bound_def Create_assert_def Create_fn_def Create_field_def
      split: prod.splits if_splits dest: leaf_accept)

lemma add_out_of_scope_hard:
  "add_out_of_scope start final ts g = Inr g' \<Longrightarrow> hard_accept g \<Longrightarrow> hard_accept g'"
  by (induction ts arbitrary: g) (auto simp: E_eq_Inr split: trans_label.splits dest: Copy_hard)

lemma parse_graph_hard:
  assumes "parse_graph d env use = Inr g"
  shows "hard_accept g"
proof -
  obtain g0 s0 where b: "build_state [] True False (Some (length (ad_argument (pe_automaton env)))) empty_graph = (g0, s0)"
    by (cases "build_state [] True False (Some (length (ad_argument (pe_automaton env)))) empty_graph")
  note x0 = build_ext [OF wf_empty_graph b]
  from assms obtain g1 s1 g2 s2 g3 s3 where
    st: "parse_bound d env (Option.bind use us_beginning) s0 True False g0 = Inr (g1, s1)"
    "parse d env (ad_expression (pe_automaton env)) s1 False False g1 = Inr (g2, s2)"
    "parse_bound d env (Option.bind use us_end) s2 False True g2 = Inr (g3, s3)"
    "add_out_of_scope s1 s3 (out_of_scope [] (g_edges g3)) g3 = Inr g"
    by (auto simp: parse_graph_def b E_eq_Inr)
  have 1: "parsed g0 (g1, s1)" by (rule retsD [OF parse_bound_ext st(1)]) (use x0 in \<open>simp_all add: extends_def\<close>)
  have 2: "parsed g1 (g2, s2)"
    by (rule retsD [OF parse_ext st(2)]) (use 1 in \<open>simp_all add: parsed_def extends_def\<close>)
  have "no_accept g0" using b by (auto simp: build_state_def no_accept_def empty_graph_def)
  then have "no_accept g1" using st(1) parse_na by (auto simp: parse_bound_def split: option.splits)
  from parse_na [OF st(2) this] have "hard_accept g2"
    using 2 by (intro no_accept_hard) (simp_all add: parsed_def extends_def)
  then have "hard_accept g3"
    using st(3) parse_cleanup_hard [of g2] 2 by (auto simp: parse_bound_def parsed_def extends_def split: option.splits)
  with add_out_of_scope_hard [OF st(4)] show ?thesis .
qed

subsection \<open>The flags of the builder\<close>

definition flag_ok :: "graph \<Rightarrow> nat list \<times> bool \<times> bool \<Rightarrow> bool" where
  "flag_ok g acc \<longleftrightarrow> (case acc of (N, start, final) \<Rightarrow> \<forall>x \<in> set N. q_accept (g_states g ! x) \<longrightarrow> final)"

definition accepts_ok :: "graph \<Rightarrow> dfa_builder \<Rightarrow> bool" where
  "accepts_ok g d \<longleftrightarrow> (\<forall>x \<in> set (d_todo d). flag_ok g x)
     \<and> (\<forall>(K, i) \<in> set (d_map d). i < length (g_states (d_graph d))
          \<and> (\<forall>x \<in> set K. q_accept (g_states g ! x) \<longrightarrow> q_accept (g_states (d_graph d) ! i)))"

lemma eps_hard:
  assumes "wf_graph g" and "hard_accept g" and "valid s g" and "eps g s s'"
  shows "\<not> q_accept (g_states g ! s')"
  using assms wf_out(1) [OF assms(1) _ assms(3)] by (auto simp: eps_def outs_def hard_accept_def)

lemma cl_accept:
  assumes "wf_graph g" and "hard_accept g" and "valid s g" and "x \<in> cl g s" and "q_accept (g_states g ! x)"
  shows "x = s"
proof (rule ccontr)
  assume "x \<noteq> s"
  with assms(4) obtain u where u: "(eps g)\<^sup>*\<^sup>* s u" "eps g u x" by (auto simp: cl_def elim: rtranclp.cases)
  have "valid u g" using cl_valid [OF assms(1,3)] u(1) by (auto simp: cl_def)
  from eps_hard [OF assms(1,2) this u(2)] assms(5) show False by simp
qed

lemma collectFrontier_flag:
  assumes "wf_graph g" and "hard_accept g" and "valid s g" and "collectFrontier g s acc = Inr acc'" and "flag_ok g acc"
  shows "flag_ok g acc'"
  using assms(4,5) cl_accept [OF assms(1-3)] retsD [OF collect_cl(1)]
  by (auto simp: collectFrontier_def flag_ok_def E_eq_Inr split: prod.splits) blast

lemma absorb_flag:
  assumes "wf_graph g" and "hard_accept g"
  shows "absorb g l ts fin acc = Inr (fin', acc') \<Longrightarrow> edge_ids g ts \<Longrightarrow> flag_ok g acc \<Longrightarrow> flag_ok g acc'"
proof (induction ts arbitrary: fin acc)
  case (Cons t ts)
  have v: "valid (e_to (g_edges g ! t)) g" using wf_edge_at(2) [OF assms(1)] Cons.prems(2) by simp
  show ?case
  proof (cases "EquivalentTo (e_label (g_edges g ! t)) l")
    case True
    with Cons.prems(1) obtain acc1 where st: "collectFrontier g (e_to (g_edges g ! t)) acc = Inr acc1"
      "absorb g l ts (insert t fin) acc1 = Inr (fin', acc')" by (auto simp: E_eq_Inr)
    have "flag_ok g acc1" by (rule collectFrontier_flag [OF assms v st(1) Cons.prems(3)])
    with Cons.IH [OF st(2)] Cons.prems(2) show ?thesis by simp
  qed (use Cons in auto)
qed simp

lemma stateFor_accepts:
  assumes "stateForNFAStates ns a b d = (s, d')" and "accepts_ok g d" and "flag_ok g (ns, a, b)"
  shows "accepts_ok g d'"
proof (cases "map_of (d_map d) ns")
  case None
  then obtain D' where bs: "build_state (state_set_name ns) a b (if a then Some (d_refcount d) else None) (d_graph d) = (D', s)"
    and d': "d' = d\<lparr>d_map := (ns, s) # d_map d, d_todo := (ns, a, b) # d_todo d, d_graph := D'\<rparr>"
    using assms(1) by (auto simp: stateForNFAStates_def split: prod.splits)
  note b = build_state_simps [OF bs]
  show ?thesis using assms(2,3) b by (auto simp: accepts_ok_def d' flag_ok_def)
qed (use assms in \<open>simp add: stateForNFAStates_def\<close>)

lemma Copy_accepts:
  assumes "Copy i dst e False (d_graph d) = Inr D'" and "accepts_ok g d"
  shows "accepts_ok g (d\<lparr>d_graph := D'\<rparr>)"
proof -
  have "length (g_states D') = length (g_states (d_graph d))
      \<and> (\<forall>s. q_accept (g_states D' ! s) = q_accept (g_states (d_graph d) ! s))"
    using assms(1) new_edge_frame
    by (auto simp: Copy_def Let_def E_eq_Inr split: trans_label.splits)
  with assms(2) show ?thesis by (simp add: accepts_ok_def)
qed

lemma trans_loop_accepts:
  assumes g: "wf_graph g" "hard_accept g" and later: "edge_ids g (all_outs g later)"
  shows "trans_loop g i later ts fin a b d = Inr (fin', d') \<Longrightarrow> edge_ids g ts \<Longrightarrow> accepts_ok g d \<Longrightarrow> accepts_ok g d'"
proof (induction ts arbitrary: fin a b d)
  case (Cons t ts)
  from Cons.prems(1) show ?case
  proof (cases rule: trans_loop_Cons)
    case skip
    from Cons.IH [OF skip(2)] Cons.prems show ?thesis by simp
  next
    case (new acc fin1 acc1 fin2 dest a' b' dst d1 g1)
    have "valid (e_to (g_edges g ! t)) g" using wf_edge_at(2) [OF g(1)] Cons.prems(2) by simp
    from collectFrontier_flag [OF g this new(3)] have "flag_ok g acc" by (simp add: flag_ok_def)
    from absorb_flag [OF g new(4) _ this] have "flag_ok g acc1" using Cons.prems(2) by simp
    from absorb_flag [OF g new(5) _ this] have "flag_ok g (dest, a', b')" using later by (simp add: all_outs_def)
    from Copy_accepts [OF new(7) stateFor_accepts [OF new(6) Cons.prems(3) this]]
    show ?thesis using Cons.IH [OF new(8)] Cons.prems(2) by simp
  qed
qed simp

lemma state_loop_accepts:
  assumes g: "wf_graph g" "hard_accept g"
  shows "state_loop g i qs fin d = Inr d' \<Longrightarrow> edge_ids g (all_outs g qs) \<Longrightarrow> accepts_ok g d \<Longrightarrow> accepts_ok g d'"
proof (induction qs arbitrary: fin d)
  case (Cons q qs)
  from Cons.prems(1) obtain fin1 d1 where
    t: "trans_loop g i qs (outs g q) fin False False d = Inr (fin1, d1)" and
    l: "state_loop g i qs fin1 d1 = Inr d'" by (auto simp: E_eq_Inr)
  have "accepts_ok g d1" by (rule trans_loop_accepts [OF g _ t]) (use Cons.prems in auto)
  with Cons.IH [OF l] Cons.prems(2) show ?case by simp
qed simp

lemma build_step_accepts:
  assumes g: "wf_graph g" "hard_accept g" and inv: "dinv g K0 {} d"
    and "build_step g d = Inr d'" and "accepts_ok g d"
  shows "accepts_ok g d'"
proof (cases "d_todo d")
  case Nil
  with assms show ?thesis by (simp add: build_step_def)
next
  case (Cons x todo)
  then obtain K a b where t: "d_todo d = (K, a, b) # todo" by (cases x) auto
  from build_step_pop [OF inv t] obtain i where i: "(K, i) \<in> set (d_map d)"
    "stateForNFAStates K a b (d\<lparr>d_todo := todo\<rparr>) = (i, d\<lparr>d_todo := todo\<rparr>)" by blast
  have ids: "edge_ids g (all_outs g K)" by (rule all_outs_ids(1) [OF g(1) dinv_sets [OF inv i(1)]])
  have ok: "accepts_ok g (d\<lparr>d_todo := todo, d_done := x\<rparr>)" "accepts_ok g (d\<lparr>d_todo := todo\<rparr>)" for x
    using assms(5) by (simp_all add: accepts_ok_def t)
  show ?thesis
    using assms(4) state_loop_accepts [OF g _ ids ok(1)] ok(2) i(2)
    by (auto simp: build_step_def t split: if_splits)
qed

lemma build_loop_accepts:
  "build_loop g d = Inr d' \<Longrightarrow> wf_graph g \<Longrightarrow> hard_accept g \<Longrightarrow> dinv g K0 {} d \<Longrightarrow> accepts_ok g d \<Longrightarrow> accepts_ok g d'"
proof (induction g d rule: build_loop.induct)
  case (1 g d)
  show ?case
  proof (cases "d_todo d = []")
    case True
    with 1 show ?thesis by (simp add: build_loop.simps)
  next
    case False
    with 1(2) obtain d1 where d1: "build_step g d = Inr d1" "build_loop g d1 = Inr d'"
      by (auto simp: build_loop.simps [of g d] E_eq_Inr)
    show ?thesis
      by (rule 1(1) [OF False d1 1(3,4) build_step_inv [OF 1(5) d1(1)] build_step_accepts [OF 1(3-5) d1(1) 1(6)]])
  qed
qed

lemma dfa_graph_accepts:
  assumes g: "wf_graph g" "hard_accept g" "valid 0 g" and d: "dfa_graph g = Inr d"
  shows "accepts_ok g d"
proof -
  from d obtain d0 K0 a b s where d0: "dfa_start g = Inr d0" and l: "build_loop g d0 = Inr d"
    and f: "collectFrontier g 0 ([], False, False) = Inr (K0, a, b)"
    and st: "stateForNFAStates K0 a b (initial_builder g) = (s, d0)"
    using dfa_startE [of g] by (auto simp: dfa_graph_def E_eq_Inr) metis
  have "accepts_ok g (initial_builder g)" by (simp add: accepts_ok_def)
  moreover have "flag_ok g (K0, a, b)" by (rule collectFrontier_flag [OF g f]) (simp add: flag_ok_def)
  ultimately have "accepts_ok g d0" by (rule stateFor_accepts [OF st])
  with build_loop_accepts [OF l g(1,2)] dfa_start_inv [OF d0] show ?thesis by blast
qed

text \<open>No acceptance is missed.\<close>

lemma dfa_graph_complete:
  assumes "wf_graph g" "hard_accept g" "valid 0 g" and "dfa_graph g = Inr d"
    and "nfa_path g 0 w s" and "q_accept (g_states g ! s)"
  shows "\<exists>k. dfa_run (d_graph d) 0 w = Some k \<and> q_accept (g_states (d_graph d) ! k)"
proof -
  from dfa_graph_simulates [OF assms(4), of w] assms(5) obtain k L where
    k: "dfa_run (d_graph d) 0 w = Some k" "(L, k) \<in> set (d_map d)" "set L = {s. nfa_path g 0 w s}"
    by (auto split: option.splits)
  with dfa_graph_accepts [OF assms(1-4)] assms(5,6) show ?thesis by (auto simp: accepts_ok_def)
qed

end
