(* ===== verification/Tesla_Compiler.thy ===== *)
theory Tesla_Compiler
  imports Tesla_DFA_Total Tesla_Accept
begin

text \<open>
  The automata compiler as a whole: properties of what \<open>NFA::Parse\<close>, \<open>NFA::Link\<close> and
  \<open>DFA::Convert\<close> return.
\<close>

lemma parse_nfa_graph:
  assumes "parse_nfa depth env use i = Inr n"
  shows "parse_graph depth env use = Inr (au_graph n)" and "GroupClasses (g_edges (au_graph n)) = Inr (au_classes n)"
    and "au_assertion n = pe_automaton env" and "au_use n = use" and "au_id n = i"
    and "\<And>u. use = Some u \<Longrightarrow> ad_identifier (pe_automaton env) = us_identifier u"
  using assms by (auto simp: parse_nfa_def new_automaton_def E_eq_Inr)

lemma ConstructDFA_graph:
  assumes "ConstructDFA n = Inr a"
  obtains d where "dfa_graph (au_graph n) = Inr d" and "au_graph a = d_graph d"
  using assms by (auto simp: ConstructDFA_def new_automaton_def E_eq_Inr)

lemma classes_cover:
  assumes "GroupClasses es = Inr cs"
  shows "grouped es cs" and "mset (concat cs) = mset [0..<length es]" and "\<And>c t. c \<in> set cs \<Longrightarrow> t \<in> set c \<Longrightarrow> t < length es"
proof -
  show "grouped es cs" and m: "mset (concat cs) = mset [0..<length es]"
    using assms GroupClasses_ok [of es] by auto
  from arg_cong [OF m, of set_mset] have "set (concat cs) = {0..<length es}" by simp
  then show "\<And>c t. c \<in> set cs \<Longrightarrow> t \<in> set c \<Longrightarrow> t < length es" by auto
qed

lemma realisable_esym: "label_realisable (esym l) \<longleftrightarrow> label_realisable l"
  by (cases l) (simp_all add: esym_def)

text \<open>The transitions of the deterministic automaton are copies of realisable ones.\<close>

lemma dfa_edges_realisable:
  assumes g: "buildable g" and d: "dfa_graph g = Inr d" and t: "t < length (g_edges (d_graph d))"
  shows "label_realisable (e_label (g_edges (d_graph d) ! t))"
proof -
  obtain K0 where inv: "dinv g K0 {} d"
    and cov: "\<And>K i. (K, i) \<in> set (d_map d) \<Longrightarrow> covers g d (all_outs g K) (all_outs g K) i"
    using dfa_graph_inv [OF d] by metis
  let ?D = "d_graph d" and ?s = "e_from (g_edges (d_graph d) ! t)"
  have wf: "wf_graph ?D" using inv by (simp add: dinv_def)
  have v: "valid ?s ?D" by (rule wf_edge_at(1) [OF wf t])
  have "t \<in> set (outs ?D ?s)" using wf v t by (simp add: outs_def wf_graph_def owned_def)
  then have o: "sym_at (g_edges ?D) t \<in> fst ` set (dout ?D ?s)" by (force simp: dout_def)
  have "?s \<in> snd ` set (d_map d)" using v by (simp add: dinv_states [OF inv])
  then obtain K where K: "(K, ?s) \<in> set (d_map d)" by auto
  from cov [OF K] o have "sym_at (g_edges ?D) t \<in> syms g (all_outs g K)" by (simp add: covers_def)
  then have ne: "sym_at (g_edges ?D) t \<noteq> Null_t" and "sym_at (g_edges ?D) t \<in> sym_at (g_edges g) ` set (all_outs g K)"
    unfolding syms_def by blast+
  from this(2) obtain u where u: "sym_at (g_edges ?D) t = sym_at (g_edges g) u" "u \<in> set (all_outs g K)" by (rule imageE)
  from ne [unfolded u(1)] have nn: "e_label (g_edges g ! u) \<noteq> Null_t" by simp
  have "u < length (g_edges g)"
    using all_outs_ids(1) [OF buildableD(1) [OF g] dinv_sets [OF inv K]] u(2) by blast
  with buildableD(4) [OF g] nn have "label_realisable (e_label (g_edges g ! u))" by blast
  then show ?thesis using u(1) realisable_esym by metis
qed

lemma ConstructDFA_total:
  assumes g: "buildable (au_graph n)" and u: "\<And>u. au_use n = Some u \<Longrightarrow> ad_identifier (au_assertion n) = us_identifier u"
  shows "\<exists>a. ConstructDFA n = Inr a"
proof -
  from dfa_graph_total [OF g] obtain d where d: "dfa_graph (au_graph n) = Inr d" ..
  from GroupClasses_ok [of "g_edges (d_graph d)"] obtain cs where cs: "GroupClasses (g_edges (d_graph d)) = Inr cs"
    by blast
  have "\<forall>c \<in> set cs. \<forall>t \<in> set c. label_realisable (e_label (g_edges (d_graph d) ! t))"
    using classes_cover(3) [OF cs] dfa_edges_realisable [OF g d] by blast
  then show ?thesis
    using u by (auto simp: ConstructDFA_def d cs new_automaton_def IsRealisable_def au_edge_def split: option.splits)
qed

text \<open>A cycle traps the recursion of \<open>collectFrontier\<close>.\<close>

lemma cycle_traps:
  assumes "\<not> no_cycle g s"
  shows "\<exists>x. collect m g s N = Inl x"
proof -
  from assms obtain c where c: "c \<in> cl g s" "(eps g)\<^sup>+\<^sup>+ c c" by (auto simp: no_cycle_def)
  let ?C = "{x. c \<in> cl g x}"
  have "\<exists>y \<in> ?C. eps g x y" if "c \<in> cl g x" for x
  proof (cases "x = c")
    case True
    with c(2) show ?thesis by (auto simp: cl_def dest: tranclpD)
  next
    case False
    with that show ?thesis by (auto simp: cl_def elim: converse_rtranclpE)
  qed
  then have "\<forall>x \<in> ?C. \<exists>y \<in> ?C. eps g x y" by blast
  from collect_cycle(1) [OF this] c(1) show ?thesis by simp
qed

subsection \<open>Identifiers\<close>

text \<open>An identifier is a name or a location in a file, never both.\<close>

definition proper_identifier :: "ir_identifier \<Rightarrow> bool" where
  "proper_identifier i \<longleftrightarrow> (case id_name i of
     Some _ \<Rightarrow> id_location i = None
   | None \<Rightarrow> (case id_location i of None \<Rightarrow> False | Some l \<Rightarrow> loc_filename l \<noteq> []))"

lemma identifier_incomparable:
  assumes "proper_identifier x" and "proper_identifier y"
  shows "\<not> identifier_less x y \<and> \<not> identifier_less y x \<longleftrightarrow> x = y"
proof (cases "id_name x")
  case nx: None
  then obtain l where l: "id_location x = Some l" "loc_filename l \<noteq> []"
    using assms(1) by (auto simp: proper_identifier_def split: option.splits)
  show ?thesis
  proof (cases "id_name y")
    case None
    then obtain m where "id_location y = Some m" using assms(2) by (auto simp: proper_identifier_def split: option.splits)
    with nx None l have "identifier_less x y = location_less l m" "identifier_less y x = location_less m l"
      and "x = y \<longleftrightarrow> l = m" by (simp_all add: identifier_less_def getD_def) (cases x; cases y; simp)
    then show ?thesis using location_less_total [of l m] location_less_irrefl [of l] by auto
  next
    case (Some b)
    then show ?thesis using nx l by (auto simp: identifier_less_def)
  qed
next
  case (Some a)
  then have x: "id_location x = None" using assms(1) by (simp add: proper_identifier_def)
  show ?thesis
  proof (cases "id_name y")
    case None
    then show ?thesis using Some by (auto simp: identifier_less_def)
  next
    case (Some b)
    moreover from Some have "id_location y = None" using assms(2) by (simp add: proper_identifier_def)
    ultimately have "identifier_less x y = string_less a b" "identifier_less y x = string_less b a"
      and "x = y \<longleftrightarrow> a = b"
      using \<open>id_name x = Some a\<close> x by (auto simp: identifier_less_def intro: ir_identifier.equality)
    then show ?thesis using string_less_total [of a b] by auto
  qed
qed

subsection \<open>An example\<close>

definition ex_event :: "string \<Rightarrow> direction \<Rightarrow> function_event" where
  "ex_event name dir = \<lparr>fe_function = name, fe_direction = Some dir, fe_context = Some Callee, fe_argument = [],
     fe_expected = None, fe_strict = None, fe_kind = None, fe_receiver = None\<rparr>"

definition ex_call :: "string \<Rightarrow> expression" where
  "ex_call name = Function_expr (ex_event name Entry)"

definition ex_site :: ir_location where
  "ex_site = \<lparr>loc_filename = ''f.c'', loc_line = 7, loc_counter = 0\<rparr>"

definition ex_id :: ir_identifier where
  "ex_id = \<lparr>id_name = None, id_location = Some ex_site\<rparr>"

definition ex_description :: "expression \<Rightarrow> automaton_description" where
  "ex_description e = \<lparr>ad_identifier = ex_id, ad_context = Thread_context, ad_expression = e, ad_argument = [],
     ad_source = None\<rparr>"

definition ex_usage :: usage where
  "ex_usage = \<lparr>us_identifier = ex_id, us_beginning = Some (Function_expr (ex_event ''main'' Entry)),
     us_end = Some (Function_expr (ex_event ''main'' Exit))\<rparr>"

text \<open>Within a call of \<open>main\<close>: either \<open>a\<close> or \<open>b\<close>, then the assertion site.\<close>

definition ex_assertion :: expression where
  "ex_assertion = Sequence_expr [Boolean_expr BE_Xor [ex_call ''a'', ex_call ''b''], Assertion_site ex_site] None None"

definition ex_nfa :: "automaton res" where
  "ex_nfa = NFA_Parse True (ex_description ex_assertion) (Some ex_usage) 0"

definition returned :: "'a res \<Rightarrow> bool" where
  "returned r = (case r of Inl _ \<Rightarrow> False | Inr _ \<Rightarrow> True)"

lemma returned_iff: "returned r \<longleftrightarrow> (\<exists>x. r = Inr x)"
  by (cases r) (simp_all add: returned_def)

lemma ex_nfa_returned: "returned (bindE ex_nfa ConstructDFA)"
  by code_simp

lemma ex_automata: "\<exists>n a. ex_nfa = Inr n \<and> ConstructDFA n = Inr a"
  using ex_nfa_returned by (auto simp: returned_iff E_eq_Inr)

text \<open>Epsilon transitions, executably.\<close>

definition eps_list :: "graph \<Rightarrow> nat \<Rightarrow> nat list" where
  "eps_list g s = map (\<lambda>t. e_to (g_edges g ! t)) (filter (\<lambda>t. e_label (g_edges g ! t) = Null_t) (outs g s))"

lemma eps_list: "s' \<in> set (eps_list g s) \<longleftrightarrow> eps g s s'"
  by (auto simp: eps_list_def eps_def)

text \<open>A path, given by its transitions.\<close>

fun follow :: "graph \<Rightarrow> nat \<Rightarrow> nat list \<Rightarrow> (trans_label list \<times> nat) option" where
  "follow g s [] = Some ([], s)"
| "follow g s (t # ts) =
     (if t \<in> set (outs g s) then
        case follow g (e_to (g_edges g ! t)) ts of
          None \<Rightarrow> None
        | Some (w, s') \<Rightarrow> Some (if e_label (g_edges g ! t) = Null_t then w else e_label (g_edges g ! t) # w, s')
      else None)"

lemma follow_path: "follow g s ts = Some (w, s') \<Longrightarrow> nfa_path g s w s'"
proof (induction ts arbitrary: s w)
  case (Cons t ts)
  let ?e = "g_edges g ! t"
  from Cons.prems obtain v where t: "t \<in> set (outs g s)" and v: "follow g (e_to ?e) ts = Some (v, s')"
    and w: "w = (if e_label ?e = Null_t then v else e_label ?e # v)" by (auto split: if_splits option.splits)
  from Cons.IH [OF v] t show ?case
    by (simp add: w EquivalentTo_iff nfa_path.silent nfa_path.letter)
qed (simp add: nfa_path.stop)

text \<open>Epsilon transitions that lead downhill have no cycle.\<close>

lemma downhill_no_cycle:
  fixes f :: "nat \<Rightarrow> nat"
  assumes "wf_graph g" and "\<forall>e \<in> set (g_edges g). e_label e = Null_t \<longrightarrow> f (e_to e) < f (e_from e)" and "valid s g"
  shows "no_cycle g s"
proof -
  have step: "f y < f x" if "valid x g" "eps g x y" for x y
    using that wf_out [OF assms(1) _ that(1)] assms(2) by (auto simp: eps_def outs_def)
  have "f y < f x \<and> valid y g" if "(eps g)\<^sup>+\<^sup>+ x y" "valid x g" for x y
    using that by (induction rule: tranclp_induct) (auto dest: step eps_valid [OF assms(1), rotated] intro: less_trans)
  then show ?thesis using cl_valid [OF assms(1,3)] by (fastforce simp: no_cycle_def)
qed

definition ex_env :: parser_env where
  "ex_env = \<lparr>pe_automaton = ex_description ex_assertion, pe_descriptions = None, pe_sub_allowed = True, pe_xor_only = True\<rparr>"

lemma ex_nfa_parse: "ex_nfa = parse_nfa 0 ex_env (Some ex_usage) 0"
  by (simp add: ex_nfa_def NFA_Parse_def ex_env_def)

text \<open>What the example looks like: ten states, epsilon transitions that lead downhill, and a path from
  the start to the accepting state.\<close>

lemma ex_nfa_shape: "case ex_nfa of Inl _ \<Rightarrow> False | Inr n \<Rightarrow>
  length (g_states (au_graph n)) = 10 \<and> q_accept (g_states (au_graph n) ! 9)
  \<and> map_option snd (follow (au_graph n) 0 [0, 3, 1, 5, 7, 8, 9]) = Some 9
  \<and> list_all (\<lambda>e. e_label e = Null_t \<longrightarrow> (if e_to e = 2 then 0 else 20 - e_to e) < (if e_from e = 2 then 0 else 20 - e_from e))
      (g_edges (au_graph n))
  \<and> list_all (\<lambda>e. e_label e = Null_t \<or> label_realisable (e_label e)) (g_edges (au_graph n))"
  by code_simp

lemma ex_nfa_facts:
  obtains n a w where "ex_nfa = Inr n" and "parse_nfa 0 ex_env (Some ex_usage) 0 = Inr n" and "ConstructDFA n = Inr a"
    and "length (g_states (au_graph n)) = 10" and "q_accept (g_states (au_graph n) ! 9)" and "nfa_path (au_graph n) 0 w 9"
    and "wf_graph (au_graph n)" and "\<forall>s < length (g_states (au_graph n)). no_cycle (au_graph n) s"
    and "\<forall>e \<in> set (g_edges (au_graph n)). e_label e = Null_t \<or> label_realisable (e_label e)"
proof -
  obtain n a where na: "ex_nfa = Inr n" "ConstructDFA n = Inr a" using ex_automata by blast
  let ?f = "\<lambda>s. if s = 2 then 0 else 20 - s :: nat"
  have sh: "length (g_states (au_graph n)) = 10" "q_accept (g_states (au_graph n) ! 9)"
    "map_option snd (follow (au_graph n) 0 [0, 3, 1, 5, 7, 8, 9]) = Some 9"
    "\<forall>e \<in> set (g_edges (au_graph n)). e_label e = Null_t \<longrightarrow> ?f (e_to e) < ?f (e_from e)"
    "\<forall>e \<in> set (g_edges (au_graph n)). e_label e = Null_t \<or> label_realisable (e_label e)"
    using ex_nfa_shape unfolding na(1) sum.case list_all_iff by blast+
  have p: "parse_nfa 0 ex_env (Some ex_usage) 0 = Inr n" using na(1) by (simp add: ex_nfa_parse)
  have wf: "wf_graph (au_graph n)" by (rule parse_graph_wf(1) [OF parse_nfa_graph(1) [OF p]])
  obtain w where "nfa_path (au_graph n) 0 w 9" using sh(3) follow_path by fastforce
  then show thesis
    using that [OF na(1) p na(2) sh(1,2) _ wf _ sh(5)] downhill_no_cycle [OF wf sh(4)] by blast
qed

text \<open>At least one optional call of \<open>a\<close>: \<open>ATLEAST(1, optional(call(a)))\<close>.\<close>

definition ex_nested :: expression where
  "ex_nested = Sequence_expr [Boolean_expr BE_Xor [Null_expr, ex_call ''a'']] (Some 1) (Some INFINITE_REPETITIONS)"

definition ex_nested_nfa :: "automaton res" where
  "ex_nested_nfa = NFA_Parse True (ex_description ex_nested) (Some ex_usage) 0"

text \<open>Events that may also happen outside of the automaton, one of which also ends its scope.\<close>

definition ex_free_call :: "string \<Rightarrow> expression" where
  "ex_free_call name = Function_expr ((ex_event name Entry)\<lparr>fe_strict := Some False\<rparr>)"

definition ex_leak :: expression where
  "ex_leak = Boolean_expr BE_Xor [Boolean_expr BE_Xor [ex_free_call ''x'', ex_free_call ''p''],
     Sequence_expr [ex_free_call ''p'', ex_free_call ''y''] None None]"

definition ex_leak_nfa :: "automaton res" where
  "ex_leak_nfa = NFA_Parse True (ex_description ex_leak) (Some (ex_usage\<lparr>us_end := Some (ex_free_call ''x'')\<rparr>)) 0"

definition free_label :: "string \<Rightarrow> trans_label" where
  "free_label name = Fn_t ((ex_event name Entry)\<lparr>fe_strict := Some False\<rparr>)"

subsection \<open>Properties of the compiler\<close>

text \<open>C32.  The automaton that \<open>DFA::Convert\<close> returns is deterministic: no two transitions that leave a
  state are equivalent.  It can read exactly the sequences of events that the original automaton
  can read, and the state it is in afterwards stands for the set of all the states that the
  original automaton may be in.\<close>

theorem dfa_follows_nfa:
  assumes "ConstructDFA n = Inr a"
  shows "deterministic (au_graph a)
    \<and> (\<forall>w. (\<exists>k. dfa_run (au_graph a) 0 w = Some k) \<longleftrightarrow> (\<exists>s. nfa_path (au_graph n) 0 w s))
    \<and> (\<exists>states_of. \<forall>w k. dfa_run (au_graph a) 0 w = Some k \<longrightarrow> states_of k = {s. nfa_path (au_graph n) 0 w s})"
proof -
  obtain d where d: "dfa_graph (au_graph n) = Inr d" and a: "au_graph a = d_graph d"
    using ConstructDFA_graph [OF assms] by blast
  note sim = dfa_graph_simulates [OF d]
  obtain K0 where inv: "dinv (au_graph n) K0 {} d" using dfa_graph_inv [OF d] by metis
  have "set (THE L. (L, k) \<in> set (d_map d)) = {s. nfa_path (au_graph n) 0 w s}"
    if "dfa_run (d_graph d) 0 w = Some k" for w k
  proof -
    from sim [of w] that obtain L where L: "(L, k) \<in> set (d_map d)" "set L = {s. nfa_path (au_graph n) 0 w s}" by auto
    have "(THE L. (L, k) \<in> set (d_map d)) = L"
      by (rule the_equality) (use L(1) dinv_key [OF inv] in blast)+
    with L(2) show ?thesis by simp
  qed
  then have "\<exists>f. \<forall>w k. dfa_run (d_graph d) 0 w = Some k \<longrightarrow> f k = {s. nfa_path (au_graph n) 0 w s}"
    by (intro exI [of _ "\<lambda>k. set (THE L. (L, k) \<in> set (d_map d))"]) blast
  moreover have "(\<exists>k. dfa_run (d_graph d) 0 w = Some k) \<longleftrightarrow> (\<exists>s. nfa_path (au_graph n) 0 w s)" for w
    using sim [of w] by (auto split: option.splits)
  ultimately show ?thesis using dfa_graph_deterministic [OF d] by (simp add: a)
qed

theorem dfa_follows_nfa_witness:
  "\<exists>n a. ex_nfa = Inr n \<and> ConstructDFA n = Inr a \<and> deterministic (au_graph a)
     \<and> (\<forall>w. (\<exists>k. dfa_run (au_graph a) 0 w = Some k) \<longleftrightarrow> (\<exists>s. nfa_path (au_graph n) 0 w s))"
  using ex_automata dfa_follows_nfa by blast

text \<open>A sequence of events that can take a parsed automaton to its accepting state takes the
  deterministic automaton to an accepting state: no acceptance is missed.\<close>

theorem dfa_misses_no_accept:
  assumes "parse_nfa depth env use i = Inr n" and "ConstructDFA n = Inr a"
    and "nfa_path (au_graph n) 0 w s" and "q_accept (g_states (au_graph n) ! s)"
  shows "\<exists>k. dfa_run (au_graph a) 0 w = Some k \<and> q_accept (g_states (au_graph a) ! k)"
proof -
  obtain d where d: "dfa_graph (au_graph n) = Inr d" and a: "au_graph a = d_graph d"
    using ConstructDFA_graph [OF assms(2)] by blast
  note g = parse_nfa_graph(1) [OF assms(1)]
  show ?thesis
    unfolding a
    by (rule dfa_graph_complete [OF parse_graph_wf(1) [OF g] parse_graph_hard [OF g] parse_graph_wf(2) [OF g] d assms(3,4)])
qed

theorem dfa_misses_no_accept_witness:
  "\<exists>n a w k. ex_nfa = Inr n \<and> ConstructDFA n = Inr a \<and> nfa_path (au_graph n) 0 w 9
     \<and> dfa_run (au_graph a) 0 w = Some k \<and> q_accept (g_states (au_graph a) ! k)"
proof (rule ex_nfa_facts)
  fix n a w
  assume n: "ex_nfa = Inr n" "parse_nfa 0 ex_env (Some ex_usage) 0 = Inr n" "ConstructDFA n = Inr a"
    "q_accept (g_states (au_graph n) ! 9)" "nfa_path (au_graph n) 0 w 9"
  from dfa_misses_no_accept [OF n(2,3,5,4)] n show ?thesis by blast
qed

text \<open>C33.  \<open>DFA::Convert\<close> returns, without failing an assertion, for every automaton the parser makes
  that has no cycle of epsilon transitions, no sub-automata and no variables.\<close>

theorem convert_total:
  assumes "parse_nfa depth env use i = Inr n" and "ad_argument (pe_automaton env) = []"
    and "\<forall>s < length (g_states (au_graph n)). no_cycle (au_graph n) s"
    and "\<forall>e \<in> set (g_edges (au_graph n)). e_label e = Null_t \<or> label_realisable (e_label e)"
  shows "\<exists>a. ConstructDFA n = Inr a"
proof -
  note p = parse_nfa_graph [OF assms(1)]
  note g = parse_graph_wf [OF p(1)]
  have "buildable (au_graph n)" using g assms(2-4) by (simp add: buildable_def)
  then show ?thesis by (rule ConstructDFA_total) (simp add: p)
qed

theorem convert_total_witness: "\<exists>n a. ex_nfa = Inr n \<and> ConstructDFA n = Inr a"
proof (rule ex_nfa_facts)
  fix n
  assume n: "ex_nfa = Inr n" "parse_nfa 0 ex_env (Some ex_usage) 0 = Inr n"
    "\<forall>s < length (g_states (au_graph n)). no_cycle (au_graph n) s"
    "\<forall>e \<in> set (g_edges (au_graph n)). e_label e = Null_t \<or> label_realisable (e_label e)"
  have "ad_argument (pe_automaton ex_env) = []" by (simp add: ex_env_def ex_description_def)
  from convert_total [OF n(2) this n(3,4)] n(1) show ?thesis by blast
qed

text \<open>\<open>collectFrontier\<close> returns exactly if no cycle of epsilon transitions can be reached from
  the state, and otherwise recurses without bound.\<close>

theorem frontier_returns:
  assumes "wf_graph g" and "s < length (g_states g)"
  shows "(returned (collectFrontier g s acc) \<longleftrightarrow> no_cycle g s)
    \<and> (\<not> no_cycle g s \<longrightarrow> (\<forall>depth N. \<not> returned (collect depth g s N)))"
proof -
  have never: "\<not> returned (collect depth g s N)" if "\<not> no_cycle g s" for depth N
    using cycle_traps [OF that, of depth N] by (auto simp: returned_def)
  moreover have "\<exists>N'. collect (length (g_states g)) g s N = Inr N'" if "no_cycle g s" for N
    using collect_acyclic(1) [OF assms that] card_mono [OF finite_lessThan cl_valid [OF assms]] by simp
  ultimately show ?thesis
    by (cases acc) (auto simp: returned_iff collectFrontier_def E_eq_Inr)
qed

theorem frontier_returns_witness:
  "\<exists>n. ex_nfa = Inr n \<and> (returned (collectFrontier (au_graph n) 1 ([], False, False)) \<longleftrightarrow> no_cycle (au_graph n) 1)"
proof (rule ex_nfa_facts)
  fix n
  assume n: "ex_nfa = Inr n" "length (g_states (au_graph n)) = 10" "wf_graph (au_graph n)"
  from frontier_returns [OF n(3), of 1 "([], False, False)"] n(1,2) show ?thesis by auto
qed

text \<open>C34.  \<open>ATLEAST(1, optional(call(a)))\<close> parses, but converting the automaton never returns: no
  depth of recursion is enough for the states after the start state.\<close>

theorem nested_repetition_hangs:
  "\<exists>n. ex_nested_nfa = Inr n \<and> (\<forall>depth N. \<not> returned (collect depth (au_graph n) 1 N))
     \<and> ConstructDFA n = Inl (Undefined ''recursion'')"
proof -
  have "case ex_nested_nfa of Inl _ \<Rightarrow> False | Inr n \<Rightarrow>
      list_all (\<lambda>c. list_ex (\<lambda>c'. c' \<in> set [1, 3, 6]) (eps_list (au_graph n) c)) [1, 3, 6]
      \<and> (case ConstructDFA n of Inl (Undefined x) \<Rightarrow> x = ''recursion'' | _ \<Rightarrow> False)" by code_simp
  then obtain n where n: "ex_nested_nfa = Inr n"
    and trap: "\<forall>c \<in> {1, 3, 6}. \<exists>c' \<in> {1, 3, 6}. c' \<in> set (eps_list (au_graph n) c)"
    and r: "ConstructDFA n = Inl (Undefined ''recursion'')"
    by (auto simp: list_ex_iff split: sum.splits abort.splits)
  have "\<forall>c \<in> {1, 3, 6}. \<exists>c' \<in> {1, 3, 6}. eps (au_graph n) c c'" using trap unfolding eps_list .
  then have "\<not> returned (collect depth (au_graph n) 1 N)" for depth N
    using collect_cycle(1) [of "{1, 3, 6}" "au_graph n" 1 depth N] by (auto simp: returned_iff)
  with n r show ?thesis by blast
qed

text \<open>C35.  The flags of one transition leak into the next ones: there is an automaton and a sequence of
  events after which the deterministic automaton accepts while the original cannot.\<close>

theorem final_flag_leaks:
  "\<exists>n a w k. ex_leak_nfa = Inr n \<and> ConstructDFA n = Inr a \<and> dfa_run (au_graph a) 0 w = Some k
     \<and> q_accept (g_states (au_graph a) ! k) \<and> \<not> (\<exists>s. nfa_path (au_graph n) 0 w s \<and> q_accept (g_states (au_graph n) ! s))"
proof -
  let ?w = "[Fn_t (ex_event ''main'' Entry), free_label ''p'', free_label ''y'']"
  have "case ex_leak_nfa of Inl _ \<Rightarrow> False | Inr n \<Rightarrow> (case dfa_graph (au_graph n) of Inl _ \<Rightarrow> False | Inr d \<Rightarrow>
      returned (ConstructDFA n) \<and> dfa_run (d_graph d) 0 ?w = Some 5 \<and> q_accept (g_states (d_graph d) ! 5)
      \<and> list_all (\<lambda>(L, k). k = 5 \<longrightarrow> list_all (\<lambda>s. \<not> q_accept (g_states (au_graph n) ! s)) L) (d_map d))"
    by code_simp
  then obtain n d where n: "ex_leak_nfa = Inr n" and d: "dfa_graph (au_graph n) = Inr d"
    and r: "returned (ConstructDFA n)" and run: "dfa_run (d_graph d) 0 ?w = Some 5"
    and acc: "q_accept (g_states (d_graph d) ! 5)"
    and none: "\<forall>(L, k) \<in> set (d_map d). k = 5 \<longrightarrow> (\<forall>s \<in> set L. \<not> q_accept (g_states (au_graph n) ! s))"
    by (auto simp: list_all_iff split: sum.splits)
  from r obtain a where a: "ConstructDFA n = Inr a" by (auto simp: returned_iff)
  have "au_graph a = d_graph d" using ConstructDFA_graph [OF a] d by auto
  moreover have "\<not> q_accept (g_states (au_graph n) ! s)" if "nfa_path (au_graph n) 0 ?w s" for s
    using dfa_graph_simulates [OF d, of ?w] run none that by fastforce
  ultimately show ?thesis using n a run acc by metis
qed

text \<open>C36.  The classes of a parsed automaton, whose positions are the symbols that events are given,
  partition its transitions: every transition is in exactly one class, and two transitions have
  the same symbol exactly if they are equivalent.  Every transition joins two states of the
  automaton and none leads back to the start state.\<close>

theorem nfa_symbols:
  assumes "parse_nfa depth env use i = Inr n"
  shows "wf_graph (au_graph n) \<and> mset (concat (au_classes n)) = mset [0..<length (g_edges (au_graph n))]
    \<and> (\<forall>x < length (au_classes n). \<forall>y < length (au_classes n).
         \<forall>t \<in> set (au_classes n ! x). \<forall>u \<in> set (au_classes n ! y).
           EquivalentTo (e_label (au_edge n t)) (e_label (au_edge n u)) \<longleftrightarrow> x = y)"
proof -
  note p = parse_nfa_graph [OF assms]
  note c = classes_cover [OF p(2)]
  have "EquivalentTo (e_label (au_edge n t)) (e_label (au_edge n u)) \<longleftrightarrow> x = y"
    if "x < length (au_classes n)" "y < length (au_classes n)" "t \<in> set (au_classes n ! x)" "u \<in> set (au_classes n ! y)"
    for x y t u unfolding au_edge_def by (rule grouped_sym [OF c(1) that])
  then show ?thesis using parse_graph_wf(1) [OF p(1)] c(2) by blast
qed

theorem nfa_symbols_witness:
  "\<exists>n. ex_nfa = Inr n \<and> wf_graph (au_graph n) \<and> mset (concat (au_classes n)) = mset [0..<length (g_edges (au_graph n))]"
proof (rule ex_nfa_facts)
  fix n
  assume n: "ex_nfa = Inr n" "parse_nfa 0 ex_env (Some ex_usage) 0 = Inr n"
  from nfa_symbols [OF n(2)] n(1) show ?thesis by blast
qed

text \<open>A sub-automaton is looked up by equality of identifiers: the order of the map, which
  compares names with names and otherwise locations, is such that two identifiers are
  equivalent only if they are equal, provided that each has a name or a location in a named
  file and not both.\<close>

theorem sub_automaton_lookup:
  assumes "proper_identifier i" and "\<forall>(k, d) \<in> set ds. proper_identifier k"
  shows "find_description ds i = map_of ds i"
  using assms(2)
proof (induction ds)
  case (Cons x ds)
  obtain k d where x: "x = (k, d)" by (cases x)
  have "\<not> identifier_less k i \<and> \<not> identifier_less i k \<longleftrightarrow> k = i"
    using identifier_incomparable [of k i] Cons.prems assms(1) by (simp add: x)
  with Cons show ?case by (simp add: find_description_def x)
qed (simp add: find_description_def)

theorem sub_automaton_lookup_witness:
  "find_description [(\<lparr>id_name = Some ''auto'', id_location = None\<rparr>, ex_description ex_assertion)]
     \<lparr>id_name = Some ''auto'', id_location = None\<rparr> = Some (ex_description ex_assertion)"
  by (subst sub_automaton_lookup) (simp_all add: proper_identifier_def)

end
