(* ===== verification/Tesla_Key.thy ===== *)
theory Tesla_Key
  imports Tesla_Types
begin

text \<open>
  Keys (\<open>libtesla/src/tesla_key.h\<close>): the name of an automaton instance, with a mask of the
  parameters that are known.  The operations are the loops of the source over the
  \<open>TESLA_KEY_SIZE\<close> sub-keys; their meaning is given by \<open>key_map\<close>, the partial assignment a key
  stands for: a key matches a pattern when it extends the pattern's assignment, and
  \<open>tesla_key_union\<close> joins two compatible assignments.
\<close>

definition SUBSET :: "u32 \<Rightarrow> u32 \<Rightarrow> bool" where
  "SUBSET x y \<longleftrightarrow> x AND y = x"

definition IS_SET :: "u32 \<Rightarrow> nat \<Rightarrow> bool" where
  "IS_SET m index \<longleftrightarrow> m AND push_bit index 1 \<noteq> 0"

text \<open>The loop of \<open>tesla_key_matches\<close> over the remaining indices.\<close>

fun key_matches_loop :: "tesla_key \<Rightarrow> tesla_key \<Rightarrow> nat list \<Rightarrow> bool" where
  "key_matches_loop pattern k [] = True"
| "key_matches_loop pattern k (i # is) =
     (let m = push_bit i 1 in
      if tk_mask pattern AND m \<noteq> m then key_matches_loop pattern k is
      else if tk_keys pattern ! i \<noteq> tk_keys k ! i then False
      else key_matches_loop pattern k is)"

definition tesla_key_matches :: "tesla_key \<Rightarrow> tesla_key \<Rightarrow> bool" where
  "tesla_key_matches pattern k =
     (if \<not> SUBSET (tk_mask pattern OR tk_freemask pattern) (tk_mask k) then False
      else key_matches_loop pattern k [0..<TESLA_KEY_SIZE])"

text \<open>
  The loop of \<open>tesla_key_union\<close>: the error value and the destination as it stands when the
  function returns (sub-keys copied before a conflict stay copied).
\<close>

fun key_union_loop :: "tesla_key \<Rightarrow> tesla_key \<Rightarrow> nat list \<Rightarrow> tesla_err \<times> tesla_key" where
  "key_union_loop dest source [] =
     (TESLA_SUCCESS, dest\<lparr>tk_mask := tk_mask dest OR tk_mask source\<rparr>)"
| "key_union_loop dest source (i # is) =
     (if IS_SET (tk_mask source) i then
        if IS_SET (tk_mask dest) i then
          if tk_keys dest ! i \<noteq> tk_keys source ! i then (TESLA_ERROR_EINVAL, dest)
          else key_union_loop dest source is
        else key_union_loop (dest\<lparr>tk_keys := (tk_keys dest)[i := tk_keys source ! i]\<rparr>) source is
      else key_union_loop dest source is)"

definition tesla_key_union :: "tesla_key \<Rightarrow> tesla_key \<Rightarrow> tesla_err \<times> tesla_key" where
  "tesla_key_union dest source = key_union_loop dest source [0..<TESLA_KEY_SIZE]"

subsection \<open>Masks\<close>

lemma SUBSET_iff: "SUBSET x y \<longleftrightarrow> (\<forall>n. bit x n \<longrightarrow> bit y n)"
proof
  assume "SUBSET x y"
  then have "bit x n = bit (x AND y) n" for n
    by (simp add: SUBSET_def)
  then show "\<forall>n. bit x n \<longrightarrow> bit y n"
    unfolding bit_and_iff by blast
next
  assume "\<forall>n. bit x n \<longrightarrow> bit y n"
  then show "SUBSET x y"
    unfolding SUBSET_def by (intro bit_word_eqI) (auto simp: bit_and_iff)
qed

lemma SUBSET_refl [simp]: "SUBSET x x"
  by (simp add: SUBSET_def)

lemma SUBSET_trans: "SUBSET x y \<Longrightarrow> SUBSET y z \<Longrightarrow> SUBSET x z"
  by (simp add: SUBSET_iff)

lemma SUBSET_OR [simp]: "SUBSET (x OR y) z \<longleftrightarrow> SUBSET x z \<and> SUBSET y z"
  by (auto simp: SUBSET_iff bit_or_iff)

lemma SUBSET_0 [simp]: "SUBSET 0 x" "SUBSET x 0 \<longleftrightarrow> x = 0"
  by (auto simp: SUBSET_def)

lemma IS_SET_iff: "IS_SET m i \<longleftrightarrow> bit m i"
  by (simp add: IS_SET_def push_bit_eq_mult and_exp_eq_0_iff_not_bit)

lemma mask_bit_test:
  assumes "i < 32"
  shows "m AND 2 ^ i = (2 ^ i :: u32) \<longleftrightarrow> bit m i"
proof -
  have "m AND 2 ^ i = (if bit m i then 2 ^ i else (0 :: u32))"
    by (rule bit_word_eqI) (auto simp: bit_simps)
  moreover have "(2 ^ i :: u32) \<noteq> 0"
    using assms by simp
  ultimately show ?thesis by simp
qed

subsection \<open>The assignment a key stands for\<close>

definition key_map :: "tesla_key \<Rightarrow> nat \<rightharpoonup> uintptr" where
  "key_map k = (\<lambda>i. if i < TESLA_KEY_SIZE \<and> bit (tk_mask k) i then Some (tk_keys k ! i) else None)"

lemma dom_key_map: "dom (key_map k) = {i. i < TESLA_KEY_SIZE \<and> bit (tk_mask k) i}"
  by (auto simp: key_map_def dom_def)

lemma key_matches_loop_iff:
  "\<forall>i \<in> set is. i < 32 \<Longrightarrow>
   key_matches_loop p k is \<longleftrightarrow>
   (\<forall>i \<in> set is. bit (tk_mask p) i \<longrightarrow> tk_keys p ! i = tk_keys k ! i)"
  by (induction "is") (auto simp: Let_def mask_bit_test)

lemma key_matches_map:
  "tesla_key_matches p k \<longleftrightarrow>
   SUBSET (tk_mask p OR tk_freemask p) (tk_mask k) \<and> key_map p \<subseteq>\<^sub>m key_map k"
proof (cases "SUBSET (tk_mask p OR tk_freemask p) (tk_mask k)")
  case True
  have "key_matches_loop p k [0..<TESLA_KEY_SIZE] \<longleftrightarrow>
      (\<forall>i < TESLA_KEY_SIZE. bit (tk_mask p) i \<longrightarrow> tk_keys p ! i = tk_keys k ! i)"
    by (subst key_matches_loop_iff) (auto simp: TESLA_KEY_SIZE_def)
  also have "\<dots> \<longleftrightarrow> key_map p \<subseteq>\<^sub>m key_map k"
    using True by (auto simp: map_le_def dom_key_map key_map_def SUBSET_iff bit_or_iff)
  finally show ?thesis using True by (simp add: tesla_key_matches_def)
qed (auto simp: tesla_key_matches_def)

lemma key_matches_refl: "tk_freemask k = 0 \<Longrightarrow> tesla_key_matches k k"
  by (simp add: key_matches_map)

lemma key_matches_trans:
  "tesla_key_matches p k \<Longrightarrow> tesla_key_matches k l \<Longrightarrow> tesla_key_matches p l"
  by (auto simp: key_matches_map intro: SUBSET_trans map_le_trans)

subsection \<open>Union\<close>

text \<open>
  The state of the loop after the indices before \<open>n\<close>: sub-keys below \<open>n\<close> that only the source
  knows have been copied, the others are untouched.
\<close>

definition keys_compatible :: "tesla_key \<Rightarrow> tesla_key \<Rightarrow> bool" where
  "keys_compatible d s \<longleftrightarrow>
     (\<forall>i < TESLA_KEY_SIZE. bit (tk_mask d) i \<longrightarrow> bit (tk_mask s) i \<longrightarrow> tk_keys d ! i = tk_keys s ! i)"

definition merged_key :: "tesla_key \<Rightarrow> tesla_key \<Rightarrow> nat \<Rightarrow> uintptr" where
  "merged_key d s i = (if bit (tk_mask s) i \<and> \<not> bit (tk_mask d) i then tk_keys s ! i else tk_keys d ! i)"

lemma key_union_loop_ok:
  "distinct is \<Longrightarrow> \<forall>i \<in> set is. i < length (tk_keys d) \<Longrightarrow>
   \<forall>i \<in> set is. bit (tk_mask d) i \<longrightarrow> bit (tk_mask s) i \<longrightarrow> tk_keys d ! i = tk_keys s ! i \<Longrightarrow>
   \<exists>ks. key_union_loop d s is = (TESLA_SUCCESS, d\<lparr>tk_keys := ks, tk_mask := tk_mask d OR tk_mask s\<rparr>)
     \<and> length ks = length (tk_keys d)
     \<and> (\<forall>i. ks ! i = (if i \<in> set is then merged_key d s i else tk_keys d ! i))"
proof (induction d s "is" rule: key_union_loop.induct)
  case (1 d s)
  show ?case by (intro exI [of _ "tk_keys d"]) simp
next
  case (2 d s i "is")
  show ?case
  proof (cases "bit (tk_mask s) i \<and> \<not> bit (tk_mask d) i")
    case True
    let ?d = "d\<lparr>tk_keys := (tk_keys d)[i := tk_keys s ! i]\<rparr>"
    from True 2 have "\<exists>ks. key_union_loop ?d s is =
        (TESLA_SUCCESS, ?d\<lparr>tk_keys := ks, tk_mask := tk_mask ?d OR tk_mask s\<rparr>)
      \<and> length ks = length (tk_keys ?d)
      \<and> (\<forall>j. ks ! j = (if j \<in> set is then merged_key ?d s j else tk_keys ?d ! j))"
      by (intro "2.IH"(2)) (auto simp: IS_SET_iff nth_list_update)
    then obtain ks where "key_union_loop ?d s is =
        (TESLA_SUCCESS, ?d\<lparr>tk_keys := ks, tk_mask := tk_mask ?d OR tk_mask s\<rparr>)"
      and "length ks = length (tk_keys d)"
      and "\<forall>j. ks ! j = (if j \<in> set is then merged_key ?d s j else tk_keys ?d ! j)" by auto
    with True "2.prems" show ?thesis
      by (intro exI [of _ ks]) (auto simp: IS_SET_iff merged_key_def nth_list_update)
  next
    case False
    with 2 have "\<exists>ks. key_union_loop d s is =
        (TESLA_SUCCESS, d\<lparr>tk_keys := ks, tk_mask := tk_mask d OR tk_mask s\<rparr>)
      \<and> length ks = length (tk_keys d)
      \<and> (\<forall>j. ks ! j = (if j \<in> set is then merged_key d s j else tk_keys d ! j))"
      by (cases "bit (tk_mask s) i") (auto simp: IS_SET_iff)
    with False "2.prems" show ?thesis
      by (auto simp: IS_SET_iff merged_key_def)
  qed
qed

lemma key_union_loop_conflict:
  "\<exists>i \<in> set is. bit (tk_mask d) i \<and> bit (tk_mask s) i \<and> tk_keys d ! i \<noteq> tk_keys s ! i \<Longrightarrow>
   distinct is \<Longrightarrow>
   fst (key_union_loop d s is) = TESLA_ERROR_EINVAL
     \<and> tk_mask (snd (key_union_loop d s is)) = tk_mask d"
proof (induction d s "is" rule: key_union_loop.induct)
  case (2 d s i "is")
  let ?d = "d\<lparr>tk_keys := (tk_keys d)[i := tk_keys s ! i]\<rparr>"
  show ?case
  proof (cases "bit (tk_mask s) i \<and> \<not> bit (tk_mask d) i")
    case True
    with "2.prems"(1) obtain j where j: "j \<in> set is" "bit (tk_mask d) j" "bit (tk_mask s) j"
        "tk_keys d ! j \<noteq> tk_keys s ! j"
      by auto
    with "2.prems"(2) have "j \<noteq> i" by auto
    with j have "\<exists>j \<in> set is. bit (tk_mask ?d) j \<and> bit (tk_mask s) j
        \<and> tk_keys ?d ! j \<noteq> tk_keys s ! j"
      by auto
    with True 2 show ?thesis by (simp add: IS_SET_iff)
  next
    case False
    with 2 show ?thesis by (auto simp: IS_SET_iff)
  qed
qed simp

lemma key_union_success:
  assumes "wf_key d" and "keys_compatible d s"
  obtains ks where "tesla_key_union d s =
      (TESLA_SUCCESS, d\<lparr>tk_keys := ks, tk_mask := tk_mask d OR tk_mask s\<rparr>)"
    and "length ks = TESLA_KEY_SIZE"
    and "\<And>i. i < TESLA_KEY_SIZE \<Longrightarrow> ks ! i = merged_key d s i"
  using key_union_loop_ok [of "[0..<TESLA_KEY_SIZE]" d s] assms
  by (auto simp: tesla_key_union_def wf_key_def keys_compatible_def)

lemma key_union_failure:
  assumes "\<not> keys_compatible d s"
  shows "fst (tesla_key_union d s) = TESLA_ERROR_EINVAL"
    and "tk_mask (snd (tesla_key_union d s)) = tk_mask d"
proof -
  from assms have "\<exists>i \<in> set [0..<TESLA_KEY_SIZE].
      bit (tk_mask d) i \<and> bit (tk_mask s) i \<and> tk_keys d ! i \<noteq> tk_keys s ! i"
    by (auto simp: keys_compatible_def)
  from key_union_loop_conflict [OF this]
  show "fst (tesla_key_union d s) = TESLA_ERROR_EINVAL"
    and "tk_mask (snd (tesla_key_union d s)) = tk_mask d"
    by (simp_all add: tesla_key_union_def)
qed

lemma key_map_union:
  assumes "wf_key d" and "tesla_key_union d s = (TESLA_SUCCESS, r)"
  shows "key_map r = key_map s ++ key_map d"
proof -
  from assms(2) have "keys_compatible d s"
    using key_union_failure(1) [of d s] by (cases "keys_compatible d s") auto
  with assms(1) obtain ks where "tesla_key_union d s =
      (TESLA_SUCCESS, d\<lparr>tk_keys := ks, tk_mask := tk_mask d OR tk_mask s\<rparr>)"
    and "\<And>i. i < TESLA_KEY_SIZE \<Longrightarrow> ks ! i = merged_key d s i"
    by (rule key_union_success) blast
  with assms(2) show ?thesis
    by (auto simp: fun_eq_iff key_map_def map_add_def bit_or_iff merged_key_def split: option.split)
qed

lemma wf_key_union: "wf_key d \<Longrightarrow> wf_key (snd (tesla_key_union d s))"
proof -
  have "length (tk_keys (snd (key_union_loop d s is))) = length (tk_keys d)" for "is"
    by (induction d s "is" rule: key_union_loop.induct) auto
  then show "wf_key d \<Longrightarrow> wf_key (snd (tesla_key_union d s))"
    by (simp add: wf_key_def tesla_key_union_def)
qed

lemma key_union_mask:
  "tesla_key_union d s = (e, r) \<Longrightarrow> tk_mask r = (if e = TESLA_SUCCESS then tk_mask d OR tk_mask s else tk_mask d)"
proof -
  have "tk_mask (snd (key_union_loop d s is)) =
      (if fst (key_union_loop d s is) = TESLA_SUCCESS then tk_mask d OR tk_mask s else tk_mask d)" for "is"
    by (induction d s "is" rule: key_union_loop.induct) auto
  then show "tesla_key_union d s = (e, r) \<Longrightarrow> ?thesis"
    by (metis fst_conv snd_conv tesla_key_union_def)
qed

end
