(* ===== verification/Tesla_Debugging.thy ===== *)
theory Tesla_Debugging
  imports Tesla_Types
begin

text \<open>
  When libtesla prints (\<open>libtesla/src/tesla_debug.c\<close>): the text a call writes is an \<open>out\<close>,
  and \<open>tesla_debugging\<close> decides from the \<open>TESLA_DEBUG\<close> environment variable whether a named
  part of the library is being debugged.  The variable is read once per process, so its value
  is an argument.  \<open>fnmatch\<close> is the POSIX function with no flags: \<open>*\<close>, \<open>?\<close>, a backslash
  escape, and bracket expressions with ranges and negation (named character classes such as
  \<open>[:alpha:]\<close> are not modelled).
\<close>

text \<open>
  Output is text on a stream or, in the kernel, a DTrace probe (\<open>tesla_dtrace.c\<close>) with its
  arguments; an instance argument is the index in the class passed beside it.
\<close>

datatype probe_arg =
    Context_arg tesla_context
  | Lifetime_arg tesla_lifetime
  | Class_arg tesla_class
  | Instance_arg nat
  | Transition_arg tesla_transition
  | Transitions_arg tesla_transitions
  | Symbol_arg u32
  | Error_arg tesla_err
  | Text_arg string
  | Key_arg tesla_key
  | Automaton_arg uintptr

datatype out =
    Stdout string
  | Stderr string
  | Probe "string list" "probe_arg list"

subsection \<open>Numbers in messages\<close>

definition digit_char :: "nat \<Rightarrow> char" where
  "digit_char d = (if d < 10 then char_of (48 + d) else char_of (87 + d))"

text \<open>The digits \<open>printf\<close> writes for a number, most significant first.\<close>

function digits_in :: "nat \<Rightarrow> nat \<Rightarrow> string" where
  "digits_in b n =
     (if b < 2 \<or> n < b then [digit_char n] else digits_in b (n div b) @ [digit_char (n mod b)])"
  by pat_completeness auto
termination
  by (relation "measure snd") auto

declare digits_in.simps [simp del]

definition hex_of :: "nat \<Rightarrow> string" where
  "hex_of n = digits_in 16 n"

text \<open>\<open>%d\<close>: the argument read as a signed 32-bit integer.\<close>

definition dec_of :: "32 word \<Rightarrow> string" where
  "dec_of w = (if sint w < 0 then CHR ''-'' # digits_in 10 (nat (- sint w)) else digits_in 10 (nat (sint w)))"

subsection \<open>fnmatch\<close>

text \<open>
  The items of a bracket expression: whether \<open>c\<close> is one of them, and the pattern after the
  closing bracket; \<open>None\<close> when the bracket is never closed.  The first item may be \<open>]\<close>.
\<close>

fun bracket_items :: "bool \<Rightarrow> bool \<Rightarrow> char \<Rightarrow> string \<Rightarrow> (bool \<times> string) option" where
  "bracket_items first found c [] = None"
| "bracket_items first found c (x # p) =
     (if x = CHR 0x5D \<and> \<not> first then Some (found, p)
      else (case p of
        y # z # p' \<Rightarrow>
          if y = CHR ''-'' \<and> z \<noteq> CHR 0x5D
          then bracket_items False (found \<or> (of_char x \<le> (of_char c :: nat) \<and> (of_char c :: nat) \<le> of_char z)) c p'
          else bracket_items False (found \<or> c = x) c p
      | _ \<Rightarrow> bracket_items False (found \<or> c = x) c p))"

definition bracket :: "char \<Rightarrow> string \<Rightarrow> (bool \<times> string) option" where
  "bracket c p = (case p of
     x # p' \<Rightarrow> if x = CHR ''!'' then map_option (\<lambda>(m, r). (\<not> m, r)) (bracket_items True False c p')
               else bracket_items True False c p
   | [] \<Rightarrow> None)"

lemma bracket_items_length: "bracket_items f m c p = Some (b, r) \<Longrightarrow> length r < length p"
  by (induction f m c p rule: bracket_items.induct)
    (auto split: if_splits list.splits)

lemma bracket_length: "bracket c p = Some (b, r) \<Longrightarrow> length r < length p"
proof (cases p)
  case (Cons x p')
  assume "bracket c p = Some (b, r)"
  with Cons obtain m where "bracket_items True False c p' = Some (m, r)
      \<or> bracket_items True False c p = Some (m, r)"
    by (auto simp: bracket_def split: if_splits)
  then have "length r < length p' \<or> length r < length p"
    by (blast dest: bracket_items_length)
  with Cons show ?thesis by auto
qed (simp add: bracket_def)

function fnmatch :: "string \<Rightarrow> string \<Rightarrow> bool" where
  "fnmatch [] s = (s = [])"
| "fnmatch (c # p) s =
     (if c = CHR ''*'' then
        fnmatch p s \<or> (case s of [] \<Rightarrow> False | _ # s' \<Rightarrow> fnmatch (c # p) s')
      else (case s of
        [] \<Rightarrow> False
      | d # s' \<Rightarrow>
          if c = CHR ''?'' then fnmatch p s'
          else if c = CHR 0x5C then (case p of [] \<Rightarrow> False | e # p' \<Rightarrow> d = e \<and> fnmatch p' s')
          else if c = CHR ''['' then
            (case bracket d p of
               None \<Rightarrow> d = c \<and> fnmatch p s'
             | Some (m, p') \<Rightarrow> m \<and> fnmatch p' s')
          else d = c \<and> fnmatch p s'))"
  by pat_completeness auto
termination
  by (relation "measure (\<lambda>(p, s). length p + length s)") (auto dest: bracket_length)

subsection \<open>tesla\_debugging\<close>

definition char_at :: "string \<Rightarrow> nat \<Rightarrow> char" where
  "char_at s i = (if i < length s then s ! i else CHR 0x00)"

definition strnlen :: "string \<Rightarrow> nat \<Rightarrow> nat" where
  "strnlen s n = min (length s) n"

text \<open>Userspace: \<open>env\<close> is \<open>getenv("TESLA_DEBUG")\<close>, an empty value counting as unset.\<close>

definition tesla_debugging :: "string option \<Rightarrow> string \<Rightarrow> bool" where
  "tesla_debugging env name =
     (case env of
        None \<Rightarrow> False
      | Some e \<Rightarrow>
          if e = [] then False
          else let envlen = strnlen e 100 in
            if strncmp e name envlen = 0 \<and> char_at name envlen = CHR ''.'' then True
            else fnmatch e name)"

text \<open>Kernel: only \<open>libtesla.event\<close> and \<open>libtesla.instance\<close> output, chosen by prefix.\<close>

definition allowed_debug_names :: "string list" where
  "allowed_debug_names = [''libtesla.event'', ''libtesla.instance'']"

fun debug_name_allowed :: "string list \<Rightarrow> string \<Rightarrow> bool" where
  "debug_name_allowed [] name = False"
| "debug_name_allowed (s # ss) name =
     (if strncmp s name (length s) = 0 then True else debug_name_allowed ss name)"

definition tesla_debugging_kernel :: "string \<Rightarrow> bool" where
  "tesla_debugging_kernel name = debug_name_allowed allowed_debug_names name"

text \<open>The \<open>DEBUG\<close> macro: print when the name is being debugged.\<close>

definition DEBUG :: "string option \<Rightarrow> string \<Rightarrow> string \<Rightarrow> out list" where
  "DEBUG env dclass msg = (if tesla_debugging env dclass then [Stdout msg] else [])"

subsection \<open>Properties\<close>

lemma strncmp_0_length:
  "strncmp xs ys n = 0 \<Longrightarrow> n \<le> length xs \<Longrightarrow> CHR 0x00 \<notin> set xs \<Longrightarrow> n \<le> length ys"
proof (induction xs ys n rule: strncmp.induct)
  case (4 x xs n)
  then show ?case by (simp add: strncmp_0_simps)
next
  case (5 x xs y ys n)
  then show ?case by (simp add: strncmp_0_simps) blast
qed (simp_all add: strncmp_0_simps)

lemma strncmp_0_take:
  "strncmp xs ys n = 0 \<Longrightarrow> n \<le> length xs \<Longrightarrow> CHR 0x00 \<notin> set xs \<Longrightarrow> take n xs = take n ys"
proof (induction xs ys n rule: strncmp.induct)
  case (4 x xs n)
  then show ?case by (simp add: strncmp_0_simps)
next
  case (5 x xs y ys n)
  then show ?case by (auto simp: strncmp_0_simps)
qed (simp_all add: strncmp_0_simps)

lemma strncmp_take_0: "take n xs = take n ys \<Longrightarrow> strncmp xs ys n = 0"
proof (induction n arbitrary: xs ys)
  case (Suc n)
  then show ?case
    by (cases xs; cases ys) (auto simp: strncmp_0_simps)
qed simp

lemma tesla_debugging_unset [simp]: "\<not> tesla_debugging None name"
  by (simp add: tesla_debugging_def)

lemma DEBUG_unset [simp]: "DEBUG None dclass msg = []"
  by (simp add: DEBUG_def)

lemma debug_name_allowed_iff:
  "\<forall>s \<in> set ss. CHR 0x00 \<notin> set s \<Longrightarrow>
   debug_name_allowed ss name \<longleftrightarrow> (\<exists>s \<in> set ss. take (length s) name = s)"
proof (induction ss)
  case (Cons s ss)
  have "strncmp s name (length s) = 0 \<longleftrightarrow> take (length s) name = s"
    using strncmp_0_take [of s name "length s"] strncmp_take_0 [of "length s" s name] Cons.prems
    by auto
  with Cons show ?case by auto
qed simp

text \<open>A literal pattern matches only itself, so an environment value without wildcards is an
  exact name or, by the prefix rule, everything below it.\<close>

definition literal_char :: "char \<Rightarrow> bool" where
  "literal_char c \<longleftrightarrow> c \<notin> {CHR ''*'', CHR ''?'', CHR ''['', CHR 0x5C}"

lemma fnmatch_literal: "\<forall>c \<in> set p. literal_char c \<Longrightarrow> fnmatch p s \<longleftrightarrow> s = p"
proof (induction p arbitrary: s)
  case (Cons c p)
  then show ?case by (cases s) (auto simp: literal_char_def)
qed simp

lemma fnmatch_star [simp]: "fnmatch [CHR ''*''] s"
proof (induction s)
  case (Cons c s)
  then show ?case by (subst fnmatch.simps) simp
qed simp


subsection \<open>Theorems\<close>

text \<open>
  An environment value without wildcards selects the part of the library with that name and
  everything below it in the dotted hierarchy, and nothing else.
\<close>

theorem debugging_hierarchy:
  assumes "\<forall>c \<in> set e. literal_char c" and "CHR 0x00 \<notin> set e" and "e \<noteq> []" and "length e \<le> 100"
  shows "tesla_debugging (Some e) name \<longleftrightarrow> name = e \<or> (\<exists>rest. name = e @ ''.'' @ rest)"
proof -
  have "strncmp e name (length e) = 0 \<longleftrightarrow> take (length e) name = e"
    using strncmp_0_take [of e name "length e"] strncmp_take_0 [of "length e" e name] assms(2) by auto
  moreover have "take (length e) name = e \<and> char_at name (length e) = CHR ''.''
      \<longleftrightarrow> (\<exists>rest. name = e @ ''.'' @ rest)"
  proof
    assume *: "take (length e) name = e \<and> char_at name (length e) = CHR ''.''"
    then have "length e < length name" by (auto simp: char_at_def split: if_splits)
    then have "name = take (length e) name @ name ! length e # drop (Suc (length e)) name"
      by (rule id_take_nth_drop)
    with * \<open>length e < length name\<close> show "\<exists>rest. name = e @ ''.'' @ rest"
      by (auto simp: char_at_def)
  qed (auto simp: char_at_def)
  ultimately show ?thesis
    using assms fnmatch_literal [OF assms(1)]
    by (simp add: tesla_debugging_def strnlen_def Let_def)
qed

theorem debugging_hierarchy_witness:
  "tesla_debugging (Some ''libtesla.class'') ''libtesla.class.state''"
  by (subst debugging_hierarchy) (simp_all add: literal_char_def)

end
