(* ===== verification/Tesla_Class.thy ===== *)
theory Tesla_Class
  imports Tesla_Key Tesla_Debugging
begin

text \<open>
  Classes and their instances (\<open>libtesla/src/tesla_class.c\<close>, with the context-specific parts of
  \<open>tesla_class_global.c\<close> and \<open>tesla_class_perthread.c\<close>).  A class owns a fixed array of
  instances and a counter of unused ones.

  The invariant that the operations keep is \<open>class_inv\<close>: the array has \<open>tc_limit\<close> elements and
  the counter never claims more unused instances than there are.  It is an inequality because
  \<open>tesla_instance_clear\<close> frees a slot without telling the counter; it is enough for
  \<open>tesla_instance_new\<close> to find a slot whenever the counter is positive.

  Allocation is fault-injected: the list \<open>mallocs\<close> says for the allocations to come whether they
  succeed (all of them once it is empty).
\<close>

type_synonym mallocs = "bool list"

definition tesla_malloc :: "mallocs \<Rightarrow> bool \<times> mallocs" where
  "tesla_malloc ms = (case ms of [] \<Rightarrow> (True, []) | m # ms' \<Rightarrow> (m, ms'))"

subsection \<open>Instances\<close>

definition tesla_instance_active :: "tesla_instance \<Rightarrow> bool" where
  "tesla_instance_active i \<longleftrightarrow> ti_state i \<noteq> 0 \<or> tk_mask (ti_key i) \<noteq> 0"

text \<open>The instance array; reading through a NULL pointer has no element to return.\<close>

definition insts :: "tesla_class \<Rightarrow> tesla_instance list" where
  "insts c = (case tc_instances c of None \<Rightarrow> [] | Some xs \<Rightarrow> xs)"

definition set_inst :: "tesla_class \<Rightarrow> nat \<Rightarrow> tesla_instance \<Rightarrow> tesla_class" where
  "set_inst c i x = c\<lparr>tc_instances := Some ((insts c)[i := x])\<rparr>"

text \<open>The search for an unused slot in \<open>tesla_instance_new\<close>.\<close>

fun find_inactive :: "tesla_instance list \<Rightarrow> nat list \<Rightarrow> nat option res" where
  "find_inactive xs [] = Inr None"
| "find_inactive xs (i # is) =
     bindE (nthE ''tc_instances'' xs i) (\<lambda>inst.
       if tesla_instance_active inst then find_inactive xs is else Inr (Some i))"

text \<open>
  \<open>tesla_instance_new\<close>: \<open>Inl\<close> an error value (the class and \<open>*out\<close> are untouched) or \<open>Inr\<close>
  the class with the new instance and the value of \<open>*out\<close>.
\<close>

definition tesla_instance_new ::
  "tesla_class \<Rightarrow> tesla_key \<Rightarrow> u32 \<Rightarrow> (tesla_err + tesla_class \<times> nat) res" where
  "tesla_instance_new tclass name state =
     (if state = 0 \<and> tk_mask name = 0 then Inr (Inl TESLA_ERROR_EINVAL)
      else if tc_free tclass = 0 then Inr (Inl TESLA_ERROR_ENOMEM)
      else bindE (find_inactive (insts tclass) [0..<unat (tc_limit tclass)]) (\<lambda>r.
        case r of
          Some i \<Rightarrow>
            Inr (Inr ((set_inst tclass i \<lparr>ti_key = name, ti_state = state\<rparr>)
                        \<lparr>tc_free := tc_free tclass - 1\<rparr>, i))
        | None \<Rightarrow> Inl (Assertion ''no free instances but tc_free was > 0'')))"

definition tesla_instance_clone ::
  "tesla_class \<Rightarrow> tesla_instance \<Rightarrow> (tesla_err + tesla_class \<times> nat) res" where
  "tesla_instance_clone tclass orig = tesla_instance_new tclass (ti_key orig) (ti_state orig)"

definition tesla_instance_clear :: "tesla_instance \<Rightarrow> tesla_instance res" where
  "tesla_instance_clear tip =
     bindE (assertE ''!tesla_instance_active(tip)'' (\<not> tesla_instance_active zero_instance)) (\<lambda>_.
       Inr zero_instance)"

subsection \<open>Matching\<close>

fun match_loop :: "tesla_instance list \<Rightarrow> tesla_key \<Rightarrow> nat list \<Rightarrow> nat list res" where
  "match_loop xs pattern [] = Inr []"
| "match_loop xs pattern (i # is) =
     bindE (nthE ''tc_instances'' xs i) (\<lambda>inst.
       bindE (match_loop xs pattern is) (\<lambda>rest.
         if tesla_instance_active inst \<and> tesla_key_matches pattern (ti_key inst)
         then Inr (i # rest) else Inr rest))"

text \<open>The error value, \<open>*size\<close> and the instances stored in \<open>array\<close>.\<close>

definition tesla_match :: "tesla_class \<Rightarrow> tesla_key \<Rightarrow> u32 \<Rightarrow> (tesla_err \<times> u32 \<times> nat list) res" where
  "tesla_match tclass pattern sz =
     (if sz < tc_limit tclass then Inr (TESLA_ERROR_ENOMEM, tc_limit tclass, [])
      else bindE (match_loop (insts tclass) pattern [0..<unat (tc_limit tclass)]) (\<lambda>found.
        Inr (TESLA_SUCCESS, of_nat (length found), found)))"

subsection \<open>Global and per-thread classes\<close>

definition tesla_lock :: "mutex \<Rightarrow> mutex res" where
  "tesla_lock l = (case l of
     Free_mutex \<Rightarrow> Inr Held_mutex
   | Held_mutex \<Rightarrow> Inl Blocked
   | _ \<Rightarrow> Inl (Undefined ''pthread_mutex_lock''))"

definition tesla_unlock :: "mutex \<Rightarrow> mutex res" where
  "tesla_unlock l = (case l of
     Held_mutex \<Rightarrow> Inr Free_mutex
   | _ \<Rightarrow> Inl (Undefined ''pthread_mutex_unlock''))"

definition tesla_class_global_lock_init :: "tesla_class \<Rightarrow> tesla_class" where
  "tesla_class_global_lock_init tsp = tsp\<lparr>tc_lock := Free_mutex\<rparr>"

text \<open>\<open>pthread_mutex_destroy\<close> fails with EBUSY on a held mutex, which the assertion catches.\<close>

definition tesla_class_global_lock_destroy :: "tesla_class \<Rightarrow> tesla_class res" where
  "tesla_class_global_lock_destroy tsp = (case tc_lock tsp of
     Free_mutex \<Rightarrow> Inr (tsp\<lparr>tc_lock := Dead_mutex\<rparr>)
   | Held_mutex \<Rightarrow> Inl (Assertion ''error == 0'')
   | _ \<Rightarrow> Inl (Undefined ''pthread_mutex_destroy''))"

definition tesla_class_global_postinit :: "tesla_class \<Rightarrow> (tesla_err \<times> tesla_class) res" where
  "tesla_class_global_postinit tsp =
     bindE (assertE ''tsp->tc_context == TESLA_CONTEXT_GLOBAL''
              (tc_context tsp = TESLA_CONTEXT_GLOBAL)) (\<lambda>_.
       Inr (TESLA_SUCCESS, tesla_class_global_lock_init tsp))"

definition tesla_class_global_acquire :: "tesla_class \<Rightarrow> tesla_class res" where
  "tesla_class_global_acquire tsp =
     bindE (assertE ''tsp->tc_context == TESLA_CONTEXT_GLOBAL''
              (tc_context tsp = TESLA_CONTEXT_GLOBAL)) (\<lambda>_.
       bindE (tesla_lock (tc_lock tsp)) (\<lambda>l. Inr (tsp\<lparr>tc_lock := l\<rparr>)))"

definition tesla_class_global_release :: "tesla_class \<Rightarrow> tesla_class res" where
  "tesla_class_global_release tsp =
     bindE (assertE ''tsp->tc_context == TESLA_CONTEXT_GLOBAL''
              (tc_context tsp = TESLA_CONTEXT_GLOBAL)) (\<lambda>_.
       bindE (tesla_unlock (tc_lock tsp)) (\<lambda>l. Inr (tsp\<lparr>tc_lock := l\<rparr>)))"

definition tesla_class_global_destroy :: "tesla_class \<Rightarrow> tesla_class res" where
  "tesla_class_global_destroy tsp = tesla_class_global_lock_destroy tsp"

definition tesla_class_perthread_postinit :: "tesla_class \<Rightarrow> (tesla_err \<times> tesla_class) res" where
  "tesla_class_perthread_postinit c = Inr (TESLA_SUCCESS, c)"

definition tesla_class_perthread_acquire :: "tesla_class \<Rightarrow> tesla_class res" where
  "tesla_class_perthread_acquire c = Inr c"

definition tesla_class_perthread_release :: "tesla_class \<Rightarrow> tesla_class res" where
  "tesla_class_perthread_release c = Inr c"

definition tesla_class_perthread_destroy :: "tesla_class \<Rightarrow> tesla_class res" where
  "tesla_class_perthread_destroy c = Inr c"

subsection \<open>Life of a class\<close>

definition tesla_class_init ::
  "tesla_class \<Rightarrow> tesla_context \<Rightarrow> u32 \<Rightarrow> mallocs \<Rightarrow> (tesla_err \<times> tesla_class \<times> mallocs) res" where
  "tesla_class_init tclass ctx instances ms =
     bindE (assertE ''instances > 0'' (instances > 0)) (\<lambda>_.
       let (ok, ms') = tesla_malloc ms;
           c = tclass\<lparr>tc_context := ctx, tc_limit := instances, tc_free := instances,
                 tc_instances := (if ok then Some (replicate (unat instances) zero_instance) else None)\<rparr>
       in if ctx = TESLA_CONTEXT_GLOBAL then
            bindE (tesla_class_global_postinit c) (\<lambda>(err, c'). Inr (err, c', ms'))
          else if ctx = TESLA_CONTEXT_THREAD then
            bindE (tesla_class_perthread_postinit c) (\<lambda>(err, c'). Inr (err, c', ms'))
          else Inl (Assertion ''0 && unhandled TESLA context''))"

text \<open>A freed instance array is gone: no later read of it succeeds.\<close>

definition tesla_class_destroy :: "tesla_class \<Rightarrow> tesla_class res" where
  "tesla_class_destroy class =
     (let c = class\<lparr>tc_instances := None\<rparr> in
      if tc_context c = TESLA_CONTEXT_GLOBAL then tesla_class_global_destroy c
      else if tc_context c = TESLA_CONTEXT_THREAD then tesla_class_perthread_destroy c
      else Inr c)"

definition tesla_class_acquire :: "tesla_class \<Rightarrow> tesla_class res" where
  "tesla_class_acquire class =
     (if tc_context class = TESLA_CONTEXT_GLOBAL then tesla_class_global_acquire class
      else if tc_context class = TESLA_CONTEXT_THREAD then tesla_class_perthread_acquire class
      else Inl (Assertion ''0 && unhandled TESLA context''))"

definition tesla_class_put :: "tesla_class \<Rightarrow> tesla_class res" where
  "tesla_class_put tsp =
     (if tc_context tsp = TESLA_CONTEXT_GLOBAL then tesla_class_global_release tsp
      else if tc_context tsp = TESLA_CONTEXT_THREAD then tesla_class_perthread_release tsp
      else Inl (Assertion ''0 && unhandled TESLA context''))"

text \<open>
  \<open>tesla_class_reset\<close>: the debug message reads the automaton's name only when it is printed;
  \<open>bzero\<close> clears the first \<open>tc_limit\<close> instances.
\<close>

definition tesla_class_reset ::
  "automata \<Rightarrow> string option \<Rightarrow> tesla_class \<Rightarrow> (out list \<times> tesla_class) res" where
  "tesla_class_reset A env c =
     bindE (if tesla_debugging env ''libtesla.class.reset''
            then bindE (derefE ''tc_automaton'' (A (tc_automaton c))) (\<lambda>autom.
              Inr [Stdout (''tesla_class_reset '' @ ta_name autom @ [CHR 0x0A])])
            else Inr []) (\<lambda>msg.
       if length (insts c) < unat (tc_limit c) then Inl (Undefined ''bzero tc_instances'')
       else Inr (msg, c\<lparr>tc_instances :=
               (if tc_limit c = 0 then tc_instances c
                else Some (replicate (unat (tc_limit c)) zero_instance
                            @ drop (unat (tc_limit c)) (insts c))),
             tc_free := tc_limit c\<rparr>))"

subsection \<open>The class invariant\<close>

abbreviation unused :: "tesla_class \<Rightarrow> nat" where
  "unused c \<equiv> countp (\<lambda>i. \<not> tesla_instance_active i) (insts c)"

definition class_inv :: "tesla_class \<Rightarrow> bool" where
  "class_inv c \<longleftrightarrow>
     tc_instances c \<noteq> None
     \<and> length (insts c) = unat (tc_limit c)
     \<and> unat (tc_free c) \<le> unused c
     \<and> (\<forall>i \<in> set (insts c). wf_key (ti_key i))
     \<and> (tc_context c = TESLA_CONTEXT_GLOBAL \<or> tc_context c = TESLA_CONTEXT_THREAD)"

lemma class_invD:
  assumes "class_inv c"
  shows "tc_instances c = Some (insts c)"
    and "length (insts c) = unat (tc_limit c)"
    and "unat (tc_free c) \<le> unused c"
    and "\<And>i. i < length (insts c) \<Longrightarrow> wf_key (ti_key (insts c ! i))"
    and "tc_context c = TESLA_CONTEXT_GLOBAL \<or> tc_context c = TESLA_CONTEXT_THREAD"
  using assms by (auto simp: class_inv_def insts_def split: option.splits)

lemma zero_inactive [simp]: "\<not> tesla_instance_active zero_instance"
  by (simp add: tesla_instance_active_def zero_instance_def zero_key_def)

lemma wf_zero_key [simp]: "wf_key zero_key" "wf_key (ti_key zero_instance)"
  by (simp_all add: wf_key_def zero_key_def zero_instance_def TESLA_KEY_SIZE_def)

lemma insts_simps [simp]:
  "insts (c\<lparr>tc_instances := Some xs\<rparr>) = xs"
  "insts (c\<lparr>tc_free := n\<rparr>) = insts c"
  "insts (c\<lparr>tc_automaton := a\<rparr>) = insts c"
  "insts (c\<lparr>tc_lock := l\<rparr>) = insts c"
  "insts (set_inst c i x) = (insts c)[i := x]"
  by (simp_all add: insts_def set_inst_def)

lemma set_inst_fields [simp]:
  "tc_limit (set_inst c i x) = tc_limit c"
  "tc_free (set_inst c i x) = tc_free c"
  "tc_context (set_inst c i x) = tc_context c"
  "tc_automaton (set_inst c i x) = tc_automaton c"
  "tc_lock (set_inst c i x) = tc_lock c"
  "tc_instances (set_inst c i x) = Some ((insts c)[i := x])"
  by (simp_all add: set_inst_def)

lemma set_inst_set_inst [simp]: "set_inst (set_inst c i x) i y = set_inst c i y"
  by (simp add: set_inst_def)

lemma class_inv_frame [simp]:
  "class_inv (c\<lparr>tc_automaton := a\<rparr>) = class_inv c"
  "class_inv (c\<lparr>tc_lock := l\<rparr>) = class_inv c"
  by (simp_all add: class_inv_def)

text \<open>Overwriting a slot keeps the invariant unless it makes an unused slot active.\<close>

lemma class_inv_set_inst [tesla_inv]:
  assumes "class_inv c" and "i < length (insts c)" and "wf_key (ti_key x)"
    and "tesla_instance_active x \<Longrightarrow> tesla_instance_active (insts c ! i)"
  shows "class_inv (set_inst c i x)"
proof -
  have "unused c \<le> countp (\<lambda>i. \<not> tesla_instance_active i) ((insts c)[i := x])"
    using assms(2,4) by (intro countp_update_mono) auto
  with assms show ?thesis
    by (auto simp: class_inv_def dest: set_update_subset_insert [THEN subsetD])
qed

subsection \<open>Allocation\<close>

lemma find_inactive_find:
  "\<forall>i \<in> set is. i < length xs \<Longrightarrow>
   find_inactive xs is = Inr (find (\<lambda>i. \<not> tesla_instance_active (xs ! i)) is)"
  by (induction "is") auto

lemma find_upt_Some:
  "find P [0..<n] = Some i \<longleftrightarrow> i < n \<and> P i \<and> (\<forall>j < i. \<not> P j)"
  by (fastforce simp: find_Some_iff)

text \<open>Under the invariant a positive counter means a slot is found: the assertion at the end of
  \<open>tesla_instance_new\<close> cannot fail.\<close>

lemma find_inactive_finds:
  assumes "class_inv c" and "tc_free c \<noteq> 0"
  obtains i where "find_inactive (insts c) [0..<unat (tc_limit c)] = Inr (Some i)"
    and "i < length (insts c)" and "\<not> tesla_instance_active (insts c ! i)"
    and "\<And>j. j < i \<Longrightarrow> tesla_instance_active (insts c ! j)"
proof -
  let ?P = "\<lambda>i. \<not> tesla_instance_active (insts c ! i)"
  from assms(2) have "0 < unat (tc_free c)" by (simp add: unat_pos_iff)
  with class_invD(3) [OF assms(1)] have "0 < unused c" by linarith
  then obtain k where "k < length (insts c)" "?P k"
    by (auto simp: countp_pos)
  then have "find ?P [0..<unat (tc_limit c)] \<noteq> None"
    using class_invD(2) [OF assms(1)] by (auto simp: find_None_iff)
  then obtain i where i: "find ?P [0..<unat (tc_limit c)] = Some i" by auto
  show thesis
  proof (rule that)
    show "find_inactive (insts c) [0..<unat (tc_limit c)] = Inr (Some i)"
      using i class_invD(2) [OF assms(1)] by (simp add: find_inactive_find)
  qed (use i class_invD(2) [OF assms(1)] in \<open>auto simp: find_upt_Some\<close>)
qed

lemma instance_new_cases:
  assumes "class_inv c"
  obtains
    (einval) "state = 0" "tk_mask name = 0"
      "tesla_instance_new c name state = Inr (Inl TESLA_ERROR_EINVAL)"
  | (enomem) "\<not> (state = 0 \<and> tk_mask name = 0)" "tc_free c = 0"
      "tesla_instance_new c name state = Inr (Inl TESLA_ERROR_ENOMEM)"
  | (new) i where "\<not> (state = 0 \<and> tk_mask name = 0)" "tc_free c \<noteq> 0"
      "tesla_instance_new c name state =
         Inr (Inr ((set_inst c i \<lparr>ti_key = name, ti_state = state\<rparr>)\<lparr>tc_free := tc_free c - 1\<rparr>, i))"
      "i < length (insts c)" "\<not> tesla_instance_active (insts c ! i)"
      "\<And>j. j < i \<Longrightarrow> tesla_instance_active (insts c ! j)"
proof (cases "(state = 0 \<and> tk_mask name = 0) \<or> tc_free c = 0")
  case err: True
  show ?thesis
  proof (cases "state = 0 \<and> tk_mask name = 0")
    case True
    then show ?thesis by (intro einval) (auto simp: tesla_instance_new_def)
  next
    case False
    with err show ?thesis
      by (intro enomem) (simp_all add: tesla_instance_new_def)
  qed
next
  case False
  with assms obtain i where "find_inactive (insts c) [0..<unat (tc_limit c)] = Inr (Some i)"
    and i: "i < length (insts c)" "\<not> tesla_instance_active (insts c ! i)"
      "\<And>j. j < i \<Longrightarrow> tesla_instance_active (insts c ! j)"
    by (auto elim: find_inactive_finds)
  with False show ?thesis
    by (intro new [of i]) (auto simp: tesla_instance_new_def)
qed

lemma class_inv_alloc [tesla_inv]:
  assumes "class_inv c" and "tc_free c \<noteq> 0" and "i < length (insts c)"
    and "\<not> tesla_instance_active (insts c ! i)" and "wf_key (ti_key x)"
  shows "class_inv ((set_inst c i x)\<lparr>tc_free := tc_free c - 1\<rparr>)"
proof -
  have "unused c \<le> Suc (countp (\<lambda>i. \<not> tesla_instance_active i) ((insts c)[i := x]))"
    using countp_update [of i "insts c" "\<lambda>i. \<not> tesla_instance_active i" x] assms(3,4)
    by (auto split: if_splits)
  with assms show ?thesis
    by (auto simp: class_inv_def unat_dec dest: set_update_subset_insert [THEN subsetD])
qed

lemma class_inv_instance_new [tesla_inv]:
  assumes "class_inv c" and "wf_key name"
    and "tesla_instance_new c name state = Inr (Inr (c', i))"
  shows "class_inv c'"
  using assms(1)
proof (cases rule: instance_new_cases [where name = name and state = state])
  case (new j)
  with assms show ?thesis by (auto intro!: class_inv_alloc)
qed (use assms(3) in auto)

subsection \<open>Matching and resetting\<close>

lemma match_loop_filter:
  "\<forall>i \<in> set is. i < length xs \<Longrightarrow>
   match_loop xs p is =
     Inr (filter (\<lambda>i. tesla_instance_active (xs ! i) \<and> tesla_key_matches p (ti_key (xs ! i))) is)"
  by (induction "is") auto

lemma match_inv:
  assumes "class_inv c" and "tc_limit c \<le> sz"
  shows "tesla_match c p sz =
    (let found = filter (\<lambda>i. tesla_instance_active (insts c ! i)
                          \<and> tesla_key_matches p (ti_key (insts c ! i))) [0..<length (insts c)]
     in Inr (TESLA_SUCCESS, of_nat (length found), found))"
  using assms class_invD(2) [OF assms(1)]
  by (auto simp: tesla_match_def match_loop_filter Let_def)

definition reset_class :: "tesla_class \<Rightarrow> tesla_class" where
  "reset_class c = c\<lparr>tc_instances := Some (replicate (unat (tc_limit c)) zero_instance),
                      tc_free := tc_limit c\<rparr>"

lemma class_reset_inv:
  assumes "class_inv c" and "tesla_class_reset A env c = Inr (msg, c')"
  shows "c' = reset_class c"
  using assms class_invD(1,2) [OF assms(1)]
  by (auto simp: tesla_class_reset_def reset_class_def E_eq_Inr split: if_splits)

lemma class_reset_quiet:
  assumes "class_inv c" and "\<not> tesla_debugging env ''libtesla.class.reset''"
  shows "tesla_class_reset A env c = Inr ([], reset_class c)"
  using assms class_invD(1,2) [OF assms(1)]
  by (auto simp: tesla_class_reset_def reset_class_def)

lemma class_inv_reset_class [tesla_inv]: "class_inv c \<Longrightarrow> class_inv (reset_class c)"
  by (auto simp: class_inv_def reset_class_def)

lemma reset_class_fields [simp]:
  "tc_automaton (reset_class c) = tc_automaton c"
  "tc_limit (reset_class c) = tc_limit c"
  "tc_free (reset_class c) = tc_limit c"
  "tc_context (reset_class c) = tc_context c"
  "tc_lock (reset_class c) = tc_lock c"
  "insts (reset_class c) = replicate (unat (tc_limit c)) zero_instance"
  by (simp_all add: reset_class_def)

lemma class_init_inv:
  assumes "tesla_class_init c ctx n ms = Inr (err, c', ms')" and "fst (tesla_malloc ms)"
  shows "err = TESLA_SUCCESS \<and> class_inv c' \<and> tc_limit c' = n \<and> tc_free c' = n
    \<and> tc_automaton c' = tc_automaton c \<and> tc_context c' = ctx
    \<and> insts c' = replicate (unat n) zero_instance"
  using assms
  by (auto simp: tesla_class_init_def E_eq_Inr Let_def tesla_class_global_postinit_def
      tesla_class_perthread_postinit_def tesla_class_global_lock_init_def class_inv_def insts_def
      split: if_splits prod.splits)

subsection \<open>A class as a pool of instances\<close>

text \<open>
  What a client of a class relies on: a positive counter guarantees an allocation, an allocation
  takes one from the counter, writes one slot that held nothing live, and leaves every live slot
  alone.  From these laws, any number of allocations up to the counter succeed.
\<close>

locale instance_pool =
  fixes inv :: "'c \<Rightarrow> bool"
    and avail :: "'c \<Rightarrow> nat"
    and slots :: "'c \<Rightarrow> 'i list"
    and live :: "'i \<Rightarrow> bool"
    and good :: "'i \<Rightarrow> bool"
    and alloc :: "'c \<Rightarrow> 'i \<Rightarrow> ('e + 'c \<times> nat) res"
  assumes alloc_ok: "inv c \<Longrightarrow> live x \<Longrightarrow> good x \<Longrightarrow> 0 < avail c \<Longrightarrow>
      \<exists>c' i. alloc c x = Inr (Inr (c', i)) \<and> inv c' \<and> avail c' = avail c - 1
        \<and> i < length (slots c) \<and> \<not> live (slots c ! i) \<and> slots c' = (slots c)[i := x]"
    and alloc_dead: "inv c \<Longrightarrow> \<not> live x \<Longrightarrow> \<exists>e. alloc c x = Inr (Inl e)"
    and alloc_full: "inv c \<Longrightarrow> avail c = 0 \<Longrightarrow> \<exists>e. alloc c x = Inr (Inl e)"
begin

fun alloc_all :: "'c \<Rightarrow> 'i list \<Rightarrow> ('e + 'c \<times> nat list) res" where
  "alloc_all c [] = Inr (Inr (c, []))"
| "alloc_all c (x # xs) =
     bindE (alloc c x) (\<lambda>r. case r of
       Inl e \<Rightarrow> Inr (Inl e)
     | Inr (c', i) \<Rightarrow> bindE (alloc_all c' xs) (\<lambda>r'. case r' of
         Inl e \<Rightarrow> Inr (Inl e)
       | Inr (c'', is) \<Rightarrow> Inr (Inr (c'', i # is))))"

lemma alloc_total: "inv c \<Longrightarrow> good x \<Longrightarrow> \<exists>r. alloc c x = Inr r"
  using alloc_ok [of c x] alloc_dead [of c x] alloc_full [of c x] by (cases "live x") blast+

lemma alloc_all_ok:
  "inv c \<Longrightarrow> \<forall>x \<in> set xs. live x \<and> good x \<Longrightarrow> length xs \<le> avail c \<Longrightarrow>
   \<exists>c' is. alloc_all c xs = Inr (Inr (c', is)) \<and> inv c' \<and> avail c' = avail c - length xs
     \<and> length is = length xs \<and> length (slots c') = length (slots c)
     \<and> (\<forall>k < length (slots c). live (slots c ! k) \<longrightarrow> slots c' ! k = slots c ! k)
     \<and> (\<forall>k < length xs. is ! k < length (slots c) \<and> slots c' ! (is ! k) = xs ! k)"
proof (induction xs arbitrary: c)
  case Nil
  then show ?case by simp
next
  case (Cons x xs)
  then obtain c1 i where 1: "alloc c x = Inr (Inr (c1, i))" "inv c1" "avail c1 = avail c - 1"
      "i < length (slots c)" "\<not> live (slots c ! i)" "slots c1 = (slots c)[i := x]"
    using alloc_ok [of c x] by auto
  from 1 Cons.prems have "length xs \<le> avail c1" "\<forall>x \<in> set xs. live x \<and> good x" by auto
  with 1(2) obtain c2 "is" where 2: "alloc_all c1 xs = Inr (Inr (c2, is))" "inv c2"
      "avail c2 = avail c1 - length xs" "length is = length xs" "length (slots c2) = length (slots c1)"
      "\<forall>k < length (slots c1). live (slots c1 ! k) \<longrightarrow> slots c2 ! k = slots c1 ! k"
      "\<forall>k < length xs. is ! k < length (slots c1) \<and> slots c2 ! (is ! k) = xs ! k"
    using Cons.IH [of c1] by blast
  have "live (slots c1 ! i)" "slots c1 ! i = x" using 1 Cons.prems by auto
  with 1 2 have at_i: "slots c2 ! i = x" by auto
  have "slots c2 ! k = slots c ! k" if "k < length (slots c)" "live (slots c ! k)" for k
    using that 1 2 by (metis length_list_update nth_list_update_neq)
  moreover have "(i # is) ! k < length (slots c) \<and> slots c2 ! ((i # is) ! k) = (x # xs) ! k"
    if "k < length (x # xs)" for k
    using that 1 2 at_i by (cases k) auto
  ultimately show ?case using 1 2 by auto
qed

end

lemma instance_eta [simp]: "\<lparr>ti_key = ti_key x, ti_state = ti_state x\<rparr> = (x :: tesla_instance)"
  by simp

interpretation class_pool: instance_pool class_inv "\<lambda>c. unat (tc_free c)" insts
  tesla_instance_active "\<lambda>i. wf_key (ti_key i)" tesla_instance_clone
proof (unfold_locales, goal_cases)
  case (1 c x)
  have x: "\<lparr>ti_key = ti_key x, ti_state = ti_state x\<rparr> = x" by simp
  from 1(1) show ?case
  proof (cases rule: instance_new_cases [where name = "ti_key x" and state = "ti_state x"])
    case (new i)
    then have "tesla_instance_clone c x = Inr (Inr ((set_inst c i x)\<lparr>tc_free := tc_free c - 1\<rparr>, i))"
      by (simp add: tesla_instance_clone_def x)
    with new 1 show ?thesis
      by (auto simp: unat_dec intro!: class_inv_alloc)
  qed (use 1 in \<open>auto simp: tesla_instance_active_def\<close>)
next
  case (2 c x)
  then show ?case
    by (auto simp: tesla_instance_clone_def tesla_instance_new_def tesla_instance_active_def)
next
  case (3 c x)
  then have "tc_free c = 0" by (simp add: unat_eq_zero)
  then show ?case
    by (simp add: tesla_instance_clone_def tesla_instance_new_def)
qed

end
