(* ===== verification/Tesla_Probing.thy ===== *)
theory Tesla_Probing
  imports Tesla_Prelude
begin

text \<open>
  Open addressing, as the table of classes in a store uses it: a key has a sequence of slots to
  try, a lookup takes the first slot that is empty or already its own, and slots are never
  given back.  The only law the table needs of the hash function is that the sequence visits
  every slot; the client lemmas (a key keeps its slot, different keys have different slots, a
  lookup fails only when every slot belongs to another key) follow once, here.
\<close>

locale open_addressing =
  fixes n :: nat
    and probe :: "'k \<Rightarrow> nat list"
  assumes probe_all: "set (probe k) = {..<n}"
begin

definition scan :: "'k option list \<Rightarrow> 'k \<Rightarrow> nat option" where
  "scan slots k = find (\<lambda>i. slots ! i = None \<or> slots ! i = Some k) (probe k)"

text \<open>Every key in the table is found by its own lookup.\<close>

definition table_inv :: "'k option list \<Rightarrow> bool" where
  "table_inv slots \<longleftrightarrow>
     length slots = n \<and> (\<forall>j < n. \<forall>k. slots ! j = Some k \<longrightarrow> scan slots k = Some j)"

lemma scan_Some:
  assumes "scan slots k = Some j"
  shows "j < n" and "slots ! j = None \<or> slots ! j = Some k"
proof -
  from assms obtain m where "m < length (probe k)" "j = probe k ! m"
    and hit: "slots ! j = None \<or> slots ! j = Some k"
    by (auto simp: scan_def find_Some_iff)
  then have "j \<in> set (probe k)" by simp
  then show "j < n" by (simp add: probe_all)
  show "slots ! j = None \<or> slots ! j = Some k" by (rule hit)
qed

lemma scan_None_iff:
  "scan slots k = None \<longleftrightarrow> (\<forall>j < n. slots ! j \<noteq> None \<and> slots ! j \<noteq> Some k)"
  by (auto simp: scan_def find_None_iff probe_all)

lemma find_upd:
  assumes "find P xs = Some j'" and "\<And>i. i \<noteq> j \<Longrightarrow> Q i = P i" and "P j" and "Q j'"
  shows "find Q xs = Some j'"
proof -
  from assms(2,3) have "\<not> P i \<Longrightarrow> \<not> Q i" for i by (cases "i = j") auto
  with assms(1,4) show ?thesis by (induction xs) (auto split: if_splits)
qed

text \<open>Claiming the slot a lookup returns keeps the table consistent.\<close>

lemma table_inv_claim:
  assumes inv: "table_inv slots" and j: "scan slots k = Some j"
  shows "table_inv (slots[j := Some k])"
proof -
  have len: "length slots = n" using inv by (simp add: table_inv_def)
  have jn: "j < n" using j by (rule scan_Some)
  have free: "slots ! j = None \<or> slots ! j = Some k" using j by (rule scan_Some)
  have "scan (slots[j := Some k]) k' = Some j'" if j': "j' < n" "slots[j := Some k] ! j' = Some k'" for j' k'
  proof (cases "j' = j")
    case True
    with that len have "k' = k" by simp
    have "scan (slots[j := Some k]) k = Some j"
      unfolding scan_def
      by (rule find_upd [OF j [unfolded scan_def], of j]) (use free jn len in auto)
    with True \<open>k' = k\<close> show ?thesis by simp
  next
    case False
    with that len have old: "slots ! j' = Some k'" by simp
    with inv j' have s: "scan slots k' = Some j'" by (simp add: table_inv_def)
    show ?thesis
    proof (cases "slots ! j = None")
      case True
      show ?thesis unfolding scan_def
        by (rule find_upd [OF s [unfolded scan_def], of j]) (use True old False jn len in auto)
    next
      case False
      with free have "slots[j := Some k] = slots"
        by (metis list_update_id)
      with s show ?thesis by simp
    qed
  qed
  with len show ?thesis by (simp add: table_inv_def)
qed

lemma table_inv_empty: "length slots = n \<Longrightarrow> \<forall>j < n. slots ! j = None \<Longrightarrow> table_inv slots"
  by (simp add: table_inv_def)

text \<open>A key that has a slot keeps it, however many other keys arrive.\<close>

lemma scan_stable:
  assumes "table_inv slots" and "scan slots k = Some j" and "scan (slots[j := Some k]) l = Some m"
  shows "scan (slots[j := Some k, m := Some l]) k = Some j"
proof -
  have len: "length slots = n" and jn: "j < n"
    using assms(1,2) by (auto simp: table_inv_def dest: scan_Some)
  have inv': "table_inv (slots[j := Some k, m := Some l])"
    using assms by (blast intro: table_inv_claim)
  have "slots[j := Some k, m := Some l] ! j = Some k"
  proof (cases "m = j")
    case True
    with scan_Some(2) [OF assms(3)] jn len have "k = l" by auto
    with True jn len show ?thesis by simp
  qed (use jn len in simp)
  with inv' jn show ?thesis by (simp add: table_inv_def)
qed

lemma slots_unique:
  "table_inv slots \<Longrightarrow> i < n \<Longrightarrow> j < n \<Longrightarrow> slots ! i = Some k \<Longrightarrow> slots ! j = Some k \<Longrightarrow> i = j"
  unfolding table_inv_def by (metis option.inject)

end

end
