(* ===== verification/Tesla_Store.thy ===== *)
theory Tesla_Store
  imports Tesla_Class Tesla_Probing
begin

text \<open>
  Stores (\<open>libtesla/src/tesla_store.c\<close>): a table of classes, hashed by the address of the
  automaton description and probed linearly, and an array of lifetimes.  \<open>store_env\<close> is where
  stores live in a process: the global one and one allocated per thread, found through
  thread-specific data and a thread-local cache.

  \<open>store_inv\<close> is the invariant of an initialised store.  The table is an instance of
  \<open>open_addressing\<close> whenever its length divides \<open>2\<^sup>3\<^sup>2\<close>, as \<open>TESLA_MAX_CLASSES\<close> does; for other
  lengths the 32-bit sum \<open>desc_hash + i\<close> wraps in the middle of the walk.
\<close>

subsection \<open>The table of classes\<close>

definition fnv_hash32 :: "u32 \<Rightarrow> u32" where
  "fnv_hash32 x = x * 0x01000193"

definition fnv_hash64 :: "u32 \<Rightarrow> 64 word" where
  "fnv_hash64 x = ucast x * 0x100000001b3"

definition classes :: "tesla_store \<Rightarrow> tesla_class list" where
  "classes st = (case ts_classes st of None \<Rightarrow> [] | Some cs \<Rightarrow> cs)"

definition lifetimes :: "tesla_store \<Rightarrow> tesla_lifetime_state list" where
  "lifetimes st = (case ts_lifetimes st of None \<Rightarrow> [] | Some ls \<Rightarrow> ls)"

text \<open>
  The walk of \<open>tesla_class_get\<close> over the values of \<open>i\<close> still to come: the bucket taken or found,
  and whether it had to be claimed.
\<close>

fun class_probe :: "tesla_class list \<Rightarrow> u32 \<Rightarrow> u32 \<Rightarrow> uintptr \<Rightarrow> nat list \<Rightarrow> (nat \<times> bool) option res" where
  "class_probe cs desc_hash len description [] = Inr None"
| "class_probe cs desc_hash len description (i # is) =
     (let k = unat ((desc_hash + of_nat i) mod len) in
      bindE (nthE ''ts_classes'' cs k) (\<lambda>t.
        if tc_automaton t = 0 then Inr (Some (k, True))
        else if tc_automaton t = description then Inr (Some (k, False))
        else class_probe cs desc_hash len description is))"

text \<open>\<open>Inl\<close> an error value (nothing changed) or \<open>Inr\<close> the store and the class found.\<close>

definition tesla_class_get :: "tesla_store \<Rightarrow> uintptr \<Rightarrow> (tesla_err + tesla_store \<times> nat) res" where
  "tesla_class_get store description =
     bindE (assertE ''description != NULL'' (description \<noteq> 0)) (\<lambda>_.
     bindE (class_probe (classes store) (fnv_hash32 (ucast description)) (ts_length store)
              description [0..<unat (ts_length store)]) (\<lambda>r.
       case r of
         None \<Rightarrow> Inr (Inl TESLA_ERROR_ENOENT)
       | Some (k, claim) \<Rightarrow>
           let t = (if claim then (classes store ! k)\<lparr>tc_automaton := description\<rparr>
                    else classes store ! k) in
           bindE (assertE ''tclass->tc_instances != NULL'' (tc_instances t \<noteq> None)) (\<lambda>_.
           bindE (tesla_class_acquire t) (\<lambda>t'.
             Inr (Inr (store\<lparr>ts_classes := Some ((classes store)[k := t'])\<rparr>, k))))))"

subsection \<open>Life of a store\<close>

fun init_classes ::
  "tesla_class list \<Rightarrow> tesla_context \<Rightarrow> u32 \<Rightarrow> mallocs \<Rightarrow> (tesla_class list \<times> mallocs) res" where
  "init_classes [] ctx instances ms = Inr ([], ms)"
| "init_classes (c # cs) ctx instances ms =
     bindE (tesla_class_init c ctx instances ms) (\<lambda>(err, c', ms').
     bindE (assertE ''error == TESLA_SUCCESS'' (err = TESLA_SUCCESS)) (\<lambda>_.
     bindE (init_classes cs ctx instances ms') (\<lambda>(cs', ms'').
       Inr (c' # cs', ms''))))"

definition tesla_store_init ::
  "tesla_store \<Rightarrow> tesla_context \<Rightarrow> u32 \<Rightarrow> u32 \<Rightarrow> mallocs \<Rightarrow> (tesla_err \<times> tesla_store \<times> mallocs) res" where
  "tesla_store_init store ctx nclasses instances ms =
     bindE (assertE ''classes > 0'' (nclasses > 0)) (\<lambda>_.
     bindE (assertE ''instances > 0'' (instances > 0)) (\<lambda>_.
       let (ok, ms1) = tesla_malloc ms;
           store1 = store\<lparr>ts_length := nclasses\<rparr>
       in if \<not> ok then Inr (TESLA_ERROR_ENOMEM, store1\<lparr>ts_classes := None\<rparr>, ms1)
          else
            bindE (init_classes (replicate (unat nclasses) zero_class) ctx instances ms1) (\<lambda>(cs, ms2).
              let (ok2, ms3) = tesla_malloc ms2 in
              if \<not> ok2 then Inl (Undefined ''bzero ts_lifetimes'')
              else Inr (TESLA_SUCCESS,
                store1\<lparr>ts_classes := Some cs,
                       ts_lifetimes := Some (replicate (unat nclasses) zero_lifetime_state),
                       ts_lifetime_count := 0\<rparr>, ms3))))"

text \<open>
  \<open>tesla_store_free\<close>: the classes as \<open>tesla_class_destroy\<close> leaves them.  The lifetimes and the
  store itself are released; the array \<open>ts_classes\<close> that the result stands for is not.
\<close>

fun destroy_classes :: "tesla_class list \<Rightarrow> nat list \<Rightarrow> tesla_class list res" where
  "destroy_classes cs [] = Inr cs"
| "destroy_classes cs (i # is) =
     bindE (nthE ''ts_classes'' cs i) (\<lambda>c.
     bindE (tesla_class_destroy c) (\<lambda>c'. destroy_classes (cs[i := c']) is))"

definition tesla_store_free ::
  "string option \<Rightarrow> uintptr \<Rightarrow> tesla_store \<Rightarrow> (out list \<times> tesla_class list) res" where
  "tesla_store_free env addr store =
     bindE (destroy_classes (classes store) [0..<unat (ts_length store)]) (\<lambda>cs.
       Inr (DEBUG env ''libtesla.store.free''
              (''tesla_store_free '' @ hex_of (unat addr) @ [CHR 0x0A]), cs))"

fun reset_classes ::
  "automata \<Rightarrow> string option \<Rightarrow> tesla_class list \<Rightarrow> nat list \<Rightarrow> (out list \<times> tesla_class list) res" where
  "reset_classes A env cs [] = Inr ([], cs)"
| "reset_classes A env cs (i # is) =
     bindE (nthE ''ts_classes'' cs i) (\<lambda>c.
     bindE (tesla_class_reset A env c) (\<lambda>(msg, c').
     bindE (reset_classes A env (cs[i := c']) is) (\<lambda>(msgs, cs').
       Inr (msg @ msgs, cs'))))"

definition tesla_store_reset ::
  "automata \<Rightarrow> string option \<Rightarrow> uintptr \<Rightarrow> tesla_store \<Rightarrow> (out list \<times> tesla_store) res" where
  "tesla_store_reset A env addr store =
     bindE (reset_classes A env (classes store) [0..<unat (ts_length store)]) (\<lambda>(msgs, cs).
       Inr (DEBUG env ''libtesla.store.reset''
              (''tesla_store_reset '' @ hex_of (unat addr) @ [CHR 0x0A]) @ msgs,
            if ts_length store = 0 then store else store\<lparr>ts_classes := Some cs\<rparr>))"

subsection \<open>Where stores live\<close>

text \<open>
  \<open>se_heap\<close> holds the stores allocated for threads; \<open>se_specific\<close> is what
  \<open>pthread_getspecific\<close> returns in a thread and \<open>se_cache\<close> the thread-local variable \<open>cache\<close>.
\<close>

record store_env =
  se_global :: tesla_store
  se_heap :: "nat \<rightharpoonup> tesla_store"
  se_next :: nat
  se_cache :: "nat \<Rightarrow> nat option"
  se_specific :: "nat \<Rightarrow> nat option"

datatype store_ref = Global_store | Thread_store nat

definition initial_env :: store_env where
  "initial_env = \<lparr>se_global = zero_store, se_heap = Map.empty, se_next = 0,
     se_cache = (\<lambda>_. None), se_specific = (\<lambda>_. None)\<rparr>"

definition store_at :: "store_env \<Rightarrow> store_ref \<Rightarrow> tesla_store option" where
  "store_at e r = (case r of Global_store \<Rightarrow> Some (se_global e) | Thread_store a \<Rightarrow> se_heap e a)"

definition set_store :: "store_env \<Rightarrow> store_ref \<Rightarrow> tesla_store \<Rightarrow> store_env" where
  "set_store e r st = (case r of
     Global_store \<Rightarrow> e\<lparr>se_global := st\<rparr>
   | Thread_store a \<Rightarrow> e\<lparr>se_heap := (se_heap e)(a \<mapsto> st)\<rparr>)"

text \<open>The pointer to the calling thread's store, allocating it the first time.\<close>

definition thread_store_ptr :: "store_env \<Rightarrow> nat \<Rightarrow> mallocs \<Rightarrow> (nat option \<times> store_env \<times> mallocs)" where
  "thread_store_ptr e tid ms =
     (let e1 = (if se_cache e tid = None
                then e\<lparr>se_cache := (se_cache e)(tid := se_specific e tid)\<rparr> else e)
      in case se_cache e1 tid of
           Some a \<Rightarrow> (Some a, e1, ms)
         | None \<Rightarrow>
             let (ok, ms1) = tesla_malloc ms in
             if ok then
               (Some (se_next e1),
                e1\<lparr>se_heap := (se_heap e1)(se_next e1 \<mapsto> zero_store), se_next := Suc (se_next e1),
                   se_specific := (se_specific e1)(tid := Some (se_next e1))\<rparr>, ms1)
             else (None, e1\<lparr>se_specific := (se_specific e1)(tid := None)\<rparr>, ms1))"

definition ensure_init ::
  "store_env \<Rightarrow> store_ref \<Rightarrow> tesla_context \<Rightarrow> u32 \<Rightarrow> u32 \<Rightarrow> mallocs
    \<Rightarrow> ((tesla_err + store_ref) \<times> store_env \<times> mallocs) res" where
  "ensure_init e r ctx nclasses instances ms =
     bindE (derefE ''store'' (store_at e r)) (\<lambda>st.
       if ts_length st = 0 then
         bindE (tesla_store_init st ctx nclasses instances ms) (\<lambda>(err, st', ms').
           if err \<noteq> TESLA_SUCCESS then Inr (Inl err, set_store e r st', ms')
           else bindE (assertE ''store->ts_classes != NULL'' (ts_classes st' \<noteq> None)) (\<lambda>_.
             Inr (Inr r, set_store e r st', ms')))
       else Inr (Inr r, e, ms))"

text \<open>The result: \<open>Inl\<close> an error value, or \<open>Inr\<close> the store that \<open>*storep\<close> is set to.\<close>

definition tesla_store_get ::
  "store_env \<Rightarrow> nat \<Rightarrow> tesla_context \<Rightarrow> u32 \<Rightarrow> u32 \<Rightarrow> mallocs
    \<Rightarrow> ((tesla_err + store_ref) \<times> store_env \<times> mallocs) res" where
  "tesla_store_get e tid ctx nclasses instances ms =
     (if ctx = TESLA_CONTEXT_GLOBAL then ensure_init e Global_store ctx nclasses instances ms
      else if ctx = TESLA_CONTEXT_THREAD then
        (case thread_store_ptr e tid ms of
           (None, e1, ms1) \<Rightarrow> Inl (Undefined ''store->ts_length'')
         | (Some a, e1, ms1) \<Rightarrow> ensure_init e1 (Thread_store a) ctx nclasses instances ms1)
      else Inr (Inl TESLA_ERROR_EINVAL, e, ms))"

text \<open>
  \<open>tesla_pthread_destructor\<close> runs when a thread ends with a non-NULL value: it frees the store
  the value points to (the class array stays allocated, as \<open>tesla_store_free\<close> leaves it).
\<close>

definition tesla_pthread_destructor ::
  "string option \<Rightarrow> store_env \<Rightarrow> nat \<Rightarrow> uintptr \<Rightarrow> (out list \<times> store_env) res" where
  "tesla_pthread_destructor env e a addr =
     bindE (derefE ''store'' (se_heap e a)) (\<lambda>st.
     bindE (tesla_store_free env addr st) (\<lambda>(msgs, _).
       Inr (msgs, e\<lparr>se_heap := (se_heap e)(a := None)\<rparr>)))"

subsection \<open>The probe sequence\<close>

definition probe_seq :: "u32 \<Rightarrow> uintptr \<Rightarrow> nat list" where
  "probe_seq len d = map (\<lambda>i. unat ((fnv_hash32 (ucast d) + of_nat i) mod len)) [0..<unat len]"

lemma unat_probe:
  assumes "unat (len :: u32) dvd 2 ^ 32"
  shows "unat ((h + of_nat i) mod len) = (unat h + i) mod unat len"
proof -
  have "unat (h + of_nat i) = (unat h + i mod 2 ^ 32) mod 2 ^ 32"
    by (simp add: unat_word_ariths unat_of_nat)
  then show ?thesis
    using assms by (simp add: unat_mod mod_mod_cancel mod_simps)
qed

lemma rotation_onto: "0 < (n :: nat) \<Longrightarrow> (\<lambda>i. (a + i) mod n) ` {..<n} = {..<n}"
proof -
  assume n: "0 < n"
  have "\<exists>i < n. (a + i) mod n = j" if "j < n" for j
  proof (intro exI conjI)
    show "(j + (n - a mod n)) mod n < n" using n by simp
    have "(a + (j + (n - a mod n)) mod n) mod n = (a mod n + (n - a mod n) + j) mod n"
      by (metis (no_types, lifting) add.assoc add.commute mod_add_left_eq mod_add_right_eq)
    also have "a mod n + (n - a mod n) = n"
      using n by (simp add: less_imp_le)
    finally show "(a + (j + (n - a mod n)) mod n) mod n = j" using that by simp
  qed
  with n show ?thesis by (fastforce simp: image_iff)
qed

lemma probe_seq_all:
  assumes "len \<noteq> 0" and "unat len dvd 2 ^ 32"
  shows "set (probe_seq len d) = {..<unat len}"
proof -
  have "set (probe_seq len d) = (\<lambda>i. (unat (fnv_hash32 (ucast d)) + i) mod unat len) ` {..<unat len}"
    unfolding probe_seq_def using unat_probe [OF assms(2)] by (auto simp: atLeast0LessThan)
  also have "\<dots> = {..<unat len}"
    using assms(1) by (intro rotation_onto) (simp add: unat_pos_iff)
  finally show ?thesis .
qed

interpretation class_table: open_addressing "unat TESLA_MAX_CLASSES" "probe_seq TESLA_MAX_CLASSES"
  by unfold_locales (simp add: probe_seq_all TESLA_MAX_CLASSES_def)

definition slot_key :: "tesla_class \<Rightarrow> uintptr option" where
  "slot_key c = (if tc_automaton c = 0 then None else Some (tc_automaton c))"

abbreviation table :: "tesla_store \<Rightarrow> uintptr option list" where
  "table st \<equiv> map slot_key (classes st)"

lemma class_probe_find:
  "\<forall>i \<in> set is. unat ((h + of_nat i) mod len) < length cs \<Longrightarrow>
   class_probe cs h len d is =
     Inr (map_option (\<lambda>k. (k, tc_automaton (cs ! k) = 0))
       (find (\<lambda>k. tc_automaton (cs ! k) = 0 \<or> tc_automaton (cs ! k) = d)
          (map (\<lambda>i. unat ((h + of_nat i) mod len)) is)))"
  by (induction "is") (auto simp: Let_def)

subsection \<open>The store invariant\<close>

definition wf_lifetime_state :: "nat \<Rightarrow> tesla_lifetime_state \<Rightarrow> bool" where
  "wf_lifetime_state n ls \<longleftrightarrow>
     length (tls_classes ls) = TLS_STATIC_CLASSES
     \<and> length (tls_dyn_classes ls) = unat (tls_dyn_count ls)
     \<and> (\<forall>k. Some k \<in> set (tls_classes ls) \<union> set (tls_dyn_classes ls) \<longrightarrow> k < n)"

definition store_inv :: "tesla_store \<Rightarrow> bool" where
  "store_inv st \<longleftrightarrow>
     ts_length st = TESLA_MAX_CLASSES
     \<and> ts_classes st \<noteq> None \<and> ts_lifetimes st \<noteq> None
     \<and> (\<forall>c \<in> set (classes st). class_inv c)
     \<and> class_table.table_inv (table st)
     \<and> length (lifetimes st) = unat TESLA_MAX_CLASSES
     \<and> ts_lifetime_count st \<le> TESLA_MAX_CLASSES
     \<and> (\<forall>ls \<in> set (lifetimes st). wf_lifetime_state (unat TESLA_MAX_CLASSES) ls)"

lemma store_invD:
  assumes "store_inv st"
  shows "ts_length st = TESLA_MAX_CLASSES"
    and "ts_classes st = Some (classes st)" and "ts_lifetimes st = Some (lifetimes st)"
    and "length (classes st) = unat TESLA_MAX_CLASSES"
    and "length (lifetimes st) = unat TESLA_MAX_CLASSES"
    and "\<And>k. k < length (classes st) \<Longrightarrow> class_inv (classes st ! k)"
    and "class_table.table_inv (table st)"
    and "ts_lifetime_count st \<le> TESLA_MAX_CLASSES"
    and "\<And>ls. ls \<in> set (lifetimes st) \<Longrightarrow> wf_lifetime_state (unat TESLA_MAX_CLASSES) ls"
  using assms
  by (auto simp: store_inv_def classes_def lifetimes_def class_table.table_inv_def split: option.splits)

lemma store_simps [simp]:
  "classes (st\<lparr>ts_classes := Some cs\<rparr>) = cs"
  "classes (st\<lparr>ts_lifetimes := ls\<rparr>) = classes st"
  "classes (st\<lparr>ts_lifetime_count := n\<rparr>) = classes st"
  "lifetimes (st\<lparr>ts_lifetimes := Some l\<rparr>) = l"
  "lifetimes (st\<lparr>ts_classes := c\<rparr>) = lifetimes st"
  "lifetimes (st\<lparr>ts_lifetime_count := n\<rparr>) = lifetimes st"
  by (simp_all add: classes_def lifetimes_def)

lemma class_acquire_cases:
  assumes "class_inv c"
  shows "tesla_class_acquire c = Inr c' \<Longrightarrow> c' = c\<lparr>tc_lock := tc_lock c'\<rparr>"
    and "tc_context c = TESLA_CONTEXT_THREAD \<Longrightarrow> tesla_class_acquire c = Inr c"
    and "tc_context c = TESLA_CONTEXT_GLOBAL \<Longrightarrow> tc_lock c = Free_mutex \<Longrightarrow>
         tesla_class_acquire c = Inr (c\<lparr>tc_lock := Held_mutex\<rparr>)"
  using class_invD(5) [OF assms]
  by (auto simp: tesla_class_acquire_def tesla_class_global_acquire_def
      tesla_class_perthread_acquire_def tesla_lock_def E_eq_Inr split: mutex.splits)

lemma class_probe_scan:
  assumes "store_inv st" and "d \<noteq> 0"
  shows "class_probe (classes st) (fnv_hash32 (ucast d)) (ts_length st) d [0..<unat (ts_length st)] =
    Inr (map_option (\<lambda>k. (k, tc_automaton (classes st ! k) = 0)) (class_table.scan (table st) d))"
proof -
  note inv = store_invD [OF assms(1)]
  let ?P = "\<lambda>k. tc_automaton (classes st ! k) = 0 \<or> tc_automaton (classes st ! k) = d"
  have idx: "k < length (classes st)" if "k \<in> set (probe_seq TESLA_MAX_CLASSES d)" for k
    using that inv(4) class_table.probe_all by auto
  have "class_probe (classes st) (fnv_hash32 (ucast d)) (ts_length st) d [0..<unat (ts_length st)] =
      Inr (map_option (\<lambda>k. (k, tc_automaton (classes st ! k) = 0))
        (find ?P (probe_seq TESLA_MAX_CLASSES d)))"
    using idx unfolding probe_seq_def inv(1) by (subst class_probe_find) auto
  also have "find ?P (probe_seq TESLA_MAX_CLASSES d) = class_table.scan (table st) d"
    unfolding class_table.scan_def
    by (rule find_cong) (use assms(2) idx in \<open>auto simp: slot_key_def\<close>)
  finally show ?thesis .
qed

text \<open>Replacing one class by another with the same automaton keeps the store invariant.\<close>

lemma table_update:
  assumes "k < length (classes st)"
  shows "map slot_key ((classes st)[k := c]) = (table st)[k := slot_key c]"
  by (simp add: map_update)

lemma store_inv_set_class [tesla_inv]:
  assumes "store_inv st" and "k < length (classes st)" and "class_inv c"
    and "tc_automaton c = tc_automaton (classes st ! k)"
  shows "store_inv (st\<lparr>ts_classes := Some ((classes st)[k := c])\<rparr>)"
proof -
  have "slot_key c = slot_key (classes st ! k)" using assms(4) by (simp add: slot_key_def)
  then have "map slot_key ((classes st)[k := c]) = table st"
    using assms(2) by (simp add: map_update list_update_same_conv)
  with assms(1,3) show ?thesis
    unfolding store_inv_def by (auto dest: set_update_subset_insert [THEN subsetD])
qed

lemma class_get_cases:
  assumes "store_inv st" and "d \<noteq> 0"
  shows "class_table.scan (table st) d = None \<Longrightarrow>
           tesla_class_get st d = Inr (Inl TESLA_ERROR_ENOENT)"
    and "class_table.scan (table st) d = Some k \<Longrightarrow>
           tesla_class_get st d =
             bindE (tesla_class_acquire ((classes st ! k)\<lparr>tc_automaton := d\<rparr>)) (\<lambda>t.
               Inr (Inr (st\<lparr>ts_classes := Some ((classes st)[k := t])\<rparr>, k)))"
proof -
  note inv = store_invD [OF assms(1)]
  show "class_table.scan (table st) d = None \<Longrightarrow>
      tesla_class_get st d = Inr (Inl TESLA_ERROR_ENOENT)"
    using assms(2) by (simp add: tesla_class_get_def class_probe_scan [OF assms])
  assume k: "class_table.scan (table st) d = Some k"
  from class_table.scan_Some [OF k] inv(4) have "k < length (classes st)"
    and aut: "tc_automaton (classes st ! k) = 0 \<or> tc_automaton (classes st ! k) = d"
    by (auto simp: slot_key_def split: if_splits)
  with inv have "tc_instances (classes st ! k) \<noteq> None"
    using class_invD(1) by force
  with aut k assms(2) show "tesla_class_get st d =
      bindE (tesla_class_acquire ((classes st ! k)\<lparr>tc_automaton := d\<rparr>)) (\<lambda>t.
        Inr (Inr (st\<lparr>ts_classes := Some ((classes st)[k := t])\<rparr>, k)))"
    by (auto simp: tesla_class_get_def class_probe_scan [OF assms])
qed

lemma scan_lt:
  assumes "store_inv st" and "class_table.scan (table st) d = Some k"
  shows "k < length (classes st)"
  using class_table.scan_Some(1) [OF assms(2)] store_invD(4) [OF assms(1)] by simp

lemma class_get_ok:
  assumes "store_inv st" and "d \<noteq> 0" and "tesla_class_get st d = Inr (Inr (st', k))"
  shows "class_table.scan (table st) d = Some k"
    and "\<exists>l. st' = st\<lparr>ts_classes := Some ((classes st)[k := (classes st ! k)\<lparr>tc_automaton := d, tc_lock := l\<rparr>])\<rparr>"
proof -
  from assms show k: "class_table.scan (table st) d = Some k"
    by (cases "class_table.scan (table st) d")
      (auto simp: class_get_cases E_eq_Inr)
  let ?c = "(classes st ! k)\<lparr>tc_automaton := d\<rparr>"
  from scan_lt [OF assms(1) k] assms(1) have "class_inv ?c" by (auto dest: store_invD)
  from assms(3) obtain t where t: "tesla_class_acquire ?c = Inr t"
    and st': "st' = st\<lparr>ts_classes := Some ((classes st)[k := t])\<rparr>"
    by (auto simp: class_get_cases(2) [OF assms(1,2) k] E_eq_Inr)
  from class_acquire_cases(1) [OF \<open>class_inv ?c\<close> t]
  have "t = (classes st ! k)\<lparr>tc_automaton := d, tc_lock := tc_lock t\<rparr>" by simp
  with st' show "\<exists>l. st' = st\<lparr>ts_classes :=
      Some ((classes st)[k := (classes st ! k)\<lparr>tc_automaton := d, tc_lock := l\<rparr>])\<rparr>" by metis
qed

lemma store_inv_class_get [tesla_inv]:
  assumes "store_inv st" and "d \<noteq> 0" and "tesla_class_get st d = Inr (Inr (st', k))"
  shows "store_inv st'" and "table st' = (table st)[k := Some d]" and "k < length (classes st')"
    and "tc_automaton (classes st' ! k) = d"
proof -
  note scan = class_get_ok(1) [OF assms]
  note k = scan_lt [OF assms(1) scan]
  from class_get_ok(2) [OF assms] obtain l where
    st': "st' = st\<lparr>ts_classes := Some ((classes st)[k := (classes st ! k)\<lparr>tc_automaton := d, tc_lock := l\<rparr>])\<rparr>" ..
  show tab: "table st' = (table st)[k := Some d]"
    using assms(2) by (simp add: st' map_update slot_key_def)
  show "k < length (classes st')" and "tc_automaton (classes st' ! k) = d"
    using k by (simp_all add: st')
  have "class_table.table_inv (table st')"
    unfolding tab using store_invD(7) [OF assms(1)] scan by (rule class_table.table_inv_claim)
  moreover have "class_inv ((classes st ! k)\<lparr>tc_automaton := d, tc_lock := l\<rparr>)"
    using k assms(1) by (auto dest: store_invD)
  ultimately show "store_inv st'"
    using assms(1) by (auto simp: store_inv_def st' dest: set_update_subset_insert [THEN subsetD])
qed

subsection \<open>Initialisation\<close>

definition fresh_class :: "tesla_context \<Rightarrow> u32 \<Rightarrow> tesla_class \<Rightarrow> bool" where
  "fresh_class ctx n c \<longleftrightarrow> class_inv c \<and> tc_limit c = n \<and> tc_free c = n \<and> tc_automaton c = 0
     \<and> tc_context c = ctx \<and> insts c = replicate (unat n) zero_instance
     \<and> (ctx = TESLA_CONTEXT_GLOBAL \<longrightarrow> tc_lock c = Free_mutex)"

lemma class_init_fresh:
  assumes "n > 0" and "ctx = TESLA_CONTEXT_GLOBAL \<or> ctx = TESLA_CONTEXT_THREAD"
    and "fst (tesla_malloc ms)"
  shows "\<exists>c. tesla_class_init zero_class ctx n ms = Inr (TESLA_SUCCESS, c, snd (tesla_malloc ms))
    \<and> fresh_class ctx n c"
  using assms
  by (auto simp: tesla_class_init_def tesla_class_global_postinit_def
      tesla_class_perthread_postinit_def tesla_class_global_lock_init_def class_inv_def insts_def
      zero_class_def fresh_class_def split: prod.splits)

lemma malloc_Nil [simp]: "tesla_malloc [] = (True, [])"
  by (simp add: tesla_malloc_def)

text \<open>Allocations that all succeed are used up from the front.\<close>

lemma malloc_lasts: "False \<notin> set ms \<Longrightarrow> tesla_malloc ms = (True, drop 1 ms)"
  by (cases ms) (simp_all add: tesla_malloc_def)

lemma drop_lasts: "False \<notin> set ms \<Longrightarrow> False \<notin> set (drop n ms)"
  by (auto dest: in_set_dropD)

lemma init_classes_lasts:
  assumes "n > 0" and "ctx = TESLA_CONTEXT_GLOBAL \<or> ctx = TESLA_CONTEXT_THREAD"
  shows "False \<notin> set ms \<Longrightarrow> \<exists>cs. init_classes (replicate m zero_class) ctx n ms = Inr (cs, drop m ms)
    \<and> length cs = m \<and> (\<forall>c \<in> set cs. fresh_class ctx n c)"
proof (induction m arbitrary: ms)
  case (Suc m)
  note m = malloc_lasts [OF Suc.prems]
  from class_init_fresh [OF assms, of ms] m obtain c where
    "tesla_class_init zero_class ctx n ms = Inr (TESLA_SUCCESS, c, drop 1 ms)" "fresh_class ctx n c"
    by auto
  with Suc.IH [OF drop_lasts [OF Suc.prems, of 1]] show ?case by auto
qed simp

text \<open>When memory lasts, initialisation gives a store with every class unclaimed.\<close>

definition fresh_store :: "tesla_context \<Rightarrow> tesla_store \<Rightarrow> bool" where
  "fresh_store ctx st \<longleftrightarrow> store_inv st \<and> ts_lifetime_count st = 0
     \<and> lifetimes st = replicate (unat TESLA_MAX_CLASSES) zero_lifetime_state
     \<and> (\<forall>c \<in> set (classes st). fresh_class ctx TESLA_MAX_INSTANCES c)"

lemma store_init_lasts:
  assumes "ctx = TESLA_CONTEXT_GLOBAL \<or> ctx = TESLA_CONTEXT_THREAD" and "False \<notin> set ms"
  shows "\<exists>st' n. tesla_store_init st ctx TESLA_MAX_CLASSES TESLA_MAX_INSTANCES ms =
      Inr (TESLA_SUCCESS, st', drop n ms) \<and> fresh_store ctx st'"
proof -
  let ?m = "unat TESLA_MAX_CLASSES"
  have pos: "TESLA_MAX_CLASSES > 0" "TESLA_MAX_INSTANCES > 0"
    by (simp_all add: TESLA_MAX_CLASSES_def TESLA_MAX_INSTANCES_def)
  note d = drop_lasts [OF assms(2)]
  from init_classes_lasts [OF pos(2) assms(1) d [of 1], of ?m] obtain cs where
    cs: "init_classes (replicate ?m zero_class) ctx TESLA_MAX_INSTANCES (drop 1 ms) = Inr (cs, drop (?m + 1) ms)"
      "length cs = ?m" "\<forall>c \<in> set cs. fresh_class ctx TESLA_MAX_INSTANCES c"
    by auto
  let ?st = "st\<lparr>ts_length := TESLA_MAX_CLASSES, ts_classes := Some cs,
      ts_lifetimes := Some (replicate (unat TESLA_MAX_CLASSES) zero_lifetime_state),
      ts_lifetime_count := 0\<rparr>"
  have init: "tesla_store_init st ctx TESLA_MAX_CLASSES TESLA_MAX_INSTANCES ms = Inr (TESLA_SUCCESS, ?st, drop (?m + 2) ms)"
    using cs(1) pos malloc_lasts [OF assms(2)] malloc_lasts [OF d, of "?m + 1"] by (simp add: tesla_store_init_def)
  have "class_table.table_inv (map slot_key cs)"
    using cs(2,3) by (intro class_table.table_inv_empty) (auto simp: slot_key_def fresh_class_def)
  with cs(2,3) have "fresh_store ctx ?st"
    by (auto simp: fresh_store_def store_inv_def classes_def lifetimes_def fresh_class_def
        wf_lifetime_state_def zero_lifetime_state_def)
  with init show ?thesis by blast
qed

lemma store_init_fresh:
  assumes "ctx = TESLA_CONTEXT_GLOBAL \<or> ctx = TESLA_CONTEXT_THREAD"
  shows "\<exists>st'. tesla_store_init st ctx TESLA_MAX_CLASSES TESLA_MAX_INSTANCES [] =
      Inr (TESLA_SUCCESS, st', []) \<and> fresh_store ctx st'"
  using store_init_lasts [OF assms, of "[]"] by simp

text \<open>An instance array that cannot be allocated does not stop the initialisation of its class, which reports
  success.\<close>

lemma failed_instances_ignored:
  assumes "n > 0" and "ctx = TESLA_CONTEXT_GLOBAL \<or> ctx = TESLA_CONTEXT_THREAD"
  shows "\<exists>c. tesla_class_init zero_class ctx n (False # ms) = Inr (TESLA_SUCCESS, c, ms)
    \<and> tc_instances c = None \<and> \<not> class_inv c"
  using assms
  by (auto simp: tesla_class_init_def tesla_malloc_def tesla_class_global_postinit_def
      tesla_class_perthread_postinit_def tesla_class_global_lock_init_def class_inv_def zero_class_def split: prod.splits)

lemma store_inv_length: "store_inv st \<Longrightarrow> ts_length st \<noteq> 0"
  by (simp add: store_inv_def TESLA_MAX_CLASSES_def)

text \<open>A store that has been set up is returned as it is.\<close>

lemma ensure_init_done:
  "store_at e r = Some st \<Longrightarrow> ts_length st \<noteq> 0 \<Longrightarrow> ensure_init e r ctx n m ms = Inr (Inr r, e, ms)"
  by (simp add: ensure_init_def)

lemma store_at_set_store [simp]: "store_at (set_store e r st) r = Some st"
  by (simp add: store_at_def set_store_def split: store_ref.split)

lemma ensure_init_lasts:
  assumes "store_at e r = Some st" and "ts_length st = 0"
    and "ctx = TESLA_CONTEXT_GLOBAL \<or> ctx = TESLA_CONTEXT_THREAD" and "False \<notin> set ms"
  shows "\<exists>st' n. ensure_init e r ctx TESLA_MAX_CLASSES TESLA_MAX_INSTANCES ms =
      Inr (Inr r, set_store e r st', drop n ms) \<and> fresh_store ctx st'"
proof -
  from store_init_lasts [OF assms(3,4), of st] obtain st' n where
    "tesla_store_init st ctx TESLA_MAX_CLASSES TESLA_MAX_INSTANCES ms = Inr (TESLA_SUCCESS, st', drop n ms)"
    "fresh_store ctx st'" by blast
  moreover from this have "ts_classes st' \<noteq> None" by (simp add: fresh_store_def store_inv_def)
  ultimately show ?thesis using assms(1,2) by (auto simp: ensure_init_def)
qed

subsection \<open>Locks\<close>

text \<open>All the classes of a global store are unlocked between updates.\<close>

definition unlocked :: "tesla_store \<Rightarrow> bool" where
  "unlocked st \<longleftrightarrow> (\<forall>c \<in> set (classes st). tc_context c = TESLA_CONTEXT_GLOBAL \<longrightarrow> tc_lock c = Free_mutex)"

lemma class_get_unlocked:
  assumes "store_inv st" and "unlocked st" and "d \<noteq> 0" and "class_table.scan (table st) d \<noteq> None"
  shows "\<exists>st' k. tesla_class_get st d = Inr (Inr (st', k))"
proof -
  from assms(4) obtain k where k: "class_table.scan (table st) d = Some k" by blast
  let ?c = "(classes st ! k)\<lparr>tc_automaton := d\<rparr>"
  from scan_lt [OF assms(1) k] have lt: "k < length (classes st)" .
  then have inv: "class_inv ?c" and
    lock: "tc_context ?c = TESLA_CONTEXT_GLOBAL \<Longrightarrow> tc_lock ?c = Free_mutex"
    using assms(1,2) by (auto simp: unlocked_def dest: store_invD)
  then have "\<exists>t. tesla_class_acquire ?c = Inr t"
    using class_invD(5) [OF inv] class_acquire_cases(2,3) [OF inv] by blast
  then show ?thesis by (auto simp: class_get_cases(2) [OF assms(1,3) k])
qed

end
