(* ===== verification/Tesla_Print.thy ===== *)
theory Tesla_Print
  imports Tesla_Class
begin

text \<open>
  Printing (\<open>libtesla/src/tesla_debug.c\<close> and the \<open>SAFE_SPRINTF\<close> macro of
  \<open>tesla_internal.h\<close>).  A \<open>char\<close> buffer with its cursor is an \<open>sbuf\<close>: the room the buffer has,
  the text before the cursor and the C string at the cursor.  A write that does not fit leaves
  its truncated text at the cursor and does not move it, so what a reader of the buffer sees
  is the text before the cursor followed by the last write.

  The fixed messages contain no NUL, and \<open>%tx\<close> of a \<open>uint32_t\<close> argument is read as the
  zero-extended value.
\<close>

definition q :: string where
  "q = [CHR 0x27]"

definition nl :: string where
  "nl = [CHR 0x0A]"

definition nat_dec :: "nat \<Rightarrow> string" where
  "nat_dec n = digits_in 10 n"

definition hex32 :: "u32 \<Rightarrow> string" where
  "hex32 w = ''0x'' @ hex_of (unat w)"

text \<open>\<open>%2u\<close>\<close>

definition pad2 :: "nat \<Rightarrow> string" where
  "pad2 n = (let s = nat_dec n in if length s < 2 then CHR '' '' # s else s)"

subsection \<open>Buffers\<close>

record sbuf =
  sb_room :: nat
  sb_done :: string
  sb_tail :: string

definition new_sbuf :: "nat \<Rightarrow> sbuf" where
  "new_sbuf n = \<lparr>sb_room = n, sb_done = [], sb_tail = []\<rparr>"

definition sb_text :: "sbuf \<Rightarrow> string" where
  "sb_text b = sb_done b @ sb_tail b"

text \<open>\<open>snprintf(current, end - current, ...)\<close> writes at most \<open>end - current - 1\<close> characters
  and a NUL; it returns the length it wanted.\<close>

definition SAFE_SPRINTF :: "sbuf \<Rightarrow> string \<Rightarrow> sbuf" where
  "SAFE_SPRINTF b s =
     (let left = sb_room b - length (sb_done b) in
      if 0 < length s \<and> length s < left
      then b\<lparr>sb_done := sb_done b @ s, sb_tail := []\<rparr>
      else if left = 0 then b
      else b\<lparr>sb_tail := take (left - 1) s\<rparr>)"

subsection \<open>Transitions and keys\<close>

definition sprint_transition :: "sbuf \<Rightarrow> tesla_transition \<Rightarrow> sbuf" where
  "sprint_transition buf t =
     (let c = SAFE_SPRINTF buf (''('' @ dec_of (t_from t) @ '':'');
          c = SAFE_SPRINTF c (hex32 (t_from_mask t));
          c = SAFE_SPRINTF c ('' -> '' @ dec_of (t_to t) @ '':'');
          c = SAFE_SPRINTF c (hex32 (t_to_mask t));
          c = (if has_flag t TESLA_TRANS_INIT then SAFE_SPRINTF c '' <init>'' else c);
          c = (if has_flag t TESLA_TRANS_CLEANUP then SAFE_SPRINTF c '' <clean>'' else c)
      in SAFE_SPRINTF c '') '')"

definition sprint_transitions :: "sbuf \<Rightarrow> tesla_transitions \<Rightarrow> sbuf" where
  "sprint_transitions buffer tp =
     SAFE_SPRINTF (foldl sprint_transition (SAFE_SPRINTF buffer ''[ '') tp) '']''"

fun key_string_loop :: "sbuf \<Rightarrow> tesla_key \<Rightarrow> nat list \<Rightarrow> sbuf" where
  "key_string_loop c key [] = c"
| "key_string_loop c key (i # is) =
     key_string_loop
       (if tk_mask key AND push_bit i 1 \<noteq> 0
        then SAFE_SPRINTF c (hex_of (unat (tk_keys key ! i)) @ '' '')
        else SAFE_SPRINTF c ''X '') key is"

definition key_string :: "sbuf \<Rightarrow> tesla_key \<Rightarrow> sbuf" where
  "key_string buffer key =
     SAFE_SPRINTF
       (key_string_loop (SAFE_SPRINTF buffer (hex32 (tk_mask key) @ '' [ '')) key
          [0..<TESLA_KEY_SIZE]) '']''"

definition print_transition :: "string option \<Rightarrow> string \<Rightarrow> tesla_transition \<Rightarrow> out list" where
  "print_transition env debug t =
     (if \<not> tesla_debugging env debug then []
      else [Stdout (sb_text (sprint_transition (new_sbuf 1024) t))])"

definition print_transitions :: "string option \<Rightarrow> string \<Rightarrow> tesla_transitions \<Rightarrow> out list" where
  "print_transitions env debug tp =
     (if \<not> tesla_debugging env debug then []
      else [Stdout (sb_text (sprint_transitions (new_sbuf 1024) tp))])"

definition print_key :: "string option \<Rightarrow> string \<Rightarrow> tesla_key \<Rightarrow> out list res" where
  "print_key env debug_name key =
     (if \<not> tesla_debugging env debug_name then Inr []
      else let e = key_string (new_sbuf (15 * TESLA_KEY_SIZE + 10)) key in
        bindE (assertE ''e < end'' (length (sb_done e) < 15 * TESLA_KEY_SIZE + 10)) (\<lambda>_.
          Inr [Stdout (sb_text e)]))"

subsection \<open>Classes\<close>

fun print_class_loop ::
  "string option \<Rightarrow> tesla_instance list \<Rightarrow> nat list \<Rightarrow> out list res" where
  "print_class_loop env xs [] = Inr []"
| "print_class_loop env xs (i # is) =
     bindE (nthE ''tc_instances'' xs i) (\<lambda>inst.
       if \<not> tesla_instance_active inst then print_class_loop env xs is
       else
         bindE (print_key env ''libtesla.class.state'' (ti_key inst)) (\<lambda>key.
         bindE (print_class_loop env xs is) (\<lambda>rest.
           Inr ([Stdout (''    '' @ pad2 i @ '': state '' @ dec_of (ti_state inst) @ '', '')]
                @ key @ [Stdout nl] @ rest))))"

definition print_class ::
  "automata \<Rightarrow> string option \<Rightarrow> uintptr \<Rightarrow> tesla_class \<Rightarrow> out list res" where
  "print_class A env addr c =
     (if \<not> tesla_debugging env ''libtesla.class.state'' then Inr []
      else
        bindE (derefE ''tc_automaton'' (A (tc_automaton c))) (\<lambda>autom.
        bindE (print_class_loop env (insts c) [0..<unat (tc_limit c)]) (\<lambda>instances.
          Inr ([Stdout (''----'' @ nl),
                Stdout (''struct tesla_class @ 0x'' @ hex_of (unat addr) @ '' {'' @ nl),
                Stdout (''  name:         '' @ q @ ta_name autom @ q @ '','' @ nl),
                Stdout (''  description:  '' @ q @ ''[...]'' @ q @ '','' @ nl),
                Stdout ''  scope:        '',
                Stdout (if tc_context c = TESLA_CONTEXT_THREAD then ''thread-local'' @ nl
                        else if tc_context c = TESLA_CONTEXT_GLOBAL then ''global'' @ nl
                        else ''UNKNOWN ('' @ hex32 (tc_context c) @ '')'' @ nl),
                Stdout (''  limit:        '' @ dec_of (tc_limit c) @ nl),
                Stdout (''  '' @ dec_of (tc_limit c - tc_free c) @ ''/'' @ dec_of (tc_limit c)
                          @ '' instances'' @ nl)]
               @ instances @ [Stdout (''}'' @ nl), Stdout (''----'' @ nl)]))))"

text \<open>\<open>assert_instanceof\<close>: an instance is given by the class it points into and its index; the
  walk compares it with the address of every element.\<close>

definition assert_instanceof :: "nat \<Rightarrow> nat \<Rightarrow> nat \<Rightarrow> tesla_class \<Rightarrow> unit res" where
  "assert_instanceof owner i k tclass =
     assertE ''instance_belongs_to_class''
       (\<exists>j \<in> set [0..<unat (tc_limit tclass)]. owner = k \<and> i = j)"

subsection \<open>Bounds\<close>

text \<open>The cursor stays inside the buffer and the string at it is terminated inside.\<close>

definition sbuf_ok :: "sbuf \<Rightarrow> bool" where
  "sbuf_ok b \<longleftrightarrow> length (sb_done b) + length (sb_tail b) < sb_room b"

lemma sprintf_room [simp]: "sb_room (SAFE_SPRINTF b s) = sb_room b"
  by (simp add: SAFE_SPRINTF_def Let_def)

lemma sprintf_ok: "sbuf_ok b \<Longrightarrow> sbuf_ok (SAFE_SPRINTF b s)"
  by (auto simp: SAFE_SPRINTF_def Let_def sbuf_ok_def)

lemma sprintf_prefix: "\<exists>x. sb_done (SAFE_SPRINTF b s) = sb_done b @ x"
  by (simp add: SAFE_SPRINTF_def Let_def)

lemma sprintf_fits:
  "length (sb_done b) + length s < sb_room b \<Longrightarrow> s \<noteq> [] \<Longrightarrow>
   SAFE_SPRINTF b s = b\<lparr>sb_done := sb_done b @ s, sb_tail := []\<rparr>"
  by (simp add: SAFE_SPRINTF_def Let_def)

text \<open>A printer is safe when it keeps the buffer well-formed and the text already written.\<close>

definition prints_safely :: "(sbuf \<Rightarrow> sbuf) \<Rightarrow> bool" where
  "prints_safely f \<longleftrightarrow> (\<forall>b. sbuf_ok b \<longrightarrow>
     sbuf_ok (f b) \<and> sb_room (f b) = sb_room b \<and> (\<exists>x. sb_done (f b) = sb_done b @ x))"

lemma safely_sprintf: "prints_safely (\<lambda>b. SAFE_SPRINTF b s)"
  by (simp add: prints_safely_def sprintf_ok sprintf_prefix)

lemma safely_comp: "prints_safely f \<Longrightarrow> prints_safely g \<Longrightarrow> prints_safely (\<lambda>b. g (f b))"
  unfolding prints_safely_def by (metis append.assoc)

lemma safely_id: "prints_safely (\<lambda>b. b)"
  by (simp add: prints_safely_def)

lemma safely_then:
  "prints_safely f \<Longrightarrow> prints_safely (\<lambda>b. SAFE_SPRINTF (f b) s)"
  "prints_safely f \<Longrightarrow> prints_safely (\<lambda>b. if c then SAFE_SPRINTF (f b) s else f b)"
  "prints_safely f \<Longrightarrow> prints_safely (\<lambda>b. if c then SAFE_SPRINTF (f b) s else SAFE_SPRINTF (f b) s')"
  by (cases c; simp add: safely_comp [OF _ safely_sprintf])+

lemma safely_transition: "prints_safely (\<lambda>b. sprint_transition b t)"
  unfolding sprint_transition_def Let_def by (intro safely_then safely_id)

lemma safely_foldl:
  "(\<And>x. prints_safely (\<lambda>b. f b x)) \<Longrightarrow> prints_safely g \<Longrightarrow> prints_safely (\<lambda>b. foldl f (g b) xs)"
proof (induction xs arbitrary: g)
  case (Cons x xs)
  from Cons.IH [OF Cons.prems(1), of "\<lambda>b. f (g b) x"] safely_comp [OF Cons.prems(2,1)]
  show ?case by simp
qed simp

lemma safely_transitions: "prints_safely (\<lambda>b. sprint_transitions b tp)"
  unfolding sprint_transitions_def
  by (rule safely_then, rule safely_foldl, rule safely_transition, rule safely_sprintf)

lemma safely_key_loop: "prints_safely f \<Longrightarrow> prints_safely (\<lambda>b. key_string_loop (f b) key is)"
proof (induction "is" arbitrary: f)
  case (Cons i "is")
  show ?case
    unfolding key_string_loop.simps
    by (rule Cons.IH) (rule safely_then(3), rule Cons.prems)
qed simp

lemma safely_key: "prints_safely (\<lambda>b. key_string b key)"
  unfolding key_string_def
  by (rule safely_then, rule safely_key_loop, rule safely_sprintf)

lemma new_sbuf_ok: "0 < n \<Longrightarrow> sbuf_ok (new_sbuf n)"
  by (simp add: new_sbuf_def sbuf_ok_def)

lemma print_key_returns: "\<exists>msgs. print_key env debug_name key = Inr msgs"
proof -
  have "sbuf_ok (key_string (new_sbuf 70) key) \<and> sb_room (key_string (new_sbuf 70) key) = 70"
    using safely_key [of key] new_sbuf_ok [of 70]
    by (auto simp: prints_safely_def new_sbuf_def)
  then show ?thesis
    by (auto simp: print_key_def TESLA_KEY_SIZE_def Let_def sbuf_ok_def)
qed


subsection \<open>Theorems\<close>

text \<open>
  C27.  Whatever is printed, the printing routines stay inside the buffer: from a buffer whose text
  is terminated inside it, they give such a buffer, of the same size, and never undo what was
  written; so \<open>print_key\<close> never fails its assertion.
\<close>

theorem printing_in_bounds:
  "prints_safely (\<lambda>b. sprint_transition b t) \<and> prints_safely (\<lambda>b. sprint_transitions b tp)
    \<and> prints_safely (\<lambda>b. key_string b key) \<and> (\<exists>msgs. print_key env debug_name key = Inr msgs)"
  using safely_transition safely_transitions safely_key print_key_returns by blast

text \<open>The buffer of \<open>print_key\<close> holds three values of sixteen digits, not four: the fourth is
  overwritten by the closing bracket.\<close>

theorem print_key_loses_value:
  "print_key (Some ''*'') ''k'' \<lparr>tk_keys = [-1, -1, -1, -1], tk_mask = 15, tk_freemask = 0\<rparr> =
     Inr [Stdout ''0xf [ ffffffffffffffff ffffffffffffffff ffffffffffffffff ]'']"
proof -
  have on: "tesla_debugging (Some ''*'') ''k''"
    by (simp add: tesla_debugging_def Let_def)
  have n: "unat (- 1 :: uintptr) = 18446744073709551615"
    by (simp add: unsigned_minus_1_eq_mask mask_eq_exp_minus_1)
  have f: "digit_char 15 = CHR ''f''" by code_simp
  have h: "hex_of 18446744073709551615 = ''ffffffffffffffff''"
    by (simp add: hex_of_def digits_in.simps f)
  have m: "hex32 15 = ''0xf''" by (simp add: hex32_def hex_of_def digits_in.simps f)
  have upt: "[0..<TESLA_KEY_SIZE] = [0, 1, 2, 3]" by (simp add: TESLA_KEY_SIZE_def upt_rec)
  show ?thesis
    unfolding print_key_def key_string_def upt
    by (simp add: on n h m Let_def new_sbuf_def SAFE_SPRINTF_def TESLA_KEY_SIZE_def sb_text_def)
qed

end
