(* ===== verification/Tesla_Notification.thy ===== *)
theory Tesla_Notification
  imports Tesla_Print
begin

text \<open>
  Event notification (\<open>libtesla/src/tesla_notification.c\<close>).  A handler vector is a record of
  optional functions; a metahandler is an array of pointers to such vectors with a bit mask.
  What the ten \<open>ev_*\<close> functions pass to the handlers is an \<open>event\<close>, and the macro
  \<open>FOREACH_ERROR_HANDLER\<close> is \<open>dispatch\<close>.

  Handlers observe: they may print or not return, but they do not change automata.  A call of
  one returns what it printed.  The result of code that raises events is a \<open>run\<close>: its value
  with the log of the events raised and the text printed, in order; \<open>bindR\<close> sequences runs.
\<close>

subsection \<open>Events and logs\<close>

datatype event =
    Sunrise tesla_context tesla_lifetime
  | Sunset tesla_context tesla_lifetime
  | New_instance tesla_class nat
  | Transition tesla_class nat tesla_transition
  | Clone tesla_class nat nat tesla_transition
  | No_instance tesla_class u32 tesla_key
  | Bad_transition tesla_class nat u32
  | Err uintptr u32 tesla_err string
  | Accept tesla_class nat
  | Ignored tesla_class u32 tesla_key

datatype log_item = Raised event | Printed out

type_synonym 'a run = "(log_item list \<times> 'a) res"

definition retR :: "'a \<Rightarrow> 'a run" where
  "retR x = Inr ([], x)"

definition bindR :: "'a run \<Rightarrow> ('a \<Rightarrow> 'b run) \<Rightarrow> 'b run" where
  "bindR m f = bindE m (\<lambda>(l, x). bindE (f x) (\<lambda>(l', y). Inr (l @ l', y)))"

text \<open>Code that raises no events, inside code that does.\<close>

definition liftR :: "'a res \<Rightarrow> 'a run" where
  "liftR m = bindE m (\<lambda>x. Inr ([], x))"

definition tellR :: "out list \<Rightarrow> unit run" where
  "tellR os = Inr (map Printed os, ())"

subsection \<open>Handler vectors\<close>

record tesla_event_handlers =
  teh_sunrise :: "(tesla_context \<Rightarrow> tesla_lifetime \<Rightarrow> out list res) option"
  teh_sunset :: "(tesla_context \<Rightarrow> tesla_lifetime \<Rightarrow> out list res) option"
  teh_init :: "(tesla_class \<Rightarrow> nat \<Rightarrow> out list res) option"
  teh_transition :: "(tesla_class \<Rightarrow> nat \<Rightarrow> tesla_transition \<Rightarrow> out list res) option"
  teh_clone :: "(tesla_class \<Rightarrow> nat \<Rightarrow> nat \<Rightarrow> tesla_transition \<Rightarrow> out list res) option"
  teh_fail_no_instance :: "(tesla_class \<Rightarrow> u32 \<Rightarrow> tesla_key \<Rightarrow> out list res) option"
  teh_bad_transition :: "(tesla_class \<Rightarrow> nat \<Rightarrow> u32 \<Rightarrow> out list res) option"
  teh_err :: "(uintptr \<Rightarrow> u32 \<Rightarrow> tesla_err \<Rightarrow> string \<Rightarrow> out list res) option"
  teh_accept :: "(tesla_class \<Rightarrow> nat \<Rightarrow> out list res) option"
  teh_ignored :: "(tesla_class \<Rightarrow> u32 \<Rightarrow> tesla_key \<Rightarrow> out list res) option"

text \<open>\<open>tem_length\<close> is the length of the array.\<close>

record tesla_event_metahandler =
  tem_mask :: u32
  tem_handlers :: "tesla_event_handlers option list"

record notifier =
  event_handlers :: tesla_event_metahandler
  have_transitions :: bool

definition check_event_handler :: "tesla_event_handlers option \<Rightarrow> tesla_err" where
  "check_event_handler tehp = (case tehp of
     None \<Rightarrow> TESLA_ERROR_EINVAL
   | Some h \<Rightarrow>
       if teh_sunrise h = None \<or> teh_sunset h = None \<or> teh_init h = None
          \<or> teh_transition h = None \<or> teh_clone h = None \<or> teh_fail_no_instance h = None
          \<or> teh_bad_transition h = None \<or> teh_err h = None \<or> teh_accept h = None
          \<or> teh_ignored h = None
       then TESLA_ERROR_EINVAL else TESLA_SUCCESS)"

definition tesla_set_event_handler ::
  "notifier \<Rightarrow> tesla_event_handlers option \<Rightarrow> tesla_err \<times> notifier" where
  "tesla_set_event_handler n tehp =
     (let error = check_event_handler tehp in
      case tehp of
        Some h \<Rightarrow>
          if error \<noteq> TESLA_SUCCESS then (error, n)
          else (TESLA_SUCCESS,
                n\<lparr>have_transitions := (teh_transition h \<noteq> None),
                  event_handlers := \<lparr>tem_mask = 1, tem_handlers = [tehp]\<rparr>\<rparr>)
      | None \<Rightarrow> (error, n))"

text \<open>The loop of \<open>tesla_set_event_handlers\<close>: the first error, or whether any vector handles
  transitions.\<close>

fun check_handlers :: "tesla_event_handlers option list \<Rightarrow> bool \<Rightarrow> tesla_err + bool" where
  "check_handlers [] will_have_transitions = Inr will_have_transitions"
| "check_handlers (h # hs) will_have_transitions =
     (let error = check_event_handler h in
      if error \<noteq> TESLA_SUCCESS then Inl error
      else check_handlers hs
        (case h of Some v \<Rightarrow> if teh_transition v \<noteq> None then True else will_have_transitions
                 | None \<Rightarrow> will_have_transitions))"

definition tesla_set_event_handlers ::
  "notifier \<Rightarrow> tesla_event_metahandler option \<Rightarrow> tesla_err \<times> notifier" where
  "tesla_set_event_handlers n temp = (case temp of
     None \<Rightarrow> (TESLA_ERROR_EINVAL, n)
   | Some m \<Rightarrow>
       (case check_handlers (tem_handlers m) False of
          Inl error \<Rightarrow> (error, n)
        | Inr will \<Rightarrow> (TESLA_SUCCESS, n\<lparr>have_transitions := will, event_handlers := m\<rparr>)))"

subsection \<open>Dispatch\<close>

text \<open>The member of a vector that an event is for, applied to the event's arguments.\<close>

definition handler_call :: "tesla_event_handlers \<Rightarrow> event \<Rightarrow> out list res option" where
  "handler_call h ev = (case ev of
     Sunrise c lt \<Rightarrow> map_option (\<lambda>f. f c lt) (teh_sunrise h)
   | Sunset c lt \<Rightarrow> map_option (\<lambda>f. f c lt) (teh_sunset h)
   | New_instance tcp tip \<Rightarrow> map_option (\<lambda>f. f tcp tip) (teh_init h)
   | Transition tcp tip ttp \<Rightarrow> map_option (\<lambda>f. f tcp tip ttp) (teh_transition h)
   | Clone tcp orig copy ttp \<Rightarrow> map_option (\<lambda>f. f tcp orig copy ttp) (teh_clone h)
   | No_instance tcp symbol tkp \<Rightarrow> map_option (\<lambda>f. f tcp symbol tkp) (teh_fail_no_instance h)
   | Bad_transition tcp tip symbol \<Rightarrow> map_option (\<lambda>f. f tcp tip symbol) (teh_bad_transition h)
   | Err a symbol errnum message \<Rightarrow> map_option (\<lambda>f. f a symbol errnum message) (teh_err h)
   | Accept tcp tip \<Rightarrow> map_option (\<lambda>f. f tcp tip) (teh_accept h)
   | Ignored tcp symbol tkp \<Rightarrow> map_option (\<lambda>f. f tcp symbol tkp) (teh_ignored h))"

text \<open>
  The loop of the macro over the handlers from index \<open>i\<close> on.  \<open>1 << i\<close> is a 32-bit shift,
  which C leaves undefined from \<open>i = 32\<close> on.
\<close>

fun dispatch_loop ::
  "u32 \<Rightarrow> event \<Rightarrow> nat \<Rightarrow> tesla_event_handlers option list \<Rightarrow> out list res" where
  "dispatch_loop msk ev i [] = Inr []"
| "dispatch_loop msk ev i (h # hs) =
     (if 32 \<le> i then Inl (Undefined ''1 << i'')
      else if msk AND push_bit i 1 \<noteq> 0 then
        bindE (derefE ''tem_handlers[i]'' h) (\<lambda>v.
          case handler_call v ev of
            None \<Rightarrow> dispatch_loop msk ev (Suc i) hs
          | Some r \<Rightarrow> bindE r (\<lambda>os.
              bindE (dispatch_loop msk ev (Suc i) hs) (\<lambda>rest. Inr (os @ rest))))
      else dispatch_loop msk ev (Suc i) hs)"

definition dispatch :: "notifier \<Rightarrow> event \<Rightarrow> unit run" where
  "dispatch n ev =
     bindE (dispatch_loop (tem_mask (event_handlers n)) ev 0 (tem_handlers (event_handlers n))) (\<lambda>os.
       Inr (Raised ev # map Printed os, ()))"

definition ev_sunrise :: "notifier \<Rightarrow> tesla_context \<Rightarrow> tesla_lifetime \<Rightarrow> unit run" where
  "ev_sunrise n c lt = dispatch n (Sunrise c lt)"

definition ev_sunset :: "notifier \<Rightarrow> tesla_context \<Rightarrow> tesla_lifetime \<Rightarrow> unit run" where
  "ev_sunset n c lt = dispatch n (Sunset c lt)"

definition ev_new_instance :: "notifier \<Rightarrow> tesla_class \<Rightarrow> nat \<Rightarrow> unit run" where
  "ev_new_instance n tcp tip = dispatch n (New_instance tcp tip)"

definition ev_transition :: "notifier \<Rightarrow> tesla_class \<Rightarrow> nat \<Rightarrow> tesla_transition \<Rightarrow> unit run" where
  "ev_transition n tcp tip ttp = dispatch n (Transition tcp tip ttp)"

definition ev_clone :: "notifier \<Rightarrow> tesla_class \<Rightarrow> nat \<Rightarrow> nat \<Rightarrow> tesla_transition \<Rightarrow> unit run" where
  "ev_clone n tcp orig copy ttp = dispatch n (Clone tcp orig copy ttp)"

definition ev_no_instance :: "notifier \<Rightarrow> tesla_class \<Rightarrow> u32 \<Rightarrow> tesla_key \<Rightarrow> unit run" where
  "ev_no_instance n tcp symbol tkp = dispatch n (No_instance tcp symbol tkp)"

definition ev_bad_transition :: "notifier \<Rightarrow> tesla_class \<Rightarrow> nat \<Rightarrow> u32 \<Rightarrow> unit run" where
  "ev_bad_transition n tcp tip symbol = dispatch n (Bad_transition tcp tip symbol)"

definition ev_err :: "notifier \<Rightarrow> uintptr \<Rightarrow> u32 \<Rightarrow> tesla_err \<Rightarrow> string \<Rightarrow> unit run" where
  "ev_err n a symbol errnum message = dispatch n (Err a symbol errnum message)"

definition ev_accept :: "notifier \<Rightarrow> tesla_class \<Rightarrow> nat \<Rightarrow> unit run" where
  "ev_accept n tcp tip = dispatch n (Accept tcp tip)"

definition ev_ignored :: "notifier \<Rightarrow> tesla_class \<Rightarrow> u32 \<Rightarrow> tesla_key \<Rightarrow> unit run" where
  "ev_ignored n tcp symbol tkp = dispatch n (Ignored tcp symbol tkp)"

lemmas ev_defs = ev_sunrise_def ev_sunset_def ev_new_instance_def ev_transition_def ev_clone_def
  ev_no_instance_def ev_bad_transition_def ev_err_def ev_accept_def ev_ignored_def

subsection \<open>Printing handlers\<close>

definition ERROR_BUFFER_LENGTH :: nat where
  "ERROR_BUFFER_LENGTH = 1024"

definition print_failure_header :: "automata \<Rightarrow> tesla_class \<Rightarrow> out list res" where
  "print_failure_header A tcp =
     bindE (derefE ''tc_automaton'' (A (tc_automaton tcp))) (\<lambda>autom.
       Inr [Stderr (nl @ nl @ ''TESLA failure:'' @ nl),
            Stderr (''In automaton '' @ q @ ta_name autom @ q @ '':'' @ nl
                      @ ta_description autom @ nl)])"

definition context_name :: "tesla_context \<Rightarrow> string" where
  "context_name c = (if c = TESLA_CONTEXT_GLOBAL then ''global'' else ''per-thread'')"

definition print_sunrise :: "string option \<Rightarrow> tesla_context \<Rightarrow> tesla_lifetime \<Rightarrow> out list res" where
  "print_sunrise env c lt =
     Inr (DEBUG env ''libtesla.sunrise'' (''sunrise  '' @ context_name c @ '' '' @ tl_repr lt @ nl))"

definition print_sunset :: "string option \<Rightarrow> tesla_context \<Rightarrow> tesla_lifetime \<Rightarrow> out list res" where
  "print_sunset env c lt =
     Inr (DEBUG env ''libtesla.sunset'' (''sunset   '' @ context_name c @ '' '' @ tl_repr lt @ nl))"

text \<open>\<open>DEBUG\<close> evaluates its arguments only when it prints.\<close>

definition debug_res :: "string option \<Rightarrow> string \<Rightarrow> string res \<Rightarrow> out list res" where
  "debug_res env dclass msg =
     (if tesla_debugging env dclass then bindE msg (\<lambda>s. Inr [Stdout s]) else Inr [])"

definition print_new_instance ::
  "automata \<Rightarrow> string option \<Rightarrow> tesla_class \<Rightarrow> nat \<Rightarrow> out list res" where
  "print_new_instance A env tcp tip =
     debug_res env ''libtesla.instance.new''
       (bindE (nthE ''tip'' (insts tcp) tip) (\<lambda>inst.
        bindE (derefE ''tc_automaton'' (A (tc_automaton tcp))) (\<lambda>autom.
          Inr (''new    '' @ nat_dec tip @ '': '' @ dec_of (ti_state inst) @ '':''
                 @ hex32 (tk_mask (ti_key inst)) @ '' ('' @ q @ ta_name autom @ q @ '')'' @ nl))))"

definition print_transition_taken ::
  "string option \<Rightarrow> tesla_class \<Rightarrow> nat \<Rightarrow> tesla_transition \<Rightarrow> out list res" where
  "print_transition_taken env tcp tip t =
     Inr (DEBUG env ''libtesla.state.transition''
       (''update '' @ nat_dec tip @ '': '' @ dec_of (t_from t) @ '':'' @ hex32 (t_from_mask t)
          @ ''->'' @ dec_of (t_to t) @ '':'' @ hex32 (t_to_mask t) @ nl))"

definition print_clone ::
  "string option \<Rightarrow> tesla_class \<Rightarrow> nat \<Rightarrow> nat \<Rightarrow> tesla_transition \<Rightarrow> out list res" where
  "print_clone env tcp old_instance new_instance t =
     Inr (DEBUG env ''libtesla.instance.clone''
       (''clone  '' @ nat_dec old_instance @ '':'' @ dec_of (t_from t) @ '':'' @ hex32 (t_from_mask t)
          @ '' -> '' @ nat_dec new_instance @ '':'' @ dec_of (t_to t) @ '':'' @ hex32 (t_to_mask t) @ nl))"

definition print_no_instance ::
  "automata \<Rightarrow> tesla_class \<Rightarrow> u32 \<Rightarrow> tesla_key \<Rightarrow> out list res" where
  "print_no_instance A tcp symbol tkp =
     bindE (derefE ''tc_automaton'' (A (tc_automaton tcp))) (\<lambda>autom.
     bindE (print_failure_header A tcp) (\<lambda>header.
       let next = SAFE_SPRINTF (new_sbuf ERROR_BUFFER_LENGTH) (''No instance matched key '' @ q);
           next = key_string next tkp;
           next = SAFE_SPRINTF next (q @ '' for transition(s) '')
       in bindE (nthE ''ta_transitions'' (ta_transitions autom) (unat symbol)) (\<lambda>tp.
            let next = sprint_transitions next tp in
            bindE (assertE ''next > buffer'' (0 < length (sb_done next))) (\<lambda>_.
              Inr (header @ [Stderr (sb_text next)])))))"

definition print_bad_transition ::
  "automata \<Rightarrow> tesla_class \<Rightarrow> nat \<Rightarrow> u32 \<Rightarrow> out list res" where
  "print_bad_transition A tcp tip symbol =
     bindE (derefE ''tc_automaton'' (A (tc_automaton tcp))) (\<lambda>autom.
     bindE (print_failure_header A tcp) (\<lambda>header.
     bindE (nthE ''tip'' (insts tcp) tip) (\<lambda>inst.
     bindE (nthE ''ta_symbol_names'' (ta_symbol_names autom) (unat symbol)) (\<lambda>event_name.
       let next = SAFE_SPRINTF (new_sbuf ERROR_BUFFER_LENGTH)
             (''Instance '' @ nat_dec tip @ '' is in state '' @ dec_of (ti_state inst) @ nl
                @ ''but received event '' @ q @ event_name @ q @ nl
                @ ''(causes transition in: '')
       in bindE (assertE ''next > buffer'' (0 < length (sb_done next))) (\<lambda>_.
          bindE (nthE ''ta_transitions'' (ta_transitions autom) (unat symbol)) (\<lambda>tp.
            let next = sprint_transitions next tp in
            bindE (assertE ''next > buffer'' (0 < length (sb_done next))) (\<lambda>_.
              let next = SAFE_SPRINTF next ('')'' @ nl) in
              bindE (assertE ''next > buffer'' (0 < length (sb_done next))) (\<lambda>_.
                Inr (header @ [Stderr (sb_text next)])))))))))"

definition print_error ::
  "automata \<Rightarrow> string option \<Rightarrow> uintptr \<Rightarrow> u32 \<Rightarrow> tesla_err \<Rightarrow> string \<Rightarrow> out list res" where
  "print_error A env a symbol errnum message =
     debug_res env ''libtesla.event''
       (bindE (derefE ''a'' (A a)) (\<lambda>autom.
        bindE (nthE ''ta_symbol_names'' (ta_symbol_names autom) (unat symbol)) (\<lambda>event_name.
          Inr (message @ '' in '' @ q @ ta_name autom @ q @ '' '' @ event_name @ '': ''
                 @ tesla_strerror (err_code errnum) @ nl))))"

definition print_accept ::
  "automata \<Rightarrow> string option \<Rightarrow> tesla_class \<Rightarrow> nat \<Rightarrow> out list res" where
  "print_accept A env tcp tip =
     debug_res env ''libtesla.instance.success''
       (bindE (derefE ''tc_automaton'' (A (tc_automaton tcp))) (\<lambda>autom.
          Inr (''pass '' @ q @ ta_name autom @ q @ '': '' @ nat_dec tip @ nl)))"

definition print_ignored ::
  "automata \<Rightarrow> string option \<Rightarrow> tesla_class \<Rightarrow> u32 \<Rightarrow> tesla_key \<Rightarrow> out list res" where
  "print_ignored A env tcp symbol tkp =
     debug_res env ''libtesla.event''
       (bindE (derefE ''tc_automaton'' (A (tc_automaton tcp))) (\<lambda>autom.
        bindE (nthE ''ta_symbol_names'' (ta_symbol_names autom) (unat symbol)) (\<lambda>event_name.
          Inr (''ignore '' @ q @ ta_name autom @ q @ '': '' @ event_name @ nl))))"

definition printf_handlers :: "automata \<Rightarrow> string option \<Rightarrow> tesla_event_handlers" where
  "printf_handlers A env = \<lparr>
     teh_sunrise = Some (print_sunrise env),
     teh_sunset = Some (print_sunset env),
     teh_init = Some (print_new_instance A env),
     teh_transition = Some (print_transition_taken env),
     teh_clone = Some (print_clone env),
     teh_fail_no_instance = Some (print_no_instance A),
     teh_bad_transition = Some (print_bad_transition A),
     teh_err = Some (print_error A env),
     teh_accept = Some (print_accept A env),
     teh_ignored = Some (print_ignored A env)\<rparr>"

definition printf_on_failure :: "automata \<Rightarrow> string option \<Rightarrow> tesla_event_handlers" where
  "printf_on_failure A env = \<lparr>
     teh_sunrise = None, teh_sunset = None, teh_init = None, teh_transition = None,
     teh_clone = None,
     teh_fail_no_instance = Some (print_no_instance A),
     teh_bad_transition = Some (print_bad_transition A),
     teh_err = Some (print_error A env),
     teh_accept = None, teh_ignored = None\<rparr>"

subsection \<open>Handlers that stop the process\<close>

text \<open>The automaton and the symbol's name are read before the panic.\<close>

definition symbol_name :: "automata \<Rightarrow> uintptr \<Rightarrow> u32 \<Rightarrow> (string \<times> string) res" where
  "symbol_name A a symbol =
     bindE (derefE ''tc_automaton'' (A a)) (\<lambda>autom.
     bindE (nthE ''ta_symbol_names'' (ta_symbol_names autom) (unat symbol)) (\<lambda>event_name.
       Inr (ta_name autom, event_name)))"

definition panic_no_instance ::
  "automata \<Rightarrow> tesla_class \<Rightarrow> u32 \<Rightarrow> tesla_key \<Rightarrow> out list res" where
  "panic_no_instance A tcp symbol tkp =
     bindE (symbol_name A (tc_automaton tcp) symbol) (\<lambda>(name, event_name).
       Inl (Panic (''TESLA: failure in '' @ q @ name @ q @ '' '' @ event_name @ '': no such instance'')))"

definition panic_bad_transition ::
  "automata \<Rightarrow> tesla_class \<Rightarrow> nat \<Rightarrow> u32 \<Rightarrow> out list res" where
  "panic_bad_transition A tcp tip symbol =
     bindE (symbol_name A (tc_automaton tcp) symbol) (\<lambda>(name, event_name).
       Inl (Panic (''TESLA: failure in '' @ q @ name @ q @ '' '' @ event_name @ '': bad transition'')))"

definition panic_error ::
  "automata \<Rightarrow> uintptr \<Rightarrow> u32 \<Rightarrow> tesla_err \<Rightarrow> string \<Rightarrow> out list res" where
  "panic_error A a symbol errnum message =
     bindE (symbol_name A a symbol) (\<lambda>(name, event_name).
       Inl (Panic (''TESLA: '' @ message @ '' in '' @ q @ name @ q @ '' '' @ event_name @ '': ''
              @ tesla_strerror (err_code errnum))))"

definition failstop_handlers :: "automata \<Rightarrow> tesla_event_handlers" where
  "failstop_handlers A = \<lparr>
     teh_sunrise = None, teh_sunset = None, teh_init = None, teh_transition = None,
     teh_clone = None,
     teh_fail_no_instance = Some (panic_no_instance A),
     teh_bad_transition = Some (panic_bad_transition A),
     teh_err = Some (panic_error A),
     teh_accept = None, teh_ignored = None\<rparr>"

definition default_handlers :: "automata \<Rightarrow> string option \<Rightarrow> tesla_event_handlers option list" where
  "default_handlers A env =
     [Some (printf_handlers A env), Some (printf_on_failure A env), Some (failstop_handlers A)]"

definition default_event_handlers :: "automata \<Rightarrow> string option \<Rightarrow> tesla_event_metahandler" where
  "default_event_handlers A env = \<lparr>tem_mask = 0xFF, tem_handlers = default_handlers A env\<rparr>"

definition initial_notifier :: "automata \<Rightarrow> string option \<Rightarrow> notifier" where
  "initial_notifier A env = \<lparr>event_handlers = default_event_handlers A env, have_transitions = True\<rparr>"

subsection \<open>Sequencing runs\<close>

lemma bindR_simps [simp]:
  "bindR (Inl e) f = Inl e"
  "bindR (Inr (l, x)) f = bindE (f x) (\<lambda>(l', y). Inr (l @ l', y))"
  "bindR (retR x) f = f x"
  by (simp_all add: bindR_def retR_def bindE_def split: sum.split)

lemma bindR_cong [fundef_cong]:
  "m = m' \<Longrightarrow> (\<And>l x. m' = Inr (l, x) \<Longrightarrow> f x = g x) \<Longrightarrow> bindR m f = bindR m' g"
  by (cases m') (auto simp: bindR_def)

lemma liftR_simps [simp]:
  "liftR (Inl e) = Inl e"
  "liftR (Inr x) = retR x"
  by (simp_all add: liftR_def retR_def)

lemma bindR_eq_Inr:
  "bindR m f = Inr (l, y) \<longleftrightarrow>
   (\<exists>l1 x l2. m = Inr (l1, x) \<and> f x = Inr (l2, y) \<and> l = l1 @ l2)"
  by (auto simp: bindR_def E_eq_Inr)

lemma liftR_eq_Inr: "liftR m = Inr (l, x) \<longleftrightarrow> m = Inr x \<and> l = []"
  by (auto simp: liftR_def E_eq_Inr)

lemma retR_eq_Inr [simp]: "retR x = Inr (l, y) \<longleftrightarrow> l = [] \<and> y = x"
  by (auto simp: retR_def)

lemma retR_neq_Inl [simp]: "retR x \<noteq> Inl e" "Inl e \<noteq> retR x"
  by (simp_all add: retR_def)

lemma retR_inject [simp]: "retR x = retR y \<longleftrightarrow> x = y"
  by (simp add: retR_def)

lemma bindR_assoc: "bindR (bindR m f) g = bindR m (\<lambda>x. bindR (f x) g)"
  by (cases m) (auto simp: bindR_def bindE_def split: sum.split)

lemma bindR_bindE: "bindR (bindE m f) g = bindE m (\<lambda>x. bindR (f x) g)"
  by (cases m) auto

lemmas R_eq_Inr = bindR_eq_Inr liftR_eq_Inr E_eq_Inr

text \<open>What the value of a run satisfies, whenever the run returns.\<close>

definition retsR :: "'a run \<Rightarrow> ('a \<Rightarrow> bool) \<Rightarrow> bool" where
  "retsR m Q \<longleftrightarrow> rets m (\<lambda>(l, x). Q x)"

lemma retsR_simps [simp]:
  "retsR (retR x) Q = Q x" "retsR (Inl e) Q" "retsR (Inr (l, x)) Q = Q x"
  by (simp_all add: retsR_def retR_def)

lemma retsR_mono: "retsR m Q \<Longrightarrow> (\<And>x. Q x \<Longrightarrow> R x) \<Longrightarrow> retsR m R"
  by (auto simp: retsR_def rets_def)

lemma retsRI: "(\<And>l x. m = Inr (l, x) \<Longrightarrow> Q x) \<Longrightarrow> retsR m Q"
  by (auto simp: retsR_def rets_def)

lemma retsRD: "retsR m Q \<Longrightarrow> m = Inr (l, x) \<Longrightarrow> Q x"
  by (auto simp: retsR_def rets_def)

lemma retsR_use:
  "retsR m P \<Longrightarrow> (\<And>x. P x \<Longrightarrow> retsR (f x) Q) \<Longrightarrow> retsR (bindR m f) Q"
  by (cases m) (fastforce simp: retsR_def rets_def R_eq_Inr)+

lemma retsR_lift [wp]:
  "(\<And>x. m = Inr x \<Longrightarrow> retsR (f x) Q) \<Longrightarrow> retsR (bindR (liftR m) f) Q"
  by (cases m) auto

lemma retsR_unit [wp]: "retsR (f ()) Q \<Longrightarrow> retsR (bindR (m :: unit run) f) Q"
  by (rule retsR_use [of m "\<lambda>_. True"]) (auto intro: retsRI)

lemma retsR_if [wp]:
  "(c \<Longrightarrow> retsR a Q) \<Longrightarrow> (\<not> c \<Longrightarrow> retsR b Q) \<Longrightarrow> retsR (if c then a else b) Q"
  by simp

lemma retsR_sum [wp]:
  "(\<And>a. x = Inl a \<Longrightarrow> retsR (f a) Q) \<Longrightarrow> (\<And>b. x = Inr b \<Longrightarrow> retsR (g b) Q) \<Longrightarrow>
   retsR (case x of Inl a \<Rightarrow> f a | Inr b \<Rightarrow> g b) Q"
  by (cases x) auto

lemma retsR_option [wp]:
  "(x = None \<Longrightarrow> retsR f Q) \<Longrightarrow> (\<And>b. x = Some b \<Longrightarrow> retsR (g b) Q) \<Longrightarrow>
   retsR (case x of None \<Rightarrow> f | Some b \<Rightarrow> g b) Q"
  by (cases x) auto

lemma retsR_prod [wp]:
  "(\<And>a b. x = (a, b) \<Longrightarrow> retsR (f a b) Q) \<Longrightarrow> retsR (case x of (a, b) \<Rightarrow> f a b) Q"
  by (cases x) auto

lemma retsR_retR [wp]: "Q x \<Longrightarrow> retsR (retR x) Q"
  by simp

lemma retsR_Let [wp]: "(\<And>x. x = v \<Longrightarrow> retsR (f x) Q) \<Longrightarrow> retsR (let x = v in f x) Q"
  by simp

text \<open>Which events a run can raise.\<close>

definition raises :: "'a run \<Rightarrow> (event \<Rightarrow> bool) \<Rightarrow> bool" where
  "raises m E \<longleftrightarrow> (\<forall>l x ev. m = Inr (l, x) \<longrightarrow> Raised ev \<in> set l \<longrightarrow> E ev)"

lemma raisesD: "raises m E \<Longrightarrow> m = Inr (l, x) \<Longrightarrow> Raised ev \<in> set l \<Longrightarrow> E ev"
  by (simp add: raises_def)

lemma raises_bindR [raise_rules]:
  "raises m E \<Longrightarrow> (\<And>x. raises (f x) E) \<Longrightarrow> raises (bindR m f) E"
  unfolding raises_def by (fastforce simp: R_eq_Inr)

lemma raises_pure [raise_rules]:
  "raises (retR x) E" "raises (liftR m) E" "raises (tellR os) E" "raises (Inl e) E"
  by (auto simp: raises_def liftR_eq_Inr tellR_def)

lemma raises_dispatch [raise_rules]: "E ev \<Longrightarrow> raises (dispatch n ev) E"
  by (auto simp: raises_def dispatch_def E_eq_Inr)

lemma raises_cases [raise_rules]:
  "raises a E \<Longrightarrow> raises b E \<Longrightarrow> raises (if c then a else b) E"
  "(\<And>e. raises (f e) E) \<Longrightarrow> (\<And>y. raises (g y) E) \<Longrightarrow>
   raises (case s of Inl e \<Rightarrow> f e | Inr y \<Rightarrow> g y) E"
  "raises a E \<Longrightarrow> (\<And>y. raises (h y) E) \<Longrightarrow> raises (case p of None \<Rightarrow> a | Some y \<Rightarrow> h y) E"
  "(\<And>x y. raises (k x y) E) \<Longrightarrow> raises (case z of (x, y) \<Rightarrow> k x y) E"
  "(\<And>x. raises (j x) E) \<Longrightarrow> raises (let x = v in j x) E"
  by (simp_all split: sum.split option.split prod.split)

subsection \<open>What dispatch calls\<close>

text \<open>Running calls in order: the first that does not return ends the sequence.\<close>

fun seqE :: "'a list res list \<Rightarrow> 'a list res" where
  "seqE [] = Inr []"
| "seqE (m # ms) = bindE m (\<lambda>x. bindE (seqE ms) (\<lambda>y. Inr (x @ y)))"

definition enabled_calls :: "u32 \<Rightarrow> tesla_event_handlers list \<Rightarrow> event \<Rightarrow> out list res list" where
  "enabled_calls msk hs ev =
     List.map_filter (\<lambda>i. if bit msk i then handler_call (hs ! i) ev else None) [0..<length hs]"

lemma dispatch_loop_calls:
  "i + length hs \<le> 32 \<Longrightarrow>
   dispatch_loop msk ev i (map Some hs) =
   seqE (List.map_filter (\<lambda>j. if bit msk (i + j) then handler_call (hs ! j) ev else None) [0..<length hs])"
proof (induction hs arbitrary: i)
  case Nil
  then show ?case by (simp add: List.map_filter_def)
next
  case (Cons h hs)
  have shift: "[0..<length (h # hs)] = 0 # map Suc [0..<length hs]"
    by (simp add: map_Suc_upt upt_conv_Cons del: upt_Suc)
  have mf: "List.map_filter f (map Suc xs) = List.map_filter (\<lambda>j. f (Suc j)) xs"
    for f :: "nat \<Rightarrow> out list res option" and xs
    by (simp add: List.map_filter_def filter_map comp_def)
  from Cons have IH: "dispatch_loop msk ev (Suc i) (map Some hs) =
      seqE (List.map_filter (\<lambda>j. if bit msk (Suc i + j) then handler_call (hs ! j) ev else None)
        [0..<length hs])"
    by simp
  have "msk AND push_bit i 1 \<noteq> 0 \<longleftrightarrow> bit msk i"
    using IS_SET_iff [of msk i] by (simp add: IS_SET_def)
  with Cons.prems show ?case
    unfolding shift
    by (auto simp: List.map_filter_simps mf IH cong: if_cong split: option.split)
qed

lemma dispatch_calls:
  assumes "tem_handlers (event_handlers n) = map Some hs" and "length hs \<le> 32"
  shows "dispatch n ev =
    bindE (seqE (enabled_calls (tem_mask (event_handlers n)) hs ev)) (\<lambda>os.
      Inr (Raised ev # map Printed os, ()))"
  using dispatch_loop_calls [of 0 hs] assms by (simp add: dispatch_def enabled_calls_def)

lemma seqE_Inl:
  "(\<forall>m \<in> set ms. \<exists>x. m = Inr x) \<Longrightarrow> seqE (ms @ Inl e # ms') = Inl e"
  by (induction ms) auto

subsection \<open>Setting handlers\<close>

definition complete_handlers :: "tesla_event_handlers \<Rightarrow> bool" where
  "complete_handlers h \<longleftrightarrow> (\<forall>ev. handler_call h ev \<noteq> None)"

lemma complete_handlers_iff:
  "complete_handlers h \<longleftrightarrow> teh_sunrise h \<noteq> None \<and> teh_sunset h \<noteq> None \<and> teh_init h \<noteq> None
     \<and> teh_transition h \<noteq> None \<and> teh_clone h \<noteq> None \<and> teh_fail_no_instance h \<noteq> None
     \<and> teh_bad_transition h \<noteq> None \<and> teh_err h \<noteq> None \<and> teh_accept h \<noteq> None \<and> teh_ignored h \<noteq> None"
proof
  assume "complete_handlers h"
  then have *: "handler_call h ev \<noteq> None" for ev by (simp add: complete_handlers_def)
  show "teh_sunrise h \<noteq> None \<and> teh_sunset h \<noteq> None \<and> teh_init h \<noteq> None
     \<and> teh_transition h \<noteq> None \<and> teh_clone h \<noteq> None \<and> teh_fail_no_instance h \<noteq> None
     \<and> teh_bad_transition h \<noteq> None \<and> teh_err h \<noteq> None \<and> teh_accept h \<noteq> None \<and> teh_ignored h \<noteq> None"
    using * [of "Sunrise undefined undefined"] * [of "Sunset undefined undefined"]
      * [of "New_instance undefined undefined"] * [of "Transition undefined undefined undefined"]
      * [of "Clone undefined undefined undefined undefined"]
      * [of "No_instance undefined undefined undefined"]
      * [of "Bad_transition undefined undefined undefined"]
      * [of "Err undefined undefined undefined undefined"]
      * [of "Accept undefined undefined"] * [of "Ignored undefined undefined undefined"]
    by (simp add: handler_call_def)
qed (auto simp: complete_handlers_def handler_call_def split: event.split)

lemma check_event_handler_iff:
  "check_event_handler tehp = TESLA_SUCCESS \<longleftrightarrow> (\<exists>h. tehp = Some h \<and> complete_handlers h)"
  "check_event_handler tehp = TESLA_SUCCESS \<or> check_event_handler tehp = TESLA_ERROR_EINVAL"
  by (auto simp: check_event_handler_def complete_handlers_iff split: option.split)

lemma check_handlers_iff:
  "(\<exists>w. check_handlers hs w0 = Inr w) \<longleftrightarrow> (\<forall>h \<in> set hs. \<exists>v. h = Some v \<and> complete_handlers v)"
  "check_handlers hs w0 = Inl e \<Longrightarrow> e = TESLA_ERROR_EINVAL"
  "check_handlers hs w0 = Inr w \<Longrightarrow> w = (w0 \<or> hs \<noteq> [])"
proof (induction hs arbitrary: w0)
  case (Cons h hs)
  { case 1 show ?case
      using Cons(1) check_event_handler_iff(1) [of h] by (auto simp: Let_def) }
  { case 2 then show ?case
      using Cons(2) check_event_handler_iff(2) [of h] by (auto simp: Let_def split: if_splits) }
  { case 3
    then obtain v where "h = Some v" "complete_handlers v"
      using check_event_handler_iff(1) [of h] by (auto simp: Let_def split: if_splits)
    with 3 Cons(3) show ?case
      by (fastforce simp: Let_def complete_handlers_iff split: if_splits) }
qed auto

subsection \<open>The default handlers\<close>

definition failure_event :: "event \<Rightarrow> bool" where
  "failure_event ev = (case ev of
     No_instance _ _ _ \<Rightarrow> True | Bad_transition _ _ _ \<Rightarrow> True | Err _ _ _ _ \<Rightarrow> True | _ \<Rightarrow> False)"

lemma default_dispatch:
  "dispatch (initial_notifier A env) ev =
   bindE (seqE (List.map_filter (\<lambda>h. handler_call h ev)
     [printf_handlers A env, printf_on_failure A env, failstop_handlers A])) (\<lambda>os.
     Inr (Raised ev # map Printed os, ()))"
proof -
  have bits: "bit (0xFF :: u32) 0" "bit (0xFF :: u32) (Suc 0)" "bit (0xFF :: u32) (Suc (Suc 0))"
    by simp_all
  have upt: "[0..<length [printf_handlers A env, printf_on_failure A env, failstop_handlers A]]
      = [0, Suc 0, Suc (Suc 0)]"
    by (simp add: upt_rec)
  show ?thesis
    by (subst dispatch_calls [where hs = "[printf_handlers A env, printf_on_failure A env, failstop_handlers A]"])
      (simp_all add: initial_notifier_def default_event_handlers_def default_handlers_def
        enabled_calls_def upt bits List.map_filter_simps split: option.split)
qed

lemmas default_vectors = printf_handlers_def printf_on_failure_def failstop_handlers_def

lemma symbol_name_cases: "(\<exists>e. symbol_name A a symbol = Inl e) \<or> (\<exists>n. symbol_name A a symbol = Inr n)"
  by (cases "symbol_name A a symbol") auto

lemma seqE_last_Inl: "\<exists>e. seqE [m, m', Inl e'] = Inl e"
  by (cases m; cases m') auto

lemma panic_Inl:
  "\<exists>e. panic_no_instance A c symbol k = Inl e" "\<exists>e. panic_bad_transition A c i symbol = Inl e"
  "\<exists>e. panic_error A a symbol err msg = Inl e"
  by (auto simp: panic_no_instance_def panic_bad_transition_def panic_error_def bindE_def
      split: sum.split)

lemma default_fail_stop:
  assumes "failure_event ev"
  shows "\<exists>e. dispatch (initial_notifier A env) ev = Inl e"
proof -
  have "\<exists>m m' e'. List.map_filter (\<lambda>h. handler_call h ev)
      [printf_handlers A env, printf_on_failure A env, failstop_handlers A] = [m, m', Inl e']"
    using assms panic_Inl
    by (cases ev) (auto simp: failure_event_def handler_call_def default_vectors List.map_filter_simps)
  then obtain m m' e' where calls: "List.map_filter (\<lambda>h. handler_call h ev)
      [printf_handlers A env, printf_on_failure A env, failstop_handlers A] = [m, m', Inl e']" by blast
  obtain e where "seqE [m, m', Inl e'] = Inl e" using seqE_last_Inl by metis
  then show ?thesis unfolding default_dispatch calls by simp
qed

lemma default_quiet:
  assumes "\<not> failure_event ev"
  shows "dispatch (initial_notifier A None) ev = Inr ([Raised ev], ())"
  using assms unfolding default_dispatch
  by (cases ev) (simp_all add: failure_event_def handler_call_def default_vectors
      List.map_filter_simps print_sunrise_def print_sunset_def print_new_instance_def
      print_transition_taken_def print_clone_def print_accept_def print_ignored_def debug_res_def)

text \<open>The message about a missing instance fits its buffer, so the printing handlers return.\<close>

lemma print_no_instance_returns:
  assumes "A (tc_automaton c) = Some autom" and "unat symbol < length (ta_transitions autom)"
  shows "\<exists>os. print_no_instance A c symbol k = Inr os"
proof -
  let ?b0 = "new_sbuf ERROR_BUFFER_LENGTH"
  let ?b1 = "SAFE_SPRINTF ?b0 (''No instance matched key '' @ q)"
  let ?b3 = "SAFE_SPRINTF (key_string ?b1 k) (q @ '' for transition(s) '')"
  have b0: "sbuf_ok ?b0" by (rule new_sbuf_ok) (simp add: ERROR_BUFFER_LENGTH_def)
  have "?b1 = ?b0\<lparr>sb_done := ''No instance matched key '' @ q, sb_tail := []\<rparr>"
    by (subst sprintf_fits) (simp_all add: new_sbuf_def ERROR_BUFFER_LENGTH_def q_def)
  then have "0 < length (sb_done ?b1)" by simp
  moreover have "prints_safely (\<lambda>b. sprint_transitions (SAFE_SPRINTF (key_string b k) s) ts)" for s ts
    by (intro safely_comp [OF _ safely_transitions] safely_then(1) safely_key)
  then have "\<exists>x. sb_done (sprint_transitions (SAFE_SPRINTF (key_string ?b1 k) s) ts) = sb_done ?b1 @ x" for s ts
    using sprintf_ok [OF b0] by (simp add: prints_safely_def)
  ultimately have "0 < length (sb_done (sprint_transitions ?b3 ts))" for ts
    by (metis append_is_Nil_conv length_greater_0_conv)
  with assms show ?thesis
    by (auto simp: print_no_instance_def print_failure_header_def Let_def)
qed

lemma default_panics:
  assumes "A (tc_automaton c) = Some autom" and "unat symbol < length (ta_transitions autom)"
    and "unat symbol < length (ta_symbol_names autom)"
  shows "dispatch (initial_notifier A env) (No_instance c symbol k) =
    Inl (Panic (''TESLA: failure in '' @ q @ ta_name autom @ q @ '' ''
      @ ta_symbol_names autom ! unat symbol @ '': no such instance''))"
proof -
  from print_no_instance_returns [of A c autom symbol k, OF assms(1,2)] obtain os where
    "print_no_instance A c symbol k = Inr os" by blast
  with assms show ?thesis unfolding default_dispatch
    by (simp add: handler_call_def default_vectors List.map_filter_simps panic_no_instance_def
        symbol_name_def)
qed


subsection \<open>Theorems\<close>

text \<open>
  C24.  Raising an event calls exactly the handlers that are enabled in the mask and registered for
  this kind of event, in the order of the vectors; what they print is logged after the event, and
  the first one that does not return ends the dispatch.
\<close>

theorem dispatch_exact:
  assumes "tem_handlers (event_handlers n) = map Some hs" and "length hs \<le> 32"
  shows "dispatch n ev =
    bindE (seqE (enabled_calls (tem_mask (event_handlers n)) hs ev)) (\<lambda>os.
      Inr (Raised ev # map Printed os, ()))"
  using assms by (rule dispatch_calls)

definition ex_vector :: "string \<Rightarrow> tesla_event_handlers" where
  "ex_vector s = \<lparr>teh_sunrise = Some (\<lambda>c lt. Inr [Stdout s]), teh_sunset = None, teh_init = None,
     teh_transition = None, teh_clone = None, teh_fail_no_instance = None, teh_bad_transition = None,
     teh_err = None, teh_accept = None, teh_ignored = None\<rparr>"

definition ex_masked :: notifier where
  "ex_masked = \<lparr>event_handlers = \<lparr>tem_mask = 5,
     tem_handlers = map Some [ex_vector ''a'', ex_vector ''b'', ex_vector ''c'']\<rparr>, have_transitions = False\<rparr>"

theorem dispatch_exact_witness:
  "\<forall>lt. dispatch ex_masked (Sunrise TESLA_CONTEXT_GLOBAL lt) =
     Inr ([Raised (Sunrise TESLA_CONTEXT_GLOBAL lt), Printed (Stdout ''a''), Printed (Stdout ''c'')], ())"
proof
  fix lt
  let ?hs = "[ex_vector ''a'', ex_vector ''b'', ex_vector ''c'']"
  have upt: "[0..<3] = [0, Suc 0, Suc (Suc 0)]" by (simp add: upt_rec)
  have bits: "bit (5 :: u32) 0" "\<not> bit (5 :: u32) (Suc 0)" "bit (5 :: u32) (Suc (Suc 0))" by simp_all
  have "enabled_calls 5 ?hs (Sunrise TESLA_CONTEXT_GLOBAL lt) = [Inr [Stdout ''a''], Inr [Stdout ''c'']]"
    by (simp add: enabled_calls_def upt bits handler_call_def ex_vector_def List.map_filter_simps)
  then show "dispatch ex_masked (Sunrise TESLA_CONTEXT_GLOBAL lt) =
     Inr ([Raised (Sunrise TESLA_CONTEXT_GLOBAL lt), Printed (Stdout ''a''), Printed (Stdout ''c'')], ())"
    using dispatch_exact [of ex_masked ?hs "Sunrise TESLA_CONTEXT_GLOBAL lt"]
    by (simp add: ex_masked_def)
qed

text \<open>
  C25.  \<open>tesla_set_event_handlers\<close> installs a metahandler exactly when every vector of it is present
  and handles every kind of event; otherwise it returns \<open>TESLA_ERROR_EINVAL\<close> and the handlers in
  use stay as they were.
\<close>

theorem set_event_handlers_validates:
  "tesla_set_event_handlers n (Some m) =
     (if list_all (\<lambda>h. \<exists>v. h = Some v \<and> complete_handlers v) (tem_handlers m)
      then (TESLA_SUCCESS, n\<lparr>have_transitions := (tem_handlers m \<noteq> []), event_handlers := m\<rparr>)
      else (TESLA_ERROR_EINVAL, n))"
proof (cases "check_handlers (tem_handlers m) False")
  case (Inl e)
  then have "\<not> list_all (\<lambda>h. \<exists>v. h = Some v \<and> complete_handlers v) (tem_handlers m)"
    using check_handlers_iff(1) [of "tem_handlers m" False] by (simp add: list_all_iff)
  with Inl check_handlers_iff(2) [OF Inl] show ?thesis by (simp add: tesla_set_event_handlers_def)
next
  case (Inr w)
  then have "list_all (\<lambda>h. \<exists>v. h = Some v \<and> complete_handlers v) (tem_handlers m)"
    using check_handlers_iff(1) [of "tem_handlers m" False] by (simp add: list_all_iff)
  with Inr check_handlers_iff(3) [OF Inr] show ?thesis by (simp add: tesla_set_event_handlers_def)
qed

text \<open>
  C26.  With the default handlers of userspace and no debugging, an event that reports a failure
  never returns to the instrumented code, and every other event is silent.
\<close>

theorem default_policy:
  "if failure_event ev then \<exists>e. dispatch (initial_notifier A env) ev = Inl e
   else dispatch (initial_notifier A None) ev = Inr ([Raised ev], ())"
  using default_fail_stop default_quiet by simp

text \<open>The library's own default metahandler is not one that it would accept: two of its vectors
  handle failures only.\<close>

theorem default_rejected:
  "tesla_set_event_handlers n (Some (default_event_handlers A env)) = (TESLA_ERROR_EINVAL, n)"
  unfolding tesla_set_event_handlers_def default_event_handlers_def default_handlers_def
  by (simp add: check_event_handler_def default_vectors)

end
