(* ===== verification/Tesla_Update.thy ===== *)
theory Tesla_Update
  imports Tesla_Store Tesla_Notification
begin

text \<open>
  Updating automata (\<open>libtesla/src/tesla_update.c\<close>).  \<open>tesla_action\<close> decides what one instance
  does with an event, \<open>tesla_update_class_state\<close> applies that to the instances of a class (late
  initialisation, the walk over the instances, cloning, notification, cleanup), and
  \<open>tesla_sunrise\<close>, \<open>tesla_sunset\<close> and \<open>tesla_update_state\<close> are the entry points that
  instrumented code calls.

  A \<open>runtime\<close> is what stays fixed during a call: the automata descriptions, the value of
  \<open>TESLA_DEBUG\<close>, the notifier, and whether the library was built for the kernel (\<open>_KERNEL\<close>).  A variable-length array with no elements (\<open>clones\<close> when
  \<open>tc_free\<close> is 0) is the empty list, as the supported compilers have it.
\<close>

record runtime =
  rt_automata :: automata
  rt_env :: "string option"
  rt_notify :: notifier
  rt_kernel :: bool

subsection \<open>What an instance does with an event\<close>

datatype tesla_action_t = UPDATE | FORK | JOIN | IGNORE | FAIL

text \<open>The loop over the transitions: the action and \<open>*trigger\<close>.\<close>

fun action_loop ::
  "tesla_instance \<Rightarrow> tesla_key \<Rightarrow> tesla_transitions \<Rightarrow> bool
    \<Rightarrow> (tesla_action_t \<times> tesla_transition option) res" where
  "action_loop inst event_data [] ignore = Inr (if ignore then IGNORE else FAIL, None)"
| "action_loop inst event_data (t # ts) ignore =
     (if t_from t = ti_state inst then
        bindE (assertE ''inst->ti_key.tk_mask == t->from_mask''
                 (tk_mask (ti_key inst) = t_from_mask t)) (\<lambda>_.
          let pattern = event_data\<lparr>tk_mask := tk_mask event_data AND t_from_mask t\<rparr> in
          if \<not> SUBSET (t_from_mask t) (t_to_mask t) \<and> \<not> has_flag t TESLA_TRANS_CLEANUP
          then Inr (JOIN, Some t)
          else if SUBSET (t_to_mask t) (t_from_mask t) then
            let masked_name = (ti_key inst)\<lparr>tk_mask :=
                  tk_mask (ti_key inst) AND (tk_mask pattern OR tk_freemask pattern)\<rparr> in
            if tesla_key_matches pattern masked_name then Inr (UPDATE, Some t)
            else action_loop inst event_data ts ignore
          else
            if tesla_key_matches pattern (ti_key inst) then Inr (FORK, Some t)
            else action_loop inst event_data ts ignore)
      else
        action_loop inst event_data ts
          (if tesla_key_matches event_data (ti_key inst) then False else ignore))"

definition tesla_action ::
  "tesla_instance \<Rightarrow> tesla_key \<Rightarrow> tesla_transitions
    \<Rightarrow> (tesla_action_t \<times> tesla_transition option) res" where
  "tesla_action inst event_data tset =
     (if \<not> tesla_instance_active inst then Inr (IGNORE, None)
      else action_loop inst event_data tset True)"

subsection \<open>Late initialisation\<close>

text \<open>Which lifetime, of the first \<open>ts_lifetime_count\<close>, is the given one.\<close>

fun find_lifetime :: "tesla_lifetime res \<Rightarrow> tesla_lifetime_state list \<Rightarrow> nat list \<Rightarrow> nat option res" where
  "find_lifetime l lss [] = Inr None"
| "find_lifetime l lss (i # is) =
     bindE l (\<lambda>lt.
     bindE (nthE ''ts_lifetimes'' lss i) (\<lambda>ls.
       if same_static_lifetime lt ls then Inr (Some i) else find_lifetime l lss is))"

text \<open>
  The two loops that look for the init transition share the counter \<open>i\<close>: the inner one tests
  and increments \<open>i\<close>, not \<open>j\<close>, and so reads \<open>transitions[0]\<close> every time.  Its \<open>break\<close> leaves
  only the inner loop.
\<close>

function init_inner ::
  "tesla_class \<Rightarrow> tesla_transitions \<Rightarrow> nat \<Rightarrow> nat option
    \<Rightarrow> (tesla_err + tesla_class \<times> nat \<times> nat option) res" where
  "init_inner c tset i inst =
     (if i < length tset then
        bindE (nthE ''transitions'' tset 0) (\<lambda>t.
          if \<not> has_flag t TESLA_TRANS_INIT then init_inner c tset (i + 1) inst
          else bindE (tesla_instance_new c zero_key (t_to t)) (\<lambda>r. case r of
            Inl err \<Rightarrow> Inr (Inl err)
          | Inr (c', k) \<Rightarrow> Inr (Inr (c', i, Some k))))
      else Inr (Inr (c, i, inst)))"
  by pat_completeness auto
termination
  by (relation "measure (\<lambda>(c, tset, i, inst). length tset - i)") auto

declare init_inner.simps [simp del]

text \<open>Since the inner loop looks at one transition only, it ends at once or runs \<open>i\<close> to the end.\<close>

lemma init_inner_eq:
  "init_inner c tset i inst =
    (if i < length tset then
       if has_flag (tset ! 0) TESLA_TRANS_INIT then
         bindE (tesla_instance_new c zero_key (t_to (tset ! 0))) (\<lambda>r. case r of
            Inl err \<Rightarrow> Inr (Inl err)
          | Inr (c', k) \<Rightarrow> Inr (Inr (c', i, Some k)))
       else Inr (Inr (c, length tset, inst))
     else Inr (Inr (c, i, inst)))"
proof (induction c tset i inst rule: init_inner.induct)
  case (1 c tset i inst)
  show ?case
  proof (cases "i < length tset")
    case True
    then have "nthE ''transitions'' tset 0 = Inr (tset ! 0)"
      by (intro nthE_in) linarith
    with True 1 show ?thesis
      by (subst init_inner.simps) auto
  qed (simp add: init_inner.simps)
qed

lemma init_inner_mono: "init_inner c tset i inst = Inr (Inr (c', i', inst')) \<Longrightarrow> i \<le> i'"
  by (auto simp: init_inner_eq E_eq_Inr case_eqs)

text \<open>\<open>Inl\<close>: \<open>tesla_instance_new\<close> failed (the class as it stands then).\<close>

function init_outer ::
  "tesla_automaton \<Rightarrow> tesla_class \<Rightarrow> nat \<Rightarrow> nat option
    \<Rightarrow> (tesla_class \<times> tesla_err + tesla_class \<times> nat option) res" where
  "init_outer autom c i inst =
     (if i < unat (ta_alphabet_size autom) then
        bindE (nthE ''ta_transitions'' (ta_transitions autom) i) (\<lambda>tset.
        bindE (init_inner c tset i inst) (\<lambda>r. case r of
          Inl err \<Rightarrow> Inr (Inl (c, err))
        | Inr (c', i', inst') \<Rightarrow> init_outer autom c' (i' + 1) inst'))
      else Inr (Inr (c, inst)))"
  by pat_completeness auto
termination
  by (relation "measure (\<lambda>(autom, c, i, inst). unat (ta_alphabet_size autom) - i)")
    (auto dest: init_inner_mono)

declare init_outer.simps [simp del]

text \<open>Registering a class for cleanup: a static slot, else one more dynamic one.\<close>

definition first_free :: "nat option list \<Rightarrow> nat option" where
  "first_free xs = find (\<lambda>i. xs ! i = None) [0..<length xs]"

definition register_class ::
  "tesla_lifetime_state \<Rightarrow> nat \<Rightarrow> mallocs \<Rightarrow> (tesla_lifetime_state \<times> mallocs) res" where
  "register_class ls k ms = (case first_free (tls_classes ls) of
     Some i \<Rightarrow> Inr (ls\<lparr>tls_classes := (tls_classes ls)[i := Some k]\<rparr>, ms)
   | None \<Rightarrow>
       let (ok, ms') = tesla_malloc ms;
           count = (if tls_dyn_capacity ls = 0 then 8 else 2 * tls_dyn_capacity ls);
           ls' = ls\<lparr>tls_dyn_capacity := count\<rparr>
       in bindE (assertE ''ls->tls_dyn_count < ls->tls_dyn_capacity''
                   (tls_dyn_count ls' < tls_dyn_capacity ls')) (\<lambda>_.
          if \<not> ok then Inl (Undefined ''tls_dyn_classes'')
          else Inr (ls'\<lparr>tls_dyn_classes := tls_dyn_classes ls' @ [Some k],
                       tls_dyn_count := tls_dyn_count ls' + 1\<rparr>, ms')))"

text \<open>The kernel does not allocate dynamic slots: a class that finds no static one is reported, and stays
  unregistered.\<close>

definition register_cleanup ::
  "runtime \<Rightarrow> uintptr \<Rightarrow> u32 \<Rightarrow> tesla_lifetime_state \<Rightarrow> nat \<Rightarrow> mallocs \<Rightarrow> (tesla_lifetime_state \<times> mallocs) run" where
  "register_cleanup rt a symbol ls k ms =
     (if rt_kernel rt \<and> first_free (tls_classes ls) = None
      then bindR (ev_err (rt_notify rt) a symbol TESLA_ERROR_ENOMEM ''out of static registration space in lifetime'') (\<lambda>_.
        retR (ls, ms))
      else liftR (register_class ls k ms))"

definition set_class :: "tesla_store \<Rightarrow> nat \<Rightarrow> tesla_class \<Rightarrow> tesla_store" where
  "set_class st k c = st\<lparr>ts_classes := Some ((classes st)[k := c])\<rparr>"

definition set_lifetime :: "tesla_store \<Rightarrow> nat \<Rightarrow> tesla_lifetime_state \<Rightarrow> tesla_store" where
  "set_lifetime st i ls = st\<lparr>ts_lifetimes := Some ((lifetimes st)[i := ls])\<rparr>"

text \<open>
  The \<open>else if (class->tc_limit == class->tc_free)\<close> branch: whether the function goes on, and
  the class and the lifetime.
\<close>

definition late_init ::
  "runtime \<Rightarrow> uintptr \<Rightarrow> tesla_automaton \<Rightarrow> u32 \<Rightarrow> nat \<Rightarrow> tesla_class \<Rightarrow> tesla_lifetime_state
    \<Rightarrow> mallocs \<Rightarrow> (bool \<times> tesla_class \<times> tesla_lifetime_state \<times> mallocs) run" where
  "late_init rt a autom symbol k c ls ms =
     bindR (liftR (init_outer autom c 0 None)) (\<lambda>r. case r of
       Inl (c', err) \<Rightarrow>
         bindR (ev_err (rt_notify rt) a symbol err ''failed to initialise instance'') (\<lambda>_.
           retR (False, c', ls, ms))
     | Inr (c', None) \<Rightarrow>
         bindR (ev_err (rt_notify rt) a symbol TESLA_ERROR_EINVAL ''automaton has no init transition'') (\<lambda>_.
           retR (False, c', ls, ms))
     | Inr (c', Some i) \<Rightarrow>
         bindR (liftR (bindE (nthE ''inst'' (insts c') i) (\<lambda>inst.
                  assertE ''tesla_instance_active(inst)'' (tesla_instance_active inst)))) (\<lambda>_.
         bindR (ev_new_instance (rt_notify rt) c' i) (\<lambda>_.
         bindR (register_cleanup rt a symbol ls k ms) (\<lambda>(ls', ms').
           retR (True, c', ls', ms')))))"

subsection \<open>The walk over the instances\<close>

record upd =
  u_class :: tesla_class
  u_expected :: int
  u_clones :: "(nat \<times> tesla_transition) list"
  u_matched :: bool
  u_cleanup :: bool

text \<open>The debug build checks that a \<open>JOIN\<close> has an instance to merge into.\<close>

definition join_target :: "tesla_class \<Rightarrow> u32 \<Rightarrow> nat option" where
  "join_target c to = find (\<lambda>j. ti_state (insts c ! j) = to) [0..<unat (tc_limit c)]"

text \<open>\<open>Inl c\<close>: the function has returned; \<open>Inr\<close>: the loop goes on.\<close>

definition take_action ::
  "runtime \<Rightarrow> uintptr \<Rightarrow> u32 \<Rightarrow> nat \<Rightarrow> upd \<Rightarrow> nat \<Rightarrow> tesla_instance
    \<Rightarrow> tesla_action_t \<times> tesla_transition option \<Rightarrow> (tesla_class + upd) run" where
  "take_action rt a symbol max_clones u i inst act = (case act of
     (FAIL, trigger) \<Rightarrow>
       bindR (ev_bad_transition (rt_notify rt) (u_class u) i symbol) (\<lambda>_. retR (Inr u))
   | (IGNORE, trigger) \<Rightarrow> retR (Inr u)
   | (UPDATE, trigger) \<Rightarrow>
       bindR (liftR (derefE ''trigger'' trigger)) (\<lambda>t.
       bindR (if have_transitions (rt_notify rt)
              then ev_transition (rt_notify rt) (u_class u) i t else retR ()) (\<lambda>_.
         let c = set_inst (u_class u) i (inst\<lparr>ti_state := t_to t\<rparr>) in
         bindR (if has_flag t TESLA_TRANS_CLEANUP
                then ev_accept (rt_notify rt) c i else retR ()) (\<lambda>_.
           retR (Inr (u\<lparr>u_class := c, u_matched := True\<rparr>)))))
   | (FORK, trigger) \<Rightarrow>
       if max_clones \<le> length (u_clones u) then
         bindR (ev_err (rt_notify rt) a symbol TESLA_ERROR_ENOMEM ''too many clones'') (\<lambda>_.
           retR (Inl (u_class u)))
       else
         bindR (liftR (derefE ''trigger'' trigger)) (\<lambda>t.
           retR (Inr (u\<lparr>u_clones := u_clones u @ [(i, t)], u_matched := True\<rparr>)))
   | (JOIN, trigger) \<Rightarrow>
       bindR (liftR (derefE ''trigger'' trigger)) (\<lambda>t.
       bindR (liftR (assertE ''target >= 0''
                (case join_target (u_class u) (t_to t) of
                   None \<Rightarrow> False | Some j \<Rightarrow> 0 \<le> sint (of_nat j :: 32 word)))) (\<lambda>_.
       bindR (liftR (tesla_instance_clear inst)) (\<lambda>inst'.
         retR (Inr (u\<lparr>u_class := set_inst (u_class u) i inst'\<rparr>))))))"

definition is_cleanup :: "tesla_transition option \<Rightarrow> bool" where
  "is_cleanup trigger = (case trigger of None \<Rightarrow> False | Some t \<Rightarrow> has_flag t TESLA_TRANS_CLEANUP)"

text \<open>The body of the loop for the instance at index \<open>i\<close>.\<close>

definition instance_step ::
  "runtime \<Rightarrow> uintptr \<Rightarrow> u32 \<Rightarrow> tesla_key \<Rightarrow> tesla_transitions \<Rightarrow> nat \<Rightarrow> upd \<Rightarrow> nat
    \<Rightarrow> (tesla_class + upd) run" where
  "instance_step rt a symbol pattern tset max_clones u i =
     bindR (liftR (assertE ''class->tc_instances != NULL'' (tc_instances (u_class u) \<noteq> None))) (\<lambda>_.
     bindR (liftR (nthE ''tc_instances'' (insts (u_class u)) i)) (\<lambda>inst.
     bindR (liftR (tesla_action inst pattern tset)) (\<lambda>act.
     bindR (take_action rt a symbol max_clones
              (u\<lparr>u_expected := u_expected u - (if fst act = IGNORE then 0 else 1)\<rparr>) i inst act) (\<lambda>r.
       case r of
         Inl c \<Rightarrow> retR (Inl c)
       | Inr u' \<Rightarrow> retR (Inr (if is_cleanup (snd act) then u'\<lparr>u_cleanup := True\<rparr> else u'))))))"

fun update_loop ::
  "runtime \<Rightarrow> uintptr \<Rightarrow> u32 \<Rightarrow> tesla_key \<Rightarrow> tesla_transitions \<Rightarrow> nat \<Rightarrow> upd \<Rightarrow> nat list
    \<Rightarrow> (tesla_class + upd) run" where
  "update_loop rt a symbol pattern tset max_clones u [] = retR (Inr u)"
| "update_loop rt a symbol pattern tset max_clones u (i # is) =
     (if \<not> 0 < u_expected u then retR (Inr u)
      else bindR (instance_step rt a symbol pattern tset max_clones u i) (\<lambda>r. case r of
        Inl c \<Rightarrow> retR (Inl c)
      | Inr u' \<Rightarrow> update_loop rt a symbol pattern tset max_clones u' is))"

subsection \<open>Cloning\<close>

text \<open>Whether the function goes on, and the class.\<close>

definition clone_one ::
  "runtime \<Rightarrow> uintptr \<Rightarrow> u32 \<Rightarrow> tesla_key \<Rightarrow> tesla_class \<Rightarrow> nat \<times> tesla_transition
    \<Rightarrow> (bool \<times> tesla_class) run" where
  "clone_one rt a symbol pattern c info = (case info of (old, t) \<Rightarrow>
     bindR (liftR (nthE ''c->old'' (insts c) old)) (\<lambda>orig.
     bindR (liftR (tesla_instance_clone c orig)) (\<lambda>r. case r of
       Inl err \<Rightarrow>
         bindR (ev_err (rt_notify rt) a symbol err ''failed to clone instance'') (\<lambda>_.
           retR (False, c))
     | Inr (c1, i) \<Rightarrow>
         let new_name = pattern\<lparr>tk_mask := tk_mask pattern AND t_to_mask t\<rparr>;
             (err, key) = tesla_key_union (ti_key (insts c1 ! i)) new_name;
             c2 = set_inst c1 i ((insts c1 ! i)\<lparr>ti_key := key\<rparr>)
         in if err \<noteq> TESLA_SUCCESS then
              bindR (ev_err (rt_notify rt) a symbol err ''failed to union keys'') (\<lambda>_.
                retR (False, c2))
            else
              let c3 = set_inst c2 i ((insts c2 ! i)\<lparr>ti_state := t_to t\<rparr>) in
              bindR (ev_clone (rt_notify rt) c3 old i t) (\<lambda>_.
              bindR (if has_flag t TESLA_TRANS_CLEANUP
                     then ev_accept (rt_notify rt) c3 i else retR ()) (\<lambda>_.
                retR (True, c3))))))"

fun clone_loop ::
  "runtime \<Rightarrow> uintptr \<Rightarrow> u32 \<Rightarrow> tesla_key \<Rightarrow> tesla_class \<Rightarrow> (nat \<times> tesla_transition) list
    \<Rightarrow> (bool \<times> tesla_class) run" where
  "clone_loop rt a symbol pattern c [] = retR (True, c)"
| "clone_loop rt a symbol pattern c (info # infos) =
     bindR (clone_one rt a symbol pattern c info) (\<lambda>(go, c').
       if go then clone_loop rt a symbol pattern c' infos else retR (False, c'))"

subsection \<open>Updating a class\<close>

text \<open>From \<open>bool matched_something\<close> to the end of the function.\<close>

definition step_class ::
  "runtime \<Rightarrow> uintptr \<Rightarrow> tesla_automaton \<Rightarrow> u32 \<Rightarrow> tesla_key \<Rightarrow> nat \<Rightarrow> tesla_class \<Rightarrow> tesla_class run" where
  "step_class rt a autom symbol pattern max_clones c =
     bindR (liftR (nthE ''ta_transitions'' (ta_transitions autom) (unat symbol))) (\<lambda>tset.
     bindR (liftR (assertE ''trans->length > 0'' (0 < length tset))) (\<lambda>_.
     bindR (liftR (assertE ''trans->length < 10000'' (length tset < 10000))) (\<lambda>_.
     bindR (update_loop rt a symbol pattern tset max_clones
              \<lparr>u_class = c, u_expected = sint (tc_limit c - tc_free c), u_clones = [],
                u_matched = False, u_cleanup = False\<rparr> [0..<unat (tc_limit c)]) (\<lambda>r. case r of
       Inl c' \<Rightarrow> retR c'
     | Inr u \<Rightarrow>
         bindR (clone_loop rt a symbol pattern (u_class u) (u_clones u)) (\<lambda>(go, c').
           if \<not> go then retR c'
           else
             bindR (if \<not> u_matched u then ev_no_instance (rt_notify rt) c' symbol pattern
                    else retR ()) (\<lambda>_.
               if u_cleanup u then
                 bindR (liftR (tesla_class_reset (rt_automata rt) (rt_env rt) c')) (\<lambda>(msg, c'').
                 bindR (tellR msg) (\<lambda>_. retR c''))
               else retR c'))))))"

text \<open>The rest of \<open>tesla_update_class_state\<close> once the lifetime, at index \<open>li\<close>, is known.\<close>

definition update_initialised ::
  "runtime \<Rightarrow> tesla_store \<Rightarrow> nat \<Rightarrow> u32 \<Rightarrow> tesla_key \<Rightarrow> mallocs \<Rightarrow> tesla_class \<Rightarrow> tesla_automaton
    \<Rightarrow> nat \<Rightarrow> (tesla_store \<times> mallocs) run" where
  "update_initialised rt st k symbol pattern ms c autom li =
     (let a = tc_automaton c; max_clones = unat (tc_free c) in
      bindR (if tc_limit c = tc_free c
             then late_init rt a autom symbol k c (lifetimes st ! li) ms
             else retR (True, c, lifetimes st ! li, ms)) (\<lambda>(go, c1, ls, ms1).
        let st1 = set_lifetime (set_class st k c1) li ls in
        if \<not> go then retR (st1, ms1)
        else
          bindR (step_class rt a autom symbol pattern max_clones c1) (\<lambda>c2.
            retR (set_class st1 k c2, ms1))))"

definition tesla_update_class_state ::
  "runtime \<Rightarrow> tesla_store \<Rightarrow> nat \<Rightarrow> u32 \<Rightarrow> tesla_key \<Rightarrow> mallocs \<Rightarrow> (tesla_store \<times> mallocs) run" where
  "tesla_update_class_state rt st k symbol pattern ms =
     bindR (liftR (nthE ''class'' (classes st) k)) (\<lambda>c.
       let autom = derefE ''tc_automaton'' (rt_automata rt (tc_automaton c)) in
       bindR (liftR (find_lifetime (bindE autom (\<lambda>au. Inr (ta_lifetime au))) (lifetimes st)
                [0..<unat (ts_lifetime_count st)])) (\<lambda>found. case found of
         None \<Rightarrow>
           bindR (ev_ignored (rt_notify rt) c symbol pattern) (\<lambda>_. retR (st, ms))
       | Some li \<Rightarrow>
           bindR (liftR autom) (\<lambda>au. update_initialised rt st k symbol pattern ms c au li)))"

subsection \<open>Entry points\<close>

text \<open>\<open>tesla_store_get\<close> with the asserted success.\<close>

definition get_store ::
  "store_env \<Rightarrow> nat \<Rightarrow> tesla_context \<Rightarrow> mallocs \<Rightarrow> (store_ref \<times> tesla_store \<times> store_env \<times> mallocs) res" where
  "get_store e tid ctx ms =
     bindE (tesla_store_get e tid ctx TESLA_MAX_CLASSES TESLA_MAX_INSTANCES ms) (\<lambda>(r, e', ms').
       case r of
         Inl err \<Rightarrow> Inl (Assertion ''ret == TESLA_SUCCESS'')
       | Inr s \<Rightarrow> bindE (derefE ''store'' (store_at e' s)) (\<lambda>st. Inr (s, st, e', ms')))"

text \<open>\<open>tesla_sunrise\<close> on the store.\<close>

definition sunrise_store :: "tesla_store \<Rightarrow> tesla_lifetime \<Rightarrow> tesla_store res" where
  "sunrise_store st l =
     bindE (assertE ''store->ts_lifetime_count < store->ts_length''
              (ts_lifetime_count st < ts_length st)) (\<lambda>_.
     bindE (find_lifetime (Inr l) (lifetimes st) [0..<unat (ts_lifetime_count st)]) (\<lambda>found.
       case found of
         Some i \<Rightarrow> Inr st
       | None \<Rightarrow>
           let i = unat (ts_lifetime_count st) in
           bindE (nthE ''ts_lifetimes'' (lifetimes st) i) (\<lambda>ls.
             Inr (set_lifetime (st\<lparr>ts_lifetime_count := ts_lifetime_count st + 1\<rparr>) i
               (ls\<lparr>tls_begin := tl_begin l, tls_end := tl_end l\<rparr>)))))"

definition tesla_sunrise ::
  "runtime \<Rightarrow> store_env \<Rightarrow> nat \<Rightarrow> tesla_context \<Rightarrow> tesla_lifetime \<Rightarrow> mallocs
    \<Rightarrow> (store_env \<times> mallocs) run" where
  "tesla_sunrise rt e tid ctx l ms =
     bindR (liftR (get_store e tid ctx ms)) (\<lambda>(r, st, e1, ms1).
     bindR (liftR (sunrise_store st l)) (\<lambda>st'.
     bindR (ev_sunrise (rt_notify rt) ctx l) (\<lambda>_.
       retR (set_store e1 r st', ms1))))"

text \<open>
  The cleanup loops of \<open>tesla_sunset\<close>, over the slots still to visit: the array is read again
  at every step, since an update may register a class in it.
\<close>

fun sunset_loop ::
  "runtime \<Rightarrow> tesla_key \<Rightarrow> (tesla_lifetime_state \<Rightarrow> nat option list) \<Rightarrow> nat \<Rightarrow> tesla_store
    \<Rightarrow> mallocs \<Rightarrow> nat list \<Rightarrow> (tesla_store \<times> mallocs) run" where
  "sunset_loop rt empty_key sel li st ms [] = retR (st, ms)"
| "sunset_loop rt empty_key sel li st ms (i # is) =
     bindR (liftR (nthE ''ts_lifetimes'' (lifetimes st) li)) (\<lambda>ls.
     bindR (liftR (nthE ''classes of the lifetime'' (sel ls) i)) (\<lambda>slot. case slot of
       None \<Rightarrow> retR (st, ms)
     | Some k \<Rightarrow>
         bindR (liftR (nthE ''class'' (classes st) k)) (\<lambda>c.
         bindR (liftR (derefE ''tc_automaton'' (rt_automata rt (tc_automaton c)))) (\<lambda>au.
         bindR (tesla_update_class_state rt st k (ta_cleanup_symbol au) empty_key ms) (\<lambda>(st', ms').
           sunset_loop rt empty_key sel li st' ms' is)))))"

definition clear_static :: "tesla_store \<Rightarrow> nat \<Rightarrow> tesla_store" where
  "clear_static st li = (let ls = lifetimes st ! li in
     set_lifetime st li (ls\<lparr>tls_classes := replicate (length (tls_classes ls)) None\<rparr>))"

definition clear_dynamic :: "tesla_store \<Rightarrow> nat \<Rightarrow> tesla_store" where
  "clear_dynamic st li = (let ls = lifetimes st ! li in
     set_lifetime st li (ls\<lparr>tls_dyn_classes := replicate (length (tls_dyn_classes ls)) None\<rparr>))"

definition sunset_store ::
  "runtime \<Rightarrow> tesla_key \<Rightarrow> tesla_store \<Rightarrow> tesla_lifetime \<Rightarrow> mallocs \<Rightarrow> (tesla_store \<times> mallocs) run" where
  "sunset_store rt empty_key st l ms =
     bindR (liftR (assertE ''store->ts_lifetime_count < store->ts_length''
              (ts_lifetime_count st < ts_length st))) (\<lambda>_.
     bindR (liftR (find_lifetime (Inr l) (lifetimes st) [0..<unat (ts_lifetime_count st)])) (\<lambda>found.
       case found of
         None \<Rightarrow> Inl (Assertion ''tesla_sunset() without corresponding sunrise'')
       | Some li \<Rightarrow>
           bindR (sunset_loop rt empty_key tls_classes li st ms [0..<TLS_STATIC_CLASSES]) (\<lambda>(st1, ms1).
             let st2 = clear_static st1 li in
             bindR (sunset_loop rt empty_key tls_dyn_classes li st2 ms1
                      [0..<unat (tls_dyn_count (lifetimes st2 ! li))]) (\<lambda>(st3, ms3).
               retR (clear_dynamic st3 li, ms3)))))"

text \<open>
  \<open>empty_key\<close> is an automatic variable of which only \<open>tk_mask\<close> is assigned; \<open>junk\<close> is what its
  memory held.
\<close>

definition tesla_sunset ::
  "runtime \<Rightarrow> tesla_key \<Rightarrow> store_env \<Rightarrow> nat \<Rightarrow> tesla_context \<Rightarrow> tesla_lifetime \<Rightarrow> mallocs
    \<Rightarrow> (store_env \<times> mallocs) run" where
  "tesla_sunset rt junk e tid ctx l ms =
     bindR (ev_sunset (rt_notify rt) ctx l) (\<lambda>_.
     bindR (liftR (get_store e tid ctx ms)) (\<lambda>(r, st, e1, ms1).
     bindR (sunset_store rt (junk\<lparr>tk_mask := 0\<rparr>) st l ms1) (\<lambda>(st', ms').
       retR (set_store e1 r st', ms'))))"

text \<open>\<open>tesla_update_state\<close> on the store.\<close>

definition update_store ::
  "runtime \<Rightarrow> tesla_store \<Rightarrow> uintptr \<Rightarrow> u32 \<Rightarrow> tesla_key \<Rightarrow> mallocs \<Rightarrow> (tesla_store \<times> mallocs) run" where
  "update_store rt st autom symbol pattern ms =
     bindR (liftR (tesla_class_get st autom)) (\<lambda>r. case r of
       Inl err \<Rightarrow> Inl (Assertion ''ret == TESLA_SUCCESS'')
     | Inr (st1, k) \<Rightarrow>
         bindR (tesla_update_class_state rt st1 k symbol pattern ms) (\<lambda>(st2, ms2).
         bindR (liftR (bindE (nthE ''class'' (classes st2) k) tesla_class_put)) (\<lambda>c.
           retR (set_class st2 k c, ms2))))"

definition tesla_update_state ::
  "runtime \<Rightarrow> store_env \<Rightarrow> nat \<Rightarrow> tesla_context \<Rightarrow> uintptr \<Rightarrow> u32 \<Rightarrow> tesla_key \<Rightarrow> mallocs
    \<Rightarrow> (store_env \<times> mallocs) run" where
  "tesla_update_state rt e tid ctx autom symbol pattern ms =
     bindR (liftR (get_store e tid ctx ms)) (\<lambda>(r, st, e1, ms1).
     bindR (update_store rt st autom symbol pattern ms1) (\<lambda>(st', ms').
       retR (set_store e1 r st', ms')))"

end
