(* ===== verification/Tesla_Update_Inv.thy ===== *)
theory Tesla_Update_Inv
  imports Tesla_Update
begin

text \<open>
  The invariants of classes and stores through the update code of \<open>Tesla_Update\<close>: whatever the
  event handlers do, each loop keeps \<open>class_inv\<close> and the identity of the class, and each entry
  point keeps \<open>store_inv\<close>.
\<close>

subsection \<open>Actions\<close>

lemma action_loop_trigger:
  "action_loop inst ed ts ig = Inr (act, trigger) \<Longrightarrow>
   (act \<in> {UPDATE, FORK, JOIN} \<longrightarrow> (\<exists>t \<in> set ts. trigger = Some t \<and> t_from t = ti_state inst
      \<and> t_from_mask t = tk_mask (ti_key inst)))
   \<and> (act \<in> {IGNORE, FAIL} \<longrightarrow> trigger = None)"
proof (induction inst ed ts ig rule: action_loop.induct)
  case (1 inst ed ig)
  then show ?case by (auto split: if_splits)
next
  case (2 inst ed t ts ig)
  show ?case
  proof (cases "t_from t = ti_state inst")
    case True
    with "2.prems" have mask: "tk_mask (ti_key inst) = t_from_mask t"
      by (simp add: E_eq_Inr)
    from True mask 2 show ?thesis by (auto simp: Let_def split: if_splits)
  next
    case False
    with 2 show ?thesis by auto
  qed
qed

lemma action_active:
  "tesla_action inst ed ts = Inr (act, trigger) \<Longrightarrow> act \<noteq> IGNORE \<Longrightarrow> tesla_instance_active inst"
  by (auto simp: tesla_action_def split: if_splits)

lemma action_trigger:
  assumes "tesla_action inst ed ts = Inr (act, trigger)"
  shows "act \<in> {UPDATE, FORK, JOIN} \<Longrightarrow> \<exists>t \<in> set ts. trigger = Some t \<and> t_from t = ti_state inst
      \<and> t_from_mask t = tk_mask (ti_key inst)"
    and "act \<in> {IGNORE, FAIL} \<Longrightarrow> trigger = None"
  using assms action_loop_trigger [of inst ed ts True act trigger]
  by (auto simp: tesla_action_def split: if_splits)

subsection \<open>The identity of a class\<close>

definition same_class :: "tesla_class \<Rightarrow> tesla_class \<Rightarrow> bool" where
  "same_class c c' \<longleftrightarrow> tc_automaton c' = tc_automaton c \<and> tc_context c' = tc_context c
     \<and> tc_limit c' = tc_limit c \<and> tc_lock c' = tc_lock c"

lemma same_class_refl [simp]: "same_class c c"
  by (simp add: same_class_def)

lemma same_class_trans: "same_class c d \<Longrightarrow> same_class d e \<Longrightarrow> same_class c e"
  by (simp add: same_class_def)

lemma same_class_set_inst [simp]:
  "same_class c (set_inst d i x) = same_class c d"
  "same_class c (d\<lparr>tc_free := n\<rparr>) = same_class c d"
  "same_class c (reset_class d) = same_class c d"
  by (simp_all add: same_class_def)

lemma instance_new_same_class:
  "tesla_instance_new c name state = Inr (Inr (c', i)) \<Longrightarrow> same_class c c'"
  by (auto simp: tesla_instance_new_def E_eq_Inr case_eqs)

text \<open>The classes that one update of a class can lead to.\<close>

definition class_ok :: "tesla_class \<Rightarrow> tesla_class \<Rightarrow> bool" where
  "class_ok c c' \<longleftrightarrow> class_inv c' \<and> same_class c c'"

subsection \<open>The walk over the instances\<close>

definition walk_ok :: "tesla_class \<Rightarrow> tesla_class + upd \<Rightarrow> bool" where
  "walk_ok c r = (case r of
     Inl c' \<Rightarrow> class_ok c c'
   | Inr u \<Rightarrow> class_ok c (u_class u) \<and> tc_free (u_class u) = tc_free c)"

lemma take_action_ok:
  assumes u: "class_ok c (u_class u)" "tc_free (u_class u) = tc_free c"
    and inst: "i < length (insts (u_class u))" "inst = insts (u_class u) ! i"
    and act: "tesla_action inst ed ts = Inr act"
  shows "retsR (take_action rt a symbol m u i inst act) (walk_ok c)"
proof -
  obtain w trigger where w: "act = (w, trigger)" by (cases act)
  have wf: "wf_key (ti_key inst)" "class_inv (u_class u)"
    using u(1) inst class_invD(4) by (auto simp: class_ok_def)
  have live: "w \<noteq> IGNORE \<Longrightarrow> tesla_instance_active inst"
    using act w action_active by blast
  have set: "class_ok c (set_inst (u_class u) i x)" if "wf_key (ti_key x)" "w \<noteq> IGNORE" for x
    using that u(1) inst wf live by (auto simp: class_ok_def intro!: class_inv_set_inst)
  show ?thesis
  proof (cases w)
    case UPDATE
    with u(2) wf set show ?thesis
      by (auto simp: take_action_def w walk_ok_def Let_def intro!: wp)
  next
    case JOIN
    with u(2) wf set show ?thesis
      by (auto simp: take_action_def w walk_ok_def tesla_instance_clear_def intro!: wp)
  qed (use u in \<open>auto simp: take_action_def w walk_ok_def intro!: wp\<close>)
qed

lemma instance_step_ok:
  assumes "class_ok c (u_class u)" "tc_free (u_class u) = tc_free c"
  shows "retsR (instance_step rt a symbol pattern ts m u i) (walk_ok c)"
  unfolding instance_step_def
  by (intro wp retsR_use [OF take_action_ok])
    (use assms in \<open>auto simp: walk_ok_def nthE_eq_Inr intro!: wp\<close>)

lemma update_loop_ok:
  "class_ok c (u_class u) \<Longrightarrow> tc_free (u_class u) = tc_free c \<Longrightarrow>
   retsR (update_loop rt a symbol pattern ts m u is) (walk_ok c)"
proof (induction "is" arbitrary: u)
  case Nil
  then show ?case by (simp add: walk_ok_def)
next
  case (Cons i "is")
  show ?case
    unfolding update_loop.simps
  proof (intro wp retsR_use [OF instance_step_ok [OF Cons.prems]])
    show "walk_ok c (Inr u)" using Cons.prems by (simp add: walk_ok_def)
  qed (auto simp: walk_ok_def intro!: Cons.IH [unfolded walk_ok_def])
qed

subsection \<open>Cloning\<close>

lemma instance_clone_ok:
  assumes "class_inv c" and "old < length (insts c)"
    and "tesla_instance_clone c (insts c ! old) = Inr (Inr (c', i))"
  shows "class_ok c c' \<and> i < length (insts c') \<and> tesla_instance_active (insts c' ! i)
    \<and> wf_key (ti_key (insts c' ! i)) \<and> insts c' = (insts c)[i := insts c ! old]
    \<and> tc_free c \<noteq> 0 \<and> tc_free c' = tc_free c - 1 \<and> \<not> tesla_instance_active (insts c ! i)"
  using assms(1)
proof (cases rule: instance_new_cases
    [where name = "ti_key (insts c ! old)" and state = "ti_state (insts c ! old)"])
  case (new j)
  let ?x = "insts c ! old"
  have wf: "wf_key (ti_key ?x)" using assms(1,2) by (rule class_invD(4))
  from new assms(3) have c': "i = j" "c' = (set_inst c i ?x)\<lparr>tc_free := tc_free c - 1\<rparr>"
    by (auto simp add: tesla_instance_clone_def)
  have "class_ok c c'"
    unfolding class_ok_def c'(2) using new c'(1) assms(1) wf by (auto intro!: class_inv_alloc)
  with new c' wf show ?thesis by (auto simp: tesla_instance_active_def)
qed (use assms(3) in \<open>auto simp: tesla_instance_clone_def\<close>)

lemma clone_one_ok:
  assumes "class_inv c"
  shows "retsR (clone_one rt a symbol pattern c info) (\<lambda>(go, c'). class_ok c c')"
proof -
  have key: "(ti_key x = key \<longrightarrow> class_inv (set_inst c1 i x)) \<and> same_class c c1 \<and> i < length (insts c1)"
    if "old < length (insts c)" "tesla_instance_clone c (insts c ! old) = Inr (Inr (c1, i))"
      "(err, key) = tesla_key_union (ti_key (insts c1 ! i)) name" for old c1 i x err key name
  proof -
    note c1 = instance_clone_ok [OF assms that(1,2)]
    moreover have "wf_key key"
      using c1 that(3) wf_key_union [of "ti_key (insts c1 ! i)" name] by (metis snd_conv)
    ultimately show ?thesis
      by (auto simp: class_ok_def intro!: class_inv_set_inst)
  qed
  show ?thesis
    unfolding clone_one_def
    by (intro wp) (use key assms in \<open>auto simp: E_eq_Inr class_ok_def\<close>)
qed

lemma clone_loop_ok:
  "class_ok d c \<Longrightarrow> retsR (clone_loop rt a symbol pattern c infos) (\<lambda>(go, c'). class_ok d c')"
proof (induction infos arbitrary: c)
  case (Cons info infos)
  then have "class_inv c" by (simp add: class_ok_def)
  show ?case
    unfolding clone_loop.simps
    by (intro retsR_use [OF clone_one_ok [OF \<open>class_inv c\<close>]] wp)
      (use Cons in \<open>auto simp: class_ok_def intro: same_class_trans\<close>)
qed simp

subsection \<open>Late initialisation\<close>

lemma init_inner_ok:
  assumes "init_inner c tset i inst = Inr (Inr (c', i', inst'))" and "class_inv c"
  shows "class_ok c c'" and "inst' = inst \<or> (\<exists>k < length (insts c'). inst' = Some k
    \<and> tesla_instance_active (insts c' ! k))"
proof -
  have "class_ok c c' \<and> (inst' = inst \<or> (\<exists>k < length (insts c'). inst' = Some k
      \<and> tesla_instance_active (insts c' ! k)))"
  proof (cases "i < length tset \<and> has_flag (tset ! 0) TESLA_TRANS_INIT")
    case True
    with assms(1) obtain k where
      new: "tesla_instance_new c zero_key (t_to (tset ! 0)) = Inr (Inr (c', k))" "inst' = Some k"
      by (auto simp: init_inner_eq E_eq_Inr case_eqs)
    have "k < length (insts c') \<and> tesla_instance_active (insts c' ! k)"
      using assms(2)
    proof (cases rule: instance_new_cases [where name = zero_key and state = "t_to (tset ! 0)"])
      case (new j)
      with \<open>tesla_instance_new c zero_key (t_to (tset ! 0)) = Inr (Inr (c', k))\<close> show ?thesis
        by (auto simp: tesla_instance_active_def)
    qed (use new(1) in auto)
    with new assms(2) show ?thesis
      by (auto simp: class_ok_def instance_new_same_class
          intro: class_inv_instance_new [OF _ wf_zero_key(1)])
  next
    case False
    with assms show ?thesis by (auto simp: init_inner_eq class_ok_def split: if_splits)
  qed
  then show "class_ok c c'" and "inst' = inst \<or> (\<exists>k < length (insts c'). inst' = Some k
      \<and> tesla_instance_active (insts c' ! k))"
    by auto
qed

lemma init_outer_ok:
  "class_ok d c \<Longrightarrow> init_outer autom c i inst = Inr r \<Longrightarrow>
   class_ok d (case r of Inl (c', err) \<Rightarrow> c' | Inr (c', inst') \<Rightarrow> c')"
proof (induction autom c i inst arbitrary: r rule: init_outer.induct)
  case (1 autom c i inst)
  show ?case
  proof (cases "i < unat (ta_alphabet_size autom)")
    case True
    with "1.prems"(2) obtain tset x where
      tset: "nthE ''ta_transitions'' (ta_transitions autom) i = Inr tset"
      and x: "init_inner c tset i inst = Inr x"
      and r: "(case x of Inl err \<Rightarrow> Inr (Inl (c, err))
        | Inr (c', i', inst') \<Rightarrow> init_outer autom c' (Suc i') inst') = Inr r"
      using init_outer.simps [of autom c i inst] by (auto simp: bindE_eq_Inr)
    show ?thesis
    proof (cases x)
      case (Inl err)
      with r "1.prems"(1) show ?thesis by auto
    next
      case (Inr y)
      obtain c' i' inst' where y: "y = (c', i', inst')" by (cases y)
      have "class_inv c" using "1.prems"(1) by (simp add: class_ok_def)
      with x Inr y have "class_ok c c'" by (auto dest: init_inner_ok(1))
      with "1.prems"(1) have "class_ok d c'" by (auto simp: class_ok_def intro: same_class_trans)
      from "1.IH" [OF True tset x Inr y [symmetric] refl this] r Inr y show ?thesis by simp
    qed
  next
    case False
    with "1.prems" show ?thesis using init_outer.simps [of autom c i inst] by auto
  qed
qed

lemma wf_register:
  assumes "wf_lifetime_state n ls" and "k < n" and "register_class ls k ms = Inr (ls', ms')"
  shows "wf_lifetime_state n ls'"
proof (cases "first_free (tls_classes ls)")
  case (Some i)
  have "set ((tls_classes ls)[i := Some k]) \<subseteq> insert (Some k) (set (tls_classes ls))"
    by (rule set_update_subset_insert)
  with Some assms show ?thesis
    by (auto simp: register_class_def wf_lifetime_state_def)
next
  case None
  let ?cap = "if tls_dyn_capacity ls = 0 then 8 else 2 * tls_dyn_capacity ls"
  from None assms(3) have ls': "ls' = ls\<lparr>tls_dyn_capacity := ?cap,
      tls_dyn_classes := tls_dyn_classes ls @ [Some k], tls_dyn_count := tls_dyn_count ls + 1\<rparr>"
    and "tls_dyn_count ls < ?cap"
    by (auto simp: register_class_def Let_def E_eq_Inr split: prod.splits if_splits)
  then have "tls_dyn_count ls \<noteq> - 1"
    by (auto simp: word_order.extremum_strict)
  then have "unat (tls_dyn_count ls + 1) = Suc (unat (tls_dyn_count ls))"
    by (metis Suc_eq_plus1 add.commute add.inverse_inverse add_eq_0_iff unatSuc)
  with assms(1,2) ls' show ?thesis by (auto simp: wf_lifetime_state_def)
qed

lemma register_cleanup_ok:
  assumes "wf_lifetime_state n ls" and "k < n"
  shows "retsR (register_cleanup rt a symbol ls k ms)
    (\<lambda>(ls', ms'). wf_lifetime_state n ls' \<and> tls_begin ls' = tls_begin ls \<and> tls_end ls' = tls_end ls)"
proof -
  have "wf_lifetime_state n ls' \<and> tls_begin ls' = tls_begin ls \<and> tls_end ls' = tls_end ls"
    if "register_class ls k ms = Inr (ls', ms')" for ls' ms'
    using that wf_register [OF assms that] by (auto simp: register_class_def Let_def E_eq_Inr case_eqs)
  then show ?thesis
    using assms(1) by (auto simp: register_cleanup_def R_eq_Inr intro!: retsRI split: if_splits)
qed

lemma late_init_ok:
  assumes "class_inv c" and "wf_lifetime_state n ls" and "k < n"
  shows "retsR (late_init rt a autom symbol k c ls ms)
    (\<lambda>(go, c', ls', ms'). class_ok c c' \<and> wf_lifetime_state n ls'
      \<and> tls_begin ls' = tls_begin ls \<and> tls_end ls' = tls_end ls)"
proof -
  have "class_ok c (case r of Inl (c', err) \<Rightarrow> c' | Inr (c', inst') \<Rightarrow> c')"
    if "init_outer autom c 0 None = Inr r" for r
    using init_outer_ok [OF _ that, of c] assms(1) by (simp add: class_ok_def)
  note init = this
  show ?thesis
    unfolding late_init_def
    by (intro wp retsR_use [OF register_cleanup_ok [OF assms(2,3)]]) (use assms init in \<open>fastforce\<close>)+
qed

subsection \<open>Updating a class\<close>

lemma step_class_ok:
  assumes "class_inv c"
  shows "retsR (step_class rt a autom symbol pattern m c) (class_ok c)"
proof -
  have "class_ok c c''" if "tesla_class_reset A env c' = Inr (msg, c'')" "class_ok c c'" for A env c' msg c''
  proof -
    have "c'' = reset_class c'" using that by (auto simp: class_ok_def intro: class_reset_inv)
    with that(2) show ?thesis by (auto simp: class_ok_def intro: class_inv_reset_class)
  qed
  note reset = this
  let ?u = "\<lparr>u_class = c, u_expected = sint (tc_limit c - tc_free c), u_clones = [],
    u_matched = False, u_cleanup = False\<rparr>"
  have start: "class_ok c (u_class ?u)" "tc_free (u_class ?u) = tc_free c"
    using assms by (simp_all add: class_ok_def)
  show ?thesis
    unfolding step_class_def
    by (intro wp retsR_use [OF update_loop_ok [OF start]] retsR_use [OF clone_loop_ok [where d = c]])
      (auto simp: walk_ok_def intro: reset)
qed

text \<open>A store in which the class \<open>k\<close> and one lifetime have been replaced.\<close>

lemma set_class_simps [simp]:
  "classes (set_class st k c) = (classes st)[k := c]"
  "lifetimes (set_class st k c) = lifetimes st"
  "ts_length (set_class st k c) = ts_length st"
  "ts_lifetime_count (set_class st k c) = ts_lifetime_count st"
  "ts_lifetimes (set_class st k c) = ts_lifetimes st"
  "classes (set_lifetime st i ls) = classes st"
  "lifetimes (set_lifetime st i ls) = (lifetimes st)[i := ls]"
  "ts_length (set_lifetime st i ls) = ts_length st"
  "ts_lifetime_count (set_lifetime st i ls) = ts_lifetime_count st"
  "ts_classes (set_lifetime st i ls) = ts_classes st"
  by (simp_all add: set_class_def set_lifetime_def)

lemma store_inv_set [tesla_inv]:
  assumes "store_inv st"
  shows "k < length (classes st) \<Longrightarrow> class_ok (classes st ! k) c \<Longrightarrow> store_inv (set_class st k c)"
    and "wf_lifetime_state (unat TESLA_MAX_CLASSES) ls \<Longrightarrow> store_inv (set_lifetime st i ls)"
proof -
  show "k < length (classes st) \<Longrightarrow> class_ok (classes st ! k) c \<Longrightarrow> store_inv (set_class st k c)"
    using assms unfolding set_class_def
    by (intro store_inv_set_class) (auto simp: class_ok_def same_class_def)
  assume ls: "wf_lifetime_state (unat TESLA_MAX_CLASSES) ls"
  have "set ((lifetimes st)[i := ls]) \<subseteq> insert ls (set (lifetimes st))"
    by (rule set_update_subset_insert)
  with assms ls show "store_inv (set_lifetime st i ls)"
    by (auto simp: store_inv_def set_lifetime_def)
qed

lemma find_lifetime_Some:
  "find_lifetime l lss is = Inr (Some i) \<Longrightarrow> i \<in> set is \<and> i < length lss"
  by (induction l lss "is" rule: find_lifetime.induct)
    (auto simp: E_eq_Inr split: if_splits)

text \<open>What an update of class \<open>k\<close> may change in a store.\<close>

definition store_step :: "nat \<Rightarrow> tesla_store \<Rightarrow> tesla_store \<Rightarrow> bool" where
  "store_step k st st' \<longleftrightarrow> store_inv st'
     \<and> ts_lifetime_count st' = ts_lifetime_count st
     \<and> length (classes st') = length (classes st)
     \<and> (\<forall>j. j \<noteq> k \<longrightarrow> classes st' ! j = classes st ! j)
     \<and> same_class (classes st ! k) (classes st' ! k)
     \<and> map tls_begin (lifetimes st') = map tls_begin (lifetimes st)
     \<and> map tls_end (lifetimes st') = map tls_end (lifetimes st)"

lemma store_step_refl: "store_inv st \<Longrightarrow> store_step k st st"
  by (simp add: store_step_def)

lemma set_class_lifetime_class [simp]:
  "set_class (set_lifetime (set_class st k c) i ls) k c' = set_lifetime (set_class st k c') i ls"
  by (rule tesla_store.equality) (simp_all add: set_class_def set_lifetime_def)

lemma store_step_set:
  assumes "store_inv st" and "k < length (classes st)" and "class_ok (classes st ! k) c"
    and "wf_lifetime_state (unat TESLA_MAX_CLASSES) ls"
    and "tls_begin ls = tls_begin (lifetimes st ! i)" and "tls_end ls = tls_end (lifetimes st ! i)"
  shows "store_step k st (set_lifetime (set_class st k c) i ls)"
proof -
  have "store_inv (set_lifetime (set_class st k c) i ls)"
    by (intro store_inv_set assms)
  with assms show ?thesis
    by (simp add: store_step_def map_update_same class_ok_def)
qed

lemma late_init_if_ok:
  assumes "class_inv c" and "wf_lifetime_state n ls" and "k < n"
  shows "retsR (if b then late_init rt a autom symbol k c ls ms else retR (True, c, ls, ms))
    (\<lambda>(go, c', ls', ms'). class_ok c c' \<and> wf_lifetime_state n ls'
      \<and> tls_begin ls' = tls_begin ls \<and> tls_end ls' = tls_end ls)"
  using late_init_ok [OF assms] assms by (simp add: class_ok_def)

lemma update_class_state_ok:
  assumes "store_inv st"
  shows "retsR (tesla_update_class_state rt st k symbol pattern ms) (\<lambda>(st', ms'). store_step k st st')"
proof -
  note inv = store_invD [OF assms]
  have step: "retsR (bindR (step_class rt a au symbol pattern m c1) (\<lambda>c2.
      retR (set_class (set_lifetime (set_class st k c1) li ls) k c2, ms1)))
      (\<lambda>(st', ms'). store_step k st st')"
    if k: "k < length (classes st)" and c1: "class_ok (classes st ! k) c1"
      and ls: "wf_lifetime_state (unat TESLA_MAX_CLASSES) ls"
        "tls_begin ls = tls_begin (lifetimes st ! li)" "tls_end ls = tls_end (lifetimes st ! li)"
    for a au m c1 li ls ms1
  proof (rule retsR_use [OF step_class_ok])
    show "class_inv c1" using c1 by (simp add: class_ok_def)
    fix c2 assume "class_ok c1 c2"
    with c1 have "class_ok (classes st ! k) c2" by (auto simp: class_ok_def intro: same_class_trans)
    then have "store_step k st (set_lifetime (set_class st k c2) li ls)"
      by (rule store_step_set [OF assms k _ ls])
    then show "retsR (retR (set_class (set_lifetime (set_class st k c1) li ls) k c2, ms1))
        (\<lambda>(st', ms'). store_step k st st')"
      by simp
  qed
  have main: "retsR (update_initialised rt st k symbol pattern ms (classes st ! k) au li)
      (\<lambda>(st', ms'). store_step k st st')"
    if k: "k < length (classes st)" and li: "li < length (lifetimes st)" for au li
    unfolding update_initialised_def Let_def
    by (rule retsR_use [OF late_init_if_ok [where n = "unat TESLA_MAX_CLASSES"]])
      (use k li inv assms in \<open>auto intro!: wp step store_step_set\<close>)
  show ?thesis
    unfolding tesla_update_class_state_def
    by (intro wp) (use assms in \<open>auto simp: nthE_eq_Inr store_step_refl
        dest!: find_lifetime_Some intro!: main\<close>)
qed

subsection \<open>Entry points on a store\<close>

lemma sunrise_store_ok:
  assumes "store_inv st"
  shows "rets (sunrise_store st l) store_inv"
  unfolding rets_def
proof (intro allI impI)
  fix st' assume st': "sunrise_store st l = Inr st'"
  note inv = store_invD [OF assms]
  let ?i = "unat (ts_lifetime_count st)"
  from st' have lt: "ts_lifetime_count st < TESLA_MAX_CLASSES"
    using inv(1) by (simp add: sunrise_store_def E_eq_Inr)
  from st' consider "st' = st" | ls where "?i < length (lifetimes st)" "ls = lifetimes st ! ?i"
      "st' = set_lifetime (st\<lparr>ts_lifetime_count := ts_lifetime_count st + 1\<rparr>) ?i
         (ls\<lparr>tls_begin := tl_begin l, tls_end := tl_end l\<rparr>)"
    by (auto simp: sunrise_store_def E_eq_Inr case_eqs Let_def)
  then show "store_inv st'"
  proof cases
    case 2
    have "ts_lifetime_count st + 1 \<le> TESLA_MAX_CLASSES"
      using lt by (simp add: inc_le)
    with assms have "store_inv (st\<lparr>ts_lifetime_count := ts_lifetime_count st + 1\<rparr>)"
      by (simp add: store_inv_def)
    moreover have "wf_lifetime_state (unat TESLA_MAX_CLASSES) ls"
      using 2(1,2) inv(9) by simp
    then have "wf_lifetime_state (unat TESLA_MAX_CLASSES)
        (ls\<lparr>tls_begin := tl_begin l, tls_end := tl_end l\<rparr>)"
      by (simp add: wf_lifetime_state_def)
    ultimately show ?thesis unfolding 2(3) by (rule store_inv_set(2))
  qed (use assms in simp)
qed

lemma sunset_loop_ok:
  "store_inv st \<Longrightarrow> retsR (sunset_loop rt ek sel li st ms is) (\<lambda>(st', ms'). store_inv st')"
proof (induction "is" arbitrary: st ms)
  case (Cons i "is")
  show ?case
    unfolding sunset_loop.simps
    by (intro wp retsR_use [OF update_class_state_ok [OF Cons.prems]])
      (use Cons.prems in \<open>auto simp: store_step_def intro!: Cons.IH\<close>)
qed simp

lemma clear_ok:
  assumes "store_inv st" and "li < length (lifetimes st)"
  shows "store_inv (clear_static st li)" and "store_inv (clear_dynamic st li)"
    and "length (lifetimes (clear_static st li)) = length (lifetimes st)"
proof -
  have "wf_lifetime_state (unat TESLA_MAX_CLASSES) (lifetimes st ! li)"
    using store_invD(9) [OF assms(1)] assms(2) by simp
  then show "store_inv (clear_static st li)" "store_inv (clear_dynamic st li)"
    unfolding clear_static_def clear_dynamic_def Let_def
    by (auto simp: wf_lifetime_state_def intro!: store_inv_set(2) [OF assms(1)])
  show "length (lifetimes (clear_static st li)) = length (lifetimes st)"
    by (simp add: clear_static_def Let_def)
qed

lemma sunset_store_ok:
  assumes "store_inv st"
  shows "retsR (sunset_store rt ek st l ms) (\<lambda>(st', ms'). store_inv st')"
proof -
  have lt: "li < length (lifetimes st')"
    if "find_lifetime (Inr l) (lifetimes st) is = Inr (Some li)" "store_inv st'" for li "is" st'
    using that assms by (auto dest!: find_lifetime_Some store_invD(5))
  have second: "retsR (bindR (sunset_loop rt ek tls_dyn_classes li (clear_static st1 li) ms1 js)
        (\<lambda>(st3, ms3). retR (clear_dynamic st3 li, ms3))) (\<lambda>(st', ms'). store_inv st')"
    if "find_lifetime (Inr l) (lifetimes st) is = Inr (Some li)" "store_inv st1" for li "is" st1 ms1 js
    by (rule retsR_use [OF sunset_loop_ok]) (use that lt in \<open>auto intro!: clear_ok\<close>)
  show ?thesis
    unfolding sunset_store_def Let_def
    by (intro wp retsR_use [OF sunset_loop_ok [OF assms]]) (auto intro: second)
qed

lemma class_put_ok:
  "tesla_class_put c = Inr c' \<Longrightarrow> class_inv c \<Longrightarrow> class_inv c' \<and> tc_automaton c' = tc_automaton c"
  by (auto simp: tesla_class_put_def tesla_class_global_release_def tesla_class_perthread_release_def
      E_eq_Inr case_eqs)

lemma update_store_ok:
  assumes "store_inv st" and "a \<noteq> 0"
  shows "retsR (update_store rt st a symbol pattern ms) (\<lambda>(st', ms'). store_inv st')"
proof -
  have put: "store_inv (set_class st2 k c)"
    if "store_step k st1 st2" "bindE (nthE ''class'' (classes st2) k) tesla_class_put = Inr c"
    for st1 st2 k c
    using that unfolding set_class_def store_step_def
    by (intro store_inv_set_class) (auto simp: E_eq_Inr dest!: class_put_ok dest: store_invD(6))
  show ?thesis
    unfolding update_store_def
    by (intro wp retsR_use [OF update_class_state_ok])
      (auto dest: store_inv_class_get(1) [OF assms] put)
qed

subsection \<open>Locks\<close>

lemma unlocked_set_class:
  "unlocked st \<Longrightarrow> (tc_context c = TESLA_CONTEXT_GLOBAL \<Longrightarrow> tc_lock c = Free_mutex) \<Longrightarrow>
   unlocked (set_class st k c)"
  unfolding unlocked_def by (auto dest!: set_update_subset_insert [THEN subsetD])

lemma class_put_frees:
  "tesla_class_put c = Inr c' \<Longrightarrow> tc_context c' = tc_context c
     \<and> (tc_context c = TESLA_CONTEXT_GLOBAL \<longrightarrow> tc_lock c' = Free_mutex)"
  by (auto simp: tesla_class_put_def tesla_class_global_release_def tesla_class_perthread_release_def
      tesla_unlock_def E_eq_Inr case_eqs split: mutex.splits)

text \<open>An update takes one lock and gives it back on every path that returns.\<close>

lemma update_store_unlocked:
  assumes "store_inv st" and "a \<noteq> 0" and "unlocked st"
  shows "retsR (update_store rt st a symbol pattern ms) (\<lambda>(st', ms'). unlocked st')"
proof -
  have "unlocked (set_class st2 k c)"
    if get: "tesla_class_get st a = Inr (Inr (st1, k))" and step: "store_step k st1 st2"
      and put: "bindE (nthE ''class'' (classes st2) k) tesla_class_put = Inr c" for st1 st2 k c
  proof -
    obtain l where st1: "st1 = st\<lparr>ts_classes :=
        Some ((classes st)[k := (classes st ! k)\<lparr>tc_automaton := a, tc_lock := l\<rparr>])\<rparr>"
      using class_get_ok(2) [OF assms(1,2) get] by blast
    have other: "classes st2 ! j = classes st ! j" if "j \<noteq> k" for j
      using step that by (simp add: store_step_def st1)
    have len: "length (classes st2) = length (classes st)"
      using step by (simp add: store_step_def st1)
    have lock: "tc_context c = TESLA_CONTEXT_GLOBAL \<Longrightarrow> tc_lock c = Free_mutex"
      using put class_put_frees by (auto simp: E_eq_Inr)
    show ?thesis
      unfolding unlocked_def set_class_simps
    proof (intro ballI impI)
      fix x assume "x \<in> set ((classes st2)[k := c])" and glob: "tc_context x = TESLA_CONTEXT_GLOBAL"
      then obtain j where j: "j < length (classes st)" "x = (classes st2)[k := c] ! j"
        by (auto simp: in_set_conv_nth len)
      then show "tc_lock x = Free_mutex"
        using lock glob other [of j] assms(3) len
        by (cases "j = k") (auto simp: unlocked_def)
    qed
  qed
  then show ?thesis
    unfolding update_store_def
    by (intro wp retsR_use [OF update_class_state_ok]) (auto dest: store_inv_class_get(1) [OF assms(1,2)])
qed

end
