(* ===== verification/Tesla_Process.thy ===== *)
theory Tesla_Process
  imports Tesla_Update_Inv
begin

text \<open>
  A process that runs instrumented code: its state is the stores (\<open>store_env\<close>), and a step is a
  call of one of the three entry points by some thread, with the outcomes of the allocations it makes.
  \<open>env_inv\<close> holds initially and after every step in which no allocation fails, so the invariants of
  stores and classes hold in every state that is reached that way.  When the array of a class's instances
  cannot be allocated they do not (\<open>failed_instances_ignored\<close>, \<open>failed_allocation_breaks\<close>).  Calls
  do not overlap.
\<close>

definition store_ready :: "tesla_store \<Rightarrow> bool" where
  "store_ready st \<longleftrightarrow> ts_length st = 0 \<or> store_inv st"

definition env_inv :: "store_env \<Rightarrow> bool" where
  "env_inv e \<longleftrightarrow>
     store_ready (se_global e)
     \<and> (\<forall>a st. se_heap e a = Some st \<longrightarrow> store_ready st)
     \<and> (\<forall>tid a. se_specific e tid = Some a \<or> se_cache e tid = Some a \<longrightarrow> se_heap e a \<noteq> None)
     \<and> (\<forall>a \<ge> se_next e. se_heap e a = None)"

lemma env_inv_initial: "env_inv initial_env"
  by (simp add: env_inv_def initial_env_def store_ready_def zero_store_def)

lemma env_inv_store_at: "env_inv e \<Longrightarrow> store_at e r = Some st \<Longrightarrow> store_ready st"
  by (auto simp: env_inv_def store_at_def split: store_ref.splits)

lemma env_inv_set_store:
  "env_inv e \<Longrightarrow> store_ready st \<Longrightarrow> store_at e r \<noteq> None \<Longrightarrow> env_inv (set_store e r st)"
  by (auto simp: env_inv_def set_store_def store_at_def split: store_ref.split)

lemma env_inv_cache:
  "env_inv e \<Longrightarrow> env_inv (e\<lparr>se_cache := (se_cache e)(tid := se_specific e tid)\<rparr>)"
  by (simp add: env_inv_def)

lemma env_inv_alloc:
  "env_inv e \<Longrightarrow> env_inv (e\<lparr>se_heap := (se_heap e)(se_next e \<mapsto> zero_store),
      se_next := Suc (se_next e), se_specific := (se_specific e)(tid := Some (se_next e))\<rparr>)"
  by (auto simp: env_inv_def store_ready_def zero_store_def)

lemma thread_store_ptr_ok:
  assumes "env_inv e" and "False \<notin> set ms"
  obtains a e' n where "thread_store_ptr e tid ms = (Some a, e', drop n ms)" and "env_inv e'"
    and "se_heap e' a \<noteq> None"
proof -
  let ?e1 = "if se_cache e tid = None
    then e\<lparr>se_cache := (se_cache e)(tid := se_specific e tid)\<rparr> else e"
  have inv1: "env_inv ?e1"
    using assms by (simp add: env_inv_cache)
  show thesis
  proof (cases "se_cache ?e1 tid")
    case (Some a)
    then have "thread_store_ptr e tid ms = (Some a, ?e1, drop 0 ms)"
      by (simp add: thread_store_ptr_def Let_def)
    then show thesis by (rule that) (use Some inv1 in \<open>auto simp: env_inv_def\<close>)
  next
    case None
    let ?e2 = "?e1\<lparr>se_heap := (se_heap ?e1)(se_next ?e1 \<mapsto> zero_store),
      se_next := Suc (se_next ?e1), se_specific := (se_specific ?e1)(tid := Some (se_next ?e1))\<rparr>"
    have "thread_store_ptr e tid ms = (Some (se_next ?e1), ?e2, drop 1 ms)"
      using None malloc_lasts [OF assms(2)] by (simp add: thread_store_ptr_def Let_def)
    moreover have "env_inv ?e2"
      using inv1 by (rule env_inv_alloc)
    ultimately show thesis by (rule that) simp
  qed
qed

text \<open>In a valid context the store is always found, initialised if it was not.\<close>

definition valid_context :: "tesla_context \<Rightarrow> bool" where
  "valid_context ctx \<longleftrightarrow> ctx = TESLA_CONTEXT_GLOBAL \<or> ctx = TESLA_CONTEXT_THREAD"

lemma ensure_init_ok:
  assumes "env_inv e" and "store_at e r = Some st" and "valid_context ctx" and "False \<notin> set ms"
  obtains e' st' n where "ensure_init e r ctx TESLA_MAX_CLASSES TESLA_MAX_INSTANCES ms = Inr (Inr r, e', drop n ms)"
    and "env_inv e'" and "store_at e' r = Some st'" and "store_inv st'"
proof (cases "ts_length st = 0")
  case True
  from ensure_init_lasts [OF assms(2) True _ assms(4)] assms(3) obtain st' n where
    "ensure_init e r ctx TESLA_MAX_CLASSES TESLA_MAX_INSTANCES ms = Inr (Inr r, set_store e r st', drop n ms)"
    "fresh_store ctx st'"
    unfolding valid_context_def by blast
  with assms(1) show thesis
    by (intro that [of "set_store e r st'" n st'])
      (use assms(2) in \<open>auto simp: fresh_store_def store_ready_def intro: env_inv_set_store\<close>)
next
  case False
  with assms show thesis
    by (intro that [of e 0 st])
      (auto simp: ensure_init_done store_ready_def dest: env_inv_store_at)
qed

lemma get_store_lasts:
  assumes "env_inv e" and "valid_context ctx" and "False \<notin> set ms"
  obtains r st e' n where "get_store e tid ctx ms = Inr (r, st, e', drop n ms)" and "env_inv e'"
    and "store_inv st" and "store_at e' r = Some st"
proof (cases "ctx = TESLA_CONTEXT_GLOBAL")
  case True
  have "store_at e Global_store = Some (se_global e)" by (simp add: store_at_def)
  from ensure_init_ok [OF assms(1) this assms(2,3)] obtain e' st n where
    "ensure_init e Global_store ctx TESLA_MAX_CLASSES TESLA_MAX_INSTANCES ms = Inr (Inr Global_store, e', drop n ms)"
    "env_inv e'" "store_at e' Global_store = Some st" "store_inv st"
    by metis
  with True show thesis
    by (intro that [of Global_store st e' n]) (simp_all add: get_store_def tesla_store_get_def)
next
  case False
  with assms(2) have thr: "ctx = TESLA_CONTEXT_THREAD" by (simp add: valid_context_def)
  from thread_store_ptr_ok [OF assms(1,3)] obtain a e1 m where
    a: "thread_store_ptr e tid ms = (Some a, e1, drop m ms)" "env_inv e1" "se_heap e1 a \<noteq> None"
    by metis
  then obtain st0 where "store_at e1 (Thread_store a) = Some st0"
    by (auto simp: store_at_def)
  from ensure_init_ok [OF a(2) this assms(2) drop_lasts [OF assms(3)], of m] obtain e' st n where
    "ensure_init e1 (Thread_store a) ctx TESLA_MAX_CLASSES TESLA_MAX_INSTANCES (drop m ms)
       = Inr (Inr (Thread_store a), e', drop n (drop m ms))"
    "env_inv e'" "store_at e' (Thread_store a) = Some st" "store_inv st"
    by metis
  with a thr False show thesis
    by (intro that [of "Thread_store a" st e' "n + m"]) (simp_all add: get_store_def tesla_store_get_def)
qed

lemma get_store_ok:
  assumes "env_inv e" and "valid_context ctx"
  obtains r st e' where "get_store e tid ctx [] = Inr (r, st, e', [])" and "env_inv e'"
    and "store_inv st" and "store_at e' r = Some st"
  by (rule get_store_lasts [OF assms, of "[]" tid]) (simp_all add: that)

subsection \<open>Entry points\<close>

lemma store_inv_ready: "store_inv st \<Longrightarrow> store_ready st"
  by (simp add: store_ready_def)

lemma sunrise_env_inv:
  assumes "env_inv e" and "valid_context ctx" and "False \<notin> set ms"
  shows "retsR (tesla_sunrise rt e tid ctx l ms) (\<lambda>(e', ms'). env_inv e')"
proof -
  from get_store_lasts [OF assms] obtain r st e1 n where
    g: "get_store e tid ctx ms = Inr (r, st, e1, drop n ms)" "env_inv e1" "store_inv st"
      "store_at e1 r = Some st" by metis
  show ?thesis
    unfolding tesla_sunrise_def g(1)
    by (simp, intro wp) (use g sunrise_store_ok [OF g(3), of l] in
        \<open>auto intro!: env_inv_set_store store_inv_ready dest: retsD\<close>)
qed

lemma sunset_env_inv:
  assumes "env_inv e" and "valid_context ctx" and "False \<notin> set ms"
  shows "retsR (tesla_sunset rt junk e tid ctx l ms) (\<lambda>(e', ms'). env_inv e')"
proof -
  from get_store_lasts [OF assms] obtain r st e1 n where
    g: "get_store e tid ctx ms = Inr (r, st, e1, drop n ms)" "env_inv e1" "store_inv st"
      "store_at e1 r = Some st" by metis
  show ?thesis
    unfolding tesla_sunset_def g(1)
    by (rule retsR_unit, simp, rule retsR_use [OF sunset_store_ok [OF g(3)]])
      (use g in \<open>auto intro!: env_inv_set_store store_inv_ready\<close>)
qed

lemma update_env_inv:
  assumes "env_inv e" and "valid_context ctx" and "a \<noteq> 0" and "False \<notin> set ms"
  shows "retsR (tesla_update_state rt e tid ctx a symbol pattern ms) (\<lambda>(e', ms'). env_inv e')"
proof -
  from get_store_lasts [OF assms(1,2,4)] obtain r st e1 n where
    g: "get_store e tid ctx ms = Inr (r, st, e1, drop n ms)" "env_inv e1" "store_inv st"
      "store_at e1 r = Some st" by metis
  show ?thesis
    unfolding tesla_update_state_def g(1)
    by (simp, rule retsR_use [OF update_store_ok [OF g(3) assms(3)]])
      (use g in \<open>auto intro!: env_inv_set_store store_inv_ready\<close>)
qed

subsection \<open>Reachable states\<close>

datatype call =
    Call_sunrise nat tesla_context tesla_lifetime
  | Call_sunset nat tesla_context tesla_lifetime tesla_key
  | Call_update nat tesla_context uintptr u32 tesla_key

definition run_call :: "runtime \<Rightarrow> store_env \<Rightarrow> call \<Rightarrow> mallocs \<Rightarrow> (store_env \<times> mallocs) run" where
  "run_call rt e cl ms = (case cl of
     Call_sunrise tid ctx l \<Rightarrow> tesla_sunrise rt e tid ctx l ms
   | Call_sunset tid ctx l junk \<Rightarrow> tesla_sunset rt junk e tid ctx l ms
   | Call_update tid ctx a symbol pattern \<Rightarrow> tesla_update_state rt e tid ctx a symbol pattern ms)"

text \<open>One call that returns; the notifier may be replaced between calls.\<close>

inductive env_step :: "mallocs \<Rightarrow> store_env \<Rightarrow> log_item list \<Rightarrow> store_env \<Rightarrow> bool" where
  call: "run_call rt e cl ms = Inr (l, (e', ms')) \<Longrightarrow> env_step ms e l e'"

text \<open>The outcomes of all the allocations are collected.\<close>

inductive reachable :: "mallocs \<Rightarrow> store_env \<Rightarrow> log_item list \<Rightarrow> bool" where
  init: "reachable [] initial_env []"
| step: "reachable ms e l \<Longrightarrow> env_step ms' e l' e' \<Longrightarrow> reachable (ms @ ms') e' (l @ l')"

inductive_cases env_stepE: "env_step ms e l e'"

text \<open>An invalid context or a NULL automaton is stopped by an assertion, so a call that returns
  had neither.\<close>

lemma get_store_valid: "get_store e tid ctx ms = Inr x \<Longrightarrow> valid_context ctx"
  by (auto simp: get_store_def tesla_store_get_def valid_context_def E_eq_Inr case_eqs)

lemma class_get_nonnull: "tesla_class_get st a = Inr x \<Longrightarrow> a \<noteq> 0"
  by (auto simp: tesla_class_get_def E_eq_Inr)

lemma run_call_env_inv:
  assumes "env_inv e" and "run_call rt e cl ms = Inr (l, (e', ms'))" and "False \<notin> set ms"
  shows "env_inv e'"
proof (cases cl)
  case (Call_sunrise tid ctx lt)
  with assms(2) have r: "tesla_sunrise rt e tid ctx lt ms = Inr (l, (e', ms'))"
    by (simp add: run_call_def)
  then have "valid_context ctx"
    by (auto simp: tesla_sunrise_def R_eq_Inr intro: get_store_valid)
  from retsRD [OF sunrise_env_inv [OF assms(1) this assms(3)] r] show ?thesis by simp
next
  case (Call_sunset tid ctx lt junk)
  with assms(2) have r: "tesla_sunset rt junk e tid ctx lt ms = Inr (l, (e', ms'))"
    by (simp add: run_call_def)
  then have "valid_context ctx"
    by (auto simp: tesla_sunset_def R_eq_Inr intro: get_store_valid)
  from retsRD [OF sunset_env_inv [OF assms(1) this assms(3)] r] show ?thesis by simp
next
  case (Call_update tid ctx a symbol pattern)
  with assms(2) have r: "tesla_update_state rt e tid ctx a symbol pattern ms = Inr (l, (e', ms'))"
    by (simp add: run_call_def)
  then have "valid_context ctx" "a \<noteq> 0"
    by (auto simp: tesla_update_state_def update_store_def R_eq_Inr
        intro: get_store_valid dest: class_get_nonnull)
  from retsRD [OF update_env_inv [OF assms(1) this assms(3)] r] show ?thesis by simp
qed

lemma reachable_env_inv: "reachable ms e l \<Longrightarrow> False \<notin> set ms \<Longrightarrow> env_inv e"
  by (induction rule: reachable.induct)
    (auto simp: env_inv_initial elim!: env_stepE intro: run_call_env_inv)

end
