(* ===== verification/Tesla_Update_Spec.thy ===== *)
theory Tesla_Update_Spec
  imports Tesla_Update_Inv "HOL-Library.Multiset"
begin

text \<open>
  What an update does, stated without its loops: which transition an instance takes
  (\<open>action_spec\<close>), what the walk leaves in every slot (\<open>update_loop_spec\<close>), that the counter
  \<open>expected\<close> only cuts off slots with nothing in them, that making the clones cannot fail,
  and the effect of the whole step on the multiset of live instances (\<open>step_class_live\<close>).
\<close>

subsection \<open>Actions\<close>

text \<open>What a transition does to the name of an instance that takes it.\<close>

definition trans_kind :: "tesla_transition \<Rightarrow> tesla_action_t" where
  "trans_kind t =
     (if \<not> SUBSET (t_from_mask t) (t_to_mask t) \<and> \<not> has_flag t TESLA_TRANS_CLEANUP then JOIN
      else if SUBSET (t_to_mask t) (t_from_mask t) then UPDATE
      else FORK)"

text \<open>An event concerns an instance when their names agree wherever both are known and the
  instance knows every parameter that the event leaves free.\<close>

definition concerns :: "tesla_key \<Rightarrow> tesla_instance \<Rightarrow> bool" where
  "concerns ev inst \<longleftrightarrow>
     SUBSET (tk_freemask ev) (tk_mask (ti_key inst)) \<and> keys_compatible (ti_key inst) ev"

definition takes :: "tesla_key \<Rightarrow> tesla_instance \<Rightarrow> tesla_transition \<Rightarrow> bool" where
  "takes ev inst t \<longleftrightarrow> t_from t = ti_state inst \<and> (trans_kind t = JOIN \<or> concerns ev inst)"

text \<open>The state of an instance determines which parameters its name has.\<close>

definition masks_agree :: "tesla_transitions \<Rightarrow> tesla_instance \<Rightarrow> bool" where
  "masks_agree ts inst \<longleftrightarrow>
     (\<forall>t \<in> set ts. t_from t = ti_state inst \<longrightarrow> t_from_mask t = tk_mask (ti_key inst))"

lemma key_matches_bits:
  "tesla_key_matches p k \<longleftrightarrow> SUBSET (tk_mask p) (tk_mask k) \<and> SUBSET (tk_freemask p) (tk_mask k)
     \<and> (\<forall>i < TESLA_KEY_SIZE. bit (tk_mask p) i \<longrightarrow> tk_keys p ! i = tk_keys k ! i)"
proof -
  have "key_map p \<subseteq>\<^sub>m key_map k \<longleftrightarrow>
      (\<forall>i < TESLA_KEY_SIZE. bit (tk_mask p) i \<longrightarrow> tk_keys p ! i = tk_keys k ! i)"
    if "SUBSET (tk_mask p) (tk_mask k)"
    using that by (auto simp: map_le_def dom_key_map SUBSET_iff) (auto simp: key_map_def)
  then show ?thesis by (auto simp: key_matches_map)
qed

lemma fork_match:
  "tesla_key_matches (ev\<lparr>tk_mask := tk_mask ev AND tk_mask (ti_key inst)\<rparr>) (ti_key inst)
   \<longleftrightarrow> concerns ev inst"
  by (auto simp: key_matches_bits concerns_def keys_compatible_def SUBSET_iff bit_and_iff)

lemma update_match:
  "tesla_key_matches (ev\<lparr>tk_mask := tk_mask ev AND tk_mask (ti_key inst)\<rparr>)
     ((ti_key inst)\<lparr>tk_mask := tk_mask (ti_key inst)
        AND (tk_mask ev AND tk_mask (ti_key inst) OR tk_freemask ev)\<rparr>)
   \<longleftrightarrow> concerns ev inst"
  by (auto simp: key_matches_bits concerns_def keys_compatible_def SUBSET_iff bit_and_iff bit_or_iff)

lemma action_loop_spec:
  "masks_agree ts inst \<Longrightarrow>
   action_loop inst ev ts ig =
     (case find (takes ev inst) ts of
        Some t \<Rightarrow> Inr (trans_kind t, Some t)
      | None \<Rightarrow> Inr (if ig \<and> \<not> (\<exists>t \<in> set ts. t_from t \<noteq> ti_state inst \<and> tesla_key_matches ev (ti_key inst))
                     then IGNORE else FAIL, None))"
proof (induction ts arbitrary: ig)
  case (Cons t ts)
  then have IH: "action_loop inst ev ts ig' =
     (case find (takes ev inst) ts of
        Some t \<Rightarrow> Inr (trans_kind t, Some t)
      | None \<Rightarrow> Inr (if ig' \<and> \<not> (\<exists>t \<in> set ts. t_from t \<noteq> ti_state inst \<and> tesla_key_matches ev (ti_key inst))
                     then IGNORE else FAIL, None))" for ig'
    by (simp add: masks_agree_def)
  show ?case
  proof (cases "t_from t = ti_state inst")
    case True
    with Cons.prems have m: "t_from_mask t = tk_mask (ti_key inst)" by (simp add: masks_agree_def)
    have "takes ev inst t \<longleftrightarrow> trans_kind t = JOIN \<or> concerns ev inst"
      using True by (simp add: takes_def)
    with True m trans_kind_def [of t] show ?thesis
      by (auto simp: Let_def IH fork_match update_match split: if_splits)
  next
    case False
    then have "\<not> takes ev inst t" by (simp add: takes_def)
    with False show ?thesis by (simp add: IH split: option.split)
  qed
qed simp

lemma action_spec:
  assumes "masks_agree ts inst"
  shows "tesla_action inst ev ts =
     (if \<not> tesla_instance_active inst then Inr (IGNORE, None)
      else case find (takes ev inst) ts of
        Some t \<Rightarrow> Inr (trans_kind t, Some t)
      | None \<Rightarrow> Inr (if \<exists>t \<in> set ts. t_from t \<noteq> ti_state inst \<and> tesla_key_matches ev (ti_key inst)
                     then FAIL else IGNORE, None))"
  using action_loop_spec [OF assms, of ev True]
  by (auto simp: tesla_action_def split: option.split)

subsection \<open>The walk over the instances\<close>

abbreviation act_of :: "tesla_key \<Rightarrow> tesla_transitions \<Rightarrow> tesla_instance \<Rightarrow> tesla_action_t res" where
  "act_of ev ts inst \<equiv> bindE (tesla_action inst ev ts) (\<lambda>(act, _). Inr act)"

definition after_walk :: "tesla_key \<Rightarrow> tesla_transitions \<Rightarrow> tesla_instance \<Rightarrow> tesla_instance" where
  "after_walk ev ts inst = (case tesla_action inst ev ts of
     Inr (UPDATE, Some t) \<Rightarrow> inst\<lparr>ti_state := t_to t\<rparr>
   | Inr (JOIN, _) \<Rightarrow> zero_instance
   | _ \<Rightarrow> inst)"

definition fork_of :: "tesla_key \<Rightarrow> tesla_transitions \<Rightarrow> tesla_instance \<Rightarrow> tesla_transition option" where
  "fork_of ev ts inst = (case tesla_action inst ev ts of
     Inr (FORK, Some t) \<Rightarrow> Some t
   | _ \<Rightarrow> None)"

definition cleans_up :: "tesla_key \<Rightarrow> tesla_transitions \<Rightarrow> tesla_instance \<Rightarrow> bool" where
  "cleans_up ev ts inst = (case tesla_action inst ev ts of
     Inr (_, trigger) \<Rightarrow> is_cleanup trigger
   | _ \<Rightarrow> False)"

text \<open>The clones that the slots \<open>js\<close> ask for, in order.\<close>

definition forks :: "tesla_key \<Rightarrow> tesla_transitions \<Rightarrow> tesla_instance list \<Rightarrow> nat list
    \<Rightarrow> (nat \<times> tesla_transition) list" where
  "forks ev ts xs js = List.map_filter (\<lambda>j. map_option (Pair j) (fork_of ev ts (xs ! j))) js"

text \<open>The instances for which a bad transition was reported.\<close>

definition bad_reports :: "log_item list \<Rightarrow> nat list" where
  "bad_reports l = List.map_filter (\<lambda>x. case x of Raised (Bad_transition _ i _) \<Rightarrow> Some i | _ \<Rightarrow> None) l"

lemma map_filter_append: "List.map_filter f (xs @ ys) = List.map_filter f xs @ List.map_filter f ys"
  by (simp add: List.map_filter_def)

lemma bad_reports_append [simp]: "bad_reports (l @ l') = bad_reports l @ bad_reports l'"
  by (simp add: bad_reports_def map_filter_append)

lemma bad_reports_Cons:
  "bad_reports (x # l) =
     (case x of Raised (Bad_transition _ i _) \<Rightarrow> i # bad_reports l | _ \<Rightarrow> bad_reports l)"
  by (simp add: bad_reports_def List.map_filter_simps split: log_item.split event.split)

lemma bad_reports_Printed [simp]: "bad_reports (map Printed os) = []" "bad_reports [] = []"
  by (induction os) (simp_all add: bad_reports_def List.map_filter_simps)

lemma dispatch_log: "dispatch n ev = Inr (l, x) \<Longrightarrow> \<exists>os. l = Raised ev # map Printed os"
  by (auto simp: dispatch_def E_eq_Inr)

lemma dispatch_bad_reports:
  "dispatch n ev = Inr (l, x) \<Longrightarrow>
   bad_reports l = (case ev of Bad_transition c i s \<Rightarrow> [i] | _ \<Rightarrow> [])"
  by (drule dispatch_log)
    (auto simp: bad_reports_Cons split: event.split)

text \<open>One turn of the loop that does not return early.\<close>

lemma instance_step_spec:
  assumes "instance_step rt a symbol ev ts m u i = Inr (l, Inr u')"
  obtains act trigger where "tesla_action (insts (u_class u) ! i) ev ts = Inr (act, trigger)"
    and "i < length (insts (u_class u))"
    and "tc_instances (u_class u') = Some ((insts (u_class u))[i := after_walk ev ts (insts (u_class u) ! i)])"
    and "tc_limit (u_class u') = tc_limit (u_class u)" and "tc_free (u_class u') = tc_free (u_class u)"
    and "u_expected u' = u_expected u - (if act = IGNORE then 0 else 1)"
    and "u_clones u' = u_clones u @ forks ev ts (insts (u_class u)) [i]"
    and "fork_of ev ts (insts (u_class u) ! i) \<noteq> None \<longrightarrow> length (u_clones u) < m"
    and "u_matched u' \<longleftrightarrow> u_matched u \<or> act \<in> {UPDATE, FORK}"
    and "u_cleanup u' \<longleftrightarrow> u_cleanup u \<or> cleans_up ev ts (insts (u_class u) ! i)"
    and "bad_reports l = (if act = FAIL then [i] else [])"
proof -
  let ?x = "insts (u_class u) ! i"
  from assms obtain act trigger l1 u1 where i: "i < length (insts (u_class u))"
    and nn: "tc_instances (u_class u) \<noteq> None"
    and act: "tesla_action ?x ev ts = Inr (act, trigger)"
    and take: "take_action rt a symbol m
        (u\<lparr>u_expected := u_expected u - (if act = IGNORE then 0 else 1)\<rparr>) i ?x (act, trigger) = Inr (l, Inr u1)"
    and u': "u' = (if is_cleanup trigger then u1\<lparr>u_cleanup := True\<rparr> else u1)"
    unfolding instance_step_def
    by (auto simp: R_eq_Inr nthE_eq_Inr case_eqs)
  have self: "tc_instances (u_class u) = Some ((insts (u_class u))[i := ?x])"
    using nn by (auto simp: insts_def)
  have cl: "cleans_up ev ts ?x \<longleftrightarrow> is_cleanup trigger" by (simp add: cleans_up_def act)
  show thesis
  proof (rule that [OF act i], goal_cases)
    case 1
    from take self show ?case
      by (cases act) (auto simp: u' take_action_def after_walk_def act R_eq_Inr case_eqs
          tesla_instance_clear_def Let_def split: option.split)
  qed (insert take, cases act; auto simp: u' cl take_action_def forks_def fork_of_def act R_eq_Inr
      case_eqs tesla_instance_clear_def Let_def List.map_filter_simps ev_defs dispatch_bad_reports
      split: option.splits)+
qed

text \<open>
  The state \<open>u'\<close> and log \<open>l\<close> when the slots from \<open>i\<close> on have been visited: every slot is as
  \<open>after_walk\<close> has it, whether or not the loop was cut off by \<open>expected\<close>.
\<close>

definition walked :: "tesla_key \<Rightarrow> tesla_transitions \<Rightarrow> nat \<Rightarrow> nat \<Rightarrow> upd \<Rightarrow> log_item list \<Rightarrow> upd \<Rightarrow> bool" where
  "walked ev ts m i u l u' \<longleftrightarrow> (let xs = insts (u_class u); js = [i..<length xs] in
     tc_instances (u_class u') = Some (take i xs @ map (after_walk ev ts) (drop i xs))
     \<and> u_clones u' = u_clones u @ forks ev ts xs js
     \<and> (length (u_clones u) \<le> m \<longrightarrow> length (u_clones u') \<le> m)
     \<and> (u_matched u' \<longleftrightarrow> u_matched u \<or> (\<exists>j \<in> set js. act_of ev ts (xs ! j) \<in> {Inr UPDATE, Inr FORK}))
     \<and> (u_cleanup u' \<longleftrightarrow> u_cleanup u \<or> (\<exists>j \<in> set js. cleans_up ev ts (xs ! j)))
     \<and> bad_reports l = filter (\<lambda>j. act_of ev ts (xs ! j) = Inr FAIL) js
     \<and> (\<forall>j \<in> set js. \<exists>r. tesla_action (xs ! j) ev ts = Inr r))"

lemma action_inactive:
  assumes "\<not> tesla_instance_active x"
  shows "tesla_action x ev ts = Inr (IGNORE, None)" and "after_walk ev ts x = x"
    and "fork_of ev ts x = None" and "\<not> cleans_up ev ts x"
  using assms by (simp_all add: tesla_action_def after_walk_def fork_of_def cleans_up_def is_cleanup_def)

lemma forks_simps [simp]:
  "forks ev ts xs [] = []"
  "forks ev ts xs (j # js) =
     (case fork_of ev ts (xs ! j) of None \<Rightarrow> forks ev ts xs js | Some t \<Rightarrow> (j, t) # forks ev ts xs js)"
  by (simp_all add: forks_def List.map_filter_simps split: option.split)

lemma forks_update: "i \<notin> set js \<Longrightarrow> forks ev ts (xs[i := x]) js = forks ev ts xs js"
  by (induction js) (auto split: option.split)

lemma walked_inactive:
  assumes "\<forall>x \<in> set (drop i (insts (u_class u))). \<not> tesla_instance_active x"
    and "tc_instances (u_class u) \<noteq> None"
  shows "walked ev ts m i u [] u"
proof -
  let ?xs = "insts (u_class u)"
  have j: "\<not> tesla_instance_active (?xs ! j)" if "j \<in> set [i..<length ?xs]" for j
    using assms(1) that by (rule drop_all_nth)
  have "map (after_walk ev ts) (drop i ?xs) = drop i ?xs"
    using assms(1) by (intro map_idI) (simp add: action_inactive)
  moreover have "forks ev ts ?xs [i..<length ?xs] = []"
    using j by (auto simp: forks_def List.map_filter_def action_inactive filter_empty_conv)
  moreover have "tc_instances (u_class u) = Some ?xs"
    using assms(2) by (auto simp: insts_def)
  ultimately show ?thesis
    using j by (auto simp: walked_def Let_def action_inactive filter_empty_conv)
qed

lemma walked_step:
  assumes step: "instance_step rt a symbol ev ts m u i = Inr (l, Inr u1)"
    and rest: "walked ev ts m (Suc i) u1 l' u'"
  shows "walked ev ts m i u (l @ l') u'"
proof -
  let ?xs = "insts (u_class u)"
  obtain act trigger where
    act: "tesla_action (?xs ! i) ev ts = Inr (act, trigger)" and i: "i < length ?xs"
    and c: "tc_instances (u_class u1) = Some (?xs[i := after_walk ev ts (?xs ! i)])"
    and cl: "u_clones u1 = u_clones u @ forks ev ts ?xs [i]"
    and m: "fork_of ev ts (?xs ! i) \<noteq> None \<longrightarrow> length (u_clones u) < m"
    and ma: "u_matched u1 \<longleftrightarrow> u_matched u \<or> act \<in> {UPDATE, FORK}"
    and cu: "u_cleanup u1 \<longleftrightarrow> u_cleanup u \<or> cleans_up ev ts (?xs ! i)"
    and bad: "bad_reports l = (if act = FAIL then [i] else [])"
    by (rule instance_step_spec [OF step], rule that)
  have xs1: "insts (u_class u1) = ?xs[i := after_walk ev ts (?xs ! i)]" by (simp add: insts_def c)
  have js: "[i..<length ?xs] = i # [Suc i..<length ?xs]" using i by (simp add: upt_conv_Cons)
  have nth: "insts (u_class u1) ! j = ?xs ! j" if "j \<in> set [Suc i..<length ?xs]" for j
    using that by (simp add: xs1)
  have tk: "take (Suc i) (?xs[i := after_walk ev ts (?xs ! i)]) @ map (after_walk ev ts) (drop (Suc i) ?xs)
      = take i ?xs @ map (after_walk ev ts) (drop i ?xs)"
    using i by (simp add: take_Suc_conv_app_nth Cons_nth_drop_Suc [symmetric])
  have "length (u_clones u1) \<le> m" if "length (u_clones u) \<le> m"
    using that m cl by (cases "fork_of ev ts (?xs ! i)") auto
  with rest have len: "length (u_clones u) \<le> m \<longrightarrow> length (u_clones u') \<le> m"
    unfolding walked_def Let_def by blast
  have "forks ev ts (?xs[i := after_walk ev ts (?xs ! i)]) [Suc i..<length ?xs]
      = forks ev ts ?xs [Suc i..<length ?xs]"
    by (simp add: forks_update)
  moreover have "filter (\<lambda>j. act_of ev ts (?xs[i := after_walk ev ts (?xs ! i)] ! j) = Inr FAIL) [Suc i..<length ?xs]
      = filter (\<lambda>j. act_of ev ts (?xs ! j) = Inr FAIL) [Suc i..<length ?xs]"
    by (rule filter_cong) simp_all
  moreover note rest [unfolded walked_def Let_def xs1 length_list_update drop_update_cancel [OF lessI] tk]
  ultimately show ?thesis
    unfolding walked_def Let_def
    by (intro conjI len) (simp_all add: js cl ma cu bad act split: option.split)
qed

lemma update_loop_spec:
  assumes "update_loop rt a symbol ev ts m u [i..<length (insts (u_class u))] = Inr (l, Inr u')"
    and "tc_instances (u_class u) \<noteq> None"
    and "int (countp tesla_instance_active (drop i (insts (u_class u)))) \<le> u_expected u"
  shows "walked ev ts m i u l u'"
  using assms
proof (induction "length (insts (u_class u)) - i" arbitrary: i u l)
  case 0
  then show ?case by (auto intro!: walked_inactive)
next
  case (Suc d)
  let ?xs = "insts (u_class u)"
  from Suc.hyps(2) have i: "i < length ?xs" by simp
  show ?case
  proof (cases "0 < u_expected u")
    case False
    with Suc.prems(3) have "countp tesla_instance_active (drop i ?xs) = 0" by simp
    then have "walked ev ts m i u [] u"
      using Suc.prems(2) by (intro walked_inactive) (simp_all add: countp_0_iff)
    with False Suc.prems(1) i show ?thesis by (simp add: upt_conv_Cons)
  next
    case True
    with Suc.prems(1) i obtain l1 l2 u1 where l: "l = l1 @ l2"
      and step: "instance_step rt a symbol ev ts m u i = Inr (l1, Inr u1)"
      and rest: "update_loop rt a symbol ev ts m u1 [Suc i..<length ?xs] = Inr (l2, Inr u')"
      by (auto simp: upt_conv_Cons R_eq_Inr case_eqs)
    obtain act trigger where
      act: "tesla_action (?xs ! i) ev ts = Inr (act, trigger)"
      and c: "tc_instances (u_class u1) = Some (?xs[i := after_walk ev ts (?xs ! i)])"
      and e: "u_expected u1 = u_expected u - (if act = IGNORE then 0 else 1)"
      by (rule instance_step_spec [OF step], rule that)
    have xs1: "insts (u_class u1) = ?xs[i := after_walk ev ts (?xs ! i)]" by (simp add: insts_def c)
    have "int (countp tesla_instance_active (drop (Suc i) (insts (u_class u1)))) \<le> u_expected u1"
      using Suc.prems(3) i action_active [OF act]
      by (auto simp: xs1 e Cons_nth_drop_Suc [symmetric] split: if_splits)
    then have "walked ev ts m (Suc i) u1 l2 u'"
      using Suc.hyps(2) rest by (intro Suc.hyps(1)) (auto simp: xs1 c)
    with step show ?thesis unfolding l by (rule walked_step)
  qed
qed

text \<open>The only early return of the loop is for want of room for clones.\<close>

lemma instance_step_early:
  assumes "instance_step rt a symbol ev ts m u i = Inr (l, Inl c)"
  shows "fork_of ev ts (insts (u_class u) ! i) \<noteq> None" and "m \<le> length (u_clones u)"
proof -
  from assms obtain act trigger where
    act: "tesla_action (insts (u_class u) ! i) ev ts = Inr (act, trigger)"
    and take: "take_action rt a symbol m
        (u\<lparr>u_expected := u_expected u - (if act = IGNORE then 0 else 1)\<rparr>) i
        (insts (u_class u) ! i) (act, trigger) = Inr (l, Inl c)"
    unfolding instance_step_def
    by (auto simp: R_eq_Inr nthE_eq_Inr case_eqs)
  have "act = FORK" and m: "m \<le> length (u_clones u)"
    using take by (cases act; auto simp: take_action_def R_eq_Inr Let_def case_eqs)+
  with act action_trigger(1) [OF act] show "fork_of ev ts (insts (u_class u) ! i) \<noteq> None"
    by (auto simp: fork_of_def)
  show "m \<le> length (u_clones u)" by (rule m)
qed

lemma update_loop_early:
  assumes "update_loop rt a symbol ev ts m u [i..<length (insts (u_class u))] = Inr (l, Inl c)"
  shows "m < length (u_clones u) + length (forks ev ts (insts (u_class u)) [i..<length (insts (u_class u))])"
  using assms
proof (induction "length (insts (u_class u)) - i" arbitrary: i u l)
  case (Suc d)
  let ?xs = "insts (u_class u)"
  from Suc.hyps(2) have i: "i < length ?xs" by simp
  then have js: "[i..<length ?xs] = i # [Suc i..<length ?xs]" by (simp add: upt_conv_Cons)
  from Suc.prems consider (early) l1 where "instance_step rt a symbol ev ts m u i = Inr (l1, Inl c)"
    | (late) l1 l2 u1 where "instance_step rt a symbol ev ts m u i = Inr (l1, Inr u1)"
      "update_loop rt a symbol ev ts m u1 [Suc i..<length ?xs] = Inr (l2, Inl c)"
    unfolding js by (auto simp: R_eq_Inr case_eqs)
  then show ?case
  proof cases
    case early
    then show ?thesis using instance_step_early [OF early] by (auto simp: js)
  next
    case late
    obtain act trigger where
      c: "tc_instances (u_class u1) = Some (?xs[i := after_walk ev ts (?xs ! i)])"
      and cl: "u_clones u1 = u_clones u @ forks ev ts ?xs [i]"
      by (rule instance_step_spec [OF late(1)], rule that)
    have xs1: "insts (u_class u1) = ?xs[i := after_walk ev ts (?xs ! i)]" by (simp add: insts_def c)
    have "m < length (u_clones u1)
        + length (forks ev ts (insts (u_class u1)) [Suc i..<length (insts (u_class u1))])"
      using Suc.hyps(2) late(2) by (intro Suc.hyps(1)) (simp_all add: xs1)
    then show ?thesis
      by (auto simp: js cl xs1 forks_update split: option.splits)
  qed
qed simp

subsection \<open>Cloning\<close>

definition live :: "tesla_class \<Rightarrow> tesla_instance multiset" where
  "live c = mset (filter tesla_instance_active (insts c))"

definition clone_of :: "tesla_key \<Rightarrow> tesla_instance \<Rightarrow> tesla_transition \<Rightarrow> tesla_instance" where
  "clone_of ev inst t = \<lparr>ti_key = snd (tesla_key_union (ti_key inst)
      (ev\<lparr>tk_mask := tk_mask ev AND t_to_mask t\<rparr>)), ti_state = t_to t\<rparr>"

definition clonable :: "tesla_key \<Rightarrow> tesla_class \<Rightarrow> nat \<times> tesla_transition \<Rightarrow> bool" where
  "clonable ev c info = (case info of (old, t) \<Rightarrow>
     old < length (insts c) \<and> tesla_instance_active (insts c ! old) \<and> t_to t \<noteq> 0
     \<and> keys_compatible (ti_key (insts c ! old)) (ev\<lparr>tk_mask := tk_mask ev AND t_to_mask t\<rparr>))"

lemma union_compatible:
  assumes "wf_key d" and "keys_compatible d s"
  shows "fst (tesla_key_union d s) = TESLA_SUCCESS"
  by (rule key_union_success [OF assms]) simp

lemma mset_filter_update:
  "i < length xs \<Longrightarrow> \<not> P (xs ! i) \<Longrightarrow> P y \<Longrightarrow>
   mset (filter P (xs[i := y])) = add_mset y (mset (filter P xs))"
proof (induction xs arbitrary: i)
  case (Cons x xs)
  then show ?case by (cases i) auto
qed simp

lemma clone_one_succeeds:
  assumes "class_inv c" and "tc_free c \<noteq> 0" and "clonable ev c (old, t)"
    and "clone_one rt a symbol ev c (old, t) = Inr (l, (go, c'))"
  obtains i where "go" and "class_ok c c'" and "i < length (insts c)"
    and "\<not> tesla_instance_active (insts c ! i)"
    and "insts c' = (insts c)[i := clone_of ev (insts c ! old) t]"
    and "tc_free c' = tc_free c - 1"
proof -
  let ?x = "insts c ! old"
  let ?name = "ev\<lparr>tk_mask := tk_mask ev AND t_to_mask t\<rparr>"
  from assms(3) have old: "old < length (insts c)" "tesla_instance_active ?x"
    and comp: "keys_compatible (ti_key ?x) ?name"
    by (simp_all add: clonable_def)
  have "0 < unat (tc_free c)" "wf_key (ti_key ?x)"
    using assms(1,2) old(1) by (simp_all add: unat_pos_iff class_invD(4))
  with class_pool.alloc_ok [OF assms(1) old(2)] obtain c1 i where
    new: "tesla_instance_clone c ?x = Inr (Inr (c1, i))" by blast
  note c1 = instance_clone_ok [OF assms(1) old(1) new]
  then have ci: "i < length (insts c1)" and xs1: "insts c1 = (insts c)[i := ?x]" by blast+
  then have i: "i < length (insts c)" and at_i: "insts c1 ! i = ?x" by simp_all
  obtain key where un: "tesla_key_union (ti_key ?x) ?name = (TESLA_SUCCESS, key)"
    using union_compatible [OF \<open>wf_key (ti_key ?x)\<close> comp]
    by (cases "tesla_key_union (ti_key ?x) ?name") simp
  have clone: "clone_of ev ?x t = ?x\<lparr>ti_key := key, ti_state := t_to t\<rparr>"
    by (simp add: clone_of_def un)
  have c': "go \<and> c' = set_inst c1 i (clone_of ev ?x t)"
    using assms(4) old(1) new ci
    by (auto simp: clone_one_def R_eq_Inr un at_i clone Let_def case_eqs)
  show thesis
  proof (rule that [of i])
    show "class_ok c c'"
      using retsRD [OF clone_one_ok [OF assms(1)] assms(4)] by simp
  qed (use c' c1 i xs1 in auto)
qed

lemma clone_loop_succeeds:
  "class_inv c \<Longrightarrow> length infos \<le> unat (tc_free c) \<Longrightarrow> \<forall>info \<in> set infos. clonable ev c info \<Longrightarrow>
   clone_loop rt a symbol ev c infos = Inr (l, (go, c')) \<Longrightarrow>
   go \<and> class_ok c c' \<and>
   live c' = live c + mset (map (\<lambda>(old, t). clone_of ev (insts c ! old) t) infos)"
proof (induction infos arbitrary: c l)
  case (Cons info infos)
  obtain old t where info: "info = (old, t)" by (cases info)
  from Cons.prems(2) have free: "tc_free c \<noteq> 0" by auto
  from Cons.prems(4) obtain l1 l2 go1 c1 where
    one: "clone_one rt a symbol ev c (old, t) = Inr (l1, (go1, c1))"
    and rest: "(if go1 then clone_loop rt a symbol ev c1 infos else retR (False, c1)) = Inr (l2, (go, c'))"
    unfolding info by (auto simp: R_eq_Inr)
  from Cons.prems(3) have "clonable ev c (old, t)" by (simp add: info)
  from Cons.prems(1) free this one obtain i where go1: "go1" and ok: "class_ok c c1"
    and i: "i < length (insts c)" "\<not> tesla_instance_active (insts c ! i)"
    and xs: "insts c1 = (insts c)[i := clone_of ev (insts c ! old) t]"
    and f: "tc_free c1 = tc_free c - 1"
    by (rule clone_one_succeeds)
  have keep: "insts c1 ! j = insts c ! j" if "tesla_instance_active (insts c ! j)" for j
    using that i xs by (cases "j = i") auto
  have cl: "\<forall>info \<in> set infos. clonable ev c1 info"
    using Cons.prems(3) keep xs by (fastforce simp: clonable_def)
  have "t_to t \<noteq> 0" using Cons.prems(3) by (simp add: info clonable_def)
  then have "live c1 = add_mset (clone_of ev (insts c ! old) t) (live c)"
    unfolding live_def xs using i
    by (intro mset_filter_update) (simp_all add: tesla_instance_active_def clone_of_def)
  moreover have me: "map (\<lambda>(old, t). clone_of ev (insts c1 ! old) t) infos
      = map (\<lambda>(old, t). clone_of ev (insts c ! old) t) infos"
    using Cons.prems(3) keep by (intro map_cong) (auto simp: clonable_def)
  moreover have "go \<and> class_ok c1 c' \<and>
      live c' = live c1 + mset (map (\<lambda>(old, t). clone_of ev (insts c1 ! old) t) infos)"
    using Cons.prems(2) ok cl rest go1 f unat_dec [OF free]
    by (intro Cons.IH [of _ l2]) (auto simp: class_ok_def)
  ultimately show ?case
    using ok unfolding me by (auto simp: info class_ok_def intro: same_class_trans)
qed (auto simp: class_ok_def)

subsection \<open>The whole step\<close>

text \<open>Which events the parts of an update raise.\<close>

definition clone_event :: "event \<Rightarrow> bool" where
  "clone_event ev = (case ev of Err _ _ _ _ \<Rightarrow> True | Clone _ _ _ _ \<Rightarrow> True | Accept _ _ \<Rightarrow> True | _ \<Rightarrow> False)"

definition walk_event :: "event \<Rightarrow> bool" where
  "walk_event ev = (case ev of
     Err _ _ _ _ \<Rightarrow> True | Transition _ _ _ \<Rightarrow> True | Bad_transition _ _ _ \<Rightarrow> True | Accept _ _ \<Rightarrow> True
   | _ \<Rightarrow> False)"

lemma clone_loop_raises: "raises (clone_loop rt a symbol ev c infos) clone_event"
proof (induction infos arbitrary: c)
  case (Cons info infos)
  have "raises (clone_one rt a symbol ev c info) clone_event"
    unfolding clone_one_def ev_defs by (intro raise_rules) (simp_all add: clone_event_def)
  with Cons show ?case
    unfolding clone_loop.simps by (intro raise_rules)
qed (simp add: raise_rules)

lemma take_action_raises: "raises (take_action rt a symbol m u i inst act) walk_event"
proof -
  obtain w trigger where act: "act = (w, trigger)" by (cases act)
  show ?thesis
    unfolding act take_action_def prod.case ev_defs
    by (cases w; simp only: tesla_action_t.case; intro raise_rules; simp add: walk_event_def)
qed

lemma update_loop_raises: "raises (update_loop rt a symbol ev ts m u is) walk_event"
proof (induction "is" arbitrary: u)
  case (Cons i "is")
  show ?case
    unfolding update_loop.simps instance_step_def
    by (intro raise_rules take_action_raises Cons.IH)
qed (simp add: raise_rules)

lemma bad_reports_none: "(\<And>c i s. Raised (Bad_transition c i s) \<notin> set l) \<Longrightarrow> bad_reports l = []"
  by (induction l) (auto simp: bad_reports_Cons split: log_item.split event.split)

text \<open>The transition an instance takes is the first it can take.\<close>

lemma action_loop_takes:
  "action_loop inst ev ts ig = Inr (act, Some t) \<Longrightarrow> takes ev inst t \<and> act = trans_kind t \<and> t \<in> set ts"
proof (induction inst ev ts ig rule: action_loop.induct)
  case (2 inst ev t' ts ig)
  show ?case
  proof (cases "t_from t' = ti_state inst")
    case True
    with "2.prems" have m: "t_from_mask t' = tk_mask (ti_key inst)" by (simp add: E_eq_Inr)
    with True 2 fork_match [of ev inst] update_match [of ev inst] trans_kind_def [of t'] show ?thesis
      by (auto simp: Let_def takes_def split: if_splits)
  next
    case False
    with 2 show ?thesis by auto
  qed
qed simp

lemma fork_of_clonable:
  assumes "fork_of ev ts inst = Some t"
  shows "tesla_instance_active inst" and "t \<in> set ts" and "after_walk ev ts inst = inst"
    and "keys_compatible (ti_key inst) (ev\<lparr>tk_mask := tk_mask ev AND msk\<rparr>)"
proof -
  from assms have act: "tesla_action inst ev ts = Inr (FORK, Some t)"
    by (auto simp: fork_of_def split: sum.splits prod.splits tesla_action_t.splits option.splits)
  then have "tesla_instance_active inst" and "action_loop inst ev ts True = Inr (FORK, Some t)"
    by (auto simp: tesla_action_def split: if_splits)
  then show "tesla_instance_active inst" and "t \<in> set ts"
    and "keys_compatible (ti_key inst) (ev\<lparr>tk_mask := tk_mask ev AND msk\<rparr>)"
    using action_loop_takes [of inst ev ts True FORK t]
    by (auto simp: takes_def concerns_def keys_compatible_def bit_and_iff)
  show "after_walk ev ts inst = inst" by (simp add: after_walk_def act)
qed

lemma expected_active:
  assumes "class_inv c" and "tc_limit c < 2 ^ 31"
  shows "int (countp tesla_instance_active (insts c)) \<le> sint (tc_limit c - tc_free c)"
proof -
  note inv = class_invD [OF assms(1)]
  have lim: "unat (tc_limit c) < 2 ^ 31"
    using assms(2) by (simp add: word_less_nat_alt)
  have "countp tesla_instance_active (insts c) + unused c = unat (tc_limit c)"
    using countp_not [of tesla_instance_active "insts c"] inv(2) by simp
  with inv(3) have le: "unat (tc_free c) \<le> unat (tc_limit c)"
    and act: "countp tesla_instance_active (insts c) \<le> unat (tc_limit c) - unat (tc_free c)"
    by simp_all
  have u: "unat (tc_limit c - tc_free c) = unat (tc_limit c) - unat (tc_free c)"
    using le by (simp add: unat_sub word_le_nat_alt)
  then have "sint (tc_limit c - tc_free c) = int (unat (tc_limit c - tc_free c))"
    using lim by (intro sint_small) simp
  with act u show ?thesis by simp
qed

text \<open>What becomes of one live instance: itself, changed or gone, and perhaps a clone.\<close>

definition succs :: "tesla_key \<Rightarrow> tesla_transitions \<Rightarrow> tesla_instance \<Rightarrow> tesla_instance list" where
  "succs ev ts inst =
     filter tesla_instance_active [after_walk ev ts inst]
     @ (case fork_of ev ts inst of None \<Rightarrow> [] | Some t \<Rightarrow> [clone_of ev inst t])"

definition clones_needed :: "tesla_key \<Rightarrow> tesla_transitions \<Rightarrow> tesla_class \<Rightarrow> nat" where
  "clones_needed ev ts c = countp (\<lambda>x. fork_of ev ts x \<noteq> None) (insts c)"

lemma length_forks: "length (forks ev ts xs js) = countp (\<lambda>j. fork_of ev ts (xs ! j) \<noteq> None) js"
  by (induction js) (auto split: option.split)

lemma countp_nth: "countp (\<lambda>j. P (xs ! j)) [0..<length xs] = countp P xs"
proof -
  have "countp P (map (\<lambda>j. xs ! j) [0..<length xs]) = countp (\<lambda>j. P (xs ! j)) [0..<length xs]"
    by (simp add: countp_def filter_map comp_def)
  then show ?thesis by (simp add: map_nth)
qed

lemma forks_in:
  assumes "(j, t) \<in> set (forks ev ts xs js)"
  shows "j \<in> set js" and "fork_of ev ts (xs ! j) = Some t"
  using assms by (induction js) (auto split: option.splits)

lemma forks_inD:
  "(j, t) \<in> set (forks ev ts xs js) \<Longrightarrow> j \<in> set js \<and> fork_of ev ts (xs ! j) = Some t"
  using forks_in by fast

abbreviation clones_of :: "tesla_key \<Rightarrow> tesla_transitions \<Rightarrow> tesla_instance \<Rightarrow> tesla_instance list" where
  "clones_of ev ts x \<equiv> (case fork_of ev ts x of None \<Rightarrow> [] | Some t \<Rightarrow> [clone_of ev x t])"

lemma forks_clones:
  "map (\<lambda>(j, t). clone_of ev (xs ! j) t) (forks ev ts xs [0..<length xs]) = concat (map (clones_of ev ts) xs)"
proof -
  have "map (\<lambda>(j, t). clone_of ev (xs ! j) t) (forks ev ts xs js)
      = concat (map (\<lambda>j. clones_of ev ts (xs ! j)) js)" for js
    by (induction js) (auto split: option.split)
  then have "map (\<lambda>(j, t). clone_of ev (xs ! j) t) (forks ev ts xs [0..<length xs])
      = concat (map (clones_of ev ts) (map (\<lambda>j. xs ! j) [0..<length xs]))"
    by (simp add: comp_def)
  then show ?thesis by (simp add: map_nth)
qed

lemma succs_sum:
  "mset (filter tesla_instance_active (map (after_walk ev ts) xs))
     + mset (map (\<lambda>(j, t). clone_of ev (xs ! j) t) (forks ev ts xs [0..<length xs]))
   = mset (concat (map (succs ev ts) (filter tesla_instance_active xs)))"
  unfolding forks_clones
proof (induction xs)
  case (Cons x xs)
  then show ?case
    by (cases "tesla_instance_active x") (simp_all add: action_inactive succs_def)
qed simp

text \<open>The state in which the walk starts.\<close>

abbreviation start :: "tesla_class \<Rightarrow> upd" where
  "start c \<equiv> \<lparr>u_class = c, u_expected = sint (tc_limit c - tc_free c), u_clones = [],
     u_matched = False, u_cleanup = False\<rparr>"

text \<open>The walk, when there is room for the clones.\<close>

lemma walk_outcome:
  assumes inv: "class_inv c" "tc_limit c < 2 ^ 31"
    and room: "clones_needed ev ts c \<le> unat (tc_free c)"
    and m: "unat (tc_free c) \<le> m"
    and loop: "update_loop rt a symbol ev ts m (start c) [0..<length (insts c)] = Inr (l, r)"
  obtains u where "r = Inr u" and "walked ev ts m 0 (start c) l u"
    and "class_ok c (u_class u)" and "tc_free (u_class u) = tc_free c"
    and "insts (u_class u) = map (after_walk ev ts) (insts c)"
    and "u_clones u = forks ev ts (insts c) [0..<length (insts c)]"
    and "length (u_clones u) \<le> unat (tc_free c)"
proof -
  let ?m = "unat (tc_free c)"
  have nf: "length (forks ev ts (insts c) [0..<length (insts c)]) \<le> ?m"
    using room unfolding length_forks clones_needed_def
    by (subst countp_nth [where P = "\<lambda>x. fork_of ev ts x \<noteq> None"])
  have "r \<noteq> Inl x" for x
    using update_loop_early [of rt a symbol ev ts m "start c" 0 l x] loop nf m by auto
  then obtain u where r: "r = Inr u" by (cases r) auto
  have w: "walked ev ts m 0 (start c) l u"
    using loop r class_invD(1) [OF inv(1)] expected_active [OF inv]
    by (intro update_loop_spec) auto
  show thesis
  proof (rule that [OF r w])
    show "class_ok c (u_class u)" "tc_free (u_class u) = tc_free c"
      using retsRD [OF update_loop_ok [of c "start c"] loop] inv(1) r
      by (simp_all add: walk_ok_def class_ok_def)
  qed (use w nf in \<open>simp_all add: walked_def Let_def insts_def\<close>)
qed

text \<open>The clones, after such a walk.\<close>

lemma clones_outcome:
  assumes u: "class_ok c (u_class u)" "tc_free (u_class u) = tc_free c"
      "insts (u_class u) = map (after_walk ev ts) (insts c)"
      "u_clones u = forks ev ts (insts c) [0..<length (insts c)]"
      "length (u_clones u) \<le> unat (tc_free c)"
    and ts: "\<forall>t \<in> set ts. t_to t \<noteq> 0"
    and clone: "clone_loop rt a symbol ev (u_class u) (u_clones u) = Inr (l, (go, c2))"
  shows "go" and "class_ok c c2"
    and "live c2 = mset (concat (map (succs ev ts) (filter tesla_instance_active (insts c))))"
proof -
  let ?xs = "insts c"
  have "clonable ev (u_class u) info" if "info \<in> set (u_clones u)" for info
  proof -
    obtain j t where "info = (j, t)" by (cases info)
    with that forks_in [of j t ev ts ?xs "[0..<length ?xs]"] have info: "info = (j, t)" "j < length ?xs"
      and "fork_of ev ts (?xs ! j) = Some t" by (auto simp: u(4))
    with fork_of_clonable [OF this(3)] ts show ?thesis by (simp add: clonable_def u(3))
  qed
  then have c2: "go" "class_ok (u_class u) c2"
      "live c2 = live (u_class u) + mset (map (\<lambda>(old, t). clone_of ev (insts (u_class u) ! old) t) (u_clones u))"
    using clone_loop_succeeds [OF _ _ _ clone] u by (auto simp: class_ok_def)
  have me: "map (\<lambda>(old, t). clone_of ev (insts (u_class u) ! old) t) (u_clones u)
      = map (\<lambda>(old, t). clone_of ev (?xs ! old) t) (forks ev ts ?xs [0..<length ?xs])"
    unfolding u(4) by (rule map_cong) (auto simp: u(3) dest!: forks_inD simp: fork_of_clonable(3))
  have lu: "live (u_class u) = mset (filter tesla_instance_active (map (after_walk ev ts) ?xs))"
    unfolding live_def u(3) ..
  show "live c2 = mset (concat (map (succs ev ts) (filter tesla_instance_active ?xs)))"
    unfolding c2(3) me lu by (rule succs_sum)
  show "go" and "class_ok c c2"
    using u(1) c2 by (auto simp: class_ok_def intro: same_class_trans)
qed

text \<open>What follows the clones: the notification when nothing matched, and the cleanup.\<close>

definition finish_step ::
  "runtime \<Rightarrow> u32 \<Rightarrow> tesla_key \<Rightarrow> upd \<Rightarrow> tesla_class \<Rightarrow> tesla_class run" where
  "finish_step rt symbol ev u c2 =
     bindR (if \<not> u_matched u then ev_no_instance (rt_notify rt) c2 symbol ev else retR ()) (\<lambda>_.
       if u_cleanup u then
         bindR (liftR (tesla_class_reset (rt_automata rt) (rt_env rt) c2)) (\<lambda>(msg, c'').
         bindR (tellR msg) (\<lambda>_. retR c''))
       else retR c2)"

lemma finish_outcome:
  assumes "finish_step rt symbol ev u c2 = Inr (l, c')" and "class_inv c2"
  shows "c' = (if u_cleanup u then reset_class c2 else c2)"
    and "\<forall>e. Raised e \<in> set l \<longleftrightarrow> \<not> u_matched u \<and> e = No_instance c2 symbol ev"
  using assms
  by (auto simp: finish_step_def R_eq_Inr tellR_def ev_no_instance_def
      dest!: dispatch_log class_reset_inv [rotated] split: if_splits)

lemma step_class_cases:
  assumes inv: "class_inv c" "tc_limit c < 2 ^ 31"
    and ts: "unat symbol < length (ta_transitions autom)" "ts = ta_transitions autom ! unat symbol"
      "\<forall>t \<in> set ts. t_to t \<noteq> 0"
    and room: "clones_needed ev ts c \<le> unat (tc_free c)"
    and m: "unat (tc_free c) \<le> m"
    and run: "step_class rt a autom symbol ev m c = Inr (l, c')"
  obtains l1 l2 l3 u c2 where "l = l1 @ l2 @ l3"
    and "walked ev ts m 0 (start c) l1 u"
    and "\<forall>e. Raised e \<in> set l1 \<longrightarrow> walk_event e"
    and "\<forall>e. Raised e \<in> set l2 \<longrightarrow> clone_event e"
    and "class_ok c c2" and "live c2 = mset (concat (map (succs ev ts) (filter tesla_instance_active (insts c))))"
    and "c' = (if u_cleanup u then reset_class c2 else c2)"
    and "\<forall>e. Raised e \<in> set l3 \<longleftrightarrow> \<not> u_matched u \<and> e = No_instance c2 symbol ev"
proof -
  have len: "unat (tc_limit c) = length (insts c)" using class_invD(2) [OF inv(1)] by simp
  from run ts(1,2) obtain l1 r l23 where
    loop: "update_loop rt a symbol ev ts m (start c) [0..<length (insts c)] = Inr (l1, r)"
    and rest: "(case r of Inl c' \<Rightarrow> retR c' | Inr u \<Rightarrow>
         bindR (clone_loop rt a symbol ev (u_class u) (u_clones u)) (\<lambda>(go, c').
           if \<not> go then retR c' else finish_step rt symbol ev u c')) = Inr (l23, c')"
    and l: "l = l1 @ l23"
    unfolding step_class_def len finish_step_def by (auto simp: R_eq_Inr)
  obtain u where r: "r = Inr u" and w: "walked ev ts m 0 (start c) l1 u"
    and u: "class_ok c (u_class u)" "tc_free (u_class u) = tc_free c"
      "insts (u_class u) = map (after_walk ev ts) (insts c)"
      "u_clones u = forks ev ts (insts c) [0..<length (insts c)]"
      "length (u_clones u) \<le> unat (tc_free c)"
    by (rule walk_outcome [OF inv room m loop])
  from rest r obtain l2 go c2 l3 where
    clone: "clone_loop rt a symbol ev (u_class u) (u_clones u) = Inr (l2, (go, c2))"
    and l3: "(if \<not> go then retR c2 else finish_step rt symbol ev u c2) = Inr (l3, c')"
    and l23: "l23 = l2 @ l3"
    by (auto simp: R_eq_Inr)
  note c2 = clones_outcome [OF u ts(3) clone]
  with l3 have "finish_step rt symbol ev u c2 = Inr (l3, c')" by simp
  from finish_outcome [OF this] c2 l l23 w show thesis
    using raisesD [OF update_loop_raises loop] raisesD [OF clone_loop_raises clone]
    by (intro that [of l1 l2 l3 u c2]) (auto simp: class_ok_def)
qed

text \<open>The outcome of a step, without the intermediate states.\<close>

definition no_instance_raised :: "log_item list \<Rightarrow> bool" where
  "no_instance_raised l \<longleftrightarrow> (\<exists>c s ev. Raised (No_instance c s ev) \<in> set l)"

definition step_ready ::
  "tesla_class \<Rightarrow> tesla_automaton \<Rightarrow> u32 \<Rightarrow> tesla_key \<Rightarrow> tesla_transitions \<Rightarrow> bool" where
  "step_ready c autom symbol ev ts \<longleftrightarrow>
     class_inv c \<and> tc_limit c < 2 ^ 31 \<and> unat symbol < length (ta_transitions autom)
     \<and> ts = ta_transitions autom ! unat symbol \<and> (\<forall>t \<in> set ts. t_to t \<noteq> 0)
     \<and> clones_needed ev ts c \<le> unat (tc_free c)"

lemma step_class_outcome:
  assumes "step_ready c autom symbol ev ts"
    and "unat (tc_free c) \<le> m"
    and "step_class rt a autom symbol ev m c = Inr (l, c')"
  shows "live c' = (if \<exists>x \<in> set (insts c). cleans_up ev ts x then {#}
      else mset (concat (map (succs ev ts) (filter tesla_instance_active (insts c)))))"
    and "(\<exists>x \<in> set (insts c). cleans_up ev ts x) \<Longrightarrow> tc_free c' = tc_limit c'"
    and "class_ok c c'"
    and "bad_reports l = filter (\<lambda>j. act_of ev ts (insts c ! j) = Inr FAIL) [0..<length (insts c)]"
    and "no_instance_raised l \<longleftrightarrow> \<not> (\<exists>x \<in> set (insts c). act_of ev ts x \<in> {Inr UPDATE, Inr FORK})"
proof -
  from assms(1) have r: "class_inv c" "tc_limit c < 2 ^ 31" "unat symbol < length (ta_transitions autom)"
    "ts = ta_transitions autom ! unat symbol" "\<forall>t \<in> set ts. t_to t \<noteq> 0"
    "clones_needed ev ts c \<le> unat (tc_free c)"
    unfolding step_ready_def by blast+
  obtain l1 l2 l3 u c2 where l: "l = l1 @ l2 @ l3"
    and w: "walked ev ts m 0
      \<lparr>u_class = c, u_expected = sint (tc_limit c - tc_free c), u_clones = [],
        u_matched = False, u_cleanup = False\<rparr> l1 u"
    and ev: "\<forall>e. Raised e \<in> set l1 \<longrightarrow> walk_event e" "\<forall>e. Raised e \<in> set l2 \<longrightarrow> clone_event e"
    and ok: "class_ok c c2"
    and live: "live c2 = mset (concat (map (succs ev ts) (filter tesla_instance_active (insts c))))"
    and c': "c' = (if u_cleanup u then reset_class c2 else c2)"
    and l3: "\<forall>e. Raised e \<in> set l3 \<longleftrightarrow> \<not> u_matched u \<and> e = No_instance c2 symbol ev"
    by (rule step_class_cases [OF r assms(2,3)], rule that)
  note w = w [unfolded walked_def Let_def, simplified upd.simps]
  have cu: "u_cleanup u \<longleftrightarrow> (\<exists>x \<in> set (insts c). cleans_up ev ts x)"
    using w ex_nth_set [of "insts c" "cleans_up ev ts"] by simp
  have ma: "u_matched u \<longleftrightarrow> (\<exists>x \<in> set (insts c). act_of ev ts x \<in> {Inr UPDATE, Inr FORK})"
    using w ex_nth_set [of "insts c" "\<lambda>x. act_of ev ts x \<in> {Inr UPDATE, Inr FORK}"] by simp
  show "live c' = (if \<exists>x \<in> set (insts c). cleans_up ev ts x then {#}
      else mset (concat (map (succs ev ts) (filter tesla_instance_active (insts c)))))"
    using live by (auto simp: c' cu live_def)
  show "(\<exists>x \<in> set (insts c). cleans_up ev ts x) \<Longrightarrow> tc_free c' = tc_limit c'"
    by (simp add: c' cu)
  show "class_ok c c'"
    using ok by (auto simp: c' class_ok_def intro: class_inv_reset_class)
  have "bad_reports l2 = []"
    using ev(2) by (intro bad_reports_none) (auto simp: clone_event_def)
  moreover have "bad_reports l3 = []"
    using l3 by (intro bad_reports_none) (auto split: if_splits)
  ultimately show "bad_reports l = filter (\<lambda>j. act_of ev ts (insts c ! j) = Inr FAIL) [0..<length (insts c)]"
    using w by (simp add: l)
  have "Raised (No_instance x y z) \<notin> set l1 \<union> set l2" for x y z
    using ev by (auto simp: clone_event_def walk_event_def)
  then show "no_instance_raised l \<longleftrightarrow> \<not> (\<exists>x \<in> set (insts c). act_of ev ts x \<in> {Inr UPDATE, Inr FORK})"
    using l3 unfolding ma [symmetric] no_instance_raised_def l by (auto split: if_splits)
qed

subsection \<open>The counter of expected matches\<close>

text \<open>The walk as it would be without \<open>expected\<close>.\<close>

fun update_all ::
  "runtime \<Rightarrow> uintptr \<Rightarrow> u32 \<Rightarrow> tesla_key \<Rightarrow> tesla_transitions \<Rightarrow> nat \<Rightarrow> upd \<Rightarrow> nat list
    \<Rightarrow> (tesla_class + upd) run" where
  "update_all rt a symbol pattern ts m u [] = retR (Inr u)"
| "update_all rt a symbol pattern ts m u (i # is) =
     bindR (instance_step rt a symbol pattern ts m u i) (\<lambda>r. case r of
       Inl c \<Rightarrow> retR (Inl c)
     | Inr u' \<Rightarrow> update_all rt a symbol pattern ts m u' is)"

lemma instance_step_inactive:
  assumes "tc_instances (u_class u) \<noteq> None" and "i < length (insts (u_class u))"
    and "\<not> tesla_instance_active (insts (u_class u) ! i)"
  shows "instance_step rt a symbol ev ts m u i = retR (Inr u)"
  using assms
  by (simp add: instance_step_def action_inactive take_action_def is_cleanup_def)

lemma update_all_inactive:
  assumes "tc_instances (u_class u) \<noteq> None"
    and "\<forall>i \<in> set is. i < length (insts (u_class u)) \<and> \<not> tesla_instance_active (insts (u_class u) ! i)"
  shows "update_all rt a symbol ev ts m u is = retR (Inr u)"
  using assms(2) by (induction "is") (simp_all add: instance_step_inactive [OF assms(1)])

lemma update_loop_all:
  assumes "tc_instances (u_class u) \<noteq> None"
    and "int (countp tesla_instance_active (drop i (insts (u_class u)))) \<le> u_expected u"
  shows "update_loop rt a symbol ev ts m u [i..<length (insts (u_class u))]
    = update_all rt a symbol ev ts m u [i..<length (insts (u_class u))]"
  using assms
proof (induction "length (insts (u_class u)) - i" arbitrary: i u)
  case (Suc d)
  let ?xs = "insts (u_class u)"
  from Suc.hyps(2) have i: "i < length ?xs" by simp
  then have js: "[i..<length ?xs] = i # [Suc i..<length ?xs]" by (simp add: upt_conv_Cons)
  show ?case
  proof (cases "0 < u_expected u")
    case False
    with Suc.prems(2) have "countp tesla_instance_active (drop i ?xs) = 0" by simp
    then have "\<forall>j \<in> set [i..<length ?xs]. j < length ?xs \<and> \<not> tesla_instance_active (?xs ! j)"
      unfolding countp_0_iff by (auto dest: drop_all_nth)
    then have "update_all rt a symbol ev ts m u [i..<length ?xs] = retR (Inr u)"
      by (rule update_all_inactive [OF Suc.prems(1)])
    with False show ?thesis by (simp add: js)
  next
    case True
    have "update_loop rt a symbol ev ts m u1 [Suc i..<length ?xs]
        = update_all rt a symbol ev ts m u1 [Suc i..<length ?xs]"
      if step: "instance_step rt a symbol ev ts m u i = Inr (l, Inr u1)" for l u1
    proof -
      obtain act trigger where act: "tesla_action (?xs ! i) ev ts = Inr (act, trigger)"
        and c: "tc_instances (u_class u1) = Some (?xs[i := after_walk ev ts (?xs ! i)])"
        and e: "u_expected u1 = u_expected u - (if act = IGNORE then 0 else 1)"
        by (rule instance_step_spec [OF step], rule that)
      have xs1: "insts (u_class u1) = ?xs[i := after_walk ev ts (?xs ! i)]" by (simp add: insts_def c)
      have "int (countp tesla_instance_active (drop (Suc i) (insts (u_class u1)))) \<le> u_expected u1"
        using Suc.prems(2) i action_active [OF act]
        by (auto simp: xs1 e Cons_nth_drop_Suc [symmetric] split: if_splits)
      with Suc.hyps(1) [of u1 "Suc i"] Suc.hyps(2) show ?thesis by (simp add: xs1 c)
    qed
    with True show ?thesis
      unfolding js by (auto intro!: bindR_cong split: sum.split)
  qed
qed simp

end
