(* ===== verification/Tesla_Lifetimes.thy ===== *)
theory Tesla_Lifetimes
  imports Tesla_Update_Inv
begin

text \<open>
  Lifetimes: when a class counts as initialised, what sunrise and sunset do to the list of
  lifetimes, and which init transitions the late initialisation of
  \<open>tesla_update_class_state\<close> can find.
\<close>

subsection \<open>Finding a lifetime\<close>

lemma find_lifetime_find:
  "\<forall>i \<in> set is. i < length lss \<Longrightarrow>
   find_lifetime (Inr l) lss is = Inr (find (\<lambda>i. same_static_lifetime l (lss ! i)) is)"
  by (induction "is") auto

definition known_lifetime :: "tesla_store \<Rightarrow> tesla_lifetime \<Rightarrow> bool" where
  "known_lifetime st l \<longleftrightarrow>
     (\<exists>i < unat (ts_lifetime_count st). same_static_lifetime l (lifetimes st ! i))"

lemma store_lifetime:
  assumes "store_inv st"
  shows "find_lifetime (Inr l) (lifetimes st) [0..<unat (ts_lifetime_count st)]
    = Inr (find (\<lambda>i. same_static_lifetime l (lifetimes st ! i)) [0..<unat (ts_lifetime_count st)])"
proof (rule find_lifetime_find)
  have "unat (ts_lifetime_count st) \<le> length (lifetimes st)"
    using store_invD(5,8) [OF assms] by (simp add: word_le_nat_alt)
  then show "\<forall>i \<in> set [0..<unat (ts_lifetime_count st)]. i < length (lifetimes st)" by auto
qed

lemma known_lifetime_iff:
  "known_lifetime st l \<longleftrightarrow>
   find (\<lambda>i. same_static_lifetime l (lifetimes st ! i)) [0..<unat (ts_lifetime_count st)] \<noteq> None"
  by (auto simp: known_lifetime_def find_None_iff)

text \<open>An event whose automaton's lifetime has not begun is reported as ignored and changes nothing.\<close>

lemma update_unknown:
  assumes "store_inv st" and "k < length (classes st)"
    and "rt_automata rt (tc_automaton (classes st ! k)) = Some autom"
    and "\<not> known_lifetime st (ta_lifetime autom)"
  shows "tesla_update_class_state rt st k symbol pattern ms =
    bindR (ev_ignored (rt_notify rt) (classes st ! k) symbol pattern) (\<lambda>_. retR (st, ms))"
  using assms store_lifetime [OF assms(1), of "ta_lifetime autom"]
  by (simp add: tesla_update_class_state_def known_lifetime_iff)

subsection \<open>Sunrise\<close>

lemma same_static_begin_end:
  "same_static_lifetime l (ls\<lparr>tls_begin := tl_begin l, tls_end := tl_end l\<rparr>)"
  by (simp add: same_static_lifetime_def same_event_def)

lemma sunrise_known:
  assumes "store_inv st" and "ts_lifetime_count st < TESLA_MAX_CLASSES" and "known_lifetime st l"
  shows "sunrise_store st l = Inr st"
  using assms store_lifetime [OF assms(1), of l] store_invD(1) [OF assms(1)]
  by (auto simp: sunrise_store_def known_lifetime_iff)

lemma sunrise_new:
  assumes "store_inv st" and "ts_lifetime_count st < TESLA_MAX_CLASSES" and "\<not> known_lifetime st l"
  shows "sunrise_store st l =
    Inr (set_lifetime (st\<lparr>ts_lifetime_count := ts_lifetime_count st + 1\<rparr>) (unat (ts_lifetime_count st))
      ((lifetimes st ! unat (ts_lifetime_count st))\<lparr>tls_begin := tl_begin l, tls_end := tl_end l\<rparr>))"
proof -
  have "unat (ts_lifetime_count st) < length (lifetimes st)"
    using assms(2) store_invD(5) [OF assms(1)] by (simp add: word_less_nat_alt)
  with assms store_lifetime [OF assms(1), of l] store_invD(1) [OF assms(1)] show ?thesis
    by (simp add: sunrise_store_def known_lifetime_iff Let_def)
qed

lemma unat_inc: "(x :: u32) < y \<Longrightarrow> unat (x + 1) = Suc (unat x)"
  by (metis Suc_eq_plus1 add.commute add_eq_0_iff unatSuc word_not_simps(3) word_order.extremum_strict)

lemma sunrise_begins:
  assumes "store_inv st" and "ts_lifetime_count st < TESLA_MAX_CLASSES"
  shows "\<exists>st'. sunrise_store st l = Inr st' \<and> store_inv st' \<and> known_lifetime st' l
    \<and> (\<forall>l'. known_lifetime st l' \<longrightarrow> known_lifetime st' l')
    \<and> classes st' = classes st"
proof (cases "known_lifetime st l")
  case True
  with assms show ?thesis by (auto simp: sunrise_known)
next
  case False
  let ?i = "unat (ts_lifetime_count st)"
  let ?ls = "(lifetimes st ! ?i)\<lparr>tls_begin := tl_begin l, tls_end := tl_end l\<rparr>"
  let ?st = "set_lifetime (st\<lparr>ts_lifetime_count := ts_lifetime_count st + 1\<rparr>) ?i ?ls"
  have st': "sunrise_store st l = Inr ?st" using assms False by (rule sunrise_new)
  have i: "?i < length (lifetimes st)"
    using assms(2) store_invD(5) [OF assms(1)] by (simp add: word_less_nat_alt)
  have count: "unat (ts_lifetime_count ?st) = Suc ?i"
    using unat_inc [OF assms(2)] by simp
  have "store_inv ?st" using retsD [OF sunrise_store_ok [OF assms(1)] st'] .
  moreover have "known_lifetime ?st l"
    unfolding known_lifetime_def count using i
    by (intro exI [of _ ?i]) (simp add: same_static_begin_end)
  moreover have "known_lifetime ?st l'" if known: "known_lifetime st l'" for l'
  proof -
    from known obtain j where "j < ?i" "same_static_lifetime l' (lifetimes st ! j)"
      by (auto simp: known_lifetime_def)
    then show ?thesis
      unfolding known_lifetime_def count by (intro exI [of _ j]) simp
  qed
  ultimately show ?thesis using st' by auto
qed

text \<open>With the table of lifetimes full, even a lifetime that is in it cannot begin or end again.\<close>

lemma lifetimes_full:
  assumes "store_inv st" and "ts_lifetime_count st = TESLA_MAX_CLASSES"
  shows "sunrise_store st l = Inl (Assertion ''store->ts_lifetime_count < store->ts_length'')"
    and "sunset_store rt ek st l ms = Inl (Assertion ''store->ts_lifetime_count < store->ts_length'')"
  using assms store_invD(1) [OF assms(1)] by (simp_all add: sunrise_store_def sunset_store_def)

lemma sunset_unknown:
  assumes "store_inv st" and "ts_lifetime_count st < TESLA_MAX_CLASSES" and "\<not> known_lifetime st l"
  shows "sunset_store rt ek st l ms = Inl (Assertion ''tesla_sunset() without corresponding sunrise'')"
  using assms store_lifetime [OF assms(1), of l] store_invD(1) [OF assms(1)]
  by (simp add: sunset_store_def known_lifetime_iff)

subsection \<open>Init transitions\<close>

text \<open>The init transitions that the shared loop counter lets the search see.\<close>

definition sees_init :: "tesla_automaton \<Rightarrow> nat \<Rightarrow> bool" where
  "sees_init autom i \<longleftrightarrow> i < length (ta_transitions autom ! i)
     \<and> has_flag (ta_transitions autom ! i ! 0) TESLA_TRANS_INIT"

lemma init_outer_none:
  "unat (ta_alphabet_size autom) \<le> length (ta_transitions autom) \<Longrightarrow>
   \<forall>j. i \<le> j \<and> j < unat (ta_alphabet_size autom) \<longrightarrow> \<not> sees_init autom j \<Longrightarrow>
   init_outer autom c i inst = Inr (Inr (c, inst))"
proof (induction autom c i inst rule: init_outer.induct)
  case (1 autom c i inst)
  show ?case
  proof (cases "i < unat (ta_alphabet_size autom)")
    case True
    let ?ts = "ta_transitions autom ! i"
    from True "1.prems" have at: "nthE ''ta_transitions'' (ta_transitions autom) i = Inr ?ts"
      and no: "\<not> sees_init autom i" by auto
    obtain i' where inner: "init_inner c ?ts i inst = Inr (Inr (c, i', inst))" and "i \<le> i'"
      using no by (cases "i < length ?ts") (auto simp: init_inner_eq sees_init_def)
    then have "init_outer autom c (i' + 1) inst = Inr (Inr (c, inst))"
      using True at "1.prems" by (intro "1.IH" [OF True at inner]) auto
    with True at inner show ?thesis by (subst init_outer.simps) simp
  next
    case False
    then show ?thesis by (subst init_outer.simps) simp
  qed
qed

lemma init_outer_first:
  assumes "class_inv c" and "tc_free c \<noteq> 0"
    and "unat (ta_alphabet_size autom) \<le> length (ta_transitions autom)" "0 < unat (ta_alphabet_size autom)"
    and "sees_init autom 0" and "t_to (ta_transitions autom ! 0 ! 0) \<noteq> 0"
    and "\<forall>j. 0 < j \<and> j < unat (ta_alphabet_size autom) \<longrightarrow> \<not> sees_init autom j"
  shows "\<exists>i. init_outer autom c 0 None =
      Inr (Inr ((set_inst c i \<lparr>ti_key = zero_key, ti_state = t_to (ta_transitions autom ! 0 ! 0)\<rparr>)
                  \<lparr>tc_free := tc_free c - 1\<rparr>, Some i))
    \<and> i < length (insts c) \<and> \<not> tesla_instance_active (insts c ! i)"
proof -
  let ?ts = "ta_transitions autom ! 0"
  let ?s = "t_to (?ts ! 0)"
  have at: "nthE ''ta_transitions'' (ta_transitions autom) 0 = Inr ?ts"
    using assms(3,4) by (intro nthE_in) linarith
  from assms(1) show ?thesis
  proof (cases rule: instance_new_cases [where name = zero_key and state = ?s])
    case (new i)
    let ?c = "(set_inst c i \<lparr>ti_key = zero_key, ti_state = ?s\<rparr>)\<lparr>tc_free := tc_free c - 1\<rparr>"
    have "init_inner c ?ts 0 None = Inr (Inr (?c, 0, Some i))"
      using assms(5) new(3) by (simp add: init_inner_eq sees_init_def)
    moreover have "init_outer autom ?c 1 (Some i) = Inr (Inr (?c, Some i))"
      using assms(3,7) by (intro init_outer_none) auto
    ultimately have "init_outer autom c 0 None = Inr (Inr (?c, Some i))"
      using assms(4) at by (subst init_outer.simps) simp
    with new show ?thesis by blast
  qed (use assms(2,6) in auto)
qed

end
