(* ===== verification/Tesla_Examples.thy ===== *)
theory Tesla_Examples
  imports Tesla_Process Tesla_Update_Spec Tesla_Lifetimes
begin

text \<open>
  A small automaton, class, runtime and store, used to show that the hypotheses of the
  properties can hold.  The automaton starts in state 1, clones itself with the event's first
  parameter on symbol 1 and cleans up on symbol 2.
\<close>

definition ex_event :: "nat \<Rightarrow> tesla_lifetime_event" where
  "ex_event n = \<lparr>tle_repr = ''ev'', tle_length = 2, tle_hash = of_nat n\<rparr>"

definition ex_lifetime :: tesla_lifetime where
  "ex_lifetime = \<lparr>tl_begin = ex_event 1, tl_end = ex_event 2, tl_repr = ''ev''\<rparr>"

definition ex_tr :: "u32 \<Rightarrow> u32 \<Rightarrow> u32 \<Rightarrow> u32 \<Rightarrow> u32 \<Rightarrow> tesla_transition" where
  "ex_tr f fm t tm fl = \<lparr>t_from = f, t_from_mask = fm, t_to = t, t_to_mask = tm, t_flags = fl\<rparr>"

definition ex_automaton :: tesla_automaton where
  "ex_automaton = \<lparr>ta_name = ''example'', ta_alphabet_size = 3, ta_cleanup_symbol = 2,
     ta_transitions = [[ex_tr 0 0 1 0 2], [ex_tr 1 0 2 1 0],
       [ex_tr 1 0 3 0 4, ex_tr 2 1 3 1 4]],
     ta_description = ''example'', ta_symbol_names = [''init'', ''fork'', ''cleanup''],
     ta_lifetime = ex_lifetime\<rparr>"

definition ex_automata :: automata where
  "ex_automata = (\<lambda>a. if a = 4096 \<or> a = 8192 then Some ex_automaton else None)"

definition ex_key :: "uintptr \<Rightarrow> tesla_key" where
  "ex_key x = \<lparr>tk_keys = [x, 0, 0, 0], tk_mask = 1, tk_freemask = 0\<rparr>"

definition ex_inst :: tesla_instance where
  "ex_inst = \<lparr>ti_key = zero_key, ti_state = 1\<rparr>"

text \<open>One instance in state 1 and one unused slot.\<close>

definition ex_class :: tesla_class where
  "ex_class = \<lparr>tc_automaton = 4096, tc_context = TESLA_CONTEXT_THREAD, tc_limit = 2, tc_free = 1,
     tc_instances = Some [ex_inst, zero_instance], tc_lock = Raw_mutex\<rparr>"

text \<open>A notifier with no handlers at all.\<close>

definition ex_notifier :: notifier where
  "ex_notifier = \<lparr>event_handlers = \<lparr>tem_mask = 0, tem_handlers = []\<rparr>, have_transitions = True\<rparr>"

definition ex_runtime :: runtime where
  "ex_runtime = \<lparr>rt_automata = ex_automata, rt_env = None, rt_notify = ex_notifier, rt_kernel = False\<rparr>"

definition ex_store :: "tesla_context \<Rightarrow> tesla_store" where
  "ex_store ctx = (case tesla_store_init zero_store ctx TESLA_MAX_CLASSES TESLA_MAX_INSTANCES [] of
     Inr (_, st, _) \<Rightarrow> st | Inl _ \<Rightarrow> zero_store)"

lemmas ex_defs = ex_event_def ex_lifetime_def ex_tr_def ex_automaton_def ex_automata_def ex_key_def
  ex_inst_def ex_class_def ex_notifier_def ex_runtime_def

lemma ex_store_fresh: "valid_context ctx \<Longrightarrow> fresh_store ctx (ex_store ctx)"
  using store_init_fresh [of ctx zero_store] by (auto simp: ex_store_def valid_context_def)

lemma ex_class_inv: "class_inv ex_class"
  by (simp add: class_inv_def ex_defs insts_def wf_key_def zero_key_def zero_instance_def
      TESLA_KEY_SIZE_def tesla_instance_active_def)

lemma ex_dispatch [simp]: "dispatch ex_notifier ev = Inr ([Raised ev], ())"
  by (simp add: dispatch_def ex_notifier_def)

text \<open>The class of the example automaton in a fresh store, and the process after one sunrise.\<close>

lemma ex_store_facts:
  assumes "valid_context ctx"
  shows "store_inv (ex_store ctx)" and "ts_lifetime_count (ex_store ctx) = 0" and "unlocked (ex_store ctx)"
    and "a \<noteq> 0 \<Longrightarrow> class_table.scan (table (ex_store ctx)) a \<noteq> None"
proof -
  note fresh = ex_store_fresh [OF assms]
  then show inv: "store_inv (ex_store ctx)" and "ts_lifetime_count (ex_store ctx) = 0"
    by (simp_all add: fresh_store_def)
  show "unlocked (ex_store ctx)"
    using fresh by (auto simp: fresh_store_def unlocked_def fresh_class_def)
  have "table (ex_store ctx) ! j = None" if "j < unat TESLA_MAX_CLASSES" for j
    using fresh that store_invD(4) [OF inv] by (simp add: fresh_store_def fresh_class_def slot_key_def)
  moreover have "0 < unat TESLA_MAX_CLASSES" by (simp add: TESLA_MAX_CLASSES_def)
  ultimately show "class_table.scan (table (ex_store ctx)) a \<noteq> None"
    unfolding class_table.scan_None_iff by blast
qed

lemma ex_get:
  assumes "valid_context ctx" and "a \<noteq> 0"
  obtains st k where "tesla_class_get (ex_store ctx) a = Inr (Inr (st, k))" and "store_inv st"
    and "k < length (classes st)" and "tc_automaton (classes st ! k) = a"
    and "ts_lifetime_count st = 0"
proof -
  note ex = ex_store_facts [OF assms(1)]
  obtain st k where get: "tesla_class_get (ex_store ctx) a = Inr (Inr (st, k))"
    using class_get_unlocked [OF ex(1,3) assms(2) ex(4) [OF assms(2)]] by blast
  have "ts_lifetime_count st = 0"
    using class_get_ok(2) [OF ex(1) assms(2) get] ex(2) by auto
  with store_inv_class_get [OF ex(1) assms(2) get] get show thesis by (intro that) auto
qed

text \<open>The same store with a full table of lifetimes.\<close>

definition ex_full :: "tesla_context \<Rightarrow> tesla_store" where
  "ex_full ctx = (ex_store ctx)\<lparr>ts_lifetime_count := TESLA_MAX_CLASSES\<rparr>"

lemma ex_full_facts:
  assumes "valid_context ctx"
  shows "store_inv (ex_full ctx)" and "ts_lifetime_count (ex_full ctx) = TESLA_MAX_CLASSES"
  using ex_store_facts(1) [OF assms] by (simp_all add: ex_full_def store_inv_def)

lemma ex_thread: "valid_context TESLA_CONTEXT_THREAD"
  by (simp add: valid_context_def)

lemma ex_global: "valid_context TESLA_CONTEXT_GLOBAL"
  by (simp add: valid_context_def)

lemma ex_sunrise:
  obtains st where "tesla_sunrise ex_runtime initial_env 0 TESLA_CONTEXT_GLOBAL ex_lifetime [] =
      Inr ([Raised (Sunrise TESLA_CONTEXT_GLOBAL ex_lifetime)], (initial_env\<lparr>se_global := st\<rparr>, []))"
    and "store_inv st" and "known_lifetime st ex_lifetime"
proof -
  let ?init = "tesla_store_init zero_store TESLA_CONTEXT_GLOBAL TESLA_MAX_CLASSES TESLA_MAX_INSTANCES []"
  have init: "?init = Inr (TESLA_SUCCESS, ex_store TESLA_CONTEXT_GLOBAL, [])"
    using store_init_fresh [of TESLA_CONTEXT_GLOBAL zero_store] by (auto simp: ex_store_def)
  note ex = ex_store_facts [OF ex_global]
  have get: "get_store initial_env 0 TESLA_CONTEXT_GLOBAL [] =
      Inr (Global_store, ex_store TESLA_CONTEXT_GLOBAL,
        initial_env\<lparr>se_global := ex_store TESLA_CONTEXT_GLOBAL\<rparr>, [])"
    using init store_invD(2) [OF ex(1)]
    by (simp add: get_store_def tesla_store_get_def ensure_init_def store_at_def set_store_def
        initial_env_def zero_store_def)
  have "ts_lifetime_count (ex_store TESLA_CONTEXT_GLOBAL) < TESLA_MAX_CLASSES"
    by (simp add: ex(2) TESLA_MAX_CLASSES_def)
  from sunrise_begins [OF ex(1) this, of ex_lifetime] obtain st where
    "sunrise_store (ex_store TESLA_CONTEXT_GLOBAL) ex_lifetime = Inr st" "store_inv st"
    "known_lifetime st ex_lifetime" by blast
  with get show thesis
    by (intro that [of st]) (simp_all add: tesla_sunrise_def ev_sunrise_def ex_runtime_def set_store_def
        initial_env_def retR_def)
qed

text \<open>The second allocation of a process, the instances of the first class of the global store, fails: the
  store is set up and used without them.\<close>

lemma failed_allocation_breaks:
  "\<exists>e l st. reachable [True, False] e l \<and> store_at e Global_store = Some st \<and> ts_length st \<noteq> 0 \<and> \<not> store_inv st"
proof -
  let ?ctx = "TESLA_CONTEXT_GLOBAL" and ?n = "TESLA_MAX_INSTANCES"
  have pos: "?n > 0" by (simp add: TESLA_MAX_INSTANCES_def)
  from failed_instances_ignored [OF pos, of ?ctx "[]"] obtain c where
    c: "tesla_class_init zero_class ?ctx ?n [False] = Inr (TESLA_SUCCESS, c, [])" "\<not> class_inv c" by blast
  from init_classes_lasts [OF pos, of ?ctx "[]" "unat TESLA_MAX_CLASSES - 1"] obtain cs where
    cs: "init_classes (replicate (unat TESLA_MAX_CLASSES - 1) zero_class) ?ctx ?n [] = Inr (cs, [])" by auto
  have rep: "replicate (unat TESLA_MAX_CLASSES) zero_class = zero_class # replicate (unat TESLA_MAX_CLASSES - 1) zero_class"
    by (simp add: TESLA_MAX_CLASSES_def flip: replicate_Suc)
  let ?st = "zero_store\<lparr>ts_length := TESLA_MAX_CLASSES, ts_classes := Some (c # cs),
      ts_lifetimes := Some (replicate (unat TESLA_MAX_CLASSES) zero_lifetime_state), ts_lifetime_count := 0\<rparr>"
  have "init_classes (replicate (unat TESLA_MAX_CLASSES) zero_class) ?ctx ?n [False] = Inr (c # cs, [])"
    unfolding rep using c(1) cs by simp
  then have "tesla_store_init zero_store ?ctx TESLA_MAX_CLASSES ?n [True, False] = Inr (TESLA_SUCCESS, ?st, [])"
    using pos by (simp add: tesla_store_init_def tesla_malloc_def TESLA_MAX_CLASSES_def)
  then have get: "get_store initial_env 0 ?ctx [True, False] = Inr (Global_store, ?st, initial_env\<lparr>se_global := ?st\<rparr>, [])"
    by (simp add: get_store_def tesla_store_get_def ensure_init_def store_at_def set_store_def initial_env_def zero_store_def)
  obtain st' where st': "sunrise_store ?st ex_lifetime = Inr st'" "classes st' = c # cs" "ts_length st' = TESLA_MAX_CLASSES"
    by (simp add: sunrise_store_def set_lifetime_def classes_def lifetimes_def TESLA_MAX_CLASSES_def)
  let ?l = "[Raised (Sunrise ?ctx ex_lifetime)]" and ?e = "initial_env\<lparr>se_global := st'\<rparr>"
  have "run_call ex_runtime initial_env (Call_sunrise 0 ?ctx ex_lifetime) [True, False] = Inr (?l, (?e, []))"
    using get st'(1) by (simp add: run_call_def tesla_sunrise_def ev_sunrise_def ex_runtime_def set_store_def initial_env_def retR_def)
  then have "reachable ([] @ [True, False]) ?e ([] @ ?l)"
    by (rule reachable.step [OF reachable.init env_step.call])
  moreover have "\<not> store_inv st'" using c(2) st'(2) by (simp add: store_inv_def)
  moreover have "store_at ?e Global_store = Some st'" "ts_length st' \<noteq> 0"
    using st'(3) by (simp_all add: store_at_def TESLA_MAX_CLASSES_def)
  ultimately show ?thesis by auto
qed

lemma ex_unknown: "ts_lifetime_count st = 0 \<Longrightarrow> \<not> known_lifetime st l"
  by (simp add: known_lifetime_def)

text \<open>Three lookups in a row in the store of a thread.\<close>

definition threaded :: "tesla_store \<Rightarrow> bool" where
  "threaded st \<longleftrightarrow> (\<forall>c \<in> set (classes st). tc_context c = TESLA_CONTEXT_THREAD)"

lemma threaded_get:
  assumes "store_inv st" and "threaded st" and "d \<noteq> 0" and "class_table.scan (table st) d = Some k"
  obtains st' where "tesla_class_get st d = Inr (Inr (st', k))" and "store_inv st'" and "threaded st'"
    and "table st' = (table st)[k := Some d]"
proof -
  have "unlocked st" using assms(2) by (auto simp: threaded_def unlocked_def)
  with class_get_unlocked [OF assms(1) _ assms(3)] assms(4) obtain st' k' where
    get: "tesla_class_get st d = Inr (Inr (st', k'))" by auto
  with class_get_ok(1) [OF assms(1,3) get] assms(4) have k: "k' = k" by simp
  have "threaded st'"
    using class_get_ok(2) [OF assms(1,3) get] assms(2) scan_lt [OF assms(1,4)] k
    by (auto simp: threaded_def dest!: set_update_subset_insert [THEN subsetD])
  with get k store_inv_class_get [OF assms(1,3) get] show thesis by (intro that) auto
qed

lemma ex_three_gets:
  obtains st1 k st2 m st3 where
    "tesla_class_get (ex_store TESLA_CONTEXT_THREAD) 4096 = Inr (Inr (st1, k))"
    and "tesla_class_get st1 8192 = Inr (Inr (st2, m))"
    and "tesla_class_get st2 4096 = Inr (Inr (st3, k))"
proof -
  note ex = ex_store_facts [OF ex_thread]
  let ?st = "ex_store TESLA_CONTEXT_THREAD"
  have th: "threaded ?st"
    using ex_store_fresh [OF ex_thread] by (auto simp: fresh_store_def threaded_def fresh_class_def)
  have nz: "(4096 :: uintptr) \<noteq> 0" "(8192 :: uintptr) \<noteq> 0" by simp_all
  obtain k where k: "class_table.scan (table ?st) 4096 = Some k" using ex(4) [OF nz(1)] by blast
  obtain st1 where g1: "tesla_class_get ?st 4096 = Inr (Inr (st1, k))" "store_inv st1" "threaded st1"
    "table st1 = (table ?st)[k := Some 4096]" by (rule threaded_get [OF ex(1) th nz(1) k])
  have none: "table ?st ! j = None" if "j < unat TESLA_MAX_CLASSES" for j
    using ex_store_fresh [OF ex_thread] that store_invD(4) [OF ex(1)]
    by (simp add: fresh_store_def fresh_class_def slot_key_def)
  define j where "j = (if k = 0 then 1 else 0 :: nat)"
  have j: "j < unat TESLA_MAX_CLASSES" "j \<noteq> k" by (simp_all add: j_def TESLA_MAX_CLASSES_def)
  then have "table st1 ! j = None" using none by (simp only: g1(4) nth_list_update_neq)
  with j(1) have "class_table.scan (table st1) 8192 \<noteq> None"
    unfolding class_table.scan_None_iff by blast
  then obtain m where m: "class_table.scan (table st1) 8192 = Some m" by blast
  obtain st2 where g2: "tesla_class_get st1 8192 = Inr (Inr (st2, m))" "store_inv st2" "threaded st2"
    "table st2 = (table st1)[m := Some 8192]" by (rule threaded_get [OF g1(2,3) nz(2) m])
  have "class_table.scan (table st2) 4096 = Some k"
    unfolding g2(4) g1(4) using class_table.scan_stable [OF store_invD(7) [OF ex(1)] k] m by (simp only: g1(4))
  with g1(1) g2(1) show thesis
    by (metis that threaded_get [OF g2(2,3) nz(1)])
qed

end
