(* ===== verification/Tesla_Monitor.thy ===== *)
theory Tesla_Monitor
  imports Tesla_Description Tesla_Compiler Tesla_Examples
begin

text \<open>
  The compiler, the description it puts into the program and libtesla together: an automaton
  without variables is parsed and made deterministic, its description is what the instrumenter
  builds, and libtesla is given the symbols of the program's events.  Between the first event and
  the end of its lifetime, the class of the automaton has one live instance, whose state is the
  state of the deterministic automaton, and libtesla reports a failure exactly when the automaton
  cannot read an event.
\<close>

subsection \<open>Symbols\<close>

text \<open>The description has the transitions of the automaton, class by class.\<close>

lemma build_classes_transitions:
  "build_classes a cs = Inr (tss, ds) \<Longrightarrow> tss = map (map (\<lambda>t. BuildTransition (au_graph a) (au_edge a t))) cs"
  by (induction a cs arbitrary: tss ds rule: build_classes.induct)
    (auto simp: E_eq_Inr BuildTransitions_def assertE_def split: if_splits)

lemma content_transitions:
  assumes "automaton_content a lt = Inr autom"
  shows "ta_transitions autom = map (map (\<lambda>t. BuildTransition (au_graph a) (au_edge a t))) (au_classes a)"
    and "ta_lifetime autom = lt"
  using assms build_classes_transitions by (auto simp: automaton_content_def E_eq_Inr)

text \<open>The symbol the instrumented program gives an event.\<close>

definition symbol_of :: "automaton \<Rightarrow> trans_label \<Rightarrow> nat option" where
  "symbol_of a l = find (\<lambda>i. EquivalentTo (e_label (au_edge a (hd (au_classes a ! i)))) l) [0..<length (au_classes a)]"

text \<open>A deterministic automaton without variables whose states and symbols fit their 32 bits.\<close>

definition monitorable :: "automaton \<Rightarrow> bool" where
  "monitorable a \<longleftrightarrow> wf_graph (au_graph a) \<and> deterministic (au_graph a) \<and> refs_free (au_graph a)
     \<and> grouped (g_edges (au_graph a)) (au_classes a)
     \<and> mset (concat (au_classes a)) = mset [0..<length (g_edges (au_graph a))]
     \<and> length (g_states (au_graph a)) < 2 ^ 32 \<and> length (au_classes a) < 2 ^ 32"

lemma ConstructDFA_monitorable:
  assumes "ConstructDFA n = Inr a" and "refs_free (au_graph a)"
    and "length (g_states (au_graph a)) < 2 ^ 32" and "length (au_classes a) < 2 ^ 32"
  shows "monitorable a"
proof -
  from assms(1) obtain d where d: "dfa_graph (au_graph n) = Inr d" "au_graph a = d_graph d"
    and cs: "GroupClasses (g_edges (au_graph a)) = Inr (au_classes a)"
    by (auto simp: ConstructDFA_def new_automaton_def E_eq_Inr)
  obtain K0 where "dinv (au_graph n) K0 {} d" using dfa_graph_inv [OF d(1)] by metis
  then have "wf_graph (au_graph a)" by (simp add: dinv_def d(2))
  with classes_cover [OF cs] dfa_graph_deterministic [OF d(1)] assms(2-4) d(2) show ?thesis
    by (simp add: monitorable_def)
qed

lemma symbol_class:
  assumes "monitorable a" and "symbol_of a l = Some x"
  shows "x < length (au_classes a)" and "au_classes a ! x \<noteq> []"
    and "set (au_classes a ! x) = {t. t < length (g_edges (au_graph a)) \<and> EquivalentTo (e_label (au_edge a t)) l}"
proof -
  let ?es = "g_edges (au_graph a)" and ?cs = "au_classes a"
  from assms(1) have g: "grouped ?es ?cs" and m: "mset (concat ?cs) = mset [0..<length ?es]"
    by (simp_all add: monitorable_def)
  from assms(2) show x: "x < length ?cs" by (auto simp: symbol_of_def find_Some_iff)
  from assms(2) have h: "EquivalentTo (e_label (au_edge a (hd (?cs ! x)))) l"
    by (auto simp: symbol_of_def find_Some_iff)
  from g x have u: "uniform ?es (?cs ! x)" by (simp add: grouped_def)
  then show ne: "?cs ! x \<noteq> []" by (simp add: uniform_def)
  from arg_cong [OF m, of set_mset] have all: "(\<Union>c \<in> set ?cs. set c) = {..<length ?es}" by auto
  show "set (?cs ! x) = {t. t < length ?es \<and> EquivalentTo (e_label (au_edge a t)) l}"
  proof (intro set_eqI iffI)
    fix t
    assume t: "t \<in> set (?cs ! x)"
    with u have "sym_at ?es t = sym_at ?es (hd (?cs ! x))" unfolding uniform_def by blast
    with h have "EquivalentTo (e_label (au_edge a t)) l" by (simp add: EquivalentTo_iff au_edge_def)
    moreover from t x all have "t < length ?es" using nth_mem by fastforce
    ultimately show "t \<in> {t. t < length ?es \<and> EquivalentTo (e_label (au_edge a t)) l}" by simp
  next
    fix t
    assume t: "t \<in> {t. t < length ?es \<and> EquivalentTo (e_label (au_edge a t)) l}"
    then have "t \<in> (\<Union>c \<in> set ?cs. set c)" unfolding all by simp
    then obtain y where y: "y < length ?cs" "t \<in> set (?cs ! y)" by (metis UN_E in_set_conv_nth)
    have "EquivalentTo (e_label (?es ! t)) (e_label (?es ! hd (?cs ! x)))"
      using t h by (simp add: EquivalentTo_iff au_edge_def)
    with grouped_sym [OF g y(1) x y(2)] ne have "y = x" by simp
    with y show "t \<in> set (?cs ! x)" by simp
  qed
qed

subsection \<open>One instance and one event\<close>

lemma of_nat_u32_eq: "m < 2 ^ 32 \<Longrightarrow> n < 2 ^ 32 \<Longrightarrow> (of_nat m :: u32) = of_nat n \<longleftrightarrow> m = n"
  using unat_u32 by metis

lemma refs_free_masks: "refs_free g \<Longrightarrow> s < length (g_states g) \<Longrightarrow> state_mask (g_states g ! s) = 0"
  by (simp add: refs_free_def state_mask_def)

text \<open>The transition of the deterministic automaton for an event.\<close>

definition move :: "automaton \<Rightarrow> nat \<Rightarrow> trans_label \<Rightarrow> nat option" where
  "move a s l = find (\<lambda>t. EquivalentTo (e_label (au_edge a t)) l) (outs (au_graph a) s)"

lemma dfa_run_move:
  "dfa_run (au_graph a) s (l # w) = (case move a s l of None \<Rightarrow> None | Some t \<Rightarrow> dfa_run (au_graph a) (e_to (au_edge a t)) w)"
  by (simp add: move_def au_edge_def split: option.split)

lemma monitorable_edge:
  assumes "monitorable a" and "t < length (g_edges (au_graph a))"
  shows "e_from (au_edge a t) < length (g_states (au_graph a))" and "e_to (au_edge a t) < length (g_states (au_graph a))"
    and "0 < e_to (au_edge a t)" and "t_from_mask (BuildTransition (au_graph a) (au_edge a t)) = 0"
    and "t_to_mask (BuildTransition (au_graph a) (au_edge a t)) = 0"
    and "s < 2 ^ 32 \<Longrightarrow> t_from (BuildTransition (au_graph a) (au_edge a t)) = of_nat s \<longleftrightarrow> e_from (au_edge a t) = s"
proof -
  from assms have w: "wf_edge (length (g_states (au_graph a))) (au_edge a t)" and r: "refs_free (au_graph a)"
    and n: "length (g_states (au_graph a)) < 2 ^ 32"
    by (auto simp: monitorable_def wf_graph_def au_edge_def)
  then show *: "e_from (au_edge a t) < length (g_states (au_graph a))" "e_to (au_edge a t) < length (g_states (au_graph a))"
    "0 < e_to (au_edge a t)" by (simp_all add: wf_edge_def)
  show "t_from_mask (BuildTransition (au_graph a) (au_edge a t)) = 0" "t_to_mask (BuildTransition (au_graph a) (au_edge a t)) = 0"
    using * r by (simp_all add: BuildTransition_def refs_free_masks)
  show "s < 2 ^ 32 \<Longrightarrow> t_from (BuildTransition (au_graph a) (au_edge a t)) = of_nat s \<longleftrightarrow> e_from (au_edge a t) = s"
    using * n by (simp add: BuildTransition_def of_nat_u32_eq)
qed

lemma find_in: "find P xs = Some x \<Longrightarrow> x \<in> set xs \<and> P x"
  by (auto simp: find_Some_iff)

lemma monitorable_to:
  assumes "monitorable a" and "t < length (g_edges (au_graph a))"
  shows "t_to (BuildTransition (au_graph a) (au_edge a t)) \<noteq> 0"
proof -
  have "e_to (au_edge a t) < 2 ^ 32" using monitorable_edge(2) [OF assms] assms(1) by (simp add: monitorable_def)
  then have "(of_nat (e_to (au_edge a t)) :: u32) \<noteq> of_nat 0"
    using monitorable_edge(3) [OF assms] by (subst of_nat_u32_eq) simp_all
  then show ?thesis by (simp add: BuildTransition_def)
qed

text \<open>The members of a class that leave a state: at most one, the automaton's move.\<close>

lemma move_class:
  assumes "monitorable a" and "symbol_of a l = Some x" and "s < length (g_states (au_graph a))"
  shows "move a s l = find (\<lambda>t. e_from (au_edge a t) = s) (au_classes a ! x)"
proof -
  let ?D = "au_graph a"
  have outs: "set (outs ?D s) = {t. t < length (g_edges ?D) \<and> e_from (au_edge a t) = s}"
    using assms(1,3) by (auto simp: monitorable_def wf_graph_def owned_def au_edge_def outs_def)
  note cls = symbol_class(3) [OF assms(1,2)]
  have det: "t = u" if "t \<in> set (outs ?D s)" "u \<in> set (outs ?D s)" "EquivalentTo (e_label (au_edge a t)) l"
    "EquivalentTo (e_label (au_edge a u)) l" for t u
  proof -
    have "EquivalentTo (e_label (g_edges ?D ! t)) (e_label (g_edges ?D ! u))"
      using that(3,4) by (simp add: EquivalentTo_iff au_edge_def)
    then show ?thesis using assms(1,3) that(1,2) by (auto simp: monitorable_def deterministic_def)
  qed
  show ?thesis
  proof (cases "move a s l")
    case None
    then have "\<not> (\<exists>t \<in> set (au_classes a ! x). e_from (au_edge a t) = s)"
      using outs cls by (auto simp: move_def find_None_iff)
    then have "find (\<lambda>t. e_from (au_edge a t) = s) (au_classes a ! x) = None" unfolding find_None_iff by blast
    then show ?thesis unfolding None by (rule sym)
  next
    case (Some t)
    then have t: "t \<in> set (outs ?D s)" "EquivalentTo (e_label (au_edge a t)) l"
      using find_in [OF Some [unfolded move_def]] by blast+
    then have "t \<in> set (au_classes a ! x)" "e_from (au_edge a t) = s" using outs cls by auto
    then obtain u where u: "find (\<lambda>t. e_from (au_edge a t) = s) (au_classes a ! x) = Some u"
      by (cases "find (\<lambda>t. e_from (au_edge a t) = s) (au_classes a ! x)") (auto simp: find_None_iff)
    then have "u \<in> set (au_classes a ! x)" "e_from (au_edge a u) = s"
      using find_in [OF u] by blast+
    then have "u \<in> set (outs ?D s)" "EquivalentTo (e_label (au_edge a u)) l" using outs cls by auto
    from det [OF this(1) t(1) this(2) t(2)] u Some show ?thesis by simp
  qed
qed

lemma find_map: "find P (map f xs) = map_option f (find (P \<circ> f) xs)"
  by (induction xs) auto

lemma action_follows:
  assumes m: "monitorable a" and x: "symbol_of a l = Some x" and s: "s < length (g_states (au_graph a))" "0 < s"
    and inst: "ti_state inst = of_nat s" "tk_mask (ti_key inst) = 0"
    and ts: "ts = map (\<lambda>t. BuildTransition (au_graph a) (au_edge a t)) (au_classes a ! x)"
  shows "tesla_action inst zero_key ts = (case move a s l of
       Some t \<Rightarrow> Inr (UPDATE, Some (BuildTransition (au_graph a) (au_edge a t)))
     | None \<Rightarrow> Inr (FAIL, None))"
    and "tesla_instance_active inst"
proof -
  let ?B = "\<lambda>t. BuildTransition (au_graph a) (au_edge a t)"
  note cls = symbol_class [OF m x]
  have s32: "s < 2 ^ 32" using m s by (simp add: monitorable_def)
  with s(2) have "of_nat s \<noteq> (0 :: u32)" using of_nat_u32_eq [of s 0] by simp
  with inst show act: "tesla_instance_active inst" by (simp add: tesla_instance_active_def)
  have e: "t_from_mask (?B t) = 0" "t_to_mask (?B t) = 0" "t_from (?B t) = of_nat s \<longleftrightarrow> e_from (au_edge a t) = s"
    if "t \<in> set (au_classes a ! x)" for t
    using that cls(3) monitorable_edge(4,5) [OF m, of t] monitorable_edge(6) [OF m _ s32, of t] by auto
  have agree: "masks_agree ts inst" using e inst by (auto simp: masks_agree_def ts)
  have "takes zero_key inst (?B t) \<longleftrightarrow> e_from (au_edge a t) = s" if "t \<in> set (au_classes a ! x)" for t
    using e [OF that] inst by (auto simp: takes_def concerns_def keys_compatible_def zero_key_def)
  then have f: "find (takes zero_key inst) ts = map_option ?B (move a s l)"
    unfolding ts find_map move_class [OF m x s(1)] by (intro arg_cong [of _ _ "map_option ?B"] find_cong) auto
  have k: "tesla_key_matches zero_key (ti_key inst)"
    by (simp add: key_matches_bits zero_key_def)
  show "tesla_action inst zero_key ts = (case move a s l of
       Some t \<Rightarrow> Inr (UPDATE, Some (?B t)) | None \<Rightarrow> Inr (FAIL, None))"
  proof (cases "move a s l")
    case None
    then have "\<forall>t \<in> set (au_classes a ! x). e_from (au_edge a t) \<noteq> s"
      unfolding move_class [OF m x s(1)] find_None_iff by blast
    moreover obtain t where "t \<in> set (au_classes a ! x)" using cls(2) by (cases "au_classes a ! x") auto
    ultimately have "\<exists>t \<in> set ts. t_from t \<noteq> ti_state inst" using e inst by (auto simp: ts)
    with None show ?thesis using action_spec [OF agree, of zero_key] act k by (simp add: f)
  next
    case (Some t)
    then have "t \<in> set (au_classes a ! x)"
      unfolding move_class [OF m x s(1)] by (auto simp: find_Some_iff)
    with e have "trans_kind (?B t) = UPDATE" by (simp add: trans_kind_def)
    with Some show ?thesis using action_spec [OF agree, of zero_key] act by (simp add: f)
  qed
qed

subsection \<open>One event\<close>

text \<open>The class has one live instance, which has no parameters and is in the state \<open>s\<close>.\<close>

definition at_state :: "tesla_class \<Rightarrow> nat \<Rightarrow> bool" where
  "at_state c s \<longleftrightarrow> class_inv c \<and> tc_limit c < 2 ^ 31
     \<and> (\<exists>k. tk_mask k = 0 \<and> live c = {#\<lparr>ti_key = k, ti_state = of_nat s\<rparr>#})"

text \<open>No instance is live and every slot is unused, as before the first event and after a cleanup.\<close>

definition fresh :: "tesla_class \<Rightarrow> bool" where
  "fresh c \<longleftrightarrow> class_inv c \<and> tc_limit c < 2 ^ 31 \<and> 0 < tc_limit c \<and> live c = {#} \<and> tc_free c = tc_limit c"

definition failed :: "log_item list \<Rightarrow> bool" where
  "failed l \<longleftrightarrow> bad_reports l \<noteq> [] \<or> no_instance_raised l"

lemma failed_append [simp]: "failed (l @ l') \<longleftrightarrow> failed l \<or> failed l'"
  by (auto simp: failed_def no_instance_raised_def)

lemma cleanup_flag: "has_flag (BuildTransition g e) TESLA_TRANS_CLEANUP \<longleftrightarrow> e_cleanup e"
  by (simp add: has_flag_def BuildTransition_def TESLA_TRANS_CLEANUP_def TESLA_TRANS_INIT_def)

lemma single_live:
  assumes "live c = {#inst#}"
  shows "filter tesla_instance_active (insts c) = [inst]" and "inst \<in> set (insts c)"
    and "\<And>x. x \<in> set (insts c) \<Longrightarrow> x \<noteq> inst \<Longrightarrow> \<not> tesla_instance_active x"
proof -
  show f: "filter tesla_instance_active (insts c) = [inst]"
    using assms unfolding live_def mset_single_iff .
  then have "set (filter tesla_instance_active (insts c)) = {inst}" by simp
  then show "inst \<in> set (insts c)" "\<And>x. x \<in> set (insts c) \<Longrightarrow> x \<noteq> inst \<Longrightarrow> \<not> tesla_instance_active x" by auto
qed

text \<open>What the slots of such a class do on an event.\<close>

lemma class_actions:
  assumes m: "monitorable a" and x: "symbol_of a l = Some x" and s: "s < length (g_states (au_graph a))" "0 < s"
    and c: "at_state c s" and ts: "ts = map (\<lambda>t. BuildTransition (au_graph a) (au_edge a t)) (au_classes a ! x)"
  obtains k where "tk_mask k = 0" and "live c = {#\<lparr>ti_key = k, ti_state = of_nat s\<rparr>#}"
    and "tesla_action \<lparr>ti_key = k, ti_state = of_nat s\<rparr> zero_key ts = (case move a s l of
       Some t \<Rightarrow> Inr (UPDATE, Some (BuildTransition (au_graph a) (au_edge a t))) | None \<Rightarrow> Inr (FAIL, None))"
    and "\<forall>y \<in> set (insts c). y \<noteq> \<lparr>ti_key = k, ti_state = of_nat s\<rparr> \<longrightarrow> tesla_action y zero_key ts = Inr (IGNORE, None)"
    and "clones_needed zero_key ts c = 0"
proof -
  from c obtain k where k: "tk_mask k = 0" "live c = {#\<lparr>ti_key = k, ti_state = of_nat s\<rparr>#}"
    by (auto simp: at_state_def)
  let ?i = "\<lparr>ti_key = k, ti_state = of_nat s\<rparr>"
  have act: "tesla_action ?i zero_key ts = (case move a s l of
       Some t \<Rightarrow> Inr (UPDATE, Some (BuildTransition (au_graph a) (au_edge a t))) | None \<Rightarrow> Inr (FAIL, None))"
    using action_follows [OF m x s, of ?i] k ts by simp
  have other: "\<forall>y \<in> set (insts c). y \<noteq> ?i \<longrightarrow> tesla_action y zero_key ts = Inr (IGNORE, None)"
    using single_live(3) [OF k(2)] by (simp add: action_inactive)
  have "fork_of zero_key ts y = None" if "y \<in> set (insts c)" for y
    using act other that by (cases "y = ?i") (auto simp: fork_of_def split: option.splits)
  then have "clones_needed zero_key ts c = 0" by (simp add: clones_needed_def countp_def)
  with that k act other show thesis by blast
qed

lemma step_follows:
  assumes m: "monitorable a" and d: "automaton_content a lt = Inr autom" and x: "symbol_of a l = Some x"
    and s: "s < length (g_states (au_graph a))" "0 < s" and c: "at_state c s"
    and mc: "unat (tc_free c) \<le> mc" and run: "step_class rt ad autom (of_nat x) zero_key mc c = Inr (lg, c')"
  shows "case move a s l of
       None \<Rightarrow> failed lg
     | Some t \<Rightarrow> \<not> failed lg \<and> (if e_cleanup (au_edge a t) then fresh c' else at_state c' (e_to (au_edge a t)))"
    and "same_class c c'"
proof -
  let ?B = "\<lambda>t. BuildTransition (au_graph a) (au_edge a t)"
  let ?ts = "map ?B (au_classes a ! x)"
  from m x s c refl obtain k where k: "tk_mask k = 0" "live c = {#\<lparr>ti_key = k, ti_state = of_nat s\<rparr>#}"
    and act: "tesla_action \<lparr>ti_key = k, ti_state = of_nat s\<rparr> zero_key ?ts = (case move a s l of
       Some t \<Rightarrow> Inr (UPDATE, Some (?B t)) | None \<Rightarrow> Inr (FAIL, None))"
    and others: "\<forall>y \<in> set (insts c). y \<noteq> \<lparr>ti_key = k, ti_state = of_nat s\<rparr> \<longrightarrow> tesla_action y zero_key ?ts = Inr (IGNORE, None)"
    and room: "clones_needed zero_key ?ts c = 0"
    by (rule class_actions)
  let ?i = "\<lparr>ti_key = k, ti_state = of_nat s\<rparr>"
  from c have inv: "class_inv c" "tc_limit c < 2 ^ 31" by (auto simp: at_state_def)
  note one = single_live [OF k(2)] and cls = symbol_class [OF m x] and other = others [rule_format]
  have x32: "unat (of_nat x :: u32) = x" using cls(1) m by (intro unat_u32) (simp add: monitorable_def)
  have "step_ready c autom (of_nat x) zero_key ?ts"
    using inv room x32 cls content_transitions(1) [OF d] monitorable_to [OF m]
    by (auto simp: step_ready_def)
  note out = step_class_outcome [OF this mc run]
  show "same_class c c'" using out(3) by (simp add: class_ok_def)
  have "unat (tc_limit c) \<noteq> 0" using length_pos_if_in_set [OF one(2)] class_invD(2) [OF inv(1)] by simp
  then have some_slot: "0 < tc_limit c" by (simp add: word_gt_0 unat_eq_zero)
  show "case move a s l of
       None \<Rightarrow> failed lg
     | Some t \<Rightarrow> \<not> failed lg \<and> (if e_cleanup (au_edge a t) then fresh c' else at_state c' (e_to (au_edge a t)))"
  proof (cases "move a s l")
    case None
    obtain j where j: "j < length (insts c)" "insts c ! j = ?i" using one(2) by (auto simp: in_set_conv_nth)
    have "act_of zero_key ?ts (insts c ! j) = Inr FAIL" using act None by (simp add: j(2))
    with j(1) have "bad_reports lg \<noteq> []" unfolding out(4) by (auto simp: filter_empty_conv)
    then show ?thesis by (simp add: None failed_def)
  next
    case (Some t)
    have "act_of zero_key ?ts y \<noteq> Inr FAIL" if "y \<in> set (insts c)" for y
      using act Some other [OF that] by (cases "y = ?i") auto
    then have "bad_reports lg = []" unfolding out(4) by (auto simp: filter_empty_conv)
    moreover have "\<not> no_instance_raised lg" unfolding out(5) using one(2) act Some by force
    ultimately have "\<not> failed lg" by (simp add: failed_def)
    moreover have "cleans_up zero_key ?ts y \<longleftrightarrow> y = ?i \<and> e_cleanup (au_edge a t)" if "y \<in> set (insts c)" for y
      using act Some other [OF that] by (cases "y = ?i") (auto simp: cleans_up_def is_cleanup_def cleanup_flag)
    then have "(\<exists>y \<in> set (insts c). cleans_up zero_key ?ts y) \<longleftrightarrow> e_cleanup (au_edge a t)" using one(2) by blast
    note live = out(1) [unfolded this one(1)] and free = out(2) [unfolded this]
    have "?B t \<in> set ?ts" using find_in [of _ "au_classes a ! x" t] Some move_class [OF m x s(1)] by auto
    then have "t_to (?B t) \<noteq> 0" using cls(3) monitorable_to [OF m] by auto
    then have "succs zero_key ?ts ?i = [\<lparr>ti_key = k, ti_state = of_nat (e_to (au_edge a t))\<rparr>]"
      using act Some by (simp add: succs_def after_walk_def fork_of_def tesla_instance_active_def BuildTransition_def)
    with live have "live c' = (if e_cleanup (au_edge a t) then {#} else {#\<lparr>ti_key = k, ti_state = of_nat (e_to (au_edge a t))\<rparr>#})"
      by simp
    moreover have "class_inv c'" "tc_limit c' < 2 ^ 31" "0 < tc_limit c'"
      using out(3) inv(2) some_slot by (auto simp: class_ok_def same_class_def)
    ultimately show ?thesis using k(1) free by (auto simp: Some at_state_def fresh_def)
  qed
qed

subsection \<open>The first event\<close>

text \<open>The automaton's init transition leaves the start state and is the first of the first symbol, where libtesla looks for it.\<close>

definition inits_first :: "automaton \<Rightarrow> bool" where
  "inits_first a \<longleftrightarrow> au_classes a \<noteq> [] \<and> e_init (au_edge a (hd (au_classes a ! 0)))
     \<and> e_from (au_edge a (hd (au_classes a ! 0))) = 0
     \<and> (\<forall>j < length (au_classes a). 0 < j \<longrightarrow> \<not> e_init (au_edge a (hd (au_classes a ! j))))"

definition init_state :: "automaton \<Rightarrow> nat" where
  "init_state a = e_to (au_edge a (hd (au_classes a ! 0)))"

lemma init_flag: "has_flag (BuildTransition g e) TESLA_TRANS_INIT \<longleftrightarrow> e_init e"
  by (simp add: has_flag_def BuildTransition_def TESLA_TRANS_CLEANUP_def TESLA_TRANS_INIT_def)

lemma class_hd:
  assumes "monitorable a" and "j < length (au_classes a)"
  shows "au_classes a ! j \<noteq> []" and "hd (au_classes a ! j) < length (g_edges (au_graph a))"
proof -
  from assms show ne: "au_classes a ! j \<noteq> []" by (auto simp: monitorable_def grouped_def uniform_def)
  from assms(1) have "mset (concat (au_classes a)) = mset [0..<length (g_edges (au_graph a))]" by (simp add: monitorable_def)
  from arg_cong [OF this, of set_mset] have "(\<Union>c \<in> set (au_classes a). set c) = {..<length (g_edges (au_graph a))}" by auto
  moreover have "hd (au_classes a ! j) \<in> set (au_classes a ! j)" using ne by simp
  ultimately show "hd (au_classes a ! j) < length (g_edges (au_graph a))" using assms(2) nth_mem by blast
qed

lemma content_size:
  assumes "monitorable a" and "automaton_content a lt = Inr autom"
  shows "unat (ta_alphabet_size autom) = length (au_classes a)" and "length (ta_transitions autom) = length (au_classes a)"
proof -
  show t: "length (ta_transitions autom) = length (au_classes a)" by (simp add: content_transitions [OF assms(2)])
  have "ta_alphabet_size autom = of_nat (length (ta_transitions autom))"
    using assms(2) by (auto simp: automaton_content_def E_eq_Inr)
  then show "unat (ta_alphabet_size autom) = length (au_classes a)"
    using assms(1) by (simp only: t) (rule unat_u32, simp add: monitorable_def)
qed

lemma content_init:
  assumes "monitorable a" and "automaton_content a lt = Inr autom" and "j < length (au_classes a)"
  shows "ta_transitions autom ! j ! 0 = BuildTransition (au_graph a) (au_edge a (hd (au_classes a ! j)))"
    and "sees_init autom j \<longleftrightarrow> j < length (au_classes a ! j) \<and> e_init (au_edge a (hd (au_classes a ! j)))"
proof -
  show *: "ta_transitions autom ! j ! 0 = BuildTransition (au_graph a) (au_edge a (hd (au_classes a ! j)))"
    using class_hd(1) [OF assms(1,3)] assms(3) by (simp add: content_transitions [OF assms(2)] hd_conv_nth)
  show "sees_init autom j \<longleftrightarrow> j < length (au_classes a ! j) \<and> e_init (au_edge a (hd (au_classes a ! j)))"
    unfolding sees_init_def * init_flag using assms(3) by (simp add: content_transitions [OF assms(2)])
qed

lemma late_init_starts:
  assumes m: "monitorable a" and d: "automaton_content a lt = Inr autom" and f: "inits_first a" and c: "fresh c"
    and run: "late_init rt ad autom symbol k c ls ms = Inr (lg, (go, c1, ls', ms'))"
  shows "go" and "at_state c1 (init_state a)" and "\<not> failed lg" and "unat (tc_free c1) \<le> unat (tc_free c)" and "same_class c c1"
    and "tls_begin ls' = tls_begin ls" and "tls_end ls' = tls_end ls"
proof -
  let ?t = "BuildTransition (au_graph a) (au_edge a (hd (au_classes a ! 0)))"
  let ?i = "\<lparr>ti_key = zero_key, ti_state = t_to ?t\<rparr>"
  from c have inv: "class_inv c" "tc_limit c < 2 ^ 31" "tc_free c \<noteq> 0" "live c = {#}" by (auto simp: fresh_def)
  from f have pos: "0 < length (au_classes a)" by (simp add: inits_first_def)
  have to: "t_to ?t \<noteq> 0" using monitorable_to [OF m class_hd(2) [OF m pos]] .
  have "\<exists>i. init_outer autom c 0 None = Inr (Inr ((set_inst c i ?i)\<lparr>tc_free := tc_free c - 1\<rparr>, Some i))
      \<and> i < length (insts c) \<and> \<not> tesla_instance_active (insts c ! i)"
    using init_outer_first [OF inv(1,3), of autom] content_size [OF m d] content_init [OF m d] class_hd(1) [OF m pos] pos f to
    by (auto simp: inits_first_def)
  then obtain i where i: "init_outer autom c 0 None = Inr (Inr ((set_inst c i ?i)\<lparr>tc_free := tc_free c - 1\<rparr>, Some i))"
    "i < length (insts c)" "\<not> tesla_instance_active (insts c ! i)" by blast
  have act: "tesla_instance_active ?i" using to by (simp add: tesla_instance_active_def)
  from run i act obtain l1 l2 where new: "ev_new_instance (rt_notify rt) ((set_inst c i ?i)\<lparr>tc_free := tc_free c - 1\<rparr>) i = Inr (l1, ())"
    and reg: "register_cleanup rt ad symbol ls k ms = Inr (l2, (ls', ms'))" and go: "go" and lg: "lg = l1 @ l2"
    and c1: "c1 = (set_inst c i ?i)\<lparr>tc_free := tc_free c - 1\<rparr>"
    by (auto simp: late_init_def R_eq_Inr)
  show "go" by (rule go)
  show "same_class c c1" by (simp add: c1 same_class_def set_inst_def)
  have "live c1 = add_mset ?i (live c)"
    using mset_filter_update [OF i(2), of tesla_instance_active, OF i(3) act] by (simp add: live_def c1)
  then have "live c1 = {#?i#}" by (simp add: inv(4))
  moreover have "class_inv c1" unfolding c1 using i by (intro class_inv_alloc inv(1,3)) simp_all
  ultimately show "at_state c1 (init_state a)"
    using inv(2) by (auto simp: at_state_def init_state_def BuildTransition_def c1 set_inst_def zero_key_def)
  show "unat (tc_free c1) \<le> unat (tc_free c)" using inv(3) by (simp add: c1 unat_dec)
  have "raises (ev_new_instance (rt_notify rt) c1 i) (\<lambda>e. \<exists>x y. e = New_instance x y)"
    unfolding ev_new_instance_def by (intro raise_rules) blast
  note r1 = raisesD [OF this new [folded c1]]
  have "raises (register_cleanup rt ad symbol ls k ms) (\<lambda>e. \<exists>w x y z. e = Err w x y z)"
    unfolding register_cleanup_def ev_err_def by (intro raise_rules) blast
  from r1 raisesD [OF this reg] show "\<not> failed lg"
    by (auto simp: failed_def lg no_instance_raised_def intro: bad_reports_none)
  show "tls_begin ls' = tls_begin ls" "tls_end ls' = tls_end ls"
    using reg by (auto simp: register_cleanup_def register_class_def Let_def E_eq_Inr R_eq_Inr case_prod_unfold split: option.splits if_splits)
qed

subsection \<open>Sequences of events\<close>

text \<open>An event acts on the class from the state \<open>s\<close>: its one instance is there, or there is none yet,
  and the event makes the first one in the init state.\<close>

definition stands :: "automaton \<Rightarrow> tesla_class \<Rightarrow> nat \<Rightarrow> bool" where
  "stands a c s \<longleftrightarrow> at_state c s \<or> s = init_state a \<and> fresh c"

text \<open>The class with index \<open>k\<close> is the automaton's, and the automaton's lifetime has begun.\<close>

definition registered :: "runtime \<Rightarrow> tesla_automaton \<Rightarrow> nat \<Rightarrow> tesla_store \<Rightarrow> bool" where
  "registered rt autom k st \<longleftrightarrow> k < length (classes st) \<and> rt_automata rt (tc_automaton (classes st ! k)) = Some autom
     \<and> (\<exists>li. find_lifetime (Inr (ta_lifetime autom)) (lifetimes st) [0..<unat (ts_lifetime_count st)] = Inr (Some li))"

text \<open>The state after an event: a cleanup returns to the beginning.\<close>

definition next_state :: "automaton \<Rightarrow> nat \<Rightarrow> nat" where
  "next_state a t = (if e_cleanup (au_edge a t) then init_state a else e_to (au_edge a t))"

fun tracks :: "automaton \<Rightarrow> nat \<Rightarrow> trans_label list \<Rightarrow> nat option" where
  "tracks a s [] = Some s"
| "tracks a s (l # w) = (case move a s l of None \<Rightarrow> None | Some t \<Rightarrow> tracks a (next_state a t) w)"

text \<open>The program's events, given to libtesla.\<close>

fun monitor :: "runtime \<Rightarrow> nat \<Rightarrow> u32 list \<Rightarrow> tesla_store \<Rightarrow> mallocs \<Rightarrow> (tesla_store \<times> mallocs) run" where
  "monitor rt k [] st ms = retR (st, ms)"
| "monitor rt k (x # xs) st ms =
     bindR (tesla_update_class_state rt st k x zero_key ms) (\<lambda>(st', ms'). monitor rt k xs st' ms')"

lemma find_lifetime_update:
  assumes "tls_begin ls = tls_begin (lss ! li)" and "tls_end ls = tls_end (lss ! li)"
  shows "find_lifetime l (lss[li := ls]) js = find_lifetime l lss js"
proof (induction js)
  case (Cons j js)
  have "tls_begin (lss[li := ls] ! j) = tls_begin (lss ! j)" "tls_end (lss[li := ls] ! j) = tls_end (lss ! j)" if "j < length lss"
    using that assms by (cases "j = li"; simp)+
  with Cons.IH show ?case
    by (cases l; cases "j < length lss") (simp_all add: nthE_def same_static_lifetime_def)
qed simp

lemma at_state_used: "at_state c s \<Longrightarrow> tc_limit c \<noteq> tc_free c"
proof
  assume c: "at_state c s" and "tc_limit c = tc_free c"
  then have "int (countp tesla_instance_active (insts c)) \<le> 0"
    using expected_active [of c] by (auto simp: at_state_def)
  moreover from c obtain x where "live c = {#x#}" by (auto simp: at_state_def)
  from single_live(1) [OF this] have "countp tesla_instance_active (insts c) = 1" by (simp add: countp_def)
  ultimately show False by simp
qed

lemma event_follows:
  assumes m: "monitorable a" and d: "automaton_content a lt = Inr autom" and f: "inits_first a"
    and x: "symbol_of a l = Some x" and s: "s < length (g_states (au_graph a))" "0 < s"
    and reg: "registered rt autom k st" and st: "stands a (classes st ! k) s"
    and run: "tesla_update_class_state rt st k (of_nat x) zero_key ms = Inr (lg, (st', ms'))"
  shows "registered rt autom k st'"
    and "case move a s l of None \<Rightarrow> failed lg | Some t \<Rightarrow> \<not> failed lg
      \<and> (if e_cleanup (au_edge a t) then fresh (classes st' ! k) else at_state (classes st' ! k) (e_to (au_edge a t)))"
proof -
  let ?c = "classes st ! k"
  from reg obtain li where k: "k < length (classes st)" and au: "rt_automata rt (tc_automaton ?c) = Some autom"
    and li: "find_lifetime (Inr (ta_lifetime autom)) (lifetimes st) [0..<unat (ts_lifetime_count st)] = Inr (Some li)"
    by (auto simp: registered_def)
  have "update_initialised rt st k (of_nat x) zero_key ms ?c autom li = Inr (lg, (st', ms'))"
    using run k au li by (simp add: tesla_update_class_state_def Let_def)
  then obtain l1 go c1 ls ms1 l2 where
    start: "(if tc_limit ?c = tc_free ?c then late_init rt (tc_automaton ?c) autom (of_nat x) k ?c (lifetimes st ! li) ms
       else retR (True, ?c, lifetimes st ! li, ms)) = Inr (l1, (go, c1, ls, ms1))"
    and rest: "(let st1 = set_lifetime (set_class st k c1) li ls in if \<not> go then retR (st1, ms1)
       else bindR (step_class rt (tc_automaton ?c) autom (of_nat x) zero_key (unat (tc_free ?c)) c1) (\<lambda>c2.
            retR (set_class st1 k c2, ms1))) = Inr (l2, (st', ms'))" and lg: "lg = l1 @ l2"
    by (auto simp: update_initialised_def Let_def R_eq_Inr)
  have 1: "go \<and> at_state c1 s \<and> \<not> failed l1 \<and> unat (tc_free c1) \<le> unat (tc_free ?c) \<and> same_class ?c c1
     \<and> tls_begin ls = tls_begin (lifetimes st ! li) \<and> tls_end ls = tls_end (lifetimes st ! li)"
  proof (cases "tc_limit ?c = tc_free ?c")
    case True
    with st have "s = init_state a" "fresh ?c" using at_state_used [of ?c s] by (auto simp: stands_def)
    with late_init_starts [OF m d f] start True show ?thesis by auto
  next
    case False
    with st have "at_state ?c s" by (auto simp: stands_def fresh_def)
    with start False show ?thesis by (simp add: failed_def bad_reports_def no_instance_raised_def map_filter_simps)
  qed
  with rest obtain c2 where step: "step_class rt (tc_automaton ?c) autom (of_nat x) zero_key (unat (tc_free ?c)) c1 = Inr (l2, c2)"
    and st': "st' = set_class (set_lifetime (set_class st k c1) li ls) k c2" by (auto simp: Let_def R_eq_Inr)
  from 1 have at: "at_state c1 s" and mc: "unat (tc_free c1) \<le> unat (tc_free ?c)" by blast+
  note out = step_follows [OF m d x s at mc step]
  have cl: "classes st' ! k = c2" using k by (simp add: st')
  have "tc_automaton c2 = tc_automaton ?c" using out(2) 1 by (simp add: same_class_def)
  with k au li 1 show "registered rt autom k st'"
    by (simp add: registered_def st' find_lifetime_update)
  show "case move a s l of None \<Rightarrow> failed lg | Some t \<Rightarrow> \<not> failed lg
      \<and> (if e_cleanup (au_edge a t) then fresh (classes st' ! k) else at_state (classes st' ! k) (e_to (au_edge a t)))"
    using out(1) 1 by (auto simp: lg cl split: option.splits if_splits)
qed

lemma init_state_valid:
  assumes "monitorable a" and "inits_first a"
  shows "init_state a < length (g_states (au_graph a))" and "0 < init_state a"
proof -
  from assms(2) have "0 < length (au_classes a)" by (simp add: inits_first_def)
  note monitorable_edge(2,3) [OF assms(1) class_hd(2) [OF assms(1) this]]
  then show "init_state a < length (g_states (au_graph a))" "0 < init_state a" by (simp_all add: init_state_def)
qed

lemma move_edge:
  assumes "monitorable a" and "s < length (g_states (au_graph a))" and "move a s l = Some t"
  shows "t < length (g_edges (au_graph a))" and "EquivalentTo (e_label (au_edge a t)) l" and "e_from (au_edge a t) = s"
  using find_in [OF assms(3) [unfolded move_def]] assms(1,2)
  by (auto simp: monitorable_def wf_graph_def outs_def owned_def au_edge_def)

lemma next_state_valid:
  assumes "monitorable a" and "inits_first a" and "t < length (g_edges (au_graph a))"
  shows "next_state a t < length (g_states (au_graph a))" and "0 < next_state a t"
  using init_state_valid [OF assms(1,2)] monitorable_edge(2,3) [OF assms(1,3)] by (simp_all add: next_state_def)

abbreviation symbols :: "automaton \<Rightarrow> trans_label list \<Rightarrow> u32 list" where
  "symbols a w \<equiv> map (\<lambda>l. of_nat (the (symbol_of a l))) w"

lemma monitor_run:
  assumes m: "monitorable a" and d: "automaton_content a lt = Inr autom" and f: "inits_first a"
  shows "\<forall>l \<in> set w. symbol_of a l \<noteq> None \<Longrightarrow> s < length (g_states (au_graph a)) \<Longrightarrow> 0 < s \<Longrightarrow>
    registered rt autom k st \<Longrightarrow> stands a (classes st ! k) s \<Longrightarrow>
    monitor rt k (symbols a w) st ms = Inr (lg, (st', ms')) \<Longrightarrow>
    case tracks a s w of None \<Rightarrow> failed lg | Some s' \<Rightarrow> \<not> failed lg \<and> registered rt autom k st' \<and> stands a (classes st' ! k) s'"
proof (induction w arbitrary: s st ms lg)
  case Nil
  then show ?case by (simp add: failed_def bad_reports_def no_instance_raised_def map_filter_simps)
next
  case (Cons l w)
  from Cons.prems(1) obtain x where x: "symbol_of a l = Some x" by auto
  from Cons.prems(6) x obtain l1 st1 ms1 l2 where
    step: "tesla_update_class_state rt st k (of_nat x) zero_key ms = Inr (l1, (st1, ms1))"
    and rest: "monitor rt k (symbols a w) st1 ms1 = Inr (l2, (st', ms'))" and lg: "lg = l1 @ l2"
    by (auto simp: R_eq_Inr)
  note ev = event_follows [OF m d f x Cons.prems(2-5) step]
  show ?case
  proof (cases "move a s l")
    case None
    with ev(2) show ?thesis by (simp add: lg)
  next
    case (Some t)
    note t = next_state_valid [OF m f move_edge(1) [OF m Cons.prems(2) Some]]
    from ev(2) Some have "\<not> failed l1" "stands a (classes st1 ! k) (next_state a t)"
      by (auto simp: stands_def next_state_def split: if_splits)
    with Cons.IH [OF _ t ev(1) _ rest] Cons.prems(1) Some show ?thesis
      by (auto simp: lg split: option.splits)
  qed
qed

text \<open>None of the events ends the automaton's lifetime.\<close>

definition no_cleanup :: "automaton \<Rightarrow> trans_label list \<Rightarrow> bool" where
  "no_cleanup a w \<longleftrightarrow> (\<forall>t < length (g_edges (au_graph a)). e_cleanup (au_edge a t) \<longrightarrow>
     (\<forall>l \<in> set w. \<not> EquivalentTo (e_label (au_edge a t)) l))"

lemma tracks_dfa_run:
  assumes "monitorable a" and "no_cleanup a w" and "s < length (g_states (au_graph a))"
  shows "tracks a s w = dfa_run (au_graph a) s w"
  using assms(2,3)
proof (induction w arbitrary: s)
  case (Cons l w)
  show ?case
  proof (cases "move a s l")
    case (Some t)
    note t = move_edge [OF assms(1) Cons.prems(2) Some]
    with Cons.prems(1) have "next_state a t = e_to (au_edge a t)" "no_cleanup a w"
      by (auto simp: next_state_def no_cleanup_def)
    with Cons monitorable_edge(2) [OF assms(1) t(1)] Some show ?thesis by (simp add: dfa_run_move del: dfa_run.simps)
  qed (simp add: dfa_run_move del: dfa_run.simps)
qed simp

subsection \<open>The default handlers\<close>

text \<open>With the default handlers a failure never returns, so a log that is returned has none.\<close>

definition stopping :: "runtime \<Rightarrow> bool" where
  "stopping rt \<longleftrightarrow> (\<forall>ev. failure_event ev \<longrightarrow> (\<exists>e. dispatch (rt_notify rt) ev = Inl e))"

lemma stopping_dispatch:
  "stopping rt \<Longrightarrow> raises (dispatch (rt_notify rt) ev) (\<lambda>e. \<not> failure_event e)"
  unfolding raises_def stopping_def by (auto simp: dispatch_def E_eq_Inr)

lemma stopping_update:
  assumes "stopping rt"
  shows "raises (tesla_update_class_state rt st k symbol ev ms) (\<lambda>e. \<not> failure_event e)"
proof -
  note rules = stopping_dispatch [OF assms] raises_bindR raises_pure raises_cases
  let ?E = "\<lambda>e. \<not> failure_event e"
  have take: "raises (take_action rt a symbol m u i inst act) ?E" for a m u i inst act
  proof -
    obtain w trigger where act: "act = (w, trigger)" by (cases act)
    show ?thesis
      unfolding act take_action_def prod.case ev_defs by (cases w; simp only: tesla_action_t.case; intro rules)
  qed
  have loop: "raises (update_loop rt a symbol ev ts m u js) ?E" for a ts m u js
  proof (induction js arbitrary: u)
    case (Cons j js)
    show ?case unfolding update_loop.simps instance_step_def by (intro rules take Cons.IH)
  qed (simp add: rules)
  have one: "raises (clone_one rt a symbol ev c info) ?E" for a c info
    unfolding clone_one_def ev_defs by (intro rules)
  have clone: "raises (clone_loop rt a symbol ev c infos) ?E" for a c infos
  proof (induction infos arbitrary: c)
    case (Cons info infos)
    show ?case unfolding clone_loop.simps by (intro rules one Cons.IH)
  qed (simp add: rules)
  have step: "raises (step_class rt a autom symbol ev m c) ?E" for a autom m c
    unfolding step_class_def ev_defs by (intro rules loop clone)
  have late: "raises (late_init rt a autom symbol k c ls ms) ?E" for a autom c ls ms
    unfolding late_init_def register_cleanup_def ev_defs by (intro rules)
  show ?thesis
    unfolding tesla_update_class_state_def update_initialised_def ev_defs by (intro rules step late)
qed

lemma stopping_monitor: "stopping rt \<Longrightarrow> raises (monitor rt k xs st ms) (\<lambda>e. \<not> failure_event e)"
proof (induction xs arbitrary: st ms)
  case (Cons x xs)
  show ?case unfolding monitor.simps
    by (intro raises_bindR raises_cases stopping_update Cons.IH Cons.prems)
qed (simp add: raise_rules)

lemma stopping_never_failed:
  assumes "stopping rt" and "monitor rt k xs st ms = Inr (lg, r)"
  shows "\<not> failed lg"
proof -
  note no = raisesD [OF stopping_monitor [OF assms(1)] assms(2)]
  have "Raised (Bad_transition c i s) \<notin> set lg" "Raised (No_instance c s e) \<notin> set lg" for c i s e
    using no [of "Bad_transition c i s"] no [of "No_instance c s e"] by (auto simp: failure_event_def)
  then show ?thesis by (auto simp: failed_def no_instance_raised_def bad_reports_none)
qed

text \<open>Without failures the default handlers let every update return.\<close>

definition patient :: "runtime \<Rightarrow> bool" where
  "patient rt \<longleftrightarrow> (\<forall>ev. \<not> failure_event ev \<longrightarrow> (\<exists>l. dispatch (rt_notify rt) ev = Inr (l, ())))"

lemma default_handlers_runtime:
  assumes "rt_notify rt = initial_notifier A None"
  shows "stopping rt" and "patient rt"
  using default_fail_stop default_quiet by (simp_all add: stopping_def patient_def assms)

lemma patient_step:
  assumes p: "patient rt" and i: "tc_instances (u_class u) \<noteq> None" "j < length (insts (u_class u))"
    and act: "tesla_action (insts (u_class u) ! j) ev ts \<in> {Inr (IGNORE, None), Inr (UPDATE, Some t)}"
    and t: "\<not> has_flag t TESLA_TRANS_CLEANUP"
  shows "\<exists>l u'. instance_step rt a symbol ev ts m u j = Inr (l, Inr u') \<and> tc_instances (u_class u') \<noteq> None
    \<and> length (insts (u_class u')) = length (insts (u_class u))
    \<and> (\<forall>i. i \<noteq> j \<longrightarrow> insts (u_class u') ! i = insts (u_class u) ! i)"
proof -
  have "\<not> failure_event (Transition (u_class u) j t)" by (simp add: failure_event_def)
  with p obtain l where "dispatch (rt_notify rt) (Transition (u_class u) j t) = Inr (l, ())"
    unfolding patient_def by blast
  then show ?thesis
    using act t i
    by (auto simp: instance_step_def take_action_def is_cleanup_def ev_transition_def bindR_def retR_def derefE_def
        Let_def split: if_splits)
qed

lemma patient_loop:
  assumes p: "patient rt" and t: "\<not> has_flag t TESLA_TRANS_CLEANUP"
  shows "distinct js \<Longrightarrow> tc_instances (u_class u) \<noteq> None \<Longrightarrow>
    \<forall>j \<in> set js. j < length (insts (u_class u))
      \<and> tesla_action (insts (u_class u) ! j) ev ts \<in> {Inr (IGNORE, None), Inr (UPDATE, Some t)} \<Longrightarrow>
    \<exists>l u'. update_loop rt a symbol ev ts m u js = Inr (l, Inr u')"
proof (induction js arbitrary: u)
  case (Cons j js)
  from Cons.prems(3) have j: "j < length (insts (u_class u))"
    "tesla_action (insts (u_class u) ! j) ev ts \<in> {Inr (IGNORE, None), Inr (UPDATE, Some t)}" by simp_all
  from patient_step [OF p Cons.prems(2) j t, of a symbol m] obtain l1 u1 where
    1: "instance_step rt a symbol ev ts m u j = Inr (l1, Inr u1)" "tc_instances (u_class u1) \<noteq> None"
      "length (insts (u_class u1)) = length (insts (u_class u))"
      "\<forall>i. i \<noteq> j \<longrightarrow> insts (u_class u1) ! i = insts (u_class u) ! i" by blast
  have "\<exists>l u'. update_loop rt a symbol ev ts m u1 js = Inr (l, Inr u')"
  proof (rule Cons.IH)
    show "\<forall>i \<in> set js. i < length (insts (u_class u1))
        \<and> tesla_action (insts (u_class u1) ! i) ev ts \<in> {Inr (IGNORE, None), Inr (UPDATE, Some t)}"
    proof
      fix i
      assume "i \<in> set js"
      with Cons.prems(1,3) 1(3,4) show "i < length (insts (u_class u1))
        \<and> tesla_action (insts (u_class u1) ! i) ev ts \<in> {Inr (IGNORE, None), Inr (UPDATE, Some t)}"
        by (metis distinct.simps(2) list.set_intros(2))
    qed
  qed (use Cons.prems(1) 1(2) in simp_all)
  then show ?case using 1(1) by (auto simp: bindR_def retR_def)
qed (simp add: retR_def)

lemma step_returns:
  assumes m: "monitorable a" and d: "automaton_content a lt = Inr autom" and x: "symbol_of a l = Some x"
    and s: "s < length (g_states (au_graph a))" "0 < s" and c: "at_state c s"
    and mc: "unat (tc_free c) \<le> mc" and small: "length (au_classes a ! x) < 10000" and p: "patient rt"
    and t: "move a s l = Some t" "\<not> e_cleanup (au_edge a t)"
  shows "\<exists>lg c'. step_class rt ad autom (of_nat x) zero_key mc c = Inr (lg, c')"
proof -
  let ?B = "\<lambda>t. BuildTransition (au_graph a) (au_edge a t)"
  let ?ts = "map ?B (au_classes a ! x)"
  from m x s c refl obtain k where k: "live c = {#\<lparr>ti_key = k, ti_state = of_nat s\<rparr>#}"
    and act: "tesla_action \<lparr>ti_key = k, ti_state = of_nat s\<rparr> zero_key ?ts = (case move a s l of
       Some t \<Rightarrow> Inr (UPDATE, Some (?B t)) | None \<Rightarrow> Inr (FAIL, None))"
    and other: "\<forall>y \<in> set (insts c). y \<noteq> \<lparr>ti_key = k, ti_state = of_nat s\<rparr> \<longrightarrow> tesla_action y zero_key ?ts = Inr (IGNORE, None)"
    and room: "clones_needed zero_key ?ts c = 0"
    by (rule class_actions)
  let ?i = "\<lparr>ti_key = k, ti_state = of_nat s\<rparr>"
  note one = single_live [OF k] and cls = symbol_class [OF m x]
  from c have inv: "class_inv c" "tc_limit c < 2 ^ 31" by (auto simp: at_state_def)
  note len = class_invD(1,2) [OF inv(1)]
  have acts: "tesla_action y zero_key ?ts \<in> {Inr (IGNORE, None), Inr (UPDATE, Some (?B t))}" if "y \<in> set (insts c)" for y
    using act t(1) other that by (cases "y = ?i") auto
  have "\<exists>l u. update_loop rt ad (of_nat x) zero_key ?ts mc (start c) [0..<length (insts c)] = Inr (l, Inr u)"
    using acts len(1) t(2) by (intro patient_loop [OF p, of "?B t"]) (simp_all add: cleanup_flag)
  then obtain l1 u where loop: "update_loop rt ad (of_nat x) zero_key ?ts mc (start c) [0..<length (insts c)] = Inr (l1, Inr u)" by blast
  have "clones_needed zero_key ?ts c \<le> unat (tc_free c)" by (simp add: room)
  from walk_outcome [OF inv this mc loop] obtain u' where u': "Inr u = (Inr u' :: tesla_class + upd)"
    and w: "walked zero_key ?ts mc 0 (start c) l1 u'"
    and cl: "u_clones u' = forks zero_key ?ts (insts c) [0..<length (insts c)]" by metis
  have "length (forks zero_key ?ts (insts c) [0..<length (insts c)]) = 0"
    using room unfolding length_forks clones_needed_def
    by (subst countp_nth [where P = "\<lambda>x. fork_of zero_key ?ts x \<noteq> None"])
  then have none: "u_clones u = []" using cl u' by simp
  note w = w [unfolded walked_def Let_def, simplified upd.simps]
  obtain j where j: "j < length (insts c)" "insts c ! j = ?i" using one(2) by (auto simp: in_set_conv_nth)
  have ma: "u_matched u" using w u' j act t(1) by force
  have "\<not> cleans_up zero_key ?ts y" if "y \<in> set (insts c)" for y
    using acts [OF that] t(2) by (auto simp: cleans_up_def is_cleanup_def cleanup_flag)
  then have cu: "\<not> u_cleanup u" using w u' by simp
  have x32: "unat (of_nat x :: u32) = x" using cls(1) m by (intro unat_u32) (simp add: monitorable_def)
  have "step_class rt ad autom (of_nat x) zero_key mc c = Inr (l1, u_class u)"
    using loop none ma cu cls(1,2) small len(2)
    by (simp add: step_class_def x32 content_transitions [OF d] bindR_def retR_def)
  then show ?thesis by blast
qed

lemma event_returns:
  assumes m: "monitorable a" and d: "automaton_content a lt = Inr autom" and x: "symbol_of a l = Some x"
    and s: "s < length (g_states (au_graph a))" "0 < s" and reg: "registered rt autom k st" and at: "at_state (classes st ! k) s"
    and small: "length (au_classes a ! x) < 10000" and p: "patient rt"
    and t: "move a s l = Some t" "\<not> e_cleanup (au_edge a t)"
  shows "\<exists>lg r. tesla_update_class_state rt st k (of_nat x) zero_key ms = Inr (lg, r)"
proof -
  let ?c = "classes st ! k"
  from reg obtain li where k: "k < length (classes st)" and au: "rt_automata rt (tc_automaton ?c) = Some autom"
    and li: "find_lifetime (Inr (ta_lifetime autom)) (lifetimes st) [0..<unat (ts_lifetime_count st)] = Inr (Some li)"
    by (auto simp: registered_def)
  obtain lg c' where "step_class rt (tc_automaton ?c) autom (of_nat x) zero_key (unat (tc_free ?c)) ?c = Inr (lg, c')"
    using step_returns [OF m d x s at order_refl small p t] by blast
  then show ?thesis
    using k au li at_state_used [OF at] by (simp add: tesla_update_class_state_def update_initialised_def Let_def bindR_def retR_def)
qed

lemma monitor_returns:
  assumes m: "monitorable a" and d: "automaton_content a lt = Inr autom" and f: "inits_first a"
    and p: "patient rt" and small: "\<forall>c \<in> set (au_classes a). length c < 10000"
  shows "\<forall>l \<in> set w. symbol_of a l \<noteq> None \<Longrightarrow> s < length (g_states (au_graph a)) \<Longrightarrow> 0 < s \<Longrightarrow>
    registered rt autom k st \<Longrightarrow> at_state (classes st ! k) s \<Longrightarrow> no_cleanup a w \<Longrightarrow> tracks a s w \<noteq> None \<Longrightarrow>
    \<exists>lg r. monitor rt k (symbols a w) st ms = Inr (lg, r)"
proof (induction w arbitrary: s st ms)
  case (Cons l w)
  from Cons.prems(1) obtain x where x: "symbol_of a l = Some x" by auto
  from Cons.prems(7) obtain t where t: "move a s l = Some t" "tracks a (next_state a t) w \<noteq> None"
    by (auto split: option.splits)
  note e = move_edge [OF m Cons.prems(2) t(1)]
  have nc: "\<not> e_cleanup (au_edge a t)" using Cons.prems(6) e(1,2) by (auto simp: no_cleanup_def)
  have "length (au_classes a ! x) < 10000" using small symbol_class(1) [OF m x] by simp
  from event_returns [OF m d x Cons.prems(2-5) this p t(1) nc] obtain l1 st1 ms1 where
    1: "tesla_update_class_state rt st k (of_nat x) zero_key ms = Inr (l1, (st1, ms1))" by (metis surj_pair)
  have "stands a (classes st ! k) s" using Cons.prems(5) by (simp add: stands_def)
  note ev = event_follows [OF m d f x Cons.prems(2-4) this 1]
  from ev(2) t(1) nc have "at_state (classes st1 ! k) (next_state a t)" by (simp add: next_state_def)
  moreover have "no_cleanup a w" using Cons.prems(6) by (simp add: no_cleanup_def)
  ultimately have "\<exists>lg r. monitor rt k (symbols a w) st1 ms1 = Inr (lg, r)"
    using Cons.prems(1) t(2) by (intro Cons.IH [OF _ next_state_valid [OF m f e(1)] ev(1)]) simp_all
  then show ?case using 1 x by (auto simp: bindR_def)
qed (simp add: retR_def)

subsection \<open>The compiled automaton decides\<close>

text \<open>The program contains the description \<open>autom\<close> of the deterministic automaton \<open>a\<close> made from \<open>n\<close>.\<close>

definition deployed :: "automaton \<Rightarrow> automaton \<Rightarrow> tesla_automaton \<Rightarrow> bool" where
  "deployed n a autom \<longleftrightarrow> ConstructDFA n = Inr a \<and> automaton_content a (ta_lifetime autom) = Inr autom
     \<and> refs_free (au_graph a) \<and> inits_first a
     \<and> length (g_states (au_graph a)) < 2 ^ 32 \<and> length (au_classes a) < 2 ^ 32
     \<and> list_all (\<lambda>c. length c < 10000) (au_classes a)"

lemma deployedD:
  assumes "deployed n a autom"
  shows "monitorable a" and "automaton_content a (ta_lifetime autom) = Inr autom" and "inits_first a"
    and "\<forall>c \<in> set (au_classes a). length c < 10000"
  using assms ConstructDFA_monitorable [of n a] by (auto simp: deployed_def list_all_iff)

text \<open>The event that begins the automaton's lifetime.\<close>

definition init_label :: "automaton \<Rightarrow> trans_label" where
  "init_label a = e_label (au_edge a (hd (au_classes a ! 0)))"

lemma init_move:
  assumes m: "monitorable a" and f: "inits_first a"
  shows "move a 0 (init_label a) = Some (hd (au_classes a ! 0))" and "0 < length (g_states (au_graph a))"
proof -
  from f have pos: "0 < length (au_classes a)" by (simp add: inits_first_def)
  note h = class_hd [OF m pos]
  show st: "0 < length (g_states (au_graph a))" using le_less_trans [OF le0 monitorable_edge(1) [OF m h(2)]] .
  have "symbol_of a (init_label a) = Some 0"
    unfolding symbol_of_def find_Some_iff
    using pos by (intro exI [of _ 0]) (simp add: init_label_def EquivalentTo_iff)
  from move_class [OF m this st] f h(1) show "move a 0 (init_label a) = Some (hd (au_classes a ! 0))"
    by (cases "au_classes a ! 0") (simp_all add: inits_first_def)
qed

text \<open>C11.  From an event to the next, libtesla follows the deterministic automaton: as long as the
  automaton can read the events, no failure is reported, and the class has one live instance, in
  the automaton's state, or, after an event that ends the lifetime, none; once the automaton
  cannot read an event, a failure is reported.\<close>

theorem monitor_tracks:
  assumes "deployed n a autom" and "registered rt autom k st" and "stands a (classes st ! k) s"
    and "0 < s" and "s < length (g_states (au_graph a))" and "\<forall>l \<in> set w. symbol_of a l \<noteq> None"
    and "monitor rt k (symbols a w) st ms = Inr (lg, (st', ms'))"
  shows "case tracks a s w of None \<Rightarrow> failed lg
     | Some s' \<Rightarrow> \<not> failed lg \<and> registered rt autom k st' \<and> stands a (classes st' ! k) s'"
  using monitor_run [OF deployedD(1-3) [OF assms(1)] assms(6,5,4,2,3,7)] .

text \<open>C2.  An assertion without variables is monitored correctly: if the program is run from the
  beginning of the automaton's lifetime with handlers that return, a failure is reported exactly
  if the automaton that was parsed from the assertion cannot read the events.\<close>

theorem monitor_decides:
  assumes "deployed n a autom" and "registered rt autom k st" and "fresh (classes st ! k)"
    and "\<forall>l \<in> set w. symbol_of a l \<noteq> None" and "no_cleanup a w"
    and "monitor rt k (symbols a w) st ms = Inr (lg, (st', ms'))"
  shows "failed lg \<longleftrightarrow> \<not> (\<exists>s. nfa_path (au_graph n) 0 (init_label a # w) s)"
proof -
  note d = deployedD [OF assms(1)] and v = init_state_valid [OF deployedD(1,3) [OF assms(1)]]
  have "stands a (classes st ! k) (init_state a)" using assms(3) by (simp add: stands_def)
  from monitor_run [OF d(1-3) assms(4) v assms(2) this assms(6)] tracks_dfa_run [OF d(1) assms(5) v(1)]
  have "failed lg \<longleftrightarrow> dfa_run (au_graph a) (init_state a) w = None" by (auto split: option.splits)
  also have "dfa_run (au_graph a) (init_state a) w = dfa_run (au_graph a) 0 (init_label a # w)"
    using init_move(1) [OF d(1,3)] by (simp add: dfa_run_move init_state_def del: dfa_run.simps)
  finally show ?thesis
  proof -
    assume f: "failed lg \<longleftrightarrow> dfa_run (au_graph a) 0 (init_label a # w) = None"
    from assms(1) obtain b where "dfa_graph (au_graph n) = Inr b" "au_graph a = d_graph b"
      using ConstructDFA_graph [of n a] by (auto simp: deployed_def)
    with dfa_graph_simulates [of "au_graph n" b "init_label a # w"] f show ?thesis
      by (auto simp del: dfa_run.simps split: option.splits)
  qed
qed

text \<open>C3.  With the handlers libtesla installs by default, the program runs on exactly as long as the
  automaton can read its events: an update returns if the automaton can read the event, and the
  program is stopped otherwise.\<close>

theorem default_monitor_stops:
  assumes "deployed n a autom" and "registered rt autom k st" and "at_state (classes st ! k) s"
    and "0 < s" and "s < length (g_states (au_graph a))" and "\<forall>l \<in> set w. symbol_of a l \<noteq> None"
    and "no_cleanup a w" and "rt_notify rt = initial_notifier A None"
  shows "(\<exists>lg r. monitor rt k (symbols a w) st ms = Inr (lg, r)) \<longleftrightarrow> dfa_run (au_graph a) s w \<noteq> None"
proof -
  note d = deployedD [OF assms(1)] and h = default_handlers_runtime [OF assms(8)]
  have t: "tracks a s w = dfa_run (au_graph a) s w" by (rule tracks_dfa_run [OF d(1) assms(7,5)])
  show ?thesis
  proof
    assume "\<exists>lg r. monitor rt k (symbols a w) st ms = Inr (lg, r)"
    then obtain lg st' ms' where run: "monitor rt k (symbols a w) st ms = Inr (lg, (st', ms'))" by (metis surj_pair)
    have "stands a (classes st ! k) s" using assms(3) by (simp add: stands_def)
    from monitor_run [OF d(1-3) assms(6,5,4,2) this run] stopping_never_failed [OF h(1) run]
    show "dfa_run (au_graph a) s w \<noteq> None" unfolding t [symmetric] by (auto split: option.splits)
  next
    assume "dfa_run (au_graph a) s w \<noteq> None"
    then show "\<exists>lg r. monitor rt k (symbols a w) st ms = Inr (lg, r)"
      using monitor_returns [OF d(1-3) h(2) d(4) assms(6,5,4,2,3,7)] t by simp
  qed
qed

subsection \<open>An example\<close>

text \<open>The example assertion of the compiler, its description, and a store with its lifetime and a class.\<close>

definition ex_deployment :: "(automaton \<times> automaton \<times> tesla_automaton) res" where
  "ex_deployment = bindE ex_nfa (\<lambda>n. bindE (ConstructDFA n) (\<lambda>a.
     bindE (automaton_content a ex_lifetime) (\<lambda>autom. Inr (n, a, autom))))"

definition ex_watcher :: "tesla_automaton \<Rightarrow> runtime" where
  "ex_watcher autom = ex_runtime\<lparr>rt_automata := (\<lambda>p. if p = 4096 then Some autom else None)\<rparr>"

definition ex_default :: "tesla_automaton \<Rightarrow> runtime" where
  "ex_default autom = \<lparr>rt_automata = (\<lambda>p. if p = 4096 then Some autom else None), rt_env = None,
     rt_notify = initial_notifier (\<lambda>p. if p = 4096 then Some autom else None) None, rt_kernel = False\<rparr>"

definition ex_watched :: "u32 \<Rightarrow> tesla_store" where
  "ex_watched s = zero_store\<lparr>ts_length := 1, ts_lifetime_count := 1,
     ts_classes := Some [\<lparr>tc_automaton = 4096, tc_context = TESLA_CONTEXT_THREAD, tc_limit = 1,
       tc_free = (if s = 0 then 1 else 0), tc_instances = Some [\<lparr>ti_key = zero_key, ti_state = s\<rparr>], tc_lock = Raw_mutex\<rparr>],
     ts_lifetimes := Some [\<lparr>tls_begin = tl_begin ex_lifetime, tls_end = tl_end ex_lifetime, tls_classes = [None],
       tls_dyn_classes = [], tls_dyn_capacity = 0, tls_dyn_count = 0\<rparr>]\<rparr>"

definition ex_word :: "trans_label list" where
  "ex_word = [Fn_t (Tesla_Compiler.ex_event ''a'' Entry), Assert_t ex_site []]"

lemma ex_deployment_shape: "case ex_deployment of Inl _ \<Rightarrow> False | Inr (n, a, autom) \<Rightarrow>
  list_all (\<lambda>q. References q = []) (g_states (au_graph a)) \<and> length (g_states (au_graph a)) < 100
  \<and> init_state a = 1
  \<and> length (au_classes a) < 100 \<and> list_all (\<lambda>c. length c < 100) (au_classes a)
  \<and> inits_first a \<and> list_all (\<lambda>l. symbol_of a l \<noteq> None) ex_word
  \<and> list_all (\<lambda>t. e_cleanup (au_edge a t) \<longrightarrow> list_all (\<lambda>l. \<not> EquivalentTo (e_label (au_edge a t)) l) ex_word)
      [0..<length (g_edges (au_graph a))]
  \<and> dfa_run (au_graph a) 1 ex_word \<noteq> None \<and> tracks a 1 ex_word \<noteq> None
  \<and> returned (monitor (ex_watcher autom) 0 (symbols a ex_word) (ex_watched 0) [])"
  by code_simp

lemma ex_deployment_facts:
  obtains n a autom lg st' ms' where "ex_deployment = Inr (n, a, autom)" and "deployed n a autom" and "ta_lifetime autom = ex_lifetime"
    and "init_state a = 1" and "\<forall>l \<in> set ex_word. symbol_of a l \<noteq> None" and "no_cleanup a ex_word"
    and "dfa_run (au_graph a) 1 ex_word \<noteq> None" and "tracks a 1 ex_word \<noteq> None"
    and "monitor (ex_watcher autom) 0 (symbols a ex_word) (ex_watched 0) [] = Inr (lg, (st', ms'))"
proof -
  from ex_deployment_shape obtain n a autom where d: "ex_deployment = Inr (n, a, autom)" by (auto split: sum.splits)
  note sh = ex_deployment_shape [unfolded d sum.case prod.case list_all_iff]
  from d have c: "ConstructDFA n = Inr a" "automaton_content a ex_lifetime = Inr autom"
    by (auto simp: ex_deployment_def E_eq_Inr)
  have lt: "ta_lifetime autom = ex_lifetime" by (rule content_transitions(2) [OF c(2)])
  have "length (g_states (au_graph a)) < 2 ^ 32" "length (au_classes a) < 2 ^ 32"
    using sh less_trans [of _ 100 "2 ^ 32 :: nat"] by simp_all
  moreover have "list_all (\<lambda>c. length c < 10000) (au_classes a)" using sh by (auto simp: list_all_iff)
  ultimately have "deployed n a autom" using c lt sh by (simp add: deployed_def refs_free_def)
  moreover have "no_cleanup a ex_word" using sh by (auto simp: no_cleanup_def)
  moreover obtain lg st' ms' where "monitor (ex_watcher autom) 0 (symbols a ex_word) (ex_watched 0) [] = Inr (lg, (st', ms'))"
    using sh unfolding returned_iff by (metis surj_pair)
  ultimately show thesis using that d lt sh by blast
qed

lemma ex_registered:
  assumes "ta_lifetime autom = ex_lifetime" and "rt_automata rt 4096 = Some autom"
  shows "registered rt autom 0 (ex_watched s)"
  using assms by (simp add: registered_def ex_watched_def classes_def lifetimes_def same_static_lifetime_def same_event_def
      ex_lifetime_def Tesla_Examples.ex_event_def)

lemma ex_watched_class:
  shows "fresh (classes (ex_watched 0) ! 0)" and "at_state (classes (ex_watched 1) ! 0) 1"
proof -
  show "fresh (classes (ex_watched 0) ! 0)"
    by (simp add: fresh_def class_inv_def ex_watched_def classes_def insts_def live_def tesla_instance_active_def zero_key_def
        wf_key_def TESLA_KEY_SIZE_def)
  show "at_state (classes (ex_watched 1) ! 0) 1"
    by (simp add: at_state_def class_inv_def ex_watched_def classes_def insts_def live_def tesla_instance_active_def zero_key_def
        wf_key_def TESLA_KEY_SIZE_def)
qed

theorem monitor_tracks_witness:
  "\<exists>n a autom lg st' ms'. ex_deployment = Inr (n, a, autom)
    \<and> monitor (ex_watcher autom) 0 (symbols a ex_word) (ex_watched 0) [] = Inr (lg, (st', ms')) \<and> \<not> failed lg"
proof (rule ex_deployment_facts)
  fix n a autom lg st' ms'
  assume d: "ex_deployment = Inr (n, a, autom)" "deployed n a autom" "ta_lifetime autom = ex_lifetime" "init_state a = 1"
    "\<forall>l \<in> set ex_word. symbol_of a l \<noteq> None" "tracks a 1 ex_word \<noteq> None"
    "monitor (ex_watcher autom) 0 (symbols a ex_word) (ex_watched 0) [] = Inr (lg, (st', ms'))"
  have "stands a (classes (ex_watched 0) ! 0) 1" using ex_watched_class(1) d(4) by (simp add: stands_def)
  moreover have "1 < length (g_states (au_graph a))" using init_state_valid(1) [OF deployedD(1,3) [OF d(2)]] d(4) by simp
  ultimately have "\<not> failed lg"
    using monitor_tracks [OF d(2) ex_registered [OF d(3), of "ex_watcher autom" 0] _ _ _ d(5,7), of 1] d(6)
    by (auto simp: ex_watcher_def)
  with d show ?thesis by blast
qed

theorem monitor_decides_witness:
  "\<exists>n a autom lg st' ms'. ex_deployment = Inr (n, a, autom)
    \<and> monitor (ex_watcher autom) 0 (symbols a ex_word) (ex_watched 0) [] = Inr (lg, (st', ms'))
    \<and> (failed lg \<longleftrightarrow> \<not> (\<exists>s. nfa_path (au_graph n) 0 (init_label a # ex_word) s))"
proof (rule ex_deployment_facts)
  fix n a autom lg st' ms'
  assume d: "ex_deployment = Inr (n, a, autom)" "deployed n a autom" "ta_lifetime autom = ex_lifetime"
    "\<forall>l \<in> set ex_word. symbol_of a l \<noteq> None" "no_cleanup a ex_word"
    "monitor (ex_watcher autom) 0 (symbols a ex_word) (ex_watched 0) [] = Inr (lg, (st', ms'))"
  have "registered (ex_watcher autom) autom 0 (ex_watched 0)" using ex_registered [OF d(3)] by (simp add: ex_watcher_def)
  from monitor_decides [OF d(2) this ex_watched_class(1) d(4-6)] d(1,6) show ?thesis by blast
qed

theorem default_monitor_stops_witness:
  "\<exists>n a autom lg r. ex_deployment = Inr (n, a, autom) \<and> dfa_run (au_graph a) 1 ex_word \<noteq> None
    \<and> monitor (ex_default autom) 0 (symbols a ex_word) (ex_watched 1) [] = Inr (lg, r)"
proof (rule ex_deployment_facts)
  fix n a autom lg st' ms'
  assume d: "ex_deployment = Inr (n, a, autom)" "deployed n a autom" "ta_lifetime autom = ex_lifetime" "init_state a = 1"
    "\<forall>l \<in> set ex_word. symbol_of a l \<noteq> None" "no_cleanup a ex_word" "dfa_run (au_graph a) 1 ex_word \<noteq> None"
  have "registered (ex_default autom) autom 0 (ex_watched 1)" using ex_registered [OF d(3)] by (simp add: ex_default_def)
  moreover have "1 < length (g_states (au_graph a))" using init_state_valid(1) [OF deployedD(1,3) [OF d(2)]] d(4) by simp
  ultimately have "\<exists>lg r. monitor (ex_default autom) 0 (symbols a ex_word) (ex_watched 1) [] = Inr (lg, r)"
    using default_monitor_stops [OF d(2) _ ex_watched_class(2) _ _ d(5,6), of "ex_default autom"] d(7)
    by (auto simp: ex_default_def)
  with d(1,7) show ?thesis by blast
qed

end
