(* ===== verification/Tesla_Module.thy ===== *)
theory Tesla_Module
  imports Tesla_Description
begin

text \<open>
  What the instrumentation passes share: functions of a module, the instrumentation context
  (\<open>InstrContext::Create\<close> and \<open>CreateInstrFn\<close> of \<open>InstrContext.cpp\<close>) and the calls that are put into
  the program.

  LLVM's \<open>getOrInsertFunction\<close> gives a declared function of the same name if its type is the same, a
  cast of it if the type differs, and a new function if the existing one is local to the module,
  which then gets another name.  The declarations of libtesla's functions that come with the first calls
  of them (\<open>InstrContext::UpdateStateFn\<close> and its like) are not listed among a module's functions.
\<close>

subsection \<open>Functions of a module\<close>

definition getFunction :: "modul \<Rightarrow> string \<Rightarrow> fn option" where
  "getFunction m name = find (\<lambda>f. fn_name f = name) (mo_fns m)"

definition put_fn :: "fn \<Rightarrow> modul \<Rightarrow> modul" where
  "put_fn f m = m\<lparr>mo_fns := map (\<lambda>g. if fn_name g = fn_name f then f else g) (mo_fns m)\<rparr>"

definition declare_fn :: "string \<Rightarrow> ty list \<Rightarrow> ty \<Rightarrow> bool \<Rightarrow> modul \<Rightarrow> modul" where
  "declare_fn name params ret vararg m =
     m\<lparr>mo_fns := mo_fns m @ [\<lparr>fn_name = name, fn_params = params, fn_ret = ret, fn_vararg = vararg,
        fn_linkage = External_l, fn_blocks = []\<rparr>]\<rparr>"

fun rename_inst :: "string \<Rightarrow> string \<Rightarrow> inst \<Rightarrow> inst" where
  "rename_inst old new (Call_i f vs) = Call_i (if f = old then new else f) vs"
| "rename_inst old new (Program_call n (Some f) t vs) = Program_call n (Some (if f = old then new else f)) t vs"
| "rename_inst old new i = i"

definition rename_fn :: "string \<Rightarrow> string \<Rightarrow> modul \<Rightarrow> modul" where
  "rename_fn old new m = m\<lparr>mo_fns := map (\<lambda>f. f\<lparr>fn_name := (if fn_name f = old then new else fn_name f),
     fn_blocks := map (\<lambda>(n, b). (n, b\<lparr>bb_insts := map (rename_inst old new) (bb_insts b)\<rparr>)) (fn_blocks f)\<rparr>) (mo_fns m)\<rparr>"

text \<open>\<open>None\<close>: a cast of the function and not the function.\<close>

definition getOrInsertFunction ::
  "string \<Rightarrow> ty list \<Rightarrow> ty \<Rightarrow> bool \<Rightarrow> modul \<Rightarrow> modul \<times> string option" where
  "getOrInsertFunction name params ret vararg m = (case getFunction m name of
     None \<Rightarrow> (declare_fn name params ret vararg m, Some name)
   | Some f \<Rightarrow>
       if fn_linkage f \<noteq> External_l then
         (declare_fn name params ret vararg (rename_fn name (unique_name (map fn_name (mo_fns m)) name) m), Some name)
       else if fn_params f = params \<and> fn_ret f = ret \<and> fn_vararg f = vararg then (m, Some name)
       else (m, None))"

subsection \<open>The instrumentation context\<close>

definition StructTy :: "string \<Rightarrow> ty list \<Rightarrow> modul \<Rightarrow> modul" where
  "StructTy name tys m =
     (if map_of (mo_structs m) name = None then m\<lparr>mo_structs := mo_structs m @ [(name, tys)]\<rparr> else m)"

text \<open>The two declarations are written with an overload that takes a flag for variable arguments, not a
  parameter type.\<close>

definition InstrContext_Create :: "bool \<Rightarrow> modul \<Rightarrow> modul" where
  "InstrContext_Create suppress m =
     (let lifetime = StructT ''tesla_lifetime''; event = StructT ''tesla_lifetime_event'';
          transition = StructT ''tesla_transition''; transitions = StructT ''tesla_transitions'';
          m1 = StructTy ''tesla_key'' (replicate TESLA_KEY_SIZE IntPtrT @ [Int32T, Int32T]) m;
          m2 = StructTy ''tesla_lifetime_event'' [CharPtrT, Int32T, Int32T] m1;
          m3 = StructTy ''tesla_lifetime'' [event, event, CharPtrT] m2;
          m4 = StructTy ''tesla_transition'' [Int32T, Int32T, Int32T, Int32T, Int32T] m3;
          m5 = StructTy ''tesla_transitions'' [Int32T, PtrT transition] m4;
          m6 = StructTy ''tesla_automaton''
                 [CharPtrT, Int32T, Int32T, PtrT transitions, CharPtrT, PtrT CharPtrT, PtrT lifetime] m5
      in if suppress then m6
         else fst (getOrInsertFunction ''printf'' [] Int32T True
                (fst (getOrInsertFunction ''tesla_debugging'' [] Int32T True m6))))"

definition INSTR_BASE :: string where
  "INSTR_BASE = ''__tesla_instrumentation_''"

text \<open>A translation function is known by its name and its last block.\<close>

type_synonym translation_fn = "string \<times> nat"

definition create_translation ::
  "bool \<Rightarrow> string \<Rightarrow> ty list \<Rightarrow> bool \<Rightarrow> string \<Rightarrow> linkage \<Rightarrow> modul \<Rightarrow> (modul \<times> translation_fn) res" where
  "create_translation suppress suffix params vararg prefix link m =
     (let name = INSTR_BASE @ suffix; (m1, r) = getOrInsertFunction name params VoidT vararg m in
      bindE (derefE ''InstrFn'' r) (\<lambda>_.
      bindE (derefE ''InstrFn'' (getFunction m1 name)) (\<lambda>f.
      bindE (TranslationFn_Create suppress prefix link f) (\<lambda>(f', e). Inr (put_fn f' m1, (name, e))))))"

definition CreateInstrFn_site :: "bool \<Rightarrow> automaton \<Rightarrow> val list \<Rightarrow> modul \<Rightarrow> (modul \<times> translation_fn) res" where
  "CreateInstrFn_site suppress a args m =
     create_translation suppress (''assertion_'' @ au_name a) (map type_of args) False
       (''[ASRT] automaton '' @ dec_nat (au_id a)) Internal_l m"

definition instr_suffix :: "function_event \<Rightarrow> string" where
  "instr_suffix ev = (if fn_context ev = Callee then ''callee_'' else ''caller_'')
     @ (if fn_direction ev = Entry then ''enter_'' else ''return_'') @ fe_function ev"

definition instr_prefix :: "function_event \<Rightarrow> string" where
  "instr_prefix ev = ''['' @ (if fn_direction ev = Entry then ''CAL'' else ''RET'')
     @ (if fn_context ev = Callee then ''E'' else ''R'') @ ''] '' @ fe_function ev"

definition instr_params :: "function_event \<Rightarrow> fn \<Rightarrow> ty list" where
  "instr_params ev target =
     fn_params target @ (if fn_direction ev = Exit \<and> fn_ret target \<noteq> VoidT then [fn_ret target] else [])"

definition CreateInstrFn :: "bool \<Rightarrow> function_event \<Rightarrow> fn \<Rightarrow> modul \<Rightarrow> (modul \<times> translation_fn) res" where
  "CreateInstrFn suppress ev target m =
     bindE (assertE ''implement Objective-C'' (fn_kind ev = CCall)) (\<lambda>_.
       create_translation suppress (instr_suffix ev) (instr_params ev target) (fn_vararg target) (instr_prefix ev)
         (if fn_context ev = Callee then External_l else Private_l) m)"

subsection \<open>Changing functions in place\<close>

text \<open>Adding a translator to a function of the module, and what it does there.\<close>

definition add_event :: "function_event \<Rightarrow> string \<Rightarrow> translation_fn \<Rightarrow> modul \<Rightarrow> (modul \<times> nat) res" where
  "add_event ev label t m =
     bindE (derefE ''InstrFn'' (getFunction m (fst t))) (\<lambda>f.
     bindE (AddInstrumentation_fn (mo_structs m) ev label (snd t) f) (\<lambda>(f', instr). Inr (put_fn f' m, instr)))"

definition in_fn :: "string \<Rightarrow> (fn \<Rightarrow> fn) \<Rightarrow> modul \<Rightarrow> modul" where
  "in_fn name h m = (case getFunction m name of None \<Rightarrow> m | Some f \<Rightarrow> put_fn (h f) m)"

text \<open>A call before the first instruction of the entry block that is not a \<open>phi\<close>.\<close>

definition is_phi :: "inst \<Rightarrow> bool" where
  "is_phi i = (case i of Phi_i _ \<Rightarrow> True | _ \<Rightarrow> False)"

definition hook_entry :: "string \<Rightarrow> fn \<Rightarrow> fn" where
  "hook_entry instr f = (case fn_blocks f of
     [] \<Rightarrow> f
   | (n, b) # bs \<Rightarrow>
       f\<lparr>fn_blocks := (n, b\<lparr>bb_insts := takeWhile is_phi (bb_insts b) @ Call_i instr (fn_args f) # dropWhile is_phi (bb_insts b)\<rparr>) # bs\<rparr>)"

text \<open>A call before every return, with the returned value.\<close>

definition hook_return :: "string \<Rightarrow> fn \<Rightarrow> block \<Rightarrow> block res" where
  "hook_return instr f b = (case bb_term b of
     Some (Ret v) \<Rightarrow>
       if fn_ret f = VoidT then Inr (b\<lparr>bb_insts := bb_insts b @ [Call_i instr (fn_args f)]\<rparr>)
       else bindE (derefE ''Return->getReturnValue()'' v) (\<lambda>x.
         Inr (b\<lparr>bb_insts := bb_insts b @ [Call_i instr (fn_args f @ [x])]\<rparr>))
   | _ \<Rightarrow> Inr b)"

fun hook_returns :: "string \<Rightarrow> fn \<Rightarrow> (nat \<times> block) list \<Rightarrow> (nat \<times> block) list res" where
  "hook_returns instr f [] = Inr []"
| "hook_returns instr f ((n, b) # bs) =
     bindE (hook_return instr f b) (\<lambda>b'. bindE (hook_returns instr f bs) (\<lambda>bs'. Inr ((n, b') # bs')))"

definition hook_exit :: "string \<Rightarrow> fn \<Rightarrow> fn res" where
  "hook_exit instr f = bindE (hook_returns instr f (fn_blocks f)) (\<lambda>bs. Inr (f\<lparr>fn_blocks := bs\<rparr>))"

end
