(* ===== verification/Tesla_Path.thy ===== *)
theory Tesla_Path
  imports Tesla_Accept
begin

text \<open>
  Paths through sets of transitions, and how they decompose when a set is put together from two
  parts: side by side, or one after the other.
\<close>

inductive epath :: "edge set \<Rightarrow> nat \<Rightarrow> trans_label list \<Rightarrow> nat \<Rightarrow> bool" for E where
  stop: "epath E s [] s"
| silent: "e \<in> E \<Longrightarrow> e_label e = Null_t \<Longrightarrow> epath E (e_to e) w s' \<Longrightarrow> epath E (e_from e) w s'"
| letter: "e \<in> E \<Longrightarrow> e_label e \<noteq> Null_t \<Longrightarrow> EquivalentTo (e_label e) l \<Longrightarrow> epath E (e_to e) w s'
    \<Longrightarrow> epath E (e_from e) (l # w) s'"

inductive_cases epath_ConsE: "epath E s (l # w) s'"

lemma nfa_path_epath:
  assumes "wf_graph g"
  shows "nfa_path g s w s' \<Longrightarrow> valid s g \<Longrightarrow> epath (set (g_edges g)) s w s'"
    and "epath (set (g_edges g)) s w s' \<Longrightarrow> nfa_path g s w s'"
proof -
  have out: "\<exists>e \<in> set (g_edges g). e = g_edges g ! t \<and> e_from e = s \<and> valid (e_to e) g"
    if "t \<in> set (outs g s)" "valid s g" for t s
    using wf_out [OF assms] wf_edge_at [OF assms] that by (auto simp: outs_def)
  show "epath (set (g_edges g)) s w s'" if "nfa_path g s w s'" "valid s g"
    using that
  proof (induction rule: nfa_path.induct)
    case (silent t s w s')
    from out [OF silent(1,5)] silent show ?case by (metis epath.silent)
  next
    case (letter t s l w s')
    from out [OF letter(1,6)] letter show ?case by (metis epath.letter)
  qed (rule epath.stop)
  have ids: "\<exists>t \<in> set (outs g (e_from e)). g_edges g ! t = e" if "e \<in> set (g_edges g)" for e
  proof -
    from that obtain t where t: "t < length (g_edges g)" "e = g_edges g ! t" by (auto simp: in_set_conv_nth)
    with assms wf_edge_at(1) [OF assms t(1)] show ?thesis by (auto simp: wf_graph_def outs_def owned_def)
  qed
  show "nfa_path g s w s'" if "epath (set (g_edges g)) s w s'"
    using that
  proof (induction rule: epath.induct)
    case (silent e w s')
    from ids [OF silent(1)] silent show ?case by (metis nfa_path.silent)
  next
    case (letter e l w s')
    from ids [OF letter(1)] letter show ?case by (metis nfa_path.letter)
  qed (rule nfa_path.stop)
qed

lemma epath_mono: "epath E s w s' \<Longrightarrow> E \<subseteq> F \<Longrightarrow> epath F s w s'"
  by (induction rule: epath.induct) (auto intro: epath.intros)

lemma epath_append: "epath E s u m \<Longrightarrow> epath E m v s' \<Longrightarrow> epath E s (u @ v) s'"
  by (induction rule: epath.induct) (auto intro: epath.intros)

abbreviation sources :: "edge set \<Rightarrow> nat set" where
  "sources E \<equiv> e_from ` E"

abbreviation dests :: "edge set \<Rightarrow> nat set" where
  "dests E \<equiv> e_to ` E"

lemma epath_dest: "epath E s w s' \<Longrightarrow> s' = s \<or> s' \<in> dests E"
  by (induction rule: epath.induct) auto

lemma epath_stuck: "s \<notin> sources E \<Longrightarrow> epath E s w t \<longleftrightarrow> w = [] \<and> t = s"
  by (auto intro: epath.stop elim: epath.cases)

lemma epath_single:
  assumes "e_from e \<noteq> e_to e"
  shows "{w. epath {e} (e_from e) w (e_to e)} = (if e_label e = Null_t then {[]} else {[l] |l. EquivalentTo (e_label e) l})"
proof -
  have "epath {e} (e_to e) w (e_to e) \<longleftrightarrow> w = []" for w using epath_stuck [of "e_to e" "{e}" w] assms by auto
  then show ?thesis using assms by (auto elim: epath.cases intro: epath.silent epath.letter)
qed

text \<open>A path that starts outside the sources of \<open>A\<close>, when \<open>B\<close> does not lead there either.\<close>

lemma epath_right:
  "epath (A \<union> B) s w s' \<Longrightarrow> s \<notin> sources A \<Longrightarrow> dests B \<inter> sources A = {} \<Longrightarrow> epath B s w s'"
proof (induction rule: epath.induct)
  case (silent e w s')
  then have "e \<in> B" "e_to e \<notin> sources A" by auto
  with silent show ?case by (auto intro: epath.silent)
next
  case (letter e l w s')
  then have "e \<in> B" "e_to e \<notin> sources A" by auto
  with letter show ?case by (auto intro: epath.letter)
qed (rule epath.stop)

lemma epath_after:
  assumes "epath (A \<union> B) (e_to e) w t" and "e \<in> B" and "dests B \<inter> sources A = {}"
  shows "epath B (e_to e) w t"
  by (rule epath_right [OF assms(1) _ assms(3)]) (use assms(2,3) in auto)

text \<open>One after the other: a path stays in \<open>A\<close>, or it goes to \<open>m\<close> in \<open>A\<close> and on in \<open>B\<close>.\<close>

lemma epath_seq:
  assumes "dests A \<inter> sources B \<subseteq> {m}" and "dests B \<inter> sources A = {}"
  shows "epath (A \<union> B) s w t \<Longrightarrow> s \<in> sources B \<longrightarrow> s = m
    \<Longrightarrow> epath A s w t \<or> (\<exists>u v. w = u @ v \<and> epath A s u m \<and> epath B m v t)"
proof (induction rule: epath.induct)
  case (stop s)
  then show ?case by (auto intro: epath.stop)
next
  case (silent e w t)
  show ?case
  proof (cases "e \<in> A")
    case True
    then have "e_to e \<in> sources B \<longrightarrow> e_to e = m" using assms(1) by auto
    with silent.IH have "epath A (e_to e) w t \<or> (\<exists>u v. w = u @ v \<and> epath A (e_to e) u m \<and> epath B m v t)" by blast
    then show ?thesis using epath.silent [OF True silent(2)] by blast
  next
    case False
    with silent have "e \<in> B" "e_from e = m" by auto
    moreover have "epath B (e_to e) w t" by (rule epath_after [OF silent(3) \<open>e \<in> B\<close> assms(2)])
    ultimately have "epath B m w t" using epath.silent [of e B] silent(2) by auto
    then show ?thesis using \<open>e_from e = m\<close> epath.stop [of A m] by force
  qed
next
  case (letter e l w t)
  show ?case
  proof (cases "e \<in> A")
    case True
    then have "e_to e \<in> sources B \<longrightarrow> e_to e = m" using assms(1) by auto
    with letter.IH have "epath A (e_to e) w t \<or> (\<exists>u v. w = u @ v \<and> epath A (e_to e) u m \<and> epath B m v t)" by blast
    then show ?thesis using epath.letter [OF True letter(2,3)] by (metis append_Cons)
  next
    case False
    with letter have "e \<in> B" "e_from e = m" by auto
    moreover have "epath B (e_to e) w t" by (rule epath_after [OF letter(4) \<open>e \<in> B\<close> assms(2)])
    ultimately have "epath B m (l # w) t" using epath.letter [of e B] letter(2,3) by auto
    then show ?thesis using \<open>e_from e = m\<close> epath.stop [of A m] by force
  qed
qed

definition conc :: "'a list set \<Rightarrow> 'a list set \<Rightarrow> 'a list set" where
  "conc A B = {u @ v |u v. u \<in> A \<and> v \<in> B}"

lemma conc_one [simp]: "conc {[]} A = A" "conc A {[]} = A"
  by (auto simp: conc_def)

lemma epath_conc:
  assumes "dests A \<inter> sources B \<subseteq> {m}" and "dests B \<inter> sources A = {}" and "s \<in> sources B \<longrightarrow> s = m"
    and "t = m \<or> t \<notin> insert s (dests A)"
  shows "{w. epath (A \<union> B) s w t} = conc {u. epath A s u m} {v. epath B m v t}"
proof (intro set_eqI iffI)
  fix w
  assume "w \<in> {w. epath (A \<union> B) s w t}"
  then have "epath A s w t \<or> (\<exists>u v. w = u @ v \<and> epath A s u m \<and> epath B m v t)"
    using epath_seq [OF assms(1,2) _ assms(3)] by simp
  moreover have "epath A s w t \<Longrightarrow> t = m" using epath_dest [of A s w t] assms(4) by auto
  ultimately show "w \<in> conc {u. epath A s u m} {v. epath B m v t}"
    unfolding conc_def using epath.stop [of B m] by force
next
  fix w
  assume "w \<in> conc {u. epath A s u m} {v. epath B m v t}"
  then show "w \<in> {w. epath (A \<union> B) s w t}"
    by (auto simp: conc_def intro: epath_append epath_mono)
qed

text \<open>Side by side.\<close>

lemma epath_union:
  assumes "dests A \<inter> sources B = {}" and "dests B \<inter> sources A = {}"
  shows "{w. epath (A \<union> B) s w t} = {w. epath A s w t} \<union> {w. epath B s w t}"
proof -
  have "epath A s w t \<or> epath B s w t" if "epath (A \<union> B) s w t" for w
    using that
  proof (cases rule: epath.cases)
    case (silent e)
    have "epath A (e_to e) w t" if "e \<in> A" using epath_after [of B A e w t] silent(4) that assms(1) by (simp add: Un_commute)
    moreover have "epath B (e_to e) w t" if "e \<in> B" by (rule epath_after [OF silent(4) that assms(2)])
    ultimately show ?thesis using silent epath.silent by blast
  next
    case (letter e l v)
    have "epath A (e_to e) v t" if "e \<in> A" using epath_after [of B A e v t] letter(6) that assms(1) by (simp add: Un_commute)
    moreover have "epath B (e_to e) v t" if "e \<in> B" by (rule epath_after [OF letter(6) that assms(2)])
    ultimately show ?thesis using letter epath.letter by blast
  qed (auto intro: epath.stop)
  then show ?thesis by (auto intro: epath_mono)
qed

subsection \<open>Cycles\<close>

definition steps :: "edge set \<Rightarrow> (nat \<times> nat) set" where
  "steps E = (\<lambda>e. (e_from e, e_to e)) ` E"

lemma acyclic_steps_Un:
  assumes "acyclic (steps A)" and "acyclic (steps B)" and "dests B \<inter> sources A = {}"
  shows "acyclic (steps (A \<union> B))"
proof -
  let ?A = "steps A" and ?B = "steps B"
  have split: "(x, y) \<in> ?A\<^sup>+ \<or> y \<notin> sources A \<and> (\<exists>z. (x, z) \<in> ?A\<^sup>* \<and> (z, y) \<in> ?B\<^sup>+)"
    if "(x, y) \<in> (?A \<union> ?B)\<^sup>+" for x y
    using that
  proof (induction rule: trancl_induct)
    case (base y)
    then show ?case using assms(3) by (auto simp: steps_def)
  next
    case (step y z)
    show ?case
    proof (cases "(y, z) \<in> ?A")
      case True
      then have "y \<in> sources A" by (auto simp: steps_def)
      with step True show ?thesis by (auto intro: trancl_into_trancl)
    next
      case False
      with step(2) have B: "(y, z) \<in> ?B" and "z \<notin> sources A" using assms(3) by (auto simp: steps_def)
      with step.IH show ?thesis by (blast intro: trancl_into_rtrancl trancl_into_trancl)
    qed
  qed
  have "False" if x: "(x, x) \<in> (?A \<union> ?B)\<^sup>+" for x
    using split [OF x]
  proof
    assume "x \<notin> sources A \<and> (\<exists>z. (x, z) \<in> ?A\<^sup>* \<and> (z, x) \<in> ?B\<^sup>+)"
    then obtain z where z: "(x, z) \<in> ?A\<^sup>*" "(z, x) \<in> ?B\<^sup>+" and "x \<notin> sources A" by blast
    then have "z = x" by (auto simp: steps_def elim: converse_rtranclE)
    with z(2) assms(2) show False by (simp add: acyclic_def)
  qed (use assms(1) in \<open>simp add: acyclic_def\<close>)
  then show ?thesis by (auto simp: acyclic_def steps_def image_Un)
qed

lemma acyclic_steps_single: "e_from e \<noteq> e_to e \<Longrightarrow> acyclic (steps {e})"
  by (auto simp: acyclic_def steps_def trancl_insert)

lemma acyclic_steps_empty [simp]: "acyclic (steps {})"
  by (simp add: acyclic_def steps_def)

lemma acyclic_steps_subset: "acyclic (steps F) \<Longrightarrow> E \<subseteq> F \<Longrightarrow> acyclic (steps E)"
  unfolding steps_def by (rule acyclic_subset) auto

text \<open>Where the epsilon transitions are acyclic, closures have no cycle.\<close>

lemma acyclic_no_cycle:
  assumes "wf_graph g" and "acyclic (steps {e \<in> set (g_edges g). e_label e = Null_t})" and "valid s g"
  shows "no_cycle g s"
proof -
  let ?R = "steps {e \<in> set (g_edges g). e_label e = Null_t}"
  have edge: "(x, y) \<in> ?R" if "eps g x y" "valid x g" for x y
  proof -
    from that obtain t where t: "t \<in> set (outs g x)" "e_label (g_edges g ! t) = Null_t" "e_to (g_edges g ! t) = y"
      by (auto simp: eps_def)
    with wf_out [OF assms(1) _ that(2)] show ?thesis by (force simp: steps_def outs_def)
  qed
  have "(x, y) \<in> ?R\<^sup>+ \<and> valid y g" if "(eps g)\<^sup>+\<^sup>+ x y" "valid x g" for x y
    using that
  proof (induction rule: tranclp_induct)
    case (base y)
    then show ?case using edge eps_valid [OF assms(1)] by blast
  next
    case (step y z)
    then show ?case using edge eps_valid [OF assms(1)] by (blast intro: trancl_into_trancl)
  qed
  then show ?thesis using assms(2) cl_valid [OF assms(1,3)] by (fastforce simp: no_cycle_def acyclic_def)
qed

end
