(* ===== verification/Tesla_Language.thy ===== *)
theory Tesla_Language
  imports Tesla_Path
begin

text \<open>
  What the parser promises: the part of the automaton it builds for an expression reads exactly the
  sequences of events the expression describes.  The sequences an expression describes are given
  by \<open>lang\<close>, without automata.  The promise is kept for expressions without unbounded repetition,
  inclusive or and conjunction (\<open>plain\<close>); with unbounded repetition it is not (\<open>repetition_reenters\<close>),
  and with conjunction neither (\<open>conjunction_lost\<close>).
\<close>

subsection \<open>The language of an expression\<close>

text \<open>How often a sequence may be repeated: from its minimum up to its maximum, or to the minimum if
  that is larger.\<close>

definition rep_counts :: "int \<Rightarrow> int \<Rightarrow> nat set" where
  "rep_counts mn mx = {i. i < nat (max mn mx) \<and> mn \<le> int i} \<union> {nat (max mn mx)}"

primrec power_lang :: "'a list set \<Rightarrow> nat \<Rightarrow> 'a list set" where
  "power_lang A 0 = {[]}"
| "power_lang A (Suc n) = conc A (power_lang A n)"

definition event_lang :: "trans_label \<Rightarrow> trans_label list set" where
  "event_lang l = {[l'] |l'. EquivalentTo l l'}"

definition interleave :: "'a list set \<Rightarrow> 'a list set \<Rightarrow> 'a list set" where
  "interleave A B = (\<Union>u \<in> A. \<Union>v \<in> B. shuffles u v)"

text \<open>An exclusive or describes the sequences of either side, a conjunction those in which both sides
  happen, in any order, and an inclusive or both kinds, unless it is to be treated as an exclusive one.\<close>

function lang :: "nat \<Rightarrow> parser_env \<Rightarrow> expression \<Rightarrow> trans_label list set" where
  "lang d env (Boolean_expr operation es) =
     (if operation = BE_And then {} else \<Union>e \<in> set es. lang d env e)
     \<union> (if operation = BE_And \<or> operation = BE_Or \<and> \<not> pe_xor_only env
        then foldr interleave (map (lang d env) es) {[]} else {})"
| "lang d env (Sequence_expr es mn mx) =
     (\<Union>n \<in> rep_counts (getD 1 mn) (getD 1 mx). power_lang (foldr conc (map (lang d env) es) {[]}) n)"
| "lang d env Null_expr = {[]}"
| "lang d env (Assertion_site site) = event_lang (Assert_t site [])"
| "lang d env (Function_expr ev) = event_lang (Fn_t ev)"
| "lang d env (Field_assign_expr a) = event_lang (Field_t a)"
| "lang d env (Sub_automaton_expr i) =
     (if pe_sub_allowed env then event_lang (Sub_t i)
      else case Option.bind (pe_descriptions env) (\<lambda>ds. find_description ds i) of
        None \<Rightarrow> {}
      | Some a \<Rightarrow> (case d of 0 \<Rightarrow> {} | Suc n \<Rightarrow> lang n env (ad_expression a)))"
  by pat_completeness auto
termination
  by (relation "inv_image (less_than <*lex*> less_than) (\<lambda>(d, _, e). (d, size e))")
    (auto simp: less_Suc_eq_le intro: size_list_estimation')

declare lang.simps [simp del]

text \<open>Expressions without unbounded repetition, conjunction, and inclusive or that is treated as such;
  a repetition asks for at most one repetition more than it allows.\<close>

primrec plain :: "bool \<Rightarrow> expression \<Rightarrow> bool" where
  "plain x (Boolean_expr operation es) \<longleftrightarrow>
     operation \<noteq> BE_And \<and> (operation = BE_Or \<longrightarrow> x) \<and> list_all (plain x) es"
| "plain x (Sequence_expr es mn mx) \<longleftrightarrow>
     getD 1 mx \<noteq> INFINITE_REPETITIONS \<and> getD 1 mn \<le> getD 1 mx + 1 \<and> list_all (plain x) es"
| "plain x Null_expr \<longleftrightarrow> True"
| "plain x (Assertion_site site) \<longleftrightarrow> True"
| "plain x (Function_expr ev) \<longleftrightarrow> True"
| "plain x (Field_assign_expr a) \<longleftrightarrow> True"
| "plain x (Sub_automaton_expr i) \<longleftrightarrow> True"

definition plain_env :: "parser_env \<Rightarrow> bool" where
  "plain_env env \<longleftrightarrow> (case pe_descriptions env of
     None \<Rightarrow> True
   | Some ds \<Rightarrow> list_all (\<lambda>(i, a). plain (pe_xor_only env) (ad_expression a)) ds)"

lemma find_description_in: "find_description ds i = Some a \<Longrightarrow> \<exists>k. (k, a) \<in> set ds"
  by (auto simp: find_description_def find_Some_iff) (metis nth_mem)

subsection \<open>Fragments\<close>

definition new_edges :: "graph \<Rightarrow> graph \<Rightarrow> edge set" where
  "new_edges g g' = set (drop (length (g_edges g)) (g_edges g'))"

abbreviation fresh :: "graph \<Rightarrow> graph \<Rightarrow> nat set" where
  "fresh g g' \<equiv> {length (g_states g)..<length (g_states g')}"

text \<open>What is added for an expression leaves from the start \<open>s\<close> or a new state and leads to a new
  state; it has no cycles, and its paths from \<open>s\<close> to the result read \<open>L\<close>.\<close>

definition frag :: "graph \<Rightarrow> nat \<Rightarrow> graph \<times> nat \<Rightarrow> trans_label list set \<Rightarrow> bool" where
  "frag g s r L \<longleftrightarrow> (case r of (g', f) \<Rightarrow>
     sources (new_edges g g') \<subseteq> insert s (fresh g g') \<and> dests (new_edges g g') \<subseteq> fresh g g'
     \<and> f \<in> insert s (fresh g g') \<and> {w. epath (new_edges g g') s w f} = L \<and> acyclic (steps (new_edges g g')))"

lemma new_edges_trans:
  assumes "extends g g1" and "extends g1 g2"
  shows "new_edges g g2 = new_edges g g1 \<union> new_edges g1 g2"
  using assms by (auto simp: extends_def new_edges_def)

lemma new_edges_refl [simp]: "new_edges g g = {}"
  by (simp add: new_edges_def)

definition null_edge :: "nat \<Rightarrow> nat \<Rightarrow> edge" where
  "null_edge s f = \<lparr>e_label = Null_t, e_from = s, e_to = f, e_init = False, e_cleanup = False, e_oos = False\<rparr>"

lemma null_edge_simps [simp]: "e_label (null_edge s f) = Null_t" "e_from (null_edge s f) = s" "e_to (null_edge s f) = f"
  by (simp_all add: null_edge_def)

lemma Create_null_new:
  assumes "Create_null s f g = Inr g'"
  shows "new_edges g g' = {null_edge s f}" and "length (g_states g') = length (g_states g)"
  using assms new_edge_frame(1,2) [of Null_t s f False False False g g']
  by (simp_all add: Create_null_def new_edges_def null_edge_def)

lemma new_state_new:
  assumes "new_state g = (g', s)"
  shows "new_edges g g' = {}" and "s = length (g_states g)" and "length (g_states g') = Suc (length (g_states g))"
  using build_state_simps [of "[]" False False None g g' s] assms by (simp_all add: new_state_def new_edges_def)

lemma epath_null: "s \<noteq> f \<Longrightarrow> {w. epath {null_edge s f} s w f} = {[]}"
  using epath_single [of "null_edge s f"] by simp

subsection \<open>Putting fragments together\<close>

text \<open>An event: a new state and a transition to it.\<close>

lemma frag_event:
  assumes "build_state nm st ac rc g = (g1, f)" and "new_edge l s f i c x g1 = Inr g2" and "l \<noteq> Null_t" and "valid s g"
  shows "frag g s (g2, f) (event_lang l)"
proof -
  note b = build_state_simps(1-3) [OF assms(1)] and e = new_edge_frame(1,2) [OF assms(2)]
  let ?e = "\<lparr>e_label = l, e_from = s, e_to = f, e_init = i, e_cleanup = c, e_oos = x\<rparr>"
  have "new_edges g g2 = {?e}" using e(1) b(2) by (simp add: new_edges_def)
  moreover have "{w. epath {?e} s w f} = event_lang l"
    using epath_single [of ?e] assms(3,4) b(1) by (simp add: event_lang_def)
  ultimately show ?thesis
    using b e(2) assms(4) acyclic_steps_single [of ?e] by (simp add: frag_def)
qed

lemma frag_null: "frag g s (g, s) {[]}"
  by (auto simp: frag_def epath_stuck)

text \<open>One expression after another.\<close>

lemma within_seq:
  assumes "S1 \<subseteq> insert s F1" "T1 \<subseteq> F1" "m \<in> insert s F1" "S2 \<subseteq> insert m F2" "T2 \<subseteq> F2" "f \<in> insert m F2"
    and "F1 \<subseteq> F" "F2 \<subseteq> F"
  shows "S1 \<union> S2 \<subseteq> insert s F" and "T1 \<union> T2 \<subseteq> F" and "f \<in> insert s F"
  using assms by blast+

lemma frag_seq:
  assumes "frag g s (g1, m) L1" and "frag g1 m (g2, f) L2" and "extends g g1" and "extends g1 g2" and "valid s g"
  shows "frag g s (g2, f) (conc L1 L2)"
proof -
  let ?A = "new_edges g g1" and ?B = "new_edges g1 g2"
  have len: "length (g_states g) \<le> length (g_states g1)" "length (g_states g1) \<le> length (g_states g2)"
    using assms(3,4) by (simp_all add: extends_def)
  have A: "sources ?A \<subseteq> insert s (fresh g g1)" "dests ?A \<subseteq> fresh g g1" "m \<in> insert s (fresh g g1)"
    "{w. epath ?A s w m} = L1" "acyclic (steps ?A)" using assms(1) by (simp_all add: frag_def)
  have B: "sources ?B \<subseteq> insert m (fresh g1 g2)" "dests ?B \<subseteq> fresh g1 g2" "f \<in> insert m (fresh g1 g2)"
    "{w. epath ?B m w f} = L2" "acyclic (steps ?B)" using assms(2) by (simp_all add: frag_def)
  have 1: "dests ?A \<inter> sources ?B \<subseteq> {m}" using A(2) B(1) by force
  have 2: "dests ?B \<inter> sources ?A = {}" using A(1) B(2) assms(5) len by force
  have 3: "s \<in> sources ?B \<longrightarrow> s = m" using B(1) assms(5) len by force
  have 4: "f = m \<or> f \<notin> insert s (dests ?A)" using B(3) A(2) assms(5) len by force
  have "{w. epath (?A \<union> ?B) s w f} = conc L1 L2" using epath_conc [OF 1 2 3 4] A(4) B(4) by simp
  moreover have "acyclic (steps (?A \<union> ?B))" by (rule acyclic_steps_Un [OF A(5) B(5) 2])
  moreover have sub: "fresh g g1 \<subseteq> fresh g g2" "fresh g1 g2 \<subseteq> fresh g g2" using len by auto
  have "sources (?A \<union> ?B) \<subseteq> insert s (fresh g g2)" "dests (?A \<union> ?B) \<subseteq> fresh g g2" "f \<in> insert s (fresh g g2)"
    unfolding image_Un using within_seq [OF A(1-3) B(1-3) sub] by blast+
  ultimately show ?thesis by (simp add: frag_def new_edges_trans [OF assms(3,4)])
qed

text \<open>A choice: two expressions between a branch and a join.  Only the way from the branch through
  one of them to the join is described first.\<close>

lemma branch_paths:
  assumes frag: "frag g s (g1, m) L" and s: "valid s g" and b: "b \<noteq> s" "b \<notin> fresh g g1"
    and j: "j \<noteq> s" "j \<notin> fresh g g1" "j \<noteq> b"
  defines "E \<equiv> {null_edge b s} \<union> (new_edges g g1 \<union> {null_edge m j})"
  shows "{w. epath E b w j} = L" and "acyclic (steps E)"
    and "sources E \<subseteq> insert b (insert s (fresh g g1))" and "dests E \<subseteq> insert s (insert j (fresh g g1))"
proof -
  let ?A = "new_edges g g1"
  have A: "sources ?A \<subseteq> insert s (fresh g g1)" "dests ?A \<subseteq> fresh g g1" "m \<in> insert s (fresh g g1)"
    "{w. epath ?A s w m} = L" "acyclic (steps ?A)" using frag by (simp_all add: frag_def)
  have mj: "m \<noteq> j" using A(3) j by auto
  have 1: "dests ?A \<inter> sources {null_edge m j} \<subseteq> {m}" "dests {null_edge m j} \<inter> sources ?A = {}"
    "s \<in> sources {null_edge m j} \<longrightarrow> s = m" "j = m \<or> j \<notin> insert s (dests ?A)"
    using A(1,2) j by auto
  have B: "{w. epath (?A \<union> {null_edge m j}) s w j} = L"
    using epath_conc [OF 1] A(4) epath_null [OF mj] by simp
  have acB: "acyclic (steps (?A \<union> {null_edge m j}))"
    by (rule acyclic_steps_Un [OF A(5) acyclic_steps_single 1(2)]) (simp add: mj)
  have src: "sources (?A \<union> {null_edge m j}) \<subseteq> insert s (fresh g g1)" using A(1,3) by auto
  have dst: "dests (?A \<union> {null_edge m j}) \<subseteq> insert j (fresh g g1)" using A(2) by auto
  have 2: "dests {null_edge b s} \<inter> sources (?A \<union> {null_edge m j}) \<subseteq> {s}"
    "dests (?A \<union> {null_edge m j}) \<inter> sources {null_edge b s} = {}"
    "b \<in> sources (?A \<union> {null_edge m j}) \<longrightarrow> b = s" "j = s \<or> j \<notin> insert b (dests {null_edge b s})"
    using src dst b j by auto
  show "{w. epath E b w j} = L" unfolding E_def using epath_conc [OF 2] B epath_null [OF b(1)] by simp
  show "acyclic (steps E)" unfolding E_def
    by (rule acyclic_steps_Un [OF acyclic_steps_single acB 2(2)]) (simp add: b)
  show "sources E \<subseteq> insert b (insert s (fresh g g1))" "dests E \<subseteq> insert s (insert j (fresh g g1))"
    unfolding E_def image_Un using src dst by (auto simp: image_Un)
qed

lemma within_Un: "f ` A \<subseteq> X \<Longrightarrow> X \<subseteq> F \<Longrightarrow> f ` B \<subseteq> Y \<Longrightarrow> Y \<subseteq> F \<Longrightarrow> f ` (A \<union> B) \<subseteq> F"
  by blast

lemma disjoint_mono: "A \<subseteq> C \<Longrightarrow> B \<subseteq> D \<Longrightarrow> C \<inter> D = {} \<Longrightarrow> A \<inter> B = {}"
  by blast

lemma frag_choice:
  assumes ls: "frag g2 ls (g3, lf) L1" and rs: "frag g3 rs (g4, rf) L2"
    and st: "new_state g = (g1, ls)" "new_state g1 = (g2, rs)" "new_state g6 = (g7, join)"
      "Create_null b ls g4 = Inr g5" "Create_null b rs g5 = Inr g6" "Create_null lf join g7 = Inr g8"
      "Create_null rf join g8 = Inr g9"
    and ext: "extends g g1" "extends g1 g2" "extends g2 g3" "extends g3 g4" "extends g4 g5" "extends g5 g6"
      "extends g6 g7" "extends g7 g8" "extends g8 g9"
    and b: "valid b g"
  shows "frag g b (g9, join) (L1 \<union> L2)"
proof -
  let ?n = "\<lambda>g. length (g_states g)"
  note s = new_state_new [OF st(1)] new_state_new [OF st(2)] new_state_new [OF st(3)]
  note c = Create_null_new [OF st(4)] Create_null_new [OF st(5)] Create_null_new [OF st(6)] Create_null_new [OF st(7)]
  have len: "?n g2 \<le> ?n g3" "?n g3 \<le> ?n g4" using ext(3,4) by (simp_all add: extends_def)
  have n: "ls = ?n g" "rs = Suc (?n g)" "?n g2 = Suc (Suc (?n g))" "join = ?n g4" "?n g9 = Suc (?n g4)"
    using s c by simp_all
  let ?A = "{null_edge b ls} \<union> (new_edges g2 g3 \<union> {null_edge lf join})"
  let ?B = "{null_edge b rs} \<union> (new_edges g3 g4 \<union> {null_edge rf join})"
  have x: "extends g7 g9" using ext(8,9) extends_trans by blast
  have x6: "extends g6 g9" by (rule extends_trans [OF ext(7) x])
  have x5: "extends g5 g9" by (rule extends_trans [OF ext(6) x6])
  have x4: "extends g4 g9" by (rule extends_trans [OF ext(5) x5])
  have x3: "extends g3 g9" by (rule extends_trans [OF ext(4) x4])
  have x2: "extends g2 g9" by (rule extends_trans [OF ext(3) x3])
  have x1: "extends g1 g9" by (rule extends_trans [OF ext(2) x2])
  have "new_edges g g9 = new_edges g2 g3 \<union> (new_edges g3 g4 \<union> ({null_edge b ls} \<union> ({null_edge b rs}
      \<union> ({null_edge lf join} \<union> {null_edge rf join}))))"
    by (simp add: new_edges_trans [OF ext(1) x1] new_edges_trans [OF ext(2) x2] new_edges_trans [OF ext(3) x3]
        new_edges_trans [OF ext(4) x4] new_edges_trans [OF ext(5) x5] new_edges_trans [OF ext(6) x6]
        new_edges_trans [OF ext(7) x] new_edges_trans [OF ext(8,9)] s c)
  then have edges: "new_edges g g9 = ?A \<union> ?B" by blast
  have va: "valid ls g2" "valid rs g3" using n len by simp_all
  have A: "{w. epath ?A b w join} = L1" "acyclic (steps ?A)" "sources ?A \<subseteq> insert b (insert ls (fresh g2 g3))"
    "dests ?A \<subseteq> insert ls (insert join (fresh g2 g3))"
    by (rule branch_paths [OF ls va(1)]; use n len b in simp)+
  have B: "{w. epath ?B b w join} = L2" "acyclic (steps ?B)" "sources ?B \<subseteq> insert b (insert rs (fresh g3 g4))"
    "dests ?B \<subseteq> insert rs (insert join (fresh g3 g4))"
    by (rule branch_paths [OF rs va(2)]; use n len b in simp)+
  have 1: "dests ?A \<inter> sources ?B = {}" using disjoint_mono [OF A(4) B(3)] n len b by auto
  have 2: "dests ?B \<inter> sources ?A = {}" using disjoint_mono [OF B(4) A(3)] n len b by auto
  have "{w. epath (?A \<union> ?B) b w join} = L1 \<union> L2" using epath_union [OF 1 2] A(1) B(1) by simp
  moreover have "acyclic (steps (?A \<union> ?B))" by (rule acyclic_steps_Un [OF A(2) B(2) 2])
  moreover have "sources (?A \<union> ?B) \<subseteq> insert b (fresh g g9)"
    by (rule within_Un [OF A(3) _ B(3)]) (use n len in auto)
  moreover have "dests (?A \<union> ?B) \<subseteq> fresh g g9"
    by (rule within_Un [OF A(4) _ B(4)]) (use n len in auto)
  ultimately show ?thesis unfolding frag_def prod.case edges using n len by auto
qed

subsection \<open>Repetition\<close>

text \<open>The repetitions with the numbers \<open>is\<close>, of which each may be the last one if it is large enough.\<close>

primrec reps_lang :: "trans_label list set \<Rightarrow> int \<Rightarrow> nat list \<Rightarrow> trans_label list set" where
  "reps_lang L mn [] = {[]}"
| "reps_lang L mn (i # is) = (if mn \<le> int i then {[]} else {}) \<union> conc L (reps_lang L mn is)"

lemma conc_UN: "conc A (\<Union>i \<in> I. B i) = (\<Union>i \<in> I. conc A (B i))"
  by (auto simp: conc_def)

lemma reps_lang_upt:
  "a \<le> b \<Longrightarrow> reps_lang L mn [a..<b] = (\<Union>n \<in> {i. a \<le> i \<and> i < b \<and> mn \<le> int i} \<union> {b}. power_lang L (n - a))"
proof (induction "b - a" arbitrary: a)
  case (Suc x)
  then have ab: "a < b" by simp
  let ?I = "{i. Suc a \<le> i \<and> i < b \<and> mn \<le> int i} \<union> {b}"
  from Suc(1) [of "Suc a"] Suc(2) ab
  have "reps_lang L mn [Suc a..<b] = (\<Union>n \<in> ?I. power_lang L (n - Suc a))" by simp
  then have "conc L (reps_lang L mn [Suc a..<b]) = (\<Union>n \<in> ?I. conc L (power_lang L (n - Suc a)))"
    by (simp only: conc_UN)
  also have "\<dots> = (\<Union>n \<in> ?I. power_lang L (n - a))"
  proof (rule SUP_cong [OF refl])
    fix n assume "n \<in> ?I"
    then have "n - a = Suc (n - Suc a)" using ab by auto
    then show "conc L (power_lang L (n - Suc a)) = power_lang L (n - a)" by simp
  qed
  finally have c: "conc L (reps_lang L mn [Suc a..<b]) = (\<Union>n \<in> ?I. power_lang L (n - a))" .
  have I: "{i. a \<le> i \<and> i < b \<and> mn \<le> int i} \<union> {b} = (if mn \<le> int a then {a} else {}) \<union> ?I"
    using ab by (auto simp: le_less Suc_le_eq)
  show ?case unfolding I using c ab by (simp add: upt_conv_Cons)
qed simp

text \<open>The loop, together with the transition to the end that follows it.\<close>

lemma reps_frag:
  assumes seq: "\<And>s g r. wf_graph g \<Longrightarrow> valid s g \<Longrightarrow> parse_seq d env es s g = Inr r \<Longrightarrow> frag g s r L \<and> parsed g r"
    and inf: "getD 1 mx \<noteq> INFINITE_REPETITIONS" "\<forall>i \<in> set is. int i \<le> getD 1 mx"
  shows "parse_reps d env es mn mx is s f g = Inr (g', c) \<Longrightarrow> wf_graph g \<Longrightarrow> valid s g \<Longrightarrow> valid f g \<Longrightarrow> s \<noteq> f \<Longrightarrow>
    (let E = new_edges g g' \<union> {null_edge c f} in
      {w. epath E s w f} = reps_lang L mn is \<and> acyclic (steps E)
      \<and> sources E \<subseteq> insert s (fresh g g') \<and> dests E \<subseteq> insert f (fresh g g')) \<and> c \<in> insert s (fresh g g') \<and> extends g g'"
  using inf(2)
proof (induction "is" arbitrary: s g)
  case Nil
  then have "g' = g" "c = s" by (simp_all add: parse_simps)
  then show ?case using Nil by (simp add: epath_null acyclic_steps_single extends_refl)
next
  case (Cons i "is")
  have nb: "\<not> (getD 1 mx = INFINITE_REPETITIONS \<or> max_reps mx < int i)"
    using inf(1) Cons.prems(6) by (simp add: max_reps_def)
  with Cons.prems(1) obtain g1 g2 m where
    a: "(if mn \<le> int i then Create_null s f g else Inr g) = Inr g1" and
    b: "parse_seq d env es s g1 = Inr (g2, m)" and
    x: "parse_reps d env es mn mx is m f g2 = Inr (g', c)"
    by (auto simp: parse_simps E_eq_Inr split: prod.splits)
  let ?X = "if mn \<le> int i then {null_edge s f} else {}"
  let ?A = "new_edges g1 g2" and ?B = "new_edges g2 g' \<union> {null_edge c f}"
  have 1: "extends g g1" "length (g_states g1) = length (g_states g)" "new_edges g g1 = ?X"
    using a Cons.prems(2-4) Create_null_new by (auto split: if_splits intro: null_step extends_refl)
  have 2: "frag g1 s (g2, m) L" "extends g1 g2" "valid m g2"
    using seq [OF _ _ b] 1 Cons.prems(3) by (simp_all add: extends_def parsed_def)
  then have A: "sources ?A \<subseteq> insert s (fresh g g2)" "dests ?A \<subseteq> fresh g g2" "m \<in> insert s (fresh g g2)"
    "{w. epath ?A s w m} = L" "acyclic (steps ?A)" using 1(2) by (simp_all add: frag_def)
  have len: "length (g_states g) \<le> length (g_states g2)" using 1(2) 2(2) by (simp add: extends_def)
  have mf: "m \<noteq> f" using A(3) Cons.prems(4,5) by auto
  have 3: "{w. epath ?B m w f} = reps_lang L mn is" "acyclic (steps ?B)" "sources ?B \<subseteq> insert m (fresh g2 g')"
    "dests ?B \<subseteq> insert f (fresh g2 g')" "c \<in> insert m (fresh g2 g')" "extends g2 g'"
    using Cons.IH [OF x] 2(2,3) mf Cons.prems(4,6) len by (simp_all add: Let_def extends_def)
  have len2: "length (g_states g2) \<le> length (g_states g')" using 3(6) by (simp add: extends_def)
  have AB: "dests ?A \<inter> sources ?B \<subseteq> {m}" using A(2) 3(3) by force
  have BA: "dests ?B \<inter> sources ?A = {}" using disjoint_mono [OF 3(4) A(1)] Cons.prems(3-5) len by auto
  have sB: "s \<in> sources ?B \<longrightarrow> s = m" using 3(3) Cons.prems(3) len by auto
  have fA: "f = m \<or> f \<notin> insert s (dests ?A)" using A(2) Cons.prems(4,5) by auto
  have AB': "{w. epath (?A \<union> ?B) s w f} = conc L (reps_lang L mn is)"
    using epath_conc [OF AB BA sB fA] A(4) 3(1) by simp
  have srcs: "sources (?A \<union> ?B) \<subseteq> insert s (fresh g g')"
    by (rule within_Un [OF A(1) _ 3(3)]) (use A(3) len len2 in auto)
  have dsts: "dests (?A \<union> ?B) \<subseteq> insert f (fresh g g')"
    by (rule within_Un [OF A(2) _ 3(4)]) (use len len2 in auto)
  have X: "dests ?X \<inter> sources (?A \<union> ?B) = {}" "dests (?A \<union> ?B) \<inter> sources ?X = {}"
    using disjoint_mono [OF _ srcs, of "{f}" "{f}"] disjoint_mono [OF dsts, of "{s}" "{s}"] Cons.prems(3-5) by auto
  have E: "new_edges g g' \<union> {null_edge c f} = ?X \<union> (?A \<union> ?B)"
    using new_edges_trans [OF 1(1) extends_trans [OF 2(2) 3(6)]] new_edges_trans [OF 2(2) 3(6)] 1(3) by auto
  have "{w. epath (?X \<union> (?A \<union> ?B)) s w f} = reps_lang L mn (i # is)"
    unfolding epath_union [OF X] AB' using epath_null [OF Cons.prems(5)] Cons.prems(5) by (simp add: epath_stuck)
  moreover have "acyclic (steps (?X \<union> (?A \<union> ?B)))"
    by (rule acyclic_steps_Un [OF _ acyclic_steps_Un [OF A(5) 3(2) BA] X(2)])
      (simp add: acyclic_steps_single Cons.prems(5))
  moreover have "sources (?X \<union> (?A \<union> ?B)) \<subseteq> insert s (fresh g g')"
    unfolding image_Un [of e_from ?X] using srcs by auto
  moreover have "dests (?X \<union> (?A \<union> ?B)) \<subseteq> insert f (fresh g g')"
    unfolding image_Un [of e_to ?X] using dsts by auto
  moreover have "c \<in> insert s (fresh g g')" using 3(5) A(3) len len2 by auto
  moreover have "extends g g'" using 1(1) 2(2) 3(6) by (meson extends_trans)
  ultimately show ?case unfolding E by (simp add: Let_def)
qed

subsection \<open>The parser\<close>

lemma seq_frag:
  assumes "\<And>e s g r. e \<in> set es \<Longrightarrow> wf_graph g \<Longrightarrow> valid s g \<Longrightarrow> parse d env e s False False g = Inr r
    \<Longrightarrow> frag g s r (lang d env e)"
  shows "parse_seq d env es s g = Inr r \<Longrightarrow> wf_graph g \<Longrightarrow> valid s g
    \<Longrightarrow> frag g s r (foldr conc (map (lang d env) es) {[]}) \<and> parsed g r"
  using assms
proof (induction es arbitrary: s g)
  case Nil
  then show ?case by (auto simp: parse_simps frag_null parsed_def extends_refl)
next
  case (Cons e es)
  from Cons.prems(1) obtain g1 m where p: "parse d env e s False False g = Inr (g1, m)"
    "parse_seq d env es m g1 = Inr r" by (auto simp: parse_simps E_eq_Inr)
  have 1: "frag g s (g1, m) (lang d env e)" by (rule Cons.prems(4) [OF _ Cons.prems(2,3) p(1)]) simp
  have 2: "extends g g1" "valid m g1" using retsD [OF parse_ext p(1)] Cons.prems(2,3) by (simp_all add: parsed_def)
  have "frag g1 m r (foldr conc (map (lang d env) es) {[]}) \<and> parsed g1 r"
    by (rule Cons.IH [OF p(2)]) (use 2 Cons.prems(4) in \<open>auto simp: extends_def\<close>)
  then show ?case
    using frag_seq [OF 1 _ 2(1), of "fst r" "snd r"] Cons.prems(3) parsed_trans [OF 2(1)]
    by (cases r) (auto simp: parsed_def)
qed

lemma event_lang_site: "event_lang (Assert_t site args) = event_lang (Assert_t site [])"
  by (simp add: event_lang_def EquivalentTo_iff esym_def)

lemma frag_site:
  assumes "build_state nm st ac rc g = (g1, f)" and "new_edge (Assert_t site args) s f i c x g1 = Inr g2" and "valid s g"
  shows "frag g s (g2, f) (event_lang (Assert_t site []))"
  using frag_event [OF assms(1,2) _ assms(3)] event_lang_site [of site args] by simp

lemma parse_frag:
  "plain (pe_xor_only env) e \<Longrightarrow> plain_env env \<Longrightarrow> wf_graph g \<Longrightarrow> valid s g \<Longrightarrow> parse d env e s i c g = Inr r
     \<Longrightarrow> frag g s r (lang d env e)"
proof (induction d e arbitrary: s i c g r rule: parse_induct)
  case (1 d operation es)
  from 1(6) obtain l rh where es: "es = [l, rh]"
    by (auto simp: parse_simps E_eq_Inr split: list.splits)
  with 1(6) obtain g1 ls g2 rs g3 lf g4 rf g5 g6 g7 join g8 g9 where
    st: "new_state g = (g1, ls)" "new_state g1 = (g2, rs)" "parse d env l ls False False g2 = Inr (g3, lf)"
    "parse d env rh rs False False g3 = Inr (g4, rf)" "Create_null s ls g4 = Inr g5"
    "Create_null s rs g5 = Inr g6" "new_state g6 = (g7, join)" "Create_null lf join g7 = Inr g8"
    "Create_null rf join g8 = Inr g9" and
    x9: "(case operation of BE_Xor \<Rightarrow> Inr (g9, join)
      | BE_Or \<Rightarrow> bindE (ConvertIncOrToExcOr (pe_xor_only env) ls rs lf rf join g9) (\<lambda>g10. Inr (g10, join))
      | BE_And \<Rightarrow> Inr (g9, join)) = Inr r"
    by (simp add: parse_simps E_eq_Inr Let_def prod_case_eq) blast
  have r: "r = (g9, join)" using x9 1(2) by (auto simp: ConvertIncOrToExcOr_def split: bool_op.splits)
  have sub: "frag h q x (lang d env e) \<and> parsed h x"
    if "e \<in> set es" "wf_graph h" "valid q h" "parse d env e q False False h = Inr x" for e q h x
    using 1(1) [OF that(1) _ 1(3) that(2-4)] 1(2) that retsD [OF parse_ext that(4)] by (simp add: list_all_iff)
  have e1: "extends g g1 \<and> ls < length (g_states g1)" by (rule new_step [OF st(1) 1(4)])
  have e2: "extends g1 g2 \<and> rs < length (g_states g2)" by (rule new_step [OF st(2)]) (use e1 in \<open>simp add: extends_def\<close>)
  have f3: "frag g2 ls (g3, lf) (lang d env l) \<and> parsed g2 (g3, lf)"
    by (rule sub [OF _ _ _ st(3)]) (use e1 e2 in \<open>simp_all add: es extends_def\<close>)
  have f4: "frag g3 rs (g4, rf) (lang d env rh) \<and> parsed g3 (g4, rf)"
    by (rule sub [OF _ _ _ st(4)]) (use e2 f3 in \<open>simp_all add: es parsed_def extends_def\<close>)
  have e34: "extends g2 g3" "extends g3 g4" "valid lf g3" "valid rf g4" using f3 f4 by (simp_all add: parsed_def)
  have e5: "extends g4 g5" by (rule null_step [OF st(5)]) (use 1(5) e1 e2 e34 in \<open>simp_all add: extends_def\<close>)
  have e6: "extends g5 g6" by (rule null_step [OF st(6)]) (use 1(5) e1 e2 e34 e5 in \<open>simp_all add: extends_def\<close>)
  have e7: "extends g6 g7 \<and> join < length (g_states g7)" by (rule new_step [OF st(7)]) (use e6 in \<open>simp add: extends_def\<close>)
  have e8: "extends g7 g8" by (rule null_step [OF st(8)]) (use e34 e5 e6 e7 in \<open>simp_all add: extends_def\<close>)
  have e9: "extends g8 g9" by (rule null_step [OF st(9)]) (use e34 e5 e6 e7 e8 in \<open>simp_all add: extends_def\<close>)
  have "frag g s (g9, join) (lang d env l \<union> lang d env rh)"
    by (rule frag_choice [OF _ _ st(1,2,7) st(5,6) st(8,9)]) (use f3 f4 e1 e2 e34 e5 e6 e7 e8 e9 1(5) in simp_all)
  with 1(2) show ?case by (auto simp: r es lang.simps)
next
  case (2 d es mn mx)
  let ?L = "foldr conc (map (lang d env) es) {[]}" and ?k = "nat (max (getD 1 mn) (getD 1 mx))"
  have mx: "getD 1 mx \<noteq> INFINITE_REPETITIONS" "getD 1 mn \<le> getD 1 mx + 1" using 2(2) by simp_all
  from 2(6) mx(1) obtain g1 f g2 m g3 where st: "new_state g = (g1, f)"
    "parse_reps d env es (getD 1 mn) mx [0..<?k] s f g1 = Inr (g2, m)"
    "Create_null m f g2 = Inr g3" and r: "r = (g3, f)"
    by (auto simp: parse_simps E_eq_Inr Let_def max_reps_def split: prod.splits)
  have e1: "extends g g1 \<and> f < length (g_states g1)" by (rule new_step [OF st(1) 2(4)])
  note n = new_state_new [OF st(1)]
  have seq: "frag h q x ?L \<and> parsed h x" if "wf_graph h" "valid q h" "parse_seq d env es q h = Inr x" for q h x
    by (rule seq_frag [OF _ that(3,1,2)]) (use 2(1-3) in \<open>auto simp: list_all_iff\<close>)
  note R = reps_frag [where L = ?L, OF seq mx(1) _ st(2)]
  have R: "(let E = new_edges g1 g2 \<union> {null_edge m f} in
      {w. epath E s w f} = reps_lang ?L (getD 1 mn) [0..<?k] \<and> acyclic (steps E)
      \<and> sources E \<subseteq> insert s (fresh g1 g2) \<and> dests E \<subseteq> insert f (fresh g1 g2))
      \<and> m \<in> insert s (fresh g1 g2) \<and> extends g1 g2"
    by (rule R) (use e1 2(5) n mx(2) in \<open>auto simp: extends_def\<close>)
  have e3: "extends g2 g3"
    by (rule null_step [OF st(3)]) (use R e1 2(5) n in \<open>auto simp: extends_def\<close>)
  have edges: "new_edges g g3 = new_edges g1 g2 \<union> {null_edge m f}"
    using new_edges_trans [of g g1 g3] new_edges_trans [of g1 g2 g3] extends_trans [of g1 g2 g3] e1 e3 R n
      Create_null_new(1) [OF st(3)] by simp
  have "insert f (fresh g1 g2) \<subseteq> fresh g g3" "fresh g1 g2 \<subseteq> fresh g g3"
    using n R e3 by (auto simp: extends_def)
  moreover have "reps_lang ?L (getD 1 mn) [0..<?k] = lang d env (Sequence_expr es mn mx)"
    using reps_lang_upt [of 0 ?k ?L "getD 1 mn"] by (simp add: lang.simps rep_counts_def conj_commute)
  ultimately show ?case unfolding frag_def r prod.case edges using R by (auto simp: Let_def)
next
  case (3 d)
  then show ?case by (auto simp: parse_simps E_eq_Inr lang.simps frag_null)
next
  case (4 d site)
  then show ?case
    by (auto simp: parse_simps E_eq_Inr Create_assert_def lang.simps split: prod.splits intro: frag_site)
next
  case (5 d ev)
  then show ?case
    by (auto simp: parse_simps E_eq_Inr Create_fn_def lang.simps split: prod.splits intro: frag_event)
next
  case (6 d a)
  then show ?case
    by (auto simp: parse_simps E_eq_Inr Create_field_def lang.simps split: prod.splits intro: frag_event)
next
  case (7 d j)
  show ?case
  proof (cases "pe_sub_allowed env")
    case True
    with 7 show ?thesis
      by (auto simp: parse_simps E_eq_Inr CreateSubAutomaton_def new_state_def lang.simps split: prod.splits intro: frag_event)
  next
    case False
    with 7(6) obtain ds a n where ds: "pe_descriptions env = Some ds" "find_description ds j = Some a" "d = Suc n"
      and p: "parse n env (ad_expression a) s False False g = Inr r"
      by (cases d) (auto simp: parse_simps E_eq_Inr split: option.splits)
    have "plain (pe_xor_only env) (ad_expression a)"
      using 7(3) ds(1) find_description_in [OF ds(2)] by (auto simp: plain_env_def list_all_iff)
    from 7(1) [OF ds(3) this 7(3-5) p] show ?thesis using False ds by (simp add: lang.simps)
  qed
qed

end
