(* ===== verification/Tesla_Assertion.thy ===== *)
theory Tesla_Assertion
  imports Tesla_Language Tesla_Compiler
begin

text \<open>
  Whole assertions: the language of an automaton with its bounds, the automaton the parser makes of
  it, and the deterministic automaton that is compiled from that.
\<close>

definition bound_lang :: "nat \<Rightarrow> parser_env \<Rightarrow> expression option \<Rightarrow> trans_label list set" where
  "bound_lang d env bound = (case bound of None \<Rightarrow> {[]} | Some e \<Rightarrow> lang d env e)"

text \<open>What happens between, and including, the bounds of an assertion.\<close>

definition assertion_lang :: "nat \<Rightarrow> parser_env \<Rightarrow> usage option \<Rightarrow> trans_label list set" where
  "assertion_lang d env use =
     conc (bound_lang d env (Option.bind use us_beginning))
       (conc (lang d env (ad_expression (pe_automaton env))) (bound_lang d env (Option.bind use us_end)))"

definition plain_assertion :: "parser_env \<Rightarrow> bool" where
  "plain_assertion env \<longleftrightarrow> plain (pe_xor_only env) (ad_expression (pe_automaton env)) \<and> plain_env env"

text \<open>Only a single event can be a bound.\<close>

lemma bound_plain: "parse d env e s i c g = Inr r \<Longrightarrow> i \<or> c \<Longrightarrow> plain x e"
  by (cases e) (auto simp: parse_simps no_bound_def E_eq_Inr split: if_splits)

lemma bound_frag:
  assumes "parse_bound d env bound s i c g = Inr r" and "i \<or> c" and "plain_env env" and "wf_graph g" and "valid s g"
  shows "frag g s r (bound_lang d env bound) \<and> parsed g r"
proof (cases bound)
  case None
  with assms show ?thesis by (auto simp: parse_bound_def bound_lang_def frag_null parsed_def extends_refl)
next
  case (Some e)
  with assms(1) have p: "parse d env e s i c g = Inr r" by (simp add: parse_bound_def)
  show ?thesis
    using parse_frag [OF bound_plain [OF p assms(2)] assms(3-5) p] retsD [OF parse_ext p] assms(4,5)
    by (simp add: bound_lang_def Some)
qed

text \<open>Out-of-scope events only add transitions that are marked as such.\<close>

lemma Copy_oos:
  assumes "Copy src dst t True g = Inr g'" and "(\<exists>ev. e_label t = Fn_t ev) \<or> (\<exists>a. e_label t = Field_t a)"
  shows "\<exists>e. g_edges g' = g_edges g @ [e] \<and> e_oos e \<and> e_label e \<noteq> Null_t"
    and "\<And>s. q_accept (g_states g' ! s) = q_accept (g_states g ! s)" and "length (g_states g') = length (g_states g)"
proof -
  obtain x y where n: "new_edge (e_label t) src dst x y True g = Inr g'"
    using assms by (auto simp: Copy_def Let_def E_eq_Inr)
  note f = new_edge_frame [OF n]
  show "\<exists>e. g_edges g' = g_edges g @ [e] \<and> e_oos e \<and> e_label e \<noteq> Null_t"
    by (rule exI, rule conjI [OF f(1)]) (use assms(2) in auto)
  show "\<And>s. q_accept (g_states g' ! s) = q_accept (g_states g ! s)" "length (g_states g') = length (g_states g)"
    using f by simp_all
qed

lemma add_out_of_scope_edges:
  "add_out_of_scope start final ts g = Inr g' \<Longrightarrow>
     (\<exists>es. g_edges g' = g_edges g @ es \<and> (\<forall>e \<in> set es. e_oos e \<and> e_label e \<noteq> Null_t))
     \<and> (\<forall>s. q_accept (g_states g' ! s) = q_accept (g_states g ! s)) \<and> length (g_states g') = length (g_states g)"
proof (induction ts arbitrary: g)
  case (Cons t ts)
  then obtain g1 where st: "add_out_of_scope start final ts g1 = Inr g'" and
    c: "g1 = g \<or> (\<exists>dst. Copy start dst t True g = Inr g1 \<and> ((\<exists>ev. e_label t = Fn_t ev) \<or> (\<exists>a. e_label t = Field_t a)))"
    by (cases "e_label t") (auto simp: E_eq_Inr)
  note IH = Cons.IH [OF st]
  from c show ?case
  proof
    assume "\<exists>dst. Copy start dst t True g = Inr g1 \<and> ((\<exists>ev. e_label t = Fn_t ev) \<or> (\<exists>a. e_label t = Field_t a))"
    then obtain dst where "Copy start dst t True g = Inr g1" "(\<exists>ev. e_label t = Fn_t ev) \<or> (\<exists>a. e_label t = Field_t a)" by blast
    note o = Copy_oos [OF this]
    from o(1) obtain e where "g_edges g1 = g_edges g @ [e]" "e_oos e" "e_label e \<noteq> Null_t" by blast
    with IH o(2,3) show ?thesis by auto
  qed (use IH in simp)
qed simp

text \<open>The graph before out-of-scope events are added.\<close>

lemma parse_graph_frag:
  assumes "parse_graph d env use = Inr g" and "plain_assertion env"
  obtains g3 f where "{w. epath (set (g_edges g3)) 0 w f} = assertion_lang d env use"
    and "acyclic (steps (set (g_edges g3)))" and "valid f g3" and "wf_graph g3" and "length (g_states g) = length (g_states g3)"
    and "\<exists>es. g_edges g = g_edges g3 @ es \<and> (\<forall>e \<in> set es. e_oos e \<and> e_label e \<noteq> Null_t)"
    and "\<forall>s. q_accept (g_states g ! s) = q_accept (g_states g3 ! s)"
    and "Option.bind use us_end \<noteq> None \<longrightarrow> (\<forall>s. valid s g3 \<longrightarrow> q_accept (g_states g3 ! s) = (s = f))"
proof -
  obtain g0 s0 where b: "build_state [] True False (Some (length (ad_argument (pe_automaton env)))) empty_graph = (g0, s0)"
    by (cases "build_state [] True False (Some (length (ad_argument (pe_automaton env)))) empty_graph")
  note x0 = build_ext [OF wf_empty_graph b] and b0 = build_state_simps [OF b]
  from assms(1) obtain g1 s1 g2 s2 g3 s3 where
    st: "parse_bound d env (Option.bind use us_beginning) s0 True False g0 = Inr (g1, s1)"
    "parse d env (ad_expression (pe_automaton env)) s1 False False g1 = Inr (g2, s2)"
    "parse_bound d env (Option.bind use us_end) s2 False True g2 = Inr (g3, s3)"
    "add_out_of_scope s1 s3 (out_of_scope [] (g_edges g3)) g3 = Inr g"
    by (auto simp: parse_graph_def b E_eq_Inr)
  have p: "plain (pe_xor_only env) (ad_expression (pe_automaton env))" "plain_env env"
    using assms(2) by (simp_all add: plain_assertion_def)
  have v0: "valid s0 g0" "wf_graph g0" "s0 = 0" using x0 b0(1) by (simp_all add: extends_def empty_graph_def)
  have 1: "frag g0 s0 (g1, s1) (bound_lang d env (Option.bind use us_beginning)) \<and> parsed g0 (g1, s1)"
    by (rule bound_frag [OF st(1) _ p(2) v0(2,1)]) simp
  then have v1: "valid s1 g1" "wf_graph g1" "extends g0 g1" by (simp_all add: parsed_def extends_def)
  have 2: "frag g1 s1 (g2, s2) (lang d env (ad_expression (pe_automaton env)))" "parsed g1 (g2, s2)"
    using parse_frag [OF p v1(2,1) st(2)] retsD [OF parse_ext st(2)] v1 by simp_all
  then have v2: "valid s2 g2" "wf_graph g2" "extends g1 g2" by (simp_all add: parsed_def extends_def)
  have 3: "frag g2 s2 (g3, s3) (bound_lang d env (Option.bind use us_end)) \<and> parsed g2 (g3, s3)"
    by (rule bound_frag [OF st(3) _ p(2) v2(2,1)]) simp
  then have v3: "valid s3 g3" "wf_graph g3" "extends g2 g3" by (simp_all add: parsed_def extends_def)
  have "frag g0 s0 (g3, s3) (assertion_lang d env use)"
    unfolding assertion_lang_def
    by (rule frag_seq [OF conjunct1 [OF 1] frag_seq [OF 2(1) conjunct1 [OF 3] v2(3) v3(3) v1(1)] v1(3) _ v0(1)])
      (rule extends_trans [OF v2(3) v3(3)])
  moreover have "new_edges g0 g3 = set (g_edges g3)" using b0(2) by (simp add: new_edges_def empty_graph_def)
  ultimately have F: "{w. epath (set (g_edges g3)) 0 w s3} = assertion_lang d env use" "acyclic (steps (set (g_edges g3)))"
    by (simp_all add: frag_def v0(3))
  have "no_accept g0" using b by (auto simp: build_state_def no_accept_def empty_graph_def)
  then have "no_accept g1" using st(1) parse_na by (auto simp: parse_bound_def split: option.splits)
  from parse_na [OF st(2) this] have na: "no_accept g2" .
  have acc: "q_accept (g_states g3 ! s) \<longleftrightarrow> s = s3" if "Option.bind use us_end \<noteq> None" "valid s g3" for s
    using that st(3) cleanup_accept [OF _ na] by (auto simp: parse_bound_def split: option.splits)
  note o = add_out_of_scope_edges [OF st(4)]
  show thesis
    by (rule that [OF F v3(1,2) conjunct2 [OF conjunct2 [OF o]] conjunct1 [OF o]]) (use o acc in blast)+
qed

subsection \<open>The parser returns\<close>

text \<open>Expressions the analyser can write: choices have two sides, and there are no sub-automata.\<close>

primrec shaped :: "expression \<Rightarrow> bool" where
  "shaped (Boolean_expr operation es) \<longleftrightarrow> length es = 2 \<and> list_all shaped es"
| "shaped (Sequence_expr es mn mx) \<longleftrightarrow> list_all shaped es"
| "shaped Null_expr \<longleftrightarrow> True"
| "shaped (Assertion_site site) \<longleftrightarrow> True"
| "shaped (Function_expr ev) \<longleftrightarrow> True"
| "shaped (Field_assign_expr a) \<longleftrightarrow> True"
| "shaped (Sub_automaton_expr i) \<longleftrightarrow> False"

text \<open>A graph without references to variables and sub-automata that a parser can go on with, and
  what going on gives.\<close>

definition concrete :: "graph \<Rightarrow> bool" where
  "concrete g \<longleftrightarrow> refs_free g \<and> (\<forall>e \<in> set (g_edges g). e_label e = Null_t \<or> label_realisable (e_label e))"

lemma new_edge_concrete:
  assumes "concrete g" and "valid src g" and "valid dst g" and "dst \<noteq> 0" and "\<not> (i \<and> x)" and "l = Null_t \<or> label_realisable l"
  obtains g' where "new_edge l src dst i c x g = Inr g'" and "concrete g'"
proof -
  have "refs_free g" using assms(1) by (simp add: concrete_def)
  from this assms(2-5) obtain g' where n: "new_edge l src dst i c x g = Inr g'" "refs_free g'" by (rule new_edge_total)
  with new_edge_frame(1) [OF n(1)] assms(1,6) show thesis by (intro that [OF n(1)]) (auto simp: concrete_def)
qed

abbreviation ready :: "graph \<Rightarrow> nat \<Rightarrow> bool" where
  "ready g s \<equiv> wf_graph g \<and> concrete g \<and> valid s g"

definition goes_on :: "(graph \<times> nat) res \<Rightarrow> graph \<Rightarrow> bool" where
  "goes_on m g \<longleftrightarrow> (\<exists>g' f. m = Inr (g', f) \<and> concrete g' \<and> parsed g (g', f))"

lemma goes_onE:
  assumes "goes_on m g"
  obtains g' f where "m = Inr (g', f)" and "ready g' f" and "extends g g'"
  using assms by (auto simp: goes_on_def parsed_def extends_def)

lemma build_state_free:
  "build_state nm st ac None g = (g', s) \<Longrightarrow> concrete g \<Longrightarrow> concrete g'"
  by (auto simp: build_state_def concrete_def refs_free_def References_def getD_def)

lemma null_total:
  assumes "ready g src" and "valid dst g" and "dst \<noteq> 0"
  obtains g' where "Create_null src dst g = Inr g'" and "ready g' src" and "extends g g'"
proof -
  obtain g' where n: "new_edge Null_t src dst False False False g = Inr g'" "concrete g'"
    using new_edge_concrete [of g src dst False False Null_t False] assms by auto
  moreover have "extends g g'" by (rule null_step [of src dst]) (use n assms in \<open>simp_all add: Create_null_def\<close>)
  ultimately show thesis using that assms(1) by (auto simp: Create_null_def extends_def)
qed

lemma new_state_total:
  assumes "ready g s"
  obtains g' f where "new_state g = (g', f)" and "ready g' s" and "ready g' f" and "f \<noteq> 0" and "extends g g'" and "f = length (g_states g)"
proof -
  obtain g' f where n: "new_state g = (g', f)" by (cases "new_state g")
  have "extends g g' \<and> valid f g'" using new_step [OF n] assms by blast
  moreover have "concrete g'" using build_state_free n assms by (simp add: new_state_def)
  moreover have "f = length (g_states g)" by (rule new_state_new(2) [OF n])
  moreover have "g_states g \<noteq> []" using assms by auto
  ultimately show thesis using that [OF n] assms by (auto simp: extends_def)
qed

lemma event_total:
  assumes "ready g s" and "label_realisable l"
  shows "goes_on (let (g1, f) = build_state [] False c None g in
    bindE (new_edge l s f i c False g1) (\<lambda>g2. Inr (g2, f))) g"
proof -
  obtain g1 f where b: "build_state [] False c None g = (g1, f)" by (cases "build_state [] False c None g")
  note x = build_ext [OF _ b] and n = build_state_simps [OF b]
  have "concrete g1" using build_state_free [OF b] assms(1) by blast
  moreover have e: "extends g g1" "valid f g1" using x assms(1) by blast+
  moreover have v: "valid s g1" using n(3) assms(1) by simp
  moreover have "f \<noteq> 0" using n(1) assms(1) by auto
  ultimately obtain g2 where g2: "new_edge l s f i c False g1 = Inr g2" "concrete g2"
    using new_edge_concrete [of g1 s f i False l c] assms(2) by auto
  have "extends g1 g2"
    by (rule retsD [OF new_edge_ext g2(1)]) (use e v in \<open>auto simp: extends_def\<close>)
  then have "parsed g (g2, f)" using e by (auto simp: parsed_def intro: extends_trans) (simp add: extends_def)
  with g2 show ?thesis by (simp add: goes_on_def b)
qed

lemma goes_on_seq:
  assumes "goes_on m g" and "\<And>g' f. ready g' f \<Longrightarrow> extends g g' \<Longrightarrow> goes_on (k g' f) g'"
  shows "goes_on (bindE m (\<lambda>(g', f). k g' f)) g"
proof -
  from assms(1) obtain g1 f1 where 1: "m = Inr (g1, f1)" "ready g1 f1" "extends g g1" by (rule goes_onE)
  have "goes_on (k g1 f1) g1" by (rule assms(2) [OF 1(2,3)])
  then obtain g2 f2 where 2: "k g1 f1 = Inr (g2, f2)" "concrete g2" "parsed g1 (g2, f2)"
    by (auto simp: goes_on_def)
  from 1(1) 2(1,2) parsed_trans [OF 1(3) 2(3)] show ?thesis by (simp add: goes_on_def)
qed

lemma seq_total:
  assumes "\<And>e s g. e \<in> set es \<Longrightarrow> ready g s \<Longrightarrow> goes_on (parse d env e s False False g) g"
  shows "ready g s \<Longrightarrow> goes_on (parse_seq d env es s g) g"
  using assms
proof (induction es arbitrary: s g)
  case Nil
  then show ?case by (simp add: parse_simps goes_on_def parsed_def extends_refl)
next
  case (Cons e es)
  show ?case
    unfolding parse_simps
    by (rule goes_on_seq [OF Cons.prems(2)]) (use Cons in \<open>auto intro!: Cons.IH\<close>)
qed

lemma reps_total:
  assumes seq: "\<And>s g. ready g s \<Longrightarrow> goes_on (parse_seq d env es s g) g"
    and inf: "getD 1 mx \<noteq> INFINITE_REPETITIONS"
  shows "\<forall>i \<in> set is. int i \<le> getD 1 mx \<Longrightarrow> ready g s \<Longrightarrow> valid f g \<Longrightarrow> f \<noteq> 0
    \<Longrightarrow> goes_on (parse_reps d env es mn mx is s f g) g"
proof (induction "is" arbitrary: s g)
  case Nil
  then show ?case by (simp add: parse_simps goes_on_def parsed_def extends_refl)
next
  case (Cons i "is")
  have nb: "\<not> (getD 1 mx = INFINITE_REPETITIONS \<or> max_reps mx < int i)"
    using inf Cons.prems(1) by (simp add: max_reps_def)
  obtain g1 where g1: "(if mn \<le> int i then Create_null s f g else Inr g) = Inr g1" "ready g1 s" "extends g g1"
  proof (cases "mn \<le> int i")
    case True
    obtain h where "Create_null s f g = Inr h" "ready h s" "extends g h" by (rule null_total [OF Cons.prems(2-4)])
    with True show thesis by (intro that) simp_all
  next
    case False
    with Cons.prems(2) extends_refl [of g] show thesis by (intro that [of g]) simp_all
  qed
  have "goes_on (bindE (parse_seq d env es s g1) (\<lambda>(g2, next). parse_reps d env es mn mx is next f g2)) g1"
    by (rule goes_on_seq [OF seq [OF g1(2)]], rule Cons.IH) (use Cons.prems g1(3) in \<open>auto simp: extends_def\<close>)
  then obtain g2 c where r: "parse_reps d env es mn mx (i # is) s f g = Inr (g2, c)" "concrete g2" "parsed g1 (g2, c)"
    unfolding goes_on_def using g1(1) nb by (auto simp: parse_simps E_eq_Inr split: prod.splits)
  with parsed_trans [OF g1(3) r(3)] show ?case by (simp add: goes_on_def)
qed

lemma choice_total:
  assumes l: "\<And>s g. ready g s \<Longrightarrow> goes_on (parse d env l s False False g) g"
    and r: "\<And>s g. ready g s \<Longrightarrow> goes_on (parse d env r s False False g) g"
    and "operation = BE_Or \<Longrightarrow> pe_xor_only env" and g: "ready g s"
  shows "goes_on (parse d env (Boolean_expr operation [l, r]) s False False g) g"
proof -
  obtain g1 ls where 1: "new_state g = (g1, ls)" "ready g1 s" "ready g1 ls" "ls \<noteq> 0" "extends g g1"
    by (rule new_state_total [OF g])
  obtain g2 rs where 2: "new_state g1 = (g2, rs)" "ready g2 s" "ready g2 rs" "rs \<noteq> 0" "extends g1 g2"
    by (rule new_state_total [OF 1(2)])
  have "valid ls g2" by (rule extendsD(2) [OF 2(5)]) (use 1(3) in simp)
  then have "ready g2 ls" using 2(2) by simp
  from l [OF this] obtain g3 lf where 3: "parse d env l ls False False g2 = Inr (g3, lf)" "ready g3 lf" "extends g2 g3"
    by (rule goes_onE)
  have "valid rs g3" by (rule extendsD(2) [OF 3(3)]) (use 2(3) in simp)
  then have "ready g3 rs" using 3(2) by simp
  from r [OF this] obtain g4 rf where 4: "parse d env r rs False False g3 = Inr (g4, rf)" "ready g4 rf" "extends g3 g4"
    by (rule goes_onE)
  have e24: "extends g2 g4" by (rule extends_trans [OF 3(3) 4(3)])
  have v4: "valid s g4" "valid ls g4" "valid rs g4" "valid lf g4"
    using extendsD(2) [OF e24] extendsD(2) [OF 4(3)] 2(2,3) \<open>valid ls g2\<close> 3(2) by blast+
  have "ready g4 s" using 4(2) v4 by simp
  from this v4(2) 1(4) obtain g5 where 5: "Create_null s ls g4 = Inr g5" "ready g5 s" "extends g4 g5" by (rule null_total)
  have "valid rs g5" by (rule extendsD(2) [OF 5(3) v4(3)])
  from 5(2) this 2(4) obtain g6 where 6: "Create_null s rs g5 = Inr g6" "ready g6 s" "extends g5 g6" by (rule null_total)
  obtain g7 join where 7: "new_state g6 = (g7, join)" "ready g7 s" "ready g7 join" "join \<noteq> 0" "extends g6 g7"
    by (rule new_state_total [OF 6(2)])
  have e47: "extends g4 g7" by (rule extends_trans [OF extends_trans [OF 5(3) 6(3)] 7(5)])
  have "ready g7 lf" using 7(3) extendsD(2) [OF e47 v4(4)] by simp
  moreover have "valid join g7" using 7(3) by simp
  ultimately obtain g8 where 8: "Create_null lf join g7 = Inr g8" "ready g8 lf" "extends g7 g8" using 7(4) by (rule null_total)
  have "valid rf g8" using extendsD(2) [OF extends_trans [OF e47 8(3)]] 4(2) by blast
  then have "ready g8 rf" using 8(2) by simp
  moreover have "valid join g8" using extendsD(2) [OF 8(3) \<open>valid join g7\<close>] .
  ultimately obtain g9 where 9: "Create_null rf join g8 = Inr g9" "ready g9 rf" "extends g8 g9" using 7(4) by (rule null_total)
  have x: "extends g g9"
    by (rule extends_trans [OF extends_trans [OF 1(5) 2(5)] extends_trans [OF e24 extends_trans [OF e47 extends_trans [OF 8(3) 9(3)]]]])
  have j: "valid join g9" by (rule extendsD(2) [OF 9(3) \<open>valid join g8\<close>])
  have "parse d env (Boolean_expr operation [l, r]) s False False g = Inr (g9, join)"
    using assms(3) by (cases operation) (simp_all add: parse_simps no_bound_def 1(1) 2(1) 3(1) 4(1) 5(1) 6(1) 7(1) 8(1) 9(1) ConvertIncOrToExcOr_def)
  with x j 9(2) show ?thesis by (simp add: goes_on_def parsed_def)
qed

lemma repeat_total:
  assumes seq: "\<And>s g. ready g s \<Longrightarrow> goes_on (parse_seq d env es s g) g"
    and inf: "getD 1 mx \<noteq> INFINITE_REPETITIONS" and mn: "getD 1 mn \<le> getD 1 mx + 1" and g: "ready g s"
  shows "goes_on (parse d env (Sequence_expr es mn mx) s False False g) g"
proof -
  obtain g1 f where 1: "new_state g = (g1, f)" "ready g1 s" "ready g1 f" "f \<noteq> 0" "extends g g1"
    by (rule new_state_total [OF g])
  have "\<forall>i \<in> set [0..<nat (max (getD 1 mn) (max_reps mx))]. int i \<le> getD 1 mx" using inf mn by (auto simp: max_reps_def)
  from reps_total [of d env es mx, OF seq inf this 1(2) _ 1(4)] 1(3)
  obtain g2 c where 2: "parse_reps d env es (getD 1 mn) mx [0..<nat (max (getD 1 mn) (max_reps mx))] s f g1 = Inr (g2, c)"
    "ready g2 c" "extends g1 g2" by (metis goes_onE)
  have v: "valid f g2" by (rule extendsD(2) [OF 2(3)]) (use 1(3) in simp)
  from 2(2) v 1(4) obtain g3 where 3: "Create_null c f g2 = Inr g3" "ready g3 c" "extends g2 g3" by (rule null_total)
  have "parse d env (Sequence_expr es mn mx) s False False g = Inr (g3, f)"
    by (simp add: parse_simps no_bound_def 1(1) 2(1) 3(1))
  moreover have "extends g g3" by (rule extends_trans [OF 1(5) extends_trans [OF 2(3) 3(3)]])
  ultimately show ?thesis using 3(2) extendsD(2) [OF 3(3) v] by (simp add: goes_on_def parsed_def)
qed

text \<open>An event can always be parsed, also as a bound.\<close>

primrec is_event :: "expression \<Rightarrow> bool" where
  "is_event (Boolean_expr operation es) \<longleftrightarrow> False"
| "is_event (Sequence_expr es mn mx) \<longleftrightarrow> False"
| "is_event Null_expr \<longleftrightarrow> False"
| "is_event (Assertion_site site) \<longleftrightarrow> True"
| "is_event (Function_expr ev) \<longleftrightarrow> True"
| "is_event (Field_assign_expr a) \<longleftrightarrow> True"
| "is_event (Sub_automaton_expr i) \<longleftrightarrow> False"

lemma parse_event_total:
  assumes "is_event e" and "ready g s"
  shows "goes_on (parse d env e s i c g) g"
  using assms event_total [OF assms(2)]
  by (cases e) (simp_all add: parse_simps Create_assert_def Create_fn_def Create_field_def)

lemma parse_total:
  "plain (pe_xor_only env) e \<Longrightarrow> shaped e \<Longrightarrow> ready g s \<Longrightarrow> goes_on (parse d env e s False False g) g"
proof (induction e arbitrary: s g)
  case (Boolean_expr operation es)
  then obtain l r where es: "es = [l, r]" by (auto simp: length_Suc_conv eval_nat_numeral)
  show ?case unfolding es
    by (rule choice_total) (use Boolean_expr es in auto)
next
  case (Sequence_expr es mn mx)
  have "goes_on (parse_seq d env es s g) g" if "ready g s" for s g
    by (rule seq_total [OF _ that]) (use Sequence_expr in \<open>auto simp: list_all_iff\<close>)
  then show ?case by (rule repeat_total) (use Sequence_expr in auto)
next
  case Null_expr
  then show ?case by (simp add: parse_simps no_bound_def goes_on_def parsed_def extends_refl)
qed (simp_all add: parse_event_total)
subsection \<open>Whole assertions are parsed\<close>

text \<open>A beginning event moves the start of the main expression away from the initial state.\<close>

lemma event_moves:
  "parse d env e s i c g = Inr (g', f) \<Longrightarrow> is_event e \<Longrightarrow> f = length (g_states g)"
  by (cases e) (auto simp: parse_simps E_eq_Inr prod_case_eq dest: build_state_simps(1))

lemma out_of_scope_subset: "set (out_of_scope found ts) \<subseteq> set found \<union> {t \<in> set ts. \<not> e_init t}"
  by (induction found ts rule: out_of_scope.induct) auto

lemma Copy_oos_total:
  assumes "ready g src" and "valid dst g" and "dst \<noteq> 0" and "\<not> e_init t" and "(\<exists>ev. e_label t = Fn_t ev) \<or> (\<exists>a. e_label t = Field_t a)"
  obtains g' where "Copy src dst t True g = Inr g'" and "concrete g'"
proof -
  have "label_realisable (e_label t)" using assms(5) by auto
  then obtain g' where n: "new_edge (e_label t) src dst False (e_cleanup t) True g = Inr g'" "concrete g'"
    using new_edge_concrete [of g src dst False True "e_label t" "e_cleanup t"] assms(1-3) by auto
  with assms(4,5) show thesis by (intro that) (auto simp: Copy_def Let_def)
qed

lemma add_out_of_scope_total:
  "ready g start \<Longrightarrow> valid final g \<Longrightarrow> start \<noteq> 0 \<Longrightarrow> final \<noteq> 0 \<Longrightarrow> \<forall>t \<in> set ts. \<not> e_init t
     \<Longrightarrow> \<exists>g'. add_out_of_scope start final ts g = Inr g' \<and> concrete g'"
proof (induction ts arbitrary: g)
  case (Cons t ts)
  let ?dst = "if e_cleanup t then final else start"
  show ?case
  proof (cases "(\<exists>ev. e_label t = Fn_t ev) \<or> (\<exists>a. e_label t = Field_t a)")
    case True
    have dst: "valid ?dst g" "?dst \<noteq> 0" "\<not> e_init t" using Cons.prems by auto
    from Cons.prems(1) dst True obtain g1 where 1: "Copy start ?dst t True g = Inr g1" "concrete g1"
      by (rule Copy_oos_total)
    have "extends g g1" by (rule retsD [OF Copy_ext 1(1)]) (use Cons.prems in auto)
    then have "ready g1 start" "valid final g1" using 1(2) Cons.prems by (simp_all add: extends_def)
    with Cons obtain g' where "add_out_of_scope start final ts g1 = Inr g'" "concrete g'" by auto
    moreover have "add_out_of_scope start final (t # ts) g = add_out_of_scope start final ts g1"
      using True 1(1) by auto
    ultimately show ?thesis by auto
  next
    case False
    then have "add_out_of_scope start final (t # ts) g = add_out_of_scope start final ts g" by (cases "e_label t") auto
    with Cons show ?thesis by auto
  qed
qed simp

definition bounded_by_events :: "usage \<Rightarrow> bool" where
  "bounded_by_events u \<longleftrightarrow> (case us_beginning u of None \<Rightarrow> False | Some e \<Rightarrow> is_event e)
     \<and> (case us_end u of None \<Rightarrow> False | Some e \<Rightarrow> is_event e)"

lemma parse_graph_total:
  assumes "ad_argument (pe_automaton env) = []" and "bounded_by_events u"
    and "plain (pe_xor_only env) (ad_expression (pe_automaton env))" and "shaped (ad_expression (pe_automaton env))"
  obtains g where "parse_graph d env (Some u) = Inr g" and "concrete g"
proof -
  from assms(2) obtain eb ee where u: "us_beginning u = Some eb" "is_event eb" "us_end u = Some ee" "is_event ee"
    by (auto simp: bounded_by_events_def split: option.splits)
  obtain g0 s0 where b: "build_state [] True False (Some 0) empty_graph = (g0, s0)"
    by (cases "build_state [] True False (Some 0) empty_graph")
  have "concrete g0" using b by (auto simp: build_state_def concrete_def refs_free_def References_def getD_def empty_graph_def)
  then have 0: "ready g0 s0" using build_ext [OF wf_empty_graph b] by (simp add: extends_def)
  from parse_event_total [OF u(2) 0] obtain g1 s1 where
    1: "parse d env eb s0 True False g0 = Inr (g1, s1)" "ready g1 s1" "extends g0 g1" by (rule goes_onE)
  have s1: "s1 \<noteq> 0" using event_moves [OF 1(1) u(2)] build_state_simps [OF b] 0 by auto
  from parse_total [OF assms(3,4) 1(2)] obtain g2 s2 where
    2: "parse d env (ad_expression (pe_automaton env)) s1 False False g1 = Inr (g2, s2)" "ready g2 s2" "extends g1 g2" by (rule goes_onE)
  from parse_event_total [OF u(4) 2(2)] obtain g3 s3 where
    3: "parse d env ee s2 False True g2 = Inr (g3, s3)" "ready g3 s3" "extends g2 g3" by (rule goes_onE)
  have s3: "s3 \<noteq> 0" using event_moves [OF 3(1) u(4)] 2(2) by auto
  have "ready g3 s1" using 3(2) extendsD(2) [OF extends_trans [OF 2(3) 3(3)]] 1(2) by blast
  moreover have "\<forall>t \<in> set (out_of_scope [] (g_edges g3)). \<not> e_init t" using out_of_scope_subset [of "[]"] by auto
  ultimately obtain g where "add_out_of_scope s1 s3 (out_of_scope [] (g_edges g3)) g3 = Inr g" "concrete g"
    using add_out_of_scope_total s1 s3 3(2) by metis
  with that show thesis by (simp add: parse_graph_def parse_bound_def assms(1) u b 1(1) 2(1) 3(1))
qed

lemma nfa_path_valid:
  assumes "wf_graph g"
  shows "nfa_path g s w s' \<Longrightarrow> valid s g \<Longrightarrow> valid s' g"
proof (induction rule: nfa_path.induct)
qed (use wf_out [OF assms] wf_edge_at [OF assms] in \<open>auto simp: outs_def\<close>)

lemma nfa_accepts:
  assumes p: "parse_nfa depth env use i = Inr n" and "plain_assertion env" and "Option.bind use us_end \<noteq> None"
  shows "\<And>w. w \<in> assertion_lang depth env use \<Longrightarrow> \<exists>s. nfa_path (au_graph n) 0 w s \<and> q_accept (g_states (au_graph n) ! s)"
    and "\<And>w s. \<forall>e \<in> set (g_edges (au_graph n)). \<not> e_oos e \<Longrightarrow> nfa_path (au_graph n) 0 w s
      \<Longrightarrow> q_accept (g_states (au_graph n) ! s) \<Longrightarrow> w \<in> assertion_lang depth env use"
    and "s < length (g_states (au_graph n)) \<Longrightarrow> no_cycle (au_graph n) s"
proof -
  let ?g = "au_graph n"
  note g = parse_nfa_graph(1) [OF p]
  note wf = parse_graph_wf [OF g]
  from g assms(2) obtain g3 f where l: "{w. epath (set (g_edges g3)) 0 w f} = assertion_lang depth env use"
    and ac: "acyclic (steps (set (g_edges g3)))" and f: "valid f g3" and "wf_graph g3" and len: "length (g_states ?g) = length (g_states g3)"
    and ex: "\<exists>es. g_edges ?g = g_edges g3 @ es \<and> (\<forall>e \<in> set es. e_oos e \<and> e_label e \<noteq> Null_t)"
    and fl: "\<forall>s. q_accept (g_states ?g ! s) = q_accept (g_states g3 ! s)"
    and acc: "Option.bind use us_end \<noteq> None \<longrightarrow> (\<forall>s. valid s g3 \<longrightarrow> q_accept (g_states g3 ! s) = (s = f))"
    by (rule parse_graph_frag)
  from ex obtain es where es: "g_edges ?g = g_edges g3 @ es" "\<forall>e \<in> set es. e_oos e \<and> e_label e \<noteq> Null_t" by blast
  show "\<exists>s. nfa_path ?g 0 w s \<and> q_accept (g_states ?g ! s)" if "w \<in> assertion_lang depth env use" for w
  proof -
    from that l have "epath (set (g_edges g3)) 0 w f" by blast
    then have "epath (set (g_edges ?g)) 0 w f" by (rule epath_mono) (simp add: es)
    with nfa_path_epath(2) [OF wf(1)] show ?thesis using acc assms(3) f fl by blast
  qed
  show "w \<in> assertion_lang depth env use"
    if no: "\<forall>e \<in> set (g_edges ?g). \<not> e_oos e" and w: "nfa_path ?g 0 w s" "q_accept (g_states ?g ! s)" for w s
  proof -
    have "es = []" using no es by (cases es) auto
    then have e: "epath (set (g_edges g3)) 0 w s" using nfa_path_epath(1) [OF wf(1) w(1)] wf(2) es(1) by simp
    have "valid s g3" using nfa_path_valid [OF wf(1) w(1) wf(2)] len by simp
    with acc assms(3) w(2) fl have "s = f" by blast
    with e l show ?thesis by blast
  qed
  show "no_cycle ?g s" if "s < length (g_states ?g)"
  proof (rule acyclic_no_cycle [OF wf(1) _ that])
    have "{e \<in> set (g_edges ?g). e_label e = Null_t} \<subseteq> set (g_edges g3)" using es by auto
    then show "acyclic (steps {e \<in> set (g_edges ?g). e_label e = Null_t})" by (rule acyclic_steps_subset [OF ac])
  qed
qed

subsection \<open>Properties of compiled assertions\<close>


definition ex_strict_call :: "string \<Rightarrow> direction \<Rightarrow> expression" where
  "ex_strict_call name dir = Function_expr ((ex_event name dir)\<lparr>fe_strict := Some True\<rparr>)"

definition ex_strict_usage :: usage where
  "ex_strict_usage = \<lparr>us_identifier = ex_id, us_beginning = Some (ex_strict_call ''main'' Entry),
     us_end = Some (ex_strict_call ''main'' Exit)\<rparr>"

definition ex_strict_env :: "expression \<Rightarrow> parser_env" where
  "ex_strict_env e = \<lparr>pe_automaton = ex_description e, pe_descriptions = None, pe_sub_allowed = True, pe_xor_only = True\<rparr>"

text \<open>\<open>a\<close> once or twice.\<close>

definition ex_twice :: expression where
  "ex_twice = Sequence_expr [ex_strict_call ''a'' Entry] (Some 1) (Some 2)"




text \<open>At least no times: \<open>a\<close> at least once, then \<open>b\<close>.\<close>

definition ex_reenter :: expression where
  "ex_reenter = Sequence_expr [Sequence_expr [ex_strict_call ''a'' Entry] (Some 1) (Some INFINITE_REPETITIONS),
     ex_strict_call ''b'' Entry] (Some 0) (Some INFINITE_REPETITIONS)"

lemma power_lang_mentions:
  "\<forall>w \<in> L. \<exists>l \<in> set w. P l \<Longrightarrow> w \<in> power_lang L n \<Longrightarrow> w = [] \<or> (\<exists>l \<in> set w. P l)"
  by (induction n arbitrary: w) (auto simp: conc_def)

lemma reenter_mentions_b:
  assumes "w \<in> lang d env ex_reenter" and "w \<noteq> []"
  shows "\<exists>l \<in> set w. EquivalentTo (Fn_t ((ex_event ''b'' Entry)\<lparr>fe_strict := Some True\<rparr>)) l"
proof -
  let ?P = "\<lambda>l. EquivalentTo (Fn_t ((ex_event ''b'' Entry)\<lparr>fe_strict := Some True\<rparr>)) l"
  let ?L = "conc (lang d env (Sequence_expr [ex_strict_call ''a'' Entry] (Some 1) (Some INFINITE_REPETITIONS)))
    (conc (lang d env (ex_strict_call ''b'' Entry)) {[]})"
  from assms(1) obtain n where n: "w \<in> power_lang ?L n" by (subst (asm) ex_reenter_def, subst (asm) lang.simps) auto
  have "lang d env (ex_strict_call ''b'' Entry) = {[l] |l. ?P l}" by (simp add: ex_strict_call_def lang.simps event_lang_def)
  then have "\<forall>w \<in> ?L. \<exists>l \<in> set w. ?P l" by (auto simp: conc_def)
  from power_lang_mentions [OF this n] assms(2) show ?thesis by blast
qed

text \<open>C40.  With unbounded repetition the automaton accepts more than the assertion describes: of
  \<open>a\<close> at least once and then \<open>b\<close>, repeated any number of times, it accepts \<open>a\<close> alone, because the
  inner repetition leads back to the state the outer one starts from.\<close>

theorem repetition_reenters:
  "\<exists>n w s. parse_nfa 0 (ex_strict_env ex_reenter) (Some ex_strict_usage) 0 = Inr n
     \<and> nfa_path (au_graph n) 0 w s \<and> q_accept (g_states (au_graph n) ! s)
     \<and> w \<notin> assertion_lang 0 (ex_strict_env ex_reenter) (Some ex_strict_usage)"
proof -
  let ?ev = "\<lambda>name dir. Fn_t ((ex_event name dir)\<lparr>fe_strict := Some True\<rparr>)"
  let ?w = "[?ev ''main'' Entry, ?ev ''a'' Entry, ?ev ''main'' Exit]"
  have "case parse_nfa 0 (ex_strict_env ex_reenter) (Some ex_strict_usage) 0 of Inl _ \<Rightarrow> False | Inr n \<Rightarrow>
      follow (au_graph n) 0 [0, 2, 3, 1, 8] = Some (?w, 6) \<and> q_accept (g_states (au_graph n) ! 6)" by code_simp
  then obtain n where n: "parse_nfa 0 (ex_strict_env ex_reenter) (Some ex_strict_usage) 0 = Inr n"
    "follow (au_graph n) 0 [0, 2, 3, 1, 8] = Some (?w, 6)" "q_accept (g_states (au_graph n) ! 6)" by (auto split: sum.splits)
  have "?w \<notin> assertion_lang 0 (ex_strict_env ex_reenter) (Some ex_strict_usage)"
  proof
    assume "?w \<in> assertion_lang 0 (ex_strict_env ex_reenter) (Some ex_strict_usage)"
    then have "[?ev ''a'' Entry] \<in> lang 0 (ex_strict_env ex_reenter) ex_reenter"
      by (auto simp: assertion_lang_def bound_lang_def ex_strict_usage_def ex_strict_call_def lang.simps event_lang_def
          conc_def ex_strict_env_def ex_description_def append_eq_Cons_conv Cons_eq_append_conv)
    from reenter_mentions_b [OF this] show False by (simp add: ex_event_def EquivalentTo_iff) code_simp
  qed
  with n follow_path [OF n(2)] show ?thesis by blast
qed

text \<open>Of a conjunction, one side is enough: the automaton of \<open>a\<close> and \<open>b\<close> accepts \<open>a\<close> alone.\<close>

definition ex_both :: expression where
  "ex_both = Boolean_expr BE_And [ex_strict_call ''a'' Entry, ex_strict_call ''b'' Entry]"

lemma conjunction_lost:
  "\<exists>n w s. parse_nfa 0 (ex_strict_env ex_both) (Some ex_strict_usage) 0 = Inr n
     \<and> nfa_path (au_graph n) 0 w s \<and> q_accept (g_states (au_graph n) ! s)
     \<and> w \<notin> assertion_lang 0 (ex_strict_env ex_both) (Some ex_strict_usage)"
proof -
  let ?ev = "\<lambda>name dir. Fn_t ((ex_event name dir)\<lparr>fe_strict := Some True\<rparr>)"
  let ?w = "[?ev ''main'' Entry, ?ev ''a'' Entry, ?ev ''main'' Exit]"
  have "case parse_nfa 0 (ex_strict_env ex_both) (Some ex_strict_usage) 0 of Inl _ \<Rightarrow> False | Inr n \<Rightarrow>
      follow (au_graph n) 0 [0, 3, 1, 5, 7] = Some (?w, 7) \<and> q_accept (g_states (au_graph n) ! 7)" by code_simp
  then obtain n where n: "parse_nfa 0 (ex_strict_env ex_both) (Some ex_strict_usage) 0 = Inr n"
    "follow (au_graph n) 0 [0, 3, 1, 5, 7] = Some (?w, 7)" "q_accept (g_states (au_graph n) ! 7)" by (auto split: sum.splits)
  have "length w = 4" if "w \<in> assertion_lang 0 (ex_strict_env ex_both) (Some ex_strict_usage)" for w
    using that
    by (auto simp: assertion_lang_def bound_lang_def ex_strict_usage_def ex_strict_call_def lang.simps event_lang_def
        conc_def interleave_def ex_strict_env_def ex_description_def ex_both_def)
  then have "?w \<notin> assertion_lang 0 (ex_strict_env ex_both) (Some ex_strict_usage)" by fastforce
  with n follow_path [OF n(2)] show ?thesis by blast
qed

end
