(* ===== verification/Tesla_Manifest.thy ===== *)
theory Tesla_Manifest
  imports Tesla_Assertion
begin

text \<open>
  Manifests (\<open>tesla/common/Manifest.cpp\<close>): the automata of a program, read from a file, compiled
  and looked up by identifier.  The file's bytes and the two parsers of the protocol buffer library
  are parameters.  A \<open>std::map\<close> is the list of its entries in the order of iteration.
\<close>

subsection \<open>Ordered maps\<close>

fun map_put :: "('k \<Rightarrow> 'k \<Rightarrow> bool) \<Rightarrow> 'k \<Rightarrow> 'v \<Rightarrow> ('k \<times> 'v) list \<Rightarrow> ('k \<times> 'v) list" where
  "map_put lt k v [] = [(k, v)]"
| "map_put lt k v ((k', v') # m) =
     (if lt k k' then (k, v) # (k', v') # m
      else if lt k' k then (k', v') # map_put lt k v m
      else (k', v) # m)"

definition map_find :: "('k \<Rightarrow> 'k \<Rightarrow> bool) \<Rightarrow> ('k \<times> 'v) list \<Rightarrow> 'k \<Rightarrow> 'v option" where
  "map_find lt m k = map_option snd (find (\<lambda>(k', v). \<not> lt k' k \<and> \<not> lt k k') m)"

text \<open>What a map needs of its order, on the keys that are \<open>ok\<close>.\<close>

locale key_order =
  fixes lt :: "'k \<Rightarrow> 'k \<Rightarrow> bool" and ok :: "'k \<Rightarrow> bool"
  assumes lt_irrefl: "\<not> lt x x"
    and lt_trans: "ok x \<Longrightarrow> ok y \<Longrightarrow> ok z \<Longrightarrow> lt x y \<Longrightarrow> lt y z \<Longrightarrow> lt x z"
    and lt_total: "ok x \<Longrightarrow> ok y \<Longrightarrow> x \<noteq> y \<Longrightarrow> lt x y \<or> lt y x"
begin

definition ordered :: "('k \<times> 'v) list \<Rightarrow> bool" where
  "ordered m \<longleftrightarrow> sorted_wrt lt (map fst m) \<and> (\<forall>k \<in> fst ` set m. ok k)"

lemma incomparable: "ok x \<Longrightarrow> ok y \<Longrightarrow> \<not> lt x y \<and> \<not> lt y x \<longleftrightarrow> x = y"
  using lt_irrefl lt_total by blast

lemma put_keys: "ok k \<Longrightarrow> \<forall>k' \<in> fst ` set m. ok k' \<Longrightarrow> fst ` set (map_put lt k v m) = insert k (fst ` set m)"
proof (induction m)
  case (Cons x m)
  obtain k' v' where x: "x = (k', v')" by (cases x)
  then show ?case using Cons incomparable [of k k'] by auto
qed simp

lemma ordered_put: "ok k \<Longrightarrow> ordered m \<Longrightarrow> ordered (map_put lt k v m)"
proof (induction m)
  case (Cons x m)
  obtain k' v' where x: "x = (k', v')" by (cases x)
  have o: "ordered m" "ok k'" "\<forall>y \<in> fst ` set m. lt k' y" and oks: "\<forall>y \<in> fst ` set m. ok y"
    using Cons.prems(2) by (auto simp: ordered_def x)
  consider "lt k k'" | "\<not> lt k k'" "lt k' k" | "k = k'"
    using incomparable [OF Cons.prems(1) o(2)] by blast
  then show ?case
  proof cases
    case 1
    then have "\<forall>y \<in> fst ` set m. lt k y" using o(2,3) oks lt_trans Cons.prems(1) by blast
    with 1 Cons.prems show ?thesis by (simp add: ordered_def x)
  next
    case 2
    have "\<forall>y \<in> fst ` set (map_put lt k v m). lt k' y" using put_keys [OF Cons.prems(1) oks] 2(2) o(3) by auto
    with 2 o Cons.IH [OF Cons.prems(1) o(1)] show ?thesis by (simp add: ordered_def x)
  next
    case 3
    with Cons.prems show ?thesis by (simp add: ordered_def x lt_irrefl)
  qed
qed (simp add: ordered_def)

lemma map_of_put: "ok k \<Longrightarrow> ordered m \<Longrightarrow> map_of (map_put lt k v m) = (map_of m)(k \<mapsto> v)"
proof (induction m)
  case (Cons x m)
  obtain k' v' where x: "x = (k', v')" by (cases x)
  have o: "ordered m" "ok k'" using Cons.prems(2) by (auto simp: ordered_def x)
  have "k = k' \<longleftrightarrow> \<not> lt k k' \<and> \<not> lt k' k" using incomparable [OF Cons.prems(1) o(2)] by blast
  then show ?case using Cons.IH [OF Cons.prems(1) o(1)] lt_irrefl by (auto simp: x fun_upd_twist)
qed simp

lemma fold_put:
  "\<forall>x \<in> set xs. ok (f x) \<Longrightarrow> ordered m \<Longrightarrow> ordered (fold (\<lambda>x. map_put lt (f x) x) xs m)
     \<and> map_of (fold (\<lambda>x. map_put lt (f x) x) xs m) = map_of m ++ map_of (rev (map (\<lambda>x. (f x, x)) xs))"
proof (induction xs arbitrary: m)
  case (Cons x xs)
  have "ordered (map_put lt (f x) x m)" "map_of (map_put lt (f x) x m) = (map_of m)(f x \<mapsto> x)"
    using Cons.prems ordered_put map_of_put by auto
  with Cons show ?case by (simp add: map_add_assoc)
qed simp

lemma find_map_of: "ok k \<Longrightarrow> \<forall>k' \<in> fst ` set m. ok k' \<Longrightarrow> map_find lt m k = map_of m k"
proof (induction m)
  case (Cons x m)
  obtain k' v' where x: "x = (k', v')" by (cases x)
  have "\<not> lt k' k \<and> \<not> lt k k' \<longleftrightarrow> k' = k" using incomparable [of k' k] Cons.prems by (auto simp: x)
  with Cons show ?case by (simp add: map_find_def x)
qed (simp add: map_find_def)

end

text \<open>Names come before locations.\<close>

lemma location_before:
  assumes "proper_identifier x" and "proper_identifier y" and "identifier_less x y" and "id_name x = None"
  shows "id_name y = None"
  using assms
  by (auto simp: identifier_less_def proper_identifier_def location_less_def getD_def no_location_def
      split: option.splits if_splits elim: string_less.elims)

lemma identifier_less_trans:
  assumes "proper_identifier x" and "proper_identifier y" and "proper_identifier z"
    and "identifier_less x y" and "identifier_less y z"
  shows "identifier_less x z"
proof (cases "id_name x")
  case None
  moreover from location_before [OF assms(1,2,4) None] have "id_name y = None" .
  moreover from location_before [OF assms(2,3,5) this] have "id_name z = None" .
  ultimately show ?thesis using assms(4,5) location_less_trans by (auto simp: identifier_less_def)
next
  case (Some a)
  then show ?thesis
    using location_before [OF assms(2,3,5)] assms(4,5)
    by (cases "id_name y"; cases "id_name z") (auto simp: identifier_less_def intro: string_less_trans)
qed

interpretation ids: key_order identifier_less proper_identifier
proof
  show "\<not> identifier_less x x" for x
    by (simp add: identifier_less_def location_less_irrefl split: option.split)
qed (use identifier_less_trans identifier_incomparable in blast)+

subsection \<open>Loading a manifest\<close>

record manifest_file =
  mf_automaton :: "automaton_description list"
  mf_root :: "usage list"

datatype automaton_type = Unlinked | Linked | Deterministic

record manifest =
  ma_descriptions :: "(ir_identifier \<times> automaton_description) list"
  ma_automata :: "(ir_identifier \<times> automaton) list"
  ma_roots :: "usage list"
  ma_lifetimes :: "automaton_lifetime list"

definition FindAutomaton :: "manifest \<Rightarrow> ir_identifier \<Rightarrow> automaton res" where
  "FindAutomaton m i = (case map_find identifier_less (ma_automata m) i of
     None \<Rightarrow> Inl (Panic (''TESLA manifest does not contain assertion '' @ identifier_name i))
   | Some a \<Rightarrow> Inr a)"

definition FindAutomaton_at :: "manifest \<Rightarrow> ir_location \<Rightarrow> automaton res" where
  "FindAutomaton_at m l = FindAutomaton m \<lparr>id_name = None, id_location = Some l\<rparr>"

text \<open>\<open>StringRef::ltrim\<close> and \<open>startswith\<close>.\<close>

definition ltrim :: "string \<Rightarrow> string" where
  "ltrim s = dropWhile (\<lambda>c. c \<in> {CHR '' '', CHR 0x09, CHR 0x0A, CHR 0x0B, CHR 0x0C, CHR 0x0D}) s"

definition startswith :: "string \<Rightarrow> string \<Rightarrow> bool" where
  "startswith s p \<longleftrightarrow> take (length p) s = p"

definition TextFormat :: "string \<Rightarrow> bool" where
  "TextFormat buf \<longleftrightarrow> startswith (ltrim buf) ''automaton'' \<or> startswith (ltrim buf) ''#line 1''
     \<or> startswith (ltrim buf) ''# 1''"

text \<open>\<open>std::find\<close> over lifetimes.\<close>

fun has_lifetime :: "automaton_lifetime list \<Rightarrow> automaton_lifetime \<Rightarrow> bool res" where
  "has_lifetime [] l = Inr False"
| "has_lifetime (x # xs) l = bindE (lifetime_eq x l) (\<lambda>b. if b then Inr True else has_lifetime xs l)"

definition add_lifetime :: "automaton_lifetime list \<Rightarrow> automaton_lifetime \<Rightarrow> automaton_lifetime list res" where
  "add_lifetime ls l =
     (if al_init l = None then Inr ls
      else bindE (has_lifetime ls l) (\<lambda>b.
        if b then Inr ls
        else bindE (lifetime_eq l l) (\<lambda>same.
             bindE (assertE ''Lifetimes.back() == L'' same) (\<lambda>_. Inr (ls @ [l])))))"

text \<open>The options \<open>depth\<close> and \<open>xor_only\<close> are those of the parser.\<close>

definition build_automaton ::
  "nat \<Rightarrow> bool \<Rightarrow> automaton_type \<Rightarrow> (ir_identifier \<times> automaton_description) list \<Rightarrow> usage option \<Rightarrow> nat
    \<Rightarrow> automaton_description \<Rightarrow> automaton res" where
  "build_automaton depth xor_only ty ds use i d =
     bindE (NFA_Parse xor_only d use i) (\<lambda>n.
       if ty = Unlinked then Inr n
       else bindE (NFA_Link depth xor_only n ds) (\<lambda>n'.
         if ty = Linked then Inr n' else ConstructDFA n'))"

fun load_loop ::
  "nat \<Rightarrow> bool \<Rightarrow> automaton_type \<Rightarrow> (ir_identifier \<times> automaton_description) list \<Rightarrow> (ir_identifier \<times> usage) list
    \<Rightarrow> (ir_identifier \<times> automaton_description) list \<Rightarrow> nat \<Rightarrow> (ir_identifier \<times> automaton) list
    \<Rightarrow> automaton_lifetime list \<Rightarrow> ((ir_identifier \<times> automaton) list \<times> automaton_lifetime list) res" where
  "load_loop depth xor_only ty ds uses [] i automata lifetimes = Inr (automata, lifetimes)"
| "load_loop depth xor_only ty ds uses ((k, d) # todo) i automata lifetimes =
     bindE (build_automaton depth xor_only ty ds (map_find identifier_less uses k) i d) (\<lambda>a.
     bindE (add_lifetime lifetimes (getLifetime a)) (\<lambda>lifetimes'.
       load_loop depth xor_only ty ds uses todo (Suc i) (map_put identifier_less k a automata) lifetimes'))"

definition descriptions :: "automaton_description list \<Rightarrow> (ir_identifier \<times> automaton_description) list" where
  "descriptions as = fold (\<lambda>a. map_put identifier_less (ad_identifier a) a) as []"

definition root_uses :: "usage list \<Rightarrow> (ir_identifier \<times> usage) list" where
  "root_uses us = fold (\<lambda>u. map_put identifier_less (us_identifier u) u) us []"

text \<open>\<open>contents\<close> is what \<open>MemoryBuffer::getFile\<close> gives: a message or the bytes of the file.  What is
  printed to the error stream comes with the result.\<close>

definition manifest_load ::
  "(string \<Rightarrow> manifest_file option) \<Rightarrow> (string \<Rightarrow> manifest_file option) \<Rightarrow> nat \<Rightarrow> bool \<Rightarrow> automaton_type \<Rightarrow> string
    \<Rightarrow> string + string \<Rightarrow> (string \<times> manifest option) res" where
  "manifest_load parse_text parse_binary depth xor_only ty path contents = (case contents of
     Inl message \<Rightarrow>
       Inr (''Failed to open TESLA analysis file '' @ [CHR 0x27] @ path @ [CHR 0x27] @ '': '' @ message @ [CHR 0x0A], None)
   | Inr buf \<Rightarrow>
       (case (if TextFormat buf then parse_text buf else parse_binary buf) of
          None \<Rightarrow>
            Inr (''Error parsing TESLA manifest '' @ [CHR 0x27] @ path @ [CHR 0x27] @ '' (in ''
              @ (if TextFormat buf then ''text'' else ''binary'') @ '' format)'' @ [CHR 0x0A], None)
        | Some f \<Rightarrow>
            let ds = descriptions (mf_automaton f) in
            bindE (load_loop depth xor_only ty ds (root_uses (mf_root f)) ds 0 [] []) (\<lambda>(automata, lifetimes).
              Inr ([], Some \<lparr>ma_descriptions = ds, ma_automata = automata, ma_roots = mf_root f,
                ma_lifetimes = lifetimes\<rparr>))))"

subsection \<open>What a loaded manifest holds\<close>

lemma ordered_Nil [simp]: "ids.ordered []"
  by (simp add: ids.ordered_def)

lemma ordered_distinct: "ids.ordered m \<Longrightarrow> distinct (map fst m)"
proof (induction m)
  case (Cons x m)
  then show ?case using ids.lt_irrefl by (fastforce simp: ids.ordered_def)
qed simp

abbreviation by_identifier :: "('a \<Rightarrow> ir_identifier) \<Rightarrow> 'a list \<Rightarrow> ir_identifier \<rightharpoonup> 'a" where
  "by_identifier f xs \<equiv> map_of (rev (map (\<lambda>x. (f x, x)) xs))"

lemma descriptions_map:
  assumes "\<forall>a \<in> set as. proper_identifier (ad_identifier a)"
  shows "ids.ordered (descriptions as)" and "map_of (descriptions as) = by_identifier ad_identifier as"
  using ids.fold_put [OF assms ordered_Nil] by (simp_all add: descriptions_def)

lemma root_uses_map:
  assumes "\<forall>u \<in> set us. proper_identifier (us_identifier u)"
  shows "ids.ordered (root_uses us)" and "map_of (root_uses us) = by_identifier us_identifier us"
  using ids.fold_put [OF assms ordered_Nil] by (simp_all add: root_uses_def)

lemma load_loop_finds:
  "load_loop depth x ty ds uses todo i am ls = Inr (am', ls') \<Longrightarrow> ids.ordered am
     \<Longrightarrow> \<forall>k \<in> fst ` set todo. proper_identifier k \<Longrightarrow> distinct (map fst todo)
     \<Longrightarrow> ids.ordered am' \<and> (\<forall>k. k \<notin> fst ` set todo \<longrightarrow> map_of am' k = map_of am k)
       \<and> (\<forall>(k, d) \<in> set todo. \<exists>a j. map_of am' k = Some a
            \<and> build_automaton depth x ty ds (map_find identifier_less uses k) j d = Inr a)"
proof (induction todo arbitrary: i am ls)
  case (Cons y todo)
  obtain k d where y: "y = (k, d)" by (cases y)
  from Cons.prems(1) obtain a ls1 where
    a: "build_automaton depth x ty ds (map_find identifier_less uses k) i d = Inr a"
    and rest: "load_loop depth x ty ds uses todo (Suc i) (map_put identifier_less k a am) ls1 = Inr (am', ls')"
    by (auto simp: y E_eq_Inr)
  have k: "proper_identifier k" "k \<notin> fst ` set todo" using Cons.prems(3,4) by (auto simp: y)
  note put = ids.ordered_put [OF k(1) Cons.prems(2)] ids.map_of_put [OF k(1) Cons.prems(2)]
  have IH: "ids.ordered am'" "\<And>k'. k' \<notin> fst ` set todo \<Longrightarrow> map_of am' k' = map_of (map_put identifier_less k a am) k'"
    "\<And>k d. (k, d) \<in> set todo \<Longrightarrow> \<exists>a j. map_of am' k = Some a
            \<and> build_automaton depth x ty ds (map_find identifier_less uses k) j d = Inr a"
    using Cons.IH [OF rest put(1)] Cons.prems(3,4) by (auto simp: y)
  have "map_of am' k = Some a" using IH(2) [OF k(2)] put(2) by simp
  with a IH show ?case by (auto simp: y put(2))
qed simp

lemma linked_below_limit:
  assumes "build_automaton depth x ty ds use i d = Inr a" and "ty \<noteq> Unlinked"
  shows "i < 1000"
proof -
  from assms obtain n where "NFA_Parse x d use i = Inr n" "au_id n < 1000"
    by (auto simp: build_automaton_def NFA_Link_def E_eq_Inr assertE_def split: if_splits)
  with parse_nfa_graph(5) show ?thesis by (auto simp: NFA_Parse_def)
qed

lemma load_loop_limit:
  "load_loop depth x ty ds uses todo i am ls = Inr r \<Longrightarrow> ty \<noteq> Unlinked \<Longrightarrow> i \<le> 1000 \<Longrightarrow> i + length todo \<le> 1000"
proof (induction todo arbitrary: i am ls)
  case (Cons y todo)
  obtain k d where y: "y = (k, d)" by (cases y)
  from Cons.prems(1) obtain a am1 ls1 where
    a: "build_automaton depth x ty ds (map_find identifier_less uses k) i d = Inr a"
    and rest: "load_loop depth x ty ds uses todo (Suc i) am1 ls1 = Inr r"
    by (auto simp: y E_eq_Inr)
  with Cons.IH [OF rest Cons.prems(2)] linked_below_limit [OF a Cons.prems(2)] show ?case by simp
qed simp

lemma manifest_load_Some:
  assumes "manifest_load pt pb depth x ty path contents = Inr (msg, Some m)"
  obtains buf f am where "contents = Inr buf" and "(if TextFormat buf then pt buf else pb buf) = Some f"
    and "load_loop depth x ty (descriptions (mf_automaton f)) (root_uses (mf_root f)) (descriptions (mf_automaton f)) 0 [] []
      = Inr (am, ma_lifetimes m)"
    and "ma_automata m = am"
  using assms by (auto simp: manifest_load_def Let_def E_eq_Inr split: sum.splits option.splits)

lemma has_lifetime_iff:
  "has_lifetime ls l = Inr b \<Longrightarrow> (if b then \<exists>x \<in> set ls. lifetime_eq x l = Inr True else \<forall>x \<in> set ls. lifetime_eq x l = Inr False)"
  by (induction ls) (auto simp: E_eq_Inr split: if_splits)

definition unique_lifetimes :: "automaton_lifetime list \<Rightarrow> bool" where
  "unique_lifetimes ls \<longleftrightarrow> sorted_wrt (\<lambda>x y. lifetime_eq x y = Inr False) ls"

lemma add_lifetime_ok:
  assumes "add_lifetime ls l = Inr ls'" and "unique_lifetimes ls"
  shows "unique_lifetimes ls' \<and> set ls \<subseteq> set ls' \<and> (al_init l \<noteq> None \<longrightarrow> (\<exists>x \<in> set ls'. lifetime_eq x l = Inr True))"
  using assms has_lifetime_iff [of ls l]
  by (auto simp: add_lifetime_def E_eq_Inr assertE_def unique_lifetimes_def sorted_wrt_append split: if_splits)

lemma put_values: "snd ` set (map_put lt k v m) \<subseteq> insert v (snd ` set m)"
proof (induction m)
  case (Cons x m)
  then show ?case by (cases x) auto
qed simp

definition lifetimes_cover :: "automaton_lifetime list \<Rightarrow> automaton set \<Rightarrow> bool" where
  "lifetimes_cover ls as \<longleftrightarrow>
     (\<forall>a \<in> as. al_init (getLifetime a) \<noteq> None \<longrightarrow> (\<exists>l \<in> set ls. lifetime_eq l (getLifetime a) = Inr True))"

lemma load_loop_lifetimes:
  "load_loop depth x ty ds uses todo i am ls = Inr (am', ls') \<Longrightarrow> unique_lifetimes ls \<Longrightarrow> lifetimes_cover ls (snd ` set am)
     \<Longrightarrow> unique_lifetimes ls' \<and> lifetimes_cover ls' (snd ` set am')"
proof (induction todo arbitrary: i am ls)
  case (Cons y todo)
  obtain k d where y: "y = (k, d)" by (cases y)
  from Cons.prems(1) obtain a ls1 where l: "add_lifetime ls (getLifetime a) = Inr ls1"
    and rest: "load_loop depth x ty ds uses todo (Suc i) (map_put identifier_less k a am) ls1 = Inr (am', ls')"
    by (auto simp: y E_eq_Inr)
  note add = add_lifetime_ok [OF l Cons.prems(2)]
  have "lifetimes_cover ls1 (insert a (snd ` set am))" using Cons.prems(3) add unfolding lifetimes_cover_def by blast
  then have "lifetimes_cover ls1 (snd ` set (map_put identifier_less k a am))"
    unfolding lifetimes_cover_def using put_values [of identifier_less k a am] by blast
  with add show ?case by (intro Cons.IH [OF rest]) blast+
qed simp

subsection \<open>Properties of manifests\<close>

definition ex_file :: manifest_file where
  "ex_file = \<lparr>mf_automaton = [ex_description ex_assertion], mf_root = [ex_usage]\<rparr>"

definition ex_load :: "(string \<times> manifest option) res" where
  "ex_load = manifest_load (\<lambda>_. Some ex_file) (\<lambda>_. None) 0 True Deterministic ''.tesla'' (Inr ''automaton'')"

lemma ex_loaded: "\<exists>m. ex_load = Inr ([], Some m)"
proof -
  have "case ex_load of Inr (msg, Some m) \<Rightarrow> msg = [] | _ \<Rightarrow> False" by code_simp
  then show ?thesis by (auto split: sum.splits option.splits)
qed

lemma ex_text: "TextFormat ''automaton''"
  by code_simp

text \<open>C37.  After a manifest is loaded, every automaton it describes is found by its identifier: what is
  found is compiled from the last description with that identifier, with the last root usage of
  that identifier as its bounds, and against all the descriptions.\<close>

theorem manifest_finds:
  assumes "manifest_load pt pb depth x ty path (Inr buf) = Inr (msg, Some m)"
    and "(if TextFormat buf then pt buf else pb buf) = Some f"
    and "\<forall>a \<in> set (mf_automaton f). proper_identifier (ad_identifier a)"
    and "\<forall>u \<in> set (mf_root f). proper_identifier (us_identifier u)"
    and "by_identifier ad_identifier (mf_automaton f) k = Some d"
  shows "\<exists>a j. FindAutomaton m k = Inr a
    \<and> build_automaton depth x ty (descriptions (mf_automaton f)) (by_identifier us_identifier (mf_root f) k) j d = Inr a"
proof -
  from assms(1) obtain buf' f' am where f': "Inr buf = (Inr buf' :: string + string)" "(if TextFormat buf' then pt buf' else pb buf') = Some f'"
    and l': "load_loop depth x ty (descriptions (mf_automaton f')) (root_uses (mf_root f')) (descriptions (mf_automaton f')) 0 [] []
      = Inr (am, ma_lifetimes m)" and m: "ma_automata m = am" by (rule manifest_load_Some)
  have "f' = f" using f' assms(2) by (auto split: if_splits)
  note l = l' [unfolded this]
  note ds = descriptions_map [OF assms(3)] and us = root_uses_map [OF assms(4)]
  have "map_of (descriptions (mf_automaton f)) k = Some d" using assms(5) ds(2) by simp
  then have kd: "(k, d) \<in> set (descriptions (mf_automaton f))" by (rule map_of_SomeD)
  have ok: "\<forall>k \<in> fst ` set (descriptions (mf_automaton f)). proper_identifier k" using ds(1) by (simp add: ids.ordered_def)
  then have k: "proper_identifier k" using kd by force
  note r = load_loop_finds [OF l ordered_Nil ok ordered_distinct [OF ds(1)]]
  with kd obtain a j where a: "map_of am k = Some a"
    "build_automaton depth x ty (descriptions (mf_automaton f)) (map_find identifier_less (root_uses (mf_root f)) k) j d = Inr a"
    by blast
  have "map_find identifier_less am k = map_of am k"
    by (rule ids.find_map_of [OF k]) (use r in \<open>simp add: ids.ordered_def\<close>)
  moreover have "map_find identifier_less (root_uses (mf_root f)) k = map_of (root_uses (mf_root f)) k"
    by (rule ids.find_map_of [OF k]) (use us(1) in \<open>simp add: ids.ordered_def\<close>)
  ultimately show ?thesis using a m us(2) by (auto simp: FindAutomaton_def)
qed

theorem manifest_finds_witness:
  "\<exists>m a j. ex_load = Inr ([], Some m) \<and> FindAutomaton m ex_id = Inr a
     \<and> build_automaton 0 True Deterministic (descriptions [ex_description ex_assertion]) (Some ex_usage) j
         (ex_description ex_assertion) = Inr a"
proof -
  from ex_loaded obtain m where m: "ex_load = Inr ([], Some m)" by blast
  from manifest_finds [OF m [unfolded ex_load_def], of ex_file ex_id "ex_description ex_assertion"] m ex_text show ?thesis
    by (intro exI [of _ m]) (simp add: ex_file_def ex_description_def ex_usage_def proper_identifier_def ex_id_def ex_site_def)
qed

text \<open>C38.  The lifetimes of a loaded manifest are those of its automata, each once: no two of them are
  equal, and the lifetime of every automaton that has a beginning is among them.\<close>

theorem manifest_lifetimes:
  assumes "manifest_load pt pb depth x ty path contents = Inr (msg, Some m)"
  shows "unique_lifetimes (ma_lifetimes m) \<and> lifetimes_cover (ma_lifetimes m) (snd ` set (ma_automata m))"
proof -
  from assms obtain buf f am where "contents = Inr buf" "(if TextFormat buf then pt buf else pb buf) = Some f"
    and l: "load_loop depth x ty (descriptions (mf_automaton f)) (root_uses (mf_root f)) (descriptions (mf_automaton f)) 0 [] []
      = Inr (am, ma_lifetimes m)" and m: "ma_automata m = am" by (rule manifest_load_Some)
  show ?thesis using load_loop_lifetimes [OF l] by (simp add: m unique_lifetimes_def lifetimes_cover_def)
qed

theorem manifest_lifetimes_witness: "\<exists>m. ex_load = Inr ([], Some m) \<and> unique_lifetimes (ma_lifetimes m)"
  using ex_loaded manifest_lifetimes [of "\<lambda>_. Some ex_file" "\<lambda>_. None" 0 True Deterministic "''.tesla''" "Inr ''automaton''"]
  unfolding ex_load_def by blast

text \<open>A manifest with more than a thousand automata cannot be loaded for instrumentation: linking
  stops at an assertion on the automaton's number.\<close>

theorem manifest_limit:
  assumes "1000 < card (ad_identifier ` set (mf_automaton f))" and "ty \<noteq> Unlinked"
    and "\<forall>a \<in> set (mf_automaton f). proper_identifier (ad_identifier a)"
    and "(if TextFormat buf then pt buf else pb buf) = Some f"
  shows "\<exists>e. manifest_load pt pb depth x ty path (Inr buf) = Inl e"
proof (rule ccontr)
  assume "\<not> ?thesis"
  then obtain msg r where "manifest_load pt pb depth x ty path (Inr buf) = Inr (msg, r)"
    by (cases "manifest_load pt pb depth x ty path (Inr buf)") auto
  with assms(4) obtain r where
    l: "load_loop depth x ty (descriptions (mf_automaton f)) (root_uses (mf_root f)) (descriptions (mf_automaton f)) 0 [] [] = Inr r"
    by (auto simp: manifest_load_def Let_def E_eq_Inr)
  note ds = descriptions_map [OF assms(3)]
  have "length (descriptions (mf_automaton f)) = card (fst ` set (descriptions (mf_automaton f)))"
    using distinct_card [OF ordered_distinct [OF ds(1)]] by simp
  also have "fst ` set (descriptions (mf_automaton f)) = ad_identifier ` set (mf_automaton f)"
    unfolding dom_map_of_conv_image_fst [symmetric] ds(2) by (force simp: dom_map_of_conv_image_fst image_iff)
  finally show False using load_loop_limit [OF l assms(2)] assms(1) by simp
qed

definition ex_many :: "automaton_description list" where
  "ex_many = map (\<lambda>n. (ex_description Null_expr)\<lparr>ad_identifier :=
     \<lparr>id_name = None, id_location = Some (ex_site\<lparr>loc_line := int n\<rparr>)\<rparr>\<rparr>) [0..<1001]"

theorem manifest_limit_witness:
  "\<exists>e. manifest_load (\<lambda>_. Some \<lparr>mf_automaton = ex_many, mf_root = []\<rparr>) (\<lambda>_. None) 0 True Linked ''.tesla'' (Inr ''automaton'') = Inl e"
proof (rule manifest_limit)
  let ?id = "\<lambda>n. \<lparr>id_name = None, id_location = Some (ex_site\<lparr>loc_line := int n\<rparr>)\<rparr>"
  have "ad_identifier ` set ex_many = ?id ` {0..<1001}" by (simp add: ex_many_def image_image)
  moreover have "inj_on ?id {0..<1001}" by (auto simp: inj_on_def ex_site_def)
  ultimately show "1000 < card (ad_identifier ` set (mf_automaton \<lparr>mf_automaton = ex_many, mf_root = []\<rparr>))"
    by (simp add: card_image)
qed (auto simp: ex_many_def proper_identifier_def ex_site_def ex_text)

end
