(* ===== verification/Tesla_Callee.thy ===== *)
theory Tesla_Callee
  imports Tesla_Module Tesla_Manifest
begin

text \<open>
  The pass that instruments functions from the inside (\<open>Callee.cpp\<close>).  For every lifetime and for
  every symbol of an automaton that is a call or return seen by the callee, the translation function
  of the target gets a translator, and the target calls its translation function on entry or before
  it returns.  The state is the module and the two maps of translation functions.

  Objective-C: a message whose selector is sent in the module (\<open>sends\<close>, from the metadata of the
  module's calls) ends in an assertion that the new interface be used; others are left alone.
\<close>

subsection \<open>The pass\<close>

record callee_pass =
  cp_mod :: modul
  cp_entry :: "(string \<times> translation_fn) list"
  cp_exit :: "(string \<times> translation_fn) list"

text \<open>A function that is defined in the module and whose event is seen in the callee.\<close>

definition callee_target :: "modul \<Rightarrow> function_event \<Rightarrow> fn option" where
  "callee_target m ev =
     (if fn_context ev \<noteq> Callee then None
      else case getFunction m (fe_function ev) of
        None \<Rightarrow> None
      | Some f \<Rightarrow> if fn_blocks f = [] then None else Some f)"

definition GetOrCreateInstr :: "bool \<Rightarrow> fn \<Rightarrow> function_event \<Rightarrow> callee_pass \<Rightarrow> (callee_pass \<times> translation_fn) res" where
  "GetOrCreateInstr suppress f ev p =
     (let name = fe_function ev in
      case fn_direction ev of
        Entry \<Rightarrow>
          (case map_of (cp_entry p) name of
             Some t \<Rightarrow> Inr (p, t)
           | None \<Rightarrow>
               bindE (CreateInstrFn suppress ev f (cp_mod p)) (\<lambda>(m, t).
                 Inr (p\<lparr>cp_mod := in_fn (fn_name f) (hook_entry (fst t)) m, cp_entry := (name, t) # cp_entry p\<rparr>, t)))
      | Exit \<Rightarrow>
          (case map_of (cp_exit p) name of
             Some t \<Rightarrow> Inr (p, t)
           | None \<Rightarrow>
               bindE (CreateInstrFn suppress ev f (cp_mod p)) (\<lambda>(m, t).
               bindE (derefE ''F'' (getFunction m (fn_name f))) (\<lambda>f1.
               bindE (hook_exit (fst t) f1) (\<lambda>f2.
                 Inr (p\<lparr>cp_mod := put_fn f2 m, cp_exit := (name, t) # cp_exit p\<rparr>, t))))))"

text \<open>One end of a lifetime.  \<open>None\<close>: \<open>continue\<close>.\<close>

definition lifetime_hook ::
  "(function_event + field_assignment \<Rightarrow> string option) \<Rightarrow> bool \<Rightarrow> bool \<Rightarrow> automaton_lifetime \<Rightarrow> edge option \<Rightarrow> callee_pass
    \<Rightarrow> callee_pass option res" where
  "lifetime_hook ser suppress sunrise l e p = (case map_option e_label e of
     Some (Fn_t ev) \<Rightarrow>
       (case callee_target (cp_mod p) ev of
          None \<Rightarrow> Inr None
        | Some f \<Rightarrow>
            bindE (GetOrCreateInstr suppress f ev p) (\<lambda>(p1, t).
            bindE (add_event ev (if sunrise then ''enter_lifetime'' else ''exit_lifetime'') t (cp_mod p1)) (\<lambda>(m2, instr).
            bindE (BuildLifetime ser l m2) (\<lambda>(m3, name).
              let lifetime = Global name (StructT ''tesla_lifetime'');
                  call = (if sunrise then CallSunrise else CallSunset) (al_context l) lifetime instr
              in Inr (Some (p1\<lparr>cp_mod := in_fn (fst t) call m3\<rparr>))))))
   | _ \<Rightarrow> Inr (Some p))"

fun lifetimes_loop ::
  "(function_event + field_assignment \<Rightarrow> string option) \<Rightarrow> bool \<Rightarrow> automaton_lifetime list \<Rightarrow> callee_pass \<Rightarrow> callee_pass res" where
  "lifetimes_loop ser suppress [] p = Inr p"
| "lifetimes_loop ser suppress (l # ls) p =
     bindE (lifetime_hook ser suppress True l (al_init l) p) (\<lambda>r1. case r1 of
       None \<Rightarrow> lifetimes_loop ser suppress ls p
     | Some p1 \<Rightarrow>
         bindE (lifetime_hook ser suppress False l (al_cleanup l) p1) (\<lambda>r2.
           lifetimes_loop ser suppress ls (case r2 of None \<Rightarrow> p1 | Some p2 \<Rightarrow> p2)))"

definition objc_instrument :: "(string \<Rightarrow> bool) \<Rightarrow> function_event \<Rightarrow> unit res" where
  "objc_instrument sends ev =
     (if fn_kind ev = ObjCSuperMessage then Inl (Undefined ''Unsupported instrumentation kind'')
      else assertE ''use new API'' (\<not> sends (fe_function ev)))"

text \<open>The functions of the Objective-C runtime that are declared for the first message, whether or not it is
  sent here; declaring them again changes nothing.\<close>

definition ObjCInstrumentation :: "modul \<Rightarrow> modul" where
  "ObjCInstrumentation m =
     fst (getOrInsertFunction ''objc_registerTracingHook'' [CharPtrT, PtrT (OtherT ''tracing hook'')] Int32T False
       (fst (getOrInsertFunction ''sel_registerName'' [CharPtrT] CharPtrT False m)))"

text \<open>One symbol of an automaton, and whether the module was changed.\<close>

definition class_hook ::
  "bool \<Rightarrow> (string \<Rightarrow> bool) \<Rightarrow> automaton \<Rightarrow> nat \<Rightarrow> bool \<times> callee_pass \<Rightarrow> (bool \<times> callee_pass) res" where
  "class_hook suppress sends a x = (\<lambda>(modified, p).
     bindE (assertE ''!EquivClass.empty()'' (au_classes a ! x \<noteq> [])) (\<lambda>_.
       let e = au_edge a (hd (au_classes a ! x)) in
       case e_label e of
         Fn_t ev \<Rightarrow>
           if e_init e \<or> e_cleanup e then Inr (modified, p)
           else if fn_kind ev \<noteq> CCall then bindE (objc_instrument sends ev) (\<lambda>_. Inr (modified, p\<lparr>cp_mod := ObjCInstrumentation (cp_mod p)\<rparr>))
           else (case callee_target (cp_mod p) ev of
               None \<Rightarrow> Inr (modified, p)
             | Some f \<Rightarrow>
                 bindE (GetOrCreateInstr suppress f ev p) (\<lambda>(p1, t).
                 bindE (add_event ev (au_name a) t (cp_mod p1)) (\<lambda>(m2, instr).
                   let m3 = in_fn (fst t) (CallUpdateState a x instr) (ExternalDescription a m2)
                   in Inr (True, p1\<lparr>cp_mod := m3\<rparr>))))
       | _ \<Rightarrow> Inr (modified, p)))"

fun classes_loop ::
  "bool \<Rightarrow> (string \<Rightarrow> bool) \<Rightarrow> automaton \<Rightarrow> nat list \<Rightarrow> bool \<times> callee_pass \<Rightarrow> (bool \<times> callee_pass) res" where
  "classes_loop suppress sends a [] p = Inr p"
| "classes_loop suppress sends a (x # xs) p = bindE (class_hook suppress sends a x p) (classes_loop suppress sends a xs)"

fun roots_loop ::
  "bool \<Rightarrow> (string \<Rightarrow> bool) \<Rightarrow> manifest \<Rightarrow> usage list \<Rightarrow> bool \<times> callee_pass \<Rightarrow> (bool \<times> callee_pass) res" where
  "roots_loop suppress sends mf [] p = Inr p"
| "roots_loop suppress sends mf (u # us) p =
     bindE (FindAutomaton mf (us_identifier u)) (\<lambda>a.
     bindE (classes_loop suppress sends a [0..<length (au_classes a)] p) (roots_loop suppress sends mf us))"

text \<open>The result is what the pass manager is told and the module.\<close>

definition callee_runOnModule ::
  "(function_event + field_assignment \<Rightarrow> string option) \<Rightarrow> bool \<Rightarrow> (string \<Rightarrow> bool) \<Rightarrow> manifest \<Rightarrow> modul \<Rightarrow> (bool \<times> modul) res" where
  "callee_runOnModule ser suppress sends mf m =
     bindE (lifetimes_loop ser suppress (ma_lifetimes mf)
              \<lparr>cp_mod = InstrContext_Create suppress m, cp_entry = [], cp_exit = []\<rparr>) (\<lambda>p.
     bindE (roots_loop suppress sends mf (ma_roots mf) (False, p)) (\<lambda>(modified, p'). Inr (modified, cp_mod p')))"

end
