(* ===== verification/Tesla_Blocks.thy ===== *)
theory Tesla_Blocks
  imports Tesla_LLVM
begin

text \<open>
  Reasoning about functions in the intermediate language: well-formedness of their blocks, and runs
  from a block to one of several exits.  Redirecting the branches to an exit to a new part composes
  the run to that exit with the run of the part, which is how the instrumenter extends functions.
\<close>

subsection \<open>Blocks\<close>

fun targets :: "term_inst option \<Rightarrow> nat set" where
  "targets (Some (Br b)) = {b}"
| "targets (Some (CondBr c b e)) = {b, e}"
| "targets _ = {}"

definition wf_fn :: "fn \<Rightarrow> bool" where
  "wf_fn f \<longleftrightarrow> (\<forall>b. b < length (fn_blocks f) \<longleftrightarrow> block_at f b \<noteq> None)
     \<and> (\<forall>b x. block_at f b = Some x \<longrightarrow> targets (bb_term x) \<subseteq> {..<length (fn_blocks f)})"

lemma wf_fnD:
  assumes "wf_fn f"
  shows "b < length (fn_blocks f) \<Longrightarrow> \<exists>x. block_at f b = Some x" and "block_at f b = Some x \<Longrightarrow> b < length (fn_blocks f)"
    and "block_at f b = Some x \<Longrightarrow> c \<in> targets (bb_term x) \<Longrightarrow> c < length (fn_blocks f)"
  using assms by (auto simp: wf_fn_def) blast

lemma wf_fnI:
  assumes "\<And>b. block_at f b \<noteq> None \<longleftrightarrow> b < length (fn_blocks f)"
    and "\<And>b x c. block_at f b = Some x \<Longrightarrow> c \<in> targets (bb_term x) \<Longrightarrow> c < length (fn_blocks f)"
  shows "wf_fn f"
  unfolding wf_fn_def using assms by auto

lemma wf_at: "wf_fn f \<Longrightarrow> block_at f b \<noteq> None \<longleftrightarrow> b < length (fn_blocks f)"
  by (simp add: wf_fn_def)

abbreviation nblocks :: "fn \<Rightarrow> nat" where
  "nblocks f \<equiv> length (fn_blocks f)"

lemma map_of_insert_before:
  assumes "k \<notin> fst ` set xs"
  shows "map_of (takeWhile P xs @ (k, v) # dropWhile P xs) = (map_of xs)(k \<mapsto> v)"
proof -
  have "map_of xs = map_of (dropWhile P xs) ++ map_of (takeWhile P xs)"
    by (metis map_of_append takeWhile_dropWhile_id)
  moreover have "map_of (takeWhile P xs) k = None"
    using assms by (auto simp: map_of_eq_None_iff dest: set_takeWhileD)
  ultimately show ?thesis by (auto simp: map_add_def split: option.split)
qed

lemma length_while_split: "length (takeWhile P xs) + length (dropWhile P xs) = length xs"
  by (induction xs) auto

lemma create_block_at:
  assumes "create_block nm before f = (f', b)" and "wf_fn f"
  shows "block_at f' c = (if c = b then Some \<lparr>bb_name = nm, bb_insts = [], bb_term = None\<rparr> else block_at f c)"
    and "b = nblocks f" and "nblocks f' = Suc (nblocks f)" and "fn_params f' = fn_params f" and "wf_fn f'"
proof -
  have new: "nblocks f \<notin> fst ` set (fn_blocks f)"
    using assms(2) by (metis block_at_def less_irrefl_nat map_of_eq_None_iff wf_fn_def)
  then have "map_of (fn_blocks f) (nblocks f) = None" by (simp add: map_of_eq_None_iff)
  then show at: "block_at f' c = (if c = b then Some \<lparr>bb_name = nm, bb_insts = [], bb_term = None\<rparr> else block_at f c)" for c
    using assms(1) map_of_insert_before [OF new]
    by (auto simp: create_block_def block_at_def Let_def map_add_def split: option.splits)
  show b: "b = nblocks f" and n: "nblocks f' = Suc (nblocks f)" "fn_params f' = fn_params f"
    using assms(1) length_while_split [of _ "fn_blocks f"]
    by (auto simp: create_block_def Let_def split: option.splits)
  show "wf_fn f'"
  proof (rule wf_fnI)
    show "block_at f' c \<noteq> None \<longleftrightarrow> c < nblocks f'" for c using wf_at [OF assms(2), of c] by (auto simp: at n b)
    show "c < nblocks f'" if "block_at f' d = Some x" "c \<in> targets (bb_term x)" for c d x
      using wf_fnD(3) [OF assms(2)] that by (auto simp: at n b less_SucI split: if_splits)
  qed
qed

lemma map_of_map_key:
  "map_of (map (\<lambda>(n, x). if n = b then (n, h x) else (n, x)) xs) c = (if c = b then map_option h (map_of xs c) else map_of xs c)"
  by (induction xs) auto

lemma map_block_at: "block_at (map_block b h f) c = (if c = b then map_option h (block_at f c) else block_at f c)"
  by (simp add: block_at_def map_block_def map_of_map_key)

lemma redirect_at:
  "block_at (redirect old new f) c
     = map_option (\<lambda>x. x\<lparr>bb_term := map_option (redirect_term old new) (bb_term x)\<rparr>) (block_at f c)"
  by (simp add: block_at_def redirect_def map_of_map)

lemma blocks_frame [simp]:
  "nblocks (map_block b h f) = nblocks f" "fn_params (map_block b h f) = fn_params f"
  "nblocks (redirect old new f) = nblocks f" "fn_params (redirect old new f) = fn_params f"
  by (simp_all add: map_block_def redirect_def)

lemma map_block_wf:
  assumes "wf_fn f" and "\<And>x. targets (bb_term (h x)) \<subseteq> targets (bb_term x) \<union> {..<nblocks f}"
  shows "wf_fn (map_block b h f)"
proof (rule wf_fnI)
  show "block_at (map_block b h f) c \<noteq> None \<longleftrightarrow> c < nblocks (map_block b h f)" for c
    using wf_at [OF assms(1), of c] by (auto simp: map_block_at)
  show "c < nblocks (map_block b h f)" if at: "block_at (map_block b h f) d = Some x" and c: "c \<in> targets (bb_term x)" for c d x
  proof (cases "d = b")
    case True
    with at obtain y where "block_at f b = Some y" "x = h y" by (auto simp: map_block_at)
    then show ?thesis using c assms(2) [of y] wf_fnD(3) [OF assms(1)] by auto
  qed (use at c wf_fnD(3) [OF assms(1)] in \<open>simp add: map_block_at\<close>)
qed

lemma emit_wf: "wf_fn f \<Longrightarrow> wf_fn (emit b is f)"
  unfolding emit_def by (rule map_block_wf) auto

lemma set_term_wf: "wf_fn f \<Longrightarrow> targets (Some t) \<subseteq> {..<nblocks f} \<Longrightarrow> wf_fn (set_term b t f)"
  unfolding set_term_def by (rule map_block_wf) auto

lemma redirect_targets: "targets (map_option (redirect_term old new) t) \<subseteq> insert new (targets t)"
  by (cases t rule: targets.cases) (auto simp: redirect_term_def Let_def)

lemma redirect_wf: "wf_fn f \<Longrightarrow> new < nblocks f \<Longrightarrow> wf_fn (redirect old new f)"
proof (rule wf_fnI)
  assume f: "wf_fn f" and new: "new < nblocks f"
  show "block_at (redirect old new f) c \<noteq> None \<longleftrightarrow> c < nblocks (redirect old new f)" for c
    using wf_at [OF f, of c] by (auto simp: redirect_at)
  show "c < nblocks (redirect old new f)" if at: "block_at (redirect old new f) d = Some x" and c: "c \<in> targets (bb_term x)" for c d x
    using at c redirect_targets new wf_fnD(3) [OF f] by (auto simp: redirect_at) blast
qed

subsection \<open>Running to an exit\<close>

text \<open>Run until one of the blocks \<open>E\<close> is reached, for at most \<open>n\<close> blocks: where and in which state, or a
  fault.\<close>

fun exec_to ::
  "nat \<Rightarrow> machine \<Rightarrow> int list \<Rightarrow> fn \<Rightarrow> nat set \<Rightarrow> nat \<Rightarrow> exec_state \<Rightarrow> (nat \<times> exec_state) option option" where
  "exec_to n m args f E b s = (if b \<in> E then Some (Some (b, s)) else (case n of
     0 \<Rightarrow> None
   | Suc k \<Rightarrow> (case exec_block m args f b s of
       None \<Rightarrow> Some None
     | Some (s', None) \<Rightarrow> None
     | Some (s', Some b') \<Rightarrow> exec_to k m args f E b' s')))"

declare exec_to.simps [simp del]

lemma exec_to_mono: "exec_to n m args f E b s = Some r \<Longrightarrow> exec_to (n + k) m args f E b s = Some r"
proof (induction n arbitrary: b s)
  case 0
  then show ?case by (subst exec_to.simps) (simp add: exec_to.simps split: if_splits)
next
  case (Suc n)
  then show ?case
    by (subst exec_to.simps, subst (asm) (2) exec_to.simps) (auto split: if_splits option.splits)
qed

text \<open>The target of a terminator is one of the listed blocks.\<close>

lemma exec_term_target: "exec_term m args t = Some (Some b) \<Longrightarrow> b \<in> targets t"
  by (cases t rule: targets.cases) (auto simp: exec_term_def split: option.splits)

lemma exec_block_target:
  "exec_block m args f b s = Some (s', Some b') \<Longrightarrow> wf_fn f \<Longrightarrow> b' < nblocks f"
  by (auto simp: exec_block_def Option.bind_eq_Some_conv dest!: exec_term_target) (metis wf_fnD(3))

lemma exec_term_redirect:
  "exec_term m args (map_option (redirect_term old new) t)
     = map_option (map_option (\<lambda>b. if b = old then new else b)) (exec_term m args t)"
proof (cases t rule: targets.cases)
  case (2 c b e)
  then show ?thesis by (cases "eval m args c") (simp_all add: exec_term_def redirect_term_def Let_def)
qed (simp_all add: exec_term_def redirect_term_def Let_def split: option.splits)

lemma exec_block_redirect:
  assumes "block_at f' b = map_option (\<lambda>x. x\<lparr>bb_term := map_option (redirect_term old new) (bb_term x)\<rparr>) (block_at f b)"
  shows "exec_block m args f' b s
    = map_option (\<lambda>(s', t). (s', map_option (\<lambda>b. if b = old then new else b) t)) (exec_block m args f b s)"
proof (cases "block_at f b")
  case (Some x)
  then show ?thesis
    using assms by (cases "exec_insts m args (bb_insts x) s") (simp_all add: exec_block_def exec_term_redirect option.map_comp comp_def)
qed (simp add: exec_block_def assms)

lemma exec_to_exit: "b \<in> E \<Longrightarrow> exec_to n m args f E b s = Some (Some (b, s))"
  by (subst exec_to.simps) simp

lemma exec_to_step:
  "b \<notin> E \<Longrightarrow> exec_to (Suc n) m args f E b s = (case exec_block m args f b s of
     None \<Rightarrow> Some None
   | Some (s', None) \<Rightarrow> None
   | Some (s', Some b') \<Rightarrow> exec_to n m args f E b' s')"
  by (subst exec_to.simps) simp

text \<open>Putting a new part in front of an exit.\<close>

lemma exec_to_redirect:
  assumes wf: "wf_fn f" and old: "old \<in> E"
    and same: "\<And>b. b < nblocks f \<Longrightarrow> b \<notin> E \<Longrightarrow>
      block_at f' b = map_option (\<lambda>x. x\<lparr>bb_term := map_option (redirect_term old new) (bb_term x)\<rparr>) (block_at f b)"
    and exits: "\<And>b. b < nblocks f \<Longrightarrow> b \<in> E' \<longleftrightarrow> b \<in> E"
    and part: "\<And>s1. exec_to k m args f' E' new s1 = Some (part s1)"
  shows "exec_to n m args f E b s = Some r \<Longrightarrow> b < nblocks f \<Longrightarrow>
    exec_to (n + k) m args f' E' (if b = old then new else b) s
      = Some (case r of None \<Rightarrow> None | Some (b', s1) \<Rightarrow> if b' = old then part s1 else Some (b', s1))"
proof (induction n arbitrary: b s)
  case 0
  then have b: "b \<in> E" "r = Some (b, s)" by (auto simp: exec_to.simps split: if_splits)
  then show ?case using part exits [OF 0(2)] by (auto simp: exec_to_exit)
next
  case (Suc n)
  show ?case
  proof (cases "b \<in> E")
    case True
    then have "r = Some (b, s)" using Suc.prems(1) by (simp add: exec_to_exit)
    moreover have "exec_to (Suc n + k) m args f' E' new s1 = Some (part s1)" for s1
      using exec_to_mono [OF part [of s1], of "Suc n"] by (simp add: add.commute)
    ultimately show ?thesis using True exits [OF Suc.prems(2)] by (auto simp: exec_to_exit)
  next
    case False
    then have "b \<noteq> old" "b \<notin> E'" using old exits [OF Suc.prems(2)] by auto
    note r = exec_block_redirect [OF same [OF Suc.prems(2) False], of m args s]
    show ?thesis
    proof (cases "exec_block m args f b s")
      case None
      with Suc.prems(1) False \<open>b \<noteq> old\<close> \<open>b \<notin> E'\<close> r show ?thesis by (auto simp: exec_to_step)
    next
      case (Some p)
      obtain s' t where p: "p = (s', t)" by (cases p)
      show ?thesis
      proof (cases t)
        case None
        with Some p Suc.prems(1) False \<open>b \<noteq> old\<close> \<open>b \<notin> E'\<close> r show ?thesis by (auto simp: exec_to_step)
      next
        case (Some b')
        note blk = \<open>exec_block m args f b s = Some p\<close> [unfolded p Some]
        have "exec_to n m args f E b' s' = Some r" using Suc.prems(1) False blk by (simp add: exec_to_step)
        from Suc.IH [OF this exec_block_target [OF blk wf]] \<open>b \<noteq> old\<close> \<open>b \<notin> E'\<close> r blk show ?thesis
          by (simp add: exec_to_step)
      qed
    qed
  qed
qed

text \<open>Running through an exit instead of stopping there.\<close>

lemma exec_to_close:
  assumes at: "block_at f i = Some x" and ins: "bb_insts x = js" and tm: "bb_term x = Some (Br e)" and e: "e \<in> E" and i: "i \<notin> E"
  shows "exec_to n m args f (insert i E) b s = Some r \<Longrightarrow> exec_to (Suc n) m args f E b s = Some (case r of
      None \<Rightarrow> None
    | Some (b', s1) \<Rightarrow> if b' = i then map_option (\<lambda>s2. (e, s2)) (exec_insts m args js s1) else Some (b', s1))"
proof (induction n arbitrary: b s)
  case 0
  then have "b \<in> insert i E" "r = Some (b, s)" by (auto simp: exec_to.simps split: if_splits)
  then show ?case using assms
    by (cases "exec_insts m args js s") (auto simp: exec_to_step exec_to_exit exec_block_def exec_term_def)
next
  case (Suc n)
  show ?case
  proof (cases "b \<in> insert i E")
    case True
    then have "r = Some (b, s)" using Suc.prems by (simp add: exec_to_exit)
    then show ?thesis using assms True
      by (cases "exec_insts m args js s") (auto simp: exec_to_step exec_to_exit exec_block_def exec_term_def)
  next
    case False
    then show ?thesis using Suc by (auto simp: exec_to_step split: option.splits)
  qed
qed

lemma run_exec_to:
  assumes "block_at f e = Some x" and "bb_insts x = []" and "bb_term x = Some (Ret None)"
  shows "exec_to n m args f {e} b s = Some r \<Longrightarrow> run (Suc n) m args f b s = map_option snd r"
proof (induction n arbitrary: b s)
  case 0
  then have "b = e" "r = Some (e, s)" by (auto simp: exec_to.simps split: if_splits)
  with assms show ?case by (simp add: exec_block_def exec_term_def)
next
  case (Suc n)
  show ?case
  proof (cases "b = e")
    case True
    then have "r = Some (e, s)" using Suc.prems by (simp add: exec_to_exit)
    with True assms show ?thesis by (simp add: exec_block_def exec_term_def)
  next
    case False
    then show ?thesis using Suc by (auto simp: exec_to_step split: option.splits)
  qed
qed

end
