(* ===== verification/Tesla_Translation_Correct.thy ===== *)
theory Tesla_Translation_Correct
  imports Tesla_Translation Tesla_Blocks
begin

text \<open>
  What a translation function does when it is called: it passes an event to libtesla for every
  translator in it whose patterns match the values it is called with, in the order in which the
  translators were added.
\<close>

subsection \<open>What translation means\<close>

text \<open>When a value fits a pattern; only constants restrict it.\<close>

definition pattern_holds :: "argument \<Rightarrow> ty \<Rightarrow> int \<Rightarrow> bool" where
  "pattern_holds p t v \<longleftrightarrow> (a_type p = Constant_arg \<longrightarrow> (let c = getD 0 (a_value p) mod 2 ^ width t in
     case getD Exact_match (a_match p) of
       Exact_match \<Rightarrow> v = c
     | Flags_match \<Rightarrow> v AND c = c
     | Mask_match \<Rightarrow> v AND c = v))"

text \<open>The value an indirect pattern speaks of is behind as many pointers.\<close>

function chase :: "machine \<Rightarrow> argument \<Rightarrow> ty \<Rightarrow> int \<Rightarrow> (ty \<times> int) option" where
  "chase m a t v = (case a_type a of
     Indirect_arg \<Rightarrow> (case t of
       PtrT t' \<Rightarrow> Option.bind (mc_load m t' v) (\<lambda>v'. case a_indirection a of
         None \<Rightarrow> Some (t', v')
       | Some b \<Rightarrow> chase m b t' v')
     | _ \<Rightarrow> None)
   | _ \<Rightarrow> Some (t, v))"
  by pat_completeness auto
termination
  by (relation "measure (\<lambda>(_, a, _, _). size a)") (auto dest: indirection_size)

declare chase.simps [simp del]

definition as_uintptr :: "ty \<times> int \<Rightarrow> int" where
  "as_uintptr = (\<lambda>(t, v). if t = IntPtrT then v else v mod 2 ^ 64)"

text \<open>The variables an event binds: each value with an index, at that index.\<close>

fun key_slots :: "machine \<Rightarrow> bool \<Rightarrow> (argument \<times> ty \<times> int) list \<Rightarrow> (ty \<times> int) option list \<Rightarrow> (ty \<times> int) option list option" where
  "key_slots m indirect [] slots = Some slots"
| "key_slots m indirect ((p, t, v) # es) slots = (case a_index p of
     None \<Rightarrow> key_slots m indirect es slots
   | Some i \<Rightarrow> Option.bind (if indirect then chase m p t v else Some (t, v)) (\<lambda>x.
       key_slots m indirect es (slots[nat i := Some x])))"

fun slots_mask :: "nat \<Rightarrow> 'a option list \<Rightarrow> u32" where
  "slots_mask i [] = 0"
| "slots_mask i (None # xs) = slots_mask (Suc i) xs"
| "slots_mask i (Some _ # xs) = push_bit i 1 OR slots_mask (Suc i) xs"

definition event_key :: "(ty \<times> int) option list \<Rightarrow> u32 \<Rightarrow> int option list" where
  "event_key slots free = map (map_option as_uintptr) slots @ [Some (uint (slots_mask 0 slots)), Some (uint free)]"

datatype action = Do_update automaton nat | Do_sunrise ir_context string | Do_sunset ir_context string

definition context_code :: "ir_context \<Rightarrow> int" where
  "context_code c = uint (case c of Global_context \<Rightarrow> TESLA_CONTEXT_GLOBAL | Thread_context \<Rightarrow> TESLA_CONTEXT_THREAD)"

definition action_call :: "machine \<Rightarrow> int option list \<Rightarrow> action \<Rightarrow> observed" where
  "action_call m key act = (case act of
     Do_update a symbol \<Rightarrow> Observed ''tesla_update_state''
       [Int_a (context_code (ad_context (au_assertion a))), Int_a (mc_global m (au_name a)), Int_a (int symbol mod 2 ^ 32), Key_a key]
   | Do_sunrise c l \<Rightarrow> Observed ''tesla_sunrise'' [Int_a (context_code c), Int_a (mc_global m l)]
   | Do_sunset c l \<Rightarrow> Observed ''tesla_sunset'' [Int_a (context_code c), Int_a (mc_global m l)])"

record translator =
  tr_label :: string
  tr_patterns :: "argument list"
  tr_indirect :: bool
  tr_free :: u32
  tr_action :: action

text \<open>What one translator passes on: nothing if some value does not fit its pattern.\<close>

definition translate :: "machine \<Rightarrow> ty list \<Rightarrow> int list \<Rightarrow> translator \<Rightarrow> observed list option" where
  "translate m ts vs t =
     (let es = zip (tr_patterns t) (zip ts vs) in
      if list_all (\<lambda>(p, t, v). pattern_holds p t v) es
      then map_option (\<lambda>slots. [action_call m (event_key slots (tr_free t)) (tr_action t)])
             (key_slots m (tr_indirect t) es (replicate TESLA_KEY_SIZE None))
      else Some [])"

fun translate_all :: "machine \<Rightarrow> ty list \<Rightarrow> int list \<Rightarrow> translator list \<Rightarrow> observed list option" where
  "translate_all m ts vs [] = Some []"
| "translate_all m ts vs (t # trs) =
     Option.bind (translate m ts vs t) (\<lambda>cs. map_option ((@) cs) (translate_all m ts vs trs))"

text \<open>The code that puts translators into a translation function.\<close>

definition act :: "action \<Rightarrow> nat \<Rightarrow> fn \<Rightarrow> fn" where
  "act a instr f = (case a of
     Do_update au symbol \<Rightarrow> CallUpdateState au symbol instr f
   | Do_sunrise c l \<Rightarrow> CallSunrise c (Global l (StructT ''tesla_lifetime'')) instr f
   | Do_sunset c l \<Rightarrow> CallSunset c (Global l (StructT ''tesla_lifetime'')) instr f)"

definition add_translator :: "(string \<times> ty list) list \<Rightarrow> nat \<Rightarrow> translator \<Rightarrow> fn \<Rightarrow> fn res" where
  "add_translator structs e t f =
     bindE (AddInstrumentation structs (tr_label t) (tr_patterns t) (tr_indirect t) (tr_free t) e f)
       (\<lambda>(f', instr). Inr (act (tr_action t) instr f'))"

fun add_translators :: "(string \<times> ty list) list \<Rightarrow> nat \<Rightarrow> translator list \<Rightarrow> fn \<Rightarrow> fn res" where
  "add_translators structs e [] f = Inr f"
| "add_translators structs e (t # ts) f = bindE (add_translator structs e t f) (add_translators structs e ts)"

subsection \<open>Values\<close>

lemma match_value_eval:
  assumes "match_value p v = Inr c" and "eval m args v = Some x" and "a_type p = Constant_arg"
  shows "eval m args c = Some (if pattern_holds p (type_of v) x then 1 else 0)"
  using assms by (auto simp: match_value_def pattern_holds_def width_def bind2_def Let_def split: ty.splits match_type.splits)

lemma exec_insts_append:
  "exec_insts m args (is @ js) s = Option.bind (exec_insts m args is s) (exec_insts m args js)"
  by (induction "is" arbitrary: s) (auto split: Option.bind_splits)

lemma GetArgumentValue_eval:
  "GetArgumentValue structs False v a = Inr (x, is) \<Longrightarrow> eval m args v = Some n \<Longrightarrow>
     (case chase m a (type_of v) n of
        None \<Rightarrow> exec_insts m args is s = None
      | Some (t, y) \<Rightarrow> exec_insts m args is s = Some s \<and> type_of x = t \<and> eval m args x = Some y)"
proof (induction a arbitrary: v x "is" n rule: measure_induct_rule [of size])
  case (less a)
  show ?case
  proof (cases "a_type a = Indirect_arg")
    case True
    then obtain t where t: "type_of v = PtrT t" using less.prems(1)
      by (auto simp: GetArgumentValue.simps [of _ _ _ a] E_eq_Inr assertE_def is_ptr_def split: if_splits ty.splits)
    have load: "eval m args (Load v) = mc_load m t n" "type_of (Load v) = t" using less.prems(2) t by simp_all
    show ?thesis
    proof (cases "a_indirection a")
      case None
      with True t less.prems show ?thesis
        by (cases "mc_load m t n") (auto simp: GetArgumentValue.simps [of _ _ _ a] chase.simps [of _ a] E_eq_Inr assertE_def is_ptr_def)
    next
      case (Some b)
      with True t less.prems(1) obtain is' where r: "GetArgumentValue structs False (Load v) b = Inr (x, is')"
        and is': "is = Compute (Load v) # is'"
        by (auto simp: GetArgumentValue.simps [of _ _ _ a] E_eq_Inr assertE_def is_ptr_def)
      show ?thesis
      proof (cases "mc_load m t n")
        case None
        with True t Some is' load show ?thesis by (simp add: chase.simps [of _ a])
      next
        case (Some n')
        note IH = less.IH [OF indirection_size [OF \<open>a_indirection a = Some b\<close>] r, of n']
        from IH Some load True t \<open>a_indirection a = Some b\<close> is' show ?thesis
          by (auto simp: chase.simps [of _ a] split: option.splits)
      qed
    qed
  next
    case False
    then have "x = v" "is = []" "chase m a (type_of v) n = Some (type_of v, n)"
      using less.prems(1) by (auto simp: GetArgumentValue.simps [of _ _ _ a] chase.simps [of _ a] split: arg_type.splits)
    then show ?thesis using less.prems(2) by simp
  qed
qed

lemma Cast_eval:
  assumes "Cast v = Inr (x, is)" and "eval m args v = Some n"
  shows "eval m args x = Some (as_uintptr (type_of v, n))" and "exec_insts m args is s = Some s"
  using assms by (auto simp: Cast_def as_uintptr_def split: if_splits ty.splits)

definition vals_ok :: "machine \<Rightarrow> int list \<Rightarrow> val option list \<Rightarrow> (ty \<times> int) option list \<Rightarrow> bool" where
  "vals_ok m args = list_all2 (rel_option (\<lambda>v (t, n). type_of v = t \<and> eval m args v = Some n))"

lemma key_loop_exec:
  "key_loop key (length pre) kas mk = Inr (is, mk') \<Longrightarrow> vals_ok m args kas slots
     \<Longrightarrow> map_of (xs_keys s) key = Some (pre @ replicate (length slots) None @ post) \<Longrightarrow>
     \<exists>s'. exec_insts m args is s = Some s' \<and> xs_calls s' = xs_calls s
       \<and> map_of (xs_keys s') key = Some (pre @ map (map_option as_uintptr) slots @ post)
       \<and> mk' = mk OR slots_mask (length pre) slots"
proof (induction kas arbitrary: pre mk "is" slots s)
  case Nil
  then show ?case by (simp add: vals_ok_def)
next
  case (Cons a kas)
  from Cons.prems(2) obtain sl slots' where slots: "slots = sl # slots'"
    and a: "rel_option (\<lambda>v (t, n). type_of v = t \<and> eval m args v = Some n) a sl" and ok: "vals_ok m args kas slots'"
    by (auto simp: vals_ok_def list_all2_Cons1)
  show ?case
  proof (cases a)
    case None
    with a have sl: "sl = None" by simp
    have k: "key_loop key (length (pre @ [None])) kas mk = Inr (is, mk')" using Cons.prems(1) None by simp
    from Cons.IH [OF k ok, of s] Cons.prems(3) show ?thesis by (simp add: slots sl)
  next
    case (Some v)
    with a obtain t n where sl: "sl = Some (t, n)" and v: "type_of v = t" "eval m args v = Some n"
      by (auto simp: option_rel_Some1)
    from Cons.prems(1) Some obtain x js ks where c: "Cast v = Inr (x, js)"
      and k: "key_loop key (length (pre @ [Some (as_uintptr (t, n))])) kas (mk OR push_bit (length pre) 1) = Inr (ks, mk')"
      and iseq: "is = js @ Store_key key (length pre) x # ks" by (auto simp: E_eq_Inr)
    note cast = Cast_eval [OF c v(2)]
    let ?s = "s\<lparr>xs_keys := (key, pre @ Some (as_uintptr (t, n)) # replicate (length slots') None @ post) # xs_keys s\<rparr>"
    have e: "exec_insts m args is s = exec_insts m args ks ?s"
      using cast Cons.prems(3) v(1) by (simp add: iseq exec_insts_append slots list_update_append)
    from Cons.IH [OF k ok, of ?s] show ?thesis by (simp add: e slots sl or.assoc)
  qed
qed

lemma ConstructKey_exec:
  assumes "ConstructKey key kas free = Inr is" and "vals_ok m args kas slots" and "length slots = TESLA_KEY_SIZE"
  shows "\<exists>s'. exec_insts m args is s = Some s' \<and> xs_calls s' = xs_calls s \<and> map_of (xs_keys s') key = Some (event_key slots free)"
proof -
  from assms(1) obtain js mk where k: "key_loop key (length ([] :: int option list)) kas 0 = Inr (js, mk)"
    and iseq: "is = Alloca_key key # js @ [Store_key key TESLA_KEY_SIZE (ConstInt 32 (uint mk)),
      Store_key key (TESLA_KEY_SIZE + 1) (ConstInt 32 (uint free))]"
    by (auto simp: ConstructKey_def E_eq_Inr)
  let ?s = "s\<lparr>xs_keys := (key, replicate key_fields None) # xs_keys s\<rparr>"
  have "map_of (xs_keys ?s) key = Some ([] @ replicate (length slots) None @ [None, None])"
    by (simp add: assms(3) TESLA_KEY_SIZE_def key_fields_def eval_nat_numeral)
  from key_loop_exec [OF k assms(2) this] obtain s' where
    s': "exec_insts m args js ?s = Some s'" "xs_calls s' = xs_calls s"
    "map_of (xs_keys s') key = Some (map (map_option as_uintptr) slots @ [None, None])" "mk = slots_mask 0 slots" by auto
  then show ?thesis
    using assms(3) uint_lt2p [of mk] uint_lt2p [of free]
    by (simp add: iseq exec_insts_append event_key_def list_update_append)
qed

subsection \<open>One pattern\<close>

definition entry :: "fn \<Rightarrow> nat option" where
  "entry f = (case fn_blocks f of [] \<Rightarrow> None | (b, _) # _ \<Rightarrow> Some b)"

lemma entry_frame [simp]: "entry (map_block b h f) = entry f" "entry (redirect old new f) = entry f"
  by (auto simp: entry_def map_block_def redirect_def split: list.split)

lemma entry_create:
  "create_block nm before f = (f', n) \<Longrightarrow> entry f = Some b \<Longrightarrow> before \<noteq> Some b \<Longrightarrow> entry f' = Some b"
  by (auto simp: entry_def create_block_def Let_def split: list.splits option.splits)

lemma exec_to_at: "exec_to n m args f E b s = Some (Some (b', s')) \<Longrightarrow> b' \<in> E"
proof (induction n arbitrary: b s)
  case 0
  then show ?case by (auto simp: exec_to.simps split: if_splits)
next
  case (Suc n)
  then show ?case by (cases "b \<in> E") (auto simp: exec_to_exit exec_to_step split: option.splits)
qed

lemma exec_to_cong:
  assumes "\<And>b. b \<notin> E \<Longrightarrow> block_at f' b = block_at f b"
  shows "exec_to n m args f' E b s = exec_to n m args f E b s"
proof (induction n arbitrary: b s)
  case 0
  show ?case by (simp add: exec_to.simps)
next
  case (Suc n)
  have "exec_block m args f' b s = exec_block m args f b s" if "b \<notin> E" using assms [OF that] by (simp add: exec_block_def)
  with Suc show ?case by (cases "b \<in> E") (simp_all add: exec_to_exit exec_to_step split: option.split)
qed

text \<open>The state of a translation function while a translator is added: runs from the entry go to the
  translator's block \<open>i\<close> or to the end \<open>e\<close>.\<close>

definition filling ::
  "machine \<Rightarrow> int list \<Rightarrow> nat \<Rightarrow> nat \<Rightarrow> inst list \<Rightarrow> (nat \<times> exec_state) option \<Rightarrow> fn \<Rightarrow> bool" where
  "filling m args e i is r f \<longleftrightarrow> wf_fn f \<and> e \<noteq> i
     \<and> (\<exists>nm. block_at f e = Some \<lparr>bb_name = nm, bb_insts = [], bb_term = Some (Ret None)\<rparr>)
     \<and> (\<exists>nm. block_at f i = Some \<lparr>bb_name = nm, bb_insts = is, bb_term = None\<rparr>)
     \<and> (\<exists>b n. entry f = Some b \<and> b \<noteq> e \<and> b \<noteq> i \<and> b < nblocks f \<and> n + 2 \<le> nblocks f
          \<and> exec_to n m args f {i, e} b initial_exec = Some r)"

definition send :: "bool \<Rightarrow> nat \<Rightarrow> nat \<Rightarrow> (nat \<times> exec_state) option \<Rightarrow> (nat \<times> exec_state) option" where
  "send c i e r = map_option (\<lambda>(b, s). if b = i \<and> \<not> c then (e, s) else (b, s)) r"

lemma send_send: "i \<noteq> e \<Longrightarrow> send c' i e (send c i e r) = send (c \<and> c') i e r"
  by (cases r) (auto simp: send_def)

lemma send_True [simp]: "send True i e r = r"
  by (cases r) (auto simp: send_def)

lemma Match_filling:
  assumes M: "Match label e i p v f = Inr f'" and f: "filling m args e i is r f"
    and v: "eval m args v = Some x"
  shows "filling m args e i is (send (pattern_holds p (type_of v) x) i e r) f'" and "fn_params f' = fn_params f"
proof -
  have "filling m args e i is (send (pattern_holds p (type_of v) x) i e r) f' \<and> fn_params f' = fn_params f"
  proof (cases "a_type p = Constant_arg")
    case False
    then show ?thesis using M f by (simp add: Match_def pattern_holds_def)
  next
    case True
    obtain f1 k where c: "create_block label (Some i) f = (f1, k)" by (cases "create_block label (Some i) f")
    from M True c obtain cmp where mv: "match_value p v = Inr cmp"
      and f': "f' = set_term k (CondBr cmp i e) (emit k [Compute cmp] (redirect i k f1))"
      by (auto simp: Match_def E_eq_Inr)
    from f obtain b n ne ni where wf: "wf_fn f" and ei: "e \<noteq> i"
      and e: "block_at f e = Some \<lparr>bb_name = ne, bb_insts = [], bb_term = Some (Ret None)\<rparr>"
      and i: "block_at f i = Some \<lparr>bb_name = ni, bb_insts = is, bb_term = None\<rparr>"
      and b: "entry f = Some b" "b \<noteq> e" "b \<noteq> i" "b < nblocks f" "n + 2 \<le> nblocks f"
      and run: "exec_to n m args f {i, e} b initial_exec = Some r" by (auto simp: filling_def)
    note c1 = create_block_at [OF c wf]
    have lt: "i < nblocks f" "e < nblocks f" using wf_fnD(2) [OF wf] i e by blast+
    then have k: "k \<noteq> i" "k \<noteq> e" using c1(2) by auto
    have at: "block_at f' d = (if d = k then Some \<lparr>bb_name = label, bb_insts = [Compute cmp], bb_term = Some (CondBr cmp i e)\<rparr>
      else map_option (\<lambda>x. x\<lparr>bb_term := map_option (redirect_term i k) (bb_term x)\<rparr>) (block_at f d))" for d
      by (simp add: f' set_term_def emit_def map_block_at redirect_at c1(1))
    have "wf_fn f'"
      unfolding f' by (intro set_term_wf emit_wf redirect_wf c1(5)) (use lt c1(2,3) in \<open>auto simp: emit_def\<close>)
    moreover have n': "nblocks f' = Suc (nblocks f)" "fn_params f' = fn_params f" "entry f' = Some b"
      using c1(3,4) entry_create [OF c b(1)] b(3) by (auto simp: f' set_term_def emit_def)
    moreover have "exec_to (n + 1) m args f' {i, e} (if b = i then k else b) initial_exec
        = Some (case r of None \<Rightarrow> None | Some (b', s1) \<Rightarrow>
            if b' = i then Some (if pattern_holds p (type_of v) x then i else e, s1) else Some (b', s1))"
    proof (rule exec_to_redirect [OF wf _ _ _ _ run b(4)])
      show "exec_to 1 m args f' {i, e} k s1 = Some (Some (if pattern_holds p (type_of v) x then i else e, s1))" for s1
        using match_value_eval [OF mv v True] k at [of k]
        by (auto simp: exec_to_step [of _ _ 0, simplified] exec_block_def exec_term_def exec_to_exit)
    qed (use at c1(2) in auto)
    moreover have "(case r of None \<Rightarrow> None | Some (b', s1) \<Rightarrow>
            if b' = i then Some (if pattern_holds p (type_of v) x then i else e, s1) else Some (b', s1))
        = send (pattern_holds p (type_of v) x) i e r" by (cases r) (auto simp: send_def)
    moreover have "\<exists>nm. block_at f' e = Some \<lparr>bb_name = nm, bb_insts = [], bb_term = Some (Ret None)\<rparr>"
      "\<exists>nm. block_at f' i = Some \<lparr>bb_name = nm, bb_insts = is, bb_term = None\<rparr>"
      using k e i by (simp_all add: at redirect_term_def)
    ultimately show ?thesis using ei b by (auto simp: filling_def intro!: exI [of _ "n + 1"])
  qed
  then show "filling m args e i is (send (pattern_holds p (type_of v) x) i e r) f'" "fn_params f' = fn_params f" by blast+
qed

lemma emit_filling:
  assumes "filling m args e i is r f"
  shows "filling m args e i (is @ js) r (emit i js f)"
proof -
  have "exec_to n m args (emit i js f) {i, e} b s = exec_to n m args f {i, e} b s" for n b s
    by (rule exec_to_cong) (simp add: emit_def map_block_at)
  then show ?thesis using assms emit_wf by (auto simp: filling_def) (auto simp: emit_def map_block_at)
qed

subsection \<open>One translator\<close>

text \<open>The patterns with the values that are matched: as the code has them, and as numbers.\<close>

definition events_ok :: "machine \<Rightarrow> int list \<Rightarrow> (argument \<times> val) list \<Rightarrow> (argument \<times> ty \<times> int) list \<Rightarrow> bool" where
  "events_ok m args = list_all2 (\<lambda>(p, v) (p', t, n). p' = p \<and> type_of v = t \<and> eval m args v = Some n)"

text \<open>What the block of a translator has computed: the variables bound so far, unless it faults.\<close>

definition gathered ::
  "machine \<Rightarrow> int list \<Rightarrow> (ty \<times> int) option list option \<Rightarrow> val option list \<Rightarrow> inst list \<Rightarrow> bool" where
  "gathered m args so kas is = (case so of
     None \<Rightarrow> \<forall>s. exec_insts m args is s = None
   | Some slots \<Rightarrow> vals_ok m args kas slots \<and> (\<forall>s. exec_insts m args is s = Some s))"

lemma vals_ok_set:
  "vals_ok m args kas slots \<Longrightarrow> eval m args x = Some y \<Longrightarrow> vals_ok m args (kas[k := Some x]) (slots[k := Some (type_of x, y)])"
  unfolding vals_ok_def by (intro list_all2_update_cong) simp_all

lemma place_key_filling:
  assumes P: "place_key structs ind i p v kas f = Inr (kas', f')" and f: "filling m args e i is r f"
    and v: "eval m args v = Some n" and ok: "gathered m args so kas is"
  shows "\<exists>is'. filling m args e i is' r f' \<and> fn_params f' = fn_params f
    \<and> gathered m args (Option.bind so (key_slots m ind [(p, type_of v, n)])) kas' is'"
proof (cases "a_index p")
  case None
  with assms show ?thesis by (intro exI [of _ "is"]) (simp add: place_key_def gathered_def split: option.splits)
next
  case (Some index)
  show ?thesis
  proof (cases ind)
    case False
    with P Some have "kas' = kas[nat index := Some v]" "f' = f" by (auto simp: place_key_def E_eq_Inr split: if_splits)
    with f v ok False Some vals_ok_set show ?thesis
      by (intro exI [of _ "is"]) (auto simp: gathered_def split: option.splits)
  next
    case True
    with P Some obtain x js where g: "GetArgumentValue structs False v p = Inr (x, js)"
      and k: "kas' = kas[nat index := Some x]" "f' = emit i js f"
      by (auto simp: place_key_def E_eq_Inr split: if_splits)
    have "gathered m args (Option.bind so (key_slots m ind [(p, type_of v, n)])) kas' (is @ js)"
    proof (cases "chase m p (type_of v) n")
      case None
      then have "exec_insts m args js s = None" for s using GetArgumentValue_eval [OF g v, of s] by simp
      with None ok True Some show ?thesis by (auto simp: gathered_def exec_insts_append split: option.splits)
    next
      case (Some z)
      then have "z = (type_of x, snd z)" "eval m args x = Some (snd z)" "exec_insts m args js s = Some s" for s
        using GetArgumentValue_eval [OF g v, of s] by (cases z; simp)+
      with Some ok True \<open>a_index p = Some index\<close> vals_ok_set show ?thesis
        by (cases z) (auto simp: gathered_def exec_insts_append k(1) split: option.splits)
    qed
    with emit_filling [OF f] show ?thesis by (intro exI [of _ "is @ js"]) (simp add: k emit_def)
  qed
qed

lemma key_slots_Cons:
  "key_slots m ind (e # es) slots = Option.bind (key_slots m ind [e] slots) (key_slots m ind es)"
  by (cases e) (auto split: option.split Option.bind_splits)

lemma key_slots_length: "key_slots m ind es slots = Some slots' \<Longrightarrow> length slots' = length slots"
  by (induction m ind es slots rule: key_slots.induct) (auto split: option.splits Option.bind_splits if_splits)

abbreviation all_hold :: "(argument \<times> ty \<times> int) list \<Rightarrow> bool" where
  "all_hold \<equiv> list_all (\<lambda>(p, t, v). pattern_holds p t v)"

lemma pattern_loop_filling:
  "pattern_loop structs label ind e i j pvs kas f = Inr (kas', f') \<Longrightarrow> filling m args e i is r f
     \<Longrightarrow> events_ok m args pvs es \<Longrightarrow> gathered m args so kas is \<Longrightarrow>
     \<exists>is'. filling m args e i is' (send (all_hold es) i e r) f' \<and> fn_params f' = fn_params f
       \<and> gathered m args (Option.bind so (key_slots m ind es)) kas' is'"
proof (induction pvs arbitrary: j kas f "is" r es so)
  case Nil
  then show ?case by (intro exI [of _ "is"]) (cases so; simp add: events_ok_def gathered_def)
next
  case (Cons pv pvs)
  obtain p v where pv: "pv = (p, v)" by (cases pv)
  from Cons.prems(3) obtain n es' where es: "es = (p, type_of v, n) # es'" and v: "eval m args v = Some n"
    and ok: "events_ok m args pvs es'" by (auto simp: events_ok_def list_all2_Cons1 pv)
  from Cons.prems(1) obtain f1 kas1 f2 where M: "Match (label @ '':match:'' @ dec_nat j) e i p v f = Inr f1"
    and P: "place_key structs ind i p v kas f1 = Inr (kas1, f2)"
    and L: "pattern_loop structs label ind e i (Suc j) pvs kas1 f2 = Inr (kas', f')" by (auto simp: pv E_eq_Inr)
  note M1 = Match_filling [OF M Cons.prems(2) v]
  let ?r = "send (pattern_holds p (type_of v) n) i e r" and ?so = "Option.bind so (key_slots m ind [(p, type_of v, n)])"
  from place_key_filling [OF P M1(1) v Cons.prems(4)] obtain is1 where
    f2: "filling m args e i is1 ?r f2" "fn_params f2 = fn_params f1" "gathered m args ?so kas1 is1" by blast
  from Cons.IH [OF L f2(1) ok f2(3)] obtain is' where
    "filling m args e i is' (send (all_hold es') i e ?r) f'" "fn_params f' = fn_params f2"
    "gathered m args (Option.bind ?so (key_slots m ind es')) kas' is'" by blast
  moreover have "Option.bind ?so (key_slots m ind es') = Option.bind so (key_slots m ind es)"
    by (cases so) (simp_all add: es key_slots_Cons [of _ _ _ es'])
  moreover have "i \<noteq> e" using f2(1) by (auto simp: filling_def)
  then have "send (all_hold es') i e ?r = send (all_hold es) i e r" by (simp add: es send_send)
  ultimately have "filling m args e i is' (send (all_hold es) i e r) f' \<and> fn_params f' = fn_params f
    \<and> gathered m args (Option.bind so (key_slots m ind es)) kas' is'" using f2(2) M1(2) by (simp only:)
  then show ?case by blast
qed

lemma zip_events_ok:
  assumes "length args = length (fn_params f)"
  shows "events_ok m args (zip ps (fn_args f)) (zip ps (zip (fn_params f) args))"
  unfolding events_ok_def
  by (rule list_all2_all_nthI) (use assms in \<open>auto simp: fn_args_def nth_enumerate_eq\<close>)

definition act_call :: "action \<Rightarrow> nat \<Rightarrow> inst" where
  "act_call a i = (case a of
     Do_update au symbol \<Rightarrow> Call_i ''tesla_update_state''
       [TeslaContext (ad_context (au_assertion au)), Global (au_name au) (StructT ''tesla_automaton''),
        ConstInt 32 (int symbol), Key_ptr i]
   | Do_sunrise c l \<Rightarrow> Call_i ''tesla_sunrise'' [TeslaContext c, Global l (StructT ''tesla_lifetime'')]
   | Do_sunset c l \<Rightarrow> Call_i ''tesla_sunset'' [TeslaContext c, Global l (StructT ''tesla_lifetime'')])"

lemma act_emit: "act a i f = emit i [act_call a i] f"
  by (cases a) (simp_all add: act_def act_call_def CallUpdateState_def CallSunrise_def CallSunset_def)

lemma act_call_exec:
  assumes "map_of (xs_keys s) i = Some key"
  shows "exec_inst m args (act_call a i) s = Some (s\<lparr>xs_calls := xs_calls s @ [action_call m key a]\<rparr>)"
proof -
  have "uint (x :: u32) mod 4294967296 = uint x" for x using uint_lt2p [of x] by simp
  then show ?thesis using assms
    by (cases a) (simp_all add: act_call_def action_call_def eval_arg_def TeslaContext_def context_code_def)
qed

text \<open>A finished translation function: calling it makes the calls \<open>cs\<close>, or faults.\<close>

definition chain :: "machine \<Rightarrow> int list \<Rightarrow> nat \<Rightarrow> observed list option \<Rightarrow> fn \<Rightarrow> bool" where
  "chain m args e cs f \<longleftrightarrow> wf_fn f
     \<and> (\<exists>nm. block_at f e = Some \<lparr>bb_name = nm, bb_insts = [], bb_term = Some (Ret None)\<rparr>)
     \<and> (\<exists>b n r. entry f = Some b \<and> b \<noteq> e \<and> b < nblocks f \<and> n + 1 \<le> nblocks f
          \<and> exec_to n m args f {e} b initial_exec = Some r \<and> map_option (\<lambda>(_, s). xs_calls s) r = cs)"

lemma chain_call:
  assumes "chain m args e cs f"
  shows "call_fn m args f = cs"
proof -
  from assms obtain nm b n r where at: "block_at f e = Some \<lparr>bb_name = nm, bb_insts = [], bb_term = Some (Ret None)\<rparr>"
    and b: "entry f = Some b" "n + 1 \<le> nblocks f"
    and r: "exec_to n m args f {e} b initial_exec = Some r" "map_option (\<lambda>(_, s). xs_calls s) r = cs"
    by (auto simp: chain_def)
  have "exec_to (nblocks f - 1) m args f {e} b initial_exec = Some r"
    using exec_to_mono [OF r(1), of "nblocks f - 1 - n"] b(2) by simp
  from run_exec_to [OF at _ _ this] have "run (Suc (nblocks f - 1)) m args f b initial_exec = map_option snd r"
    by (simp del: run.simps)
  moreover have "Suc (nblocks f - 1) = nblocks f" using b(2) by simp
  ultimately have "run (nblocks f) m args f b initial_exec = map_option snd r" by metis
  then show ?thesis
    using b(1) r(2) by (auto simp: call_fn_def entry_def option.map_comp comp_def case_prod_unfold split: list.splits)
qed

text \<open>A new translator's block, before anything is in it.\<close>

lemma start_filling:
  assumes "chain m args e cs f" and c: "create_block label (Some e) f = (f1, i)"
  shows "\<exists>r. filling m args e i [] r (redirect e i f1) \<and> (case r of None \<Rightarrow> cs = None | Some (b, s) \<Rightarrow> b = i \<and> cs = Some (xs_calls s))"
    and "fn_params (redirect e i f1) = fn_params f"
proof -
  from assms(1) obtain ne b n r where wf: "wf_fn f"
    and e: "block_at f e = Some \<lparr>bb_name = ne, bb_insts = [], bb_term = Some (Ret None)\<rparr>"
    and b: "entry f = Some b" "b \<noteq> e" "b < nblocks f" "n + 1 \<le> nblocks f"
    and r: "exec_to n m args f {e} b initial_exec = Some r" "map_option (\<lambda>(_, s). xs_calls s) r = cs"
    by (auto simp: chain_def)
  let ?f = "redirect e i f1"
  note c1 = create_block_at [OF c wf]
  have lt: "e < nblocks f" using wf_fnD(2) [OF wf e] .
  then have i: "i \<noteq> e" "i \<noteq> b" "i < nblocks f1" using c1(2,3) b(3) by auto
  have at: "block_at ?f d = (if d = i then Some \<lparr>bb_name = label, bb_insts = [], bb_term = None\<rparr>
      else map_option (\<lambda>x. x\<lparr>bb_term := map_option (redirect_term e i) (bb_term x)\<rparr>) (block_at f d))" for d
    by (simp add: redirect_at c1(1))
  let ?r = "case r of None \<Rightarrow> None | Some (b', s1) \<Rightarrow> if b' = e then Some (i, s1) else Some (b', s1)"
  have "exec_to (n + 0) m args ?f {i, e} (if b = e then i else b) initial_exec = Some ?r"
    by (rule exec_to_redirect [OF wf _ _ _ _ r(1) b(3)]) (use at c1(2) in \<open>auto simp: exec_to_exit\<close>)
  moreover have "wf_fn ?f" by (rule redirect_wf [OF c1(5) i(3)])
  moreover have "entry ?f = Some b" using entry_create [OF c b(1)] b(2) by simp
  ultimately have "filling m args e i [] ?r ?f"
    using i b c1(3) e by (auto simp: filling_def at redirect_term_def intro!: exI [of _ n])
  moreover have "b' = e" if "r = Some (b', s1)" for b' s1
    using exec_to_at [OF r(1) [unfolded that]] by simp
  ultimately show "\<exists>r. filling m args e i [] r ?f \<and> (case r of None \<Rightarrow> cs = None | Some (b, s) \<Rightarrow> b = i \<and> cs = Some (xs_calls s))"
    using r(2) by (intro exI [of _ ?r]) (auto split: option.splits)
  show "fn_params ?f = fn_params f" by (simp add: c1(4))
qed

text \<open>Finishing it: the translator's block goes on to the end.\<close>

lemma finish_filling:
  assumes f: "filling m args e i is r f" and f': "f' = emit i js (set_term i (Br e) f)"
    and r: "case r of None \<Rightarrow> cs = None
      | Some (b, s) \<Rightarrow> if b = i then map_option xs_calls (exec_insts m args (is @ js) s) = cs else b = e \<and> cs = Some (xs_calls s)"
  shows "chain m args e cs f'"
proof -
  from f obtain b n ne ni where wf: "wf_fn f" and ei: "e \<noteq> i"
    and e: "block_at f e = Some \<lparr>bb_name = ne, bb_insts = [], bb_term = Some (Ret None)\<rparr>"
    and i: "block_at f i = Some \<lparr>bb_name = ni, bb_insts = is, bb_term = None\<rparr>"
    and b: "entry f = Some b" "b \<noteq> e" "b \<noteq> i" "b < nblocks f" "n + 2 \<le> nblocks f"
    and run: "exec_to n m args f {i, e} b initial_exec = Some r" by (auto simp: filling_def)
  have at: "block_at f' d = (if d = i then Some \<lparr>bb_name = ni, bb_insts = is @ js, bb_term = Some (Br e)\<rparr> else block_at f d)" for d
    using i by (simp add: f' set_term_def emit_def map_block_at)
  have "exec_to n m args f' {i, e} b initial_exec = Some r"
    using run exec_to_cong [of "{i, e}" f' f] at by simp
  from exec_to_close [OF _ _ _ _ _ this, of "\<lparr>bb_name = ni, bb_insts = is @ js, bb_term = Some (Br e)\<rparr>" "is @ js" e] ei at [of i]
  have x: "exec_to (Suc n) m args f' {e} b initial_exec = Some (case r of None \<Rightarrow> None
    | Some (b', s1) \<Rightarrow> if b' = i then map_option (\<lambda>s2. (e, s2)) (exec_insts m args (is @ js) s1) else Some (b', s1))" by simp
  moreover have "wf_fn f'" unfolding f' by (intro emit_wf set_term_wf wf) (use wf_fnD(2) [OF wf e] in simp)
  moreover have "nblocks f' = nblocks f" "entry f' = Some b" using b(1) by (simp_all add: f' emit_def set_term_def)
  moreover have "map_option (\<lambda>(_, s). xs_calls s) (case r of None \<Rightarrow> None
    | Some (b', s1) \<Rightarrow> if b' = i then map_option (\<lambda>s2. (e, s2)) (exec_insts m args (is @ js) s1) else Some (b', s1)) = cs"
    using r by (auto simp: option.map_comp comp_def split: option.splits if_splits)
  ultimately show ?thesis using e b ei at [of e] unfolding chain_def by (auto intro!: exI [of _ "Suc n"])
qed

lemma add_translator_chain:
  assumes A: "add_translator structs e t f = Inr f'" and f: "chain m args e cs f" and len: "length args = length (fn_params f)"
  shows "chain m args e (Option.bind cs (\<lambda>cs0. map_option ((@) cs0) (translate m (fn_params f) args t))) f'"
    and "fn_params f' = fn_params f"
proof -
  obtain f1 i where c: "create_block (tr_label t @ '':instr'') (Some e) f = (f1, i)"
    by (cases "create_block (tr_label t @ '':instr'') (Some e) f")
  from A c obtain kas f3 ks where
    L: "pattern_loop structs (tr_label t) (tr_indirect t) e i 0 (zip (tr_patterns t) (fn_args f)) (replicate TESLA_KEY_SIZE None)
      (redirect e i f1) = Inr (kas, f3)"
    and K: "ConstructKey i kas (tr_free t) = Inr ks"
    and f': "f' = act (tr_action t) i (set_term i (Br e) (emit i ks f3))"
    by (auto simp: add_translator_def AddInstrumentation_def E_eq_Inr)
  let ?es = "zip (tr_patterns t) (zip (fn_params f) args)" and ?z = "replicate TESLA_KEY_SIZE None"
  from start_filling [OF f c] obtain r where r: "filling m args e i [] r (redirect e i f1)"
    "case r of None \<Rightarrow> cs = None | Some (b, s) \<Rightarrow> b = i \<and> cs = Some (xs_calls s)" and p1: "fn_params (redirect e i f1) = fn_params f" by blast
  have "gathered m args (Some ?z) ?z []" by (simp add: gathered_def vals_ok_def TESLA_KEY_SIZE_def eval_nat_numeral)
  from pattern_loop_filling [OF L r(1) zip_events_ok [OF len] this] obtain ins where
    f3: "filling m args e i ins (send (all_hold ?es) i e r) f3" "fn_params f3 = fn_params f"
    and g: "gathered m args (key_slots m (tr_indirect t) ?es ?z) kas ins" using p1 by auto
  have ie: "e \<noteq> i" using r(1) by (simp add: filling_def)
  let ?key = "\<lambda>slots. event_key slots (tr_free t)"
  have ex: "map_option xs_calls (exec_insts m args (ins @ ks @ [act_call (tr_action t) i]) s) =
    map_option (\<lambda>slots. xs_calls s @ [action_call m (?key slots) (tr_action t)]) (key_slots m (tr_indirect t) ?es ?z)" for s
  proof (cases "key_slots m (tr_indirect t) ?es ?z")
    case None
    with g show ?thesis by (simp add: gathered_def exec_insts_append)
  next
    case (Some slots)
    with g have ok: "vals_ok m args kas slots" "exec_insts m args ins s = Some s" by (simp_all add: gathered_def)
    have "length slots = TESLA_KEY_SIZE" using key_slots_length [OF Some] by simp
    from ConstructKey_exec [OF K ok(1) this, of s] obtain s' where
      "exec_insts m args ks s = Some s'" "xs_calls s' = xs_calls s" "map_of (xs_keys s') i = Some (?key slots)" by blast
    then show ?thesis using ok(2) Some by (simp add: exec_insts_append act_call_exec)
  qed
  have "f' = emit i (ks @ [act_call (tr_action t) i]) (set_term i (Br e) f3)"
    by (simp add: f' act_emit emit_def set_term_def map_block_def comp_def case_prod_unfold cong: if_cong)
  from finish_filling [OF f3(1) this] show "chain m args e (Option.bind cs (\<lambda>cs0. map_option ((@) cs0) (translate m (fn_params f) args t))) f'"
    using r(2) ie ex
    by (auto simp: send_def translate_def Let_def option.map_comp comp_def split: option.splits)
  show "fn_params f' = fn_params f" using f3(2) by (simp add: f' act_emit emit_def set_term_def)
qed

subsection \<open>A new translation function\<close>

text \<open>The debug output: one line, if \<open>tesla_debugging\<close> asks for it.\<close>

definition debug_calls :: "machine \<Rightarrow> bool \<Rightarrow> string \<Rightarrow> ty list \<Rightarrow> int list \<Rightarrow> observed list" where
  "debug_calls m suppress prefix ts args =
     (if suppress \<or> mc_call m ''tesla_debugging'' [mc_global m ''debug_name''] = 0 then []
      else case concatE (map Format ts) of
        Inl _ \<Rightarrow> []
      | Inr formats \<Rightarrow> [Observed ''printf'' (Int_a (mc_global m (prefix @ formats @ [CHR 0x0A])) # map Int_a args)])"

lemma those_map_Some: "(\<And>x. x \<in> set xs \<Longrightarrow> f x = Some (g x)) \<Longrightarrow> those (map f xs) = Some (map g xs)"
  by (induction xs) auto

lemma eval_fn_args:
  assumes "length args = length (fn_params f)"
  shows "those (map (eval_arg m args s) (fn_args f)) = Some (map Int_a args)"
proof -
  have "those (map (eval_arg m args s) (fn_args f)) = Some (map (\<lambda>v. Int_a (case v of Param i t \<Rightarrow> args ! i | _ \<Rightarrow> 0)) (fn_args f))"
    by (rule those_map_Some) (use assms in \<open>auto simp: fn_args_def in_set_enumerate_eq eval_arg_def\<close>)
  also have "map (\<lambda>v. Int_a (case v of Param i t \<Rightarrow> args ! i | _ \<Rightarrow> 0)) (fn_args f) = map Int_a args"
    using assms by (intro nth_equalityI) (simp_all add: fn_args_def nth_enumerate_eq)
  finally show ?thesis .
qed

lemma create_chain:
  assumes C: "TranslationFn_Create suppress prefix link f = Inr (f', e)" and new: "fn_blocks f = []"
    and len: "length args = length (fn_params f)"
  shows "chain m args e (Some (debug_calls m suppress prefix (fn_params f) args)) f'" and "fn_params f' = fn_params f"
proof -
  let ?exit = "(e, \<lparr>bb_name = ''exit'', bb_insts = [], bb_term = Some (Ret None)\<rparr>)"
  let ?entry = "(0, \<lparr>bb_name = ''entry'', bb_insts = [], bb_term = Some (Br e)\<rparr>)"
  have "chain m args e (Some (debug_calls m suppress prefix (fn_params f) args)) f' \<and> fn_params f' = fn_params f"
  proof (cases suppress)
    case True
    then have e: "e = 1" and b: "fn_blocks f' = [?entry, ?exit]" and p: "fn_params f' = fn_params f"
      using C new by (auto simp: TranslationFn_Create_def CreatePreamble_def create_block_def set_term_def map_block_def)
    have "wf_fn f'" by (auto simp: wf_fn_def block_at_def b e split: if_splits)
    moreover have "exec_to 1 m args f' {e} 0 initial_exec = Some (Some (e, initial_exec))"
      by (simp add: exec_to.simps exec_block_def block_at_def b e exec_term_def)
    ultimately show ?thesis using True p
      by (auto simp: chain_def block_at_def entry_def b e debug_calls_def initial_exec_def intro!: exI [of _ 1])
  next
    case False
    let ?dbg = "Call_v ''tesla_debugging'' Int32T [debug_name]"
    let ?cmp = "ICmpNE ?dbg (ConstInt 32 0)"
    from C new False obtain fmts where F: "concatE (map Format (fn_params f)) = Inr fmts" and e: "e = 3"
      and b: "fn_blocks f' = [(1, \<lparr>bb_name = ''preamble'', bb_insts = [Compute ?dbg, Compute ?cmp], bb_term = Some (CondBr ?cmp 2 0)\<rparr>),
        (2, \<lparr>bb_name = ''printf'', bb_insts = [Call_i ''printf'' (Global (prefix @ fmts @ [CHR 0x0A]) (IntT 8) # fn_args f)],
          bb_term = Some (Br 0)\<rparr>), ?entry, ?exit]"
      and p: "fn_params f' = fn_params f"
      by (auto simp: TranslationFn_Create_def CreatePreamble_def create_block_def set_term_def emit_def map_block_def
          E_eq_Inr Let_def fn_args_def)
    let ?d = "mc_call m ''tesla_debugging'' [mc_global m ''debug_name'']"
    let ?cs = "debug_calls m suppress prefix (fn_params f) args"
    have "wf_fn f'" by (auto simp: wf_fn_def block_at_def b e split: if_splits)
    moreover have "exec_to 3 m args f' {e} 1 initial_exec = Some (Some (e, initial_exec\<lparr>xs_calls := ?cs\<rparr>))"
      using False F eval_fn_args [OF len]
      by (simp add: exec_to.simps [of "Suc n" for n] exec_to.simps [of 0] eval_nat_numeral exec_block_def block_at_def b e
          exec_term_def debug_name_def bind2_def debug_calls_def initial_exec_def eval_arg_def)
    ultimately show ?thesis using p
      by (auto simp: chain_def block_at_def entry_def b e initial_exec_def intro!: exI [of _ 3])
  qed
  then show "chain m args e (Some (debug_calls m suppress prefix (fn_params f) args)) f'" "fn_params f' = fn_params f" by blast+
qed

lemma add_translators_chain:
  "add_translators structs e trs f = Inr f' \<Longrightarrow> chain m args e cs f \<Longrightarrow> length args = length (fn_params f)
     \<Longrightarrow> chain m args e (Option.bind cs (\<lambda>cs0. map_option ((@) cs0) (translate_all m (fn_params f) args trs))) f'"
proof (induction trs arbitrary: f cs)
  case Nil
  then show ?case by (cases cs) simp_all
next
  case (Cons t trs)
  from Cons.prems(1) obtain f1 where f1: "add_translator structs e t f = Inr f1" "add_translators structs e trs f1 = Inr f'"
    by (auto simp: E_eq_Inr)
  note s = add_translator_chain [OF f1(1) Cons.prems(2,3)]
  have eq: "Option.bind (Option.bind cs (\<lambda>cs0. map_option ((@) cs0) (translate m (fn_params f) args t)))
      (\<lambda>cs0. map_option ((@) cs0) (translate_all m (fn_params f) args trs))
    = Option.bind cs (\<lambda>cs0. map_option ((@) cs0) (translate_all m (fn_params f) args (t # trs)))"
    by (cases cs; cases "translate m (fn_params f) args t"; cases "translate_all m (fn_params f) args trs") simp_all
  from Cons.IH [OF f1(2) s(1)] s(2) Cons.prems(3) show ?case by (simp only: eq)
qed

lemma translators_call:
  assumes "TranslationFn_Create suppress prefix link f0 = Inr (f1, e)" and "fn_blocks f0 = []"
    and "add_translators structs e trs f1 = Inr f" and "length args = length (fn_params f0)"
  shows "call_fn m args f
    = map_option ((@) (debug_calls m suppress prefix (fn_params f0) args)) (translate_all m (fn_params f0) args trs)"
proof -
  note c = create_chain [OF assms(1,2,4)]
  have "length args = length (fn_params f1)" using assms(4) c(2) by simp
  from chain_call [OF add_translators_chain [OF assms(3) c(1) this]] c(2) show ?thesis by simp
qed

subsection \<open>An example\<close>

text \<open>A function of a number and a pointer to a number.  The first translator wants five and binds
  what is behind the pointer; the second wants a number with the lowest two bits set.\<close>

definition const_arg :: "int \<Rightarrow> match_type \<Rightarrow> argument" where
  "const_arg v mt = Argument Constant_arg None None None (Some v) (Some mt) None None"

definition var_arg :: "int \<Rightarrow> string \<Rightarrow> argument" where
  "var_arg i x = Argument Variable_arg (Some i) (Some x) None None None None None"

definition ex_fn :: fn where
  "ex_fn = \<lparr>fn_name = ''f'', fn_params = [IntT 32, PtrT (IntT 32)], fn_ret = VoidT, fn_vararg = False, fn_linkage = External_l,
     fn_blocks = []\<rparr>"

definition ex_machine :: machine where
  "ex_machine = \<lparr>mc_load = (\<lambda>t a. if a = 100 then Some 42 else None), mc_field = (\<lambda>s i a. a + int i), mc_global = (\<lambda>x. int (length x)),
     mc_local = (\<lambda>x. 0), mc_call = (\<lambda>f xs. 0)\<rparr>"

definition ex_translators :: "translator list" where
  "ex_translators =
    [\<lparr>tr_label = ''one'', tr_patterns = [const_arg 5 Exact_match, Argument Indirect_arg (Some 0) None None None None (Some (var_arg 0 ''x'')) None],
       tr_indirect = True, tr_free = 0, tr_action = Do_sunrise Thread_context ''lifetime''\<rparr>,
     \<lparr>tr_label = ''two'', tr_patterns = [const_arg 3 Flags_match, var_arg 1 ''p''],
       tr_indirect = True, tr_free = 0, tr_action = Do_sunset Global_context ''l''\<rparr>]"

definition ex_built :: "fn res" where
  "ex_built = bindE (TranslationFn_Create True ''f'' External_l ex_fn) (\<lambda>(f1, e). add_translators [] e ex_translators f1)"

subsection \<open>The property\<close>

text \<open>C6.  Calling an instrumentation function passes an event to libtesla for exactly those of its
  translators whose patterns fit the values, in the order they were added, each with the key its
  patterns describe; what it prints before depends only on the debug setting.  A translator faults
  only if following its indirections does.\<close>

theorem translation_correct:
  assumes "TranslationFn_Create suppress prefix link f0 = Inr (f1, e)" and "fn_blocks f0 = []"
    and "add_translators structs e trs f1 = Inr f" and "length args = length (fn_params f0)"
  shows "call_fn m args f
    = map_option ((@) (debug_calls m suppress prefix (fn_params f0) args)) (translate_all m (fn_params f0) args trs)"
  by (rule translators_call [OF assms])

theorem translation_correct_witness:
  "\<exists>f. ex_built = Inr f \<and> call_fn ex_machine [5, 100] f = Some [Observed ''tesla_sunrise'' [Int_a 1, Int_a 8]]
     \<and> call_fn ex_machine [7, 0] f = Some [Observed ''tesla_sunset'' [Int_a 0, Int_a 1]]
     \<and> call_fn ex_machine [5, 0] f = None"
proof -
  have "case ex_built of Inl _ \<Rightarrow> False | Inr _ \<Rightarrow> True" by code_simp
  then obtain f1 e f where f: "TranslationFn_Create True ''f'' External_l ex_fn = Inr (f1, e)"
    "add_translators [] e ex_translators f1 = Inr f"
    by (auto simp: ex_built_def bindE_def split: sum.splits)
  have n: "fn_blocks ex_fn = []" "fn_params ex_fn = [IntT 32, PtrT (IntT 32)]" by (simp_all add: ex_fn_def)
  have t: "translate_all ex_machine [IntT 32, PtrT (IntT 32)] [5, 100] ex_translators = Some [Observed ''tesla_sunrise'' [Int_a 1, Int_a 8]]"
    "translate_all ex_machine [IntT 32, PtrT (IntT 32)] [7, 0] ex_translators = Some [Observed ''tesla_sunset'' [Int_a 0, Int_a 1]]"
    "translate_all ex_machine [IntT 32, PtrT (IntT 32)] [5, 0] ex_translators = None" by code_simp+
  have d: "debug_calls ex_machine True ''f'' ts args = []" for ts args by (simp add: debug_calls_def)
  show ?thesis
    using f translation_correct [OF f(1) n(1) f(2), of "[5, 100]" ex_machine]
      translation_correct [OF f(1) n(1) f(2), of "[7, 0]" ex_machine]
      translation_correct [OF f(1) n(1) f(2), of "[5, 0]" ex_machine]
    by (simp add: n t d ex_built_def)
qed

end
