(* ===== verification/Tesla_Pass.thy ===== *)
theory Tesla_Pass
  imports Tesla_Module Tesla_Translation_Correct
begin

text \<open>
  What the passes that instrument functions (\<open>Callee.cpp\<close>, \<open>Caller.cpp\<close>) have in common: they keep two
  maps from functions to instrumentation functions, make an instrumentation function when the first
  event asks for it, and add a translator to it for every event.  The interface of such a pass is the
  locale \<open>event_pass\<close>: its operation that finds or makes an instrumentation function, and what it
  does to the instrumented function.  The result, proved once: the instrumentation functions of the
  module pass on exactly the events placed so far, in order.
\<close>

subsection \<open>Names\<close>

lemma dec_nat_inj: "dec_nat m = dec_nat n \<Longrightarrow> m = n"
proof (induction m arbitrary: n rule: dec_nat.induct)
  case (1 m)
  have digits: "dec_nat k \<noteq> []" for k by (subst dec_nat.simps) simp
  have d: "digit a = digit b \<Longrightarrow> a < 10 \<Longrightarrow> b < 10 \<Longrightarrow> a = b" for a b
    by (auto simp: digit_def dest!: arg_cong [of _ _ "of_char :: char \<Rightarrow> nat"])
  show ?case
  proof (cases "m < 10")
    case True
    then have "dec_nat n = [digit m]" using "1.prems" by (subst (asm) dec_nat.simps) simp
    then have "n < 10 \<and> digit n = digit m" using digits [of "n div 10"] by (subst (asm) dec_nat.simps) (auto split: if_splits)
    with d True show ?thesis by blast
  next
    case False
    then have m: "dec_nat n = dec_nat (m div 10) @ [digit (m mod 10)]" using "1.prems" by (subst (asm) dec_nat.simps) simp
    then have n: "\<not> n < 10" using digits [of "m div 10"] by (subst (asm) dec_nat.simps) (auto split: if_splits)
    then have "dec_nat n = dec_nat (n div 10) @ [digit (n mod 10)]" by (subst dec_nat.simps) simp
    with m have e: "dec_nat (m div 10) = dec_nat (n div 10)" "digit (m mod 10) = digit (n mod 10)" by simp_all
    have "m div 10 = n div 10" by (rule "1.IH" [OF False e(1)])
    moreover have "m mod 10 = n mod 10" by (rule d [OF e(2)]) simp_all
    ultimately show ?thesis by (metis div_mult_mod_eq)
  qed
qed

lemma unique_name_new: "unique_name taken name \<notin> set taken"
proof (cases "name \<in> set taken")
  case True
  let ?cs = "map (\<lambda>i. name @ dec_nat i) [0..<Suc (length taken)]"
  have "distinct ?cs" by (auto simp: distinct_map inj_on_def dest: dec_nat_inj)
  from distinct_card [OF this] have "card (set ?cs) = Suc (length taken)" by simp
  moreover have "card (set taken) \<le> length taken" by (rule card_length)
  moreover have "set ?cs \<subseteq> set taken \<Longrightarrow> card (set ?cs) \<le> card (set taken)" by (rule card_mono) simp_all
  ultimately have "\<not> set ?cs \<subseteq> set taken" by linarith
  then have "filter (\<lambda>x. x \<notin> set taken) ?cs \<noteq> []" by (auto simp: filter_empty_conv)
  then have "hd (filter (\<lambda>x. x \<notin> set taken) ?cs) \<in> set (filter (\<lambda>x. x \<notin> set taken) ?cs)" by (rule hd_in_set)
  then have "hd (filter (\<lambda>x. x \<notin> set taken) ?cs) \<notin> set taken" unfolding set_filter by blast
  then show ?thesis unfolding unique_name_def if_not_P [OF not_not [THEN iffD2, OF True]] .
qed (simp add: unique_name_def)

subsection \<open>Functions of a module\<close>

lemma getFunction_name: "getFunction m n = Some f \<Longrightarrow> fn_name f = n"
  by (auto simp: getFunction_def find_Some_iff)

lemma find_put: "find (\<lambda>g. fn_name g = n) (map (\<lambda>g. if fn_name g = fn_name f then f else g) fs)
   = (if n = fn_name f \<and> find (\<lambda>g. fn_name g = n) fs \<noteq> None then Some f else find (\<lambda>g. fn_name g = n) fs)"
  by (induction fs) auto

lemma find_snoc: "find P (xs @ [x]) = (case find P xs of None \<Rightarrow> if P x then Some x else None | Some y \<Rightarrow> Some y)"
  by (induction xs) auto

lemma getFunction_put:
  "getFunction (put_fn f m) n = (if n = fn_name f \<and> getFunction m n \<noteq> None then Some f else getFunction m n)"
  by (auto simp: getFunction_def put_fn_def find_put)

lemma getFunction_declare:
  "getFunction (declare_fn name ps r v m) n =
     (if getFunction m n = None \<and> n = name then
        Some \<lparr>fn_name = name, fn_params = ps, fn_ret = r, fn_vararg = v, fn_linkage = External_l, fn_blocks = []\<rparr>
      else getFunction m n)"
  by (simp add: getFunction_def declare_fn_def find_snoc split: option.splits)

lemma module_frame [simp]:
  "mo_structs (put_fn f m) = mo_structs m" "mo_globals (put_fn f m) = mo_globals m"
  "mo_structs (declare_fn name ps r v m) = mo_structs m" "mo_globals (declare_fn name ps r v m) = mo_globals m"
  "mo_structs (in_fn n h m) = mo_structs m" "mo_globals (in_fn n h m) = mo_globals m"
  by (simp_all add: put_fn_def declare_fn_def in_fn_def split: option.split)

lemma getFunction_in:
  assumes "\<And>f. fn_name (h f) = fn_name f"
  shows "getFunction (in_fn name h m) n = (if n = name then map_option h (getFunction m n) else getFunction m n)"
  using assms getFunction_name by (auto simp: in_fn_def getFunction_put split: option.splits)

text \<open>The names of functions are not changed.\<close>

lemma name_frame [simp]:
  "fn_name (map_block b h f) = fn_name f" "fn_name (emit b is f) = fn_name f" "fn_name (set_term b t f) = fn_name f"
  "fn_name (redirect old new f) = fn_name f" "fn_name (fst (create_block nm before f)) = fn_name f"
  "fn_name (hook_entry x f) = fn_name f" "fn_name (act a i f) = fn_name f"
  by (simp_all add: map_block_def emit_def set_term_def redirect_def create_block_def Let_def hook_entry_def act_def
      CallUpdateState_def CallSunrise_def CallSunset_def split: list.split action.split)

lemma create_block_name: "create_block nm before f = (f', b) \<Longrightarrow> fn_name f' = fn_name f"
  using name_frame(5) [of nm before f] by simp

lemma Match_name: "Match lab e i p v f = Inr f' \<Longrightarrow> fn_name f' = fn_name f"
  by (auto simp: Match_def Let_def E_eq_Inr split: if_splits prod.splits dest: create_block_name)

lemma place_key_name: "place_key ss ind i p v ks f = Inr (ks', f') \<Longrightarrow> fn_name f' = fn_name f"
  by (auto simp: place_key_def E_eq_Inr split: if_splits option.splits)

lemma pattern_loop_name:
  "pattern_loop ss lab ind e i n pvs ks f = Inr (ks', f') \<Longrightarrow> fn_name f' = fn_name f"
proof (induction pvs arbitrary: n ks f)
  case (Cons pv pvs)
  then show ?case by (cases pv) (auto simp: E_eq_Inr dest!: Match_name place_key_name)
qed simp

lemma AddInstrumentation_name: "AddInstrumentation ss lab ps ind fm e f = Inr (f', i) \<Longrightarrow> fn_name f' = fn_name f"
  by (auto simp: AddInstrumentation_def Let_def E_eq_Inr split: prod.splits dest!: pattern_loop_name dest: create_block_name)

lemma add_translator_name: "add_translator ss e t f = Inr f' \<Longrightarrow> fn_name f' = fn_name f"
  by (auto simp: add_translator_def E_eq_Inr dest: AddInstrumentation_name)

lemma CreatePreamble_name: "CreatePreamble sp pre f = Inr (f', e) \<Longrightarrow> fn_name f' = fn_name f"
  by (auto simp: CreatePreamble_def Let_def case_prod_unfold E_eq_Inr split: if_splits dest: create_block_name)

lemma TranslationFn_Create_name: "TranslationFn_Create sp pre l f = Inr (f', e) \<Longrightarrow> fn_name f' = fn_name f"
  by (auto simp: TranslationFn_Create_def Let_def case_prod_unfold E_eq_Inr split: if_splits dest!: CreatePreamble_name)

lemma add_translators_name: "add_translators ss e ts f = Inr f' \<Longrightarrow> fn_name f' = fn_name f"
  by (induction ts arbitrary: f) (auto simp: E_eq_Inr dest: add_translator_name)

lemma add_translators_snoc:
  "add_translators ss e (ts @ [t]) f = bindE (add_translators ss e ts f) (add_translator ss e t)"
  by (induction ts arbitrary: f) (auto simp: bindE_def split: sum.splits)

subsection \<open>What an event asks for\<close>

datatype hook = Symbol_h automaton nat | Begin_h automaton_lifetime | End_h automaton_lifetime

text \<open>What the module needs for the action, and the action.\<close>

definition prepare ::
  "(function_event + field_assignment \<Rightarrow> string option) \<Rightarrow> hook \<Rightarrow> modul \<Rightarrow> (modul \<times> action) res" where
  "prepare ser h m = (case h of
     Symbol_h a x \<Rightarrow> Inr (ExternalDescription a m, Do_update a x)
   | Begin_h l \<Rightarrow> bindE (BuildLifetime ser l m) (\<lambda>(m', n). Inr (m', Do_sunrise (al_context l) n))
   | End_h l \<Rightarrow> bindE (BuildLifetime ser l m) (\<lambda>(m', n). Inr (m', Do_sunset (al_context l) n)))"

type_synonym placement = "function_event \<times> string \<times> hook"

subsection \<open>Instrumentation functions\<close>

text \<open>The name of the function that hears of calls or returns of \<open>n\<close>, what it prints, its linkage and its parameters.\<close>

definition ibase :: "call_context \<Rightarrow> string" where
  "ibase c = INSTR_BASE @ (if c = Callee then ''callee_'' else ''caller_'')"

definition iname :: "call_context \<Rightarrow> string \<Rightarrow> direction \<Rightarrow> string" where
  "iname c n d = ibase c @ (if d = Entry then ''enter_'' else ''return_'') @ n"

definition iprefix :: "call_context \<Rightarrow> string \<Rightarrow> direction \<Rightarrow> string" where
  "iprefix c n d = ''['' @ (if d = Entry then ''CAL'' else ''RET'') @ (if c = Callee then ''E'' else ''R'') @ ''] '' @ n"

definition ilink :: "call_context \<Rightarrow> linkage" where
  "ilink c = (if c = Callee then External_l else Private_l)"

definition iparams :: "direction \<Rightarrow> fn \<Rightarrow> ty list" where
  "iparams d f = fn_params f @ (if d = Exit \<and> fn_ret f \<noteq> VoidT then [fn_ret f] else [])"

definition idecl :: "call_context \<Rightarrow> string \<Rightarrow> direction \<Rightarrow> fn \<Rightarrow> fn" where
  "idecl c n d f = \<lparr>fn_name = iname c n d, fn_params = iparams d f, fn_ret = VoidT, fn_vararg = fn_vararg f,
     fn_linkage = External_l, fn_blocks = []\<rparr>"

definition reserved :: "call_context \<Rightarrow> string \<Rightarrow> bool" where
  "reserved c n \<longleftrightarrow> take (length (ibase c)) n = ibase c"

lemma reserved_iname [simp]: "reserved c (iname c n d)"
  by (simp add: reserved_def iname_def)

lemma iname_eq [simp]: "iname c n d = iname c n' d' \<longleftrightarrow> n = n' \<and> d = d'"
  by (cases d; cases d') (simp_all add: iname_def)

lemma CreateInstrFn_view:
  assumes "CreateInstrFn sp ev f m = Inr (m', t)" and "fn_context ev = c"
    and "getFunction m (iname c (fe_function ev) (fn_direction ev)) = None"
  shows "\<exists>f1 e. t = (iname c (fe_function ev) (fn_direction ev), e)
    \<and> TranslationFn_Create sp (iprefix c (fe_function ev) (fn_direction ev)) (ilink c) (idecl c (fe_function ev) (fn_direction ev) f) = Inr (f1, e)
    \<and> getFunction m' = (getFunction m)(iname c (fe_function ev) (fn_direction ev) \<mapsto> f1)
    \<and> mo_structs m' = mo_structs m \<and> mo_globals m' = mo_globals m"
proof -
  let ?n = "iname c (fe_function ev) (fn_direction ev)" and ?d = "idecl c (fe_function ev) (fn_direction ev) f"
  have names: "INSTR_BASE @ instr_suffix ev = ?n" "instr_prefix ev = iprefix c (fe_function ev) (fn_direction ev)"
    "instr_params ev f = iparams (fn_direction ev) f"
    using assms(2) by (auto simp: instr_suffix_def iname_def ibase_def instr_prefix_def iprefix_def instr_params_def iparams_def)
  let ?m = "declare_fn ?n (iparams (fn_direction ev) f) VoidT (fn_vararg f) m"
  have g: "getFunction ?m = (getFunction m)(?n \<mapsto> ?d)" using assms(3) by (auto simp: getFunction_declare idecl_def)
  from assms obtain f1 e where c: "TranslationFn_Create sp (iprefix c (fe_function ev) (fn_direction ev)) (ilink c) ?d = Inr (f1, e)"
    "m' = put_fn f1 ?m" "t = (?n, e)"
    by (auto simp: CreateInstrFn_def create_translation_def getOrInsertFunction_def names ilink_def E_eq_Inr derefE_def g Let_def split: prod.splits)
  from TranslationFn_Create_name [OF c(1)] have "fn_name f1 = ?n" by (simp add: idecl_def)
  then have "getFunction m' = (getFunction m)(?n \<mapsto> f1)" by (auto simp: c(2) getFunction_put g)
  with c show ?thesis by simp
qed

text \<open>The globals a program has are kept; a lifetime that is built is found in the module.\<close>

definition global_at :: "gvar list \<Rightarrow> string \<Rightarrow> gvar option" where
  "global_at gs n = find (\<lambda>g. gv_name g = n) gs"

definition describes ::
  "(function_event + field_assignment \<Rightarrow> string option) \<Rightarrow> gvar list \<Rightarrow> string \<Rightarrow> automaton_lifetime \<Rightarrow> bool" where
  "describes ser gs n l \<longleftrightarrow> (\<exists>a b g c. al_init l = Some a \<and> al_cleanup l = Some b \<and> global_at gs n = Some g
     \<and> gv_init g = Some (Lifetime_init c) \<and> lifetime_content ser a b = Inr c)"

definition lifetime_unnamed :: "modul \<Rightarrow> automaton_lifetime \<Rightarrow> bool" where
  "lifetime_unnamed m l = (case (al_init l, al_cleanup l) of
     (Some a, Some b) \<Rightarrow> (case lifetime_name a b of Inr n \<Rightarrow> getGlobalVariable m n = None | Inl _ \<Rightarrow> True)
   | _ \<Rightarrow> True)"

lemma new_global_view:
  assumes "new_global name link t ini m = (m', n)"
  shows "getFunction m' = getFunction m" and "mo_structs m' = mo_structs m"
    and "mo_globals m' = mo_globals m @ [\<lparr>gv_name = n, gv_linkage = link, gv_type = t, gv_init = ini\<rparr>]" and "global_at (mo_globals m) n = None"
  using assms unique_name_new [of "map gv_name (mo_globals m)" name]
  by (auto simp: new_global_def Let_def getFunction_def fun_eq_iff global_at_def find_None_iff image_iff)

lemma global_at_snoc: "global_at gs n = Some g \<Longrightarrow> global_at (gs @ gs') n = Some g"
  by (induction gs) (auto simp: global_at_def)

lemma describes_append: "describes ser gs n l \<Longrightarrow> describes ser (gs @ gs') n l"
  unfolding describes_def using global_at_snoc by metis

lemma BuildLifetime_view:
  assumes "BuildLifetime ser l m = Inr (m', n)" and "lifetime_unnamed m l"
  shows "getFunction m' = getFunction m \<and> mo_structs m' = mo_structs m \<and> describes ser (mo_globals m') n l
    \<and> (\<exists>c. mo_globals m' = mo_globals m @ [\<lparr>gv_name = n, gv_linkage = Internal_l, gv_type = StructT ''tesla_lifetime'', gv_init = Some (Lifetime_init c)\<rparr>])"
proof -
  from assms obtain a b name c where l: "al_init l = Some a" "al_cleanup l = Some b" "lifetime_name a b = Inr name"
    "lifetime_content ser a b = Inr c" and new: "new_global name Internal_l (StructT ''tesla_lifetime'') (Some (Lifetime_init c)) m = (m', n)"
    by (auto simp: BuildLifetime_def lifetime_unnamed_def E_eq_Inr split: option.splits sum.splits)
  note v = new_global_view [OF new]
  have "global_at (mo_globals m') n = Some \<lparr>gv_name = n, gv_linkage = Internal_l, gv_type = StructT ''tesla_lifetime'', gv_init = Some (Lifetime_init c)\<rparr>"
    using v(3,4) by (simp add: global_at_def find_snoc)
  then have "describes ser (mo_globals m') n l" using l(1,2,4) by (auto simp: describes_def)
  with v show ?thesis by simp
qed

subsection \<open>The translators of a function\<close>

definition does :: "(function_event + field_assignment \<Rightarrow> string option) \<Rightarrow> gvar list \<Rightarrow> hook \<Rightarrow> action \<Rightarrow> bool" where
  "does ser gs h a = (case h of
     Symbol_h au x \<Rightarrow> a = Do_update au x
   | Begin_h l \<Rightarrow> \<exists>n. a = Do_sunrise (al_context l) n \<and> describes ser gs n l
   | End_h l \<Rightarrow> \<exists>n. a = Do_sunset (al_context l) n \<and> describes ser gs n l)"

definition realises ::
  "(function_event + field_assignment \<Rightarrow> string option) \<Rightarrow> gvar list \<Rightarrow> placement \<Rightarrow> translator \<Rightarrow> bool" where
  "realises ser gs pl t = (case pl of (ev, label, h) \<Rightarrow> tr_label t = label \<and> fn_patterns ev = Inr (tr_patterns t) \<and> tr_indirect t
     \<and> tr_free t = 0 \<and> does ser gs h (tr_action t))"

lemma realises_append: "realises ser gs pl t \<Longrightarrow> realises ser (gs @ gs') pl t"
  by (auto simp: realises_def does_def describes_append split: hook.splits prod.splits)

fun hook_unnamed :: "modul \<Rightarrow> hook \<Rightarrow> bool" where
  "hook_unnamed m (Symbol_h a x) = True"
| "hook_unnamed m (Begin_h l) = lifetime_unnamed m l"
| "hook_unnamed m (End_h l) = lifetime_unnamed m l"

lemma unnamed_cong: "getGlobalVariable m' = getGlobalVariable m \<Longrightarrow> hook_unnamed m' h = hook_unnamed m h"
  by (cases h) (auto simp: lifetime_unnamed_def split: option.splits sum.splits)

lemma prepare_view:
  assumes "prepare ser h m = Inr (m', a)" and "hook_unnamed m h"
  shows "getFunction m' = getFunction m" and "mo_structs m' = mo_structs m" and "does ser (mo_globals m') h a"
    and "\<exists>gs. mo_globals m' = mo_globals m @ gs"
    and "\<forall>au x. h \<noteq> Symbol_h au x \<Longrightarrow> getGlobalVariable m' = getGlobalVariable m"
proof -
  have "getFunction m' = getFunction m \<and> mo_structs m' = mo_structs m \<and> does ser (mo_globals m') h a
    \<and> (\<exists>gs. mo_globals m' = mo_globals m @ gs)
    \<and> ((\<forall>au x. h \<noteq> Symbol_h au x) \<longrightarrow> getGlobalVariable m' = getGlobalVariable m)"
  proof (cases h)
    case (Symbol_h au x)
    with assms(1) have "m' = ExternalDescription au m" "a = Do_update au x" by (auto simp: prepare_def)
    moreover obtain m'' n where "new_global (au_name au) External_l (StructT ''tesla_automaton'') None m = (m'', n)" by (cases "new_global (au_name au) External_l (StructT ''tesla_automaton'') None m")
    ultimately show ?thesis using new_global_view
      by (cases "getGlobalVariable m (au_name au)") (auto simp: Symbol_h does_def ExternalDescription_def)
  next
    case (Begin_h l)
    with assms obtain n where "BuildLifetime ser l m = Inr (m', n)" "a = Do_sunrise (al_context l) n" by (auto simp: prepare_def E_eq_Inr)
    with BuildLifetime_view [OF this(1)] assms(2) show ?thesis
      by (auto simp: Begin_h does_def getGlobalVariable_def find_snoc fun_eq_iff split: option.split)
  next
    case (End_h l)
    with assms obtain n where "BuildLifetime ser l m = Inr (m', n)" "a = Do_sunset (al_context l) n" by (auto simp: prepare_def E_eq_Inr)
    with BuildLifetime_view [OF this(1)] assms(2) show ?thesis
      by (auto simp: End_h does_def getGlobalVariable_def find_snoc fun_eq_iff split: option.split)
  qed
  then show "getFunction m' = getFunction m" "mo_structs m' = mo_structs m" "does ser (mo_globals m') h a"
    "\<exists>gs. mo_globals m' = mo_globals m @ gs" "\<forall>au x. h \<noteq> Symbol_h au x \<Longrightarrow> getGlobalVariable m' = getGlobalVariable m" by blast+
qed

text \<open>Adding the event to the instrumentation function.\<close>

lemma add_view:
  assumes add: "add_event ev label t m = Inr (m2, instr)" and prep: "prepare ser h m2 = Inr (m3, a)" and h: "hook_unnamed m h"
    and g: "getFunction m (fst t) = Some g"
  shows "\<exists>tr g'. realises ser (mo_globals m3) (ev, label, h) tr \<and> add_translator (mo_structs m) (snd t) tr g = Inr g'
    \<and> getFunction (in_fn (fst t) (act a instr) m3) = (getFunction m)(fst t \<mapsto> g')"
    and "mo_structs m3 = mo_structs m" and "\<exists>gs. mo_globals m3 = mo_globals m @ gs"
    and "\<forall>au x. h \<noteq> Symbol_h au x \<Longrightarrow> getGlobalVariable m3 = getGlobalVariable m"
proof -
  from add g obtain ps g1 where ps: "fn_patterns ev = Inr ps" and g1: "AddInstrumentation (mo_structs m) label ps True 0 (snd t) g = Inr (g1, instr)"
    and m2: "m2 = put_fn g1 m"
    by (auto simp: add_event_def AddInstrumentation_fn_def E_eq_Inr derefE_def)
  have n: "fn_name g1 = fst t" using AddInstrumentation_name [OF g1] getFunction_name [OF g] by simp
  have h2: "hook_unnamed m2 h" using h unnamed_cong [of m2 m] by (simp add: m2 getGlobalVariable_def fun_eq_iff)
  note v = prepare_view [OF prep h2]
  let ?tr = "\<lparr>tr_label = label, tr_patterns = ps, tr_indirect = True, tr_free = 0, tr_action = a\<rparr>"
  have f: "getFunction m2 = (getFunction m)(fst t \<mapsto> g1)" using n g by (auto simp: m2 getFunction_put)
  have "getFunction (in_fn (fst t) (act a instr) m3) = (getFunction m)(fst t \<mapsto> act a instr g1)"
    by (auto simp: getFunction_in v(1) f)
  moreover have "add_translator (mo_structs m) (snd t) ?tr g = Inr (act a instr g1)" using g1 by (simp add: add_translator_def E_eq_Inr)
  moreover have "realises ser (mo_globals m3) (ev, label, h) ?tr" using v(3) ps by (simp add: realises_def)
  ultimately show "\<exists>tr g'. realises ser (mo_globals m3) (ev, label, h) tr \<and> add_translator (mo_structs m) (snd t) tr g = Inr g'
    \<and> getFunction (in_fn (fst t) (act a instr) m3) = (getFunction m)(fst t \<mapsto> g')" by blast
  show "mo_structs m3 = mo_structs m" "\<exists>gs. mo_globals m3 = mo_globals m @ gs" using v(2,4) by (simp_all add: m2)
  show "getGlobalVariable m3 = getGlobalVariable m" if "\<forall>au x. h \<noteq> Symbol_h au x"
    using v(5) [OF that] by (simp add: m2 getGlobalVariable_def fun_eq_iff)
qed

subsection \<open>The invariant of a pass\<close>

text \<open>The events placed so far that concern calls or returns of a function, and the directions.\<close>

definition events_at :: "placement list \<Rightarrow> string \<Rightarrow> direction \<Rightarrow> placement list" where
  "events_at hs n d = filter (\<lambda>(ev, _). fe_function ev = n \<and> fn_direction ev = d) hs"

definition directions_at :: "placement list \<Rightarrow> string \<Rightarrow> direction set" where
  "directions_at hs n = {d. events_at hs n d \<noteq> []}"

text \<open>The instrumentation function of a name and direction passes on a list of events: \<open>m\<close> is the module
  the pass began with, \<open>m'\<close> the module it has made and \<open>look\<close> its maps.\<close>

definition hears ::
  "call_context \<Rightarrow> (function_event + field_assignment \<Rightarrow> string option) \<Rightarrow> bool \<Rightarrow> modul \<Rightarrow> modul \<Rightarrow> (direction \<Rightarrow> string \<Rightarrow> translation_fn option)
    \<Rightarrow> string \<Rightarrow> direction \<Rightarrow> placement list \<Rightarrow> bool" where
  "hears c ser sp m m' look n d es \<longleftrightarrow> (\<exists>f f1 e g trs. getFunction m n = Some f \<and> look d n = Some (iname c n d, e)
     \<and> TranslationFn_Create sp (iprefix c n d) (ilink c) (idecl c n d f) = Inr (f1, e)
     \<and> add_translators (mo_structs m) e trs f1 = Inr g \<and> getFunction m' (iname c n d) = Some g
     \<and> list_all2 (realises ser (mo_globals m')) es trs)"

definition silent :: "call_context \<Rightarrow> modul \<Rightarrow> (direction \<Rightarrow> string \<Rightarrow> translation_fn option) \<Rightarrow> string \<Rightarrow> direction \<Rightarrow> bool" where
  "silent c m' look n d \<longleftrightarrow> look d n = None \<and> getFunction m' (iname c n d) = None"

text \<open>\<open>wv\<close> is what the pass does to the functions that have events.\<close>

definition woven ::
  "call_context \<Rightarrow> (string \<Rightarrow> direction set \<Rightarrow> fn \<Rightarrow> fn res) \<Rightarrow> (function_event + field_assignment \<Rightarrow> string option) \<Rightarrow> bool \<Rightarrow> modul
    \<Rightarrow> placement list \<Rightarrow> modul \<Rightarrow> (direction \<Rightarrow> string \<Rightarrow> translation_fn option) \<Rightarrow> bool" where
  "woven c wv ser sp m hs m' look \<longleftrightarrow> mo_structs m' = mo_structs m
     \<and> (\<forall>n. \<not> reserved c n \<longrightarrow> (case getFunction m n of
          None \<Rightarrow> getFunction m' n = None
        | Some f \<Rightarrow> \<exists>f'. getFunction m' n = Some f' \<and> wv n (directions_at hs n) f = Inr f'))
     \<and> (\<forall>n d. \<not> reserved c n \<longrightarrow> (if events_at hs n d = [] then silent c m' look n d else hears c ser sp m m' look n d (events_at hs n d)))"

lemma hears_mono:
  assumes "hears c ser sp m m1 look n d es" and "look' d n = look d n"
    and "getFunction m2 (iname c n d) = getFunction m1 (iname c n d)" and "mo_globals m2 = mo_globals m1 @ gs"
  shows "hears c ser sp m m2 look' n d es"
proof -
  from assms(1) obtain f f1 e g trs where h: "getFunction m n = Some f" "look d n = Some (iname c n d, e)"
    "TranslationFn_Create sp (iprefix c n d) (ilink c) (idecl c n d f) = Inr (f1, e)" "add_translators (mo_structs m) e trs f1 = Inr g"
    "getFunction m1 (iname c n d) = Some g" "list_all2 (realises ser (mo_globals m1)) es trs"
    unfolding hears_def by blast
  have "list_all2 (realises ser (mo_globals m2)) es trs"
    by (rule list_all2_mono [OF h(6)]) (simp add: assms(4) realises_append)
  with h(1-5) show ?thesis unfolding hears_def assms(2,3) by blast
qed

lemma hears_calls:
  assumes "hears c ser sp m m' look n d es" and "getFunction m n = Some f"
  shows "\<exists>g trs. getFunction m' (iname c n d) = Some g \<and> list_all2 (realises ser (mo_globals m')) es trs
    \<and> (\<forall>mc args. length args = length (iparams d f) \<longrightarrow> call_fn mc args g
        = map_option ((@) (debug_calls mc sp (iprefix c n d) (iparams d f) args)) (translate_all mc (iparams d f) args trs))"
proof -
  from assms obtain f1 e g trs where h: "TranslationFn_Create sp (iprefix c n d) (ilink c) (idecl c n d f) = Inr (f1, e)"
    "add_translators (mo_structs m) e trs f1 = Inr g" "getFunction m' (iname c n d) = Some g"
    "list_all2 (realises ser (mo_globals m')) es trs"
    unfolding hears_def by auto
  have d: "fn_blocks (idecl c n d f) = []" "fn_params (idecl c n d f) = iparams d f" by (simp_all add: idecl_def)
  have "call_fn mc args g = map_option ((@) (debug_calls mc sp (iprefix c n d) (iparams d f) args)) (translate_all mc (iparams d f) args trs)"
    if a: "length args = length (iparams d f)" for mc args
    using translators_call [OF h(1) d(1) h(2)] a by (simp add: d(2))
  with h(3,4) show ?thesis by blast
qed

lemma events_at_snoc:
  "events_at (hs @ [(ev, label, h)]) n d =
     events_at hs n d @ (if fe_function ev = n \<and> fn_direction ev = d then [(ev, label, h)] else [])"
  by (simp add: events_at_def)

lemma directions_at_snoc:
  "directions_at (hs @ [(ev, label, h)]) n = (if fe_function ev = n then insert (fn_direction ev) (directions_at hs n) else directions_at hs n)"
  by (auto simp: directions_at_def events_at_snoc)

lemma wovenD:
  assumes "woven c wv ser sp m hs m' look" and "\<not> reserved c n" and "getFunction m' n = Some f"
  obtains f0 where "getFunction m n = Some f0" and "wv n (directions_at hs n) f0 = Inr f"
  using assms unfolding woven_def by (cases "getFunction m n") auto

lemma woven_start:
  assumes "list_all (\<lambda>f. \<not> reserved c (fn_name f)) (mo_fns m)" and "\<And>n f. wv n {} f = Inr f" and "\<And>d n. look d n = None"
  shows "woven c wv ser sp m [] m look"
proof -
  have "getFunction m (iname c n d) = None" for n d
    using assms(1) by (auto simp: getFunction_def find_None_iff list_all_iff)
  moreover have "directions_at [] n = {}" for n by (simp add: directions_at_def events_at_def)
  ultimately show ?thesis using assms(2,3) by (simp add: woven_def events_at_def silent_def split: option.split)
qed

text \<open>The events of an automaton are on C functions and do not name the instrumenter's own.\<close>

definition edge_unreserved :: "call_context \<Rightarrow> edge \<Rightarrow> bool" where
  "edge_unreserved c e = (case e_label e of Fn_t ev \<Rightarrow> fn_kind ev = CCall \<and> \<not> reserved c (fe_function ev) | _ \<Rightarrow> True)"

definition automaton_unreserved :: "call_context \<Rightarrow> automaton \<Rightarrow> bool" where
  "automaton_unreserved c a = list_all (\<lambda>x. edge_unreserved c (au_edge a (hd x))) (au_classes a)"

lemma automaton_unreservedD:
  "automaton_unreserved c a \<Longrightarrow> x \<in> set [0..<length (au_classes a)] \<Longrightarrow> edge_unreserved c (au_edge a (hd (au_classes a ! x)))"
  by (simp add: automaton_unreserved_def list_all_length)

subsection \<open>Placing an event\<close>

definition place_with ::
  "(modul \<Rightarrow> function_event \<Rightarrow> fn option) \<Rightarrow> (bool \<Rightarrow> fn \<Rightarrow> function_event \<Rightarrow> 's \<Rightarrow> ('s \<times> translation_fn) res) \<Rightarrow> ('s \<Rightarrow> modul) \<Rightarrow> (modul \<Rightarrow> 's \<Rightarrow> 's)
    \<Rightarrow> (function_event + field_assignment \<Rightarrow> string option) \<Rightarrow> bool \<Rightarrow> placement \<Rightarrow> 's \<Rightarrow> 's res" where
  "place_with target get_instr modl set_mod ser sp pl s = (case pl of (ev, label, h) \<Rightarrow>
     bindE (derefE ''Target'' (target (modl s) ev)) (\<lambda>f.
     bindE (get_instr sp f ev s) (\<lambda>(s1, t).
     bindE (add_event ev label t (modl s1)) (\<lambda>(m2, instr).
     bindE (prepare ser h m2) (\<lambda>(m3, a). Inr (set_mod (in_fn (fst t) (act a instr) m3) s1))))))"

locale event_pass =
  fixes ctx :: call_context
    and modl :: "'s \<Rightarrow> modul"
    and set_mod :: "modul \<Rightarrow> 's \<Rightarrow> 's"
    and look :: "'s \<Rightarrow> direction \<Rightarrow> string \<Rightarrow> translation_fn option"
    and target :: "modul \<Rightarrow> function_event \<Rightarrow> fn option"
    and get_instr :: "bool \<Rightarrow> fn \<Rightarrow> function_event \<Rightarrow> 's \<Rightarrow> ('s \<times> translation_fn) res"
    and hook_in :: "string \<Rightarrow> direction \<Rightarrow> fn \<Rightarrow> fn res"
    and wv :: "string \<Rightarrow> direction set \<Rightarrow> fn \<Rightarrow> fn res"
  assumes modl_set: "modl (set_mod m s) = m"
    and look_set: "look (set_mod m s) = look s"
    and targetD: "target m ev = Some f \<Longrightarrow> fn_context ev = ctx \<and> getFunction m (fe_function ev) = Some f"
    and found: "get_instr sp f ev s = Inr (s', t) \<Longrightarrow> getFunction (modl s) (fe_function ev) = Some f \<Longrightarrow> look s (fn_direction ev) (fe_function ev) = Some t' \<Longrightarrow> s' = s \<and> t = t'"
    and made: "get_instr sp f ev s = Inr (s', t) \<Longrightarrow> fn_context ev = ctx \<Longrightarrow> n = fe_function ev \<Longrightarrow> d = fn_direction ev
      \<Longrightarrow> getFunction (modl s) n = Some f \<Longrightarrow> \<not> reserved ctx n \<Longrightarrow> look s d n = None \<Longrightarrow> getFunction (modl s) (iname ctx n d) = None
      \<Longrightarrow> \<exists>f1 e f'. t = (iname ctx n d, e) \<and> TranslationFn_Create sp (iprefix ctx n d) (ilink ctx) (idecl ctx n d f) = Inr (f1, e)
        \<and> hook_in n d f = Inr f' \<and> getFunction (modl s') = (getFunction (modl s))(iname ctx n d \<mapsto> f1, n \<mapsto> f')
        \<and> mo_structs (modl s') = mo_structs (modl s) \<and> mo_globals (modl s') = mo_globals (modl s)
        \<and> look s' = (look s)(d := (look s d)(n \<mapsto> t))"
    and wv_empty: "wv n {} f = Inr f"
    and wv_insert: "wv n D f = Inr f' \<Longrightarrow> d \<notin> D \<Longrightarrow> wv n (insert d D) f = hook_in n d f'"
    and wv_decl: "wv n D f = Inr f' \<Longrightarrow> idecl ctx n d f' = idecl ctx n d f"
begin

text \<open>After looking for the instrumentation function, it is there and its function calls it.\<close>

lemma get_instr_woven:
  assumes W: "woven ctx wv ser sp m hs (modl p) (look p)" and run: "get_instr sp f ev p = Inr (p1, t)" and c: "fn_context ev = ctx"
    and f: "getFunction (modl p) n = Some f" "\<not> reserved ctx n" and nd: "n = fe_function ev" "d = fn_direction ev"
    and f0: "getFunction m n = Some f0" "wv n (directions_at hs n) f0 = Inr f"
  shows "mo_structs (modl p1) = mo_structs (modl p)" and "mo_globals (modl p1) = mo_globals (modl p)"
    and "\<exists>f'. getFunction (modl p1) n = Some f' \<and> wv n (insert d (directions_at hs n)) f0 = Inr f'"
    and "\<And>n'. \<not> reserved ctx n' \<Longrightarrow> n' \<noteq> n \<Longrightarrow> getFunction (modl p1) n' = getFunction (modl p) n'"
    and "\<And>n' d'. \<not> reserved ctx n' \<Longrightarrow> n' \<noteq> n \<or> d' \<noteq> d \<Longrightarrow> getFunction (modl p1) (iname ctx n' d') = getFunction (modl p) (iname ctx n' d')
      \<and> look p1 d' n' = look p d' n'"
    and "hears ctx ser sp m (modl p1) (look p1) n d (events_at hs n d)" and "look p1 d n = Some t"
proof -
  have ne: "n \<noteq> iname ctx n' d'" for n' d' using f(2) reserved_iname by metis
  have "mo_structs (modl p1) = mo_structs (modl p) \<and> mo_globals (modl p1) = mo_globals (modl p)
    \<and> (\<exists>f'. getFunction (modl p1) n = Some f' \<and> wv n (insert d (directions_at hs n)) f0 = Inr f')
    \<and> (\<forall>n'. \<not> reserved ctx n' \<longrightarrow> n' \<noteq> n \<longrightarrow> getFunction (modl p1) n' = getFunction (modl p) n')
    \<and> (\<forall>n' d'. \<not> reserved ctx n' \<longrightarrow> n' \<noteq> n \<or> d' \<noteq> d \<longrightarrow> getFunction (modl p1) (iname ctx n' d') = getFunction (modl p) (iname ctx n' d')
      \<and> look p1 d' n' = look p d' n')
    \<and> hears ctx ser sp m (modl p1) (look p1) n d (events_at hs n d) \<and> look p1 d n = Some t"
  proof (cases "events_at hs n d = []")
    case True
    then have none: "look p d n = None" "getFunction (modl p) (iname ctx n d) = None"
      using W f(2) unfolding woven_def silent_def by presburger+
    from made [OF run c nd f none] obtain f1 e f' where v: "t = (iname ctx n d, e)"
      "TranslationFn_Create sp (iprefix ctx n d) (ilink ctx) (idecl ctx n d f) = Inr (f1, e)" "hook_in n d f = Inr f'"
      "getFunction (modl p1) = (getFunction (modl p))(iname ctx n d \<mapsto> f1, n \<mapsto> f')"
      "mo_structs (modl p1) = mo_structs (modl p)" "mo_globals (modl p1) = mo_globals (modl p)"
      "look p1 = (look p)(d := (look p d)(n \<mapsto> t))" by blast
    have "d \<notin> directions_at hs n" using True by (simp add: directions_at_def)
    from wv_insert [OF f0(2) this] v(3) have w: "wv n (insert d (directions_at hs n)) f0 = Inr f'" by simp
    have "getFunction (modl p1) (iname ctx n d) = Some f1" using v(4) ne [of n d] by (simp del: iname_eq)
    moreover have "add_translators (mo_structs m) e [] f1 = Inr f1" "list_all2 (realises ser (mo_globals (modl p1))) [] []"
      "look p1 d n = Some (iname ctx n d, e)" using v(1,7) by simp_all
    moreover have "TranslationFn_Create sp (iprefix ctx n d) (ilink ctx) (idecl ctx n d f0) = Inr (f1, e)" using v(2) wv_decl [OF f0(2)] by simp
    ultimately have "hears ctx ser sp m (modl p1) (look p1) n d []" unfolding hears_def using f0(1) by blast
    moreover have "look p1 d' n' = look p d' n'" if "n' \<noteq> n \<or> d' \<noteq> d" for n' d'
      using that v(7) by auto
    moreover have "getFunction (modl p1) n = Some f'" using v(4) by simp
    moreover have "getFunction (modl p1) n' = getFunction (modl p) n'" if "\<not> reserved ctx n'" "n' \<noteq> n" for n'
    proof -
      have "n' \<noteq> iname ctx n d" using that(1) reserved_iname by metis
      with that(2) v(4) show ?thesis by simp
    qed
    moreover have "getFunction (modl p1) (iname ctx n' d') = getFunction (modl p) (iname ctx n' d')" if "n' \<noteq> n \<or> d' \<noteq> d" for n' d'
      using that v(4) ne [of n' d'] by auto
    moreover have "look p1 d n = Some t" using v(7) by simp
    ultimately show ?thesis using v(5,6) w unfolding True by blast
  next
    case False
    then have "hears ctx ser sp m (modl p) (look p) n d (events_at hs n d)" using W f(2) unfolding woven_def by presburger
    moreover from this obtain t' where t': "look p d n = Some t'" unfolding hears_def by blast
    moreover from this nd have "p1 = p \<and> t = t'" using found [OF run] f(1) by simp
    moreover have "insert d (directions_at hs n) = directions_at hs n" using False by (auto simp: directions_at_def)
    ultimately show ?thesis using f(1) f0(2) by simp
  qed
  then show "mo_structs (modl p1) = mo_structs (modl p)" "mo_globals (modl p1) = mo_globals (modl p)"
    "\<exists>f'. getFunction (modl p1) n = Some f' \<and> wv n (insert d (directions_at hs n)) f0 = Inr f'"
    "\<And>n'. \<not> reserved ctx n' \<Longrightarrow> n' \<noteq> n \<Longrightarrow> getFunction (modl p1) n' = getFunction (modl p) n'"
    "\<And>n' d'. \<not> reserved ctx n' \<Longrightarrow> n' \<noteq> n \<or> d' \<noteq> d \<Longrightarrow> getFunction (modl p1) (iname ctx n' d') = getFunction (modl p) (iname ctx n' d')
      \<and> look p1 d' n' = look p d' n'"
    "hears ctx ser sp m (modl p1) (look p1) n d (events_at hs n d)" "look p1 d n = Some t" by blast+
qed


text \<open>Placing an event keeps the invariant.\<close>

lemma place_woven:
  assumes W: "woven ctx wv ser sp m hs (modl p) (look p)" and run: "place_with target get_instr modl set_mod ser sp (ev, label, h) p = Inr p'" and nr: "\<not> reserved ctx (fe_function ev)"
    and un: "hook_unnamed (modl p) h"
  shows "woven ctx wv ser sp m (hs @ [(ev, label, h)]) (modl p') (look p')"
    and "\<forall>au x. h \<noteq> Symbol_h au x \<Longrightarrow> getGlobalVariable (modl p') = getGlobalVariable (modl p)"
proof -
  define n d where nd: "n = fe_function ev" "d = fn_direction ev"
  from run obtain f p1 t m2 instr m3 a where t: "target (modl p) ev = Some f" and g: "get_instr sp f ev p = Inr (p1, t)"
    and ad: "add_event ev label t (modl p1) = Inr (m2, instr)" and pr: "prepare ser h m2 = Inr (m3, a)"
    and p': "p' = set_mod (in_fn (fst t) (act a instr) m3) p1"
    by (auto simp: place_with_def E_eq_Inr derefE_def split: option.splits)
  from t have f: "fn_context ev = ctx" "getFunction (modl p) n = Some f"
    using targetD nd by auto
  have nr': "\<not> reserved ctx n" using nr nd by simp
  from wovenD [OF W nr' f(2)] obtain f0 where f0: "getFunction m n = Some f0" "wv n (directions_at hs n) f0 = Inr f" .
  note s = get_instr_woven [OF W g f nr' nd f0]
  from s(6) obtain f1 e k trs where k: "look p1 d n = Some (iname ctx n d, e)"
    "TranslationFn_Create sp (iprefix ctx n d) (ilink ctx) (idecl ctx n d f0) = Inr (f1, e)" "add_translators (mo_structs m) e trs f1 = Inr k"
    "getFunction (modl p1) (iname ctx n d) = Some k" "list_all2 (realises ser (mo_globals (modl p1))) (events_at hs n d) trs"
    unfolding hears_def using f0(1) by auto
  have te: "t = (iname ctx n d, e)" using s(7) k(1) by simp
  have un1: "hook_unnamed (modl p1) h" using un s(2) unnamed_cong [of "modl p1" "modl p"] by (simp add: getGlobalVariable_def fun_eq_iff)
  have "getFunction (modl p1) (fst t) = Some k" using k(4) te by simp
  note v = add_view [OF ad pr un1 this]
  from v(1) obtain tr k' where tr: "realises ser (mo_globals m3) (ev, label, h) tr" "add_translator (mo_structs m) e tr k = Inr k'"
    "getFunction (modl p') = (getFunction (modl p1))(iname ctx n d \<mapsto> k')"
    using s(1) W te by (auto simp: p' modl_set woven_def)
  from v(3) obtain gs where gs: "mo_globals m3 = mo_globals (modl p1) @ gs" by blast
  have st: "mo_structs (modl p') = mo_structs m" using v(2) s(1) W by (simp add: p' modl_set woven_def)
  have gl: "mo_globals (modl p') = mo_globals (modl p1) @ gs" using gs by (simp add: p' modl_set)
  have cm: "look p' = look p1" by (simp add: p' look_set)
  have ne: "x \<noteq> iname ctx n' d'" if "\<not> reserved ctx x" for x n' d' using that reserved_iname by metis
  have "list_all2 (realises ser (mo_globals (modl p'))) (events_at hs n d) trs"
    by (rule list_all2_mono [OF k(5)]) (simp add: gl realises_append)
  then have "list_all2 (realises ser (mo_globals (modl p'))) (events_at hs n d @ [(ev, label, h)]) (trs @ [tr])"
    using tr(1) by (simp add: list_all2_appendI p' modl_set)
  moreover have "add_translators (mo_structs m) e (trs @ [tr]) f1 = Inr k'" using k(3) tr(2) by (simp add: add_translators_snoc)
  moreover have "getFunction (modl p') (iname ctx n d) = Some k'" using tr(3) by simp
  moreover have "look p' d n = Some (iname ctx n d, e)" using k(1) cm by simp
  ultimately have here: "hears ctx ser sp m (modl p') (look p') n d (events_at hs n d @ [(ev, label, h)])"
    unfolding hears_def using f0(1) k(2) by blast
  let ?hs = "hs @ [(ev, label, h)]"
  have funs: "case getFunction m n' of None \<Rightarrow> getFunction (modl p') n' = None
      | Some f \<Rightarrow> \<exists>f'. getFunction (modl p') n' = Some f' \<and> wv n' (directions_at ?hs n') f = Inr f'" if n': "\<not> reserved ctx n'" for n'
  proof (cases "n' = n")
    case True
    with s(3) tr(3) ne [OF nr'] f0(1) nd show ?thesis by (auto simp: directions_at_snoc)
  next
    case False
    then have "getFunction (modl p') n' = getFunction (modl p) n'" "directions_at ?hs n' = directions_at hs n'"
      using s(4) [OF n'] tr(3) ne [OF n'] nd by (auto simp: directions_at_snoc)
    with W n' show ?thesis unfolding woven_def by presburger
  qed
  have slots: "if events_at ?hs n' d' = [] then silent ctx (modl p') (look p') n' d' else hears ctx ser sp m (modl p') (look p') n' d' (events_at ?hs n' d')"
    if n': "\<not> reserved ctx n'" for n' d'
  proof (cases "n' = n \<and> d' = d")
    case True
    with here nd show ?thesis by (simp add: events_at_snoc)
  next
    case False
    then have same: "getFunction (modl p') (iname ctx n' d') = getFunction (modl p) (iname ctx n' d')" "look p' d' n' = look p d' n'"
      "events_at ?hs n' d' = events_at hs n' d'" using s(5) [OF n', of d'] tr(3) cm nd by (auto simp: events_at_snoc)
    have "if events_at hs n' d' = [] then silent ctx (modl p) (look p) n' d' else hears ctx ser sp m (modl p) (look p) n' d' (events_at hs n' d')" using W n' unfolding woven_def by presburger
    moreover have "hears ctx ser sp m (modl p) (look p) n' d' es \<Longrightarrow> hears ctx ser sp m (modl p') (look p') n' d' es" for es using hears_mono same gl s(2) by metis
    moreover have "silent ctx (modl p) (look p) n' d' \<Longrightarrow> silent ctx (modl p') (look p') n' d'" using same by (simp add: silent_def)
    ultimately show ?thesis using same(3) by presburger
  qed
  from st funs slots show "woven ctx wv ser sp m ?hs (modl p') (look p')" unfolding woven_def by blast
  show "getGlobalVariable (modl p') = getGlobalVariable (modl p)" if "\<forall>au x. h \<noteq> Symbol_h au x"
    using v(4) [OF that] s(2) by (simp add: p' modl_set getGlobalVariable_def fun_eq_iff)
qed


end

end
