(* ===== verification/Tesla_Callee_Correct.thy ===== *)
theory Tesla_Callee_Correct
  imports Tesla_Callee Tesla_Pass
begin

text \<open>
  What the callee pass does to a module: every function that some event names gets its hooks, and its
  instrumentation functions pass on exactly the events of the manifest, in order.
\<close>

subsection \<open>The events of a manifest\<close>

text \<open>The events of the manifest that concern a module, in the order of the pass.\<close>

definition end_hooks :: "modul \<Rightarrow> edge option \<Rightarrow> string \<Rightarrow> hook \<Rightarrow> placement list" where
  "end_hooks m e label h = (case map_option e_label e of
     Some (Fn_t ev) \<Rightarrow> if callee_target m ev = None then [] else [(ev, label, h)]
   | _ \<Rightarrow> [])"

definition lifetime_hooks :: "modul \<Rightarrow> automaton_lifetime \<Rightarrow> placement list" where
  "lifetime_hooks m l =
     end_hooks m (al_init l) ''enter_lifetime'' (Begin_h l) @ end_hooks m (al_cleanup l) ''exit_lifetime'' (End_h l)"

text \<open>The event is on a function that is not instrumented in this module.\<close>

definition elsewhere :: "modul \<Rightarrow> edge option \<Rightarrow> bool" where
  "elsewhere m e = (case map_option e_label e of Some (Fn_t ev) \<Rightarrow> callee_target m ev = None | _ \<Rightarrow> False)"

text \<open>The function that ends a lifetime is in the module only together with the one that begins it.\<close>

definition ends_where_begun :: "modul \<Rightarrow> automaton_lifetime \<Rightarrow> bool" where
  "ends_where_begun m l \<longleftrightarrow>
     (elsewhere m (al_init l) \<longrightarrow> end_hooks m (al_cleanup l) ''exit_lifetime'' (End_h l) = [])"

lemma elsewhere_no_hooks: "elsewhere m e \<Longrightarrow> end_hooks m e label h = []"
  by (auto simp: elsewhere_def end_hooks_def split: option.splits trans_label.splits)

definition class_hooks :: "modul \<Rightarrow> automaton \<Rightarrow> nat \<Rightarrow> placement list" where
  "class_hooks m a x = (let e = au_edge a (hd (au_classes a ! x)) in case e_label e of
     Fn_t ev \<Rightarrow>
       if e_init e \<or> e_cleanup e \<or> fn_kind ev \<noteq> CCall \<or> callee_target m ev = None then []
       else [(ev, au_name a, Symbol_h a x)]
   | _ \<Rightarrow> [])"

definition automaton_hooks :: "modul \<Rightarrow> automaton \<Rightarrow> placement list" where
  "automaton_hooks m a = concat (map (class_hooks m a) [0..<length (au_classes a)])"

definition root_hooks :: "modul \<Rightarrow> manifest \<Rightarrow> usage \<Rightarrow> placement list" where
  "root_hooks m mf u = (case FindAutomaton mf (us_identifier u) of Inr a \<Rightarrow> automaton_hooks m a | Inl _ \<Rightarrow> [])"

definition manifest_hooks :: "modul \<Rightarrow> manifest \<Rightarrow> placement list" where
  "manifest_hooks m mf = concat (map (lifetime_hooks m) (ma_lifetimes mf)) @ concat (map (root_hooks m mf) (ma_roots mf))"

text \<open>The call that is put into the function itself.\<close>

definition hook_in :: "string \<Rightarrow> direction \<Rightarrow> fn \<Rightarrow> fn res" where
  "hook_in n d f = (case d of Entry \<Rightarrow> Inr (hook_entry (iname Callee n d) f) | Exit \<Rightarrow> hook_exit (iname Callee n d) f)"

lemma hook_exit_name: "hook_exit x f = Inr f' \<Longrightarrow> fn_name f' = fn_name f"
  by (auto simp: hook_exit_def E_eq_Inr)

lemma hook_in_name: "hook_in n d f = Inr f' \<Longrightarrow> fn_name f' = fn_name f"
  by (cases d) (auto simp: hook_in_def hook_exit_name)


text \<open>What the pass knows of a function.\<close>

definition callee_look :: "callee_pass \<Rightarrow> direction \<Rightarrow> string \<Rightarrow> translation_fn option" where
  "callee_look p d = map_of (case d of Entry \<Rightarrow> cp_entry p | Exit \<Rightarrow> cp_exit p)"

text \<open>A function with the calls of its instrumentation, for a set of directions.\<close>

definition weave :: "string \<Rightarrow> direction set \<Rightarrow> fn \<Rightarrow> fn res" where
  "weave n D f =
     bindE (if Exit \<in> D then hook_exit (iname Callee n Exit) f else Inr f) (\<lambda>f'.
       Inr (if Entry \<in> D then hook_entry (iname Callee n Entry) f' else f'))"

lemma entry_before_return:
  "hook_return x g (b\<lparr>bb_insts := takeWhile is_phi (bb_insts b) @ Call_i y vs # dropWhile is_phi (bb_insts b)\<rparr>)
     = bindE (hook_return x g b) (\<lambda>b'. Inr (b'\<lparr>bb_insts := takeWhile is_phi (bb_insts b') @ Call_i y vs # dropWhile is_phi (bb_insts b')\<rparr>))"
proof -
  have t: "takeWhile is_phi (is @ [Call_i x us]) = takeWhile is_phi is" "dropWhile is_phi (is @ [Call_i x us]) = dropWhile is_phi is @ [Call_i x us]"
    for "is" us by (induction "is") (simp_all add: is_phi_def)
  show ?thesis by (auto simp: hook_return_def t bindE_def derefE_def split: option.split term_inst.split)
qed

lemma hook_return_cong: "fn_ret f = fn_ret g \<Longrightarrow> fn_args f = fn_args g \<Longrightarrow> hook_return x f = hook_return x g"
  by (simp add: hook_return_def fun_eq_iff split: option.split term_inst.split)

lemma hook_returns_cong:
  assumes "fn_ret f = fn_ret g" and "fn_args f = fn_args g"
  shows "hook_returns x f bs = hook_returns x g bs"
  using hook_return_cong [OF assms] by (induction bs) auto

text \<open>The two kinds of calls do not disturb each other.\<close>

lemma hooks_commute: "hook_exit x (hook_entry y f) = bindE (hook_exit x f) (\<lambda>f'. Inr (hook_entry y f'))"
proof (cases "fn_blocks f")
  case Nil
  then show ?thesis by (simp add: hook_entry_def hook_exit_def)
next
  case (Cons nb bs)
  obtain n b where nb: "nb = (n, b)" by (cases nb)
  let ?g = "hook_entry y f"
  have s: "fn_ret ?g = fn_ret f" "fn_args ?g = fn_args f" by (simp_all add: hook_entry_def fn_args_def split: list.split)
  let ?ins = "\<lambda>b. b\<lparr>bb_insts := takeWhile is_phi (bb_insts b) @ Call_i y (fn_args f) # dropWhile is_phi (bb_insts b)\<rparr>"
  have "hook_exit x ?g = bindE (hook_returns x f ((n, ?ins b) # bs)) (\<lambda>bs. Inr (f\<lparr>fn_blocks := bs\<rparr>))"
    by (simp add: hook_exit_def hook_returns_cong [OF s] del: hook_returns.simps) (simp add: hook_entry_def Cons nb)
  moreover have "hook_entry y (f\<lparr>fn_blocks := (n, b') # bs'\<rparr>) = f\<lparr>fn_blocks := (n, ?ins b') # bs'\<rparr>" for b' bs'
    by (simp add: hook_entry_def fn_args_def)
  ultimately show ?thesis
    by (cases "hook_return x f b"; cases "hook_returns x f bs") (simp_all add: hook_exit_def Cons nb entry_before_return)
qed

lemma weave_hook:
  assumes "weave n D f = Inr f'" and "d \<notin> D"
  shows "weave n (insert d D) f = hook_in n d f'"
proof (cases d)
  case Entry
  with assms show ?thesis by (auto simp: weave_def hook_in_def E_eq_Inr)
next
  case Exit
  have "bindE r Inr = r" for r :: "fn res" by (cases r) simp_all
  with Exit assms show ?thesis by (auto simp: weave_def hook_in_def hooks_commute)
qed

lemma hook_returns_empty: "hook_returns x f bs = Inr bs' \<Longrightarrow> bs' = [] \<longleftrightarrow> bs = []"
  by (cases bs) (auto simp: E_eq_Inr)

lemma hook_exit_frame:
  assumes "hook_exit x f = Inr f'"
  shows "fn_params f' = fn_params f" "fn_ret f' = fn_ret f" "fn_vararg f' = fn_vararg f" "fn_blocks f' = [] \<longleftrightarrow> fn_blocks f = []"
  using assms by (auto simp: hook_exit_def E_eq_Inr dest: hook_returns_empty)

lemma hook_entry_frame [simp]:
  "fn_params (hook_entry x f) = fn_params f" "fn_ret (hook_entry x f) = fn_ret f" "fn_vararg (hook_entry x f) = fn_vararg f"
  "fn_blocks (hook_entry x f) = [] \<longleftrightarrow> fn_blocks f = []"
  by (simp_all add: hook_entry_def split: list.split)

lemma weave_frame:
  assumes "weave n D f = Inr f'"
  shows "iparams d f' = iparams d f" "idecl Callee n d f' = idecl Callee n d f" "fn_blocks f' = [] \<longleftrightarrow> fn_blocks f = []"
  using assms by (auto simp: weave_def E_eq_Inr iparams_def idecl_def hook_exit_frame split: if_splits)

subsection \<open>The pass as an event pass\<close>

lemma GetOrCreateInstr_made:
  assumes run: "GetOrCreateInstr sp f ev p = Inr (p1, t)" and ctx: "fn_context ev = Callee" and nd: "n = fe_function ev" "d = fn_direction ev"
    and f: "getFunction (cp_mod p) n = Some f" "\<not> reserved Callee n"
    and none: "callee_look p d n = None" "getFunction (cp_mod p) (iname Callee n d) = None"
  shows "\<exists>f1 e f'. t = (iname Callee n d, e) \<and> TranslationFn_Create sp (iprefix Callee n d) (ilink Callee) (idecl Callee n d f) = Inr (f1, e)
        \<and> hook_in n d f = Inr f' \<and> getFunction (cp_mod p1) = (getFunction (cp_mod p))(iname Callee n d \<mapsto> f1, n \<mapsto> f')
        \<and> mo_structs (cp_mod p1) = mo_structs (cp_mod p) \<and> mo_globals (cp_mod p1) = mo_globals (cp_mod p)
        \<and> callee_look p1 = (callee_look p)(d := (callee_look p d)(n \<mapsto> t))"
proof -
  have fn: "fn_name f = n" by (rule getFunction_name [OF f(1)])
  have ne: "n \<noteq> iname Callee n d" using f(2) reserved_iname by metis
  obtain m t' where c: "CreateInstrFn sp ev f (cp_mod p) = Inr (m, t')" and t: "t' = t"
    using run none(1) nd by (cases d) (auto simp: GetOrCreateInstr_def callee_look_def E_eq_Inr)
  from CreateInstrFn_view [OF c ctx] none(2) nd obtain f1 e where v: "t' = (iname Callee n d, e)"
    "TranslationFn_Create sp (iprefix Callee n d) (ilink Callee) (idecl Callee n d f) = Inr (f1, e)"
    "getFunction m = (getFunction (cp_mod p))(iname Callee n d \<mapsto> f1)" "mo_structs m = mo_structs (cp_mod p)" "mo_globals m = mo_globals (cp_mod p)"
    by auto
  have gf: "getFunction m n = Some f" using v(3) f(1) ne by simp
  obtain f' where f': "hook_in n d f = Inr f'" "cp_mod p1 = put_fn f' m" "callee_look p1 = (callee_look p)(d := (callee_look p d)(n \<mapsto> t))"
    using run none(1) nd c v(1) t fn gf
    by (cases d) (auto simp: GetOrCreateInstr_def callee_look_def E_eq_Inr hook_in_def in_fn_def derefE_def Let_def fun_eq_iff split: direction.splits)
  have "getFunction (cp_mod p1) = (getFunction m)(n \<mapsto> f')"
    using hook_in_name [OF f'(1)] fn gf by (auto simp: f'(2) getFunction_put)
  with v t f' show ?thesis by auto
qed

interpretation callee: event_pass Callee cp_mod "\<lambda>m p. p\<lparr>cp_mod := m\<rparr>" callee_look callee_target GetOrCreateInstr hook_in weave
proof (unfold_locales, goal_cases)
  case (2 m p)
  then show ?case by (simp add: callee_look_def fun_eq_iff split: direction.split)
next
  case (3 m ev f)
  then show ?case by (auto simp: callee_target_def split: if_splits option.splits)
next
  case (4 sp f ev p p' t t')
  then show ?case by (auto simp: GetOrCreateInstr_def callee_look_def Let_def split: direction.splits)
next
  case (5 sp f ev p p' t n d)
  then show ?case by (rule GetOrCreateInstr_made)
next
  case (6 n f)
  then show ?case by (simp add: weave_def)
qed (simp_all add: weave_hook weave_frame)

text \<open>An event of the manifest is placed.\<close>

definition place ::
  "(function_event + field_assignment \<Rightarrow> string option) \<Rightarrow> bool \<Rightarrow> placement \<Rightarrow> callee_pass \<Rightarrow> callee_pass res" where
  "place = place_with callee_target GetOrCreateInstr cp_mod (\<lambda>m p. p\<lparr>cp_mod := m\<rparr>)"

definition callee_woven ::
  "(function_event + field_assignment \<Rightarrow> string option) \<Rightarrow> bool \<Rightarrow> modul \<Rightarrow> placement list \<Rightarrow> callee_pass \<Rightarrow> bool" where
  "callee_woven ser sp m hs p = woven Callee weave ser sp m hs (cp_mod p) (callee_look p)"

lemmas place_woven = callee.place_woven [folded place_def callee_woven_def]

subsection \<open>The loops\<close>

lemma target_stable:
  assumes "callee_woven ser sp m hs p" and "\<not> reserved Callee (fe_function ev)"
  shows "callee_target (cp_mod p) ev = None \<longleftrightarrow> callee_target m ev = None"
proof -
  from assms have "case getFunction m (fe_function ev) of None \<Rightarrow> getFunction (cp_mod p) (fe_function ev) = None
      | Some f \<Rightarrow> \<exists>f'. getFunction (cp_mod p) (fe_function ev) = Some f' \<and> weave (fe_function ev) (directions_at hs (fe_function ev)) f = Inr f'"
    unfolding callee_woven_def woven_def by blast
  then show ?thesis by (auto simp: callee_target_def weave_frame(3) split: option.splits)
qed

definition end_unreserved :: "edge option \<Rightarrow> bool" where
  "end_unreserved e = (case e of None \<Rightarrow> True | Some x \<Rightarrow> edge_unreserved Callee x)"

definition lifetime_unreserved :: "automaton_lifetime \<Rightarrow> bool" where
  "lifetime_unreserved l = (end_unreserved (al_init l) \<and> end_unreserved (al_cleanup l))"

definition names_unreserved :: "manifest \<Rightarrow> bool" where
  "names_unreserved mf = (list_all lifetime_unreserved (ma_lifetimes mf)
     \<and> list_all (\<lambda>u. case FindAutomaton mf (us_identifier u) of Inr a \<Rightarrow> automaton_unreserved Callee a | Inl _ \<Rightarrow> True) (ma_roots mf))"

text \<open>One end of a lifetime is an event to place.\<close>

lemma act_calls:
  "act (Do_update a x) i = CallUpdateState a x i"
  "act (Do_sunrise c n) i = CallSunrise c (Global n (StructT ''tesla_lifetime'')) i"
  "act (Do_sunset c n) i = CallSunset c (Global n (StructT ''tesla_lifetime'')) i"
  by (simp_all add: act_def fun_eq_iff)

lemma lifetime_hook_place:
  "lifetime_hook ser sp sunrise l e p = (case map_option e_label e of
     Some (Fn_t ev) \<Rightarrow> if callee_target (cp_mod p) ev = None then Inr None
       else bindE (place ser sp (ev, if sunrise then ''enter_lifetime'' else ''exit_lifetime'', if sunrise then Begin_h l else End_h l) p)
         (\<lambda>p'. Inr (Some p'))
   | _ \<Rightarrow> Inr (Some p))"
  by (auto simp: lifetime_hook_def place_def place_with_def prepare_def derefE_def act_calls Let_def bindE_def
      split: option.split trans_label.split sum.split if_split)

lemma lifetime_hook_woven:
  assumes W: "callee_woven ser sp m hs p" and g: "getGlobalVariable (cp_mod p) = getGlobalVariable m" and un: "lifetime_unnamed m l"
    and e: "end_unreserved e" and run: "lifetime_hook ser sp sunrise l e p = Inr r"
  shows "if elsewhere m e then r = None
    else \<exists>p'. r = Some p' \<and> getGlobalVariable (cp_mod p') = getGlobalVariable m
      \<and> callee_woven ser sp m (hs @ end_hooks m e (if sunrise then ''enter_lifetime'' else ''exit_lifetime'')
            (if sunrise then Begin_h l else End_h l)) p'"
proof -
  let ?l = "if sunrise then ''enter_lifetime'' else ''exit_lifetime''" and ?h = "if sunrise then Begin_h l else End_h l"
  show ?thesis
  proof (cases "\<exists>ev. map_option e_label e = Some (Fn_t ev)")
    case False
    then have "lifetime_hook ser sp sunrise l e p = Inr (Some p)" "end_hooks m e x y = []" "\<not> elsewhere m e" for x y
      by (auto simp: lifetime_hook_place end_hooks_def elsewhere_def split: option.split trans_label.split)
    with run W g show ?thesis by auto
  next
    case True
    then obtain ev where ev: "map_option e_label e = Some (Fn_t ev)" by blast
    then have nr: "\<not> reserved Callee (fe_function ev)" using e by (auto simp: end_unreserved_def edge_unreserved_def)
    show ?thesis
    proof (cases "callee_target m ev = None")
      case True
      with run ev target_stable [OF W nr] show ?thesis by (auto simp: lifetime_hook_place elsewhere_def)
    next
      case False
      with run ev target_stable [OF W nr] obtain p' where p': "place ser sp (ev, ?l, ?h) p = Inr p'" "r = Some p'"
        by (auto simp: lifetime_hook_place E_eq_Inr)
      have "hook_unnamed (cp_mod p) ?h" using un unnamed_cong [OF g] by simp
      from place_woven [OF W p'(1) nr this] g ev False p'(2) show ?thesis by (auto simp: end_hooks_def elsewhere_def)
    qed
  qed
qed

lemma lifetimes_woven:
  "lifetimes_loop ser sp ls p = Inr p' \<Longrightarrow> callee_woven ser sp m hs p \<Longrightarrow> getGlobalVariable (cp_mod p) = getGlobalVariable m
     \<Longrightarrow> list_all lifetime_unreserved ls \<Longrightarrow> list_all (lifetime_unnamed m) ls \<Longrightarrow> list_all (ends_where_begun m) ls
     \<Longrightarrow> callee_woven ser sp m (hs @ concat (map (lifetime_hooks m) ls)) p'"
proof (induction ls arbitrary: p hs)
  case (Cons l ls)
  from Cons.prems(4-6) have l: "end_unreserved (al_init l)" "end_unreserved (al_cleanup l)" "lifetime_unnamed m l"
    "list_all lifetime_unreserved ls" "list_all (lifetime_unnamed m) ls" "ends_where_begun m l" "list_all (ends_where_begun m) ls"
    by (auto simp: lifetime_unreserved_def list_all_iff)
  from Cons.prems(1) obtain r1 where r1: "lifetime_hook ser sp True l (al_init l) p = Inr r1"
    "(case r1 of None \<Rightarrow> lifetimes_loop ser sp ls p
      | Some p1 \<Rightarrow> bindE (lifetime_hook ser sp False l (al_cleanup l) p1) (\<lambda>r2.
           lifetimes_loop ser sp ls (case r2 of None \<Rightarrow> p1 | Some p2 \<Rightarrow> p2))) = Inr p'" by (auto simp: E_eq_Inr)
  note s1 = lifetime_hook_woven [OF Cons.prems(2,3) l(3,1) r1(1), simplified]
  show ?case
  proof (cases r1)
    case None
    with s1 have "elsewhere m (al_init l)" by (auto split: if_splits)
    with l(6) have "lifetime_hooks m l = []" by (simp add: lifetime_hooks_def ends_where_begun_def elsewhere_no_hooks)
    with None r1(2) Cons.IH [OF _ Cons.prems(2,3) l(4,5,7)] show ?thesis by simp
  next
    case (Some p1)
    let ?is = "end_hooks m (al_init l) ''enter_lifetime'' (Begin_h l)"
    from s1 Some have xs: "callee_woven ser sp m (hs @ ?is) p1" "getGlobalVariable (cp_mod p1) = getGlobalVariable m"
      by (auto split: if_splits)
    from r1(2) Some obtain r2 where r2: "lifetime_hook ser sp False l (al_cleanup l) p1 = Inr r2"
      "lifetimes_loop ser sp ls (case r2 of None \<Rightarrow> p1 | Some p2 \<Rightarrow> p2) = Inr p'" by (auto simp: E_eq_Inr)
    note s2 = lifetime_hook_woven [OF xs l(3,2) r2(1), simplified]
    have "callee_woven ser sp m (hs @ lifetime_hooks m l) (case r2 of None \<Rightarrow> p1 | Some p2 \<Rightarrow> p2)
      \<and> getGlobalVariable (cp_mod (case r2 of None \<Rightarrow> p1 | Some p2 \<Rightarrow> p2)) = getGlobalVariable m"
      using s2 xs by (auto simp: lifetime_hooks_def elsewhere_no_hooks split: if_splits)
    with Cons.IH [OF r2(2) _ _ l(4,5,7)] show ?thesis by (metis append.assoc concat.simps(2) list.simps(9))
  qed
qed simp

text \<open>One symbol of an automaton.\<close>

lemma class_hook_woven:
  assumes W: "callee_woven ser sp m hs p" and nr: "edge_unreserved Callee (au_edge a (hd (au_classes a ! x)))"
    and run: "class_hook sp sends a x (md, p) = Inr (md', p')"
  shows "callee_woven ser sp m (hs @ class_hooks m a x) p' \<and> md' = (md \<or> class_hooks m a x \<noteq> [])"
proof -
  let ?e = "au_edge a (hd (au_classes a ! x))"
  show ?thesis
  proof (cases "\<exists>ev. e_label ?e = Fn_t ev \<and> \<not> (e_init ?e \<or> e_cleanup ?e \<or> fn_kind ev \<noteq> CCall)")
    case False
    then have "class_hooks m a x = []" by (auto simp: class_hooks_def Let_def split: trans_label.split)
    moreover have "md' = md \<and> p' = p" using False nr run by (auto simp: class_hook_def edge_unreserved_def E_eq_Inr Let_def split: trans_label.splits if_splits)
    ultimately show ?thesis using W by simp
  next
    case True
    then obtain ev where ev: "e_label ?e = Fn_t ev" "\<not> e_init ?e" "\<not> e_cleanup ?e" "fn_kind ev = CCall" by blast
    then have n: "\<not> reserved Callee (fe_function ev)" using nr by (simp add: edge_unreserved_def)
    show ?thesis
    proof (cases "callee_target m ev = None")
      case True
      with run ev target_stable [OF W n] W show ?thesis by (auto simp: class_hook_def class_hooks_def Let_def E_eq_Inr)
    next
      case False
      with run ev target_stable [OF W n] have "place ser sp (ev, au_name a, Symbol_h a x) p = Inr p'" "md'"
        by (auto simp: class_hook_def place_def place_with_def prepare_def act_calls Let_def E_eq_Inr derefE_def)
      with place_woven [OF W this(1) n] ev False show ?thesis by (auto simp: class_hooks_def Let_def)
    qed
  qed
qed

lemma classes_woven:
  "classes_loop sp sends a xs (md, p) = Inr (md', p') \<Longrightarrow> callee_woven ser sp m hs p \<Longrightarrow>
     \<forall>x\<in>set xs. edge_unreserved Callee (au_edge a (hd (au_classes a ! x))) \<Longrightarrow>
     callee_woven ser sp m (hs @ concat (map (class_hooks m a) xs)) p' \<and> md' = (md \<or> concat (map (class_hooks m a) xs) \<noteq> [])"
proof (induction xs arbitrary: md p hs)
  case (Cons x xs)
  from Cons.prems(1) obtain md1 p1 where r: "class_hook sp sends a x (md, p) = Inr (md1, p1)" "classes_loop sp sends a xs (md1, p1) = Inr (md', p')"
    by (auto simp: E_eq_Inr)
  from class_hook_woven [OF Cons.prems(2) _ r(1)] Cons.prems(3)
  have s: "callee_woven ser sp m (hs @ class_hooks m a x) p1" "md1 = (md \<or> class_hooks m a x \<noteq> [])" by auto
  from Cons.IH [OF r(2) s(1)] Cons.prems(3) s(2) show ?case by auto
qed simp

lemma roots_woven:
  "roots_loop sp sends mf us (md, p) = Inr (md', p') \<Longrightarrow> callee_woven ser sp m hs p \<Longrightarrow>
     list_all (\<lambda>u. case FindAutomaton mf (us_identifier u) of Inr a \<Rightarrow> automaton_unreserved Callee a | Inl _ \<Rightarrow> True) us \<Longrightarrow>
     callee_woven ser sp m (hs @ concat (map (root_hooks m mf) us)) p' \<and> md' = (md \<or> concat (map (root_hooks m mf) us) \<noteq> [])"
proof (induction us arbitrary: md p hs)
  case (Cons u us)
  from Cons.prems(1) obtain a md1 p1 where r: "FindAutomaton mf (us_identifier u) = Inr a"
    "classes_loop sp sends a [0..<length (au_classes a)] (md, p) = Inr (md1, p1)" "roots_loop sp sends mf us (md1, p1) = Inr (md', p')"
    by (auto simp: E_eq_Inr)
  from Cons.prems(3) r(1) have "automaton_unreserved Callee a" by simp
  then have "\<forall>x\<in>set [0..<length (au_classes a)]. edge_unreserved Callee (au_edge a (hd (au_classes a ! x)))"
    using automaton_unreservedD by blast
  from classes_woven [OF r(2) Cons.prems(2) this] r(1)
  have s: "callee_woven ser sp m (hs @ root_hooks m mf u) p1" "md1 = (md \<or> root_hooks m mf u \<noteq> [])" by (simp_all add: root_hooks_def automaton_hooks_def)
  from Cons.IH [OF r(3) s(1)] Cons.prems(3) s(2) show ?case by auto
qed simp

lemma callee_run_woven:
  assumes run: "callee_runOnModule ser sp sends mf m0 = Inr (changed, m')" and m: "m = InstrContext_Create sp m0"
    and fns: "list_all (\<lambda>f. \<not> reserved Callee (fn_name f)) (mo_fns m)" and names: "names_unreserved mf"
    and lives: "list_all (lifetime_unnamed m) (ma_lifetimes mf)" and ends: "list_all (ends_where_begun m) (ma_lifetimes mf)"
  shows "\<exists>p. m' = cp_mod p \<and> callee_woven ser sp m (manifest_hooks m mf) p" and "changed \<longleftrightarrow> concat (map (root_hooks m mf) (ma_roots mf)) \<noteq> []"
proof -
  let ?p = "\<lparr>cp_mod = m, cp_entry = [], cp_exit = []\<rparr>"
  have "callee_woven ser sp m [] ?p"
    unfolding callee_woven_def by (simp, rule woven_start [OF fns]) (auto simp: weave_def callee_look_def split: direction.split)
  moreover from run m obtain p q where r: "lifetimes_loop ser sp (ma_lifetimes mf) ?p = Inr p"
    "roots_loop sp sends mf (ma_roots mf) (False, p) = Inr (changed, q)" "m' = cp_mod q"
    by (auto simp: callee_runOnModule_def E_eq_Inr)
  ultimately have "callee_woven ser sp m (concat (map (lifetime_hooks m) (ma_lifetimes mf))) p"
    using lifetimes_woven [OF r(1), where hs = "[]"] names lives ends by (simp add: names_unreserved_def)
  from roots_woven [OF r(2) this] names r(3)
  show "\<exists>p. m' = cp_mod p \<and> callee_woven ser sp m (manifest_hooks m mf) p" "changed \<longleftrightarrow> concat (map (root_hooks m mf) (ma_roots mf)) \<noteq> []"
    by (auto simp: names_unreserved_def manifest_hooks_def)
qed

subsection \<open>An example\<close>

text \<open>A program whose \<open>main\<close> begins and ends the lifetime of the compiler's example, with the function \<open>a\<close>.\<close>

definition ex_void_fn :: "string \<Rightarrow> fn" where
  "ex_void_fn n = \<lparr>fn_name = n, fn_params = [], fn_ret = VoidT, fn_vararg = False, fn_linkage = External_l,
     fn_blocks = [(0, \<lparr>bb_name = ''entry'', bb_insts = [Other_i 0], bb_term = Some (Ret None)\<rparr>)]\<rparr>"

definition ex_program :: modul where
  "ex_program = \<lparr>mo_fns = [ex_void_fn ''main'', ex_void_fn ''a''], mo_globals = [], mo_structs = []\<rparr>"

definition ex_callee :: "manifest \<Rightarrow> (bool \<times> modul) res" where
  "ex_callee mf = callee_runOnModule ex_serialise True (\<lambda>_. False) mf ex_program"

fun ex_one_sunrise :: "placement list \<Rightarrow> bool" where
  "ex_one_sunrise [(ev, label, Begin_h l)] = (fn_patterns ev = Inr [] \<and> al_context l = Thread_context)"
| "ex_one_sunrise _ = False"

lemma ex_one_sunriseD:
  "ex_one_sunrise es \<Longrightarrow> \<exists>ev label l. es = [(ev, label, Begin_h l)] \<and> fn_patterns ev = Inr [] \<and> al_context l = Thread_context"
  by (cases es rule: ex_one_sunrise.cases) auto

definition ex_ready :: "manifest \<Rightarrow> bool" where
  "ex_ready mf = (let m = InstrContext_Create True ex_program in
     list_all (\<lambda>f. \<not> reserved Callee (fn_name f)) (mo_fns m) \<and> names_unreserved mf \<and> list_all (lifetime_unnamed m) (ma_lifetimes mf)
     \<and> list_all (ends_where_begun m) (ma_lifetimes mf)
     \<and> getFunction m ''main'' = Some (ex_void_fn ''main'')
     \<and> ex_one_sunrise (events_at (manifest_hooks m mf) ''main'' Entry))"

lemma ex_callee_runs:
  "case ex_load of Inr (msg, Some mf) \<Rightarrow> ex_ready mf \<and> (case ex_callee mf of Inr (changed, m) \<Rightarrow> changed | Inl _ \<Rightarrow> False) | _ \<Rightarrow> False"
  by code_simp

subsection \<open>The property\<close>



subsection \<open>A lifetime that begins elsewhere\<close>

text \<open>If the function that begins a lifetime is not defined in the same module as the one that ends it,
  the end is not instrumented, though the manifest asks for it: the loop goes on to the next lifetime.\<close>

definition ex_split_lifetime :: automaton_lifetime where
  "ex_split_lifetime = \<lparr>al_context = Thread_context, al_init = Some (ex_edge 0 Entry),
     al_cleanup = Some ((ex_edge 1 Exit)\<lparr>e_label := Fn_t ((ex_message Exit)\<lparr>fe_function := ''stop''\<rparr>)\<rparr>)\<rparr>"

definition ex_split_manifest :: manifest where
  "ex_split_manifest = \<lparr>ma_descriptions = [], ma_automata = [], ma_roots = [], ma_lifetimes = [ex_split_lifetime]\<rparr>"

definition ex_split_module :: "string \<Rightarrow> modul" where
  "ex_split_module n = \<lparr>mo_fns = [ex_void_fn n], mo_globals = [], mo_structs = []\<rparr>"

lemma split_lifetime_not_ended:
  "events_at (manifest_hooks (InstrContext_Create True (ex_split_module ''stop'')) ex_split_manifest) ''stop'' Exit \<noteq> []
   \<and> callee_runOnModule ex_serialise True (\<lambda>_. False) ex_split_manifest (ex_split_module ''stop'')
       = Inr (False, InstrContext_Create True (ex_split_module ''stop''))"
  by code_simp

end
