(* ===== verification/Tesla_Caller.thy ===== *)
theory Tesla_Caller
  imports Tesla_Module Tesla_Manifest
begin

text \<open>
  The pass that instruments calls where they are made (\<open>Caller.cpp\<close>).  Before any function is
  visited, \<open>doInitialization\<close> makes the instrumentation functions for the symbols of the manifest;
  then every direct call of a named function gets a call of the instrumentation before or after it.
  The pass manager runs the pass on every function with a body, the new ones included.

  Objective-C: for a message that is sent in the module (\<open>sends\<close>, from the metadata of its calls) the
  code ends in an assertion that it be updated.
\<close>

subsection \<open>Instrumenting a call\<close>

text \<open>A translation function and the event it was made for.\<close>

type_synonym caller_instrumentation = "translation_fn \<times> function_event"

text \<open>A direct call: its target, arguments, type and value.\<close>

type_synonym call_site = "string \<times> val list \<times> ty \<times> val"

definition return_type :: "modul \<Rightarrow> string \<Rightarrow> ty" where
  "return_type m g = (case getFunction m g of None \<Rightarrow> VoidT | Some f \<Rightarrow> fn_ret f)"

fun direct_call :: "modul \<Rightarrow> inst \<Rightarrow> call_site option" where
  "direct_call m (Program_call n (Some g) t vs) = Some (g, vs, t, Local (dec_nat n) t)"
| "direct_call m (Call_i g vs) = Some (g, vs, return_type m g, Call_v g (return_type m g) vs)"
| "direct_call m (Compute (Call_v g t vs)) = Some (g, vs, t, Call_v g t vs)"
| "direct_call m i = None"

text \<open>The calls to insert before and after a call.\<close>

definition Instrument :: "caller_instrumentation option \<Rightarrow> call_site \<Rightarrow> inst list \<times> inst list" where
  "Instrument ci cs = (case (ci, cs) of
     (None, _) \<Rightarrow> ([], [])
   | (Some (t, ev), (g, vs, ty, v)) \<Rightarrow>
       (case fn_direction ev of
          Entry \<Rightarrow> ([Call_i (fst t) vs], [])
        | Exit \<Rightarrow> ([], [Call_i (fst t) (vs @ (if ty \<noteq> VoidT then [v] else []))])))"

record caller_pass =
  lp_mod :: modul
  lp_calls :: "(string \<times> caller_instrumentation) list"
  lp_returns :: "(string \<times> caller_instrumentation) list"

text \<open>The walk over a block goes on with what was inserted after a call, and so may instrument it again.
  The targets of such a chain are instrumented functions with longer and longer names, so the number
  of names bounds its length.\<close>

fun visit_inst :: "nat \<Rightarrow> caller_pass \<Rightarrow> inst \<Rightarrow> inst list" where
  "visit_inst 0 p i = [i]"
| "visit_inst (Suc k) p i = (case direct_call (lp_mod p) i of
     None \<Rightarrow> [i]
   | Some cs \<Rightarrow>
       let (b1, a1) = Instrument (map_of (lp_calls p) (fst cs)) cs;
           (b2, a2) = Instrument (map_of (lp_returns p) (fst cs)) cs
       in b1 @ b2 @ i # concat (map (visit_inst k p) (a2 @ a1)))"

definition runOnBasicBlock :: "caller_pass \<Rightarrow> block \<Rightarrow> block" where
  "runOnBasicBlock p b =
     b\<lparr>bb_insts := concat (map (visit_inst (length (lp_calls p) + length (lp_returns p) + 1) p) (bb_insts b))\<rparr>"

definition runOnFunction :: "caller_pass \<Rightarrow> fn \<Rightarrow> fn" where
  "runOnFunction p f = f\<lparr>fn_blocks := map (\<lambda>(n, b). (n, runOnBasicBlock p b)) (fn_blocks f)\<rparr>"

subsection \<open>The pass\<close>

definition caller_target :: "modul \<Rightarrow> function_event \<Rightarrow> fn option" where
  "caller_target m ev = (if fn_context ev \<noteq> Caller then None else getFunction m (fe_function ev))"

definition caller_GetOrCreateInstr ::
  "bool \<Rightarrow> fn \<Rightarrow> function_event \<Rightarrow> caller_pass \<Rightarrow> (caller_pass \<times> translation_fn) res" where
  "caller_GetOrCreateInstr suppress f ev p =
     (let name = fn_name f in
      case map_of (case fn_direction ev of Entry \<Rightarrow> lp_calls p | Exit \<Rightarrow> lp_returns p) name of
        Some (t, _) \<Rightarrow> Inr (p, t)
      | None \<Rightarrow>
          bindE (CreateInstrFn suppress ev f (lp_mod p)) (\<lambda>(m, t).
            Inr (case fn_direction ev of
                Entry \<Rightarrow> p\<lparr>lp_mod := m, lp_calls := (name, (t, ev)) # lp_calls p\<rparr>
              | Exit \<Rightarrow> p\<lparr>lp_mod := m, lp_returns := (name, (t, ev)) # lp_returns p\<rparr>, t)))"

definition caller_class ::
  "bool \<Rightarrow> (function_event \<Rightarrow> bool) \<Rightarrow> automaton \<Rightarrow> nat \<Rightarrow> caller_pass \<Rightarrow> caller_pass res" where
  "caller_class suppress sends a x p =
     bindE (assertE ''!EquivClass.empty()'' (au_classes a ! x \<noteq> [])) (\<lambda>_.
       case e_label (au_edge a (hd (au_classes a ! x))) of
         Fn_t ev \<Rightarrow>
           if fn_context ev \<noteq> Caller then Inr p
           else (case fn_kind ev of
               ObjCSuperMessage \<Rightarrow> Inl (Undefined ''Unsupported instrumentation kind'')
             | CCall \<Rightarrow>
                 (case getFunction (lp_mod p) (fe_function ev) of
                    None \<Rightarrow> Inr p
                  | Some f \<Rightarrow>
                      bindE (caller_GetOrCreateInstr suppress f ev p) (\<lambda>(p1, t).
                      bindE (add_event ev (au_name a) t (lp_mod p1)) (\<lambda>(m2, instr).
                        Inr (p1\<lparr>lp_mod := in_fn (fst t) (CallUpdateState a x instr) (ExternalDescription a m2)\<rparr>))))
             | _ \<Rightarrow> bindE (assertE ''update ObjC implementation'' (\<not> sends ev)) (\<lambda>_. Inr p))
       | _ \<Rightarrow> Inr p)"

fun caller_classes ::
  "bool \<Rightarrow> (function_event \<Rightarrow> bool) \<Rightarrow> automaton \<Rightarrow> nat list \<Rightarrow> caller_pass \<Rightarrow> caller_pass res" where
  "caller_classes suppress sends a [] p = Inr p"
| "caller_classes suppress sends a (x # xs) p = bindE (caller_class suppress sends a x p) (caller_classes suppress sends a xs)"

fun caller_roots ::
  "bool \<Rightarrow> (function_event \<Rightarrow> bool) \<Rightarrow> manifest \<Rightarrow> usage list \<Rightarrow> caller_pass \<Rightarrow> caller_pass res" where
  "caller_roots suppress sends mf [] p = Inr p"
| "caller_roots suppress sends mf (u # us) p =
     bindE (FindAutomaton mf (us_identifier u)) (\<lambda>a.
     bindE (caller_classes suppress sends a [0..<length (au_classes a)] p) (caller_roots suppress sends mf us))"

definition doInitialization :: "bool \<Rightarrow> (function_event \<Rightarrow> bool) \<Rightarrow> manifest \<Rightarrow> modul \<Rightarrow> caller_pass res" where
  "doInitialization suppress sends mf m =
     caller_roots suppress sends mf (ma_roots mf) \<lparr>lp_mod = InstrContext_Create suppress m, lp_calls = [], lp_returns = []\<rparr>"

definition caller_run :: "bool \<Rightarrow> (function_event \<Rightarrow> bool) \<Rightarrow> manifest \<Rightarrow> modul \<Rightarrow> modul res" where
  "caller_run suppress sends mf m =
     bindE (doInitialization suppress sends mf m) (\<lambda>p.
       Inr ((lp_mod p)\<lparr>mo_fns := map (runOnFunction p) (mo_fns (lp_mod p))\<rparr>))"

end
