(* ===== verification/Tesla_Caller_Correct.thy ===== *)
theory Tesla_Caller_Correct
  imports Tesla_Caller Tesla_Pass
begin

text \<open>
  What the caller pass does to a module: the instrumentation functions pass on exactly the events of
  the manifest, and every direct call of a function with events is surrounded by calls of them.
\<close>

subsection \<open>The pass as an event pass\<close>

definition caller_look :: "caller_pass \<Rightarrow> direction \<Rightarrow> string \<Rightarrow> translation_fn option" where
  "caller_look p d n = map_option fst (map_of (case d of Entry \<Rightarrow> lp_calls p | Exit \<Rightarrow> lp_returns p) n)"

definition leave :: "string \<Rightarrow> direction set \<Rightarrow> fn \<Rightarrow> fn res" where
  "leave n D f = Inr f"

lemma caller_GetOrCreateInstr_made:
  assumes run: "caller_GetOrCreateInstr sp f ev p = Inr (p1, t)" and ctx: "fn_context ev = Caller" and nd: "n = fe_function ev" "d = fn_direction ev"
    and f: "getFunction (lp_mod p) n = Some f" "\<not> reserved Caller n"
    and none: "caller_look p d n = None" "getFunction (lp_mod p) (iname Caller n d) = None"
  shows "\<exists>f1 e f'. t = (iname Caller n d, e) \<and> TranslationFn_Create sp (iprefix Caller n d) (ilink Caller) (idecl Caller n d f) = Inr (f1, e)
        \<and> Inr f = (Inr f' :: fn res) \<and> getFunction (lp_mod p1) = (getFunction (lp_mod p))(iname Caller n d \<mapsto> f1, n \<mapsto> f')
        \<and> mo_structs (lp_mod p1) = mo_structs (lp_mod p) \<and> mo_globals (lp_mod p1) = mo_globals (lp_mod p)
        \<and> caller_look p1 = (caller_look p)(d := (caller_look p d)(n \<mapsto> t))"
proof -
  have fn: "fn_name f = n" by (rule getFunction_name [OF f(1)])
  have ne: "n \<noteq> iname Caller n d" using f(2) reserved_iname by metis
  have nm: "map_of (case d of Entry \<Rightarrow> lp_calls p | Exit \<Rightarrow> lp_returns p) n = None" using none(1) by (simp add: caller_look_def)
  then obtain m where c: "CreateInstrFn sp ev f (lp_mod p) = Inr (m, t)"
    and p1: "p1 = (case d of Entry \<Rightarrow> p\<lparr>lp_mod := m, lp_calls := (n, (t, ev)) # lp_calls p\<rparr>
      | Exit \<Rightarrow> p\<lparr>lp_mod := m, lp_returns := (n, (t, ev)) # lp_returns p\<rparr>)"
    using run nd fn by (auto simp: caller_GetOrCreateInstr_def Let_def E_eq_Inr split: option.splits)
  from CreateInstrFn_view [OF c ctx] none(2) nd obtain f1 e where v: "t = (iname Caller n d, e)"
    "TranslationFn_Create sp (iprefix Caller n d) (ilink Caller) (idecl Caller n d f) = Inr (f1, e)"
    "getFunction m = (getFunction (lp_mod p))(iname Caller n d \<mapsto> f1)" "mo_structs m = mo_structs (lp_mod p)" "mo_globals m = mo_globals (lp_mod p)"
    by auto
  have m: "lp_mod p1 = m" by (simp add: p1 split: direction.split)
  have "getFunction m = (getFunction (lp_mod p))(iname Caller n d \<mapsto> f1, n \<mapsto> f)" using v(3) f(1) ne by auto
  moreover have "caller_look p1 = (caller_look p)(d := (caller_look p d)(n \<mapsto> t))"
    by (cases t) (auto simp: p1 caller_look_def fun_eq_iff split: direction.split)
  ultimately show ?thesis using v m by auto
qed

interpretation caller: event_pass Caller lp_mod "\<lambda>m p. p\<lparr>lp_mod := m\<rparr>" caller_look caller_target caller_GetOrCreateInstr "\<lambda>n d f. Inr f" leave
proof (unfold_locales, goal_cases)
  case (2 m p)
  then show ?case by (simp add: caller_look_def fun_eq_iff split: direction.split)
next
  case (3 m ev f)
  then show ?case by (auto simp: caller_target_def split: if_splits)
next
  case (4 sp f ev p p' t t')
  with getFunction_name [OF 4(2)] show ?case by (auto simp: caller_GetOrCreateInstr_def caller_look_def Let_def)
next
  case (5 sp f ev p p' t n d)
  then show ?case by (rule caller_GetOrCreateInstr_made)
qed (simp_all add: leave_def)

subsection \<open>The events of a manifest\<close>

definition caller_class_hooks :: "modul \<Rightarrow> automaton \<Rightarrow> nat \<Rightarrow> placement list" where
  "caller_class_hooks m a x = (case e_label (au_edge a (hd (au_classes a ! x))) of
     Fn_t ev \<Rightarrow> if fn_kind ev = CCall \<and> caller_target m ev \<noteq> None then [(ev, au_name a, Symbol_h a x)] else []
   | _ \<Rightarrow> [])"

definition caller_root_hooks :: "modul \<Rightarrow> manifest \<Rightarrow> usage \<Rightarrow> placement list" where
  "caller_root_hooks m mf u = (case FindAutomaton mf (us_identifier u) of
     Inr a \<Rightarrow> concat (map (caller_class_hooks m a) [0..<length (au_classes a)])
   | Inl _ \<Rightarrow> [])"

definition caller_hooks :: "modul \<Rightarrow> manifest \<Rightarrow> placement list" where
  "caller_hooks m mf = concat (map (caller_root_hooks m mf) (ma_roots mf))"

definition roots_unreserved :: "manifest \<Rightarrow> bool" where
  "roots_unreserved mf = list_all (\<lambda>u. case FindAutomaton mf (us_identifier u) of
     Inr a \<Rightarrow> automaton_unreserved Caller a | Inl _ \<Rightarrow> True) (ma_roots mf)"

text \<open>The state of the pass: in addition, the maps belong to their directions.\<close>

definition caller_maps :: "caller_pass \<Rightarrow> bool" where
  "caller_maps p \<longleftrightarrow> (\<forall>n t ev. (n, (t, ev)) \<in> set (lp_calls p) \<longrightarrow> fn_direction ev = Entry \<and> \<not> reserved Caller n)
     \<and> (\<forall>n t ev. (n, (t, ev)) \<in> set (lp_returns p) \<longrightarrow> fn_direction ev = Exit \<and> \<not> reserved Caller n)"

definition caller_woven :: "bool \<Rightarrow> modul \<Rightarrow> placement list \<Rightarrow> caller_pass \<Rightarrow> bool" where
  "caller_woven sp m hs p \<longleftrightarrow> woven Caller leave (\<lambda>_. None) sp m hs (lp_mod p) (caller_look p) \<and> caller_maps p
     \<and> list_all (\<lambda>(ev, _). \<not> reserved Caller (fe_function ev)) hs"

lemma caller_get_maps:
  assumes "caller_GetOrCreateInstr sp f ev p = Inr (p1, t)" and "caller_maps p" and "\<not> reserved Caller (fn_name f)"
  shows "caller_maps p1"
  using assms by (auto simp: caller_GetOrCreateInstr_def caller_maps_def Let_def E_eq_Inr split: option.splits direction.splits)

lemma caller_class_woven:
  assumes W: "caller_woven sp m hs p" and nr: "edge_unreserved Caller (au_edge a (hd (au_classes a ! x)))"
    and run: "caller_class sp sends a x p = Inr p'"
  shows "caller_woven sp m (hs @ caller_class_hooks m a x) p'"
proof (cases "\<exists>ev. e_label (au_edge a (hd (au_classes a ! x))) = Fn_t ev \<and> fn_context ev = Caller \<and> fn_kind ev = CCall")
  case False
  then have "caller_class_hooks m a x = []" by (auto simp: caller_class_hooks_def caller_target_def split: trans_label.split)
  moreover have "p' = p" using False run by (auto simp: caller_class_def E_eq_Inr split: trans_label.splits if_splits call_kind.splits)
  ultimately show ?thesis using W by simp
next
  case True
  then obtain ev where ev: "e_label (au_edge a (hd (au_classes a ! x))) = Fn_t ev" "fn_context ev = Caller" "fn_kind ev = CCall" by blast
  have n: "\<not> reserved Caller (fe_function ev)" using nr ev(1) by (simp add: edge_unreserved_def)
  have w: "woven Caller leave (\<lambda>_. None) sp m hs (lp_mod p) (caller_look p)" using W by (simp add: caller_woven_def)
  then have same: "getFunction (lp_mod p) (fe_function ev) = getFunction m (fe_function ev)"
    using n unfolding woven_def leave_def by (cases "getFunction m (fe_function ev)") auto
  show ?thesis
  proof (cases "getFunction m (fe_function ev)")
    case None
    with run ev same W show ?thesis by (auto simp: caller_class_def caller_class_hooks_def caller_target_def E_eq_Inr)
  next
    case (Some f)
    with run ev same obtain p1 t m2 instr where g: "caller_GetOrCreateInstr sp f ev p = Inr (p1, t)"
      and ad: "add_event ev (au_name a) t (lp_mod p1) = Inr (m2, instr)"
      and p': "p' = p1\<lparr>lp_mod := in_fn (fst t) (CallUpdateState a x instr) (ExternalDescription a m2)\<rparr>"
      by (auto simp: caller_class_def E_eq_Inr)
    have ac: "act (Do_update a x) instr = CallUpdateState a x instr" by (simp add: act_def fun_eq_iff)
    have tg: "caller_target (lp_mod p) ev = Some f" using same Some ev(2) by (simp add: caller_target_def)
    have "place_with caller_target caller_GetOrCreateInstr lp_mod (\<lambda>m p. p\<lparr>lp_mod := m\<rparr>) (\<lambda>_. None) sp (ev, au_name a, Symbol_h a x) p = Inr p'"
      by (simp add: place_with_def tg g ad ac p' derefE_def prepare_def)
    from caller.place_woven(1) [OF w this n] have "woven Caller leave (\<lambda>_. None) sp m (hs @ [(ev, au_name a, Symbol_h a x)]) (lp_mod p') (caller_look p')" by simp
    moreover have "caller_maps p1" using W n getFunction_name [OF Some] by (intro caller_get_maps [OF g]) (simp_all add: caller_woven_def)
    then have "caller_maps p'" by (simp add: p' caller_maps_def)
    moreover have "caller_class_hooks m a x = [(ev, au_name a, Symbol_h a x)]" using ev Some by (simp add: caller_class_hooks_def caller_target_def)
    ultimately show ?thesis using W n by (simp add: caller_woven_def)
  qed
qed

lemma caller_classes_woven:
  "caller_classes sp sends a xs p = Inr p' \<Longrightarrow> caller_woven sp m hs p \<Longrightarrow>
     \<forall>x\<in>set xs. edge_unreserved Caller (au_edge a (hd (au_classes a ! x))) \<Longrightarrow>
     caller_woven sp m (hs @ concat (map (caller_class_hooks m a) xs)) p'"
proof (induction xs arbitrary: p hs)
  case (Cons x xs)
  from Cons.prems(1) obtain p1 where r: "caller_class sp sends a x p = Inr p1" "caller_classes sp sends a xs p1 = Inr p'"
    by (auto simp: E_eq_Inr)
  from Cons.IH [OF r(2) caller_class_woven [OF Cons.prems(2) _ r(1)]] Cons.prems(3) show ?case by simp
qed simp

lemma caller_roots_woven:
  "caller_roots sp sends mf us p = Inr p' \<Longrightarrow> caller_woven sp m hs p \<Longrightarrow>
     list_all (\<lambda>u. case FindAutomaton mf (us_identifier u) of Inr a \<Rightarrow> automaton_unreserved Caller a | Inl _ \<Rightarrow> True) us \<Longrightarrow>
     caller_woven sp m (hs @ concat (map (caller_root_hooks m mf) us)) p'"
proof (induction us arbitrary: p hs)
  case (Cons u us)
  from Cons.prems(1) obtain a p1 where r: "FindAutomaton mf (us_identifier u) = Inr a"
    "caller_classes sp sends a [0..<length (au_classes a)] p = Inr p1" "caller_roots sp sends mf us p1 = Inr p'"
    by (auto simp: E_eq_Inr)
  from Cons.prems(3) r(1) have "automaton_unreserved Caller a" by simp
  then have "\<forall>x\<in>set [0..<length (au_classes a)]. edge_unreserved Caller (au_edge a (hd (au_classes a ! x)))"
    using automaton_unreservedD by blast
  from caller_classes_woven [OF r(2) Cons.prems(2) this] r(1)
  have "caller_woven sp m (hs @ caller_root_hooks m mf u) p1" by (simp add: caller_root_hooks_def)
  from Cons.IH [OF r(3) this] Cons.prems(3) show ?case by simp
qed simp

lemma doInitialization_woven:
  assumes run: "doInitialization sp sends mf m0 = Inr p" and m: "m = InstrContext_Create sp m0"
    and fns: "list_all (\<lambda>f. \<not> reserved Caller (fn_name f)) (mo_fns m)" and names: "roots_unreserved mf"
  shows "caller_woven sp m (caller_hooks m mf) p"
proof -
  let ?p = "\<lparr>lp_mod = m, lp_calls = [], lp_returns = []\<rparr>"
  have "woven Caller leave (\<lambda>_. None) sp m [] m (caller_look ?p)"
    by (rule woven_start [OF fns]) (auto simp: leave_def caller_look_def split: direction.split)
  then have "caller_woven sp m [] ?p" by (simp add: caller_woven_def caller_maps_def)
  from caller_roots_woven [OF _ this] run names show ?thesis
    by (auto simp: doInitialization_def m roots_unreserved_def caller_hooks_def)
qed

subsection \<open>What instrumentation functions call\<close>

text \<open>An instrumentation function calls libtesla and, for debugging, \<open>printf\<close>.\<close>

definition own_calls :: "string set" where
  "own_calls = {''tesla_update_state'', ''tesla_sunrise'', ''tesla_sunset'', ''tesla_debugging'', ''printf''}"

definition calls_own :: "inst \<Rightarrow> bool" where
  "calls_own i \<longleftrightarrow> (\<forall>m cs. direct_call m i = Some cs \<longrightarrow> fst cs \<in> own_calls)"

definition fn_calls_own :: "fn \<Rightarrow> bool" where
  "fn_calls_own f \<longleftrightarrow> (\<forall>(n, b) \<in> set (fn_blocks f). list_all calls_own (bb_insts b))"

lemma calls_own_simps [simp]:
  "calls_own (Compute (Load v))" "calls_own (Compute (Field_ptr s n t v))" "calls_own (Compute (ICmpEQ v w))" "calls_own (Compute (ICmpNE v w))"
  "calls_own (Compute (PtrToInt n v))" "calls_own (Compute (IntCast n v))" "calls_own (Alloca_key k)" "calls_own (Store_key k j v)"
  "calls_own (Call_i g vs) \<longleftrightarrow> g \<in> own_calls" "calls_own (Compute (Call_v g t vs)) \<longleftrightarrow> g \<in> own_calls"
  by (simp_all add: calls_own_def)

lemma fn_calls_own_frame [simp]:
  "fn_calls_own (f\<lparr>fn_linkage := l\<rparr>) = fn_calls_own f"
  by (simp add: fn_calls_own_def)

lemma own_set_term: "fn_calls_own f \<Longrightarrow> fn_calls_own (set_term b t f)"
  by (auto simp: fn_calls_own_def set_term_def map_block_def split: if_splits)

lemma own_redirect: "fn_calls_own f \<Longrightarrow> fn_calls_own (redirect a b f)"
  by (auto simp: fn_calls_own_def redirect_def)

lemma own_emit: "fn_calls_own f \<Longrightarrow> list_all calls_own is \<Longrightarrow> fn_calls_own (emit b is f)"
  by (fastforce simp: fn_calls_own_def emit_def map_block_def list_all_iff split: if_splits)

lemma own_create: "fn_calls_own f \<Longrightarrow> fn_calls_own (fst (create_block nm before f))"
  by (auto simp: fn_calls_own_def create_block_def Let_def split: option.split dest: set_takeWhileD set_dropWhileD)

lemmas own_code = own_set_term own_redirect own_emit own_create

lemma match_value_own: "match_value p v = Inr c \<Longrightarrow> calls_own (Compute c)"
  by (auto simp: match_value_def Let_def split: ty.splits match_type.splits)

lemma Match_own: "Match lab e i p v f = Inr f' \<Longrightarrow> fn_calls_own f \<Longrightarrow> fn_calls_own f'"
  by (auto simp: Match_def Let_def case_prod_unfold E_eq_Inr match_value_own split: if_splits intro!: own_code)

lemma GetArgumentValue_own: "GetArgumentValue ss False v a = Inr (x, is) \<Longrightarrow> list_all calls_own is"
proof (induction a arbitrary: v x "is" rule: measure_induct_rule [of size])
  case (less a)
  from less.prems show ?case
    by (subst (asm) GetArgumentValue.simps) (auto simp: E_eq_Inr dest: less.IH [OF indirection_size] split: arg_type.splits option.splits)
qed

lemma place_key_own: "place_key ss ind i p v ks f = Inr (ks', f') \<Longrightarrow> fn_calls_own f \<Longrightarrow> fn_calls_own f'"
  by (auto simp: place_key_def E_eq_Inr GetArgumentValue_own split: if_splits option.splits intro!: own_code)

lemma pattern_loop_own:
  "pattern_loop ss lab ind e i n pvs ks f = Inr (ks', f') \<Longrightarrow> fn_calls_own f \<Longrightarrow> fn_calls_own f'"
proof (induction pvs arbitrary: n ks f)
  case (Cons pv pvs)
  then show ?case by (cases pv) (auto simp: E_eq_Inr dest!: Match_own place_key_own)
qed simp

lemma Cast_own: "Cast v = Inr (w, is) \<Longrightarrow> list_all calls_own is"
  by (auto simp: Cast_def split: if_splits ty.splits)

lemma key_loop_own: "key_loop k i as mk = Inr (is, mk') \<Longrightarrow> list_all calls_own is"
  by (induction k i as mk arbitrary: "is" mk' rule: key_loop.induct) (auto simp: E_eq_Inr dest: Cast_own)

lemma AddInstrumentation_own: "AddInstrumentation ss lab ps ind fm e f = Inr (f', i) \<Longrightarrow> fn_calls_own f \<Longrightarrow> fn_calls_own f'"
  by (auto simp: AddInstrumentation_def ConstructKey_def Let_def case_prod_unfold E_eq_Inr key_loop_own
      intro!: own_code elim!: pattern_loop_own)

lemma add_translators_own: "add_translators ss e ts f = Inr f' \<Longrightarrow> fn_calls_own f \<Longrightarrow> fn_calls_own f'"
proof (induction ts arbitrary: f)
  case (Cons t ts)
  from Cons.prems(1) obtain f1 i where a: "AddInstrumentation ss (tr_label t) (tr_patterns t) (tr_indirect t) (tr_free t) e f = Inr (f1, i)"
    "add_translators ss e ts (act (tr_action t) i f1) = Inr f'" by (auto simp: add_translator_def E_eq_Inr)
  have "fn_calls_own (act (tr_action t) i f1)"
    using AddInstrumentation_own [OF a(1) Cons.prems(2)]
    by (auto simp: act_emit act_call_def own_calls_def intro!: own_emit split: action.split)
  from Cons.IH [OF a(2) this] show ?case .
qed simp

lemma CreatePreamble_own: "CreatePreamble sp pre f = Inr (f', e) \<Longrightarrow> fn_calls_own f \<Longrightarrow> fn_calls_own f'"
  using own_create [of f "''entry''" None]
  by (auto simp: CreatePreamble_def Let_def case_prod_unfold E_eq_Inr own_calls_def split: if_splits intro!: own_code)

lemma TranslationFn_Create_own: "TranslationFn_Create sp pre l f = Inr (f', e) \<Longrightarrow> fn_blocks f = [] \<Longrightarrow> fn_calls_own f'"
  by (auto simp: TranslationFn_Create_def Let_def case_prod_unfold E_eq_Inr intro!: own_code elim!: CreatePreamble_own)
    (auto simp: fn_calls_own_def)

lemma hears_own: "hears c ser sp m m' look n d es \<Longrightarrow> getFunction m' (iname c n d) = Some g \<Longrightarrow> fn_calls_own g"
  by (auto simp: hears_def idecl_def dest!: TranslationFn_Create_own add_translators_own)

subsection \<open>Visiting the calls\<close>

text \<open>A call with the calls of its instrumentation around it.\<close>

definition around :: "modul \<Rightarrow> placement list \<Rightarrow> inst \<Rightarrow> inst list" where
  "around m hs i = (case direct_call m i of
     None \<Rightarrow> [i]
   | Some (g, vs, ty, v) \<Rightarrow>
       (if events_at hs g Entry \<noteq> [] then [Call_i (iname Caller g Entry) vs] else []) @ [i]
       @ (if events_at hs g Exit \<noteq> [] then [Call_i (iname Caller g Exit) (vs @ (if ty \<noteq> VoidT then [v] else []))] else []))"

definition surround :: "modul \<Rightarrow> placement list \<Rightarrow> fn \<Rightarrow> fn" where
  "surround m hs f =
     f\<lparr>fn_blocks := map (\<lambda>(n, b). (n, b\<lparr>bb_insts := concat (map (around m hs) (bb_insts b))\<rparr>)) (fn_blocks f)\<rparr>"

lemma reserved_unknown:
  assumes "caller_maps p" and "reserved Caller n"
  shows "map_of (lp_calls p) n = None" and "map_of (lp_returns p) n = None"
  using assms by (auto simp: caller_maps_def map_of_eq_None_iff)

lemma look_events:
  assumes W: "caller_woven sp m hs p"
  shows "if events_at hs g d = [] then caller_look p d g = None else \<exists>e. caller_look p d g = Some (iname Caller g d, e)"
proof (cases "reserved Caller g")
  case True
  with W have "events_at hs g d = []" by (auto simp: caller_woven_def events_at_def filter_empty_conv list_all_iff)
  moreover have "caller_look p d g = None" using reserved_unknown [OF _ True] W by (cases d) (simp_all add: caller_look_def caller_woven_def)
  ultimately show ?thesis by simp
next
  case False
  with W have "if events_at hs g d = [] then silent Caller (lp_mod p) (caller_look p) g d
    else hears Caller (\<lambda>_. None) sp m (lp_mod p) (caller_look p) g d (events_at hs g d)"
    unfolding caller_woven_def woven_def by blast
  then show ?thesis by (auto simp: silent_def hears_def split: if_splits)
qed

lemma Instrument_calls:
  assumes "caller_woven sp m hs p"
  shows "Instrument (map_of (lp_calls p) g) (g, vs, ty, v)
      = (if events_at hs g Entry \<noteq> [] then [Call_i (iname Caller g Entry) vs] else [], [])"
    and "Instrument (map_of (lp_returns p) g) (g, vs, ty, v)
      = ([], if events_at hs g Exit \<noteq> [] then [Call_i (iname Caller g Exit) (vs @ (if ty \<noteq> VoidT then [v] else []))] else [])"
proof -
  have d: "map_of (lp_calls p) g = Some (t, ev) \<Longrightarrow> fn_direction ev = Entry" "map_of (lp_returns p) g = Some (t, ev) \<Longrightarrow> fn_direction ev = Exit" for t ev
    using assms by (cases t, auto simp: caller_woven_def caller_maps_def dest!: map_of_SomeD)+
  show "Instrument (map_of (lp_calls p) g) (g, vs, ty, v)
      = (if events_at hs g Entry \<noteq> [] then [Call_i (iname Caller g Entry) vs] else [], [])"
    using look_events [OF assms, of g Entry] d(1) by (auto simp: Instrument_def caller_look_def split: if_splits option.split)
  show "Instrument (map_of (lp_returns p) g) (g, vs, ty, v)
      = ([], if events_at hs g Exit \<noteq> [] then [Call_i (iname Caller g Exit) (vs @ (if ty \<noteq> VoidT then [v] else []))] else [])"
    using look_events [OF assms, of g Exit] d(2) by (auto simp: Instrument_def caller_look_def split: if_splits option.split)
qed

text \<open>A call that was inserted is not instrumented again.\<close>

lemma visit_inserted:
  assumes "caller_woven sp m hs p" and "reserved Caller g"
  shows "visit_inst k p (Call_i g vs) = [Call_i g vs]"
  using reserved_unknown [OF _ assms(2), of p] assms(1) by (cases k) (simp_all add: caller_woven_def Instrument_def)

lemma visit_around:
  assumes W: "caller_woven sp m hs p"
  shows "visit_inst (Suc k) p i = around (lp_mod p) hs i"
  using Instrument_calls [OF W] visit_inserted [OF W]
  by (auto simp: around_def split: option.split)

lemma runOnFunction_surround:
  assumes "caller_woven sp m hs p"
  shows "runOnFunction p f = surround (lp_mod p) hs f"
proof -
  have "visit_inst (k + 1) p = around (lp_mod p) hs" for k
    unfolding Suc_eq_plus1 [symmetric] by (rule ext) (rule visit_around [OF assms])
  then show ?thesis by (simp add: runOnFunction_def surround_def runOnBasicBlock_def)
qed

lemma around_own:
  assumes "\<forall>g \<in> own_calls. \<forall>d. events_at hs g d = []" and "calls_own i"
  shows "around m hs i = [i]"
  using assms by (fastforce simp: around_def calls_own_def split: option.split)

lemma surround_own:
  assumes "\<forall>g \<in> own_calls. \<forall>d. events_at hs g d = []" and "fn_calls_own f"
  shows "surround m hs f = f"
proof -
  have "concat (map (around m hs) is) = is" if "list_all calls_own is" for "is"
    using that around_own [OF assms(1)] by (induction "is") auto
  then have "map (\<lambda>(n, b). (n, b\<lparr>bb_insts := concat (map (around m hs) (bb_insts b))\<rparr>)) (fn_blocks f) = fn_blocks f"
    using assms(2) by (intro map_idI) (auto simp: fn_calls_own_def)
  then show ?thesis by (simp add: surround_def)
qed

lemma getFunction_map:
  assumes "\<And>f. fn_name (h f) = fn_name f"
  shows "getFunction (m\<lparr>mo_fns := map h fs\<rparr>) n = map_option h (find (\<lambda>f. fn_name f = n) fs)"
  using assms by (induction fs) (auto simp: getFunction_def)

lemma surround_frame [simp]: "fn_name (surround m hs f) = fn_name f" "fn_ret (surround m hs f) = fn_ret f"
  by (simp_all add: surround_def)

lemma direct_call_cong: "(\<And>g. return_type m g = return_type m' g) \<Longrightarrow> direct_call m i = direct_call m' i"
  by (induction m i rule: direct_call.induct) auto

text \<open>The module after the pass.\<close>

lemma caller_run_view:
  assumes run: "caller_run sp sends mf m0 = Inr m'" and m: "m = InstrContext_Create sp m0"
    and fns: "list_all (\<lambda>f. \<not> reserved Caller (fn_name f)) (mo_fns m)" and names: "roots_unreserved mf"
  shows "\<exists>p. caller_woven sp m (caller_hooks m mf) p \<and> mo_globals m' = mo_globals (lp_mod p)
    \<and> (\<forall>n. getFunction m' n = map_option (surround m' (caller_hooks m mf)) (getFunction (lp_mod p) n))"
proof -
  from run obtain p where p: "doInitialization sp sends mf m0 = Inr p"
    and m': "m' = (lp_mod p)\<lparr>mo_fns := map (runOnFunction p) (mo_fns (lp_mod p))\<rparr>"
    by (auto simp: caller_run_def E_eq_Inr)
  note W = doInitialization_woven [OF p m fns names]
  let ?s = "surround (lp_mod p) (caller_hooks m mf)"
  have "m' = (lp_mod p)\<lparr>mo_fns := map ?s (mo_fns (lp_mod p))\<rparr>" using m' runOnFunction_surround [OF W] by simp
  then have g: "getFunction m' n = map_option ?s (getFunction (lp_mod p) n)" for n
    using getFunction_map [of ?s "mo_fns (lp_mod p)" "lp_mod p" n] by (simp add: getFunction_def)
  have "return_type m' x = return_type (lp_mod p) x" for x by (simp add: return_type_def g option.case_eq_if option.map_sel)
  then have "around m' (caller_hooks m mf) = around (lp_mod p) (caller_hooks m mf)"
    using direct_call_cong [of m' "lp_mod p"] by (simp add: around_def fun_eq_iff)
  then have "surround m' (caller_hooks m mf) = ?s" unfolding surround_def by simp
  with W g m' show ?thesis by auto
qed

subsection \<open>An example\<close>

text \<open>Within \<open>main\<close>, a call of \<open>a\<close> seen by its caller and then the assertion site; \<open>a\<close> is defined elsewhere.\<close>

definition ex_caller_file :: "string \<Rightarrow> manifest_file" where
  "ex_caller_file g = \<lparr>mf_automaton = [ex_description (Sequence_expr
     [Function_expr ((Tesla_Compiler.ex_event g Entry)\<lparr>fe_context := Some Caller\<rparr>), Assertion_site ex_site] None None)], mf_root = [ex_usage]\<rparr>"

definition ex_caller_load :: "string \<Rightarrow> (string \<times> manifest option) res" where
  "ex_caller_load g = manifest_load (\<lambda>_. Some (ex_caller_file g)) (\<lambda>_. None) 0 True Deterministic ''.tesla'' (Inr ''automaton'')"

definition ex_caller_main :: fn where
  "ex_caller_main = \<lparr>fn_name = ''main'', fn_params = [], fn_ret = VoidT, fn_vararg = False, fn_linkage = External_l,
     fn_blocks = [(0, \<lparr>bb_name = ''entry'', bb_insts = [Program_call 1 (Some ''a'') VoidT []], bb_term = Some (Ret None)\<rparr>)]\<rparr>"

definition ex_caller_program :: modul where
  "ex_caller_program = \<lparr>mo_fns = [ex_caller_main, \<lparr>fn_name = ''a'', fn_params = [], fn_ret = VoidT, fn_vararg = False,
     fn_linkage = External_l, fn_blocks = []\<rparr>], mo_globals = [], mo_structs = []\<rparr>"

definition ex_caller_ready :: "manifest \<Rightarrow> bool" where
  "ex_caller_ready mf = (let m = InstrContext_Create True ex_caller_program; hs = caller_hooks m mf in
     list_all (\<lambda>f. \<not> reserved Caller (fn_name f)) (mo_fns m) \<and> roots_unreserved mf
     \<and> (\<forall>g \<in> own_calls. events_at hs g Entry = [] \<and> events_at hs g Exit = [])
     \<and> getFunction m ''main'' = Some ex_caller_main \<and> events_at hs ''a'' Entry \<noteq> [] \<and> events_at hs ''a'' Exit = [])"

lemma ex_caller_runs:
  "case ex_caller_load ''a'' of Inr (msg, Some mf) \<Rightarrow> ex_caller_ready mf
     \<and> (case caller_run True (\<lambda>_. False) mf ex_caller_program of Inr m \<Rightarrow> True | Inl _ \<Rightarrow> False) | _ \<Rightarrow> False"
  by code_simp

subsection \<open>The property\<close>

text \<open>C8.  The caller pass surrounds every direct call of a function for which the manifest has events: a
  call of the instrumentation with the same arguments before it, and one with the arguments and the
  result after it, exactly where the events are on calls or on returns; nothing else in the function
  changes.  Calling an instrumentation function passes on to libtesla, in order, the events of the
  manifest that concern this function and direction.  The manifest is taken to have no events on
  \<open>printf\<close> and libtesla's own functions, and no names with the instrumenter's prefix.\<close>

theorem caller_instruments:
  assumes "caller_run suppress sends mf m0 = Inr m'" and "m = InstrContext_Create suppress m0"
    and "list_all (\<lambda>f. \<not> reserved Caller (fn_name f)) (mo_fns m)" and "roots_unreserved mf"
    and "\<forall>g \<in> own_calls. \<forall>d. events_at (caller_hooks m mf) g d = []" and "getFunction m n = Some f"
  shows "getFunction m' n = Some (surround m' (caller_hooks m mf) f)
    \<and> (\<forall>d. let es = events_at (caller_hooks m mf) n d; ts = iparams d f in
         if es = [] then getFunction m' (iname Caller n d) = None
         else \<exists>g trs. getFunction m' (iname Caller n d) = Some g \<and> list_all2 (realises (\<lambda>_. None) (mo_globals m')) es trs
           \<and> (\<forall>mc args. length args = length ts \<longrightarrow>
                call_fn mc args g = map_option ((@) (debug_calls mc suppress (iprefix Caller n d) ts args)) (translate_all mc ts args trs)))"
proof -
  from caller_run_view [OF assms(1-4)] obtain p where W: "caller_woven suppress m (caller_hooks m mf) p"
    and gl: "mo_globals m' = mo_globals (lp_mod p)"
    and g: "\<And>n. getFunction m' n = map_option (surround m' (caller_hooks m mf)) (getFunction (lp_mod p) n)" by blast
  have nr: "\<not> reserved Caller n" using assms(3,6) by (auto simp: getFunction_def find_Some_iff list_all_length)
  note w = W [unfolded caller_woven_def woven_def leave_def] nr
  have fun_n: "getFunction m' n = Some (surround m' (caller_hooks m mf) f)" using w assms(6) g by fastforce
  have none: "getFunction m' (iname Caller n d) = None" if "events_at (caller_hooks m mf) n d = []" for d
  proof -
    from w that have "silent Caller (lp_mod p) (caller_look p) n d" by presburger
    then show ?thesis by (simp add: g silent_def)
  qed
  have "hears Caller (\<lambda>_. None) suppress m m' (caller_look p) n d (events_at (caller_hooks m mf) n d)"
    if "events_at (caller_hooks m mf) n d \<noteq> []" for d
  proof -
    from w that have h: "hears Caller (\<lambda>_. None) suppress m (lp_mod p) (caller_look p) n d (events_at (caller_hooks m mf) n d)" by presburger
    then obtain k where k: "getFunction (lp_mod p) (iname Caller n d) = Some k" unfolding hears_def by blast
    then have "getFunction m' (iname Caller n d) = getFunction (lp_mod p) (iname Caller n d)"
      using surround_own [OF assms(5) hears_own [OF h k]] by (simp add: g)
    from hears_mono [OF h _ this, of "caller_look p" "[]"] gl show ?thesis by simp
  qed
  with fun_n none hears_calls [OF _ assms(6)] show ?thesis unfolding Let_def by meson
qed

theorem caller_instruments_witness:
  "\<exists>mf m'. ex_caller_load ''a'' = Inr ([], Some mf) \<and> caller_run True (\<lambda>_. False) mf ex_caller_program = Inr m'
     \<and> map_option (map (bb_insts \<circ> snd) \<circ> fn_blocks) (getFunction m' ''main'')
       = Some [[Call_i (iname Caller ''a'' Entry) [], Program_call 1 (Some ''a'') VoidT []]]"
proof -
  have "case ex_caller_load ''a'' of Inr (msg, Some mf) \<Rightarrow> msg = [] | _ \<Rightarrow> False" by code_simp
  then obtain mf where mf: "ex_caller_load ''a'' = Inr ([], Some mf)" by (auto split: sum.splits option.splits)
  have "ex_caller_ready mf \<and> (case caller_run True (\<lambda>_. False) mf ex_caller_program of Inr m \<Rightarrow> True | Inl _ \<Rightarrow> False)"
    using ex_caller_runs by (simp add: mf)
  then obtain m' where r: "ex_caller_ready mf" "caller_run True (\<lambda>_. False) mf ex_caller_program = Inr m'" by (auto split: sum.splits)
  define m where "m = InstrContext_Create True ex_caller_program"
  from r(1) have h: "list_all (\<lambda>f. \<not> reserved Caller (fn_name f)) (mo_fns m)" "roots_unreserved mf"
      "\<forall>g \<in> own_calls. events_at (caller_hooks m mf) g Entry = [] \<and> events_at (caller_hooks m mf) g Exit = []"
      "getFunction m ''main'' = Some ex_caller_main" and es: "events_at (caller_hooks m mf) ''a'' Entry \<noteq> []" "events_at (caller_hooks m mf) ''a'' Exit = []"
    by (simp_all add: ex_caller_ready_def m_def Let_def)
  have "\<forall>g \<in> own_calls. \<forall>d. events_at (caller_hooks m mf) g d = []" using h(3) direction.exhaust by metis
  from caller_instruments [OF r(2) m_def h(1,2) this h(4)]
  have "getFunction m' ''main'' = Some (surround m' (caller_hooks m mf) ex_caller_main)" by blast
  with mf r(2) es show ?thesis by (simp add: surround_def ex_caller_main_def around_def)
qed

subsection \<open>Events on the instrumenter's own calls\<close>

text \<open>With debug output, an instrumentation function prints before it does anything else.  If the
  manifest has an event on calls of \<open>printf\<close>, the pass instruments this call too, and the
  instrumentation function calls itself: as soon as debugging is on it never returns.\<close>

definition calls_itself :: "fn \<Rightarrow> bool" where
  "calls_itself f = list_ex (\<lambda>(_, b). list_ex (\<lambda>i. case i of Call_i g _ \<Rightarrow> g = fn_name f | _ \<Rightarrow> False) (bb_insts b)) (fn_blocks f)"

lemma printf_event_recurses:
  "case ex_caller_load ''printf'' of
     Inr (_, Some mf) \<Rightarrow> (case caller_run False (\<lambda>_. False) mf ex_caller_program of
       Inr m \<Rightarrow> (case getFunction m (iname Caller ''printf'' Entry) of Some f \<Rightarrow> calls_itself f | None \<Rightarrow> False)
     | Inl _ \<Rightarrow> False)
   | _ \<Rightarrow> False"
  by code_simp

end
