(* ===== verification/Tesla_Site.thy ===== *)
theory Tesla_Site
  imports Tesla_Module Tesla_Manifest
begin

text \<open>
  The pass that converts assertion sites (\<open>Assertion.cpp\<close>).  A call of the pseudo-function that marks
  an assertion gives the location by which the manifest knows the assertion.  The pass puts the
  description of the automaton into the module and replaces the call by one of an instrumentation
  function, with the values of the variables that the assertion names.

  The calls are kept in a set of pointers: \<open>order\<close> stands for the order of their addresses.  An operand
  that is a cast of a global is represented by the global.  Functions do not have the names of their
  parameters: \<open>arg_names\<close> gives them.
\<close>

subsection \<open>Finding the assertion\<close>

definition INT_MAX :: int where
  "INT_MAX = 2 ^ 31 - 1"

definition getLimitedValue :: "val \<Rightarrow> int option" where
  "getLimitedValue v = (case v of ConstInt w x \<Rightarrow> Some (min (x mod 2 ^ w) INT_MAX) | _ \<Rightarrow> None)"

text \<open>The string of the module has its NUL; comparing locations stops there.\<close>

definition filename_of :: "modul \<Rightarrow> val \<Rightarrow> string res" where
  "filename_of m v = (case v of
     Global x t \<Rightarrow>
       (case find (\<lambda>g. gv_name g = x) (mo_globals m) of
          None \<Rightarrow> Inl (Undefined ''global'')
        | Some g \<Rightarrow>
            (case gv_init g of
               None \<Rightarrow> Inl (Assertion ''hasInitializer()'')
             | Some (String_init s) \<Rightarrow> Inr (takeWhile (\<lambda>c. c \<noteq> CHR 0x00) s)
             | Some _ \<Rightarrow> Inl (Panic ''unable to parse filename from TESLA assertion'')))
   | _ \<Rightarrow> Inl (Panic ''unable to parse filename from TESLA assertion''))"

definition ParseAssertionLocation :: "modul \<Rightarrow> val list \<Rightarrow> ir_location res" where
  "ParseAssertionLocation m vs =
     (if length vs < 4 then Inl (Panic ''TESLA assertion must have at least 4 arguments'')
      else
        bindE (filename_of m (vs ! 1)) (\<lambda>filename.
        case getLimitedValue (vs ! 2) of
          None \<Rightarrow> Inl (Panic ''assertion line must be a constant int'')
        | Some line \<Rightarrow>
            (case getLimitedValue (vs ! 3) of
               None \<Rightarrow> Inl (Panic ''assertion count must be a constant int'')
             | Some counter \<Rightarrow> Inr \<lparr>loc_filename = filename, loc_line = line, loc_counter = counter\<rparr>)))"

text \<open>The symbol of the assertion site.\<close>

definition AssertTrans :: "automaton \<Rightarrow> nat res" where
  "AssertTrans a =
     (case find (\<lambda>x. case e_label (au_edge a (hd (au_classes a ! x))) of Assert_t _ _ \<Rightarrow> True | _ \<Rightarrow> False)
             [0..<length (au_classes a)] of
        None \<Rightarrow> Inl (Panic (''automaton '' @ au_name a @ '' has no assertion site event''))
      | Some x \<Rightarrow> Inr x)"

subsection \<open>The values of the variables\<close>

text \<open>The local variables at the beginning of a function are loaded, all of them.\<close>

fun leading_allocas :: "inst list \<Rightarrow> (string \<times> ty) list" where
  "leading_allocas (Alloca_i x t # is) = (x, t) # leading_allocas is"
| "leading_allocas is = []"

definition entry_allocas :: "fn \<Rightarrow> (string \<times> ty) list" where
  "entry_allocas f = (case fn_blocks f of [] \<Rightarrow> [] | (_, b) # _ \<Rightarrow> leading_allocas (bb_insts b))"

definition load_local :: "string \<times> ty \<Rightarrow> val" where
  "load_local xt = Load (Local (fst xt) (PtrT (snd xt)))"

text \<open>A name stands for the innermost variable: a local one, a parameter, a global.\<close>

definition ValuesInScope :: "(string \<Rightarrow> string list) \<Rightarrow> modul \<Rightarrow> fn \<Rightarrow> string \<rightharpoonup> val" where
  "ValuesInScope arg_names m f =
     map_of (map (\<lambda>g. (gv_name g, Global (gv_name g) (gv_type g))) (mo_globals m))
     ++ map_of (rev (zip (arg_names (fn_name f)) (fn_args f)))
     ++ map_of (rev (map (\<lambda>a. (fst a, load_local a)) (entry_allocas f)))"

text \<open>How many values there are.\<close>

fun arg_size :: "int \<Rightarrow> argument list \<Rightarrow> int" where
  "arg_size n [] = n"
| "arg_size n (a # as) = arg_size (if getD False (a_free a) then n else max (n + 1) (getD 0 (a_index a))) as"

fun fill_args ::
  "(string \<times> ty list) list \<Rightarrow> (string \<rightharpoonup> val) \<Rightarrow> argument list \<Rightarrow> val option list \<Rightarrow> (val option list \<times> inst list) res" where
  "fill_args structs scope [] vs = Inr (vs, [])"
| "fill_args structs scope (a # as) vs =
     (if getD False (a_free a) then fill_args structs scope as vs
      else
        bindE (BaseName a) (\<lambda>name.
        case scope name of
          None \<Rightarrow> Inl (Panic (''assertion references non-existent variable '' @ name))
        | Some v \<Rightarrow>
            bindE (GetArgumentValue structs True v a) (\<lambda>(x, is).
              let i = getD 0 (a_index a) in
              if 0 \<le> i \<and> nat i < length vs then
                bindE (fill_args structs scope as (vs[nat i := Some x])) (\<lambda>(vs', is'). Inr (vs', is @ is'))
              else Inl (Undefined ''Args[Arg.index()]''))))"

definition CollectArgs ::
  "(string \<Rightarrow> string list) \<Rightarrow> modul \<Rightarrow> fn \<Rightarrow> automaton \<Rightarrow> (val option list \<times> inst list) res" where
  "CollectArgs arg_names m f a =
     (let as = ad_argument (au_assertion a)
      in bindE (fill_args (mo_structs m) (ValuesInScope arg_names m f) as (replicate (nat (arg_size 0 as)) None)) (\<lambda>(vs, is).
           Inr (vs, map (\<lambda>x. Compute (load_local x)) (entry_allocas f) @ is)))"

subsection \<open>Converting a site\<close>

text \<open>A call of the pseudo-function: its function and its number there.\<close>

type_synonym site = "string \<times> nat"

fun assert_call :: "inst \<Rightarrow> (nat \<times> val list) option" where
  "assert_call (Program_call n (Some g) t vs) = (if g = INLINE_ASSERTION then Some (n, vs) else None)"
| "assert_call i = None"

definition site_calls :: "fn \<Rightarrow> (nat \<times> val list) list" where
  "site_calls f = concat (map (\<lambda>(_, b). List.map_filter assert_call (bb_insts b)) (fn_blocks f))"

definition replace_site :: "nat \<Rightarrow> inst list \<Rightarrow> fn \<Rightarrow> fn" where
  "replace_site n is f = f\<lparr>fn_blocks := map (\<lambda>(k, b).
     (k, b\<lparr>bb_insts := concat (map (\<lambda>i. if map_option fst (assert_call i) = Some n then is else [i]) (bb_insts b))\<rparr>)) (fn_blocks f)\<rparr>"

text \<open>A value that was not collected is a null pointer, whose type is asked for.\<close>

fun all_values :: "val option list \<Rightarrow> val list res" where
  "all_values [] = Inr []"
| "all_values (None # vs) = Inl (Undefined ''Arg->getType()'')"
| "all_values (Some v # vs) = bindE (all_values vs) (\<lambda>ws. Inr (v # ws))"

definition ConvertAssertion ::
  "(function_event + field_assignment \<Rightarrow> string option) \<Rightarrow> (string \<Rightarrow> string list) \<Rightarrow> bool \<Rightarrow> manifest \<Rightarrow> site \<Rightarrow> modul \<Rightarrow> modul res" where
  "ConvertAssertion ser arg_names suppress mf s m =
     bindE (derefE ''AssertCall'' (getFunction m (fst s))) (\<lambda>f0.
     bindE (derefE ''AssertCall'' (map_of (site_calls f0) (snd s))) (\<lambda>operands.
     bindE (ParseAssertionLocation m operands) (\<lambda>loc.
     bindE (FindAutomaton_at mf loc) (\<lambda>a.
     bindE (AssertTrans a) (\<lambda>symbol.
     bindE (BuildAutomatonDescription ser a m) (\<lambda>m1.
     bindE (CollectArgs arg_names m1 f0 a) (\<lambda>(vs, is).
     bindE (all_values vs) (\<lambda>args.
     bindE (CreateInstrFn_site suppress a args m1) (\<lambda>(m2, t).
     let m3 = in_fn (fst s) (replace_site (snd s) (is @ [Call_i (fst t) args])) m2 in
     bindE (derefE ''InstrFn'' (getFunction m3 (fst t))) (\<lambda>g.
     bindE (AddInstrumentation_site (mo_structs m3) a (snd t) g) (\<lambda>(g', instr).
       Inr (in_fn (fst t) (CallUpdateState a symbol instr) (ExternalDescription a (put_fn g' m3))))))))))))))"

fun ConvertAssertions ::
  "(function_event + field_assignment \<Rightarrow> string option) \<Rightarrow> (string \<Rightarrow> string list) \<Rightarrow> bool \<Rightarrow> manifest \<Rightarrow> site list \<Rightarrow> modul \<Rightarrow> modul res" where
  "ConvertAssertions ser arg_names suppress mf [] m =
     Inr (m\<lparr>mo_fns := filter (\<lambda>f. fn_name f \<noteq> INLINE_ASSERTION) (mo_fns m)\<rparr>)"
| "ConvertAssertions ser arg_names suppress mf (s # ss) m =
     bindE (ConvertAssertion ser arg_names suppress mf s m) (ConvertAssertions ser arg_names suppress mf ss)"

definition assertion_sites :: "modul \<Rightarrow> site list" where
  "assertion_sites m = concat (map (\<lambda>f. map (\<lambda>(n, _). (fn_name f, n)) (site_calls f)) (mo_fns m))"

definition site_runOnModule ::
  "(function_event + field_assignment \<Rightarrow> string option) \<Rightarrow> (string \<Rightarrow> string list) \<Rightarrow> (site list \<Rightarrow> site list) \<Rightarrow> bool \<Rightarrow> manifest \<Rightarrow> modul
    \<Rightarrow> (bool \<times> modul) res" where
  "site_runOnModule ser arg_names order suppress mf m =
     (let m1 = InstrContext_Create suppress m in
      if getFunction m1 INLINE_ASSERTION = None then Inr (False, m1)
      else bindE (ConvertAssertions ser arg_names suppress mf (order (assertion_sites m1)) m1) (\<lambda>m2. Inr (True, m2)))"

end
