(* ===== verification/Tesla_Site_Correct.thy ===== *)
theory Tesla_Site_Correct
  imports Tesla_Site Tesla_Pass
begin

text \<open>
  What converting an assertion site does: the description of the automaton is in the module, and the
  site passes the values of the assertion's variables to an instrumentation function that calls
  libtesla with the symbol of the site and the key of these values.
\<close>

subsection \<open>The variables of an assertion\<close>

definition bound :: "argument list \<Rightarrow> argument list" where
  "bound as = filter (\<lambda>a. \<not> getD False (a_free a)) as"

definition free_mask :: "argument list \<Rightarrow> u32" where
  "free_mask as = snd (site_patterns as)"

text \<open>The bound variables are numbered in the order in which they are listed.\<close>

fun indexed_from :: "nat \<Rightarrow> argument list \<Rightarrow> bool" where
  "indexed_from n [] = True"
| "indexed_from n (a # as) = (a_index a = Some (int n) \<and> indexed_from (Suc n) as)"

definition well_indexed :: "argument list \<Rightarrow> bool" where
  "well_indexed as = indexed_from 0 (bound as)"

lemma site_patterns_eq: "site_patterns as = (bound as, free_mask as)"
  by (induction as) (auto simp: bound_def free_mask_def Let_def split: prod.splits)

lemma arg_size_indexed:
  "indexed_from n (bound as) \<Longrightarrow> arg_size (int n) as = int (n + length (bound as))"
proof (induction as arbitrary: n)
  case (Cons a as)
  show ?case
  proof (cases "getD False (a_free a)")
    case True
    with Cons show ?thesis by (simp add: bound_def)
  next
    case False
    then have b: "bound (a # as) = a # bound as" by (simp add: bound_def)
    with Cons.prems have "a_index a = Some (int n)" "indexed_from (Suc n) (bound as)" by auto
    with Cons.IH [of "Suc n"] b False show ?thesis by (simp add: getD_def max_def add.commute)
  qed
qed (simp add: bound_def)

text \<open>The value of an argument of the assertion.\<close>

definition site_value :: "(string \<times> ty list) list \<Rightarrow> (string \<rightharpoonup> val) \<Rightarrow> argument \<Rightarrow> val \<Rightarrow> bool" where
  "site_value structs scope a v \<longleftrightarrow> (\<exists>name base is. BaseName a = Inr name \<and> scope name = Some base \<and> GetArgumentValue structs True base a = Inr (v, is))"

lemma fill_args_indexed:
  "fill_args structs scope as (map Some vs @ replicate (length (bound as)) None) = Inr (ws, is) \<Longrightarrow>
   indexed_from (length vs) (bound as) \<Longrightarrow>
   \<exists>us. ws = map Some (vs @ us) \<and> list_all2 (site_value structs scope) (bound as) us"
proof (induction as arbitrary: vs ws "is")
  case (Cons a as)
  show ?case
  proof (cases "getD False (a_free a)")
    case True
    with Cons show ?thesis by (auto simp: bound_def)
  next
    case False
    then have b: "bound (a # as) = a # bound as" by (simp add: bound_def)
    with Cons.prems(2) have i: "a_index a = Some (int (length vs))" "indexed_from (Suc (length vs)) (bound as)" by auto
    from Cons.prems(1) False b i(1) obtain name base x is1 is2 where v: "BaseName a = Inr name" "scope name = Some base"
      "GetArgumentValue structs True base a = Inr (x, is1)"
      "fill_args structs scope as ((map Some vs @ replicate (Suc (length (bound as))) None)[length vs := Some x]) = Inr (ws, is2)"
      by (auto simp: E_eq_Inr getD_def split: option.splits)
    have "(map Some vs @ replicate (Suc (length (bound as))) None)[length vs := Some x] = map Some (vs @ [x]) @ replicate (length (bound as)) None"
      by (simp add: list_update_append)
    from Cons.IH [OF v(4) [unfolded this]] i(2) obtain us where "ws = map Some ((vs @ [x]) @ us)" "list_all2 (site_value structs scope) (bound as) us"
      by auto
    moreover have "site_value structs scope a x" using v(1-3) by (auto simp: site_value_def)
    ultimately show ?thesis using b by (intro exI [of _ "x # us"]) simp
  qed
qed (simp add: bound_def)

lemma all_values_Some: "all_values (map Some vs) = Inr vs"
  by (induction vs) simp_all

lemma CollectArgs_indexed:
  assumes "CollectArgs names m f a = Inr (ws, is)" and "well_indexed (ad_argument (au_assertion a))"
  shows "\<exists>vs. ws = map Some vs \<and> list_all2 (site_value (mo_structs m) (ValuesInScope names m f)) (bound (ad_argument (au_assertion a))) vs"
proof -
  let ?as = "ad_argument (au_assertion a)"
  have "arg_size 0 ?as = int (length (bound ?as))" using arg_size_indexed [of 0 ?as] assms(2) by (simp add: well_indexed_def)
  with assms(1) obtain is1 where "fill_args (mo_structs m) (ValuesInScope names m f) ?as (replicate (length (bound ?as)) None) = Inr (ws, is1)"
    by (auto simp: CollectArgs_def Let_def E_eq_Inr)
  with fill_args_indexed [of "mo_structs m" "ValuesInScope names m f" ?as "[]" ws is1] assms(2) show ?thesis
    by (simp add: well_indexed_def)
qed

text \<open>The key an event at the site has.\<close>

definition site_key :: "ty list \<Rightarrow> int list \<Rightarrow> u32 \<Rightarrow> int option list" where
  "site_key ts args free = event_key (map Some (zip ts args) @ replicate (TESLA_KEY_SIZE - length args) None) free"

lemma key_slots_indexed:
  "length as = length tvs \<Longrightarrow> indexed_from (length xs) as \<Longrightarrow>
   key_slots m False (zip as tvs) (map Some xs @ replicate k None) = Some (map Some (xs @ tvs) @ replicate (k - length as) None)
     \<or> k < length as"
proof (induction as tvs arbitrary: xs k rule: list_induct2)
  case (Cons a as tv tvs)
  obtain t v where tv: "tv = (t, v)" by (cases tv)
  from Cons.prems have i: "a_index a = Some (int (length xs))" "indexed_from (length (xs @ [tv])) as" by auto
  show ?case
  proof (cases k)
    case (Suc k')
    have u: "(map Some xs @ replicate k None)[length xs := Some tv] = map Some (xs @ [tv]) @ replicate k' None" by (simp add: Suc list_update_append)
    from Cons.IH [OF i(2), of k'] show ?thesis by (auto simp: i(1) tv u [unfolded tv Suc replicate_Suc] Suc)
  qed simp
qed simp

subsection \<open>One site\<close>

definition sname :: "automaton \<Rightarrow> string" where
  "sname a = INSTR_BASE @ ''assertion_'' @ au_name a"

definition sprefix :: "automaton \<Rightarrow> string" where
  "sprefix a = ''[ASRT] automaton '' @ dec_nat (au_id a)"

definition sdecl :: "automaton \<Rightarrow> val list \<Rightarrow> fn" where
  "sdecl a args = \<lparr>fn_name = sname a, fn_params = map type_of args, fn_ret = VoidT, fn_vararg = False,
     fn_linkage = External_l, fn_blocks = []\<rparr>"

definition site_translator :: "automaton \<Rightarrow> nat \<Rightarrow> translator" where
  "site_translator a x = \<lparr>tr_label = ''assertion_reached'', tr_patterns = bound (ad_argument (au_assertion a)), tr_indirect = False,
     tr_free = free_mask (ad_argument (au_assertion a)), tr_action = Do_update a x\<rparr>"

lemma CreateInstrFn_site_view:
  assumes "CreateInstrFn_site sp a args m = Inr (m', t)" and "getFunction m (sname a) = None"
  shows "\<exists>f1 e. t = (sname a, e) \<and> TranslationFn_Create sp (sprefix a) Internal_l (sdecl a args) = Inr (f1, e)
    \<and> getFunction m' = (getFunction m)(sname a \<mapsto> f1) \<and> mo_structs m' = mo_structs m \<and> mo_globals m' = mo_globals m"
proof -
  let ?m = "declare_fn (sname a) (map type_of args) VoidT False m"
  have g: "getFunction ?m = (getFunction m)(sname a \<mapsto> sdecl a args)" using assms(2) by (auto simp: getFunction_declare sdecl_def)
  have nm: "INSTR_BASE @ ''assertion_'' @ au_name a = sname a" "''[ASRT] automaton '' @ dec_nat (au_id a) = sprefix a"
    by (simp_all add: sname_def sprefix_def)
  from assms obtain f1 e where c: "TranslationFn_Create sp (sprefix a) Internal_l (sdecl a args) = Inr (f1, e)"
    "m' = put_fn f1 ?m" "t = (sname a, e)"
    unfolding CreateInstrFn_site_def create_translation_def nm
    by (auto simp: getOrInsertFunction_def E_eq_Inr derefE_def g Let_def split: prod.splits)
  from TranslationFn_Create_name [OF c(1)] have "fn_name f1 = sname a" by (simp add: sdecl_def)
  then have "getFunction m' = (getFunction m)(sname a \<mapsto> f1)" by (auto simp: c(2) getFunction_put g)
  with c show ?thesis by simp
qed

text \<open>The description of an automaton in a module.\<close>

definition described :: "(function_event + field_assignment \<Rightarrow> string option) \<Rightarrow> modul \<Rightarrow> automaton \<Rightarrow> bool" where
  "described ser m a \<longleftrightarrow> (\<exists>g content sunrise sunset lifetime. getGlobalVariable m (au_name a) = Some g
     \<and> gv_init g = Some (Automaton_init content) \<and> al_init (getLifetime a) = Some sunrise \<and> al_cleanup (getLifetime a) = Some sunset
     \<and> lifetime_content ser sunrise sunset = Inr lifetime \<and> automaton_content a lifetime = Inr content)"

lemma BuildAutomatonDescription_view:
  assumes "BuildAutomatonDescription ser a m = Inr m'" and "lifetime_unnamed m (getLifetime a)"
  shows "getFunction m' = getFunction m \<and> mo_structs m' = mo_structs m \<and> described ser m' a"
proof -
  from assms(1) obtain m1 l lifetime content where b: "BuildLifetime ser (getLifetime a) m = Inr (m1, l)" "lifetime_at m1 l = Inr lifetime"
    "automaton_content a lifetime = Inr content"
    and m': "m' = m1\<lparr>mo_globals := filter (\<lambda>g. \<not> (gv_name g = au_name a \<and> gv_linkage g = External_l)) (mo_globals m1)
         @ [\<lparr>gv_name = au_name a, gv_linkage = External_l, gv_type = StructT ''tesla_automaton'', gv_init = Some (Automaton_init content)\<rparr>]\<rparr>"
    by (auto simp: BuildAutomatonDescription_def E_eq_Inr)
  note v = BuildLifetime_view [OF b(1) assms(2)]
  from v obtain sunrise sunset g c where d: "al_init (getLifetime a) = Some sunrise" "al_cleanup (getLifetime a) = Some sunset"
    "global_at (mo_globals m1) l = Some g" "gv_init g = Some (Lifetime_init c)" "lifetime_content ser sunrise sunset = Inr c"
    unfolding describes_def by blast
  then have "lifetime = c" using b(2) by (simp add: lifetime_at_def global_at_def)
  moreover have "find (\<lambda>g. gv_name g = au_name a \<and> gv_linkage g = External_l)
      (filter (\<lambda>g. \<not> (gv_name g = au_name a \<and> gv_linkage g = External_l)) (mo_globals m1)) = None" by (auto simp: find_None_iff)
  then have "getGlobalVariable m' (au_name a) = Some \<lparr>gv_name = au_name a, gv_linkage = External_l, gv_type = StructT ''tesla_automaton'',
      gv_init = Some (Automaton_init content)\<rparr>"
    by (simp add: m' getGlobalVariable_def find_snoc)
  ultimately have "described ser m' a" unfolding described_def using d b(3) by fastforce
  with v show ?thesis by (simp add: m' getFunction_def fun_eq_iff)
qed

lemma replace_site_name [simp]: "fn_name (replace_site n is f) = fn_name f"
  by (simp add: replace_site_def)

lemma CallUpdateState_act: "CallUpdateState a x i = act (Do_update a x) i"
  by (simp add: act_def fun_eq_iff)

lemma AssertTrans_site:
  assumes "AssertTrans a = Inr x"
  shows "x < length (au_classes a) \<and> (\<exists>l as. e_label (au_edge a (hd (au_classes a ! x))) = Assert_t l as)"
proof -
  let ?P = "\<lambda>x. case e_label (au_edge a (hd (au_classes a ! x))) of Assert_t _ _ \<Rightarrow> True | _ \<Rightarrow> False"
  from assms have "find ?P [0..<length (au_classes a)] = Some x" by (auto simp: AssertTrans_def split: option.splits)
  then have "x \<in> set [0..<length (au_classes a)] \<and> ?P x" by (metis find_Some_iff nth_mem)
  then show ?thesis by (auto split: trans_label.splits)
qed

text \<open>The automaton that a call of the pseudo-function names.\<close>

definition site_automaton :: "manifest \<Rightarrow> modul \<Rightarrow> site \<Rightarrow> automaton res" where
  "site_automaton mf m s =
     bindE (derefE ''AssertCall'' (getFunction m (fst s))) (\<lambda>f.
     bindE (derefE ''AssertCall'' (map_of (site_calls f) (snd s))) (\<lambda>operands.
     bindE (ParseAssertionLocation m operands) (FindAutomaton_at mf)))"

lemma ConvertAssertion_view:
  assumes run: "ConvertAssertion ser names sp mf s m = Inr m'" and a: "site_automaton mf m s = Inr a"
    and new: "getFunction m (sname a) = None" and un: "lifetime_unnamed m (getLifetime a)"
  shows "\<exists>f x m1 vs is args f1 e g. getFunction m (fst s) = Some f \<and> AssertTrans a = Inr x \<and> CollectArgs names m1 f a = Inr (vs, is)
    \<and> mo_structs m1 = mo_structs m \<and> all_values vs = Inr args
    \<and> TranslationFn_Create sp (sprefix a) Internal_l (sdecl a args) = Inr (f1, e)
    \<and> add_translators (mo_structs m) e [site_translator a x] f1 = Inr g
    \<and> getFunction m' = (getFunction m)(sname a \<mapsto> g, fst s \<mapsto> replace_site (snd s) (is @ [Call_i (sname a) args]) f)
    \<and> mo_structs m' = mo_structs m \<and> mo_globals m1 = mo_globals m' \<and> described ser m' a"
proof -
  from run a obtain f x m1 vs "is" args m2 t g0 g1 instr where f: "getFunction m (fst s) = Some f" and x: "AssertTrans a = Inr x"
    and m1: "BuildAutomatonDescription ser a m = Inr m1" and vs: "CollectArgs names m1 f a = Inr (vs, is)" "all_values vs = Inr args"
    and m2: "CreateInstrFn_site sp a args m1 = Inr (m2, t)"
    and g0: "getFunction (in_fn (fst s) (replace_site (snd s) (is @ [Call_i (fst t) args])) m2) (fst t) = Some g0"
    and g1: "AddInstrumentation_site (mo_structs m2) a (snd t) g0 = Inr (g1, instr)"
    and m': "m' = in_fn (fst t) (CallUpdateState a x instr) (ExternalDescription a
      (put_fn g1 (in_fn (fst s) (replace_site (snd s) (is @ [Call_i (fst t) args])) m2)))"
    by (auto simp: ConvertAssertion_def site_automaton_def E_eq_Inr derefE_def Let_def split: option.splits)
  note b = BuildAutomatonDescription_view [OF m1 un]
  from CreateInstrFn_site_view [OF m2] b new obtain f1 e where c: "t = (sname a, e)"
    "TranslationFn_Create sp (sprefix a) Internal_l (sdecl a args) = Inr (f1, e)" "getFunction m2 = (getFunction m)(sname a \<mapsto> f1)"
    "mo_structs m2 = mo_structs m" "mo_globals m2 = mo_globals m1" by auto
  have ne: "fst s \<noteq> sname a" using f new by auto
  let ?m3 = "in_fn (fst s) (replace_site (snd s) (is @ [Call_i (sname a) args])) m2"
  have m3: "getFunction ?m3 = (getFunction m)(sname a \<mapsto> f1, fst s \<mapsto> replace_site (snd s) (is @ [Call_i (sname a) args]) f)"
    using c(3) f ne by (auto simp: getFunction_in)
  then have "g0 = f1" using g0 c(1) ne by simp
  with g1 c(1,4) have g1': "AddInstrumentation (mo_structs m) ''assertion_reached'' (bound (ad_argument (au_assertion a))) False
      (free_mask (ad_argument (au_assertion a))) e f1 = Inr (g1, instr)"
    by (simp add: AddInstrumentation_site_def site_patterns_eq)
  then have tr: "add_translators (mo_structs m) e [site_translator a x] f1 = Inr (act (Do_update a x) instr g1)"
    by (simp add: add_translator_def site_translator_def E_eq_Inr)
  have n1: "fn_name g1 = sname a" using AddInstrumentation_name [OF g1'] TranslationFn_Create_name [OF c(2)] by (simp add: sdecl_def)
  let ?m4 = "put_fn g1 ?m3"
  have "getGlobalVariable ?m4 (au_name a) = getGlobalVariable m1 (au_name a)" using c(5) by (simp add: getGlobalVariable_def)
  then have ext: "ExternalDescription a ?m4 = ?m4" using b by (auto simp: ExternalDescription_def described_def)
  have m4: "m' = in_fn (sname a) (act (Do_update a x) instr) ?m4" using m' c(1) ext by (simp add: CallUpdateState_act)
  have "getFunction m' = (getFunction m)(sname a \<mapsto> act (Do_update a x) instr g1, fst s \<mapsto> replace_site (snd s) (is @ [Call_i (sname a) args]) f)"
    using ne n1 by (auto simp: m4 getFunction_in getFunction_put m3)
  moreover have "mo_structs m' = mo_structs m" "mo_globals m1 = mo_globals m'" using c(4,5) by (simp_all add: m4)
  moreover from this(2) b have "described ser m' a" unfolding described_def getGlobalVariable_def by simp
  ultimately show ?thesis using f x vs c(2) tr b by blast
qed

subsection \<open>Calling the instrumentation\<close>

lemma site_translates:
  assumes x: "add_translators structs e [site_translator a x] f1 = Inr g"
    and c: "TranslationFn_Create sp (sprefix a) Internal_l (sdecl a vals) = Inr (f1, e)"
    and w: "well_indexed (ad_argument (au_assertion a))" and n: "length (bound (ad_argument (au_assertion a))) = length vals"
    and b: "\<forall>p \<in> set (bound (ad_argument (au_assertion a))). a_type p \<noteq> Constant_arg" and k: "length vals \<le> TESLA_KEY_SIZE"
    and len: "length args = length vals"
  shows "call_fn mc args g = Some (debug_calls mc sp (sprefix a) (map type_of vals) args @
    [Observed ''tesla_update_state'' [Int_a (context_code (ad_context (au_assertion a))), Int_a (mc_global mc (au_name a)),
       Int_a (int x mod 2 ^ 32), Key_a (site_key (map type_of vals) args (free_mask (ad_argument (au_assertion a))))]])"
proof -
  let ?as = "bound (ad_argument (au_assertion a))" and ?tvs = "zip (map type_of vals) args"
  have d: "fn_blocks (sdecl a vals) = []" "fn_params (sdecl a vals) = map type_of vals" by (simp_all add: sdecl_def)
  have l: "length ?as = length ?tvs" using n len by simp
  have "list_all (\<lambda>(p, t, v). pattern_holds p t v) (zip ?as ?tvs)"
    using b by (auto simp: list_all_iff pattern_holds_def dest!: set_zip_leftD)
  moreover have "key_slots mc False (zip ?as ?tvs) (replicate TESLA_KEY_SIZE None) = Some (map Some ?tvs @ replicate (TESLA_KEY_SIZE - length args) None)"
    using key_slots_indexed [OF l, of "[]" mc TESLA_KEY_SIZE] w k n len by (auto simp: well_indexed_def)
  ultimately have "translate mc (map type_of vals) args (site_translator a x)
      = Some [action_call mc (site_key (map type_of vals) args (free_mask (ad_argument (au_assertion a)))) (Do_update a x)]"
    by (simp add: translate_def site_translator_def site_key_def)
  with translators_call [OF c d(1) x, of args mc] len d(2) show ?thesis by (simp add: action_call_def)
qed

lemma site_value_variable:
  assumes "site_value structs scope p v"
  shows "a_type p \<noteq> Constant_arg"
proof -
  from assms obtain name where "BaseName p = Inr name" by (auto simp: site_value_def)
  then show ?thesis by (subst (asm) BaseName.simps) (auto split: arg_type.splits)
qed

lemma place_key_size: "place_key ss ind i p v ks f = Inr r \<Longrightarrow> a_index p = Some j \<Longrightarrow> j < int TESLA_KEY_SIZE"
  by (auto simp: place_key_def E_eq_Inr)

lemma pattern_loop_size:
  "pattern_loop ss lab ind e i n (zip as vs) ks f = Inr r \<Longrightarrow> length as = length vs \<Longrightarrow> indexed_from j as \<Longrightarrow> as \<noteq> [] \<Longrightarrow> j + length as \<le> TESLA_KEY_SIZE"
proof (induction as arbitrary: vs n ks f j)
  case (Cons a as)
  then obtain v vs' where v: "vs = v # vs'" by (cases vs) auto
  from Cons.prems(1) v obtain f1 ks1 f2 where s: "place_key ss ind i a v ks f1 = Inr (ks1, f2)"
    "pattern_loop ss lab ind e i (Suc n) (zip as vs') ks1 f2 = Inr r" by (auto simp: E_eq_Inr)
  have "j < TESLA_KEY_SIZE" using place_key_size [OF s(1)] Cons.prems(3) by simp
  moreover have "as \<noteq> [] \<Longrightarrow> Suc j + length as \<le> TESLA_KEY_SIZE" using Cons.IH [OF s(2), of "Suc j"] Cons.prems(2,3) v by simp
  ultimately show ?case by (cases "as = []") simp_all
qed simp

lemma site_translator_size:
  assumes "add_translators structs e [site_translator a x] f1 = Inr g" and "well_indexed (ad_argument (au_assertion a))"
  shows "length (bound (ad_argument (au_assertion a))) \<le> TESLA_KEY_SIZE"
proof (cases "bound (ad_argument (au_assertion a)) = []")
  case False
  from assms(1) obtain lab e' i f2 r where l: "pattern_loop structs lab False e' i 0 (zip (bound (ad_argument (au_assertion a))) (fn_args f1))
      (replicate TESLA_KEY_SIZE None) f2 = Inr r" "length (bound (ad_argument (au_assertion a))) = length (fn_params f1)"
    by (auto simp: add_translator_def AddInstrumentation_def site_translator_def case_prod_unfold Let_def E_eq_Inr)
  have "length (bound (ad_argument (au_assertion a))) = length (fn_args f1)" using l(2) by (simp add: fn_args_def)
  from pattern_loop_size [OF l(1) this _ False, of 0] assms(2) show ?thesis by (simp add: well_indexed_def)
qed simp

subsection \<open>An example\<close>

text \<open>The assertion of the compiler's example at line 7 of \<open>f.c\<close>, with variables.\<close>

definition ex_site_var :: "string \<Rightarrow> int \<Rightarrow> bool \<Rightarrow> argument" where
  "ex_site_var x i free = Argument Variable_arg (Some i) (Some x) (Some free) None None None None"

definition ex_site_file :: "argument list \<Rightarrow> manifest_file" where
  "ex_site_file as = \<lparr>mf_automaton = [(ex_description ex_assertion)\<lparr>ad_argument := as\<rparr>], mf_root = [ex_usage]\<rparr>"

definition ex_site_load :: "argument list \<Rightarrow> (string \<times> manifest option) res" where
  "ex_site_load as = manifest_load (\<lambda>_. Some (ex_site_file as)) (\<lambda>_. None) 0 True Deterministic ''.tesla'' (Inr ''automaton'')"

definition ex_site_main :: fn where
  "ex_site_main = \<lparr>fn_name = ''main'', fn_params = [], fn_ret = VoidT, fn_vararg = False, fn_linkage = External_l,
     fn_blocks = [(0, \<lparr>bb_name = ''entry'', bb_insts = [Alloca_i ''x'' Int32T, Alloca_i ''y'' Int32T,
       Program_call 2 (Some INLINE_ASSERTION) VoidT [ConstInt 64 0, Global ''str'' (IntT 8), ConstInt 32 7, ConstInt 32 0]],
       bb_term = Some (Ret None)\<rparr>)]\<rparr>"

definition ex_site_module :: modul where
  "ex_site_module = \<lparr>mo_fns = [ex_site_main], mo_globals = [\<lparr>gv_name = ''str'', gv_linkage = Private_l, gv_type = IntT 8,
     gv_init = Some (String_init (''f.c'' @ [CHR 0x00]))\<rparr>], mo_structs = []\<rparr>"

definition ex_convert :: "argument list \<Rightarrow> (automaton \<times> modul) res" where
  "ex_convert as = bindE (ex_site_load as) (\<lambda>(_, r). bindE (derefE ''Manifest'' r) (\<lambda>mf.
     bindE (site_automaton mf ex_site_module (''main'', 2)) (\<lambda>a.
     bindE (ConvertAssertion ex_serialise (\<lambda>_. []) True mf (''main'', 2) ex_site_module) (\<lambda>m. Inr (a, m)))))"

definition ex_site_ready :: "automaton \<Rightarrow> bool" where
  "ex_site_ready a = (well_indexed (ad_argument (au_assertion a)) \<and> getFunction ex_site_module (sname a) = None
     \<and> lifetime_unnamed ex_site_module (getLifetime a) \<and> ad_context (au_assertion a) = Thread_context
     \<and> bound (ad_argument (au_assertion a)) = [ex_site_var ''x'' 0 False])"

lemma ex_site_converts: "case ex_convert [ex_site_var ''x'' 0 False] of Inr (a, m) \<Rightarrow> ex_site_ready a | Inl _ \<Rightarrow> False"
  by code_simp

subsection \<open>The property\<close>

text \<open>C9.  An assertion site is converted correctly, if the bound variables of the assertion are numbered in
  the order in which they are listed.  The call of the pseudo-function is replaced by a call of the
  assertion's instrumentation function with the values of these variables at the site; calling that
  function calls libtesla once, for the automaton of the location and the symbol of its site, with the
  key that has these values and the mask of the free variables; the module has the description of the
  automaton with its lifetime; no other function is changed.\<close>

theorem site_converted:
  assumes "ConvertAssertion ser names suppress mf s m = Inr m'" and "site_automaton mf m s = Inr a"
    and "well_indexed (ad_argument (au_assertion a))"
    and "getFunction m (sname a) = None" and "lifetime_unnamed m (getLifetime a)"
  shows "\<exists>f x vals insts g m1. let as = ad_argument (au_assertion a) in
      getFunction m (fst s) = Some f \<and> getFunction m' (fst s) = Some (replace_site (snd s) (insts @ [Call_i (sname a) vals]) f)
    \<and> mo_structs m1 = mo_structs m \<and> mo_globals m1 = mo_globals m' \<and> list_all2 (site_value (mo_structs m) (ValuesInScope names m1 f)) (bound as) vals
    \<and> x < length (au_classes a) \<and> (\<exists>l bs. e_label (au_edge a (hd (au_classes a ! x))) = Assert_t l bs)
    \<and> getFunction m' (sname a) = Some g
    \<and> (\<forall>mc args. length args = length vals \<longrightarrow> call_fn mc args g = Some (debug_calls mc suppress (sprefix a) (map type_of vals) args @
        [Observed ''tesla_update_state'' [Int_a (context_code (ad_context (au_assertion a))), Int_a (mc_global mc (au_name a)),
           Int_a (int x mod 2 ^ 32), Key_a (site_key (map type_of vals) args (free_mask as))]]))
    \<and> described ser m' a
    \<and> (\<forall>n. n \<noteq> fst s \<longrightarrow> n \<noteq> sname a \<longrightarrow> getFunction m' n = getFunction m n)"
proof -
  from ConvertAssertion_view [OF assms(1,2,4,5)] obtain f x m1 vs "is" args f1 e g where v: "getFunction m (fst s) = Some f" "AssertTrans a = Inr x"
    "CollectArgs names m1 f a = Inr (vs, is)" "mo_structs m1 = mo_structs m" "all_values vs = Inr args"
    "TranslationFn_Create suppress (sprefix a) Internal_l (sdecl a args) = Inr (f1, e)"
    "add_translators (mo_structs m) e [site_translator a x] f1 = Inr g"
    "getFunction m' = (getFunction m)(sname a \<mapsto> g, fst s \<mapsto> replace_site (snd s) (is @ [Call_i (sname a) args]) f)"
    "mo_globals m1 = mo_globals m'" "described ser m' a" by blast
  have ne: "sname a \<noteq> fst s" using v(1) assms(4) by auto
  let ?as = "bound (ad_argument (au_assertion a))"
  from CollectArgs_indexed [OF v(3) assms(3)] v(4,5) have c: "list_all2 (site_value (mo_structs m) (ValuesInScope names m1 f)) ?as args"
    by (auto simp: all_values_Some)
  have n: "length ?as = length args" using c by (rule list_all2_lengthD)
  have b: "\<forall>p \<in> set ?as. a_type p \<noteq> Constant_arg" using c site_value_variable by (metis in_set_conv_nth list_all2_conv_all_nth)
  note call = site_translates [OF v(7,6) assms(3) n b]
  have k: "length args \<le> TESLA_KEY_SIZE" using site_translator_size [OF v(7) assms(3)] n by simp
  have "getFunction m' (sname a) = Some g" "getFunction m' (fst s) = Some (replace_site (snd s) (is @ [Call_i (sname a) args]) f)"
    using v(8) ne by simp_all
  moreover have "\<forall>n. n \<noteq> fst s \<longrightarrow> n \<noteq> sname a \<longrightarrow> getFunction m' n = getFunction m n" using v(8) by simp
  ultimately show ?thesis using v(1,4,9,10) c AssertTrans_site [OF v(2)] call [OF k] unfolding Let_def by blast
qed

theorem site_converted_witness:
  "\<exists>a m' g t k. ex_convert [ex_site_var ''x'' 0 False] = Inr (a, m') \<and> getFunction m' (sname a) = Some g \<and> described ex_serialise m' a
     \<and> call_fn ex_machine [42] g = Some [Observed ''tesla_update_state'' [Int_a 1, Int_a (mc_global ex_machine (au_name a)), Int_a k,
         Key_a (site_key [t] [42] (free_mask (ad_argument (au_assertion a))))]]"
proof -
  from ex_site_converts obtain a m' where r: "ex_convert [ex_site_var ''x'' 0 False] = Inr (a, m')" "ex_site_ready a" by (auto split: sum.splits)
  then obtain mf where c: "site_automaton mf ex_site_module (''main'', 2) = Inr a"
    "ConvertAssertion ex_serialise (\<lambda>_. []) True mf (''main'', 2) ex_site_module = Inr m'"
    by (auto simp: ex_convert_def E_eq_Inr)
  from r(2) have h: "well_indexed (ad_argument (au_assertion a))" "getFunction ex_site_module (sname a) = None"
    "lifetime_unnamed ex_site_module (getLifetime a)" "ad_context (au_assertion a) = Thread_context"
    "bound (ad_argument (au_assertion a)) = [ex_site_var ''x'' 0 False]" by (simp_all add: ex_site_ready_def)
  from site_converted [OF c(2,1) h(1-3)] h(5) obtain x v g where g: "getFunction m' (sname a) = Some g" "described ex_serialise m' a"
    and call: "\<And>mc args. length args = 1 \<Longrightarrow> call_fn mc args g = Some (debug_calls mc True (sprefix a) [type_of v] args @
        [Observed ''tesla_update_state'' [Int_a (context_code (ad_context (au_assertion a))), Int_a (mc_global mc (au_name a)),
           Int_a (int x mod 2 ^ 32), Key_a (site_key [type_of v] args (free_mask (ad_argument (au_assertion a))))]])"
    by (auto simp: Let_def list_all2_Cons1)
  have "call_fn ex_machine [42] g = Some [Observed ''tesla_update_state'' [Int_a 1, Int_a (mc_global ex_machine (au_name a)), Int_a (int x mod 2 ^ 32),
      Key_a (site_key [type_of v] [42] (free_mask (ad_argument (au_assertion a))))]]"
    using call [of "[42]" ex_machine] by (simp add: debug_calls_def h(4) context_code_def TESLA_CONTEXT_THREAD_def)
  with r(1) g show ?thesis by blast
qed

subsection \<open>Variables that are numbered otherwise\<close>

text \<open>The space for the values is computed as if the bound variables had the lowest numbers: with a free
  variable before a bound one, the value is written past the end.\<close>

lemma free_variable_overruns:
  "ex_convert [ex_site_var ''x'' 0 True, ex_site_var ''y'' 1 False] = Inl (Undefined ''Args[Arg.index()]'')"
  by code_simp

end
