(* ===== verification/Tesla_Clang.thy ===== *)
theory Tesla_Clang
  imports Tesla_IR
begin

text \<open>
  C as the analyser sees it: the declarations, types, expressions and statements of Clang's syntax
  tree that \<open>tesla/analyser\<close> tells apart.  A declaration has a number, which stands for its address.
  Everything else that Clang computes is a parameter, the record \<open>clang\<close>: the type of an expression,
  the value of an integer constant expression, the macro that a constant comes from.
\<close>

subsection \<open>Types and declarations\<close>

text \<open>A pointer type has the name of the structure that it points to, if any.  A structure has its
  members; one that is not a field is \<open>None\<close>.  The type that a name was defined for is below
  \<open>Typedef_c\<close>, the one written with a keyword (\<open>struct s\<close>, \<open>enum e\<close>) below \<open>Elaborated_c\<close>.\<close>

datatype ctype =
    Void_c
  | Basic_c
  | Pointer_c "string option"
  | Record_c bool string "cdecl option list" \<comment> \<open>whether it is a structure and not a union, its name\<close>
  | Elaborated_c ctype
  | Typedef_c ctype
and cdecl =
    Var_d nat string ctype
  | Enum_d nat string nat int \<comment> \<open>the width and the value\<close>
  | Field_d nat string ctype nat \<comment> \<open>the index in its structure\<close>
  | Fun_d nat string ctype "cdecl list" \<comment> \<open>the type of the result, the parameters\<close>

fun getName :: "cdecl \<Rightarrow> string" where
  "getName (Var_d _ x _) = x"
| "getName (Enum_d _ x _ _) = x"
| "getName (Field_d _ x _ _) = x"
| "getName (Fun_d _ x _ _) = x"

text \<open>The type of a declaration.  An enumerator has a type without parts.\<close>

fun getType :: "cdecl \<Rightarrow> ctype" where
  "getType (Var_d _ _ t) = t"
| "getType (Enum_d _ _ _ _) = Basic_c"
| "getType (Field_d _ _ t _) = t"
| "getType (Fun_d _ _ _ _) = Basic_c"

fun getResultType :: "cdecl \<Rightarrow> ctype" where
  "getResultType (Fun_d _ _ t _) = t"
| "getResultType d = getType d"

fun params_of :: "cdecl \<Rightarrow> cdecl list" where
  "params_of (Fun_d _ _ _ ps) = ps"
| "params_of d = []"

fun getAsStructureType :: "ctype \<Rightarrow> string option" where
  "getAsStructureType (Record_c struct x _) = (if struct then Some x else None)"
| "getAsStructureType (Elaborated_c t) = getAsStructureType t"
| "getAsStructureType (Typedef_c t) = getAsStructureType t"
| "getAsStructureType _ = None"

fun isVoidType :: "ctype \<Rightarrow> bool" where
  "isVoidType Void_c = True"
| "isVoidType (Elaborated_c t) = isVoidType t"
| "isVoidType (Typedef_c t) = isVoidType t"
| "isVoidType _ = False"

subsection \<open>Expressions and statements\<close>

datatype binary_op = BO_Assign | BO_AddAssign | BO_SubAssign | BO_OtherAssign | BO_EQ | BO_LAnd | BO_LOr | BO_Comma | BO_Other

datatype unary_op = UO_PreInc | UO_PostInc | UO_PreDec | UO_PostDec | UO_AddrOf | UO_Extension | UO_Other

text \<open>The operators of \<open>CompoundAssignOperator\<close>.\<close>

definition compound_assign :: "binary_op \<Rightarrow> bool" where
  "compound_assign op = (op \<in> {BO_AddAssign, BO_SubAssign, BO_OtherAssign})"

text \<open>A method of Objective-C: its selector, the type of its result and its parameters.\<close>

type_synonym objc_method = "string \<times> ctype \<times> cdecl list"

datatype cexpr =
    Stmt_e "cstmt list"
  | Binary_e binary_op cexpr cexpr
  | Unary_e unary_op cexpr
  | Call_e "cdecl option" "cexpr list" \<comment> \<open>the declaration that is called, if it is called by name\<close>
  | Message_e "objc_method option" receiver "cexpr list"
  | Ref_e cdecl
  | Member_e cexpr cdecl
  | Int_e nat int \<comment> \<open>the width and the value of a literal\<close>
  | String_e string
  | Choose_e cexpr \<comment> \<open>the expression that was chosen\<close>
  | Implicit_e cexpr
  | Paren_e cexpr
  | Cast_e cexpr
  | Other_e nat
and receiver = Class_r string | Instance_r cexpr | Super_r
and cstmt =
    Compound_s "cstmt list"
  | Return_s "cexpr option"
  | Decl_s "cdecl list"
  | Expr_s cexpr
  | Other_s

text \<open>A call through a variable is not direct.\<close>

fun getDirectCallee :: "cdecl option \<Rightarrow> cdecl option" where
  "getDirectCallee (Some (Fun_d n x t ps)) = Some (Fun_d n x t ps)"
| "getDirectCallee _ = None"

text \<open>An implicit cast is the only implicit node of C.\<close>

fun IgnoreImplicit :: "cexpr \<Rightarrow> cexpr" where
  "IgnoreImplicit (Implicit_e e) = IgnoreImplicit e"
| "IgnoreImplicit e = e"

fun IgnoreParenCasts :: "cexpr \<Rightarrow> cexpr" where
  "IgnoreParenCasts (Implicit_e e) = IgnoreParenCasts e"
| "IgnoreParenCasts (Paren_e e) = IgnoreParenCasts e"
| "IgnoreParenCasts (Cast_e e) = IgnoreParenCasts e"
| "IgnoreParenCasts (Unary_e op e) = (if op = UO_Extension then IgnoreParenCasts e else Unary_e op e)"
| "IgnoreParenCasts e = e"

lemma size_IgnoreImplicit: "size (IgnoreImplicit e) \<le> size e"
  by (induction e rule: IgnoreImplicit.induct) auto

lemma size_IgnoreParenCasts: "size (IgnoreParenCasts e) \<le> size e"
  by (induction e rule: IgnoreParenCasts.induct) auto

lemma size_stripped: "IgnoreParenCasts e = p \<Longrightarrow> size p \<le> size e"
  using size_IgnoreParenCasts by blast

definition IgnoreImpCasts :: "cexpr \<Rightarrow> cexpr" where
  "IgnoreImpCasts e = IgnoreImplicit e"

subsection \<open>What Clang computes\<close>

record clang =
  cl_type :: "cexpr \<Rightarrow> ctype"
  cl_ice :: "cexpr \<Rightarrow> int option" \<comment> \<open>the value of an integer constant expression\<close>
  cl_macro :: "cexpr \<Rightarrow> string option" \<comment> \<open>the macro that is the constant\<close>
  cl_pointee :: "ctype \<Rightarrow> string option" \<comment> \<open>the identifier of what a pointer type points to\<close>
  cl_apint :: "nat \<times> int" \<comment> \<open>width and value of an \<open>APInt\<close> that nothing was assigned to\<close>

end
