(* ===== verification/Tesla_Parser.thy ===== *)
theory Tesla_Parser
  imports Tesla_Clang
begin

text \<open>
  The analyser's parser (\<open>tesla/analyser/Parser.cpp\<close>): it turns the C expressions that the assertion
  macros expand to into the messages of a manifest.

  The parser's state is a record.  A function that returns a boolean and fills a message gives the
  message, or \<open>None\<close> after an error was reported; the caller then discards what it has.  A failed
  \<open>assert\<close> and a null pointer are errors of the result type.

  Arguments are created by a factory: either it adds an argument to the event whenever it is called,
  or it returns the same object again (\<open>single\<close>).  What the factory sets on each argument is the
  argument that it starts from.  The parser keeps pointers to the arguments it has registered; an object
  that is written again is therefore also changed there.
\<close>

subsection \<open>The parser's state\<close>

record flags =
  fl_context :: call_context \<comment> \<open>\<open>FnInstrContext\<close>\<close>
  fl_or :: "bool_op option" \<comment> \<open>\<open>OrOperator\<close>, if it is valid\<close>
  fl_strict :: bool \<comment> \<open>\<open>StrictMode\<close>\<close>

record pstate =
  ps_assigned :: "(cdecl \<times> cexpr) list" \<comment> \<open>\<open>FieldAssignments\<close>\<close>
  ps_free :: "cdecl list" \<comment> \<open>\<open>FreeVariables\<close>\<close>
  ps_refs :: "argument list" \<comment> \<open>\<open>References\<close>\<close>
  ps_diags :: "string list"

type_synonym 'a parser = "pstate \<Rightarrow> ('a option \<times> pstate) res"

definition retP :: "'a \<Rightarrow> 'a parser" where
  "retP x s = Inr (Some x, s)"

definition bindP :: "'a parser \<Rightarrow> ('a \<Rightarrow> 'b parser) \<Rightarrow> 'b parser" where
  "bindP p f s = bindE (p s) (\<lambda>(r, s'). case r of None \<Rightarrow> Inr (None, s') | Some x \<Rightarrow> f x s')"

definition failP :: "abort \<Rightarrow> 'a parser" where
  "failP e s = Inl e"

definition ReportError :: "string \<Rightarrow> unit parser" where
  "ReportError msg s = Inr (Some (), s\<lparr>ps_diags := ps_diags s @ [''TESLA: '' @ msg]\<rparr>)"

text \<open>An error is reported and the function returns false.\<close>

definition reject :: "string \<Rightarrow> 'a parser" where
  "reject msg s = Inr (None, s\<lparr>ps_diags := ps_diags s @ [''TESLA: '' @ msg]\<rparr>)"

subsection \<open>Literals\<close>

definition int32_of :: "int \<Rightarrow> int" where
  "int32_of v = (v + 2 ^ 31) mod 2 ^ 32 - 2 ^ 31"

definition int64_of :: "int \<Rightarrow> int" where
  "int64_of v = (v + 2 ^ 63) mod 2 ^ 64 - 2 ^ 63"

text \<open>The value of an integer of a given width, without its sign, and at most 64 bits of it.\<close>

definition limited_value :: "nat \<times> int \<Rightarrow> int" where
  "limited_value wv = min (snd wv mod 2 ^ fst wv) (2 ^ 64 - 1)"

definition ParseStringLiteral :: "cexpr \<Rightarrow> string parser" where
  "ParseStringLiteral e = (case IgnoreImplicit e of
     String_e x \<Rightarrow> retP x
   | _ \<Rightarrow> bindP (ReportError ''expected string literal'') (\<lambda>_. retP []))"

definition ParseIntegerLiteral :: "clang \<Rightarrow> cexpr \<Rightarrow> (nat \<times> int) parser" where
  "ParseIntegerLiteral cx e = (case IgnoreImplicit e of
     Int_e w v \<Rightarrow> retP (w, v)
   | _ \<Rightarrow> bindP (ReportError ''expected integer literal'') (\<lambda>_. retP (cl_apint cx)))"

text \<open>The source from the position of the text up to the first semicolon, of 1000 characters.\<close>

definition FindOriginalSource :: "string \<Rightarrow> string res" where
  "FindOriginalSource txt =
     (let raw = take 1000 txt in
      if CHR '';'' \<in> set raw then Inr (takeWhile (\<lambda>c. c \<noteq> CHR '';'') raw @ '';'')
      else if length txt < 1000 then Inl (Undefined ''Raw'')
      else Inr raw)"

subsection \<open>Arguments\<close>

text \<open>A new message; the type of an argument reads as the first one while it is not set.\<close>

definition new_argument :: argument where
  "new_argument = Argument Constant_arg None None None None None None None"

fun set_index :: "int \<Rightarrow> argument \<Rightarrow> argument" where
  "set_index i (Argument t _ x fr v m ind fd) = Argument t (Some i) x fr v m ind fd"

fun set_type :: "arg_type \<Rightarrow> argument \<Rightarrow> argument" where
  "set_type t (Argument _ i x fr v m ind fd) = Argument t i x fr v m ind fd"

fun set_arg_name :: "string \<Rightarrow> argument \<Rightarrow> argument" where
  "set_arg_name x (Argument t i _ fr v m ind fd) = Argument t i (Some x) fr v m ind fd"

fun set_free :: "argument \<Rightarrow> argument" where
  "set_free (Argument t i x _ v m ind fd) = Argument t i x (Some True) v m ind fd"

fun set_value :: "int \<Rightarrow> argument \<Rightarrow> argument" where
  "set_value v (Argument t i x fr _ m ind fd) = Argument t i x fr (Some v) m ind fd"

fun set_constantmatch :: "match_type \<Rightarrow> argument \<Rightarrow> argument" where
  "set_constantmatch m (Argument t i x fr v _ ind fd) = Argument t i x fr v (Some m) ind fd"

fun set_indirection :: "argument \<Rightarrow> argument \<Rightarrow> argument" where
  "set_indirection b (Argument t i x fr v m _ fd) = Argument t i x fr v m (Some b) fd"

fun set_field :: "struct_field \<Rightarrow> argument \<Rightarrow> argument" where
  "set_field f (Argument t i x fr v m ind _) = Argument t i x fr v m ind (Some f)"

text \<open>The position of the first reference that is equal to the argument, or the argument itself.\<close>

definition reference_pos :: "nat option \<Rightarrow> argument \<Rightarrow> argument list \<Rightarrow> nat" where
  "reference_pos own a refs = (case find (\<lambda>j. own = Some j \<or> refs ! j = set_index (int j) a) [0..<length refs] of
     Some j \<Rightarrow> j | None \<Rightarrow> length refs)"

text \<open>\<open>own\<close> is the position of the object among the references, if it is there already.\<close>

definition RegisterArg :: "nat option \<Rightarrow> argument \<Rightarrow> (argument \<times> nat option) parser" where
  "RegisterArg own a s =
     bindE (assertE ''A->type() != Argument::Any'' (a_type a \<noteq> Any_arg)) (\<lambda>_.
     bindE (assertE ''A->type() != Argument::Constant'' (a_type a \<noteq> Constant_arg)) (\<lambda>_.
     let refs = ps_refs s; pos = reference_pos own a refs; a' = set_index (int pos) a;
         refs1 = (case own of None \<Rightarrow> refs | Some k \<Rightarrow> refs[k := a'])
     in if pos = length refs then Inr (Some (a', Some pos), s\<lparr>ps_refs := refs1 @ [a']\<rparr>)
        else Inr (Some (a', own), s\<lparr>ps_refs := refs1\<rparr>)))"

text \<open>The arguments that a factory has made, and where the last one is registered.\<close>

type_synonym made = "argument list \<times> nat option"

definition put_arg :: "bool \<Rightarrow> argument \<Rightarrow> nat option \<Rightarrow> made \<Rightarrow> made" where
  "put_arg single a own acc = (if single then ([a], own) else (fst acc @ [a], None))"

definition finish_arg :: "bool \<Rightarrow> bool \<Rightarrow> argument \<Rightarrow> made \<Rightarrow> made parser" where
  "finish_arg single dnr a acc =
     (if dnr then retP (put_arg single a (snd acc) acc)
      else bindP (RegisterArg (snd acc) a) (\<lambda>(a', own). retP (put_arg single a' own acc)))"

text \<open>An argument that is a declaration.  A structure is taken apart into its fields.\<close>

function ParseArg_decl :: "bool \<Rightarrow> argument \<Rightarrow> bool \<Rightarrow> bool \<Rightarrow> cdecl \<Rightarrow> made \<Rightarrow> made parser"
  and ParseArg_fields :: "bool \<Rightarrow> argument \<Rightarrow> bool \<Rightarrow> bool \<Rightarrow> cdecl option list \<Rightarrow> made \<Rightarrow> made parser" where
  "ParseArg_decl single tmpl any dnr d acc = (\<lambda>s.
     let tmpl' = (if d \<in> set (ps_free s) then set_free tmpl else tmpl);
         t = (case getType d of Typedef_c t \<Rightarrow> t | t \<Rightarrow> t)
     in case t of
       Elaborated_c r \<Rightarrow>
         (case r of
            Record_c _ _ ds \<Rightarrow> ParseArg_fields single tmpl' any dnr ds acc s
          | _ \<Rightarrow> Inl (Assertion ''StructTy''))
     | _ \<Rightarrow>
         (let a = set_arg_name (getName d) tmpl' in
          case d of
            Enum_d _ _ w v \<Rightarrow> retP (put_arg single (set_value (int64_of (limited_value (w, v))) (set_type Constant_arg a)) None acc) s
          | _ \<Rightarrow>
              if any then retP (put_arg single (set_type Any_arg a) None acc) s
              else finish_arg single dnr (set_type Variable_arg a) acc s))"
| "ParseArg_fields single tmpl any dnr [] acc = retP acc"
| "ParseArg_fields single tmpl any dnr (None # ds) acc = failP (Assertion ''Field'')"
| "ParseArg_fields single tmpl any dnr (Some d # ds) acc =
     bindP (ParseArg_decl single tmpl any dnr d acc) (\<lambda>acc'. ParseArg_fields single tmpl any dnr ds acc')"
  by pat_completeness auto
termination
proof (relation "measure (\<lambda>x. case x of Inl (_, _, _, _, d, _) \<Rightarrow> size d | Inr (_, _, _, _, ds, _) \<Rightarrow> size_list (size_option size) ds)", goal_cases)
  case (2 single tmpl any dnr d acc s tmpl' t r b x ds)
  then show ?case by (cases d) (auto split: ctype.splits)
qed auto

text \<open>The names that have a meaning in an assertion.\<close>

definition FLAGS :: string where "FLAGS = ''__tesla_flags''"
definition MASK :: string where "MASK = ''__tesla_mask''"
definition ANY :: string where "ANY = ''__tesla_any''"
definition IGNORE_EVENT :: string where "IGNORE_EVENT = ''__tesla_ignore''"
definition ASSERTION_SITE :: string where "ASSERTION_SITE = ''__tesla_assertion_site''"
definition GLOBAL :: string where "GLOBAL = ''__tesla_global''"
definition PERTHREAD :: string where "PERTHREAD = ''__tesla_perthread''"

text \<open>The structure that the base of a member expression is, or points to.\<close>

definition base_structure :: "ctype \<Rightarrow> string option" where
  "base_structure t = (case t of Pointer_c p \<Rightarrow> p | _ \<Rightarrow> getAsStructureType t)"

definition only_arg :: "argument list \<Rightarrow> argument" where
  "only_arg xs = (case xs of [] \<Rightarrow> new_argument | x # _ \<Rightarrow> x)"

definition named_constant :: "string option \<Rightarrow> int \<Rightarrow> argument \<Rightarrow> argument" where
  "named_constant x v tmpl =
     (let a = set_value (int64_of v) (set_type Constant_arg tmpl) in case x of None \<Rightarrow> a | Some n \<Rightarrow> set_arg_name n a)"

definition register_if :: "bool \<Rightarrow> argument \<Rightarrow> argument list parser" where
  "register_if dnr a = (if dnr then retP [a] else bindP (RegisterArg None a) (\<lambda>(a', _). retP [a']))"

text \<open>An argument that is an expression.  The argument of \<open>flags\<close> and \<open>bitmask\<close> is taken as it is
  written; others without their parentheses and casts.\<close>

function ParseArg :: "clang \<Rightarrow> bool \<Rightarrow> argument \<Rightarrow> bool \<Rightarrow> cexpr \<Rightarrow> argument list parser"
  and arg_value :: "clang \<Rightarrow> bool \<Rightarrow> argument \<Rightarrow> bool \<Rightarrow> cexpr \<Rightarrow> argument list parser"
  and ParseStructField :: "clang \<Rightarrow> bool \<Rightarrow> cexpr \<Rightarrow> cdecl \<Rightarrow> struct_field parser" where
  "ParseArg cx single tmpl dnr e =
     (case IgnoreParenCasts e of
        Choose_e c \<Rightarrow> ParseArg cx single tmpl dnr c
      | Call_e callee args \<Rightarrow>
          (case getDirectCallee callee of
             None \<Rightarrow> reject ''expected TESLA modifier''
           | Some f \<Rightarrow>
               if getName f = FLAGS \<or> getName f = MASK then
                 (case args of
                    [x] \<Rightarrow> arg_value cx single (set_constantmatch (if getName f = FLAGS then Flags_match else Mask_match) tmpl) dnr x
                  | _ \<Rightarrow> reject ''expected one argument'')
               else if take (length ANY) (getName f) = ANY then retP [set_type Any_arg tmpl]
               else reject ''expected __tesla_{flags,mask,any}'')
      | p \<Rightarrow> arg_value cx single tmpl dnr p)"
| "arg_value cx single tmpl dnr p =
     (case p of
        Ref_e d \<Rightarrow> bindP (ParseArg_decl single tmpl False dnr d ([], None)) (\<lambda>acc. retP (fst acc))
      | _ \<Rightarrow>
          (case cl_ice cx p of
             Some v \<Rightarrow> retP [named_constant (cl_macro cx p) v tmpl]
           | None \<Rightarrow>
               (case p of
                  Unary_e op x \<Rightarrow>
                    if op = UO_AddrOf then
                      bindP (ParseArg cx True new_argument True x) (\<lambda>inner.
                        register_if dnr (if inner = [] then tmpl else set_indirection (only_arg inner) (set_type Indirect_arg tmpl)))
                    else reject ''Invalid argument to function within TESLA assertion''
                | Member_e b d \<Rightarrow>
                    bindP (ParseStructField cx True b d) (\<lambda>f. register_if dnr (set_field f (set_type Field_arg tmpl)))
                | _ \<Rightarrow> reject ''Invalid argument to function within TESLA assertion'')))"
| "ParseStructField cx dnr b d =
     (case base_structure (cl_type cx (IgnoreImpCasts b)) of
        None \<Rightarrow> failP (Undefined ''getAsStructureType()->getDecl()'')
      | Some ty \<Rightarrow>
          (case d of
             Field_d _ x _ i \<Rightarrow>
               bindP (ParseArg cx True new_argument dnr (IgnoreImpCasts b)) (\<lambda>base. retP (StructField ty (only_arg base) x (int i)))
           | _ \<Rightarrow> reject ''struct member is not a FieldDecl''))"
  by pat_completeness auto
termination
proof (relation "measure (\<lambda>x. case x of
    Inl (_, _, _, _, e) \<Rightarrow> 3 * size e + 1
  | Inr (Inl (_, _, _, _, e)) \<Rightarrow> 3 * size e
  | Inr (Inr (_, _, b, _)) \<Rightarrow> 3 * size b + 2)", goal_cases)
qed (auto simp: IgnoreImpCasts_def size_IgnoreImplicit le_imp_less_Suc dest!: size_stripped)

declare ParseArg.simps [simp del] arg_value.simps [simp del] ParseStructField.simps [simp del] ParseArg_decl.simps [simp del]

fun ParseArgs :: "clang \<Rightarrow> cexpr list \<Rightarrow> argument list parser" where
  "ParseArgs cx [] = retP []"
| "ParseArgs cx (e # es) =
     bindP (ParseArg cx False new_argument False e) (\<lambda>as. bindP (ParseArgs cx es) (\<lambda>bs. retP (as @ bs)))"

text \<open>The parameters of a function whose arguments are not given.\<close>

fun ParseParams :: "cdecl list \<Rightarrow> argument list parser" where
  "ParseParams [] = retP []"
| "ParseParams (d # ds) =
     bindP (ParseArg_decl False new_argument True False d ([], None)) (\<lambda>acc. bindP (ParseParams ds) (\<lambda>bs. retP (fst acc @ bs)))"

definition set_arg :: "argument list \<Rightarrow> argument option" where
  "set_arg as = (case as of [] \<Rightarrow> None | a # _ \<Rightarrow> Some a)"

subsection \<open>Checks\<close>

definition CheckIgnore :: "cexpr \<Rightarrow> unit parser" where
  "CheckIgnore e = (case IgnoreParenCasts e of
     Ref_e d \<Rightarrow> if getName d = IGNORE_EVENT then retP () else reject (''expected '' @ IGNORE_EVENT)
   | _ \<Rightarrow> reject (''expected '' @ IGNORE_EVENT))"

definition SimpleAssignment :: "cexpr \<Rightarrow> bool" where
  "SimpleAssignment e = (case e of Binary_e op _ _ \<Rightarrow> op = BO_Assign | _ \<Rightarrow> False)"

definition CheckAssignmentKind :: "cdecl \<Rightarrow> cexpr \<Rightarrow> unit parser" where
  "CheckAssignmentKind d e s = (case map_of (ps_assigned s) d of
     None \<Rightarrow> Inr (Some (), s\<lparr>ps_assigned := (d, e) # ps_assigned s\<rparr>)
   | Some old \<Rightarrow>
       if SimpleAssignment e = SimpleAssignment old then Inr (Some (), s)
       else Inr (None, s\<lparr>ps_diags := ps_diags s @ [''TESLA: mixing instrumentation of simple and compound assignments'',
              ''TESLA: previous assignment here'']\<rparr>))"

subsection \<open>Events\<close>

definition new_event :: "flags \<Rightarrow> direction \<Rightarrow> function_event" where
  "new_event F dir = \<lparr>fe_function = [], fe_direction = Some dir, fe_context = Some (fl_context F), fe_argument = [], fe_expected = None,
     fe_strict = Some (fl_strict F), fe_kind = None, fe_receiver = None\<rparr>"

definition ParseFunctionRef :: "cdecl \<Rightarrow> string parser" where
  "ParseFunctionRef d = (if getName d = [] then reject ''Function must have a name'' else retP (getName d))"

definition ParseObjCMessageSend :: "clang \<Rightarrow> objc_method option \<Rightarrow> receiver \<Rightarrow> cexpr list \<Rightarrow> function_event \<Rightarrow> function_event parser" where
  "ParseObjCMessageSend cx method r args ev = (case method of
     None \<Rightarrow> reject ''Objective-C method has unknown type''
   | Some meth \<Rightarrow>
       bindP (ParseArgs cx (map IgnoreImplicit args)) (\<lambda>as.
       let ev1 = ev\<lparr>fe_function := fst meth, fe_argument := fe_argument ev @ as\<rparr> in
       case r of
         Class_r x \<Rightarrow> retP (ev1\<lparr>fe_kind := Some ObjCClassMessage, fe_receiver := Some (set_arg_name x new_argument)\<rparr>)
       | Instance_r e \<Rightarrow>
           bindP (ParseArg cx True new_argument False e) (\<lambda>bs.
             retP (ev1\<lparr>fe_kind := Some ObjCInstanceMessage, fe_receiver := set_arg bs\<rparr>))
       | Super_r \<Rightarrow> retP (ev1\<lparr>fe_kind := Some ObjCSuperMessage\<rparr>)))"

text \<open>A call compared with a constant: \<open>f(x) == y\<close>.\<close>

definition ParseFunctionCall_eq :: "clang \<Rightarrow> flags \<Rightarrow> cexpr \<Rightarrow> cexpr \<Rightarrow> expression parser" where
  "ParseFunctionCall_eq cx F l r =
     (let lhs = (cl_ice cx l \<noteq> None) in
      if lhs = (cl_ice cx r \<noteq> None) then reject ''one of {LHS,RHS} must be a constant''
      else
        bindP (ParseArg cx True new_argument False (IgnoreParenCasts (if lhs then l else r))) (\<lambda>rv.
        let ev = (new_event F Exit)\<lparr>fe_expected := set_arg rv\<rparr> in
        case IgnoreParenCasts (if lhs then r else l) of
          Message_e method recv args \<Rightarrow> bindP (ParseObjCMessageSend cx method recv args ev) (\<lambda>ev'. retP (Function_expr ev'))
        | Call_e callee args \<Rightarrow>
            (case getDirectCallee callee of
               None \<Rightarrow> reject ''not a direct function call''
             | Some f \<Rightarrow>
                 bindP (ParseFunctionRef f) (\<lambda>x.
                 bindP (ParseArgs cx (map IgnoreImplicit args)) (\<lambda>as.
                   retP (Function_expr (ev\<lparr>fe_function := x, fe_argument := as\<rparr>)))))
        | _ \<Rightarrow> reject ''not a function call''))"

text \<open>What \<open>call\<close> and \<open>returnfrom\<close> are about: the event so far, the type of the result, the parameters
  and the arguments that were given.\<close>

definition event_target :: "clang \<Rightarrow> cexpr \<Rightarrow> function_event \<Rightarrow> (function_event \<times> ctype \<times> cdecl list \<times> cexpr list) parser" where
  "event_target cx e ev = (case e of
     Message_e method recv args \<Rightarrow>
       bindP (ParseObjCMessageSend cx method recv args ev) (\<lambda>ev1. case method of
         None \<Rightarrow> failP (Undefined ''Method'')
       | Some (_, rt, ps) \<Rightarrow> retP (ev1, rt, ps, args))
   | Ref_e d \<Rightarrow>
       (case d of
          Fun_d _ _ rt ps \<Rightarrow> bindP (ParseFunctionRef d) (\<lambda>x. retP (ev\<lparr>fe_function := x\<rparr>, rt, ps, []))
        | _ \<Rightarrow> reject ''not a function'')
   | Call_e callee args \<Rightarrow>
       (case getDirectCallee callee of
          None \<Rightarrow> failP (Assertion ''!ResultType.isNull()'')
        | Some f \<Rightarrow> bindP (ParseFunctionRef f) (\<lambda>x. retP (ev\<lparr>fe_function := x\<rparr>, getResultType f, params_of f, args)))
   | _ \<Rightarrow> reject ''expected C function or Objective-C message send'')"

definition event_arguments :: "clang \<Rightarrow> bool \<Rightarrow> cdecl list \<Rightarrow> cexpr list \<Rightarrow> argument list parser" where
  "event_arguments cx have_ret ps args =
     (if args = [] then ParseParams ps
      else if length args \<noteq> length ps + (if have_ret then 1 else 0) then reject ''specify all args (possibly __tesla_any()) or none''
      else ParseArgs cx args)"

definition expected_value :: "clang \<Rightarrow> bool \<Rightarrow> cexpr option \<Rightarrow> function_event \<Rightarrow> function_event parser" where
  "expected_value cx have_ret ret ev =
     (if \<not> have_ret then retP ev
      else case ret of
        None \<Rightarrow> retP (ev\<lparr>fe_expected := Some (set_type Any_arg new_argument)\<rparr>)
      | Some e \<Rightarrow> bindP (ParseArg cx True new_argument False e) (\<lambda>as. retP (ev\<lparr>fe_expected := set_arg as\<rparr>)))"

text \<open>The call and, for \<open>returnfrom\<close>, the value it is compared with.\<close>

definition call_and_result :: "string \<Rightarrow> cexpr \<Rightarrow> (cexpr \<times> cexpr option) parser" where
  "call_and_result pseudo e = (case e of
     Binary_e _ l r \<Rightarrow>
       if pseudo \<noteq> ''__tesla_return'' then reject ([CHR 0x27] @ ''fn(args) == ret'' @ [CHR 0x27] @ '' syntax only permitted in return'')
       else retP (IgnoreParenCasts l, Some (IgnoreParenCasts r))
   | _ \<Rightarrow> retP (e, None))"

definition ParseFunctionDetails :: "clang \<Rightarrow> string \<Rightarrow> cexpr list \<Rightarrow> bool \<Rightarrow> function_event \<Rightarrow> function_event parser" where
  "ParseFunctionDetails cx pseudo args parse_ret ev =
     (if pseudo \<noteq> ''__tesla_call'' \<and> pseudo \<noteq> ''__tesla_return'' then reject ''expected __tesla_call or __tesla_return''
      else case args of
        [x] \<Rightarrow>
          (case IgnoreParenCasts x of
             Binary_e op l _ \<Rightarrow>
               if op \<noteq> BO_Comma then reject ''expected ((void) call, __tesla_ignore)''
               else
                 bindP (call_and_result pseudo (IgnoreParenCasts l)) (\<lambda>(target, ret).
                 bindP (event_target cx target ev) (\<lambda>(ev1, rt, ps, as).
                 let have_ret = (parse_ret \<and> \<not> isVoidType rt) in
                 bindP (event_arguments cx have_ret ps as) (\<lambda>bs.
                   expected_value cx have_ret ret (ev1\<lparr>fe_argument := fe_argument ev1 @ bs\<rparr>))))
           | _ \<Rightarrow> reject ''expected ((void) call, __tesla_ignore)'')
      | _ \<Rightarrow> reject ''expected one argument: ((void) call, __tesla_ignore)'')"

definition ParseFunctionCall :: "clang \<Rightarrow> flags \<Rightarrow> string \<Rightarrow> cexpr list \<Rightarrow> expression parser" where
  "ParseFunctionCall cx F pseudo args =
     bindP (ParseFunctionDetails cx pseudo args False (new_event F Entry)) (\<lambda>ev. retP (Function_expr ev))"

definition ParseFunctionReturn :: "clang \<Rightarrow> flags \<Rightarrow> string \<Rightarrow> cexpr list \<Rightarrow> expression parser" where
  "ParseFunctionReturn cx F pseudo args =
     bindP (ParseFunctionDetails cx pseudo args True (new_event F Exit)) (\<lambda>ev. retP (Function_expr ev))"

definition assign_op :: "binary_op \<Rightarrow> assign_type option" where
  "assign_op op = (case op of
     BO_Assign \<Rightarrow> Some SimpleAssign | BO_AddAssign \<Rightarrow> Some PlusEqual | BO_SubAssign \<Rightarrow> Some MinusEqual | _ \<Rightarrow> None)"

definition ParseFieldAssign :: "clang \<Rightarrow> flags \<Rightarrow> binary_op \<Rightarrow> cexpr \<Rightarrow> cexpr \<Rightarrow> expression parser" where
  "ParseFieldAssign cx F op l r = (case assign_op op of
     None \<Rightarrow> reject ''unhandled compound assignment type''
   | Some t \<Rightarrow>
       (case l of
          Member_e b d \<Rightarrow>
            bindP (CheckAssignmentKind d (Binary_e op l r)) (\<lambda>_.
            bindP (ParseStructField cx False b d) (\<lambda>f.
            bindP (ParseArg cx True new_argument False r) (\<lambda>v.
              retP (Field_assign_expr \<lparr>fa_field = f, fa_operation = t, fa_value = only_arg v, fa_strict = Some (fl_strict F)\<rparr>))))
        | _ \<Rightarrow> reject ''expected struct member''))"

definition unary_assign :: "unary_op \<Rightarrow> assign_type option" where
  "unary_assign op = (case op of
     UO_PreInc \<Rightarrow> Some PlusEqual | UO_PostInc \<Rightarrow> Some PlusEqual
   | UO_PreDec \<Rightarrow> Some MinusEqual | UO_PostDec \<Rightarrow> Some MinusEqual | _ \<Rightarrow> None)"

definition Parse_unary :: "clang \<Rightarrow> flags \<Rightarrow> unary_op \<Rightarrow> cexpr \<Rightarrow> expression parser" where
  "Parse_unary cx F op e = (case unary_assign op of
     None \<Rightarrow> reject ''unsupported unary operator''
   | Some t \<Rightarrow>
       (case e of
          Member_e b d \<Rightarrow>
            bindP (CheckAssignmentKind d (Unary_e op e)) (\<lambda>_.
            bindP (ParseStructField cx False b d) (\<lambda>f.
              retP (Field_assign_expr \<lparr>fa_field = f, fa_operation = t, fa_value = set_value 1 (set_type Constant_arg new_argument),
                fa_strict = Some (fl_strict F)\<rparr>)))
        | _ \<Rightarrow> reject ''expected struct member''))"

subsection \<open>Expressions\<close>

datatype modifier = M_call | M_return | M_callee | M_caller | M_strict | M_conditional | M_sequence | M_repeat | M_optional

definition modifier_of :: "string \<Rightarrow> modifier option" where
  "modifier_of = map_of [(''__tesla_call'', M_call), (''__tesla_return'', M_return), (''__tesla_callee'', M_callee),
     (''__tesla_caller'', M_caller), (''__tesla_strict'', M_strict), (''__tesla_conditional'', M_conditional),
     (''__tesla_sequence'', M_sequence), (''__tesla_repeat'', M_repeat), (''__tesla_optional'', M_optional)]"

text \<open>What a call is, by the type of its result: a sub-automaton or a modifier.\<close>

definition call_kind_of :: "cdecl \<Rightarrow> string + bool" where
  "call_kind_of f = (case getResultType f of
     Pointer_c p \<Rightarrow>
       (case p of
          None \<Rightarrow> Inl ''expected pointer-to-struct return type''
        | Some x \<Rightarrow>
            if x = ''__tesla_automaton_description'' then Inr True
            else if x = ''__tesla_event'' then Inr False
            else Inl ''unsupported function call'')
   | _ \<Rightarrow> Inl ''expected modifier or sub-automaton'')"

definition add_free :: "cdecl list \<Rightarrow> unit parser" where
  "add_free ds s = Inr (Some (), s\<lparr>ps_free := ps_free s @ ds\<rparr>)"

definition done_stmt :: "cexpr option \<Rightarrow> unit parser" where
  "done_stmt r = (case r of
     None \<Rightarrow> reject ''automaton description returns nothing''
   | Some e \<Rightarrow> (case IgnoreParenCasts e of Call_e _ _ \<Rightarrow> retP () | _ \<Rightarrow> reject ''expected __tesla_automaton_done''))"

definition sub_automaton :: "cdecl \<Rightarrow> expression" where
  "sub_automaton f = Sub_automaton_expr \<lparr>id_name = Some (getName f), id_location = None\<rparr>"

definition repetition :: "nat \<times> int \<Rightarrow> nat \<times> int \<Rightarrow> expression list \<Rightarrow> expression" where
  "repetition mn mx es = Sequence_expr es (Some (int32_of (limited_value mn))) (Some (int32_of (limited_value mx)))"

text \<open>The expression or nothing.\<close>

definition optional_of :: "expression \<Rightarrow> expression" where
  "optional_of x = Boolean_expr BE_Xor [Null_expr, x]"

text \<open>What \<open>callee\<close>, \<open>caller\<close>, \<open>strict\<close> and \<open>conditional\<close> change.\<close>

definition modified_flags :: "modifier \<Rightarrow> flags \<Rightarrow> flags" where
  "modified_flags m F =
     (if m = M_callee then F\<lparr>fl_context := Callee\<rparr> else if m = M_caller then F\<lparr>fl_context := Caller\<rparr>
      else F\<lparr>fl_strict := (m = M_strict)\<rparr>)"

lemmas parts = sub_automaton_def repetition_def optional_of_def modified_flags_def
declare parts [simp]

fun Parse :: "clang \<Rightarrow> ir_location \<Rightarrow> flags \<Rightarrow> cexpr \<Rightarrow> expression parser"
  and Parse_list :: "clang \<Rightarrow> ir_location \<Rightarrow> flags \<Rightarrow> cexpr list \<Rightarrow> expression list parser"
  and Parse_stmts :: "clang \<Rightarrow> ir_location \<Rightarrow> flags \<Rightarrow> cstmt list \<Rightarrow> expression list parser" where
  "Parse cx loc F (Implicit_e e) = Parse cx loc F e"
| "Parse cx loc F (Stmt_e ss) = bindP (Parse_stmts cx loc F ss) (\<lambda>es. retP (Sequence_expr es None None))"
| "Parse cx loc F (Binary_e op l r) =
     (if compound_assign op then ParseFieldAssign cx F op l r
      else case fl_or F of
        None \<Rightarrow> failP (Assertion ''BooleanExpr_Operation_IsValid(F.OrOperator)'')
      | Some or_op \<Rightarrow>
          if op = BO_Assign then ParseFieldAssign cx F op l r
          else if op = BO_EQ then ParseFunctionCall_eq cx F l r
          else if op = BO_LAnd \<or> op = BO_LOr then
            bindP (Parse cx loc F l) (\<lambda>x. bindP (Parse cx loc F r) (\<lambda>y.
              retP (Boolean_expr (if op = BO_LAnd then BE_And else or_op) [x, y])))
          else reject ''unsupported boolean operation'')"
| "Parse cx loc F (Call_e callee args) =
     (case getDirectCallee callee of
        None \<Rightarrow> reject ''expected direct call to modifier or sub-automaton''
      | Some f \<Rightarrow>
          (case call_kind_of f of
             Inl msg \<Rightarrow> reject msg
           | Inr True \<Rightarrow> retP (sub_automaton f)
           | Inr False \<Rightarrow>
               (case modifier_of (getName f) of
                  None \<Rightarrow> reject ''unsupported modifier''
                | Some m \<Rightarrow>
                    if m = M_call then ParseFunctionCall cx F (getName f) args
                    else if m = M_return then ParseFunctionReturn cx F (getName f) args
                    else if m = M_sequence then bindP (Parse_list cx loc F args) (\<lambda>es. retP (Sequence_expr es None None))
                    else if m = M_repeat then
                      (case args of
                         mn # mx # e # es \<Rightarrow>
                           bindP (ParseIntegerLiteral cx mn) (\<lambda>x. bindP (ParseIntegerLiteral cx mx) (\<lambda>y.
                           bindP (Parse cx loc F e) (\<lambda>z. bindP (Parse_list cx loc F es) (\<lambda>zs.
                             retP (repetition x y (z # zs))))))
                       | _ \<Rightarrow> reject ''repetition should have at least three arguments (min, max, expr)'')
                    else
                      (case args of
                         [i, e] \<Rightarrow>
                           if m = M_optional then bindP (Parse cx loc F e) (\<lambda>x. retP (optional_of x))
                           else
                             bindP (CheckIgnore i) (\<lambda>_. Parse cx loc (modified_flags m F) e)
                       | _ \<Rightarrow> reject (if m = M_optional then [CHR 0x27] @ ''optional'' @ [CHR 0x27] @ '' modifier takes exactly one user argument''
                              else ''expected two arguments: __tesla_ignore, expression'')))))"
| "Parse cx loc F (Ref_e d) =
     (if getName d = ASSERTION_SITE then retP (Assertion_site loc)
      else if getName d = IGNORE_EVENT then retP Null_expr
      else reject ''unsupported reference'')"
| "Parse cx loc F (Unary_e op e) = Parse_unary cx F op e"
| "Parse cx loc F (Message_e _ _ _) = reject ''unsupported TESLA expression''"
| "Parse cx loc F (Member_e _ _) = reject ''unsupported TESLA expression''"
| "Parse cx loc F (Int_e _ _) = reject ''unsupported TESLA expression''"
| "Parse cx loc F (String_e _) = reject ''unsupported TESLA expression''"
| "Parse cx loc F (Choose_e _) = reject ''unsupported TESLA expression''"
| "Parse cx loc F (Paren_e _) = reject ''unsupported TESLA expression''"
| "Parse cx loc F (Cast_e _) = reject ''unsupported TESLA expression''"
| "Parse cx loc F (Other_e _) = reject ''unsupported TESLA expression''"
| "Parse_list cx loc F [] = retP []"
| "Parse_list cx loc F (e # es) = bindP (Parse cx loc F e) (\<lambda>x. bindP (Parse_list cx loc F es) (\<lambda>xs. retP (x # xs)))"
| "Parse_stmts cx loc F [] = retP []"
| "Parse_stmts cx loc F (Return_s r # ss) = bindP (done_stmt r) (\<lambda>_. Parse_stmts cx loc F ss)"
| "Parse_stmts cx loc F (Decl_s ds # ss) = bindP (add_free ds) (\<lambda>_. Parse_stmts cx loc F ss)"
| "Parse_stmts cx loc F (Expr_s e # ss) = bindP (Parse cx loc F e) (\<lambda>x. bindP (Parse_stmts cx loc F ss) (\<lambda>xs. retP (x # xs)))"
| "Parse_stmts cx loc F (Compound_s _ # ss) = reject ''unhandled C statement type''"
| "Parse_stmts cx loc F (Other_s # ss) = reject ''unhandled C statement type''"

end
