(* ===== verification/Tesla_Analyser.thy ===== *)
theory Tesla_Analyser
  imports Tesla_Parser Tesla_Manifest
begin

text \<open>
  The analyser around its parser: the parsers for inline assertions, for functions that describe
  automata and for functions that map automata to structures (\<open>Parser.cpp\<close>), the visitor that looks for
  them (\<open>Visitor.cpp\<close>) and the manifest it makes of a translation unit (\<open>AST.cpp\<close>).

  The order in which Clang visits calls and functions is given, with the source text at each.  The flags
  that a mapping's parser does not initialise are parameters.
\<close>

subsection \<open>Parsers\<close>

record parser_obj =
  pa_id :: ir_identifier \<comment> \<open>\<open>ID\<close>\<close>
  pa_context :: ir_context \<comment> \<open>\<open>TeslaContext\<close>\<close>
  pa_beginning :: "cexpr option" \<comment> \<open>\<open>Beginning\<close>\<close>
  pa_end :: "cexpr option" \<comment> \<open>\<open>End\<close>\<close>
  pa_root :: "cstmt option" \<comment> \<open>\<open>Root\<close>\<close>
  pa_flags :: flags \<comment> \<open>\<open>RootFlags\<close>\<close>
  pa_source :: string \<comment> \<open>\<open>SourceCode\<close>\<close>

definition liftP :: "'a res \<Rightarrow> 'a parser" where
  "liftP r s = bindE r (\<lambda>x. Inr (Some x, s))"

definition Parse_location :: "clang \<Rightarrow> cexpr \<Rightarrow> cexpr \<Rightarrow> cexpr \<Rightarrow> ir_location parser" where
  "Parse_location cx filename line cnt =
     bindP (ParseStringLiteral filename) (\<lambda>f.
     bindP (ParseIntegerLiteral cx line) (\<lambda>l.
     if fst l = 0 then reject ''invalid line number''
     else
       bindP (ParseIntegerLiteral cx cnt) (\<lambda>c.
       if fst c = 0 then reject ''invalid counter value''
       else retP \<lparr>loc_filename = f, loc_line = int32_of (limited_value l), loc_counter = int32_of (limited_value c)\<rparr>)))"

definition Parse_context :: "cexpr \<Rightarrow> ir_context parser" where
  "Parse_context e = (case IgnoreImplicit e of
     Ref_e d \<Rightarrow>
       if getName d = GLOBAL then retP Global_context
       else if getName d = PERTHREAD then retP Thread_context
       else reject ''invalid locality specifier (must be per-thread or global)''
   | _ \<Rightarrow> reject ''invalid locality specifier (must be per-thread or global)'')"

definition AssertionParser :: "clang \<Rightarrow> string \<Rightarrow> cexpr list \<Rightarrow> parser_obj parser" where
  "AssertionParser cx txt args = (case args of
     [name, filename, line, counter, context, beginning, ending, ex] \<Rightarrow>
       bindP (ParseStringLiteral name) (\<lambda>x.
       bindP (Parse_location cx filename line counter) (\<lambda>loc.
       bindP (Parse_context context) (\<lambda>ctx.
       bindP (liftP (FindOriginalSource txt)) (\<lambda>source.
         retP \<lparr>pa_id = \<lparr>id_name = (if x = [] then None else Some x), id_location = Some loc\<rparr>, pa_context = ctx,
           pa_beginning = Some beginning, pa_end = Some ending, pa_root = Some (Expr_s ex),
           pa_flags = \<lparr>fl_context = Callee, fl_or = Some BE_Or, fl_strict = False\<rparr>, pa_source = source\<rparr>))))
   | _ \<Rightarrow> reject ''expected seven arguments: filename, line, counter, context, start, end, expression'')"

definition AutomatonParser :: "string \<Rightarrow> cdecl \<Rightarrow> cstmt \<Rightarrow> parser_obj parser" where
  "AutomatonParser txt f body = (case params_of f of
     [d] \<Rightarrow>
       (case getType d of
          Pointer_c (Some _) \<Rightarrow>
            bindP (liftP (FindOriginalSource txt)) (\<lambda>source.
              retP \<lparr>pa_id = \<lparr>id_name = Some (getName f), id_location = None\<rparr>, pa_context = Global_context,
                pa_beginning = None, pa_end = None, pa_root = Some body,
                pa_flags = \<lparr>fl_context = Callee, fl_or = Some BE_Xor, fl_strict = True\<rparr>, pa_source = source\<rparr>)
        | _ \<Rightarrow> reject ''expected pointer to struct'')
   | _ \<Rightarrow> reject ''expected one parameter: the struct'')"

definition AUTOMATON_DESC :: string where "AUTOMATON_DESC = ''__tesla_automaton_description''"
definition AUTOMATON_USAGE :: string where "AUTOMATON_USAGE = ''__tesla_automaton_usage''"
definition AUTOMATON_USES :: string where "AUTOMATON_USES = ''__tesla_struct_uses_automaton''"

text \<open>The call that the only statement of a mapping returns.\<close>

definition mapping_call :: "cstmt \<Rightarrow> cexpr list parser" where
  "mapping_call body = (case body of
     Compound_s ss \<Rightarrow>
       (case ss of
          [s] \<Rightarrow>
            (case s of
               Return_s r \<Rightarrow>
                 (case r of
                    None \<Rightarrow> failP (Undefined ''Ret->getRetValue()'')
                  | Some (Call_e callee args) \<Rightarrow>
                      (case getDirectCallee callee of
                         None \<Rightarrow> reject (''expected call to '' @ AUTOMATON_USES)
                       | Some g \<Rightarrow> if getName g = AUTOMATON_USES then retP args else reject (''expected call to '' @ AUTOMATON_USES))
                  | Some _ \<Rightarrow> reject (''expected call to '' @ AUTOMATON_USES))
             | _ \<Rightarrow> reject ''expected a return statement'')
        | _ \<Rightarrow> reject ''expected a single statement'')
   | _ \<Rightarrow> reject ''expected a function body (compound statement)'')"

definition MappingParser :: "bool_op option \<Rightarrow> bool \<Rightarrow> cstmt \<Rightarrow> parser_obj parser" where
  "MappingParser or0 strict0 body =
     bindP (mapping_call body) (\<lambda>args. case args of
       [name, locality, beginning, ending] \<Rightarrow>
         bindP (ParseStringLiteral name) (\<lambda>x.
         if x = [] then reject ''expected automaton name''
         else (case IgnoreImplicit locality of
           Ref_e d \<Rightarrow>
             bindP (Parse_context (Ref_e d)) (\<lambda>ctx.
               retP \<lparr>pa_id = \<lparr>id_name = Some x, id_location = None\<rparr>, pa_context = ctx,
                 pa_beginning = Some beginning, pa_end = Some ending, pa_root = None,
                 pa_flags = \<lparr>fl_context = Callee, fl_or = or0, fl_strict = strict0\<rparr>, pa_source = []\<rparr>)
         | _ \<Rightarrow> reject ''expected TESLA locality''))
     | _ \<Rightarrow> reject ''expected automaton, locality, start, end'')"

definition Parse_opt :: "clang \<Rightarrow> ir_location \<Rightarrow> flags \<Rightarrow> cexpr option \<Rightarrow> expression option parser" where
  "Parse_opt cx loc F e = (case e of None \<Rightarrow> retP None | Some x \<Rightarrow> bindP (Parse cx loc F x) (\<lambda>y. retP (Some y)))"

definition Parse_root :: "clang \<Rightarrow> ir_location \<Rightarrow> flags \<Rightarrow> cstmt option \<Rightarrow> expression option parser" where
  "Parse_root cx loc F r = (case r of
     None \<Rightarrow> retP None
   | Some (Compound_s ss) \<Rightarrow> bindP (Parse_stmts cx loc F ss) (\<lambda>es. retP (Some (Sequence_expr es None None)))
   | Some (Expr_s e) \<Rightarrow> bindP (Parse cx loc F e) (\<lambda>x. retP (Some x))
   | Some _ \<Rightarrow> reject ''expected expression or compound statement'')"

definition get_refs :: "argument list parser" where
  "get_refs s = Inr (Some (ps_refs s), s)"

definition Parse_automaton :: "clang \<Rightarrow> parser_obj \<Rightarrow> (automaton_description option \<times> usage option) parser" where
  "Parse_automaton cx P =
     (let loc = getD no_location (id_location (pa_id P)) in
      bindP (Parse_opt cx loc (pa_flags P) (pa_beginning P)) (\<lambda>b.
      bindP (Parse_opt cx loc (pa_flags P) (pa_end P)) (\<lambda>e.
      bindP (Parse_root cx loc (pa_flags P) (pa_root P)) (\<lambda>r.
      bindP get_refs (\<lambda>refs.
        retP (map_option (\<lambda>x. \<lparr>ad_identifier = pa_id P, ad_context = pa_context P, ad_expression = x, ad_argument = refs,
                 ad_source = (if pa_source P = [] then None else Some (pa_source P))\<rparr>) r,
              if b = None \<and> e = None then None else Some \<lparr>us_identifier = pa_id P, us_beginning = b, us_end = e\<rparr>))))))"

subsection \<open>The visitor\<close>

text \<open>The calls and the functions of a translation unit, with the source text from there on.\<close>

datatype node =
    Call_node "cdecl option" "cexpr list" string
  | Function_node cdecl "cstmt option" string

record visitor =
  vi_automata :: "automaton_description option list" \<comment> \<open>\<open>Automata\<close>\<close>
  vi_roots :: "usage option list" \<comment> \<open>\<open>Roots\<close>\<close>
  vi_diags :: "string list"

definition new_parser :: "string list \<Rightarrow> pstate" where
  "new_parser ds = \<lparr>ps_assigned = [], ps_free = [], ps_refs = [], ps_diags = ds\<rparr>"

text \<open>A parser is made, with one that reports the errors until then; and it parses.\<close>

definition run_parser ::
  "clang \<Rightarrow> parser_obj parser \<Rightarrow> string list \<Rightarrow> ((automaton_description option \<times> usage option) option \<times> string list) res" where
  "run_parser cx mk ds =
     bindE (mk (new_parser ds)) (\<lambda>(p, s). case p of
       None \<Rightarrow> Inr (None, ps_diags s)
     | Some P \<Rightarrow> bindE (Parse_automaton cx P (new_parser (ps_diags s))) (\<lambda>(r, s'). Inr (r, ps_diags s')))"

definition VisitCallExpr :: "clang \<Rightarrow> cdecl option \<Rightarrow> cexpr list \<Rightarrow> string \<Rightarrow> visitor \<Rightarrow> (bool \<times> visitor) res" where
  "VisitCallExpr cx callee args txt v = (case getDirectCallee callee of
     None \<Rightarrow> Inr (True, v)
   | Some f \<Rightarrow>
       if getName f \<noteq> INLINE_ASSERTION then Inr (True, v)
       else
         bindE (run_parser cx (AssertionParser cx txt args) (vi_diags v)) (\<lambda>(r, ds). case r of
           None \<Rightarrow> Inr (False, v\<lparr>vi_diags := ds\<rparr>)
         | Some (a, u) \<Rightarrow> Inr (True, \<lparr>vi_automata = vi_automata v @ [a], vi_roots = vi_roots v @ [u], vi_diags = ds\<rparr>)))"

definition keep :: "'a option \<Rightarrow> 'a option list \<Rightarrow> 'a option list" where
  "keep x xs = (if x = None then xs else xs @ [x])"

definition VisitFunctionDecl ::
  "clang \<Rightarrow> bool_op option \<Rightarrow> bool \<Rightarrow> cdecl \<Rightarrow> cstmt option \<Rightarrow> string \<Rightarrow> visitor \<Rightarrow> (bool \<times> visitor) res" where
  "VisitFunctionDecl cx or0 strict0 f body txt v = (case body of
     None \<Rightarrow> Inr (True, v)
   | Some b \<Rightarrow>
       (case cl_pointee cx (getResultType f) of
          None \<Rightarrow> Inr (True, v)
        | Some ty \<Rightarrow>
            if ty \<noteq> AUTOMATON_DESC \<and> \<not> (ty = AUTOMATON_USAGE \<and> getName f \<noteq> AUTOMATON_USES) then Inr (True, v)
            else
              bindE (run_parser cx (if ty = AUTOMATON_DESC then AutomatonParser txt f b else MappingParser or0 strict0 b) (vi_diags v))
                (\<lambda>(r, ds). case r of
                   None \<Rightarrow> Inr (False, v\<lparr>vi_diags := ds\<rparr>)
                 | Some (a, u) \<Rightarrow> Inr (True, \<lparr>vi_automata = keep a (vi_automata v), vi_roots = keep u (vi_roots v), vi_diags = ds\<rparr>))))"

fun visit :: "clang \<Rightarrow> bool_op option \<Rightarrow> bool \<Rightarrow> node \<Rightarrow> visitor \<Rightarrow> (bool \<times> visitor) res" where
  "visit cx or0 strict0 (Call_node callee args txt) v = VisitCallExpr cx callee args txt v"
| "visit cx or0 strict0 (Function_node f body txt) v = VisitFunctionDecl cx or0 strict0 f body txt v"

text \<open>The traversal ends when a visit returns false.\<close>

fun traverse :: "clang \<Rightarrow> bool_op option \<Rightarrow> bool \<Rightarrow> node list \<Rightarrow> visitor \<Rightarrow> (bool \<times> visitor) res" where
  "traverse cx or0 strict0 [] v = Inr (True, v)"
| "traverse cx or0 strict0 (n # ns) v =
     bindE (visit cx or0 strict0 n v) (\<lambda>(ok, v'). if ok then traverse cx or0 strict0 ns v' else Inr (False, v'))"

fun all_set :: "'a option list \<Rightarrow> 'a list res" where
  "all_set [] = Inr []"
| "all_set (x # xs) = bindE (derefE ''automaton'' x) (\<lambda>y. bindE (all_set xs) (\<lambda>ys. Inr (y # ys)))"

definition HandleTranslationUnit :: "clang \<Rightarrow> bool_op option \<Rightarrow> bool \<Rightarrow> string \<Rightarrow> node list \<Rightarrow> manifest_file res" where
  "HandleTranslationUnit cx or0 strict0 infile ns =
     bindE (traverse cx or0 strict0 ns \<lparr>vi_automata = [], vi_roots = [], vi_diags = []\<rparr>) (\<lambda>(ok, v).
       if \<not> ok then Inl (Panic (''error analysing '' @ [CHR 0x27] @ infile @ [CHR 0x27]))
       else bindE (all_set (vi_automata v)) (\<lambda>as. bindE (all_set (vi_roots v)) (\<lambda>us. Inr \<lparr>mf_automaton = as, mf_root = us\<rparr>)))"

end
