(* ===== verification/Tesla_Macros.thy ===== *)
theory Tesla_Macros
  imports Tesla_Analyser "HOL-Library.Sublist"
begin

text \<open>
  The macros in which assertions are written (\<open>include/tesla-macros.h\<close>), as functions on C expressions;
  assertions as the programmer thinks of them, what they expand to and which message they mean.
\<close>

subsection \<open>The macros\<close>

definition event_fn :: "string \<Rightarrow> cdecl" where
  "event_fn x = Fun_d 0 x (Pointer_c (Some ''__tesla_event'')) []"

definition event_var :: "string \<Rightarrow> cexpr" where
  "event_var x = Implicit_e (Ref_e (Var_d 0 x (Pointer_c (Some ''__tesla_event''))))"

definition TIGNORE :: cexpr where
  "TIGNORE = event_var ''__tesla_ignore''"

definition TESLA_ASSERTION_SITE :: cexpr where
  "TESLA_ASSERTION_SITE = event_var ''__tesla_assertion_site''"

definition TSEQUENCE :: "cexpr list \<Rightarrow> cexpr" where
  "TSEQUENCE es = Call_e (Some (event_fn ''__tesla_sequence'')) (TIGNORE # es)"

text \<open>The argument of the two pseudo-functions is converted to a pointer to \<open>void\<close>.\<close>

definition call_m :: "cexpr \<Rightarrow> cexpr" where
  "call_m e = Call_e (Some (event_fn ''__tesla_call'')) [Implicit_e (Paren_e (Binary_e BO_Comma (Cast_e e) TIGNORE))]"

definition returnfrom :: "cexpr \<Rightarrow> cexpr" where
  "returnfrom e = Call_e (Some (event_fn ''__tesla_return'')) [Implicit_e (Paren_e (Binary_e BO_Comma (Cast_e (Paren_e e)) TIGNORE))]"

definition callee_m :: "cexpr \<Rightarrow> cexpr" where
  "callee_m e = Call_e (Some (event_fn ''__tesla_callee'')) [TIGNORE, e]"

definition caller_m :: "cexpr \<Rightarrow> cexpr" where
  "caller_m e = Call_e (Some (event_fn ''__tesla_caller'')) [TIGNORE, e]"

definition strict_m :: "cexpr \<Rightarrow> cexpr" where
  "strict_m e = Call_e (Some (event_fn ''__tesla_strict'')) [TIGNORE, e]"

definition conditional_m :: "cexpr \<Rightarrow> cexpr" where
  "conditional_m e = Call_e (Some (event_fn ''__tesla_conditional'')) [TIGNORE, e]"

definition flags_m :: "cexpr \<Rightarrow> cexpr" where
  "flags_m e = Call_e (Some (Fun_d 0 ''__tesla_flags'' Basic_c [])) [e]"

definition bitmask :: "cexpr \<Rightarrow> cexpr" where
  "bitmask e = Call_e (Some (Fun_d 0 ''__tesla_mask'' Basic_c [])) [e]"

definition ANY_m :: "string \<Rightarrow> cexpr" where
  "ANY_m ty = Call_e (Some (Fun_d 0 (''__tesla_any_'' @ ty) Basic_c [])) []"

definition optional :: "cexpr \<Rightarrow> cexpr" where
  "optional e = Call_e (Some (event_fn ''__tesla_optional'')) [TIGNORE, e]"

definition REPEAT :: "int \<Rightarrow> int \<Rightarrow> cexpr list \<Rightarrow> cexpr" where
  "REPEAT m n es = Call_e (Some (event_fn ''__tesla_repeat'')) (Int_e 32 m # Int_e 32 n # es)"

definition ANY_REP :: int where
  "ANY_REP = 2 ^ 31 - 1"

definition UPTO :: "int \<Rightarrow> cexpr list \<Rightarrow> cexpr" where
  "UPTO n es = REPEAT 1 n es"

definition ATLEAST :: "int \<Rightarrow> cexpr list \<Rightarrow> cexpr" where
  "ATLEAST n es = REPEAT n ANY_REP es"

definition previously :: "cexpr list \<Rightarrow> cexpr" where
  "previously es = TSEQUENCE (es @ [TESLA_ASSERTION_SITE])"

definition eventually_m :: "cexpr list \<Rightarrow> cexpr" where
  "eventually_m es = TSEQUENCE (TESLA_ASSERTION_SITE # es)"

text \<open>The arguments of the pseudo-function that marks an assertion; the counter is \<open>__COUNTER__\<close>.\<close>

definition TESLA_ASSERT :: "string \<Rightarrow> int \<Rightarrow> int \<Rightarrow> cexpr \<Rightarrow> cexpr \<Rightarrow> cexpr \<Rightarrow> cexpr \<Rightarrow> cexpr list" where
  "TESLA_ASSERT file line counter locality start finish e =
     [Implicit_e (String_e []), Implicit_e (String_e file), Int_e 32 line, Int_e 32 counter, locality, start, finish, e]"

definition TESLA_GLOBAL :: "string \<Rightarrow> int \<Rightarrow> int \<Rightarrow> cexpr \<Rightarrow> cexpr \<Rightarrow> cexpr \<Rightarrow> cexpr list" where
  "TESLA_GLOBAL file line counter =
     TESLA_ASSERT file line counter (Implicit_e (Ref_e (Var_d 0 ''__tesla_global'' (Pointer_c (Some ''__tesla_locality'')))))"

definition TESLA_PERTHREAD :: "string \<Rightarrow> int \<Rightarrow> int \<Rightarrow> cexpr \<Rightarrow> cexpr \<Rightarrow> cexpr \<Rightarrow> cexpr list" where
  "TESLA_PERTHREAD file line counter =
     TESLA_ASSERT file line counter (Implicit_e (Ref_e (Var_d 0 ''__tesla_perthread'' (Pointer_c (Some ''__tesla_locality'')))))"

definition TESLA_WITHIN :: "string \<Rightarrow> int \<Rightarrow> int \<Rightarrow> cdecl \<Rightarrow> cexpr \<Rightarrow> cexpr list" where
  "TESLA_WITHIN file line counter f e =
     TESLA_PERTHREAD file line counter (callee_m (call_m (Ref_e f))) (callee_m (returnfrom (Ref_e f))) e"

subsection \<open>Assertions\<close>

text \<open>What an event says of an argument: a variable, a constant, an enumerator, flags, a mask, anything,
  what a pointer to a variable points to, a field of the structure that a variable points to.\<close>

datatype targ =
    Var_a cdecl
  | Const_a cexpr
  | Enum_a cdecl
  | Flags_a cexpr
  | Mask_a cexpr
  | Any_a string
  | Addr_a cdecl
  | Arrow_a cdecl cdecl

text \<open>Events and how they are combined.  A function without its arguments is \<open>None\<close>.\<close>

datatype tesla =
    Call_t cdecl "targ list option"
  | Return_t cdecl "targ list option" "targ option"
  | Equals_t cdecl "targ list" targ
  | Assign_t binary_op cdecl cdecl targ
  | Incr_t unary_op cdecl cdecl
  | Site_t
  | Ignore_t
  | And_t tesla tesla
  | Or_t tesla tesla
  | Sequence_t "tesla list"
  | Repeat_t int int "tesla list"
  | Optional_t tesla
  | Callee_t tesla
  | Caller_t tesla
  | Strict_t tesla
  | Conditional_t tesla

fun write_arg :: "targ \<Rightarrow> cexpr" where
  "write_arg (Var_a d) = Implicit_e (Ref_e d)"
| "write_arg (Const_a e) = e"
| "write_arg (Enum_a d) = Ref_e d"
| "write_arg (Flags_a e) = flags_m e"
| "write_arg (Mask_a e) = bitmask e"
| "write_arg (Any_a ty) = ANY_m ty"
| "write_arg (Addr_a d) = Unary_e UO_AddrOf (Ref_e d)"
| "write_arg (Arrow_a d f) = Implicit_e (Member_e (Implicit_e (Ref_e d)) f)"

definition write_fn :: "cdecl \<Rightarrow> targ list option \<Rightarrow> cexpr" where
  "write_fn f as = (case as of None \<Rightarrow> Ref_e f | Some ts \<Rightarrow> Call_e (Some f) (map write_arg ts))"

definition write_field :: "cdecl \<Rightarrow> cdecl \<Rightarrow> cexpr" where
  "write_field d f = Member_e (Implicit_e (Ref_e d)) f"

fun written :: "tesla \<Rightarrow> cexpr" where
  "written (Call_t f as) = call_m (write_fn f as)"
| "written (Return_t f as r) =
     returnfrom (case r of None \<Rightarrow> write_fn f as | Some t \<Rightarrow> Binary_e BO_EQ (write_fn f as) (write_arg t))"
| "written (Equals_t f as t) = Binary_e BO_EQ (write_fn f (Some as)) (write_arg t)"
| "written (Assign_t op d f t) = Binary_e op (write_field d f) (write_arg t)"
| "written (Incr_t op d f) = Unary_e op (write_field d f)"
| "written Site_t = TESLA_ASSERTION_SITE"
| "written Ignore_t = TIGNORE"
| "written (And_t x y) = Binary_e BO_LAnd (written x) (written y)"
| "written (Or_t x y) = Binary_e BO_LOr (written x) (written y)"
| "written (Sequence_t xs) = TSEQUENCE (map written xs)"
| "written (Repeat_t m n xs) = REPEAT m n (map written xs)"
| "written (Optional_t x) = optional (written x)"
| "written (Callee_t x) = callee_m (written x)"
| "written (Caller_t x) = caller_m (written x)"
| "written (Strict_t x) = strict_m (written x)"
| "written (Conditional_t x) = conditional_m (written x)"

subsection \<open>What they mean\<close>

text \<open>The message of an argument, without its index.  A constant means its value, and an enumerator the
  value it was declared with.\<close>

definition variable :: "cdecl \<Rightarrow> argument" where
  "variable d = set_type Variable_arg (set_arg_name (getName d) new_argument)"

definition constant_of :: "string option \<Rightarrow> int option \<Rightarrow> argument \<Rightarrow> argument" where
  "constant_of x v tmpl = (case v of
     None \<Rightarrow> tmpl
   | Some n \<Rightarrow> (let a = set_value n (set_type Constant_arg tmpl) in case x of None \<Rightarrow> a | Some y \<Rightarrow> set_arg_name y a))"

definition field_of :: "clang \<Rightarrow> argument \<Rightarrow> cdecl \<Rightarrow> cdecl \<Rightarrow> struct_field" where
  "field_of cx base d f = (case f of
     Field_d _ x _ i \<Rightarrow> StructField (case base_structure (cl_type cx (Ref_e d)) of None \<Rightarrow> [] | Some ty \<Rightarrow> ty) base x (int i)
   | _ \<Rightarrow> StructField [] base [] 0)"

fun enumerator :: "cdecl \<Rightarrow> argument" where
  "enumerator (Enum_d _ x w v) = set_value v (set_type Constant_arg (set_arg_name x new_argument))"
| "enumerator _ = new_argument"

fun key_of :: "clang \<Rightarrow> targ \<Rightarrow> argument" where
  "key_of cx (Var_a d) = variable d"
| "key_of cx (Const_a e) = constant_of (cl_macro cx (IgnoreParenCasts e)) (cl_ice cx e) new_argument"
| "key_of cx (Enum_a d) = enumerator d"
| "key_of cx (Flags_a e) = constant_of (cl_macro cx e) (cl_ice cx e) (set_constantmatch Flags_match new_argument)"
| "key_of cx (Mask_a e) = constant_of (cl_macro cx e) (cl_ice cx e) (set_constantmatch Mask_match new_argument)"
| "key_of cx (Any_a _) = set_type Any_arg new_argument"
| "key_of cx (Addr_a d) = set_indirection (variable d) (set_type Indirect_arg new_argument)"
| "key_of cx (Arrow_a d f) = set_field (field_of cx (variable d) d f) (set_type Field_arg new_argument)"

text \<open>Variables, what pointers to them point to and their fields are numbered by a list of references.\<close>

fun has_index :: "targ \<Rightarrow> bool" where
  "has_index (Var_a _) = True"
| "has_index (Addr_a _) = True"
| "has_index (Arrow_a _ _) = True"
| "has_index _ = False"

definition position :: "'a \<Rightarrow> 'a list \<Rightarrow> nat" where
  "position k ks = length (takeWhile (\<lambda>x. x \<noteq> k) ks)"

definition indexed :: "argument list \<Rightarrow> argument \<Rightarrow> argument" where
  "indexed ks k = set_index (int (position k ks)) k"

definition mean_arg :: "clang \<Rightarrow> argument list \<Rightarrow> targ \<Rightarrow> argument" where
  "mean_arg cx ks t = (if has_index t then indexed ks (key_of cx t) else key_of cx t)"

definition mean_args :: "clang \<Rightarrow> argument list \<Rightarrow> cdecl \<Rightarrow> targ list option \<Rightarrow> argument list" where
  "mean_args cx ks f as =
     (if as = None \<or> as = Some [] then map (\<lambda>d. set_type Any_arg (set_arg_name (getName d) new_argument)) (params_of f)
      else map (mean_arg cx ks) (getD [] as))"

definition mean_result :: "clang \<Rightarrow> argument list \<Rightarrow> cdecl \<Rightarrow> targ option \<Rightarrow> argument option" where
  "mean_result cx ks f r =
     (if isVoidType (getResultType f) then None
      else Some (case r of None \<Rightarrow> set_type Any_arg new_argument | Some t \<Rightarrow> mean_arg cx ks t))"

definition mean_field :: "clang \<Rightarrow> argument list \<Rightarrow> cdecl \<Rightarrow> cdecl \<Rightarrow> struct_field" where
  "mean_field cx ks d f = field_of cx (indexed ks (variable d)) d f"

fun meaning :: "clang \<Rightarrow> ir_location \<Rightarrow> argument list \<Rightarrow> flags \<Rightarrow> tesla \<Rightarrow> expression" where
  "meaning cx loc ks F (Call_t f as) =
     Function_expr ((new_event F Entry)\<lparr>fe_function := getName f, fe_argument := mean_args cx ks f as\<rparr>)"
| "meaning cx loc ks F (Return_t f as r) =
     Function_expr ((new_event F Exit)\<lparr>fe_function := getName f, fe_argument := mean_args cx ks f as, fe_expected := mean_result cx ks f r\<rparr>)"
| "meaning cx loc ks F (Equals_t f as t) =
     Function_expr ((new_event F Exit)\<lparr>fe_function := getName f, fe_argument := map (mean_arg cx ks) as, fe_expected := Some (mean_arg cx ks t)\<rparr>)"
| "meaning cx loc ks F (Assign_t op d f t) =
     Field_assign_expr \<lparr>fa_field = mean_field cx ks d f, fa_operation = getD SimpleAssign (assign_op op), fa_value = mean_arg cx ks t,
       fa_strict = Some (fl_strict F)\<rparr>"
| "meaning cx loc ks F (Incr_t op d f) =
     Field_assign_expr \<lparr>fa_field = mean_field cx ks d f, fa_operation = getD SimpleAssign (unary_assign op),
       fa_value = set_value 1 (set_type Constant_arg new_argument), fa_strict = Some (fl_strict F)\<rparr>"
| "meaning cx loc ks F Site_t = Assertion_site loc"
| "meaning cx loc ks F Ignore_t = Null_expr"
| "meaning cx loc ks F (And_t x y) = Boolean_expr BE_And [meaning cx loc ks F x, meaning cx loc ks F y]"
| "meaning cx loc ks F (Or_t x y) = Boolean_expr (getD BE_Or (fl_or F)) [meaning cx loc ks F x, meaning cx loc ks F y]"
| "meaning cx loc ks F (Sequence_t xs) = Sequence_expr (Null_expr # map (meaning cx loc ks F) xs) None None"
| "meaning cx loc ks F (Repeat_t m n xs) = Sequence_expr (map (meaning cx loc ks F) xs) (Some m) (Some n)"
| "meaning cx loc ks F (Optional_t x) = Boolean_expr BE_Xor [Null_expr, meaning cx loc ks F x]"
| "meaning cx loc ks F (Callee_t x) = meaning cx loc ks (F\<lparr>fl_context := Callee\<rparr>) x"
| "meaning cx loc ks F (Caller_t x) = meaning cx loc ks (F\<lparr>fl_context := Caller\<rparr>) x"
| "meaning cx loc ks F (Strict_t x) = meaning cx loc ks (F\<lparr>fl_strict := True\<rparr>) x"
| "meaning cx loc ks F (Conditional_t x) = meaning cx loc ks (F\<lparr>fl_strict := False\<rparr>) x"

end
