(* ===== verification/Tesla_Parser_Correct.thy ===== *)
theory Tesla_Parser_Correct
  imports Tesla_Macros Tesla_Site_Correct
begin

text \<open>
  What the analyser writes into the manifest: an assertion written with the macros is parsed as the
  message it means, and its variables are numbered in the order in which they first occur.
\<close>

subsection \<open>Running the parser\<close>

lemma retP_simp [simp]: "retP x s = Inr (Some x, s)"
  by (simp add: retP_def)

lemma bindP_simps [simp]:
  "p s = Inr (Some x, s') \<Longrightarrow> bindP p f s = f x s'"
  "p s = Inr (None, s') \<Longrightarrow> bindP p f s = Inr (None, s')"
  "p s = Inl e \<Longrightarrow> bindP p f s = Inl e"
  by (simp_all add: bindP_def)

lemma bindP_retP [simp]: "bindP (retP x) f = f x"
  by (rule ext) simp

lemma reject_simp [simp]: "reject msg s = Inr (None, s\<lparr>ps_diags := ps_diags s @ [''TESLA: '' @ msg]\<rparr>)"
  by (simp add: reject_def)

lemma failP_simp [simp]: "failP e s = Inl e"
  by (simp add: failP_def)

subsection \<open>References\<close>

definition numbered :: "argument list \<Rightarrow> argument list" where
  "numbered ks = map (\<lambda>j. set_index (int j) (ks ! j)) [0..<length ks]"

definition enter :: "'a \<Rightarrow> 'a list \<Rightarrow> 'a list" where
  "enter k ks = (if k \<in> set ks then ks else ks @ [k])"

definition enter_all :: "'a list \<Rightarrow> 'a list \<Rightarrow> 'a list" where
  "enter_all xs ks = foldl (\<lambda>l x. enter x l) ks xs"

lemma enter_all_simps [simp]:
  "enter_all [] ks = ks"
  "enter_all (x # xs) ks = enter_all xs (enter x ks)"
  "enter_all (xs @ ys) ks = enter_all ys (enter_all xs ks)"
  by (simp_all add: enter_all_def)

lemma set_enter [simp]: "set (enter k ks) = insert k (set ks)"
  by (auto simp: enter_def)

lemma set_enter_all [simp]: "set (enter_all xs ks) = set xs \<union> set ks"
  by (induction xs arbitrary: ks) (auto simp: enter_def)

lemma distinct_enter_all: "distinct ks \<Longrightarrow> distinct (enter_all xs ks)"
  by (induction xs arbitrary: ks) (auto simp: enter_def)

lemma prefix_enter: "prefix ks (enter k ks)"
  by (simp add: enter_def)

lemma prefix_enter_all: "prefix ks (enter_all xs ks)"
  by (induction xs arbitrary: ks) (auto intro: prefix_order.trans prefix_enter)

lemma prefix_before: "prefix (enter_all xs ks) final \<Longrightarrow> prefix ks final"
  using prefix_enter_all prefix_order.trans by blast

lemma position_in:
  "k \<in> set ks \<Longrightarrow> position k ks < length ks \<and> ks ! position k ks = k"
  by (induction ks) (auto simp: position_def)

lemma position_Cons [simp]: "position k [] = 0" "position k (x # xs) = (if x = k then 0 else Suc (position k xs))"
  by (simp_all add: position_def)

lemma position_before: "j < position k ks \<Longrightarrow> ks ! j \<noteq> k"
  by (induction ks arbitrary: j) (auto simp: nth_Cons split: nat.splits if_splits)

lemma position_prefix: "prefix ks final \<Longrightarrow> k \<in> set ks \<Longrightarrow> position k final = position k ks"
  by (auto simp: prefix_def position_def takeWhile_append1)

lemma position_out: "k \<notin> set ks \<Longrightarrow> position k ks = length ks"
  by (induction ks) auto

lemma position_snoc: "k \<notin> set ks \<Longrightarrow> position k (ks @ [k]) = length ks"
  by (induction ks) auto

lemma indexed_prefix: "prefix ks final \<Longrightarrow> k \<in> set ks \<Longrightarrow> indexed final k = indexed ks k"
  by (simp add: indexed_def position_prefix)

lemma set_index_eq: "a_index x = None \<Longrightarrow> a_index y = None \<Longrightarrow> set_index i x = set_index j y \<longleftrightarrow> i = j \<and> x = y"
  by (cases x; cases y) auto

lemma numbered_nth: "j < length ks \<Longrightarrow> numbered ks ! j = set_index (int j) (ks ! j)"
  by (simp add: numbered_def)

lemma length_numbered [simp]: "length (numbered ks) = length ks"
  by (simp add: numbered_def)

lemma numbered_snoc: "numbered (ks @ [k]) = numbered ks @ [set_index (int (length ks)) k]"
  by (auto simp: numbered_def nth_append intro!: map_cong)

definition unindexed :: "argument list \<Rightarrow> bool" where
  "unindexed ks \<longleftrightarrow> (\<forall>k \<in> set ks. a_index k = None)"

lemma unindexed_enter_all: "unindexed xs \<Longrightarrow> unindexed ks \<Longrightarrow> unindexed (enter_all xs ks)"
  by (auto simp: unindexed_def)

lemma reference_pos_numbered:
  assumes "unindexed ks" and "a_index k = None"
  shows "reference_pos None k (numbered ks) = position k ks"
proof (cases "k \<in> set ks")
  case True
  have "find (\<lambda>j. None = Some j \<or> numbered ks ! j = set_index (int j) k) [0..<length (numbered ks)] = Some (position k ks)"
    unfolding find_Some_iff using position_in [OF True] position_before [of _ k ks] assms
    by (intro exI [of _ "position k ks"]) (auto simp: numbered_nth unindexed_def set_index_eq)
  then show ?thesis by (simp add: reference_pos_def)
next
  case False
  then have "find (\<lambda>j. None = Some j \<or> numbered ks ! j = set_index (int j) k) [0..<length (numbered ks)] = None"
    unfolding find_None_iff using assms by (auto simp: numbered_nth unindexed_def set_index_eq)
  with False show ?thesis by (simp add: reference_pos_def position_out)
qed

text \<open>The state of a parser that has numbered \<open>ks\<close>.\<close>

definition pst :: "cdecl list \<Rightarrow> string list \<Rightarrow> argument list \<Rightarrow> (cdecl \<times> cexpr) list \<Rightarrow> pstate" where
  "pst fr ds ks ms = \<lparr>ps_assigned = ms, ps_free = fr, ps_refs = numbered ks, ps_diags = ds\<rparr>"

lemma RegisterArg_st:
  assumes "unindexed ks" and "a_index k = None" and "a_type k \<notin> {Any_arg, Constant_arg}"
  shows "\<exists>own. RegisterArg None k (pst fr ds ks ms) = Inr (Some (indexed (enter k ks) k, own), pst fr ds (enter k ks) ms)"
  using assms reference_pos_numbered [OF assms(1,2)] position_in [of k ks] position_out [of k ks]
  by (cases "k \<in> set ks") (auto simp: RegisterArg_def pst_def Let_def enter_def indexed_def numbered_snoc position_snoc)

lemma register_if_st:
  assumes "unindexed ks" and "a_index k = None" and "a_type k \<notin> {Any_arg, Constant_arg}"
  shows "register_if False k (pst fr ds ks ms) = Inr (Some [indexed (enter k ks) k], pst fr ds (enter k ks) ms)"
  using RegisterArg_st [OF assms, of fr ds ms] by (auto simp: register_if_def)

subsection \<open>Arguments\<close>

text \<open>A variable that is not a structure.\<close>

fun simple_var :: "cdecl \<Rightarrow> bool" where
  "simple_var (Var_d _ _ t) = (case (case t of Typedef_c t' \<Rightarrow> t' | t' \<Rightarrow> t') of Elaborated_c _ \<Rightarrow> False | _ \<Rightarrow> True)"
| "simple_var _ = False"

fun is_field :: "cdecl \<Rightarrow> bool" where
  "is_field (Field_d _ _ _ _) = True"
| "is_field _ = False"

text \<open>An enumerator whose value is not negative and that fits its type and the message.\<close>

fun plain_enum :: "cdecl \<Rightarrow> bool" where
  "plain_enum (Enum_d _ _ w v) = (0 \<le> v \<and> v < 2 ^ w \<and> v < 2 ^ 63)"
| "plain_enum _ = False"

text \<open>An integer constant expression whose value fits the message.\<close>

definition in_int64 :: "int option \<Rightarrow> bool" where
  "in_int64 v = (case v of None \<Rightarrow> False | Some n \<Rightarrow> - (2 ^ 63) \<le> n \<and> n < 2 ^ 63)"

fun wf_arg :: "clang \<Rightarrow> cdecl list \<Rightarrow> targ \<Rightarrow> bool" where
  "wf_arg cx fr (Var_a d) = (simple_var d \<and> d \<notin> set fr)"
| "wf_arg cx fr (Const_a e) = (case IgnoreParenCasts e of
     Ref_e _ \<Rightarrow> False | Choose_e _ \<Rightarrow> False | Call_e _ _ \<Rightarrow> False | p \<Rightarrow> in_int64 (cl_ice cx e) \<and> cl_ice cx p = cl_ice cx e)"
| "wf_arg cx fr (Enum_a d) = (plain_enum d \<and> d \<notin> set fr)"
| "wf_arg cx fr (Flags_a e) = (case e of Ref_e _ \<Rightarrow> False | _ \<Rightarrow> in_int64 (cl_ice cx e))"
| "wf_arg cx fr (Mask_a e) = (case e of Ref_e _ \<Rightarrow> False | _ \<Rightarrow> in_int64 (cl_ice cx e))"
| "wf_arg cx fr (Any_a _) = True"
| "wf_arg cx fr (Addr_a d) = (simple_var d \<and> d \<notin> set fr \<and> cl_ice cx (write_arg (Addr_a d)) = None)"
| "wf_arg cx fr (Arrow_a d f) = (simple_var d \<and> d \<notin> set fr \<and> is_field f \<and> base_structure (cl_type cx (Ref_e d)) \<noteq> None
     \<and> cl_ice cx (write_field d f) = None)"

definition keys_arg :: "clang \<Rightarrow> targ \<Rightarrow> argument list" where
  "keys_arg cx t = (if has_index t then [key_of cx t] else [])"

lemma set_sels [simp]:
  "a_index (set_type t a) = a_index a" "a_index (set_arg_name x a) = a_index a" "a_index (set_indirection b a) = a_index a"
  "a_index (set_field f a) = a_index a" "a_index new_argument = None"
  "a_type (set_type t a) = t" "a_type (set_arg_name x a) = a_type a" "a_type (set_indirection b a) = a_type a"
  "a_type (set_field f a) = a_type a" "a_index (set_index i a) = Some i"
  by (cases a; simp add: new_argument_def)+

lemma unindexed_keys_arg: "unindexed (keys_arg cx t)"
  by (cases t) (auto simp: keys_arg_def unindexed_def variable_def)

lemma ParseArg_decl_plain:
  assumes "simple_var d" and "d \<notin> set (ps_free s)"
  shows "ParseArg_decl single tmpl False dnr d acc s = finish_arg single dnr (set_type Variable_arg (set_arg_name (getName d) tmpl)) acc s"
  using assms by (cases d) (auto simp: ParseArg_decl.simps Let_def split: ctype.splits)

lemma pst_free [simp]: "ps_free (pst fr ds ks ms) = fr"
  by (simp add: pst_def)

lemma arg_value_variable:
  assumes "simple_var d" and "d \<notin> set fr" and "unindexed ks"
  shows "arg_value cx single new_argument False (Ref_e d) (pst fr ds ks ms)
    = Inr (Some [indexed (enter (variable d) ks) (variable d)], pst fr ds (enter (variable d) ks) ms)"
proof -
  have "a_index (variable d) = None" "a_type (variable d) \<notin> {Any_arg, Constant_arg}" by (simp_all add: variable_def)
  from RegisterArg_st [OF assms(3) this, of fr ds ms] obtain own where
    "RegisterArg None (variable d) (pst fr ds ks ms) = Inr (Some (indexed (enter (variable d) ks) (variable d), own), pst fr ds (enter (variable d) ks) ms)"
    by blast
  with assms(1,2) show ?thesis
    by (simp add: arg_value.simps ParseArg_decl_plain finish_arg_def variable_def [symmetric] put_arg_def)
qed

lemma arg_value_inner:
  assumes "simple_var d" and "d \<notin> set fr"
  shows "arg_value cx True new_argument True (Ref_e d) (pst fr ds ks ms) = Inr (Some [variable d], pst fr ds ks ms)"
  using assms by (simp add: arg_value.simps ParseArg_decl_plain finish_arg_def variable_def put_arg_def)

lemma arg_value_constant:
  assumes "\<And>d. p \<noteq> Ref_e d" and "in_int64 (cl_ice cx p)"
  shows "arg_value cx single tmpl dnr p s = Inr (Some [constant_of (cl_macro cx p) (cl_ice cx p) tmpl], s)"
proof -
  from assms(2) obtain v where v: "cl_ice cx p = Some v" "int64_of v = v"
    by (cases "cl_ice cx p") (auto simp: in_int64_def int64_of_def)
  with assms(1) show ?thesis by (cases p) (auto simp: arg_value.simps constant_of_def named_constant_def)
qed

lemma enumerator_value: "0 \<le> v \<Longrightarrow> v < 2 ^ w \<Longrightarrow> v < 2 ^ 63 \<Longrightarrow> int64_of (limited_value (w, v)) = v"
  by (simp add: int64_of_def limited_value_def)

lemma ParseArg_ref: "IgnoreParenCasts e = Ref_e d \<Longrightarrow> ParseArg cx single tmpl dnr e = arg_value cx single tmpl dnr (Ref_e d)"
  by (simp add: ParseArg.simps)

lemma ParseStructField_plain:
  assumes "simple_var d" and "d \<notin> set fr" and "is_field f" and "base_structure (cl_type cx (Ref_e d)) \<noteq> None"
  shows "ParseStructField cx True (Implicit_e (Ref_e d)) f (pst fr ds ks ms) = Inr (Some (field_of cx (variable d) d f), pst fr ds ks ms)"
    and "unindexed ks \<Longrightarrow> ParseStructField cx False (Implicit_e (Ref_e d)) f (pst fr ds ks ms)
      = Inr (Some (field_of cx (indexed (enter (variable d) ks) (variable d)) d f), pst fr ds (enter (variable d) ks) ms)"
  using assms arg_value_inner [OF assms(1,2)] arg_value_variable [OF assms(1,2)]
  by (cases f; auto simp: ParseStructField.simps IgnoreImpCasts_def ParseArg_ref field_of_def only_arg_def)+

lemma arg_value_addr:
  "cl_ice cx (Unary_e UO_AddrOf x) = None \<Longrightarrow> arg_value cx single tmpl dnr (Unary_e UO_AddrOf x) =
     bindP (ParseArg cx True new_argument True x) (\<lambda>inner.
       register_if dnr (if inner = [] then tmpl else set_indirection (only_arg inner) (set_type Indirect_arg tmpl)))"
  by (subst arg_value.simps) simp

lemma arg_value_member:
  "cl_ice cx (Member_e b d) = None \<Longrightarrow> arg_value cx single tmpl dnr (Member_e b d) =
     bindP (ParseStructField cx True b d) (\<lambda>f. register_if dnr (set_field f (set_type Field_arg tmpl)))"
  by (subst arg_value.simps) simp

lemma ParseArg_written:
  assumes "wf_arg cx fr t" and "unindexed ks" and "prefix (enter_all (keys_arg cx t) ks) final"
  shows "ParseArg cx single new_argument False (write_arg t) (pst fr ds ks ms)
    = Inr (Some [mean_arg cx final t], pst fr ds (enter_all (keys_arg cx t) ks) ms)"
proof -
  have i: "has_index t \<Longrightarrow> indexed final (key_of cx t) = indexed (enter (key_of cx t) ks) (key_of cx t)"
    using indexed_prefix [OF assms(3), of "key_of cx t"] by (simp add: keys_arg_def)
  have u: "has_index t \<Longrightarrow> a_index (key_of cx t) = None" using unindexed_keys_arg [of cx t] by (simp add: keys_arg_def unindexed_def)
  note reg = register_if_st [OF assms(2)]
  show ?thesis
  proof (cases t)
    case (Var_a d)
    with assms(1,2) i show ?thesis by (simp add: ParseArg_ref arg_value_variable mean_arg_def keys_arg_def)
  next
    case (Const_a e)
    with assms(1) have "\<And>d. IgnoreParenCasts e \<noteq> Ref_e d" and "in_int64 (cl_ice cx (IgnoreParenCasts e))"
      and "cl_ice cx (IgnoreParenCasts e) = cl_ice cx e" by (cases "IgnoreParenCasts e"; simp)+
    moreover have "ParseArg cx single new_argument False e = arg_value cx single new_argument False (IgnoreParenCasts e)"
      using assms(1) Const_a by (subst ParseArg.simps) (cases "IgnoreParenCasts e"; simp)
    ultimately show ?thesis using Const_a by (simp add: arg_value_constant mean_arg_def keys_arg_def)
  next
    case (Enum_a d)
    with assms(1) show ?thesis
      by (cases d) (auto simp: ParseArg_ref arg_value.simps ParseArg_decl.simps put_arg_def mean_arg_def keys_arg_def bindP_def Let_def enumerator_value)
  next
    case (Flags_a e)
    with assms(1) have "\<And>d. e \<noteq> Ref_e d" and "in_int64 (cl_ice cx e)" by (auto split: cexpr.splits)
    with Flags_a show ?thesis by (simp add: ParseArg.simps flags_m_def FLAGS_def MASK_def arg_value_constant mean_arg_def keys_arg_def)
  next
    case (Mask_a e)
    with assms(1) have "\<And>d. e \<noteq> Ref_e d" and "in_int64 (cl_ice cx e)" by (auto split: cexpr.splits)
    with Mask_a show ?thesis by (simp add: ParseArg.simps bitmask_def FLAGS_def MASK_def arg_value_constant mean_arg_def keys_arg_def)
  next
    case (Any_a ty)
    then show ?thesis by (simp add: ParseArg.simps ANY_m_def FLAGS_def MASK_def ANY_def mean_arg_def keys_arg_def)
  next
    case (Addr_a d)
    with assms(1) have w: "simple_var d" "d \<notin> set fr" "cl_ice cx (Unary_e UO_AddrOf (Ref_e d)) = None" by auto
    from Addr_a reg [of "key_of cx t" fr ds ms] u i show ?thesis
      by (simp add: ParseArg.simps [of _ _ _ _ "Unary_e UO_AddrOf (Ref_e d)"] arg_value_addr w ParseArg_ref arg_value_inner [OF w(1,2)] only_arg_def mean_arg_def keys_arg_def)
  next
    case (Arrow_a d f)
    with assms(1) have w: "simple_var d" "d \<notin> set fr" "is_field f" "base_structure (cl_type cx (Ref_e d)) \<noteq> None"
      "cl_ice cx (Member_e (Implicit_e (Ref_e d)) f) = None" by (auto simp: write_field_def)
    from Arrow_a reg [of "key_of cx t" fr ds ms] u i show ?thesis
      by (simp add: ParseArg.simps arg_value_member w ParseStructField_plain(1) [OF w(1-4)] mean_arg_def keys_arg_def)
  qed
qed

definition keys_args :: "clang \<Rightarrow> targ list \<Rightarrow> argument list" where
  "keys_args cx ts = concat (map (keys_arg cx) ts)"

lemma unindexed_keys_args: "unindexed (keys_args cx ts)"
  using unindexed_keys_arg by (auto simp: keys_args_def unindexed_def)

lemma ParseArgs_written:
  "\<forall>t \<in> set ts. wf_arg cx fr t \<Longrightarrow> unindexed ks \<Longrightarrow> prefix (enter_all (keys_args cx ts) ks) final \<Longrightarrow>
   ParseArgs cx (map write_arg ts) (pst fr ds ks ms) = Inr (Some (map (mean_arg cx final) ts), pst fr ds (enter_all (keys_args cx ts) ks) ms)"
proof (induction ts arbitrary: ks)
  case (Cons t ts)
  let ?ks = "enter_all (keys_arg cx t) ks"
  have k: "keys_args cx (t # ts) = keys_arg cx t @ keys_args cx ts" by (simp add: keys_args_def)
  have "unindexed ?ks" using Cons.prems(2) unindexed_keys_arg unindexed_enter_all by blast
  with Cons k have "ParseArgs cx (map write_arg ts) (pst fr ds ?ks ms)
      = Inr (Some (map (mean_arg cx final) ts), pst fr ds (enter_all (keys_args cx ts) ?ks) ms)" by simp
  moreover have "ParseArg cx False new_argument False (write_arg t) (pst fr ds ks ms) = Inr (Some [mean_arg cx final t], pst fr ds ?ks ms)"
    using Cons.prems k prefix_before by (intro ParseArg_written) auto
  ultimately show ?case by (simp add: k)
qed (simp add: keys_args_def)

text \<open>Stripping implicit casts first makes no difference.\<close>

lemma strip_strip [simp]: "IgnoreParenCasts (IgnoreImplicit e) = IgnoreParenCasts e" "IgnoreParenCasts (IgnoreParenCasts e) = IgnoreParenCasts e"
  by (induction e rule: IgnoreImplicit.induct; simp) (induction e rule: IgnoreParenCasts.induct; simp)

lemma ParseArg_strip [simp]:
  "ParseArg cx single tmpl dnr (IgnoreImplicit e) = ParseArg cx single tmpl dnr e"
  "ParseArg cx single tmpl dnr (IgnoreParenCasts e) = ParseArg cx single tmpl dnr e"
  by (subst (1 2) ParseArg.simps; simp)+

lemma ParseArgs_strip [simp]: "ParseArgs cx (map IgnoreImplicit es) = ParseArgs cx es"
  by (induction es) simp_all

definition wf_params :: "cdecl list \<Rightarrow> cdecl list \<Rightarrow> bool" where
  "wf_params fr ds \<longleftrightarrow> (\<forall>d \<in> set ds. simple_var d \<and> d \<notin> set fr)"

lemma ParseParams_plain:
  "wf_params fr ps \<Longrightarrow> ParseParams ps (pst fr ds ks ms)
    = Inr (Some (map (\<lambda>d. set_type Any_arg (set_arg_name (getName d) new_argument)) ps), pst fr ds ks ms)"
proof (induction ps)
  case (Cons d ps)
  then have "simple_var d" "d \<notin> set fr" by (auto simp: wf_params_def)
  then have "ParseArg_decl False new_argument True False d ([], None) (pst fr ds ks ms)
      = Inr (Some ([set_type Any_arg (set_arg_name (getName d) new_argument)], None), pst fr ds ks ms)"
    by (cases d) (auto simp: ParseArg_decl.simps Let_def put_arg_def split: ctype.splits)
  with Cons show ?case by (simp add: wf_params_def)
qed simp

subsection \<open>Events\<close>

fun named_fn :: "cdecl \<Rightarrow> bool" where
  "named_fn (Fun_d _ x _ _) = (x \<noteq> [])"
| "named_fn _ = False"

text \<open>Arguments are given for all parameters or none, and none if the result is asked for.\<close>

definition wf_args :: "clang \<Rightarrow> cdecl list \<Rightarrow> cdecl \<Rightarrow> bool \<Rightarrow> targ list option \<Rightarrow> bool" where
  "wf_args cx fr f have_ret as =
     (if as = None \<or> as = Some [] then wf_params fr (params_of f)
      else \<not> have_ret \<and> length (getD [] as) = length (params_of f) \<and> (\<forall>t \<in> set (getD [] as). wf_arg cx fr t))"

lemma getDirectCallee_fn [simp]: "named_fn f \<Longrightarrow> getDirectCallee (Some f) = Some f"
  by (cases f) auto

lemma ParseFunctionRef_fn [simp]: "named_fn f \<Longrightarrow> ParseFunctionRef f = retP (getName f)"
  by (cases f) (auto simp: ParseFunctionRef_def)

lemma IgnoreParenCasts_fn [simp]: "IgnoreParenCasts (write_fn f as) = write_fn f as"
  by (simp add: write_fn_def split: option.splits)

lemma event_target_fn:
  "named_fn f \<Longrightarrow> event_target cx (write_fn f as) ev = retP (ev\<lparr>fe_function := getName f\<rparr>, getResultType f, params_of f, map write_arg (getD [] as))"
  by (cases f) (auto simp: event_target_def write_fn_def getD_def split: option.splits)

lemma event_arguments_fn:
  assumes "wf_args cx fr f have_ret as" and "unindexed ks" and "prefix (enter_all (keys_args cx (getD [] as)) ks) final"
  shows "event_arguments cx have_ret (params_of f) (map write_arg (getD [] as)) (pst fr ds ks ms)
    = Inr (Some (mean_args cx final f as), pst fr ds (enter_all (keys_args cx (getD [] as)) ks) ms)"
proof (cases "as = None \<or> as = Some []")
  case True
  with assms(1) ParseParams_plain show ?thesis by (auto simp: wf_args_def event_arguments_def mean_args_def getD_def keys_args_def)
next
  case False
  then obtain t ts where "as = Some (t # ts)" by (cases as; cases "getD [] as") (auto simp: getD_def)
  with assms ParseArgs_written [of "t # ts"] show ?thesis
    by (simp add: wf_args_def event_arguments_def mean_args_def getD_def del: ParseArgs.simps list.map)
qed

lemma expected_value_fn:
  assumes "\<forall>t. r = Some t \<longrightarrow> wf_arg cx fr t" and "unindexed ks"
    and "prefix (enter_all (if have_ret then keys_args cx (case r of None \<Rightarrow> [] | Some t \<Rightarrow> [t]) else []) ks) final"
  shows "expected_value cx have_ret (map_option (IgnoreParenCasts \<circ> write_arg) r) ev (pst fr ds ks ms)
    = Inr (Some (if have_ret then ev\<lparr>fe_expected := Some (case r of None \<Rightarrow> set_type Any_arg new_argument | Some t \<Rightarrow> mean_arg cx final t)\<rparr> else ev),
        pst fr ds (enter_all (if have_ret then keys_args cx (case r of None \<Rightarrow> [] | Some t \<Rightarrow> [t]) else []) ks) ms)"
  using assms ParseArg_written [of cx fr "the r" ks final True ds ms]
  by (cases r; cases have_ret) (auto simp: expected_value_def keys_args_def set_arg_def)

definition keys_result :: "clang \<Rightarrow> cdecl \<Rightarrow> targ option \<Rightarrow> argument list" where
  "keys_result cx f r =
     (if isVoidType (getResultType f) then [] else keys_args cx (case r of None \<Rightarrow> [] | Some t \<Rightarrow> [t]))"

lemma TIGNORE_simps [simp]:
  "CheckIgnore TIGNORE = retP ()" "Parse cx loc F TIGNORE = retP Null_expr" "Parse cx loc F TESLA_ASSERTION_SITE = retP (Assertion_site loc)"
  by (simp_all add: CheckIgnore_def TIGNORE_def TESLA_ASSERTION_SITE_def event_var_def IGNORE_EVENT_def ASSERTION_SITE_def)

lemma event_fn_simps [simp]:
  "getDirectCallee (Some (event_fn x)) = Some (event_fn x)" "call_kind_of (event_fn x) = Inr False" "getName (event_fn x) = x"
  by (simp_all add: event_fn_def call_kind_of_def)

lemma call_and_result_simps [simp]:
  "call_and_result pseudo (write_fn f as) = retP (write_fn f as, None)"
  "call_and_result ''__tesla_return'' (Binary_e op l r) = retP (IgnoreParenCasts l, Some (IgnoreParenCasts r))"
  by (simp_all add: call_and_result_def write_fn_def split: option.splits)

lemma Parse_call:
  assumes "named_fn f" and "wf_args cx fr f False as" and "unindexed ks" and "prefix (enter_all (keys_args cx (getD [] as)) ks) final"
  shows "Parse cx loc F (call_m (write_fn f as)) (pst fr ds ks ms)
    = Inr (Some (meaning cx loc final F (Call_t f as)), pst fr ds (enter_all (keys_args cx (getD [] as)) ks) ms)"
  by (simp add: call_m_def modifier_of_def ParseFunctionCall_def ParseFunctionDetails_def event_target_fn [OF assms(1)]
      event_arguments_fn [OF assms(2-4)] expected_value_def new_event_def del: IgnoreParenCasts.simps(5))

lemma Parse_return:
  assumes "named_fn f" and "wf_args cx fr f (\<not> isVoidType (getResultType f)) as" and "unindexed ks"
    and "\<forall>t. r = Some t \<longrightarrow> wf_arg cx fr t \<and> \<not> isVoidType (getResultType f)"
    and "prefix (enter_all (keys_args cx (getD [] as) @ keys_result cx f r) ks) final"
  shows "Parse cx loc F (written (Return_t f as r)) (pst fr ds ks ms)
    = Inr (Some (meaning cx loc final F (Return_t f as r)), pst fr ds (enter_all (keys_args cx (getD [] as) @ keys_result cx f r) ks) ms)"
proof -
  let ?v = "isVoidType (getResultType f)"
  let ?ks = "enter_all (keys_args cx (getD [] as)) ks"
  let ?e = "case r of None \<Rightarrow> write_fn f as | Some t \<Rightarrow> Binary_e BO_EQ (write_fn f as) (write_arg t)"
  have t: "call_and_result ''__tesla_return'' (IgnoreParenCasts ?e) = retP (write_fn f as, map_option (IgnoreParenCasts \<circ> write_arg) r)"
    by (simp split: option.splits)
  have p: "prefix ?ks final" "prefix (enter_all (if \<not> ?v then keys_args cx (case r of None \<Rightarrow> [] | Some t \<Rightarrow> [t]) else []) ?ks) final"
    using assms(5) prefix_before by (auto simp: keys_result_def)
  have u: "unindexed ?ks" using assms(3) unindexed_enter_all unindexed_keys_args by blast
  note a = event_arguments_fn [OF assms(2,3) p(1), of ds ms]
  from assms(4) have "\<forall>t. r = Some t \<longrightarrow> wf_arg cx fr t" by blast
  from expected_value_fn [OF this u p(2)] a t show ?thesis
    by (cases ?v) (simp_all add: returnfrom_def modifier_of_def ParseFunctionReturn_def ParseFunctionDetails_def event_target_fn [OF assms(1)]
        mean_result_def keys_result_def new_event_def del: IgnoreParenCasts.simps(5))
qed

lemma Parse_equals:
  assumes "named_fn f" and "\<forall>t \<in> set as. wf_arg cx fr t" and "unindexed ks" and "wf_arg cx fr t"
    and "cl_ice cx (write_arg t) \<noteq> None" and "cl_ice cx (write_fn f (Some as)) = None" and "fl_or F \<noteq> None"
    and "prefix (enter_all (keys_args cx (t # as)) ks) final"
  shows "Parse cx loc F (written (Equals_t f as t)) (pst fr ds ks ms)
    = Inr (Some (meaning cx loc final F (Equals_t f as t)), pst fr ds (enter_all (keys_args cx (t # as)) ks) ms)"
proof -
  let ?ks = "enter_all (keys_arg cx t) ks"
  have p: "prefix ?ks final" "prefix (enter_all (keys_args cx as) ?ks) final" using assms(8) prefix_before by (auto simp: keys_args_def)
  have u: "unindexed ?ks" using assms(3) unindexed_enter_all unindexed_keys_arg by blast
  note v = ParseArg_written [OF assms(4,3) p(1), of True ds ms] and a = ParseArgs_written [OF assms(2) u p(2), of ds ms]
  from assms(5-7) v a assms(1) show ?thesis
    by (auto simp: compound_assign_def ParseFunctionCall_eq_def write_fn_def keys_args_def set_arg_def new_event_def)
qed

subsection \<open>Assignments\<close>

text \<open>The assignments to a field are all simple or all compound.\<close>

definition kinds :: "(cdecl \<Rightarrow> bool) \<Rightarrow> (cdecl \<times> cexpr) list \<Rightarrow> bool" where
  "kinds kind ms \<longleftrightarrow> (\<forall>(d, e) \<in> set ms. SimpleAssignment e = kind d)"

definition assign :: "cdecl \<times> cexpr \<Rightarrow> (cdecl \<times> cexpr) list \<Rightarrow> (cdecl \<times> cexpr) list" where
  "assign de ms = (if map_of ms (fst de) = None then de # ms else ms)"

definition assign_all :: "(cdecl \<times> cexpr) list \<Rightarrow> (cdecl \<times> cexpr) list \<Rightarrow> (cdecl \<times> cexpr) list" where
  "assign_all xs ms = foldl (\<lambda>l x. assign x l) ms xs"

lemma assign_all_simps [simp]:
  "assign_all [] ms = ms" "assign_all (x # xs) ms = assign_all xs (assign x ms)"
  "assign_all (xs @ ys) ms = assign_all ys (assign_all xs ms)"
  by (simp_all add: assign_all_def)

lemma kinds_simps [simp]:
  "kinds kind []" "kinds kind ((d, e) # ms) \<longleftrightarrow> SimpleAssignment e = kind d \<and> kinds kind ms"
  "kinds kind (xs @ ys) \<longleftrightarrow> kinds kind xs \<and> kinds kind ys"
  "kinds kind (concat xss) \<longleftrightarrow> (\<forall>xs \<in> set xss. kinds kind xs)"
  by (auto simp: kinds_def)

lemma kinds_assign_all: "kinds kind xs \<Longrightarrow> kinds kind ms \<Longrightarrow> kinds kind (assign_all xs ms)"
  by (induction xs arbitrary: ms) (auto simp: assign_def)

lemma CheckAssignmentKind_st:
  assumes "SimpleAssignment e = kind d" and "kinds kind ms"
  shows "CheckAssignmentKind d e (pst fr ds ks ms) = Inr (Some (), pst fr ds ks (assign (d, e) ms))"
  using assms map_of_SomeD [of ms d] by (auto simp: CheckAssignmentKind_def pst_def assign_def kinds_def split: option.splits)

definition wf_field :: "clang \<Rightarrow> cdecl list \<Rightarrow> cdecl \<Rightarrow> cdecl \<Rightarrow> bool" where
  "wf_field cx fr d f \<longleftrightarrow> simple_var d \<and> d \<notin> set fr \<and> is_field f \<and> base_structure (cl_type cx (Ref_e d)) \<noteq> None"

lemma ParseStructField_written:
  assumes "wf_field cx fr d f" and "unindexed ks" and "prefix (enter (variable d) ks) final"
  shows "ParseStructField cx False (Implicit_e (Ref_e d)) f (pst fr ds ks ms)
    = Inr (Some (mean_field cx final d f), pst fr ds (enter (variable d) ks) ms)"
  using assms ParseStructField_plain(2) [of d fr f cx ks] indexed_prefix [OF assms(3), of "variable d"]
  by (simp add: wf_field_def mean_field_def)

lemma Parse_assign:
  assumes "wf_field cx fr d f" and "wf_arg cx fr t" and "assign_op op \<noteq> None" and "(op = BO_Assign) = kind f"
    and "unindexed ks" and "kinds kind ms" and "fl_or F \<noteq> None" and "prefix (enter_all (variable d # keys_arg cx t) ks) final"
  shows "Parse cx loc F (written (Assign_t op d f t)) (pst fr ds ks ms)
    = Inr (Some (meaning cx loc final F (Assign_t op d f t)),
        pst fr ds (enter_all (variable d # keys_arg cx t) ks) (assign (f, written (Assign_t op d f t)) ms))"
proof -
  let ?e = "written (Assign_t op d f t)" and ?ks = "enter (variable d) ks"
  have p: "prefix ?ks final" "prefix (enter_all (keys_arg cx t) ?ks) final" using assms(8) prefix_before by auto
  have u: "unindexed ?ks" using assms(5) by (simp add: unindexed_def variable_def)
  have "SimpleAssignment ?e = kind f" using assms(4) by (simp add: SimpleAssignment_def)
  note c = CheckAssignmentKind_st [OF this assms(6), of fr ds ks]
  have "Parse cx loc F ?e = ParseFieldAssign cx F op (write_field d f) (write_arg t)"
    using assms(3,7) by (cases op) (auto simp: assign_op_def compound_assign_def)
  with assms(3) c ParseStructField_written [OF assms(1,5) p(1)] ParseArg_written [OF assms(2) u p(2)] show ?thesis
    by (auto simp: ParseFieldAssign_def write_field_def only_arg_def getD_def)
qed

lemma Parse_incr:
  assumes "wf_field cx fr d f" and "unary_assign op \<noteq> None" and "\<not> kind f"
    and "unindexed ks" and "kinds kind ms" and "prefix (enter (variable d) ks) final"
  shows "Parse cx loc F (written (Incr_t op d f)) (pst fr ds ks ms)
    = Inr (Some (meaning cx loc final F (Incr_t op d f)), pst fr ds (enter (variable d) ks) (assign (f, written (Incr_t op d f)) ms))"
proof -
  have "SimpleAssignment (written (Incr_t op d f)) = kind f" using assms(3) by (simp add: SimpleAssignment_def)
  from assms(2) CheckAssignmentKind_st [OF this assms(5), of fr ds ks] ParseStructField_written [OF assms(1,4,6)] show ?thesis
    by (auto simp: Parse_unary_def write_field_def getD_def)
qed

subsection \<open>Expressions\<close>

fun well_written :: "clang \<Rightarrow> cdecl list \<Rightarrow> (cdecl \<Rightarrow> bool) \<Rightarrow> tesla \<Rightarrow> bool" where
  "well_written cx fr kind (Call_t f as) = (named_fn f \<and> wf_args cx fr f False as)"
| "well_written cx fr kind (Return_t f as r) = (named_fn f \<and> wf_args cx fr f (\<not> isVoidType (getResultType f)) as
     \<and> (case r of None \<Rightarrow> True | Some t \<Rightarrow> wf_arg cx fr t \<and> \<not> isVoidType (getResultType f)))"
| "well_written cx fr kind (Equals_t f as t) = (named_fn f \<and> (\<forall>a \<in> set as. wf_arg cx fr a) \<and> wf_arg cx fr t
     \<and> \<not> has_index t \<and> cl_ice cx (write_arg t) \<noteq> None \<and> cl_ice cx (write_fn f (Some as)) = None)"
| "well_written cx fr kind (Assign_t op d f t) = (wf_field cx fr d f \<and> wf_arg cx fr t \<and> assign_op op \<noteq> None \<and> (op = BO_Assign) = kind f)"
| "well_written cx fr kind (Incr_t op d f) = (wf_field cx fr d f \<and> unary_assign op \<noteq> None \<and> \<not> kind f)"
| "well_written cx fr kind Site_t = True"
| "well_written cx fr kind Ignore_t = True"
| "well_written cx fr kind (And_t x y) = (well_written cx fr kind x \<and> well_written cx fr kind y)"
| "well_written cx fr kind (Or_t x y) = (well_written cx fr kind x \<and> well_written cx fr kind y)"
| "well_written cx fr kind (Sequence_t xs) = (\<forall>x \<in> set xs. well_written cx fr kind x)"
| "well_written cx fr kind (Repeat_t m n xs) = (xs \<noteq> [] \<and> 0 \<le> m \<and> m \<le> ANY_REP \<and> 0 \<le> n \<and> n \<le> ANY_REP \<and> (\<forall>x \<in> set xs. well_written cx fr kind x))"
| "well_written cx fr kind (Optional_t x) = well_written cx fr kind x"
| "well_written cx fr kind (Callee_t x) = well_written cx fr kind x"
| "well_written cx fr kind (Caller_t x) = well_written cx fr kind x"
| "well_written cx fr kind (Strict_t x) = well_written cx fr kind x"
| "well_written cx fr kind (Conditional_t x) = well_written cx fr kind x"

text \<open>The references of an assertion, and its assignments, as they are met.\<close>

fun keys_in :: "clang \<Rightarrow> tesla \<Rightarrow> argument list" where
  "keys_in cx (Call_t f as) = keys_args cx (getD [] as)"
| "keys_in cx (Return_t f as r) = keys_args cx (getD [] as) @ keys_result cx f r"
| "keys_in cx (Equals_t f as t) = keys_args cx as"
| "keys_in cx (Assign_t op d f t) = variable d # keys_arg cx t"
| "keys_in cx (Incr_t op d f) = [variable d]"
| "keys_in cx (And_t x y) = keys_in cx x @ keys_in cx y"
| "keys_in cx (Or_t x y) = keys_in cx x @ keys_in cx y"
| "keys_in cx (Sequence_t xs) = concat (map (keys_in cx) xs)"
| "keys_in cx (Repeat_t m n xs) = concat (map (keys_in cx) xs)"
| "keys_in cx (Optional_t x) = keys_in cx x"
| "keys_in cx (Callee_t x) = keys_in cx x"
| "keys_in cx (Caller_t x) = keys_in cx x"
| "keys_in cx (Strict_t x) = keys_in cx x"
| "keys_in cx (Conditional_t x) = keys_in cx x"
| "keys_in cx _ = []"

fun assigns :: "tesla \<Rightarrow> (cdecl \<times> cexpr) list" where
  "assigns (Assign_t op d f t) = [(f, written (Assign_t op d f t))]"
| "assigns (Incr_t op d f) = [(f, written (Incr_t op d f))]"
| "assigns (And_t x y) = assigns x @ assigns y"
| "assigns (Or_t x y) = assigns x @ assigns y"
| "assigns (Sequence_t xs) = concat (map assigns xs)"
| "assigns (Repeat_t m n xs) = concat (map assigns xs)"
| "assigns (Optional_t x) = assigns x"
| "assigns (Callee_t x) = assigns x"
| "assigns (Caller_t x) = assigns x"
| "assigns (Strict_t x) = assigns x"
| "assigns (Conditional_t x) = assigns x"
| "assigns _ = []"

lemma unindexed_simps [simp]:
  "unindexed []" "unindexed (xs @ ys) \<longleftrightarrow> unindexed xs \<and> unindexed ys" "unindexed (x # xs) \<longleftrightarrow> a_index x = None \<and> unindexed xs"
  "unindexed (concat xss) \<longleftrightarrow> (\<forall>xs \<in> set xss. unindexed xs)"
  by (auto simp: unindexed_def)

lemma unindexed_keys: "unindexed (keys_in cx t)"
  by (induction t) (simp_all add: unindexed_keys_args unindexed_keys_arg keys_result_def variable_def)

lemma kinds_assigns: "well_written cx fr kind t \<Longrightarrow> kinds kind (assigns t)"
  by (induction t) (auto simp: SimpleAssignment_def)

text \<open>Parsing an assertion gives its meaning, whatever is parsed before and after it.\<close>

definition parses :: "clang \<Rightarrow> ir_location \<Rightarrow> cdecl list \<Rightarrow> (cdecl \<Rightarrow> bool) \<Rightarrow> argument list \<Rightarrow> tesla \<Rightarrow> bool" where
  "parses cx loc fr kind final t \<longleftrightarrow> (\<forall>F ds ks ms. fl_or F \<noteq> None \<longrightarrow> unindexed ks \<longrightarrow> kinds kind ms \<longrightarrow> prefix (enter_all (keys_in cx t) ks) final \<longrightarrow>
     Parse cx loc F (written t) (pst fr ds ks ms) = Inr (Some (meaning cx loc final F t), pst fr ds (enter_all (keys_in cx t) ks) (assign_all (assigns t) ms)))"

lemma parsesD:
  "parses cx loc fr kind final t \<Longrightarrow> fl_or F \<noteq> None \<Longrightarrow> unindexed ks \<Longrightarrow> kinds kind ms \<Longrightarrow> prefix (enter_all (keys_in cx t) ks) final \<Longrightarrow>
     Parse cx loc F (written t) (pst fr ds ks ms) = Inr (Some (meaning cx loc final F t), pst fr ds (enter_all (keys_in cx t) ks) (assign_all (assigns t) ms))"
  by (simp add: parses_def)

lemma parses_list:
  assumes "\<forall>x \<in> set xs. parses cx loc fr kind final x \<and> well_written cx fr kind x" and "fl_or F \<noteq> None" and "unindexed ks" and "kinds kind ms"
    and "prefix (enter_all (concat (map (keys_in cx) xs)) ks) final"
  shows "Parse_list cx loc F (map written xs) (pst fr ds ks ms)
    = Inr (Some (map (meaning cx loc final F) xs), pst fr ds (enter_all (concat (map (keys_in cx) xs)) ks) (assign_all (concat (map assigns xs)) ms))"
  using assms
proof (induction xs arbitrary: ks ms)
  case (Cons x xs)
  let ?ks = "enter_all (keys_in cx x) ks" and ?ms = "assign_all (assigns x) ms"
  have "unindexed ?ks" "kinds kind ?ms"
    using Cons.prems(1,3,4) unindexed_keys unindexed_enter_all kinds_assigns kinds_assign_all by auto
  with Cons have "Parse_list cx loc F (map written xs) (pst fr ds ?ks ?ms)
      = Inr (Some (map (meaning cx loc final F) xs), pst fr ds (enter_all (concat (map (keys_in cx) xs)) ?ks) (assign_all (concat (map assigns xs)) ?ms))"
    by simp
  moreover have "Parse cx loc F (written x) (pst fr ds ks ms) = Inr (Some (meaning cx loc final F x), pst fr ds ?ks ?ms)"
    using Cons.prems prefix_before by (intro parsesD) auto
  ultimately show ?case by simp
qed simp

lemma parses_both:
  assumes "parses cx loc fr kind final x" and "well_written cx fr kind x" and "parses cx loc fr kind final y" and "fl_or F \<noteq> None"
    and "unindexed ks" and "kinds kind ms" and "prefix (enter_all (keys_in cx x @ keys_in cx y) ks) final"
  shows "bindP (Parse cx loc F (written x)) (\<lambda>a. bindP (Parse cx loc F (written y)) (\<lambda>b. retP (g a b))) (pst fr ds ks ms)
    = Inr (Some (g (meaning cx loc final F x) (meaning cx loc final F y)),
        pst fr ds (enter_all (keys_in cx x @ keys_in cx y) ks) (assign_all (assigns x @ assigns y) ms))"
proof -
  let ?ks = "enter_all (keys_in cx x) ks" and ?ms = "assign_all (assigns x) ms"
  have u: "unindexed ?ks" "kinds kind ?ms"
    using assms(2,5,6) unindexed_keys unindexed_enter_all kinds_assigns kinds_assign_all by auto
  have "prefix ?ks final" using assms(7) prefix_before by auto
  note a = parsesD [OF assms(1,4-6) this, of ds]
  from assms(7) have "prefix (enter_all (keys_in cx y) ?ks) final" by simp
  with a parsesD [OF assms(3,4) u this, of ds] show ?thesis by simp
qed

lemma reps_value: "0 \<le> m \<Longrightarrow> m \<le> ANY_REP \<Longrightarrow> int32_of (limited_value (32, m)) = m"
  by (simp add: int32_of_def limited_value_def ANY_REP_def)

lemma Parse_modifier:
  assumes "modifier_of x = Some m" and "m \<notin> {M_call, M_return, M_sequence, M_repeat}"
  shows "Parse cx loc F (Call_e (Some (event_fn x)) [TIGNORE, e]) =
     (if m = M_optional then bindP (Parse cx loc F e) (\<lambda>y. retP (Boolean_expr BE_Xor [Null_expr, y]))
      else Parse cx loc (if m = M_callee then F\<lparr>fl_context := Callee\<rparr> else if m = M_caller then F\<lparr>fl_context := Caller\<rparr>
        else F\<lparr>fl_strict := (m = M_strict)\<rparr>) e)"
  using assms by (auto simp: bindP_def)

lemma Parse_written: "well_written cx fr kind t \<Longrightarrow> parses cx loc fr kind final t"
proof (induction t)
  case (Call_t f as)
  then show ?case by (auto simp: parses_def Parse_call)
next
  case (Return_t f as r)
  then have w: "named_fn f" "wf_args cx fr f (\<not> isVoidType (getResultType f)) as"
    "\<forall>t. r = Some t \<longrightarrow> wf_arg cx fr t \<and> \<not> isVoidType (getResultType f)" by auto
  from Parse_return [OF w(1,2) _ w(3)] show ?case by (simp add: parses_def del: written.simps meaning.simps)
next
  case (Equals_t f as t)
  then have w: "named_fn f" "\<forall>a \<in> set as. wf_arg cx fr a" "wf_arg cx fr t" "cl_ice cx (write_arg t) \<noteq> None"
    "cl_ice cx (write_fn f (Some as)) = None" and k: "keys_args cx (t # as) = keys_args cx as"
    by (simp_all add: keys_args_def keys_arg_def)
  from Parse_equals [OF w(1,2) _ w(3-5), unfolded k] show ?case by (simp add: parses_def del: written.simps meaning.simps)
next
  case (Assign_t op d f t)
  then have w: "wf_field cx fr d f" "wf_arg cx fr t" "assign_op op \<noteq> None" "(op = BO_Assign) = kind f" by auto
  from Parse_assign [where kind = kind, OF w] show ?case by (simp add: parses_def del: written.simps meaning.simps)
next
  case (Incr_t op d f)
  then have w: "wf_field cx fr d f" "unary_assign op \<noteq> None" "\<not> kind f" by auto
  from Parse_incr [where kind = kind, OF w] show ?case by (simp add: parses_def del: written.simps meaning.simps)
next
  case (And_t x y)
  then show ?case by (auto simp: parses_def [of _ _ _ _ _ "And_t x y"] compound_assign_def parses_both)
next
  case (Or_t x y)
  then show ?case by (auto simp: parses_def [of _ _ _ _ _ "Or_t x y"] compound_assign_def parses_both getD_def)
next
  case (Sequence_t xs)
  then have "\<forall>x \<in> set xs. parses cx loc fr kind final x \<and> well_written cx fr kind x" by auto
  from parses_list [OF this] show ?case
    by (auto simp: parses_def [of _ _ _ _ _ "Sequence_t xs"] TSEQUENCE_def modifier_of_def)
next
  case (Repeat_t m n xs)
  then have a: "\<forall>x \<in> set xs. parses cx loc fr kind final x \<and> well_written cx fr kind x" by auto
  from Repeat_t.prems obtain y ys where y: "xs = y # ys" by (cases xs) auto
  from Repeat_t.prems have "int32_of (limited_value (32, m)) = m" "int32_of (limited_value (32, n)) = n" by (simp_all add: reps_value)
  moreover have "Parse cx loc F (REPEAT m n (map written xs)) =
      bindP (Parse_list cx loc F (map written xs)) (\<lambda>zs. retP (Sequence_expr zs (Some (int32_of (limited_value (32, m)))) (Some (int32_of (limited_value (32, n))))))" for F
    by (rule ext) (auto simp: y REPEAT_def modifier_of_def ParseIntegerLiteral_def bindP_def bindE_def split: sum.splits option.splits)
  ultimately show ?case using parses_list [OF a]
    by (auto simp: parses_def [of _ _ _ _ _ "Repeat_t m n xs"])
next
  case (Optional_t x)
  then show ?case by (auto simp: parses_def optional_def Parse_modifier modifier_of_def)
next
  case (Callee_t x)
  then show ?case by (auto simp: parses_def callee_m_def Parse_modifier modifier_of_def)
next
  case (Caller_t x)
  then show ?case by (auto simp: parses_def caller_m_def Parse_modifier modifier_of_def)
next
  case (Strict_t x)
  then show ?case by (auto simp: parses_def strict_m_def Parse_modifier modifier_of_def)
next
  case (Conditional_t x)
  then show ?case by (auto simp: parses_def conditional_m_def Parse_modifier modifier_of_def)
qed (auto simp: parses_def)

text \<open>The other macros.\<close>

lemma written_macros:
  "previously (map written ts) = written (Sequence_t (ts @ [Site_t]))"
  "eventually_m (map written ts) = written (Sequence_t (Site_t # ts))"
  "UPTO n (map written ts) = written (Repeat_t 1 n ts)"
  "ATLEAST n (map written ts) = written (Repeat_t n ANY_REP ts)"
  "TESLA_WITHIN file line counter f (written t) =
     TESLA_PERTHREAD file line counter (written (Callee_t (Call_t f None))) (written (Callee_t (Return_t f None None))) (written t)"
  by (simp_all add: previously_def eventually_m_def UPTO_def ATLEAST_def TESLA_WITHIN_def write_fn_def)

subsection \<open>Assertions in a translation unit\<close>

record inline_assertion =
  ia_global :: bool
  ia_location :: ir_location
  ia_start :: tesla
  ia_finish :: tesla
  ia_body :: tesla
  ia_text :: string \<comment> \<open>the source from there on\<close>

definition assertion_node :: "inline_assertion \<Rightarrow> node" where
  "assertion_node a = Call_node (Some (Fun_d 0 INLINE_ASSERTION Void_c []))
     ((if ia_global a then TESLA_GLOBAL else TESLA_PERTHREAD) (loc_filename (ia_location a)) (loc_line (ia_location a)) (loc_counter (ia_location a))
        (written (ia_start a)) (written (ia_finish a)) (written (ia_body a))) (ia_text a)"

definition inline_flags :: flags where
  "inline_flags = \<lparr>fl_context = Callee, fl_or = Some BE_Or, fl_strict = False\<rparr>"

definition refs_of :: "clang \<Rightarrow> inline_assertion \<Rightarrow> argument list" where
  "refs_of cx a = enter_all (keys_in cx (ia_start a) @ keys_in cx (ia_finish a) @ keys_in cx (ia_body a)) []"

definition means :: "clang \<Rightarrow> inline_assertion \<Rightarrow> tesla \<Rightarrow> expression" where
  "means cx a t = meaning cx (ia_location a) (refs_of cx a) inline_flags t"

definition ident_of :: "inline_assertion \<Rightarrow> ir_identifier" where
  "ident_of a = \<lparr>id_name = None, id_location = Some (ia_location a)\<rparr>"

text \<open>A statement, from the text that begins with it.\<close>

definition statement :: "string \<Rightarrow> string" where
  "statement src = takeWhile (\<lambda>c. c \<noteq> CHR '';'') src @ '';''"

definition description_of :: "clang \<Rightarrow> inline_assertion \<Rightarrow> automaton_description" where
  "description_of cx a = \<lparr>ad_identifier = ident_of a, ad_context = (if ia_global a then Global_context else Thread_context),
     ad_expression = means cx a (ia_body a), ad_argument = numbered (refs_of cx a),
     ad_source = Some (statement (ia_text a))\<rparr>"

definition usage_of :: "clang \<Rightarrow> inline_assertion \<Rightarrow> usage" where
  "usage_of cx a = \<lparr>us_identifier = ident_of a, us_beginning = Some (means cx a (ia_start a)), us_end = Some (means cx a (ia_finish a))\<rparr>"

definition wf_assertion :: "clang \<Rightarrow> (cdecl \<Rightarrow> bool) \<Rightarrow> inline_assertion \<Rightarrow> bool" where
  "wf_assertion cx kind a \<longleftrightarrow> well_written cx [] kind (ia_start a) \<and> well_written cx [] kind (ia_finish a) \<and> well_written cx [] kind (ia_body a)
     \<and> 0 \<le> loc_line (ia_location a) \<and> loc_line (ia_location a) \<le> ANY_REP \<and> 0 \<le> loc_counter (ia_location a) \<and> loc_counter (ia_location a) \<le> ANY_REP
     \<and> CHR '';'' \<in> set (take 1000 (ia_text a))"

lemma takeWhile_take: "\<not> P x \<Longrightarrow> x \<in> set (take n xs) \<Longrightarrow> takeWhile P (take n xs) = takeWhile P xs"
  by (induction xs arbitrary: n) (auto simp: take_Cons split: nat.splits)

lemma statement_found: "CHR '';'' \<in> set (take 1000 src) \<Longrightarrow> FindOriginalSource src = Inr (statement src)"
  using takeWhile_take [of "\<lambda>c. c \<noteq> CHR '';''" "CHR '';''" 1000 src] by (simp add: FindOriginalSource_def statement_def)

lemma source_nonempty: "FindOriginalSource src \<noteq> Inr []"
  by (cases src) (auto simp: FindOriginalSource_def Let_def)

lemma AssertionParser_written:
  assumes "wf_assertion cx kind a" and "FindOriginalSource (ia_text a) = Inr src"
  shows "AssertionParser cx (ia_text a) ((if ia_global a then TESLA_GLOBAL else TESLA_PERTHREAD) (loc_filename (ia_location a))
      (loc_line (ia_location a)) (loc_counter (ia_location a)) b e t) s
    = Inr (Some \<lparr>pa_id = ident_of a, pa_context = (if ia_global a then Global_context else Thread_context), pa_beginning = Some b, pa_end = Some e,
        pa_root = Some (Expr_s t), pa_flags = inline_flags, pa_source = src\<rparr>, s)"
  using assms
  by (cases "ia_location a")
    (simp add: wf_assertion_def AssertionParser_def TESLA_GLOBAL_def TESLA_PERTHREAD_def TESLA_ASSERT_def ParseStringLiteral_def Parse_location_def
      ParseIntegerLiteral_def Parse_context_def liftP_def ident_of_def inline_flags_def reps_value GLOBAL_def PERTHREAD_def)

lemma Parse_automaton_written:
  assumes "wf_assertion cx kind a" and "FindOriginalSource (ia_text a) = Inr src" and "src = statement (ia_text a)"
  shows "\<exists>s. Parse_automaton cx \<lparr>pa_id = ident_of a, pa_context = (if ia_global a then Global_context else Thread_context),
      pa_beginning = Some (written (ia_start a)), pa_end = Some (written (ia_finish a)), pa_root = Some (Expr_s (written (ia_body a))),
      pa_flags = inline_flags, pa_source = src\<rparr> (new_parser ds) = Inr (Some (Some (description_of cx a), Some (usage_of cx a)), s) \<and> ps_diags s = ds"
proof -
  let ?ks1 = "enter_all (keys_in cx (ia_start a)) []" and ?ms1 = "assign_all (assigns (ia_start a)) []"
  let ?ks2 = "enter_all (keys_in cx (ia_finish a)) ?ks1" and ?ms2 = "assign_all (assigns (ia_finish a)) ?ms1"
  let ?final = "refs_of cx a"
  have w: "well_written cx [] kind (ia_start a)" "well_written cx [] kind (ia_finish a)" "well_written cx [] kind (ia_body a)" using assms(1) by (auto simp: wf_assertion_def)
  have f: "?final = enter_all (keys_in cx (ia_body a)) ?ks2" by (simp add: refs_of_def)
  have p: "prefix ?ks1 ?final" "prefix ?ks2 ?final" "prefix (enter_all (keys_in cx (ia_body a)) ?ks2) ?final"
    using f prefix_enter_all [of ?ks2 "keys_in cx (ia_body a)"] prefix_before by auto
  have u: "unindexed ?ks1" "unindexed ?ks2" by (simp_all add: unindexed_enter_all unindexed_keys)
  have k: "kinds kind ?ms1" "kinds kind ?ms2" using w by (simp_all add: kinds_assign_all kinds_assigns)
  have o: "fl_or inline_flags \<noteq> None" by (simp add: inline_flags_def)
  have n: "new_parser ds = pst [] ds [] []" by (simp add: new_parser_def pst_def numbered_def)
  note b = parsesD [OF Parse_written [OF w(1)] o _ _ p(1), where ds = ds and loc = "ia_location a" and ms = "[]", simplified]
    and e = parsesD [OF Parse_written [OF w(2)] o u(1) k(1) p(2), where ds = ds and loc = "ia_location a"]
    and t = parsesD [OF Parse_written [OF w(3)] o u(2) k(2) p(3), where ds = ds and loc = "ia_location a"]
  show ?thesis
    using assms(2) source_nonempty [of "ia_text a"] b e t
    by (simp add: Parse_automaton_def Parse_opt_def Parse_root_def get_refs_def n description_of_def usage_of_def means_def ident_of_def getD_def Let_def)
      (simp add: pst_def f [symmetric] assms(3))
qed

lemma visit_written:
  assumes "wf_assertion cx kind a"
  shows "visit cx or0 strict0 (assertion_node a) v
    = Inr (True, v\<lparr>vi_automata := vi_automata v @ [Some (description_of cx a)], vi_roots := vi_roots v @ [Some (usage_of cx a)]\<rparr>)"
proof -
  let ?src = "statement (ia_text a)"
  from assms have s: "FindOriginalSource (ia_text a) = Inr ?src" by (simp add: wf_assertion_def statement_found)
  have d: "ps_diags (new_parser (vi_diags v)) = vi_diags v" by (simp add: new_parser_def)
  from Parse_automaton_written [OF assms s refl, of "vi_diags v"] obtain pst where "Parse_automaton cx \<lparr>pa_id = ident_of a,
      pa_context = (if ia_global a then Global_context else Thread_context), pa_beginning = Some (written (ia_start a)),
      pa_end = Some (written (ia_finish a)), pa_root = Some (Expr_s (written (ia_body a))), pa_flags = inline_flags, pa_source = ?src\<rparr>
      (new_parser (vi_diags v)) = Inr (Some (Some (description_of cx a), Some (usage_of cx a)), pst)" "ps_diags pst = vi_diags v" by blast
  then have "run_parser cx (AssertionParser cx (ia_text a) ((if ia_global a then TESLA_GLOBAL else TESLA_PERTHREAD) (loc_filename (ia_location a))
      (loc_line (ia_location a)) (loc_counter (ia_location a)) (written (ia_start a)) (written (ia_finish a)) (written (ia_body a)))) (vi_diags v)
      = Inr (Some (Some (description_of cx a), Some (usage_of cx a)), vi_diags v)"
    unfolding run_parser_def AssertionParser_written [OF assms s] by (simp add: d)
  then show ?thesis by (simp add: assertion_node_def VisitCallExpr_def)
qed

text \<open>Calls of other functions, and functions that are not about automata.\<close>

fun ignored :: "clang \<Rightarrow> node \<Rightarrow> bool" where
  "ignored cx (Call_node c args src) = (case getDirectCallee c of None \<Rightarrow> True | Some f \<Rightarrow> getName f \<noteq> INLINE_ASSERTION)"
| "ignored cx (Function_node f body src) = (body = None \<or> (case cl_pointee cx (getResultType f) of
     None \<Rightarrow> True | Some ty \<Rightarrow> ty \<notin> {AUTOMATON_DESC, AUTOMATON_USAGE}))"

lemma visit_ignored: "ignored cx n \<Longrightarrow> visit cx or0 strict0 n v = Inr (True, v)"
  by (cases n) (auto simp: VisitCallExpr_def VisitFunctionDecl_def split: option.splits)

definition assertions :: "(inline_assertion + node) list \<Rightarrow> inline_assertion list" where
  "assertions xs = List.map_filter (case_sum Some (\<lambda>_. None)) xs"

definition unit_nodes :: "(inline_assertion + node) list \<Rightarrow> node list" where
  "unit_nodes xs = map (case_sum assertion_node id) xs"

lemma traverse_written:
  "\<forall>x \<in> set xs. case x of Inl a \<Rightarrow> \<exists>kind. wf_assertion cx kind a | Inr n \<Rightarrow> ignored cx n \<Longrightarrow>
   traverse cx or0 strict0 (unit_nodes xs) v
    = Inr (True, v\<lparr>vi_automata := vi_automata v @ map (Some \<circ> description_of cx) (assertions xs),
        vi_roots := vi_roots v @ map (Some \<circ> usage_of cx) (assertions xs)\<rparr>)"
proof (induction xs arbitrary: v)
  case (Cons x xs)
  then show ?case by (cases x) (auto simp: unit_nodes_def assertions_def List.map_filter_simps visit_written visit_ignored)
qed (simp add: unit_nodes_def assertions_def List.map_filter_simps)

lemma all_set_Some: "all_set (map (Some \<circ> f) xs) = Inr (map f xs)"
  by (induction xs) simp_all

text \<open>The references are numbered as the instrumentation of the assertion's site needs them.\<close>

lemma set_free_sels [simp]:
  "a_free (set_type t a) = a_free a" "a_free (set_arg_name x a) = a_free a" "a_free (set_indirection b a) = a_free a"
  "a_free (set_field f a) = a_free a" "a_free (set_index i a) = a_free a" "a_free new_argument = None"
  by (cases a; simp add: new_argument_def)+

definition unfree :: "argument list \<Rightarrow> bool" where
  "unfree ks \<longleftrightarrow> (\<forall>k \<in> set ks. a_free k = None)"

lemma unfree_keys_args: "unfree (keys_arg cx t)" "unfree (keys_args cx ts)"
proof -
  show a: "unfree (keys_arg cx t)" for t by (cases t) (auto simp: keys_arg_def unfree_def variable_def)
  show "unfree (keys_args cx ts)" using a by (auto simp: keys_args_def unfree_def)
qed

lemma unfree_keys: "unfree (keys_in cx t)"
proof (induction t)
  case (Assign_t op d f t)
  then show ?case using unfree_keys_args(1) [of cx t] by (auto simp: unfree_def variable_def)
next
  case (Return_t f as r)
  then show ?case using unfree_keys_args(2) [of cx] by (auto simp: unfree_def keys_result_def)
next
  case (Call_t f as)
  then show ?case by (simp add: unfree_keys_args)
next
  case (Equals_t f as t)
  then show ?case by (simp add: unfree_keys_args)
qed (auto simp: unfree_def variable_def)

lemma indexed_from_shift: "indexed_from n (map (\<lambda>j. set_index (int j) (g j)) [n..<n + m])"
proof (induction m arbitrary: n)
  case (Suc m)
  have "[n..<n + Suc m] = n # [Suc n..<Suc n + m]" by (simp add: upt_conv_Cons)
  with Suc [of "Suc n"] show ?case by simp
qed simp

lemma numbered_well_indexed:
  assumes "unfree ks"
  shows "bound (numbered ks) = numbered ks" and "well_indexed (numbered ks)"
proof -
  show b: "bound (numbered ks) = numbered ks" using assms by (auto simp: bound_def numbered_def unfree_def getD_def filter_id_conv)
  show "well_indexed (numbered ks)" using indexed_from_shift [of 0 "\<lambda>j. ks ! j" "length ks"] unfolding well_indexed_def b by (simp add: numbered_def)
qed

subsection \<open>An example\<close>

definition ex_clang :: clang where
  "ex_clang = \<lparr>cl_type = (\<lambda>e. case e of Ref_e d \<Rightarrow> getType d | _ \<Rightarrow> Basic_c), cl_ice = (\<lambda>e. case e of Int_e _ v \<Rightarrow> Some v | _ \<Rightarrow> None),
     cl_macro = (\<lambda>_. None), cl_pointee = (\<lambda>t. case t of Pointer_c x \<Rightarrow> x | _ \<Rightarrow> None), cl_apint = (1, 0)\<rparr>"

definition ex_main_decl :: cdecl where
  "ex_main_decl = Fun_d 1 ''main'' Basic_c []"

definition ex_check_decl :: cdecl where
  "ex_check_decl = Fun_d 2 ''check'' Basic_c [Var_d 3 ''p'' Basic_c, Var_d 4 ''q'' Basic_c]"

definition ex_x :: cdecl where
  "ex_x = Var_d 5 ''x'' Basic_c"

text \<open>Within \<open>main\<close>, \<open>previously(check(x, 3) == 0)\<close>.\<close>

definition ex_inline :: inline_assertion where
  "ex_inline = \<lparr>ia_global = False, ia_location = \<lparr>loc_filename = ''f.c'', loc_line = 7, loc_counter = 0\<rparr>,
     ia_start = Callee_t (Call_t ex_main_decl None), ia_finish = Callee_t (Return_t ex_main_decl None None),
     ia_body = Sequence_t [Equals_t ex_check_decl [Var_a ex_x, Const_a (Int_e 32 3)] (Const_a (Int_e 32 0)), Site_t],
     ia_text = ''TESLA_WITHIN(main, previously(check(x, 3) == 0));''\<rparr>"

lemma ex_assertions: "assertions [Inr n, Inl a] = [a]"
  by (simp add: assertions_def List.map_filter_simps)

subsection \<open>The property\<close>



subsection \<open>Where the parser does something else\<close>

text \<open>A place for the returned value is counted among the arguments: the arguments of a function that returns
  a value cannot be given in \<open>returnfrom\<close>.\<close>

lemma returned_arguments_rejected:
  assumes "named_fn f" and "\<not> isVoidType (getResultType f)" and "ts \<noteq> []" and "length ts = length (params_of f)"
  shows "\<exists>s'. Parse cx loc F (written (Return_t f (Some ts) r)) s = Inr (None, s')"
proof -
  have "call_and_result ''__tesla_return'' (IgnoreParenCasts (case r of None \<Rightarrow> write_fn f (Some ts) | Some t \<Rightarrow> Binary_e BO_EQ (write_fn f (Some ts)) (write_arg t)))
      = retP (write_fn f (Some ts), map_option (IgnoreParenCasts \<circ> write_arg) r)" by (simp split: option.splits)
  moreover have "event_arguments cx True (params_of f) (map write_arg ts) = reject ''specify all args (possibly __tesla_any()) or none''"
    using assms(3,4) by (simp add: event_arguments_def)
  ultimately show ?thesis using assms(1,2)
    by (simp add: returnfrom_def modifier_of_def ParseFunctionReturn_def ParseFunctionDetails_def event_target_fn getD_def bindP_def)
qed

text \<open>Every operator in \<open>returnfrom\<close> is taken for an equality.\<close>

lemma comparison_is_equality:
  "Parse cx loc F (returnfrom (Binary_e op l r)) = Parse cx loc F (returnfrom (Binary_e BO_EQ l r))"
  by (simp add: returnfrom_def ParseFunctionReturn_def ParseFunctionDetails_def modifier_of_def)

definition ex_state :: pstate where
  "ex_state = new_parser []"

definition ex_parse :: "cexpr \<Rightarrow> pstate \<Rightarrow> (expression option \<times> pstate) res" where
  "ex_parse = Parse ex_clang no_location inline_flags"

definition event_args :: "(expression option \<times> pstate) res \<Rightarrow> argument list option" where
  "event_args r = (case r of Inr (Some (Function_expr ev), _) \<Rightarrow> Some (fe_argument ev) | _ \<Rightarrow> None)"

text \<open>The arguments of an Objective-C message are added twice.\<close>

lemma message_arguments_twice:
  "event_args (ex_parse (call_m (Message_e (Some (''add:'', Void_c, [ex_x])) Super_r [Int_e 32 3])) ex_state)
     = Some [named_constant None 3 new_argument, named_constant None 3 new_argument]"
  by code_simp

text \<open>A parameter of an enumerated type stops the analyser.\<close>

lemma enum_parameter_asserts:
  "ex_parse (call_m (Ref_e (Fun_d 6 ''f'' Void_c [Var_d 7 ''e'' (Elaborated_c Basic_c)]))) ex_state = Inl (Assertion ''StructTy'')"
  by code_simp

text \<open>So does a call through a pointer to a function.\<close>

lemma indirect_call_asserts:
  "ex_parse (call_m (Call_e (Some (Var_d 8 ''fp'' Basic_c)) [Int_e 32 3])) ex_state = Inl (Assertion ''!ResultType.isNull()'')"
  by code_simp

text \<open>A pointer whose type was given a name does not count as a pointer.\<close>

lemma typedef_pointer_base:
  "ex_parse (written (Incr_t UO_PostInc (Var_d 9 ''p'' (Typedef_c (Pointer_c (Some ''object'')))) (Field_d 10 ''n'' Basic_c 0))) ex_state
     = Inl (Undefined ''getAsStructureType()->getDecl()'')"
  by code_simp

text \<open>The pointer to a free variable is not free.\<close>

lemma free_indirection_bound:
  "event_args (ex_parse (call_m (Call_e (Some (Fun_d 6 ''f'' Void_c [ex_x])) [Unary_e UO_AddrOf (Ref_e ex_x)])) (ex_state\<lparr>ps_free := [ex_x]\<rparr>))
     = Some [set_index 0 (set_indirection (set_free (variable ex_x)) (set_type Indirect_arg new_argument))]"
  by code_simp

text \<open>A negative enumerator becomes a large positive number; the same value written as a number stays negative.\<close>

lemma negative_enumerator:
  "map_option (map a_value) (event_args (ex_parse (written (Call_t (Fun_d 6 ''f'' Void_c [ex_x]) (Some [Enum_a (Enum_d 11 ''E'' 32 (- 1))]))) ex_state))
     = Some [Some 4294967295]"
  "map_option (map a_value) (event_args (ex_parse (written (Call_t (Fun_d 6 ''f'' Void_c [ex_x]) (Some [Const_a (Int_e 32 (- 1))]))) ex_state))
     = Some [Some (- 1)]"
  by code_simp+

text \<open>The base of a field of a structure that is not a pointer is named after the last field.\<close>

lemma structure_base_named:
  "(case ex_parse (Unary_e UO_PostInc (Member_e (Ref_e (Var_d 12 ''s'' (Elaborated_c (Record_c True ''object'' [Some (Field_d 10 ''n'' Basic_c 0), Some (Field_d 13 ''m'' Basic_c 1)])))) (Field_d 10 ''n'' Basic_c 0))) ex_state of
      Inr (Some (Field_assign_expr a), _) \<Rightarrow> a_name (sf_base (fa_field a)) | _ \<Rightarrow> None) = Some ''m''"
  by code_simp

end
