(* ===== verification/Tesla_Dtrace.thy ===== *)
theory Tesla_Dtrace
  imports Tesla_Notification
begin

text \<open>
  The DTrace back-end of the kernel (\<open>libtesla/src/tesla_dtrace.c\<close>) and the default handlers of
  a kernel built with it (\<open>default_handlers\<close> in \<open>tesla_notification.c\<close> under \<open>_KERNEL\<close> and
  \<open>KDTRACE_HOOKS\<close>).  Every handler fires one probe, named by module, function and name; the
  arguments that fill \<open>SDT_PROBE\<close> up to five are left out.

  \<open>probe_types\<close> holds the argument types the probes are declared with, and
  \<open>dtrace_declared\<close> says for which events the arguments passed have them.
\<close>

subsection \<open>Declarations\<close>

datatype probe_type =
    Context_type | Lifetime_type | Class_type | Instance_type | Transition_type
  | Transitions_type | Uint32_type | Int32_type | Text_type | Key_type

definition probe_types :: "(string list \<times> probe_type list) list" where
  "probe_types =
    [([''lifetime'', ''sunrise''], [Context_type, Lifetime_type]),
     ([''lifetime'', ''sunset''], [Context_type, Lifetime_type]),
     ([''instance'', ''create''], [Class_type, Instance_type]),
     ([''event'', ''transition''], [Class_type, Instance_type, Transition_type]),
     ([''instance'', ''clone''], [Class_type, Instance_type, Instance_type, Transition_type]),
     ([''fail'', ''no_instance''], [Class_type, Text_type, Uint32_type, Transitions_type]),
     ([''fail'', ''bad_transition''], [Class_type, Instance_type, Uint32_type]),
     ([''fail'', ''other_err''], [Class_type, Uint32_type, Int32_type, Text_type]),
     ([''success'', ''accept''], [Class_type, Instance_type]),
     ([''event'', ''ignored''], [Class_type, Uint32_type, Key_type])]"

subsection \<open>Handlers\<close>

definition dtrace_sunrise :: "tesla_context \<Rightarrow> tesla_lifetime \<Rightarrow> out list res" where
  "dtrace_sunrise c lt = Inr [Probe [''lifetime'', ''sunrise''] [Context_arg c, Lifetime_arg lt]]"

definition dtrace_sunset :: "tesla_context \<Rightarrow> tesla_lifetime \<Rightarrow> out list res" where
  "dtrace_sunset c lt = Inr [Probe [''lifetime'', ''sunset''] [Context_arg c, Lifetime_arg lt]]"

definition dtrace_new_instance :: "tesla_class \<Rightarrow> nat \<Rightarrow> out list res" where
  "dtrace_new_instance tcp tip =
     Inr [Probe [''instance'', ''create''] [Class_arg tcp, Instance_arg tip]]"

definition dtrace_transition :: "tesla_class \<Rightarrow> nat \<Rightarrow> tesla_transition \<Rightarrow> out list res" where
  "dtrace_transition tcp tip ttp =
     Inr [Probe [''event'', ''transition''] [Class_arg tcp, Instance_arg tip, Transition_arg ttp]]"

definition dtrace_clone :: "tesla_class \<Rightarrow> nat \<Rightarrow> nat \<Rightarrow> tesla_transition \<Rightarrow> out list res" where
  "dtrace_clone tcp origp copyp ttp =
     Inr [Probe [''instance'', ''clone'']
       [Class_arg tcp, Instance_arg origp, Instance_arg copyp, Transition_arg ttp]]"

text \<open>The loop of \<open>no_instance\<close> over the instances.\<close>

fun no_instance_loop :: "sbuf \<Rightarrow> tesla_instance list \<Rightarrow> nat list \<Rightarrow> sbuf res" where
  "no_instance_loop c xs [] = Inr c"
| "no_instance_loop c xs (i # is) =
     bindE (nthE ''tc_instances'' xs i) (\<lambda>inst.
       if \<not> tesla_instance_active inst then no_instance_loop c xs is
       else
         let c = SAFE_SPRINTF c (''    '' @ pad2 i @ '': state '' @ dec_of (ti_state inst) @ '', '');
             c = key_string c (ti_key inst);
             c = SAFE_SPRINTF c nl
         in no_instance_loop c xs is)"

definition dtrace_no_instance :: "tesla_class \<Rightarrow> u32 \<Rightarrow> tesla_key \<Rightarrow> out list res" where
  "dtrace_no_instance tcp symbol tkp =
     (let c = SAFE_SPRINTF (new_sbuf 200)
          (dec_of (tc_limit tcp - tc_free tcp) @ ''/'' @ dec_of (tc_limit tcp) @ '' instances'' @ nl)
      in bindE (no_instance_loop c (insts tcp) [0..<unat (tc_limit tcp)]) (\<lambda>instbuf.
        let keybuf = key_string (new_sbuf 20) tkp in
        Inr [Probe [''fail'', ''no_instance'']
          [Class_arg tcp, Text_arg (sb_text instbuf), Symbol_arg symbol, Text_arg (sb_text keybuf)]]))"

definition dtrace_bad_transition :: "tesla_class \<Rightarrow> nat \<Rightarrow> u32 \<Rightarrow> out list res" where
  "dtrace_bad_transition tcp tip symbol =
     Inr [Probe [''fail'', ''bad_transition''] [Class_arg tcp, Instance_arg tip, Symbol_arg symbol]]"

definition dtrace_err :: "uintptr \<Rightarrow> u32 \<Rightarrow> tesla_err \<Rightarrow> string \<Rightarrow> out list res" where
  "dtrace_err tap symbol errnum message =
     Inr [Probe [''fail'', ''other_err'']
       [Automaton_arg tap, Symbol_arg symbol, Error_arg errnum, Text_arg message]]"

definition dtrace_accept :: "tesla_class \<Rightarrow> nat \<Rightarrow> out list res" where
  "dtrace_accept tcp tip =
     Inr [Probe [''success'', ''accept''] [Class_arg tcp, Instance_arg tip]]"

definition dtrace_ignored :: "tesla_class \<Rightarrow> u32 \<Rightarrow> tesla_key \<Rightarrow> out list res" where
  "dtrace_ignored tcp symbol tkp =
     Inr [Probe [''event'', ''ignored''] [Class_arg tcp, Symbol_arg symbol, Key_arg tkp]]"

definition dtrace_handlers :: tesla_event_handlers where
  "dtrace_handlers = \<lparr>
     teh_sunrise = Some dtrace_sunrise,
     teh_sunset = Some dtrace_sunset,
     teh_init = Some dtrace_new_instance,
     teh_transition = Some dtrace_transition,
     teh_clone = Some dtrace_clone,
     teh_fail_no_instance = Some dtrace_no_instance,
     teh_bad_transition = Some dtrace_bad_transition,
     teh_err = Some dtrace_err,
     teh_accept = Some dtrace_accept,
     teh_ignored = Some dtrace_ignored\<rparr>"

lemmas dtrace_defs = dtrace_sunrise_def dtrace_sunset_def dtrace_new_instance_def
  dtrace_transition_def dtrace_clone_def dtrace_bad_transition_def dtrace_err_def
  dtrace_accept_def dtrace_ignored_def

subsection \<open>The default handlers of a kernel with DTrace\<close>

definition TESLA_KERN_PRINTF_EV :: u32 where
  "TESLA_KERN_PRINTF_EV = 0x1"

definition TESLA_KERN_PRINTERR_EV :: u32 where
  "TESLA_KERN_PRINTERR_EV = 0x2"

definition TESLA_KERN_DTRACE_EV :: u32 where
  "TESLA_KERN_DTRACE_EV = 0x4"

definition TESLA_KERN_PANIC_EV :: u32 where
  "TESLA_KERN_PANIC_EV = 0x8"

text \<open>The array as the preprocessor leaves it, by whether \<open>NDEBUG\<close> is defined.\<close>

definition kernel_handlers :: "bool \<Rightarrow> automata \<Rightarrow> string option \<Rightarrow> tesla_event_handlers list" where
  "kernel_handlers ndebug A env =
     (if ndebug then [] else [printf_handlers A env, printf_on_failure A env])
     @ [dtrace_handlers, failstop_handlers A]"

definition kernel_notifier :: "bool \<Rightarrow> automata \<Rightarrow> string option \<Rightarrow> notifier" where
  "kernel_notifier ndebug A env =
     \<lparr>event_handlers = \<lparr>tem_mask = TESLA_KERN_DTRACE_EV,
                        tem_handlers = map Some (kernel_handlers ndebug A env)\<rparr>,
      have_transitions = True\<rparr>"

subsection \<open>Properties\<close>

definition probe_arg_type :: "probe_arg \<Rightarrow> probe_type option" where
  "probe_arg_type a = (case a of
     Context_arg _ \<Rightarrow> Some Context_type | Lifetime_arg _ \<Rightarrow> Some Lifetime_type
   | Class_arg _ \<Rightarrow> Some Class_type | Instance_arg _ \<Rightarrow> Some Instance_type
   | Transition_arg _ \<Rightarrow> Some Transition_type | Transitions_arg _ \<Rightarrow> Some Transitions_type
   | Symbol_arg _ \<Rightarrow> Some Uint32_type | Error_arg _ \<Rightarrow> Some Int32_type
   | Text_arg _ \<Rightarrow> Some Text_type | Key_arg _ \<Rightarrow> Some Key_type | Automaton_arg _ \<Rightarrow> None)"

text \<open>The arguments have the types the probe is declared with.\<close>

definition well_typed_probe :: "out \<Rightarrow> bool" where
  "well_typed_probe x = (case x of
     Probe name args \<Rightarrow>
       (case map_of probe_types name of
          None \<Rightarrow> False
        | Some ts \<Rightarrow> map probe_arg_type args = map Some ts)
   | _ \<Rightarrow> False)"

text \<open>The class whose instances the handler of an event lists.\<close>

definition event_class :: "event \<Rightarrow> tesla_class option" where
  "event_class ev = (case ev of
     No_instance c _ _ \<Rightarrow> Some c | _ \<Rightarrow> None)"

lemma no_instance_loop_returns:
  "\<forall>i \<in> set is. i < length xs \<Longrightarrow> \<exists>b. no_instance_loop c xs is = Inr b"
proof (induction "is" arbitrary: c)
  case (Cons i "is")
  then show ?case by (cases "tesla_instance_active (xs ! i)") (auto simp: Let_def)
qed simp

lemma safely_instances:
  "no_instance_loop c xs is = Inr b \<Longrightarrow> sbuf_ok c \<Longrightarrow> sbuf_ok b \<and> sb_room b = sb_room c"
proof (induction "is" arbitrary: c)
  case (Cons i "is")
  have "prints_safely (\<lambda>c. SAFE_SPRINTF (key_string (SAFE_SPRINTF c s) k) nl)" for s k
    by (intro safely_then(1) safely_comp [OF safely_sprintf safely_key])
  then have safe: "sbuf_ok (SAFE_SPRINTF (key_string (SAFE_SPRINTF c s) k) nl)
      \<and> sb_room (SAFE_SPRINTF (key_string (SAFE_SPRINTF c s) k) nl) = sb_room c" for s k
    using Cons.prems(2) unfolding prints_safely_def by blast
  from Cons.prems(1) Cons.IH Cons.prems(2) safe show ?case
    by (fastforce simp: Let_def E_eq_Inr split: if_splits)
qed simp

lemma dtrace_no_instance_probe:
  assumes "unat (tc_limit c) \<le> length (insts c)"
  shows "\<exists>t1 t2. dtrace_no_instance c symbol k =
    Inr [Probe [''fail'', ''no_instance''] [Class_arg c, Text_arg t1, Symbol_arg symbol, Text_arg t2]]"
proof -
  have "\<exists>b. no_instance_loop x (insts c) [0..<unat (tc_limit c)] = Inr b" for x
    using assms by (intro no_instance_loop_returns) auto
  then obtain b where "no_instance_loop (SAFE_SPRINTF (new_sbuf 200)
      (dec_of (tc_limit c - tc_free c) @ ''/'' @ dec_of (tc_limit c) @ '' instances'' @ nl))
      (insts c) [0..<unat (tc_limit c)] = Inr b" by blast
  then show ?thesis unfolding dtrace_no_instance_def Let_def by simp
qed

lemma dtrace_one_probe:
  assumes "\<And>c. event_class ev = Some c \<Longrightarrow> unat (tc_limit c) \<le> length (insts c)"
  shows "\<exists>p. handler_call dtrace_handlers ev = Some (Inr [p]) \<and>
    (well_typed_probe p \<longleftrightarrow>
      (case ev of No_instance _ _ _ \<Rightarrow> False | Err _ _ _ _ \<Rightarrow> False | _ \<Rightarrow> True))"
proof (cases ev)
  case (No_instance c symbol k)
  with assms have "unat (tc_limit c) \<le> length (insts c)" by (simp add: event_class_def)
  from dtrace_no_instance_probe [OF this, of symbol k] No_instance show ?thesis
    by (auto simp: handler_call_def dtrace_handlers_def well_typed_probe_def probe_types_def
        probe_arg_type_def)
qed (simp_all add: handler_call_def dtrace_handlers_def dtrace_defs well_typed_probe_def
    probe_types_def probe_arg_type_def)

lemma kernel_dispatch:
  "dispatch (kernel_notifier False A env) ev =
     bindE (case handler_call dtrace_handlers ev of None \<Rightarrow> Inr [] | Some r \<Rightarrow> r) (\<lambda>os.
       Inr (Raised ev # map Printed os, ()))"
  "dispatch (kernel_notifier True A env) ev = Inr ([Raised ev], ())"
proof -
  have bits: "bit (0x4 :: u32) 0 = False" "bit (0x4 :: u32) (Suc 0) = False"
      "bit (0x4 :: u32) 2 = True" "bit (0x4 :: u32) 3 = False"
    by simp_all
  have upt: "[0..<4] = [0, Suc 0, 2, 3 :: nat]" "[0..<2] = [0, Suc 0 :: nat]"
    by (simp_all add: upt_rec)
  show "dispatch (kernel_notifier True A env) ev = Inr ([Raised ev], ())"
    by (subst dispatch_calls [where hs = "kernel_handlers True A env"])
      (simp_all add: kernel_notifier_def TESLA_KERN_DTRACE_EV_def kernel_handlers_def
        enabled_calls_def bits upt List.map_filter_simps)
  show "dispatch (kernel_notifier False A env) ev =
     bindE (case handler_call dtrace_handlers ev of None \<Rightarrow> Inr [] | Some r \<Rightarrow> r) (\<lambda>os.
       Inr (Raised ev # map Printed os, ()))"
    by (subst dispatch_calls [where hs = "kernel_handlers False A env"])
      (auto simp: kernel_notifier_def TESLA_KERN_DTRACE_EV_def kernel_handlers_def
        enabled_calls_def bits upt List.map_filter_simps bindE_def numeral_2_eq_2
        split: option.split sum.split)
qed


subsection \<open>Theorems\<close>

text \<open>
  In a debug kernel with DTrace every event fires exactly one probe and returns: failures do
  not stop the kernel.  The arguments have the types the probe is declared with, except for a
  missing instance (text where the set of transitions is declared) and for other errors (the
  automaton where the class is declared).
\<close>

theorem kernel_fires_probe:
  assumes "\<And>c. event_class ev = Some c \<Longrightarrow> unat (tc_limit c) \<le> length (insts c)"
  shows "\<exists>p. dispatch (kernel_notifier False A env) ev = Inr ([Raised ev, Printed p], ())
    \<and> (well_typed_probe p \<longleftrightarrow>
        (case ev of No_instance _ _ _ \<Rightarrow> False | Err _ _ _ _ \<Rightarrow> False | _ \<Rightarrow> True))"
proof -
  obtain p where "handler_call dtrace_handlers ev = Some (Inr [p])"
    "well_typed_probe p \<longleftrightarrow>
      (case ev of No_instance _ _ _ \<Rightarrow> False | Err _ _ _ _ \<Rightarrow> False | _ \<Rightarrow> True)"
    using dtrace_one_probe [OF assms] by blast
  then show ?thesis by (simp add: kernel_dispatch(1))
qed

theorem kernel_fires_probe_witness:
  "\<exists>p. dispatch (kernel_notifier False Map.empty None) (No_instance zero_class 1 zero_key)
     = Inr ([Raised (No_instance zero_class 1 zero_key), Printed p], ()) \<and> \<not> well_typed_probe p"
proof -
  have "unat (tc_limit c) \<le> length (insts c)"
    if "event_class (No_instance zero_class 1 zero_key) = Some c" for c
    using that by (auto simp: event_class_def zero_class_def)
  then show ?thesis
    using kernel_fires_probe [of "No_instance zero_class 1 zero_key" Map.empty None] by simp
qed

text \<open>
  In a kernel with DTrace built without debugging, the mask still selects the third vector,
  but there are only two: no probe is fired and no failure is reported, for any event.
\<close>

theorem release_kernel_silent:
  "dispatch (kernel_notifier True A env) ev = Inr ([Raised ev], ())"
  by (rule kernel_dispatch(2))

end
