(* ===== verification/Tesla_Kernel.thy ===== *)
theory Tesla_Kernel
  imports Tesla_Process Tesla_Dtrace
begin

text \<open>
  Stores in the kernel build: the hooks of \<open>libtesla/src/tesla_class_perthread.c\<close> that give every
  thread a store when it is created and take it away when it is destroyed, the global store's
  \<open>SYSINIT\<close>, and the \<open>_KERNEL\<close> branch of \<open>tesla_store_get\<close>.  The entry points run the rest of the
  library as the kernel build has it (\<open>rt_kernel\<close>): a lifetime registers classes in its static slots only.

  A thread's \<open>td_tesla\<close> points to a store that nothing else points to, so the map holds the store
  itself.  Allocation waits (\<open>M_WAITOK\<close>) and does not fail.  The kernel's event-handler lists are
  \<open>ke_hooks\<close>: an event calls the hooks registered for it, in order.  \<open>tesla_debugging\<close> lets no
  message of these functions through in the kernel (\<open>kernel_silent\<close>), which is the behaviour of
  an unset environment in the functions shared with userspace.
\<close>

datatype hook = Process_dtor_hook | Thread_ctor_hook | Thread_dtor_hook

record kernel_env =
  ke_global :: tesla_store
  ke_td_tesla :: "nat \<Rightarrow> tesla_store option"
  ke_hooks :: "hook list"

definition kernel_initial :: kernel_env where
  "kernel_initial = \<lparr>ke_global = zero_store, ke_td_tesla = (\<lambda>_. None), ke_hooks = []\<rparr>"

subsection \<open>Hooks\<close>

definition tesla_perthread_process_dtor :: "automata \<Rightarrow> kernel_env \<Rightarrow> nat list \<Rightarrow> kernel_env res" where
  "tesla_perthread_process_dtor A e p = (case p of
     [] \<Rightarrow> Inr e
   | td # _ \<Rightarrow> (case ke_td_tesla e td of
       None \<Rightarrow> Inr e
     | Some store \<Rightarrow>
         bindE (tesla_store_reset A None 0 store) (\<lambda>(_, store').
           Inr (e\<lparr>ke_td_tesla := (ke_td_tesla e)(td := Some store')\<rparr>))))"

definition tesla_perthread_thread_ctor :: "kernel_env \<Rightarrow> nat \<Rightarrow> kernel_env res" where
  "tesla_perthread_thread_ctor e td =
     bindE (tesla_store_init zero_store TESLA_CONTEXT_THREAD TESLA_MAX_CLASSES TESLA_MAX_INSTANCES [])
       (\<lambda>(error, store, _).
         bindE (assertE ''tesla_store_init failed'' (error = TESLA_SUCCESS)) (\<lambda>_.
           Inr (e\<lparr>ke_td_tesla := (ke_td_tesla e)(td := Some store)\<rparr>)))"

definition tesla_perthread_thread_dtor :: "kernel_env \<Rightarrow> nat \<Rightarrow> kernel_env res" where
  "tesla_perthread_thread_dtor e td =
     (let store = ke_td_tesla e td;
          e' = e\<lparr>ke_td_tesla := (ke_td_tesla e)(td := None)\<rparr>
      in bindE (derefE ''store'' store) (\<lambda>st.
         bindE (tesla_store_free None 0 st) (\<lambda>_. Inr e')))"

definition tesla_perthread_sysinit :: "kernel_env \<Rightarrow> kernel_env" where
  "tesla_perthread_sysinit e =
     e\<lparr>ke_hooks := ke_hooks e @ [Process_dtor_hook, Thread_ctor_hook, Thread_dtor_hook]\<rparr>"

definition tesla_global_store_sysinit :: "kernel_env \<Rightarrow> kernel_env res" where
  "tesla_global_store_sysinit e =
     bindE (tesla_store_init (ke_global e) TESLA_CONTEXT_GLOBAL TESLA_MAX_CLASSES TESLA_MAX_INSTANCES [])
       (\<lambda>(error, store, _).
         bindE (assertE ''tesla_store_init failed'' (error = TESLA_SUCCESS)) (\<lambda>_.
           Inr (e\<lparr>ke_global := store\<rparr>)))"

subsection \<open>Kernel events\<close>

datatype kevent = Process_dtor "nat list" | Thread_ctor nat | Thread_dtor nat

definition run_hook :: "automata \<Rightarrow> kevent \<Rightarrow> hook \<Rightarrow> kernel_env \<Rightarrow> kernel_env res" where
  "run_hook A ev h e = (case (ev, h) of
     (Process_dtor p, Process_dtor_hook) \<Rightarrow> tesla_perthread_process_dtor A e p
   | (Thread_ctor td, Thread_ctor_hook) \<Rightarrow> tesla_perthread_thread_ctor e td
   | (Thread_dtor td, Thread_dtor_hook) \<Rightarrow> tesla_perthread_thread_dtor e td
   | _ \<Rightarrow> Inr e)"

fun run_hooks :: "automata \<Rightarrow> kevent \<Rightarrow> hook list \<Rightarrow> kernel_env \<Rightarrow> kernel_env res" where
  "run_hooks A ev [] e = Inr e"
| "run_hooks A ev (h # hs) e = bindE (run_hook A ev h e) (run_hooks A ev hs)"

definition kernel_event :: "automata \<Rightarrow> kevent \<Rightarrow> kernel_env \<Rightarrow> kernel_env res" where
  "kernel_event A ev e = run_hooks A ev (ke_hooks e) e"

text \<open>Both \<open>SYSINIT\<close>s have the same order, so either may come first.\<close>

definition kernel_boot :: "bool \<Rightarrow> kernel_env res" where
  "kernel_boot global_first =
     (if global_first
      then bindE (tesla_global_store_sysinit kernel_initial) (\<lambda>e. Inr (tesla_perthread_sysinit e))
      else tesla_global_store_sysinit (tesla_perthread_sysinit kernel_initial))"

subsection \<open>Finding a store\<close>

text \<open>The \<open>_KERNEL\<close> branch of \<open>tesla_store_get\<close>, with \<open>curthread\<close> as an argument.\<close>

definition kernel_set_store :: "kernel_env \<Rightarrow> nat \<Rightarrow> tesla_context \<Rightarrow> tesla_store \<Rightarrow> kernel_env" where
  "kernel_set_store e curthread ctx store =
     (if ctx = TESLA_CONTEXT_GLOBAL then e\<lparr>ke_global := store\<rparr>
      else e\<lparr>ke_td_tesla := (ke_td_tesla e)(curthread := Some store)\<rparr>)"

definition kernel_store_get ::
  "kernel_env \<Rightarrow> nat \<Rightarrow> tesla_context \<Rightarrow> u32 \<Rightarrow> u32 \<Rightarrow> ((tesla_err + tesla_store) \<times> kernel_env) res" where
  "kernel_store_get e curthread ctx nclasses instances =
     (if ctx \<noteq> TESLA_CONTEXT_GLOBAL \<and> ctx \<noteq> TESLA_CONTEXT_THREAD
      then Inr (Inl TESLA_ERROR_EINVAL, e)
      else
        let store = (if ctx = TESLA_CONTEXT_GLOBAL then ke_global e
                     else (case ke_td_tesla e curthread of Some st \<Rightarrow> st | None \<Rightarrow> zero_store));
            e = kernel_set_store e curthread ctx store
        in if ts_length store = 0 then
             bindE (tesla_store_init store ctx nclasses instances []) (\<lambda>(error, store', _).
               if error \<noteq> TESLA_SUCCESS then Inr (Inl error, kernel_set_store e curthread ctx store')
               else bindE (assertE ''store->ts_classes != NULL'' (ts_classes store' \<noteq> None)) (\<lambda>_.
                 Inr (Inr store', kernel_set_store e curthread ctx store')))
           else Inr (Inr store, e))"

text \<open>An entry point of the library: find the store, then work on it.\<close>

definition on_store ::
  "kernel_env \<Rightarrow> nat \<Rightarrow> tesla_context \<Rightarrow> (tesla_store \<Rightarrow> (tesla_store \<times> mallocs) run) \<Rightarrow> kernel_env run" where
  "on_store e td ctx f =
     bindR (liftR (kernel_store_get e td ctx TESLA_MAX_CLASSES TESLA_MAX_INSTANCES)) (\<lambda>(r, e').
       case r of
         Inl err \<Rightarrow> Inl (Assertion ''ret == TESLA_SUCCESS'')
       | Inr st \<Rightarrow> bindR (f st) (\<lambda>(st', _). retR (kernel_set_store e' td ctx st')))"

definition kernel_sunrise :: "runtime \<Rightarrow> kernel_env \<Rightarrow> nat \<Rightarrow> tesla_context \<Rightarrow> tesla_lifetime \<Rightarrow> kernel_env run" where
  "kernel_sunrise rt e td ctx l =
     bindR (on_store e td ctx (\<lambda>st. bindR (liftR (sunrise_store st l)) (\<lambda>st'. retR (st', [])))) (\<lambda>e'.
     bindR (ev_sunrise (rt_notify rt) ctx l) (\<lambda>_. retR e'))"

definition kernel_sunset ::
  "runtime \<Rightarrow> tesla_key \<Rightarrow> kernel_env \<Rightarrow> nat \<Rightarrow> tesla_context \<Rightarrow> tesla_lifetime \<Rightarrow> kernel_env run" where
  "kernel_sunset rt junk e td ctx l =
     bindR (ev_sunset (rt_notify rt) ctx l) (\<lambda>_.
       on_store e td ctx (\<lambda>st. sunset_store (rt\<lparr>rt_kernel := True\<rparr>) (junk\<lparr>tk_mask := 0\<rparr>) st l []))"

definition kernel_update ::
  "runtime \<Rightarrow> kernel_env \<Rightarrow> nat \<Rightarrow> tesla_context \<Rightarrow> uintptr \<Rightarrow> u32 \<Rightarrow> tesla_key \<Rightarrow> kernel_env run" where
  "kernel_update rt e td ctx autom symbol pattern =
     on_store e td ctx (\<lambda>st. update_store (rt\<lparr>rt_kernel := True\<rparr>) st autom symbol pattern [])"

subsection \<open>Stores at rest\<close>

text \<open>No lifetime has registered a class outside its static slots.\<close>

definition static_only :: "tesla_store \<Rightarrow> bool" where
  "static_only st \<longleftrightarrow> (\<forall>ls \<in> set (lifetimes st). tls_dyn_classes ls = [] \<and> tls_dyn_capacity ls = 0)"

text \<open>Between calls a store satisfies its invariant, no class of it is locked, and lifetimes have only static
  registrations.\<close>

definition store_rest :: "tesla_store \<Rightarrow> bool" where
  "store_rest st \<longleftrightarrow> store_inv st \<and> unlocked st \<and> static_only st"

lemma kernel_silent:
  "\<not> tesla_debugging_kernel ''libtesla.store.free''"
  "\<not> tesla_debugging_kernel ''libtesla.store.reset''"
  "\<not> tesla_debugging_kernel ''libtesla.class.reset''"
  by (simp_all add: tesla_debugging_kernel_def allowed_debug_names_def strncmp_0_simps)

lemma fresh_rest: "fresh_store ctx st \<Longrightarrow> store_rest st"
  by (auto simp: fresh_store_def store_rest_def unlocked_def fresh_class_def static_only_def zero_lifetime_state_def)

lemma kernel_init_rest:
  assumes "valid_context ctx"
  obtains st' where "tesla_store_init st ctx TESLA_MAX_CLASSES TESLA_MAX_INSTANCES [] =
      Inr (TESLA_SUCCESS, st', [])" and "store_rest st'" and "fresh_store ctx st'"
  using store_init_fresh [of ctx st] assms fresh_rest unfolding valid_context_def by blast

lemma store_step_unlocked:
  assumes "store_step k st st'" and "unlocked st"
  shows "unlocked st'"
  unfolding unlocked_def
proof (intro ballI impI)
  fix c assume "c \<in> set (classes st')" and "tc_context c = TESLA_CONTEXT_GLOBAL"
  then obtain j where "j < length (classes st)" "c = classes st' ! j"
    using assms(1) by (auto simp: in_set_conv_nth store_step_def)
  with assms \<open>tc_context c = TESLA_CONTEXT_GLOBAL\<close> show "tc_lock c = Free_mutex"
    by (cases "j = k") (auto simp: store_step_def unlocked_def same_class_def)
qed

lemma rest_lifetimes [simp]:
  "unlocked (st\<lparr>ts_lifetime_count := n\<rparr>) = unlocked st"
  "unlocked (set_lifetime st i ls) = unlocked st"
  by (simp_all add: unlocked_def set_lifetime_def)

lemma static_only_simps [simp]:
  "static_only (st\<lparr>ts_lifetime_count := n\<rparr>) = static_only st"
  "static_only (set_class st k c) = static_only st"
  "static_only (st\<lparr>ts_classes := cs\<rparr>) = static_only st"
  by (simp_all add: static_only_def)

lemma static_only_set:
  "static_only st \<Longrightarrow> tls_dyn_classes ls = [] \<Longrightarrow> tls_dyn_capacity ls = 0 \<Longrightarrow> static_only (set_lifetime st i ls)"
  by (auto simp: static_only_def dest: set_update_subset_insert [THEN subsetD])

text \<open>Late initialisation in the kernel leaves the dynamic slots alone.\<close>

lemma register_cleanup_static:
  assumes "rt_kernel rt"
  shows "retsR (register_cleanup rt a symbol ls k ms)
    (\<lambda>(ls', ms'). tls_dyn_classes ls' = tls_dyn_classes ls \<and> tls_dyn_capacity ls' = tls_dyn_capacity ls)"
  using assms
  by (auto simp: register_cleanup_def register_class_def R_eq_Inr case_eqs intro!: retsRI split: if_splits)

lemma late_init_static:
  assumes "rt_kernel rt"
  shows "retsR (late_init rt a autom symbol k c ls ms)
    (\<lambda>(go, c', ls', ms'). tls_dyn_classes ls' = tls_dyn_classes ls \<and> tls_dyn_capacity ls' = tls_dyn_capacity ls)"
  unfolding late_init_def
  by (intro wp retsR_use [OF register_cleanup_static [OF assms]]) auto

lemma retsR_any: "(\<And>x. retsR (f x) Q) \<Longrightarrow> retsR (bindR m f) Q"
  by (rule retsR_use [of m "\<lambda>_. True"]) (auto intro: retsRI)

lemma update_class_state_static:
  assumes "rt_kernel rt" and "static_only st"
  shows "retsR (tesla_update_class_state rt st k symbol pattern ms) (\<lambda>(st', ms'). static_only st')"
proof -
  have ls: "tls_dyn_classes (lifetimes st ! li) = [] \<and> tls_dyn_capacity (lifetimes st ! li) = 0"
    if "find_lifetime l (lifetimes st) js = Inr (Some li)" for l js li
    using assms(2) find_lifetime_Some [OF that] by (auto simp: static_only_def)
  have late: "retsR (if b then late_init rt a autom symbol k c (lifetimes st ! li) ms else retR (True, c, lifetimes st ! li, ms))
      (\<lambda>(go, c', ls', ms'). tls_dyn_classes ls' = [] \<and> tls_dyn_capacity ls' = 0)"
    if "find_lifetime l (lifetimes st) js = Inr (Some li)" for l js c a autom li b
    using late_init_static [OF assms(1), of a autom symbol k c "lifetimes st ! li" ms] ls [OF that] by simp
  have "retsR (update_initialised rt st k symbol pattern ms c autom li) (\<lambda>(st', ms'). static_only st')"
    if "find_lifetime l (lifetimes st) js = Inr (Some li)" for l js c autom li
    unfolding update_initialised_def Let_def
    by (rule retsR_use [OF late [OF that]])
      (use assms(2) in \<open>auto intro!: static_only_set retsR_any\<close>)
  note init = this
  show ?thesis
    unfolding tesla_update_class_state_def Let_def
    by (intro wp) (use assms(2) init in auto)
qed

lemma update_class_state_rest:
  assumes "rt_kernel rt" and "store_rest st"
  shows "retsR (tesla_update_class_state rt st k symbol pattern ms) (\<lambda>(st', ms'). store_rest st')"
proof (rule retsRI, clarify)
  fix l st' ms' assume run: "tesla_update_class_state rt st k symbol pattern ms = Inr (l, st', ms')"
  from assms(2) have r: "store_inv st" "unlocked st" "static_only st" by (simp_all add: store_rest_def)
  from retsRD [OF update_class_state_ok [OF r(1)] run] have "store_step k st st'" by simp
  with r(2) store_step_unlocked have "store_inv st'" "unlocked st'" by (auto simp: store_step_def)
  with retsRD [OF update_class_state_static [OF assms(1) r(3)] run] show "store_rest st'" by (simp add: store_rest_def)
qed

lemma sunset_loop_rest:
  "rt_kernel rt \<Longrightarrow> store_rest st \<Longrightarrow> retsR (sunset_loop rt ek sel li st ms is) (\<lambda>(st', ms'). store_rest st')"
proof (induction "is" arbitrary: st ms)
  case (Cons i "is")
  show ?case
    unfolding sunset_loop.simps
    by (intro wp retsR_use [OF update_class_state_rest [OF Cons.prems]])
      (use Cons in auto)
qed simp

lemma clear_rest:
  "store_rest st \<Longrightarrow> li < length (lifetimes st) \<Longrightarrow> store_rest (clear_static st li)"
  "store_rest st \<Longrightarrow> li < length (lifetimes st) \<Longrightarrow> store_rest (clear_dynamic st li)"
  using clear_ok [of st li] nth_mem [of li "lifetimes st"]
  by (auto simp: store_rest_def clear_static_def clear_dynamic_def Let_def intro!: static_only_set)
    (auto simp: static_only_def)

lemma sunset_store_rest:
  assumes "rt_kernel rt" and "store_rest st"
  shows "retsR (sunset_store rt ek st l ms) (\<lambda>(st', ms'). store_rest st')"
proof -
  have lt: "li < length (lifetimes st')"
    if "find_lifetime (Inr l) (lifetimes st) is = Inr (Some li)" "store_rest st'" for li "is" st'
    using that assms by (auto simp: store_rest_def dest!: find_lifetime_Some store_invD(5))
  have second: "retsR (bindR (sunset_loop rt ek tls_dyn_classes li (clear_static st1 li) ms1 js)
        (\<lambda>(st3, ms3). retR (clear_dynamic st3 li, ms3))) (\<lambda>(st', ms'). store_rest st')"
    if "find_lifetime (Inr l) (lifetimes st) is = Inr (Some li)" "store_rest st1" for li "is" st1 ms1 js
    by (rule retsR_use [OF sunset_loop_rest [OF assms(1)]]) (use that lt in \<open>auto intro!: clear_rest\<close>)
  show ?thesis
    unfolding sunset_store_def Let_def
    by (intro wp retsR_use [OF sunset_loop_rest [OF assms]]) (auto intro: second)
qed

lemma sunrise_store_rest:
  assumes "store_rest st" and "sunrise_store st l = Inr st'"
  shows "store_rest st'"
proof -
  from assms have "store_inv st'"
    using retsD [OF sunrise_store_ok] by (auto simp: store_rest_def)
  moreover have "unlocked st'" "static_only st'"
    using assms by (auto simp: store_rest_def sunrise_store_def E_eq_Inr case_eqs Let_def static_only_def nthE_def
        split: if_splits dest!: set_update_subset_insert [THEN subsetD])
  ultimately show ?thesis by (simp add: store_rest_def)
qed

lemma update_store_static:
  assumes "rt_kernel rt" and "static_only st"
  shows "retsR (update_store rt st a symbol pattern ms) (\<lambda>(st', ms'). static_only st')"
proof -
  have "static_only st1" if "tesla_class_get st a = Inr (Inr (st1, k))" for st1 k
    using that assms(2) by (auto simp: tesla_class_get_def E_eq_Inr case_eqs Let_def)
  then show ?thesis
    unfolding update_store_def
    by (intro wp retsR_use [OF update_class_state_static [OF assms(1)]]) (auto intro!: wp)
qed

lemma update_store_rest:
  assumes "rt_kernel rt" and "store_rest st" and "a \<noteq> 0"
  shows "retsR (update_store rt st a symbol pattern ms) (\<lambda>(st', ms'). store_rest st')"
proof (rule retsRI, clarify)
  fix l st' ms' assume "update_store rt st a symbol pattern ms = Inr (l, st', ms')"
  with assms show "store_rest st'"
    using retsRD [OF update_store_ok] retsRD [OF update_store_unlocked] retsRD [OF update_store_static]
    unfolding store_rest_def by fastforce
qed

subsection \<open>What the hooks do to a store at rest\<close>

lemma class_destroy_rest:
  assumes "class_inv c" and "tc_context c = TESLA_CONTEXT_GLOBAL \<longrightarrow> tc_lock c = Free_mutex"
  shows "\<exists>c'. tesla_class_destroy c = Inr c'"
  using assms class_invD(5) [OF assms(1)]
  by (auto simp: tesla_class_destroy_def tesla_class_global_destroy_def
      tesla_class_global_lock_destroy_def tesla_class_perthread_destroy_def Let_def)

lemma destroy_classes_rest:
  assumes "\<forall>i \<in> set is. i < length cs \<and> (\<exists>c'. tesla_class_destroy (cs ! i) = Inr c')" and "distinct is"
  shows "\<exists>cs'. destroy_classes cs is = Inr cs'"
  using assms
proof (induction "is" arbitrary: cs)
  case (Cons i "is")
  then obtain c' where c': "tesla_class_destroy (cs ! i) = Inr c'" and i: "i < length cs" by auto
  have "\<forall>j \<in> set is. j < length (cs[i := c']) \<and> (\<exists>d. tesla_class_destroy (cs[i := c'] ! j) = Inr d)"
    using Cons.prems by (auto simp: nth_list_update)
  from Cons.IH [OF this] Cons.prems c' i show ?case by auto
qed simp

lemma store_free_rest:
  assumes "store_rest st"
  shows "\<exists>cs. tesla_store_free None addr st = Inr ([], cs)"
proof -
  from assms have inv: "store_inv st" and unl: "unlocked st" by (simp_all add: store_rest_def)
  have "\<forall>i \<in> set [0..<unat (ts_length st)]. i < length (classes st)
      \<and> (\<exists>c'. tesla_class_destroy (classes st ! i) = Inr c')"
    using store_invD(1,4,6) [OF inv] unl class_destroy_rest by (auto simp: unlocked_def)
  from destroy_classes_rest [OF this] show ?thesis
    by (auto simp: tesla_store_free_def)
qed

lemma reset_classes_quiet:
  assumes "\<forall>i \<in> set is. i < length cs \<and> class_inv (cs ! i)" and "distinct is"
  shows "reset_classes A None cs is =
    Inr ([], foldl (\<lambda>cs i. cs[i := reset_class (cs ! i)]) cs is)"
  using assms
proof (induction "is" arbitrary: cs)
  case (Cons i "is")
  then have "\<forall>j \<in> set is. j < length (cs[i := reset_class (cs ! i)])
      \<and> class_inv (cs[i := reset_class (cs ! i)] ! j)"
    by (auto simp: nth_list_update)
  with Cons class_reset_quiet [of "cs ! i" None A] show ?case by auto
qed simp

lemma foldl_update_map:
  "n \<le> length cs \<Longrightarrow> foldl (\<lambda>cs i. cs[i := f (cs ! i)]) cs [0..<n] = map f (take n cs) @ drop n cs"
proof (induction n)
  case (Suc n)
  then show ?case
    by (simp add: nth_append list_update_append take_Suc_conv_app_nth flip: Cons_nth_drop_Suc)
qed simp

lemma store_reset_rest:
  assumes "store_rest st"
  shows "tesla_store_reset A None addr st =
    Inr ([], st\<lparr>ts_classes := Some (map reset_class (classes st))\<rparr>)"
    and "store_rest (st\<lparr>ts_classes := Some (map reset_class (classes st))\<rparr>)"
proof -
  from assms have inv: "store_inv st" and unl: "unlocked st" by (simp_all add: store_rest_def)
  note d = store_invD [OF inv]
  have "reset_classes A None (classes st) [0..<unat (ts_length st)] =
      Inr ([], map reset_class (classes st))"
    using d by (subst reset_classes_quiet) (simp_all add: foldl_update_map)
  then show "tesla_store_reset A None addr st =
      Inr ([], st\<lparr>ts_classes := Some (map reset_class (classes st))\<rparr>)"
    using store_inv_length [OF inv] by (simp add: tesla_store_reset_def)
  have "slot_key \<circ> reset_class = slot_key" by (auto simp: slot_key_def)
  with inv have "store_inv (st\<lparr>ts_classes := Some (map reset_class (classes st))\<rparr>)"
    by (auto simp: store_inv_def intro: class_inv_reset_class)
  with unl assms show "store_rest (st\<lparr>ts_classes := Some (map reset_class (classes st))\<rparr>)"
    by (auto simp: store_rest_def unlocked_def)
qed

subsection \<open>Reachable kernels\<close>

text \<open>
  The threads created and not yet destroyed are \<open>live\<close>; the kernel destroys only those, once
  each, and a process that ends has live threads.  Any thread may call the library.
\<close>

inductive kernel_reach :: "kernel_env \<Rightarrow> nat set \<Rightarrow> bool" where
  boot: "kernel_boot g = Inr e \<Longrightarrow> kernel_reach e {}"
| ctor: "kernel_reach e T \<Longrightarrow> td \<notin> T \<Longrightarrow> kernel_event A (Thread_ctor td) e = Inr e' \<Longrightarrow>
    kernel_reach e' (insert td T)"
| dtor: "kernel_reach e T \<Longrightarrow> td \<in> T \<Longrightarrow> kernel_event A (Thread_dtor td) e = Inr e' \<Longrightarrow>
    kernel_reach e' (T - {td})"
| exit: "kernel_reach e T \<Longrightarrow> set p \<subseteq> T \<Longrightarrow> kernel_event A (Process_dtor p) e = Inr e' \<Longrightarrow>
    kernel_reach e' T"
| sunrise: "kernel_reach e T \<Longrightarrow> kernel_sunrise rt e td ctx l = Inr (lg, e') \<Longrightarrow> kernel_reach e' T"
| sunset: "kernel_reach e T \<Longrightarrow> kernel_sunset rt junk e td ctx l = Inr (lg, e') \<Longrightarrow> kernel_reach e' T"
| update: "kernel_reach e T \<Longrightarrow> kernel_update rt e td ctx a symbol pattern = Inr (lg, e') \<Longrightarrow>
    kernel_reach e' T"

definition kernel_inv :: "kernel_env \<Rightarrow> nat set \<Rightarrow> bool" where
  "kernel_inv e T \<longleftrightarrow> store_rest (ke_global e)
     \<and> ke_hooks e = [Process_dtor_hook, Thread_ctor_hook, Thread_dtor_hook]
     \<and> (\<forall>td st. ke_td_tesla e td = Some st \<longrightarrow> store_rest st)
     \<and> (\<forall>td \<in> T. ke_td_tesla e td \<noteq> None)"

lemma kernel_event_hooks:
  assumes "kernel_inv e T"
  shows "kernel_event A (Thread_ctor td) e = tesla_perthread_thread_ctor e td"
    and "kernel_event A (Thread_dtor td) e = tesla_perthread_thread_dtor e td"
    and "kernel_event A (Process_dtor p) e = tesla_perthread_process_dtor A e p"
  using assms by (auto simp: kernel_event_def kernel_inv_def run_hook_def bindE_def split: sum.split)

lemma kernel_boot_inv: "\<exists>e. kernel_boot g = Inr e \<and> kernel_inv e {}"
proof -
  obtain st where "tesla_store_init zero_store TESLA_CONTEXT_GLOBAL TESLA_MAX_CLASSES TESLA_MAX_INSTANCES []
      = Inr (TESLA_SUCCESS, st, [])" and "store_rest st"
    by (rule kernel_init_rest [of TESLA_CONTEXT_GLOBAL zero_store]) (simp add: valid_context_def)
  then show ?thesis
    by (cases g) (auto simp: kernel_boot_def tesla_global_store_sysinit_def tesla_perthread_sysinit_def
        kernel_initial_def kernel_inv_def)
qed

lemma thread_ctor_inv:
  assumes "kernel_inv e T"
  shows "\<exists>st. tesla_perthread_thread_ctor e td =
      Inr (e\<lparr>ke_td_tesla := (ke_td_tesla e)(td := Some st)\<rparr>) \<and> fresh_store TESLA_CONTEXT_THREAD st
    \<and> kernel_inv (e\<lparr>ke_td_tesla := (ke_td_tesla e)(td := Some st)\<rparr>) (insert td T)"
proof -
  obtain st where "tesla_store_init zero_store TESLA_CONTEXT_THREAD TESLA_MAX_CLASSES TESLA_MAX_INSTANCES []
      = Inr (TESLA_SUCCESS, st, [])" and "store_rest st" and "fresh_store TESLA_CONTEXT_THREAD st"
    by (rule kernel_init_rest [of TESLA_CONTEXT_THREAD zero_store]) (simp add: valid_context_def)
  with assms show ?thesis
    by (intro exI [of _ st]) (auto simp: tesla_perthread_thread_ctor_def kernel_inv_def)
qed

lemma thread_dtor_inv:
  assumes "kernel_inv e T" and "td \<in> T"
  shows "tesla_perthread_thread_dtor e td = Inr (e\<lparr>ke_td_tesla := (ke_td_tesla e)(td := None)\<rparr>)"
    and "kernel_inv (e\<lparr>ke_td_tesla := (ke_td_tesla e)(td := None)\<rparr>) (T - {td})"
proof -
  from assms obtain st where st: "ke_td_tesla e td = Some st" "store_rest st"
    by (auto simp: kernel_inv_def)
  then show "tesla_perthread_thread_dtor e td = Inr (e\<lparr>ke_td_tesla := (ke_td_tesla e)(td := None)\<rparr>)"
    using store_free_rest [OF st(2), of 0] by (auto simp: tesla_perthread_thread_dtor_def Let_def)
qed (use assms in \<open>auto simp: kernel_inv_def\<close>)

lemma process_dtor_inv:
  assumes "kernel_inv e T"
  shows "\<exists>e'. tesla_perthread_process_dtor A e p = Inr e' \<and> kernel_inv e' T"
proof (cases "p = [] \<or> ke_td_tesla e (hd p) = None")
  case True
  with assms show ?thesis by (cases p) (auto simp: tesla_perthread_process_dtor_def)
next
  case False
  then obtain td q st where "p = td # q" "ke_td_tesla e td = Some st" by (cases p) auto
  moreover from this assms have "store_rest st" by (auto simp: kernel_inv_def)
  ultimately show ?thesis
    using store_reset_rest(1) [of st A 0] store_reset_rest(2) [of st] assms
    by (auto simp: tesla_perthread_process_dtor_def kernel_inv_def)
qed

lemma kernel_set_store_twice [simp]:
  "kernel_set_store (kernel_set_store e td ctx st) td ctx st' = kernel_set_store e td ctx st'"
  by (simp add: kernel_set_store_def)

lemma kernel_inv_set_store:
  "kernel_inv e T \<Longrightarrow> store_rest st \<Longrightarrow> kernel_inv (kernel_set_store e td ctx st) T"
  by (auto simp: kernel_inv_def kernel_set_store_def)

lemma kernel_store_get_ok:
  assumes "kernel_inv e T" and "valid_context ctx"
  obtains st e' where
    "kernel_store_get e td ctx TESLA_MAX_CLASSES TESLA_MAX_INSTANCES = Inr (Inr st, e')"
    and "store_rest st" and "kernel_inv e' T"
proof -
  let ?s = "if ctx = TESLA_CONTEXT_GLOBAL then ke_global e
    else (case ke_td_tesla e td of Some st \<Rightarrow> st | None \<Rightarrow> zero_store)"
  show thesis
  proof (cases "ts_length ?s = 0")
    case True
    obtain st where init: "tesla_store_init ?s ctx TESLA_MAX_CLASSES TESLA_MAX_INSTANCES [] =
        Inr (TESLA_SUCCESS, st, [])" and rest: "store_rest st"
      by (rule kernel_init_rest [OF assms(2), of ?s])
    then have "ts_classes st \<noteq> None" by (auto simp: store_rest_def store_inv_def)
    with init True assms(2) have "kernel_store_get e td ctx TESLA_MAX_CLASSES TESLA_MAX_INSTANCES =
        Inr (Inr st, kernel_set_store e td ctx st)"
      unfolding kernel_store_get_def Let_def by (auto simp: valid_context_def)
    then show thesis
      by (rule that) (use rest assms(1) in \<open>auto intro!: kernel_inv_set_store\<close>)
  next
    case False
    then have rest: "store_rest ?s" using assms(1)
      by (auto simp: kernel_inv_def zero_store_def split: option.splits)
    have "kernel_store_get e td ctx TESLA_MAX_CLASSES TESLA_MAX_INSTANCES =
        Inr (Inr ?s, kernel_set_store e td ctx ?s)"
      using False assms(2) unfolding kernel_store_get_def Let_def by (auto simp: valid_context_def)
    then show thesis using rest kernel_inv_set_store [OF assms(1) rest] by (rule that)
  qed
qed

lemma kernel_store_get_valid:
  "kernel_store_get e td ctx n m = Inr (Inr st, e') \<Longrightarrow> valid_context ctx"
  by (auto simp: kernel_store_get_def valid_context_def split: if_splits)

lemma on_store_inv:
  assumes "kernel_inv e T" and "on_store e td ctx f = Inr (lg, e')"
    and f: "\<And>st. store_rest st \<Longrightarrow> retsR (f st) (\<lambda>(st', ms'). store_rest st')"
  shows "kernel_inv e' T"
proof -
  from assms(2) have "valid_context ctx"
    by (auto simp: on_store_def R_eq_Inr case_eqs dest: kernel_store_get_valid)
  from kernel_store_get_ok [OF assms(1) this, of td] obtain st e1 where
    "kernel_store_get e td ctx TESLA_MAX_CLASSES TESLA_MAX_INSTANCES = Inr (Inr st, e1)"
    "store_rest st" "kernel_inv e1 T" by metis
  with assms(2) obtain l2 st' ms' where "f st = Inr (l2, st', ms')" "e' = kernel_set_store e1 td ctx st'"
    by (auto simp: on_store_def R_eq_Inr)
  with \<open>kernel_inv e1 T\<close> retsRD [OF f [OF \<open>store_rest st\<close>]] show ?thesis
    by (auto intro: kernel_inv_set_store)
qed

lemma kernel_reach_inv: "kernel_reach e T \<Longrightarrow> kernel_inv e T"
proof (induction rule: kernel_reach.induct)
  case (boot g e)
  with kernel_boot_inv [of g] show ?case by auto
next
  case (ctor e T td A e')
  with thread_ctor_inv [of e T td] show ?case by (auto simp: kernel_event_hooks)
next
  case (dtor e T td A e')
  with thread_dtor_inv [of e T td] show ?case by (auto simp: kernel_event_hooks)
next
  case (exit e T p A e')
  with process_dtor_inv [of e T A p] show ?case by (auto simp: kernel_event_hooks)
next
  case (sunrise e T rt td ctx l lg e')
  from sunrise.hyps obtain lg' where
    "on_store e td ctx (\<lambda>st. bindR (liftR (sunrise_store st l)) (\<lambda>st'. retR (st', []))) = Inr (lg', e')"
    by (auto simp: kernel_sunrise_def R_eq_Inr)
  then show ?case
    by (rule on_store_inv [OF sunrise.IH]) (auto intro!: retsRI simp: R_eq_Inr elim: sunrise_store_rest)
next
  case (sunset e T rt junk td ctx l lg e')
  from sunset.hyps obtain lg' where
    "on_store e td ctx (\<lambda>st. sunset_store (rt\<lparr>rt_kernel := True\<rparr>) (junk\<lparr>tk_mask := 0\<rparr>) st l []) = Inr (lg', e')"
    by (auto simp: kernel_sunset_def R_eq_Inr)
  then show ?case
    by (rule on_store_inv [OF sunset.IH]) (rule sunset_store_rest, simp)
next
  case (update e T rt td ctx a symbol pattern lg e')
  from update.hyps have run: "on_store e td ctx (\<lambda>st. update_store (rt\<lparr>rt_kernel := True\<rparr>) st a symbol pattern []) = Inr (lg, e')"
    by (simp add: kernel_update_def)
  then have "a \<noteq> 0"
    by (auto simp: on_store_def R_eq_Inr case_eqs update_store_def dest: class_get_nonnull)
  from run show ?case
    by (rule on_store_inv [OF update.IH]) (rule update_store_rest, simp, assumption, rule \<open>a \<noteq> 0\<close>)
qed

subsection \<open>Theorems\<close>

text \<open>
  C28.  In every state a booted kernel can reach, the global store and the store of every thread
  that was created and not destroyed are initialised, satisfy the store invariant and have no
  class locked, and their lifetimes have registered no classes outside the static slots; so creating,
  destroying and asking for a thread's store never fails.
\<close>

theorem kernel_stores_ready:
  assumes "kernel_reach e T"
  shows "store_inv (ke_global e) \<and> unlocked (ke_global e) \<and> static_only (ke_global e)
    \<and> (\<forall>td \<in> T. \<exists>st. ke_td_tesla e td = Some st \<and> store_inv st \<and> unlocked st \<and> static_only st)
    \<and> (\<exists>e'. kernel_event A (Thread_ctor td') e = Inr e')
    \<and> (\<forall>td \<in> T. \<exists>e'. kernel_event A (Thread_dtor td) e = Inr e')
    \<and> (\<forall>td \<in> T. \<forall>st. ke_td_tesla e td = Some st \<longrightarrow>
        kernel_store_get e td TESLA_CONTEXT_THREAD TESLA_MAX_CLASSES TESLA_MAX_INSTANCES = Inr (Inr st, e))"
proof -
  note inv = kernel_reach_inv [OF assms]
  have "kernel_store_get e td TESLA_CONTEXT_THREAD TESLA_MAX_CLASSES TESLA_MAX_INSTANCES = Inr (Inr st, e)"
    if "ke_td_tesla e td = Some st" for td st
  proof -
    have "ts_length st \<noteq> 0"
      using inv that store_inv_length [of st] by (auto simp: kernel_inv_def store_rest_def)
    moreover have "kernel_set_store e td TESLA_CONTEXT_THREAD st = e"
      using that by (simp add: kernel_set_store_def fun_upd_idem)
    ultimately show ?thesis using that
      by (simp add: kernel_store_get_def Let_def)
  qed
  moreover have "\<exists>e'. kernel_event A (Thread_ctor td') e = Inr e'"
    using thread_ctor_inv [OF inv] by (auto simp: kernel_event_hooks [OF inv])
  moreover have "\<forall>td \<in> T. \<exists>e'. kernel_event A (Thread_dtor td) e = Inr e'"
    using thread_dtor_inv(1) [OF inv] by (auto simp: kernel_event_hooks [OF inv])
  ultimately show ?thesis using inv by (auto simp: kernel_inv_def store_rest_def)
qed

text \<open>A kernel with one thread.\<close>

lemma ex_kernel:
  obtains e where "kernel_reach e {3}"
proof -
  obtain e0 where e0: "kernel_boot True = Inr e0" "kernel_inv e0 {}"
    using kernel_boot_inv by blast
  obtain st where "kernel_event Map.empty (Thread_ctor 3) e0 =
      Inr (e0\<lparr>ke_td_tesla := (ke_td_tesla e0)(3 := Some st)\<rparr>)"
    using thread_ctor_inv [OF e0(2), of 3] kernel_event_hooks(1) [OF e0(2)] by auto
  then have "kernel_reach (e0\<lparr>ke_td_tesla := (ke_td_tesla e0)(3 := Some st)\<rparr>) {3}"
    by (rule kernel_reach.ctor [OF kernel_reach.boot [OF e0(1)], rotated]) simp
  then show thesis by (rule that)
qed

theorem kernel_stores_ready_witness:
  "\<exists>e st. kernel_reach e {3} \<and> ke_td_tesla e 3 = Some st \<and> store_inv st"
proof -
  obtain e where e: "kernel_reach e {3}" by (rule ex_kernel)
  from kernel_stores_ready [OF this] have "\<exists>st. ke_td_tesla e 3 = Some st \<and> store_inv st" by blast
  with e show ?thesis by blast
qed

text \<open>
  When a process ends, every automaton in the store of its first thread is back in its initial
  state, with all its instances unused; the stores of other threads and the global store are not
  touched.
\<close>

theorem process_exit_resets:
  assumes "kernel_reach e T" and "ke_td_tesla e td = Some st"
  shows "\<exists>e' st'. kernel_event A (Process_dtor (td # p)) e = Inr e' \<and> ke_td_tesla e' td = Some st'
    \<and> (\<forall>c \<in> set (classes st'). unused c = length (insts c) \<and> tc_free c = tc_limit c)
    \<and> map tc_automaton (classes st') = map tc_automaton (classes st)
    \<and> ke_global e' = ke_global e \<and> (\<forall>td'. td' \<noteq> td \<longrightarrow> ke_td_tesla e' td' = ke_td_tesla e td')"
proof -
  note inv = kernel_reach_inv [OF assms(1)]
  from inv assms(2) have rest: "store_rest st" by (auto simp: kernel_inv_def)
  let ?st' = "st\<lparr>ts_classes := Some (map reset_class (classes st))\<rparr>"
  have "kernel_event A (Process_dtor (td # p)) e =
      Inr (e\<lparr>ke_td_tesla := (ke_td_tesla e)(td := Some ?st')\<rparr>)"
    using store_reset_rest(1) [OF rest, of A 0] assms(2)
    by (simp add: kernel_event_hooks [OF inv] tesla_perthread_process_dtor_def)
  moreover have "\<forall>c \<in> set (classes ?st'). unused c = length (insts c) \<and> tc_free c = tc_limit c"
    by (auto simp: countp_def filter_replicate)
  ultimately show ?thesis
    by (intro exI [of _ "e\<lparr>ke_td_tesla := (ke_td_tesla e)(td := Some ?st')\<rparr>"] exI [of _ ?st'])
      (auto simp: comp_def)
qed

theorem process_exit_resets_witness:
  "\<exists>e e' st'. kernel_reach e {3} \<and> kernel_event Map.empty (Process_dtor [3]) e = Inr e'
    \<and> ke_td_tesla e' 3 = Some st' \<and> ke_global e' = ke_global e"
proof -
  obtain e where e: "kernel_reach e {3}" by (rule ex_kernel)
  with kernel_reach_inv obtain st where "ke_td_tesla e 3 = Some st"
    by (fastforce simp: kernel_inv_def)
  from process_exit_resets [OF e this, of Map.empty "[]"] e show ?thesis by blast
qed

end
