(* ===== verification/Tesla_Pthread.thy ===== *)
theory Tesla_Pthread
  imports Tesla_Types
begin

text \<open>
  \<open>pthread_key()\<close> of \<open>libtesla/src/tesla_store.c\<close>: the key under which a thread's store is kept,
  created by whichever thread asks first.  The function is a state machine whose steps are its
  reads and writes of shared state, interleaved between threads; memory is sequentially
  consistent.  \<open>pk_step ok s tid\<close> is the next step of thread \<open>tid\<close>: \<open>None\<close> when it has to wait for
  the mutex, and \<open>ok\<close> says whether \<open>pthread_key_create\<close> succeeds in that step.
\<close>

subsection \<open>The state machine\<close>

text \<open>Where a thread is in the function.\<close>

datatype pk_pc =
    Pk_start  \<comment> \<open>the check without the lock\<close>
  | Pk_lock
  | Pk_check  \<comment> \<open>the check inside the critical section\<close>
  | Pk_create
  | Pk_set
  | Pk_unlock
  | Pk_return nat
  | Pk_aborted

record pk_state =
  pk_key :: nat
  key_initialised :: bool
  pk_lock :: "nat option" \<comment> \<open>the thread that holds the mutex\<close>
  pk_created :: nat \<comment> \<open>keys created so far in the process\<close>
  pk_pc :: "nat \<Rightarrow> pk_pc"

definition pk_initial :: pk_state where
  "pk_initial = \<lparr>pk_key = 0, key_initialised = False, pk_lock = None, pk_created = 0,
     pk_pc = (\<lambda>_. Pk_start)\<rparr>"

definition goto :: "pk_state \<Rightarrow> nat \<Rightarrow> pk_pc \<Rightarrow> pk_state" where
  "goto s tid pc = s\<lparr>pk_pc := (pk_pc s)(tid := pc)\<rparr>"

definition pk_step :: "bool \<Rightarrow> pk_state \<Rightarrow> nat \<Rightarrow> pk_state option" where
  "pk_step ok s tid = (case pk_pc s tid of
     Pk_start \<Rightarrow> Some (goto s tid (if key_initialised s then Pk_return (pk_key s) else Pk_lock))
   | Pk_lock \<Rightarrow> (case pk_lock s of
       None \<Rightarrow> Some (goto (s\<lparr>pk_lock := Some tid\<rparr>) tid Pk_check)
     | Some _ \<Rightarrow> None)
   | Pk_check \<Rightarrow> Some (goto s tid (if key_initialised s then Pk_return (pk_key s) else Pk_create))
   | Pk_create \<Rightarrow>
       if ok then Some (goto (s\<lparr>pk_key := Suc (pk_created s), pk_created := Suc (pk_created s)\<rparr>) tid Pk_set)
       else Some (goto s tid Pk_aborted)
   | Pk_set \<Rightarrow> Some (goto (s\<lparr>key_initialised := True\<rparr>) tid Pk_unlock)
   | Pk_unlock \<Rightarrow> Some (goto (s\<lparr>pk_lock := None\<rparr>) tid (Pk_return (pk_key s)))
   | Pk_return _ \<Rightarrow> Some (goto s tid Pk_start)
   | Pk_aborted \<Rightarrow> None)"

text \<open>A thread that has returned may call the function again.\<close>

inductive pk_steps :: "pk_state \<Rightarrow> pk_state \<Rightarrow> bool" where
  refl: "pk_steps s s"
| step: "pk_steps s t \<Longrightarrow> pk_step ok t tid = Some u \<Longrightarrow> pk_steps s u"

text \<open>A schedule: the threads that step, in order; a blocked thread does not move.\<close>

fun pk_run :: "pk_state \<Rightarrow> nat list \<Rightarrow> pk_state" where
  "pk_run s [] = s"
| "pk_run s (tid # tids) =
     pk_run (case pk_step True s tid of None \<Rightarrow> s | Some t \<Rightarrow> t) tids"

lemma pk_steps_trans: "pk_steps t u \<Longrightarrow> pk_steps s t \<Longrightarrow> pk_steps s u"
  by (induction rule: pk_steps.induct) (auto intro: pk_steps.intros)

lemma pk_run_steps: "pk_steps s t \<Longrightarrow> pk_steps s (pk_run t tids)"
  by (induction tids arbitrary: t) (auto split: option.split intro: pk_steps.intros)

lemma pk_run_append: "pk_run s (xs @ ys) = pk_run (pk_run s xs) ys"
  by (induction xs arbitrary: s) simp_all

lemma pk_step_others: "pk_step ok s tid = Some s' \<Longrightarrow> t \<noteq> tid \<Longrightarrow> pk_pc s' t = pk_pc s t"
  by (auto simp: pk_step_def goto_def split: pk_pc.splits option.splits if_splits)

lemma pk_run_others:
  "pk_pc s t = Pk_start \<Longrightarrow> t \<notin> set tids \<Longrightarrow> pk_pc (pk_run s tids) t = Pk_start"
  by (induction tids arbitrary: s) (auto split: option.split simp: pk_step_others)

subsection \<open>One key\<close>

definition inside :: "pk_pc \<Rightarrow> bool" where
  "inside pc \<longleftrightarrow> pc \<in> {Pk_check, Pk_create, Pk_set, Pk_unlock, Pk_aborted}"

text \<open>
  Only the holder of the mutex is in the critical section; before the key is published it exists
  exactly when the holder has created it; afterwards there is one key and nobody creates another.
\<close>

definition holder_at :: "pk_state \<Rightarrow> pk_pc \<Rightarrow> bool" where
  "holder_at s pc = (case pk_lock s of None \<Rightarrow> False | Some h \<Rightarrow> pk_pc s h = pc)"

definition pk_inv :: "pk_state \<Rightarrow> bool" where
  "pk_inv s \<longleftrightarrow>
     (\<forall>t. inside (pk_pc s t) \<longrightarrow> pk_lock s = Some t)
     \<and> (\<forall>t k. pk_pc s t = Pk_return k \<longrightarrow> k = 1 \<and> key_initialised s)
     \<and> (if key_initialised s
        then pk_created s = 1 \<and> pk_key s = 1 \<and> \<not> holder_at s Pk_create \<and> \<not> holder_at s Pk_set
        else \<not> holder_at s Pk_unlock
          \<and> (if holder_at s Pk_set then pk_created s = 1 \<and> pk_key s = 1 else pk_created s = 0))"

lemma pk_inv_initial: "pk_inv pk_initial"
  by (simp add: pk_inv_def pk_initial_def inside_def holder_at_def)

lemma goto_simps [simp]:
  "pk_pc (goto s tid pc) t = (if t = tid then pc else pk_pc s t)"
  "pk_lock (goto s tid pc) = pk_lock s" "pk_key (goto s tid pc) = pk_key s"
  "pk_created (goto s tid pc) = pk_created s"
  "key_initialised (goto s tid pc) = key_initialised s"
  by (simp_all add: goto_def)

text \<open>A step outside the critical section leaves the holder where it is.\<close>

lemma pk_inv_outside:
  assumes "pk_inv s" and "\<not> inside (pk_pc s tid)" and "\<not> inside pc"
    and "\<And>k. pc = Pk_return k \<Longrightarrow> k = 1 \<and> key_initialised s"
  shows "pk_inv (goto s tid pc)"
proof -
  have "holder_at (goto s tid pc) x = holder_at s x" if "inside x" for x
    using that assms(2,3) by (auto simp: holder_at_def split: option.split)
  then have "holder_at (goto s tid pc) x = holder_at s x" if "x \<in> {Pk_create, Pk_set, Pk_unlock}" for x
    using that by (auto simp: inside_def)
  with assms(1,3) show ?thesis by (auto simp: pk_inv_def dest: assms(4))
qed

text \<open>A step of the holder moves only the holder.\<close>

lemma pk_inv_holder:
  assumes "pk_inv s" and "inside (pk_pc s tid)"
  shows "pk_lock s = Some tid" and "\<And>x. holder_at s x \<longleftrightarrow> pk_pc s tid = x"
    and "\<And>t. t \<noteq> tid \<Longrightarrow> \<not> inside (pk_pc s t)"
proof -
  from assms(1) have own: "inside (pk_pc s t) \<Longrightarrow> pk_lock s = Some t" for t by (simp add: pk_inv_def)
  show lock: "pk_lock s = Some tid" using own assms(2) by blast
  then show "holder_at s x \<longleftrightarrow> pk_pc s tid = x" for x by (simp add: holder_at_def)
  show "t \<noteq> tid \<Longrightarrow> \<not> inside (pk_pc s t)" for t using own lock by auto
qed

lemma pk_step_inv:
  assumes "pk_inv s" and "pk_step ok s tid = Some s'"
  shows "pk_inv s'"
proof (cases "inside (pk_pc s tid)")
  case True
  note own = pk_inv_holder [OF assms(1) this]
  from assms(1) have ret: "\<And>t k. pk_pc s t = Pk_return k \<Longrightarrow> k = 1 \<and> key_initialised s"
    and vals: "if key_initialised s
        then pk_created s = 1 \<and> pk_key s = 1 \<and> pk_pc s tid \<noteq> Pk_create \<and> pk_pc s tid \<noteq> Pk_set
        else pk_pc s tid \<noteq> Pk_unlock
          \<and> (if pk_pc s tid = Pk_set then pk_created s = 1 \<and> pk_key s = 1 else pk_created s = 0)"
    unfolding pk_inv_def own(2) by blast+
  show ?thesis
    using True own(1,3) assms(2) ret vals unfolding pk_inv_def
    by (cases "pk_pc s tid")
      (auto simp: pk_step_def inside_def holder_at_def split: if_splits dest: ret)
next
  case False
  then consider "pk_pc s tid = Pk_start" | "pk_pc s tid = Pk_lock" | k where "pk_pc s tid = Pk_return k"
    by (cases "pk_pc s tid") (auto simp: inside_def)
  then show ?thesis
  proof cases
    case 1
    have "key_initialised s \<Longrightarrow> pk_key s = 1" using assms(1) by (simp add: pk_inv_def)
    with 1 assms False show ?thesis
      by (cases "key_initialised s")
        (auto simp: pk_step_def inside_def intro!: pk_inv_outside)
  next
    case 2
    with assms(2) have free: "pk_lock s = None"
      and s': "s' = goto (s\<lparr>pk_lock := Some tid\<rparr>) tid Pk_check"
      by (auto simp: pk_step_def split: option.splits)
    from assms(1) free 2 show ?thesis
      unfolding s' pk_inv_def by (auto simp: holder_at_def split: if_splits)
  next
    case (3 k)
    with assms False show ?thesis
      by (auto simp: pk_step_def inside_def intro!: pk_inv_outside)
  qed
qed

lemma pk_steps_inv: "pk_steps s t \<Longrightarrow> pk_inv s \<Longrightarrow> pk_inv t"
  by (induction rule: pk_steps.induct) (auto intro: pk_step_inv)

subsection \<open>The lock that is not given back\<close>

text \<open>The holder is outside the critical section and the key exists.\<close>

definition abandoned :: "nat \<Rightarrow> pk_state \<Rightarrow> bool" where
  "abandoned h s \<longleftrightarrow> pk_lock s = Some h \<and> key_initialised s
     \<and> (\<forall>t. \<not> inside (pk_pc s t)) \<and> pk_pc s h \<noteq> Pk_lock"

lemma abandoned_step:
  assumes "abandoned h s" and "pk_step ok s tid = Some s'"
  shows "abandoned h s'" and "pk_pc s t = Pk_lock \<Longrightarrow> pk_pc s' t = Pk_lock"
  using assms
  by (cases "pk_pc s tid"; auto simp: abandoned_def pk_step_def inside_def split: if_splits;
      metis pk_pc.distinct)+

lemma abandoned_forever:
  "pk_steps s s' \<Longrightarrow> abandoned h s \<Longrightarrow> abandoned h s' \<and> (pk_pc s t = Pk_lock \<longrightarrow> pk_pc s' t = Pk_lock)"
  by (induction rule: pk_steps.induct) (auto intro: abandoned_step)


subsection \<open>Theorems\<close>

text \<open>
  C29.  However the threads interleave, at most one key is created in the process, every call that
  returns gives that key, and at most one thread is in the critical section.
\<close>

theorem pthread_key_once:
  assumes "pk_steps pk_initial s"
  shows "pk_created s \<le> 1 \<and> (\<forall>t k. pk_pc s t = Pk_return k \<longrightarrow> pk_created s = 1 \<and> k = pk_key s)
    \<and> (\<forall>t u. inside (pk_pc s t) \<longrightarrow> inside (pk_pc s u) \<longrightarrow> t = u)"
proof -
  from pk_steps_inv [OF assms pk_inv_initial] have inv: "pk_inv s" .
  then have own: "\<And>t. inside (pk_pc s t) \<Longrightarrow> pk_lock s = Some t" by (simp add: pk_inv_def)
  have "pk_created s \<le> 1" using inv by (auto simp: pk_inv_def split: if_splits)
  moreover have "pk_created s = 1 \<and> k = pk_key s" if "pk_pc s t = Pk_return k" for t k
    using inv that by (auto simp: pk_inv_def split: if_splits)
  moreover have "t = u" if "inside (pk_pc s t)" "inside (pk_pc s u)" for t u
    using own [OF that(1)] own [OF that(2)] by simp
  ultimately show ?thesis by blast
qed

definition ex_race :: "nat list" where
  "ex_race = [0, 1, 2, 0, 0, 0, 0, 0, 1, 1]"

theorem pthread_key_once_witness:
  "pk_created (pk_run pk_initial ex_race) \<le> 1 \<and> pk_pc (pk_run pk_initial ex_race) 1 = Pk_return 1"
proof
  from pthread_key_once [OF pk_run_steps [OF pk_steps.refl]]
  show "pk_created (pk_run pk_initial ex_race) \<le> 1" by blast
qed code_simp

text \<open>
  C30.  The second check returns with the mutex held: in this race of three threads, where the
  second one finds the key made when it gets the mutex, the third one waits for the mutex under
  every continuation of the schedule.
\<close>

theorem pthread_key_hangs:
  "pk_pc (pk_run pk_initial (ex_race @ tids)) 2 = Pk_lock
    \<and> pk_lock (pk_run pk_initial (ex_race @ tids)) = Some 1"
proof -
  let ?s = "pk_run pk_initial ex_race"
  have run: "pk_run pk_initial (xs @ ys) = pk_run (pk_run pk_initial xs) ys" for xs ys
    by (rule pk_run_append)
  have "inside (pk_pc ?s t) = False" for t
  proof (cases "t \<le> 2")
    case True
    then have "t = 0 \<or> t = 1 \<or> t = 2" by auto
    moreover have "\<not> inside (pk_pc ?s 0)" "\<not> inside (pk_pc ?s 1)" "\<not> inside (pk_pc ?s 2)" by code_simp+
    ultimately show ?thesis by auto
  next
    case False
    then have "pk_pc ?s t = Pk_start" by (intro pk_run_others) (auto simp: ex_race_def pk_initial_def)
    then show ?thesis by (simp add: inside_def)
  qed
  moreover have "pk_lock ?s = Some 1" "key_initialised ?s" "pk_pc ?s 1 \<noteq> Pk_lock" "pk_pc ?s 2 = Pk_lock"
    by code_simp+
  ultimately have "abandoned 1 ?s" by (simp add: abandoned_def)
  from abandoned_forever [OF pk_run_steps [OF pk_steps.refl] this] \<open>pk_pc ?s 2 = Pk_lock\<close>
  show ?thesis unfolding run abandoned_def by blast
qed

end
