(* ===== verification/Spec2Isabelle.thy ===== *)
theory Spec2Isabelle
  imports Tesla_Monitor Tesla_Callee_Correct Tesla_Caller_Correct Tesla_Site_Correct Tesla_Parser_Correct Tesla_Manifest Tesla_Assertion Tesla_Kernel Tesla_Pthread
begin

text \<open>
  TESLA checks temporal assertions about a C program while the program runs.  An assertion in the
  source, such as \<open>previously(check(x) == 0)\<close>, names events (calls, returns, assignments to fields)
  within bounds (the call and the return of a function).  The \<^emph>\<open>analyser\<close> writes the assertions
  into a manifest of protocol buffers; the \<^emph>\<open>compiler\<close> (\<open>src/tesla/common\<close>) turns each into a
  nondeterministic and then a deterministic automaton; the \<^emph>\<open>instrumenter\<close>
  (\<open>src/tesla/instrumenter\<close>) puts the automaton's tables and calls of the run-time library into the
  program; and \<^emph>\<open>libtesla\<close> (\<open>src/libtesla\<close>), linked with the program or part of the FreeBSD
  kernel, keeps instances of the automata and reports events that no transition allows.

  \<^bold>\<open>libtesla.\<close>  A \<^emph>\<open>store\<close>, global or per thread, has a hash table of \<^emph>\<open>classes\<close>, one per
  automaton, and a table of \<^emph>\<open>lifetimes\<close> that have begun.  A class has a fixed number of instance
  slots; an instance is a state and a key, a partial assignment to the automaton's variables.
  The entry points are \<open>tesla_sunrise\<close> and \<open>tesla_sunset\<close> for the ends of a lifetime and
  \<open>tesla_update_state\<close> for everything between.
  \<^item> \<open>Tesla_Prelude\<close>: the result type, lists and words; \<open>Tesla_Types\<close>: the structures and
    constants of \<open>libtesla.h\<close> and \<open>tesla_internal.h\<close>.
  \<^item> \<open>Tesla_Key\<close> (\<open>tesla_key.h\<close>), \<open>Tesla_Class\<close> (\<open>tesla_class*.c\<close>), \<open>Tesla_Store\<close> and
    \<open>Tesla_Probing\<close> (\<open>tesla_store.c\<close>): keys compared and joined by bit masks are partial
    functions, extension and union; creating, finding and resetting instances keeps the class
    invariant; open addressing finds a class again and reports a full table only when it is full.
  \<^item> \<open>Tesla_Notification\<close>, \<open>Tesla_Print\<close>, \<open>Tesla_Debugging\<close>, \<open>Tesla_Dtrace\<close>
    (\<open>tesla_notification.c\<close>, \<open>tesla_debug.c\<close>, \<open>tesla_dtrace.c\<close>): handlers, what they print and
    within which bounds, and the default policy.
  \<^item> \<open>Tesla_Update\<close> (\<open>tesla_update.c\<close>) with \<open>Tesla_Update_Inv\<close>, \<open>Tesla_Update_Spec\<close> and
    \<open>Tesla_Lifetimes\<close>: an update refines an abstract step on the multiset of live instances,
    reports exactly the failures there are, and keeps the invariants; what lifetimes do.
  \<^item> \<open>Tesla_Process\<close>: the states a process reaches through the entry points, by any threads, one call
    after the other, with the outcomes of its allocations.  \<open>Tesla_Kernel\<close>: the kernel's hooks and stores,
    and the entry points as the kernel build has them.  \<open>Tesla_Pthread\<close>: the creation of the
    thread-specific key as an interleaving of atomic steps.  \<open>SuperFastHash\<close>: the hash.

  \<^bold>\<open>The analyser.\<close>  Assertions are written with the macros of \<open>include/tesla-macros.h\<close>.  \<open>Tesla_Clang\<close> has
  the syntax trees of C as far as the analyser tells them apart, and a record of what Clang computes.
  \<^item> \<open>Tesla_Parser\<close> (\<open>Parser.cpp\<close>) turns C expressions into messages; its state has the variables met
    so far, the free ones and the fields assigned to.  \<open>Tesla_Analyser\<close> (\<open>Parser.cpp\<close>, \<open>Visitor.cpp\<close>,
    \<open>AST.cpp\<close>) finds assertions and automata in a translation unit and makes the manifest.
  \<^item> \<open>Tesla_Macros\<close>: the macros as functions on C expressions; assertions, how they are written and what
    they mean.  \<open>Tesla_Parser_Correct\<close>: what is written is parsed as what it means, with its variables
    numbered in the order of their first occurrence; and constructs that the parser takes for
    something else.

  \<^bold>\<open>The compiler.\<close>  The messages of \<open>tesla.proto\<close> are datatypes and records (\<open>Tesla_IR\<close>); states
  and transitions are two lists in a graph (\<open>Tesla_Automaton\<close>), identified by their positions, which
  are their numbers in the code.
  \<^item> \<open>Tesla_NFA\<close>, \<open>Tesla_NFA_Inv\<close>: the parser of \<open>Automaton.cpp\<close>; what it returns is well-formed.
  \<^item> \<open>Tesla_DFA\<close>, \<open>Tesla_DFA_Correct\<close>, \<open>Tesla_DFA_Total\<close>, \<open>Tesla_Accept\<close>: the subset construction; it
    returns unless epsilon transitions form a cycle, the result is deterministic, follows the
    original automaton exactly and misses no acceptance.
  \<^item> \<open>Tesla_Path\<close>, \<open>Tesla_Language\<close>, \<open>Tesla_Assertion\<close>: the event sequences an assertion describes,
    as a language, and that the parsed automaton accepts exactly these, for assertions without unbounded
    repetition and conjunction, which the compiler does not support.
  \<^item> \<open>Tesla_Compiler\<close>: the compiler's properties; \<open>Tesla_Labels\<close>: how automata are written;
    \<open>Tesla_Manifest\<close> (\<open>Manifest.cpp\<close>): the map of automata and the list of lifetimes.

  \<^bold>\<open>The instrumenter.\<close>  \<open>Tesla_LLVM\<close> has the part of LLVM's intermediate language that the
  instrumenter writes, and its execution; \<open>Tesla_Blocks\<close> how redirecting branches composes runs.
  \<^item> \<open>Tesla_Translation\<close>, \<open>Tesla_Translation_Correct\<close> (\<open>TranslationFn.cpp\<close>, \<open>EventTranslator.cpp\<close>):
    calling a translation function does what a function on patterns and values says.
  \<^item> \<open>Tesla_Description\<close> (\<open>InstrContext.cpp\<close>): the tables libtesla reads, as libtesla's own records;
    libtesla recognises lifetimes by the serialised messages of their events, as far as it compares them.
  \<^item> \<open>Tesla_Module\<close> has modules: functions with the program's own calls, globals and structures.
    \<open>Tesla_Callee\<close> (\<open>Callee.cpp\<close>) and \<open>Tesla_Caller\<close> (\<open>Caller.cpp\<close>) are the passes that put calls of
    instrumentation functions at the beginning and the ends of functions and around the calls of
    functions; \<open>Tesla_Site\<close> (\<open>Assertion.cpp\<close>) converts assertion sites.  \<open>Tesla_Pass\<close> has the contract of
    the first two as the locale \<open>event_pass\<close>; \<open>Tesla_Callee_Correct\<close> and \<open>Tesla_Caller_Correct\<close>
    interpret it: exactly the functions that the manifest names are instrumented, and their
    instrumentation passes on exactly the events that the manifest describes.
    \<open>Tesla_Site_Correct\<close>: a converted site passes the values of the assertion's variables.

  \<^bold>\<open>Together.\<close>  \<open>Tesla_Monitor\<close> joins compiler, description and libtesla: for an assertion
  without variables, the live instance of the automaton's class follows the deterministic automaton,
  and libtesla reports a failure exactly if the automaton parsed from the assertion cannot read the
  program's events.  With the default handlers the program is stopped at exactly that event.

  \<^bold>\<open>Interfaces.\<close>  A pass over events is the locale \<open>event_pass\<close>, interpreted for the callee and the
  caller pass.  The order of \<open>std::map\<close>'s keys is the locale \<open>key_order\<close>, interpreted for the order on
  identifiers.  \<open>Tesla_Examples\<close> has the data most witnesses use.

  \<^bold>\<open>Errors, bounds and fuel.\<close>  A failed assertion, a \<open>panic\<close> and undefined behaviour (a
  dereferenced null pointer, an access out of bounds) are values of the error type on the left of
  the result type; a function that returns has avoided them all.  Words keep their 32 or 64 bits.
  \<open>collectFrontier\<close>, which may recurse forever, has a bound on its depth; it is the number of states,
  and running out of it is proved to mean an epsilon cycle.  Following sub-automata has a bound on
  their nesting; the properties hold for every bound.  A run of a translation function has as many
  steps as the function has blocks, which is proved to be enough.  The loops of libtesla are total.

  \<^bold>\<open>Assumptions.\<close>  libtesla has its debugging assertions on; whether it is the user-space library or in
  the kernel is a field of the runtime where the two differ within an update, and \<open>Tesla_Kernel\<close> has what
  only the kernel does.  Handlers observe; they do not call libtesla.  The results of \<open>malloc\<close> are a list
  of successes and failures, an argument, and succeed past its end.  Strings are lists of characters, and
  have no NUL unless they are serialised messages.  \<open>char\<close> is signed.  Updates of one class do not overlap,
  which its lock ensures.  The transitions of one symbol (\<open>TEquivalenceClass\<close>, a \<open>SmallPtrSet\<close>) are walked
  in the order of insertion, as they are up to four members; with more, the order is that of pointers.
  Parsing and serialising messages, the contents of files, memory, the results of the program's own
  calls, and the types and values that Clang gives to expressions are parameters.

  \<^bold>\<open>Not modelled.\<close>  \<open>operator ==\<close> on messages uses protocol buffers' reflection and is
  equality here.  The pass for fields of structures (\<open>FieldReference.cpp\<close>), which
  rewrites loads and stores rather than calls, and the one for annotations are left out; so are the
  drivers of the analyser and of the instrumenter and the macros that declare struct automata.  Debug
  streams, stack traces, the command-line tools, demonstrations, benchmarks and tests have no state that
  these parts rely on.
\<close>

section \<open>Updates\<close>

text \<open>
  C1.  One event, applied to a class that has room for the clones it needs (and with a limit on
  the number of clones that is not below the number of unused slots), does to the live
  instances exactly what the transitions say: every live instance is replaced by its successors
  (itself, in its new state if it takes an update, plus a more specific clone if it forks),
  and if any instance takes a cleanup transition the class ends up empty with all its slots
  unused.  The class invariant and the identity of the class are kept.
\<close>

theorem update_effect:
  assumes "step_ready c autom symbol ev ts"
    and "unat (tc_free c) \<le> m"
    and "step_class rt a autom symbol ev m c = Inr (l, c')"
  shows "live c' = (if \<exists>x \<in> set (insts c). cleans_up ev ts x then {#}
      else mset (concat (map (succs ev ts) (filter tesla_instance_active (insts c)))))
    \<and> ((\<exists>x \<in> set (insts c). cleans_up ev ts x) \<longrightarrow> tc_free c' = tc_limit c')
    \<and> class_inv c' \<and> same_class c c'"
  using step_class_outcome(1,2,3) [OF assms] by (simp add: class_ok_def)

lemma ex_ready:
  "step_ready ex_class ex_automaton 1 (ex_key 7) [ex_tr 1 0 2 1 0]"
  unfolding step_ready_def
proof (intro conjI)
  show "clones_needed (ex_key 7) [ex_tr 1 0 2 1 0] ex_class \<le> unat (tc_free ex_class)" by code_simp
qed (use ex_class_inv in \<open>simp_all add: ex_class_def ex_automaton_def ex_tr_def\<close>)

lemma ex_step:
  "step_class ex_runtime 4096 ex_automaton 1 (ex_key 7) (unat (tc_free ex_class)) ex_class =
   Inr ([Raised (Clone (ex_class\<lparr>tc_free := 0, tc_instances :=
            Some [ex_inst, \<lparr>ti_key = ex_key 7, ti_state = 2\<rparr>]\<rparr>) 0 1 (ex_tr 1 0 2 1 0))],
     ex_class\<lparr>tc_free := 0, tc_instances := Some [ex_inst, \<lparr>ti_key = ex_key 7, ti_state = 2\<rparr>]\<rparr>)"
  by code_simp

theorem update_effect_witness:
  "live (ex_class\<lparr>tc_free := 0, tc_instances := Some [ex_inst, \<lparr>ti_key = ex_key 7, ti_state = 2\<rparr>]\<rparr>)
   = mset (concat (map (succs (ex_key 7) [ex_tr 1 0 2 1 0]) [ex_inst]))"
proof -
  have "\<not> (\<exists>x \<in> set (insts ex_class). cleans_up (ex_key 7) [ex_tr 1 0 2 1 0] x)" by code_simp
  moreover have "filter tesla_instance_active (insts ex_class) = [ex_inst]" by code_simp
  ultimately show ?thesis using update_effect [OF ex_ready order_refl ex_step] by simp
qed

text \<open>
  C12.  Failures are reported exactly: a bad transition is reported for precisely the instances
  that the event names but that no transition for it can be taken by, in slot order, and "no
  instance" is reported precisely when no instance takes an update or a fork.
\<close>

theorem failures_reported:
  assumes "step_ready c autom symbol ev ts"
    and "unat (tc_free c) \<le> m"
    and "step_class rt a autom symbol ev m c = Inr (l, c')"
  shows "bad_reports l = filter (\<lambda>j. act_of ev ts (insts c ! j) = Inr FAIL) [0..<length (insts c)]
    \<and> (no_instance_raised l \<longleftrightarrow>
        \<not> (\<exists>x \<in> set (insts c). act_of ev ts x \<in> {Inr UPDATE, Inr FORK}))"
  using step_class_outcome(4,5) [OF assms] by simp

theorem failures_reported_witness:
  "\<not> no_instance_raised [Raised (Clone (ex_class\<lparr>tc_free := 0, tc_instances :=
      Some [ex_inst, \<lparr>ti_key = ex_key 7, ti_state = 2\<rparr>]\<rparr>) 0 1 (ex_tr 1 0 2 1 0))]"
proof -
  have "act_of (ex_key 7) [ex_tr 1 0 2 1 0] ex_inst = Inr FORK" by code_simp
  moreover have "ex_inst \<in> set (insts ex_class)" by code_simp
  ultimately show ?thesis using failures_reported [OF ex_ready order_refl ex_step] by blast
qed

text \<open>
  C13.  What \<open>tesla_action\<close> decides: an inactive instance is ignored; otherwise the first
  transition that starts in the instance's state and either loses key data or concerns the
  event determines the action; and when there is none, the instance fails exactly when the
  event names it completely and some transition for the event starts elsewhere.
\<close>

theorem action_decision:
  assumes "masks_agree ts inst"
  shows "tesla_action inst ev ts =
     (if \<not> tesla_instance_active inst then Inr (IGNORE, None)
      else case find (takes ev inst) ts of
        Some t \<Rightarrow> Inr (trans_kind t, Some t)
      | None \<Rightarrow> Inr (if \<exists>t \<in> set ts. t_from t \<noteq> ti_state inst \<and> tesla_key_matches ev (ti_key inst)
                     then FAIL else IGNORE, None))"
  by (rule action_spec [OF assms])

theorem action_decision_witness:
  "tesla_action ex_inst (ex_key 7) [ex_tr 1 0 2 1 0] = Inr (FORK, Some (ex_tr 1 0 2 1 0))"
proof -
  have "masks_agree [ex_tr 1 0 2 1 0] ex_inst" by code_simp
  moreover have "takes (ex_key 7) ex_inst (ex_tr 1 0 2 1 0)"
    by (simp add: takes_def concerns_def keys_compatible_def ex_inst_def ex_tr_def zero_key_def ex_key_def)
  moreover have "tesla_instance_active ex_inst" "trans_kind (ex_tr 1 0 2 1 0) = FORK" by code_simp+
  ultimately show ?thesis using action_decision [of "[ex_tr 1 0 2 1 0]" ex_inst "ex_key 7"] by simp
qed

text \<open>
  C14.  The counter \<open>expected\<close> only saves work: for a class that satisfies its invariant and has
  fewer than \<open>2\<^sup>3\<^sup>1\<close> slots, the loop that stops when the counter reaches zero does exactly what a
  loop over all slots does, events and log included.
\<close>

theorem expected_only_saves_work:
  assumes "class_inv c" and "tc_limit c < 2 ^ 31"
  shows "update_loop rt a symbol ev ts m (start c) [0..<unat (tc_limit c)]
    = update_all rt a symbol ev ts m (start c) [0..<unat (tc_limit c)]"
  using update_loop_all [of "start c" 0] expected_active [OF assms] class_invD(1,2) [OF assms(1)]
  by simp

theorem expected_only_saves_work_witness:
  "update_loop ex_runtime 4096 1 (ex_key 7) [ex_tr 1 0 2 1 0] 1 (start ex_class) [0..<2]
    = update_all ex_runtime 4096 1 (ex_key 7) [ex_tr 1 0 2 1 0] 1 (start ex_class) [0..<2]"
proof -
  have "tc_limit ex_class < 2 ^ 31" "unat (tc_limit ex_class) = 2" by (simp_all add: ex_class_def)
  with expected_only_saves_work [OF ex_class_inv, of ex_runtime 4096 1 "ex_key 7" "[ex_tr 1 0 2 1 0]" 1]
  show ?thesis by simp
qed

section \<open>Invariants\<close>



text \<open>
  C16.  Updating one class keeps the store invariant and leaves every other class, the identity
  of the class and the begin and end events of all lifetimes as they were.
\<close>

theorem update_frame:
  assumes "store_inv st"
    and "tesla_update_class_state rt st k symbol pattern ms = Inr (l, (st', ms'))"
  shows "store_inv st' \<and> (\<forall>j. j \<noteq> k \<longrightarrow> classes st' ! j = classes st ! j)
    \<and> same_class (classes st ! k) (classes st' ! k)
    \<and> map tls_begin (lifetimes st') = map tls_begin (lifetimes st)
    \<and> map tls_end (lifetimes st') = map tls_end (lifetimes st)
    \<and> ts_lifetime_count st' = ts_lifetime_count st"
  using retsRD [OF update_class_state_ok [OF assms(1)] assms(2)] by (simp add: store_step_def)

theorem update_frame_witness:
  "\<exists>st k l. store_inv st
    \<and> tesla_update_class_state ex_runtime st k 1 (ex_key 7) [] = Inr (l, (st, []))
    \<and> same_class (classes st ! k) (classes st ! k)"
proof -
  obtain st k where st: "store_inv st" "k < length (classes st)" "tc_automaton (classes st ! k) = 4096"
    "ts_lifetime_count st = 0"
    by (rule ex_get [OF ex_thread, of 4096]) simp_all
  have "rt_automata ex_runtime (tc_automaton (classes st ! k)) = Some ex_automaton"
    by (simp add: st(3) ex_runtime_def ex_automata_def)
  from update_unknown [OF st(1,2) this ex_unknown [OF st(4)]]
  have run: "tesla_update_class_state ex_runtime st k 1 (ex_key 7) [] =
      Inr ([Raised (Ignored (classes st ! k) 1 (ex_key 7))], (st, []))"
    by (simp add: ev_ignored_def ex_runtime_def retR_def)
  with st(1) update_frame [OF st(1) run] show ?thesis by blast
qed

text \<open>
  C17.  An update of a store whose global classes are unlocked takes one class lock and has
  released it again whenever it returns, whatever happened in between.
\<close>

theorem update_releases_lock:
  assumes "store_inv st" and "a \<noteq> 0" and "unlocked st"
    and "update_store rt st a symbol pattern ms = Inr (l, (st', ms'))"
  shows "unlocked st' \<and> store_inv st'"
  using retsRD [OF update_store_unlocked [OF assms(1-3)] assms(4)]
    retsRD [OF update_store_ok [OF assms(1,2)] assms(4)] by simp

theorem update_releases_lock_witness:
  "\<exists>l st'. update_store ex_runtime (ex_store TESLA_CONTEXT_GLOBAL) 4096 1 (ex_key 7) [] = Inr (l, (st', []))
    \<and> unlocked st' \<and> store_inv st'"
proof -
  note ex = ex_store_facts [OF ex_global]
  obtain st k where get: "tesla_class_get (ex_store TESLA_CONTEXT_GLOBAL) 4096 = Inr (Inr (st, k))"
    and st: "store_inv st" "k < length (classes st)" "tc_automaton (classes st ! k) = 4096"
      "ts_lifetime_count st = 0"
    by (rule ex_get [OF ex_global, of 4096]) simp_all
  have "rt_automata ex_runtime (tc_automaton (classes st ! k)) = Some ex_automaton"
    by (simp add: st(3) ex_runtime_def ex_automata_def)
  from update_unknown [OF st(1,2) this ex_unknown [OF st(4)]]
  have upd: "tesla_update_class_state ex_runtime st k 1 (ex_key 7) [] =
      Inr ([Raised (Ignored (classes st ! k) 1 (ex_key 7))], (st, []))"
    by (simp add: ev_ignored_def ex_runtime_def retR_def)
  let ?c = "ex_store TESLA_CONTEXT_GLOBAL"
  from class_get_ok(1) [OF ex(1) _ get] scan_lt [OF ex(1)] have k: "k < length (classes ?c)" by simp
  then have c: "fresh_class TESLA_CONTEXT_GLOBAL TESLA_MAX_INSTANCES (classes ?c ! k)"
    using ex_store_fresh [OF ex_global] by (simp add: fresh_store_def)
  have "st = ?c\<lparr>ts_classes := Some ((classes ?c)[k := (classes ?c ! k)\<lparr>tc_automaton := 4096, tc_lock := Held_mutex\<rparr>])\<rparr>"
    using get class_get_cases(2) [OF ex(1) _ class_get_ok(1) [OF ex(1) _ get]] c
    by (simp add: fresh_class_def class_acquire_cases(3))
  with c k have "tesla_class_put (classes st ! k) = Inr ((classes st ! k)\<lparr>tc_lock := Free_mutex\<rparr>)"
    by (simp add: fresh_class_def tesla_class_put_def tesla_class_global_release_def tesla_unlock_def)
  with get upd st(2) obtain l st' where
    run: "update_store ex_runtime (ex_store TESLA_CONTEXT_GLOBAL) 4096 1 (ex_key 7) [] = Inr (l, (st', []))"
    by (simp add: update_store_def retR_def)
  from update_releases_lock [OF ex(1) _ ex(3) run] run show ?thesis by auto
qed

section \<open>Classes and instances\<close>

text \<open>
  \<open>tesla_instance_new\<close> on a well-formed class always returns, on every branch: an instance
  that would look unused is rejected, a class with no unused instance reports it, and otherwise
  the first unused slot receives the instance, no other slot changes, the counter goes down by
  one and the class stays well-formed.  The assertion at its end cannot fail.
\<close>

theorem instance_new_total:
  assumes "class_inv c" and "wf_key name"
  shows "(state = 0 \<and> tk_mask name = 0 \<and> tesla_instance_new c name state = Inr (Inl TESLA_ERROR_EINVAL))
    \<or> (\<not> (state = 0 \<and> tk_mask name = 0) \<and> tc_free c = 0
        \<and> tesla_instance_new c name state = Inr (Inl TESLA_ERROR_ENOMEM))
    \<or> (\<exists>c' i. \<not> (state = 0 \<and> tk_mask name = 0) \<and> tc_free c \<noteq> 0
        \<and> tesla_instance_new c name state = Inr (Inr (c', i))
        \<and> i < length (insts c) \<and> \<not> tesla_instance_active (insts c ! i)
        \<and> (\<forall>j < i. tesla_instance_active (insts c ! j))
        \<and> insts c' = (insts c)[i := \<lparr>ti_key = name, ti_state = state\<rparr>]
        \<and> tc_free c' = tc_free c - 1 \<and> class_inv c' \<and> same_class c c')"
  using assms(1)
proof (cases rule: instance_new_cases [where name = name and state = state])
  case (new i)
  then show ?thesis
    using class_inv_instance_new [OF assms new(3)] by auto
qed auto

theorem instance_new_total_witness:
  "\<exists>c' i. tesla_instance_new ex_class (ex_key 7) 2 = Inr (Inr (c', i)) \<and> class_inv c'"
proof -
  have "wf_key (ex_key 7)" by (simp add: wf_key_def ex_key_def TESLA_KEY_SIZE_def)
  moreover have "tc_free ex_class \<noteq> 0" by (simp add: ex_class_def)
  ultimately show ?thesis using instance_new_total [OF ex_class_inv, of "ex_key 7" 2] by auto
qed

text \<open>
  \<open>tesla_match\<close> on a well-formed class, given an array that is large enough, returns exactly
  the active instances whose key the pattern matches, in slot order, and their number (which
  never wraps); with a smaller array it stores nothing and says how large it has to be.
\<close>

theorem match_exact:
  assumes "class_inv c"
  shows "tesla_match c p sz =
    (if sz < tc_limit c then Inr (TESLA_ERROR_ENOMEM, tc_limit c, [])
     else let found = filter (\<lambda>i. tesla_instance_active (insts c ! i)
                        \<and> tesla_key_matches p (ti_key (insts c ! i))) [0..<length (insts c)]
          in Inr (TESLA_SUCCESS, of_nat (length found), found))
    \<and> unat (of_nat (length (filter (\<lambda>i. tesla_instance_active (insts c ! i)
         \<and> tesla_key_matches p (ti_key (insts c ! i))) [0..<length (insts c)])) :: u32)
      = length (filter (\<lambda>i. tesla_instance_active (insts c ! i)
         \<and> tesla_key_matches p (ti_key (insts c ! i))) [0..<length (insts c)])"
proof -
  let ?f = "filter (\<lambda>i. tesla_instance_active (insts c ! i)
     \<and> tesla_key_matches p (ti_key (insts c ! i))) [0..<length (insts c)]"
  have "length ?f \<le> unat (tc_limit c)"
    using length_filter_le [of _ "[0..<length (insts c)]"] class_invD(2) [OF assms] by (metis diff_zero length_upt)
  then have "length ?f < 2 ^ LENGTH(32)"
    using unat_bound [of "tc_limit c"] by simp
  then have "unat (of_nat (length ?f) :: u32) = length ?f"
    by (simp add: unat_of_nat)
  moreover have "sz < tc_limit c \<Longrightarrow> tesla_match c p sz = Inr (TESLA_ERROR_ENOMEM, tc_limit c, [])"
    by (simp add: tesla_match_def)
  ultimately show ?thesis
    using match_inv [OF assms, of sz p] by simp
qed

theorem match_exact_witness:
  "tesla_match ex_class zero_key 2 = Inr (TESLA_SUCCESS, 1, [0])"
proof -
  have "\<not> 2 < tc_limit ex_class" by (simp add: ex_class_def)
  moreover have "filter (\<lambda>i. tesla_instance_active (insts ex_class ! i)
      \<and> tesla_key_matches zero_key (ti_key (insts ex_class ! i))) [0..<length (insts ex_class)] = [0]"
    by code_simp
  ultimately show ?thesis using match_exact [OF ex_class_inv, of zero_key 2] by simp
qed

text \<open>
  What is put into a class is found again: after a successful \<open>tesla_instance_new\<close> with a
  non-empty mask or state, a large enough \<open>tesla_match\<close> with any pattern that matches the new
  name returns the new slot among its results, besides every instance that it returned before.
\<close>

theorem new_then_match:
  assumes "class_inv c" and "wf_key name" and "tesla_key_matches p name"
    and "tesla_instance_new c name state = Inr (Inr (c', i))" and "tc_limit c \<le> sz"
  shows "\<exists>before after. tesla_match c p sz = Inr (TESLA_SUCCESS, of_nat (length before), before)
    \<and> tesla_match c' p sz = Inr (TESLA_SUCCESS, of_nat (length after), after)
    \<and> set after = insert i (set before) \<and> i \<notin> set before"
  using assms(1)
proof (cases rule: instance_new_cases [where name = name and state = state])
  case (new j)
  then have c': "i = j" "insts c' = (insts c)[i := \<lparr>ti_key = name, ti_state = state\<rparr>]"
      "tc_limit c' = tc_limit c"
    using assms(4) by auto
  have inv': "class_inv c'" using assms(1,2,4) by (rule class_inv_instance_new)
  have "tc_limit c' \<le> sz" using assms(5) c'(3) by simp
  from match_inv [OF inv' this, of p] match_inv [OF assms(1,5), of p] new c'(1,2) assms(3)
  show ?thesis
    by (auto simp: Let_def nth_list_update tesla_instance_active_def split: if_splits)
qed (use assms(4) in auto)

theorem new_then_match_witness:
  "\<exists>c' i before after. tesla_instance_new ex_class (ex_key 7) 2 = Inr (Inr (c', i))
    \<and> tesla_match c' zero_key 2 = Inr (TESLA_SUCCESS, of_nat (length after), after)
    \<and> set after = insert i (set before) \<and> i \<notin> set before"
proof -
  have wf: "wf_key (ex_key 7)" by (simp add: wf_key_def ex_key_def TESLA_KEY_SIZE_def)
  have m: "tesla_key_matches zero_key (ex_key 7)" by code_simp
  have new: "tesla_instance_new ex_class (ex_key 7) 2 = Inr (Inr (ex_class\<lparr>tc_free := 0,
      tc_instances := Some [ex_inst, \<lparr>ti_key = ex_key 7, ti_state = 2\<rparr>]\<rparr>, 1))"
    by code_simp
  have "tc_limit ex_class \<le> 2" by (simp add: ex_class_def)
  from new_then_match [OF ex_class_inv wf m new this] new show ?thesis by blast
qed

section \<open>Stores\<close>

text \<open>
  C18.  Looking a class up is stable and injective: after the class of one automaton has been
  obtained, obtaining that of another automaton gives a different bucket, and obtaining the
  first one again gives the same bucket as before.
\<close>

theorem class_get_stable:
  assumes "store_inv st" and "a \<noteq> 0" and "b \<noteq> 0" and "a \<noteq> b"
    and "tesla_class_get st a = Inr (Inr (st1, k))" and "tesla_class_get st1 b = Inr (Inr (st2, m))"
    and "tesla_class_get st2 a = Inr (Inr (st3, k'))"
  shows "k' = k \<and> m \<noteq> k \<and> tc_automaton (classes st3 ! k) = a \<and> tc_automaton (classes st3 ! m) = b"
proof -
  note g1 = store_inv_class_get [OF assms(1,2,5)]
  note g2 = store_inv_class_get [OF g1(1) assms(3,6)]
  note g3 = store_inv_class_get [OF g2(1) assms(2,7)]
  note s1 = class_get_ok(1) [OF assms(1,2,5)]
  note s2 = class_get_ok(1) [OF g1(1) assms(3,6)]
  note s3 = class_get_ok(1) [OF g2(1) assms(2,7)]
  have tab2: "table st2 = (table st)[k := Some a, m := Some b]" by (simp add: g2(2) g1(2))
  have "class_table.scan (table st2) a = Some k"
    unfolding tab2 using class_table.scan_stable [OF store_invD(7) [OF assms(1)] s1] s2 by (simp add: g1(2))
  with s3 have k: "k' = k" by simp
  have "m \<noteq> k"
    using class_table.scan_Some(2) [OF s2] scan_lt [OF assms(1) s1] assms(4) by (auto simp: g1(2))
  moreover have "tc_automaton (classes st3 ! m) = b"
    using class_get_ok(2) [OF g2(1) assms(2,7)] g2(4) \<open>m \<noteq> k\<close> k by auto
  ultimately show ?thesis using k g3(4) by simp
qed

theorem class_get_stable_witness:
  "\<exists>st1 k st2 m st3. tesla_class_get (ex_store TESLA_CONTEXT_THREAD) 4096 = Inr (Inr (st1, k))
    \<and> tesla_class_get st1 8192 = Inr (Inr (st2, m)) \<and> tesla_class_get st2 4096 = Inr (Inr (st3, k))
    \<and> m \<noteq> k"
proof -
  obtain st1 k st2 m st3 where
    g: "tesla_class_get (ex_store TESLA_CONTEXT_THREAD) 4096 = Inr (Inr (st1, k))"
      "tesla_class_get st1 8192 = Inr (Inr (st2, m))" "tesla_class_get st2 4096 = Inr (Inr (st3, k))"
    by (rule ex_three_gets)
  have "m \<noteq> k"
    using class_get_stable [OF ex_store_facts(1) [OF ex_thread] _ _ _ g] by simp
  with g show ?thesis by blast
qed

text \<open>
  A lookup in a well-formed store reports that there is no entry exactly when every one of
  the 128 buckets belongs to some other automaton; with unlocked classes, every other lookup
  succeeds.
\<close>

theorem class_get_full:
  assumes "store_inv st" and "unlocked st" and "a \<noteq> 0"
  shows "(tesla_class_get st a = Inr (Inl TESLA_ERROR_ENOENT) \<longleftrightarrow>
      (\<forall>c \<in> set (classes st). tc_automaton c \<noteq> 0 \<and> tc_automaton c \<noteq> a))
    \<and> (tesla_class_get st a \<noteq> Inr (Inl TESLA_ERROR_ENOENT) \<longrightarrow>
      (\<exists>st' k. tesla_class_get st a = Inr (Inr (st', k)) \<and> store_inv st'))"
proof -
  have len: "length (classes st) = unat TESLA_MAX_CLASSES" using store_invD(4) [OF assms(1)] .
  have "class_table.scan (table st) a = None \<longleftrightarrow>
      (\<forall>j < length (classes st). tc_automaton (classes st ! j) \<noteq> 0 \<and> tc_automaton (classes st ! j) \<noteq> a)"
    unfolding class_table.scan_None_iff len [symmetric] by (auto simp: slot_key_def)
  also have "\<dots> \<longleftrightarrow> (\<forall>c \<in> set (classes st). tc_automaton c \<noteq> 0 \<and> tc_automaton c \<noteq> a)"
    by (metis in_set_conv_nth)
  finally have full: "class_table.scan (table st) a = None \<longleftrightarrow>
      (\<forall>c \<in> set (classes st). tc_automaton c \<noteq> 0 \<and> tc_automaton c \<noteq> a)" .
  show ?thesis
  proof (cases "class_table.scan (table st) a")
    case None
    with full class_get_cases(1) [OF assms(1,3)] show ?thesis by simp
  next
    case (Some k)
    with class_get_unlocked [OF assms] obtain st' k' where
      "tesla_class_get st a = Inr (Inr (st', k'))" by auto
    with Some full store_inv_class_get(1) [OF assms(1,3)] show ?thesis by auto
  qed
qed

theorem class_get_full_witness:
  "\<exists>st k. tesla_class_get (ex_store TESLA_CONTEXT_GLOBAL) 4096 = Inr (Inr (st, k)) \<and> store_inv st"
proof -
  note ex = ex_store_facts [OF ex_global]
  obtain st k where "tesla_class_get (ex_store TESLA_CONTEXT_GLOBAL) 4096 = Inr (Inr (st, k))"
    by (rule ex_get [OF ex_global, of 4096]) simp_all
  with class_get_full [OF ex(1,3), of 4096] show ?thesis by auto
qed

text \<open>
  The walk over the buckets relies on the table length dividing \<open>2\<^sup>3\<^sup>2\<close>: with three buckets,
  the 32-bit sum of the hash and the counter wraps in the middle of the walk, and the lookup of
  this automaton reports that there is no entry although the last bucket is free.
\<close>

definition ex_small_store :: tesla_store where
  "ex_small_store = \<lparr>ts_length = 3,
     ts_classes = Some [ex_class, ex_class, ex_class\<lparr>tc_automaton := 0\<rparr>],
     ts_lifetimes = None, ts_lifetime_count = 0\<rparr>"

theorem class_get_wraps:
  "tesla_class_get ex_small_store 3395533669 = Inr (Inl TESLA_ERROR_ENOENT)
    \<and> tc_automaton (classes ex_small_store ! 2) = 0"
  by code_simp

text \<open>
  C19.  Asking for a store in a valid context always succeeds while memory lasts, in any state
  that satisfies the invariant, and gives a store that satisfies the store invariant.
\<close>

theorem store_get_ready:
  assumes "env_inv e" and "valid_context ctx"
  shows "\<exists>r st e'. tesla_store_get e tid ctx TESLA_MAX_CLASSES TESLA_MAX_INSTANCES [] = Inr (Inr r, e', [])
    \<and> store_at e' r = Some st \<and> store_inv st \<and> env_inv e'"
proof -
  obtain r st e' where g: "get_store e tid ctx [] = Inr (r, st, e', [])" "env_inv e'" "store_inv st"
    "store_at e' r = Some st" by (rule get_store_ok [OF assms])
  from g(1) have "tesla_store_get e tid ctx TESLA_MAX_CLASSES TESLA_MAX_INSTANCES [] = Inr (Inr r, e', [])"
    by (auto simp: get_store_def E_eq_Inr case_eqs)
  with g show ?thesis by blast
qed

theorem store_get_ready_witness:
  "\<exists>r st e'. tesla_store_get initial_env 0 TESLA_CONTEXT_THREAD TESLA_MAX_CLASSES TESLA_MAX_INSTANCES []
      = Inr (Inr r, e', []) \<and> store_at e' r = Some st \<and> store_inv st"
  using store_get_ready [OF env_inv_initial ex_thread] by blast

text \<open>
  When the class table cannot be allocated, the first caller is told so, but the length
  has already been set: the next caller is given the store as if it were ready, and looking up
  any class in it reads through a NULL pointer.
\<close>

theorem store_after_failed_init:
  "\<exists>e. tesla_store_get initial_env tid TESLA_CONTEXT_GLOBAL TESLA_MAX_CLASSES TESLA_MAX_INSTANCES [False]
        = Inr (Inl TESLA_ERROR_ENOMEM, e, [])
    \<and> tesla_store_get e tid' TESLA_CONTEXT_GLOBAL TESLA_MAX_CLASSES TESLA_MAX_INSTANCES []
        = Inr (Inr Global_store, e, [])
    \<and> tesla_class_get (se_global e) 4096 = Inl (Undefined ''ts_classes'')"
  by (simp add: tesla_store_get_def ensure_init_def store_at_def set_store_def initial_env_def
      zero_store_def tesla_store_init_def tesla_malloc_def TESLA_MAX_CLASSES_def
      TESLA_MAX_INSTANCES_def tesla_class_get_def classes_def upt_rec Let_def)

section \<open>Keys\<close>

text \<open>
  C20.  A key matches a pattern exactly when it knows every parameter that the pattern knows or
  leaves free, and its assignment of values extends the pattern's.
\<close>

theorem key_match_extends:
  "tesla_key_matches p k \<longleftrightarrow>
   SUBSET (tk_mask p OR tk_freemask p) (tk_mask k) \<and> key_map p \<subseteq>\<^sub>m key_map k"
  by (rule key_matches_map)

text \<open>
  C21.  \<open>tesla_key_union\<close> succeeds exactly when the two keys agree wherever both are known, and
  then the destination stands for the union of the two assignments; when it fails the
  destination's mask is unchanged, so its assignment is too.
\<close>

theorem key_union_joins:
  assumes "wf_key d"
  shows "(fst (tesla_key_union d s) = TESLA_SUCCESS \<longleftrightarrow> keys_compatible d s)
    \<and> (keys_compatible d s \<longrightarrow> key_map (snd (tesla_key_union d s)) = key_map s ++ key_map d
        \<and> key_map d \<subseteq>\<^sub>m key_map (snd (tesla_key_union d s))
        \<and> key_map s \<subseteq>\<^sub>m key_map (snd (tesla_key_union d s)))
    \<and> (\<not> keys_compatible d s \<longrightarrow> fst (tesla_key_union d s) = TESLA_ERROR_EINVAL
        \<and> tk_mask (snd (tesla_key_union d s)) = tk_mask d)"
proof (cases "keys_compatible d s")
  case True
  then have ok: "fst (tesla_key_union d s) = TESLA_SUCCESS" by (rule union_compatible [OF assms])
  then have m: "key_map (snd (tesla_key_union d s)) = key_map s ++ key_map d"
    by (intro key_map_union [OF assms]) (simp add: prod_eq_iff)
  have "key_map s \<subseteq>\<^sub>m key_map s ++ key_map d"
    using True by (auto simp: map_le_def key_map_def map_add_def keys_compatible_def split: if_splits)
  with True ok m show ?thesis by simp
next
  case False
  then show ?thesis using key_union_failure [OF False] by simp
qed

theorem key_union_joins_witness:
  "fst (tesla_key_union zero_key (ex_key 7)) = TESLA_SUCCESS
   \<and> key_map (ex_key 7) \<subseteq>\<^sub>m key_map (snd (tesla_key_union zero_key (ex_key 7)))"
proof -
  have "keys_compatible zero_key (ex_key 7)" by (simp add: keys_compatible_def zero_key_def)
  with key_union_joins [OF wf_zero_key(1), of "ex_key 7"] show ?thesis by blast
qed

section \<open>Lifetimes and initialisation\<close>

text \<open>
  An event for an automaton whose lifetime has not begun in the store is reported as
  ignored, and nothing else happens: no state changes and no other event is raised.
\<close>

theorem ignored_before_sunrise:
  assumes "store_inv st" and "k < length (classes st)"
    and "rt_automata rt (tc_automaton (classes st ! k)) = Some autom"
    and "\<not> known_lifetime st (ta_lifetime autom)"
    and "tesla_update_class_state rt st k symbol pattern ms = Inr (l, (st', ms'))"
  shows "st' = st \<and> ms' = ms \<and> (\<exists>os. l = Raised (Ignored (classes st ! k) symbol pattern) # map Printed os)"
  using assms(5) unfolding update_unknown [OF assms(1-4)]
  by (auto simp: R_eq_Inr ev_ignored_def dest: dispatch_log)

theorem ignored_before_sunrise_witness:
  "\<exists>st k os. tesla_update_class_state ex_runtime st k 1 (ex_key 7) []
    = Inr (Raised (Ignored (classes st ! k) 1 (ex_key 7)) # map Printed os, (st, []))"
proof -
  obtain st k where st: "store_inv st" "k < length (classes st)" "tc_automaton (classes st ! k) = 4096"
    "ts_lifetime_count st = 0"
    by (rule ex_get [OF ex_thread, of 4096]) simp_all
  have a: "rt_automata ex_runtime (tc_automaton (classes st ! k)) = Some ex_automaton"
    by (simp add: st(3) ex_runtime_def ex_automata_def)
  from update_unknown [OF st(1,2) a ex_unknown [OF st(4)]]
  obtain l where run: "tesla_update_class_state ex_runtime st k 1 (ex_key 7) [] = Inr (l, (st, []))"
    by (simp add: ev_ignored_def ex_runtime_def retR_def)
  from ignored_before_sunrise [OF st(1,2) a ex_unknown [OF st(4)] run] run show ?thesis by blast
qed

text \<open>
  While there is room for another lifetime, a sunrise succeeds: afterwards the lifetime is
  known to the store, every lifetime that was known still is, the classes are untouched, and a
  second sunrise of the same lifetime changes nothing.
\<close>

theorem sunrise_makes_known:
  assumes "store_inv st" and "ts_lifetime_count st < TESLA_MAX_CLASSES"
  shows "\<exists>st'. sunrise_store st l = Inr st' \<and> store_inv st' \<and> known_lifetime st' l
    \<and> (\<forall>l'. known_lifetime st l' \<longrightarrow> known_lifetime st' l') \<and> classes st' = classes st
    \<and> (ts_lifetime_count st' < TESLA_MAX_CLASSES \<longrightarrow> sunrise_store st' l = Inr st')"
proof -
  from sunrise_begins [OF assms, of l] obtain st' where
    "sunrise_store st l = Inr st'" and inv: "store_inv st'" and known: "known_lifetime st' l"
    and "\<forall>l'. known_lifetime st l' \<longrightarrow> known_lifetime st' l'" "classes st' = classes st" by blast
  moreover have "ts_lifetime_count st' < TESLA_MAX_CLASSES \<longrightarrow> sunrise_store st' l = Inr st'"
    using sunrise_known [OF inv _ known] by blast
  ultimately show ?thesis by blast
qed

theorem sunrise_makes_known_witness:
  "\<exists>st'. sunrise_store (ex_store TESLA_CONTEXT_GLOBAL) ex_lifetime = Inr st' \<and> known_lifetime st' ex_lifetime"
proof -
  note ex = ex_store_facts [OF ex_global]
  have "ts_lifetime_count (ex_store TESLA_CONTEXT_GLOBAL) < TESLA_MAX_CLASSES"
    by (simp add: ex(2) TESLA_MAX_CLASSES_def)
  from sunrise_makes_known [OF ex(1) this, of ex_lifetime] show ?thesis by blast
qed



text \<open>
  Late initialisation finds the init transition when it is the first transition of the
  first symbol (and no other symbol's first transition is one the search sees): it makes one
  new instance, with an empty name, in the state that transition leads to.
\<close>

theorem late_init_first_symbol:
  assumes "class_inv c" and "tc_free c \<noteq> 0"
    and "unat (ta_alphabet_size autom) \<le> length (ta_transitions autom)" and "0 < unat (ta_alphabet_size autom)"
    and "sees_init autom 0" and "t_to (ta_transitions autom ! 0 ! 0) \<noteq> 0"
    and "\<forall>j. 0 < j \<and> j < unat (ta_alphabet_size autom) \<longrightarrow> \<not> sees_init autom j"
  shows "\<exists>c' i. init_outer autom c 0 None = Inr (Inr (c', Some i)) \<and> class_inv c'
    \<and> i < length (insts c) \<and> \<not> tesla_instance_active (insts c ! i)
    \<and> insts c' = (insts c)[i := \<lparr>ti_key = zero_key, ti_state = t_to (ta_transitions autom ! 0 ! 0)\<rparr>]
    \<and> tc_free c' = tc_free c - 1"
proof -
  from init_outer_first [OF assms] obtain i where
    i: "init_outer autom c 0 None =
      Inr (Inr ((set_inst c i \<lparr>ti_key = zero_key, ti_state = t_to (ta_transitions autom ! 0 ! 0)\<rparr>)
                  \<lparr>tc_free := tc_free c - 1\<rparr>, Some i))"
    "i < length (insts c)" "\<not> tesla_instance_active (insts c ! i)" by blast
  then show ?thesis
    using class_inv_alloc [OF assms(1,2) i(2,3)] by auto
qed

theorem late_init_first_symbol_witness:
  "\<exists>c' i. init_outer ex_automaton ex_class 0 None = Inr (Inr (c', Some i)) \<and> class_inv c'
    \<and> insts c' = (insts ex_class)[i := \<lparr>ti_key = zero_key, ti_state = 1\<rparr>]"
proof -
  have t: "t_to (ta_transitions ex_automaton ! 0 ! 0) = 1" by (simp add: ex_automaton_def ex_tr_def)
  have "\<not> sees_init ex_automaton j" if "0 < j" "j < 3" for j
  proof -
    from that have "j = 1 \<or> j = 2" by auto
    then show ?thesis by (auto simp: sees_init_def ex_automaton_def)
  qed
  moreover have "sees_init ex_automaton 0" by code_simp
  moreover have "tc_free ex_class \<noteq> 0" by (simp add: ex_class_def)
  moreover have "unat (ta_alphabet_size ex_automaton) = 3" "length (ta_transitions ex_automaton) = 3"
    by (simp_all add: ex_automaton_def)
  ultimately show ?thesis
    using late_init_first_symbol [OF ex_class_inv, of ex_automaton] t by auto
qed

text \<open>
  C23.  Because the inner loop of the search advances the outer loop's counter, an init
  transition is overlooked unless it is the first transition of some symbol that has more
  transitions than its own number: if no symbol is like that, the search finds nothing, however
  many init transitions the automaton has.
\<close>

theorem late_init_overlooks:
  assumes "unat (ta_alphabet_size autom) \<le> length (ta_transitions autom)"
    and "\<forall>j < unat (ta_alphabet_size autom). \<not> sees_init autom j"
  shows "init_outer autom c 0 None = Inr (Inr (c, None))"
  using assms by (intro init_outer_none) auto

definition ex_late_automaton :: tesla_automaton where
  "ex_late_automaton = ex_automaton\<lparr>ta_alphabet_size := 2,
     ta_transitions := [[ex_tr 1 0 2 0 0], [ex_tr 0 0 1 0 2]]\<rparr>"

theorem late_init_overlooks_witness:
  "has_flag (ta_transitions ex_late_automaton ! 1 ! 0) TESLA_TRANS_INIT
    \<and> init_outer ex_late_automaton ex_class 0 None = Inr (Inr (ex_class, None))"
proof
  show "has_flag (ta_transitions ex_late_automaton ! 1 ! 0) TESLA_TRANS_INIT" by code_simp
  have "\<not> sees_init ex_late_automaton j" if "j < 2" for j
  proof -
    from that have "j = 0 \<or> j = 1" by auto
    moreover have "\<not> sees_init ex_late_automaton 0" "\<not> sees_init ex_late_automaton 1" by code_simp+
    ultimately show ?thesis by auto
  qed
  moreover have "unat (ta_alphabet_size ex_late_automaton) = 2" "length (ta_transitions ex_late_automaton) = 2"
    by (simp_all add: ex_late_automaton_def)
  ultimately show "init_outer ex_late_automaton ex_class 0 None = Inr (Inr (ex_class, None))"
    by (intro late_init_overlooks) simp_all
qed

end
